(* ===== verification/TA_Prelude.thy ===== *)
theory TA_Prelude
  imports Main "HOL-Library.Multiset" "HOL-Library.Word"
begin

text \<open>
  Generic material the components share: the integer types of the code, lists kept sorted by a
  strict order, the finite maps that \<open>std::map\<close> is modelled by, and lists with distinct keys.

  Machine integers: addresses and cache tags are \<open>boost::uint_t<32>::least\<close>, that is a 32-bit
  word.  Ages (\<open>WayType\<close>) and positions (\<open>PosType\<close>) are \<open>boost::uint_t<8>::least\<close>, one byte:
  they are naturals here, and every addition the code stores back into such a byte is written
  \<open>way_inc\<close>, which wraps at 256.
\<close>

unbundle bit_operations_syntax

type_synonym address = "32 word"
type_synonym tag = "32 word"
type_synonym way = nat

named_theorems wf_simps \<open>unfolding rules of the well-formedness predicates\<close>
named_theorems gamma_intros \<open>introduction rules of the concretisation functions\<close>
named_theorems lru_simps \<open>effect of an access on the ages of an LRU set\<close>

section \<open>Bytes\<close>

definition way_inc :: "way \<Rightarrow> way" where
  "way_inc a = (a + 1) mod 256"

lemma way_inc_eq [simp]: "a < 255 \<Longrightarrow> way_inc a = Suc a"
  by (simp add: way_inc_def)

lemma way_inc_wraps: "way_inc 255 = 0"
  by (simp add: way_inc_def)

section \<open>Words\<close>

lemma unat_add_small: "unat (x :: 32 word) + unat y < 2 ^ 32 \<Longrightarrow> unat (x + y) = unat x + unat y"
  by (simp add: unat_word_ariths)

section \<open>Lists sorted by a strict order\<close>

lemma sorted_wrt_irrefl_notin:
  "sorted_wrt R (x # xs) \<Longrightarrow> (\<And>y. \<not> R y y) \<Longrightarrow> x \<notin> set xs"
  by auto

lemma sorted_wrt_set_unique:
  assumes "\<And>x. \<not> R x x" and trans: "\<And>x y z. R x y \<Longrightarrow> R y z \<Longrightarrow> R x z"
    and "sorted_wrt R xs" and "sorted_wrt R ys" and "set xs = set ys"
  shows "xs = ys"
  using assms(3-5)
proof (induction xs arbitrary: ys)
  case Nil
  then show ?case by simp
next
  case (Cons x xs)
  then obtain y ys' where ys: "ys = y # ys'" by (cases ys) auto
  have "x = y"
  proof (rule ccontr)
    assume "x \<noteq> y"
    with Cons.prems ys have "x \<in> set ys'" "y \<in> set xs" by auto
    with Cons.prems ys have "R x y" "R y x" by auto
    with assms(1) trans show False by blast
  qed
  moreover from Cons.prems ys assms(1) have "x \<notin> set xs" "y \<notin> set ys'" by auto
  ultimately have "set xs = set ys'" using Cons.prems ys by auto
  with Cons.IH Cons.prems ys \<open>x = y\<close> show ?case by auto
qed

section \<open>Lists with distinct keys\<close>

abbreviation keys :: "('k \<times> 'v) list \<Rightarrow> 'k list" where
  "keys es \<equiv> List.map fst es"

lemma map_of_mset_cong:
  assumes "mset xs = mset ys" and "distinct (keys xs)"
  shows "map_of xs = map_of ys"
proof -
  have "mset (keys xs) = mset (keys ys)" using assms(1) by (simp only: mset_map)
  then have "distinct (keys ys)" using assms(2) mset_eq_imp_distinct_iff by blast
  moreover have "set xs = set ys" using assms(1) by (rule mset_eq_setD)
  ultimately show ?thesis using assms(2) map_of_inject_set by blast
qed

lemma map_of_Some_iff:
  "distinct (keys es) \<Longrightarrow> map_of es k = Some v \<longleftrightarrow> (k, v) \<in> set es"
  by simp

lemma distinct_keys_append:
  "distinct (keys (xs @ ys)) \<longleftrightarrow>
     distinct (keys xs) \<and> distinct (keys ys) \<and> set (keys xs) \<inter> set (keys ys) = {}"
  by simp

lemma takeWhile_dropWhile_key:
  assumes "k \<in> set (keys es)"
  obtains v ys where "dropWhile (\<lambda>e. fst e \<noteq> k) es = (k, v) # ys"
    and "es = takeWhile (\<lambda>e. fst e \<noteq> k) es @ (k, v) # ys"
proof -
  have "dropWhile (\<lambda>e. fst e \<noteq> k) es \<noteq> []"
    using assms by (auto simp: dropWhile_eq_Nil_conv)
  then obtain e ys where d: "dropWhile (\<lambda>e. fst e \<noteq> k) es = e # ys"
    by (cases "dropWhile (\<lambda>e. fst e \<noteq> k) es") auto
  then have "fst e = k"
    using hd_dropWhile [of "\<lambda>e. fst e \<noteq> k" es] by auto
  then have "dropWhile (\<lambda>e. fst e \<noteq> k) es = (k, snd e) # ys" using d by (cases e) auto
  moreover have "es = takeWhile (\<lambda>e. fst e \<noteq> k) es @ dropWhile (\<lambda>e. fst e \<noteq> k) es"
    by simp
  ultimately show ?thesis using that by metis
qed

lemma key_notin_takeWhile: "k \<notin> set (keys (takeWhile (\<lambda>e. fst e \<noteq> k) es))"
  by (auto dest: set_takeWhileD)

lemma length_filter_card:
  assumes "distinct (keys es)"
  shows "length (filter P es) = card (fst ` {e \<in> set es. P e})"
proof -
  have "distinct (keys (filter P es))" using assms by (rule distinct_map_filter)
  then have "length (filter P es) = card (set (keys (filter P es)))"
    using distinct_card [of "keys (filter P es)"] by simp
  then show ?thesis by simp
qed

section \<open>Option-valued steps\<close>

text \<open>
  An operation of the code that can stop at a failed \<open>assert\<close> (or never return) is modelled with
  an \<open>option\<close> result: \<open>None\<close> is the abort.  \<open>fold_opt\<close> runs a loop of such steps.
\<close>

fun fold_opt :: "('a \<Rightarrow> 's \<Rightarrow> 's option) \<Rightarrow> 'a list \<Rightarrow> 's \<Rightarrow> 's option" where
  "fold_opt f [] s = Some s"
| "fold_opt f (x # xs) s = (case f x s of None \<Rightarrow> None | Some s' \<Rightarrow> fold_opt f xs s')"

lemma fold_opt_append:
  "fold_opt f (xs @ ys) s = (case fold_opt f xs s of None \<Rightarrow> None | Some s' \<Rightarrow> fold_opt f ys s')"
  by (induction xs arbitrary: s) (auto split: option.splits)

lemma fold_opt_invariant:
  assumes "fold_opt f xs s = Some t" and "P s"
    and "\<And>x s s'. x \<in> set xs \<Longrightarrow> P s \<Longrightarrow> f x s = Some s' \<Longrightarrow> P s'"
  shows "P t"
  using assms
proof (induction xs arbitrary: s)
  case Nil
  then show ?case by simp
next
  case (Cons x xs)
  from Cons.prems(1) obtain s' where s': "f x s = Some s'" "fold_opt f xs s' = Some t"
    by (auto split: option.splits)
  have "P s'" using Cons.prems(3) [OF _ Cons.prems(2) s'(1)] by simp
  then show ?case using Cons.IH s'(2) Cons.prems(3) by (metis list.set_intros(2))
qed

lemma fold_opt_defined:
  assumes "P s" and "\<And>x s. x \<in> set xs \<Longrightarrow> P s \<Longrightarrow> \<exists>s'. f x s = Some s' \<and> P s'"
  shows "\<exists>t. fold_opt f xs s = Some t \<and> P t"
  using assms
proof (induction xs arbitrary: s)
  case Nil
  then show ?case by simp
next
  case (Cons x xs)
  from Cons.prems obtain s' where "f x s = Some s'" "P s'" by fastforce
  moreover have "\<exists>t. fold_opt f xs s' = Some t \<and> P t"
    using Cons.IH [OF \<open>P s'\<close>] Cons.prems(2) by simp
  ultimately show ?case by simp
qed

end
