(* ===== verification/TA_Lattice.thy ===== *)
theory TA_Lattice
  imports TA_Prelude
begin

text \<open>
  The lattice layer (\<open>include/Memory/progana/Lattice.h\<close>, \<open>include/Memory/util/BitstringDomain.h\<close>,
  \<open>Classification.h/.cpp\<close>, \<open>DirtinessClassification.h\<close>).  The C++ templates are generic in a class
  with member functions \<open>join\<close>/\<open>meet\<close> and \<open>==\<close>; here these are arguments.  The locale
  \<open>join_semilattice\<close> is what a class derived from \<open>progana::JoinSemiLattice\<close> promises: its
  laws make the derived comparison operators an order whose least upper bound is \<open>join\<close>.
\<close>

section \<open>Comparison operators derived from join and meet\<close>

definition lat_neq :: "('s \<Rightarrow> 's \<Rightarrow> bool) \<Rightarrow> 's \<Rightarrow> 's \<Rightarrow> bool" where
  "lat_neq eq x y \<longleftrightarrow> \<not> eq x y"

definition po_leq :: "('s \<Rightarrow> 's \<Rightarrow> 's) \<Rightarrow> ('s \<Rightarrow> 's \<Rightarrow> bool) \<Rightarrow> 's \<Rightarrow> 's \<Rightarrow> bool" where
  "po_leq jn eq x y \<longleftrightarrow> eq (jn x y) y"

definition po_geq :: "('s \<Rightarrow> 's \<Rightarrow> 's) \<Rightarrow> ('s \<Rightarrow> 's \<Rightarrow> bool) \<Rightarrow> 's \<Rightarrow> 's \<Rightarrow> bool" where
  "po_geq jn eq x y \<longleftrightarrow> eq (jn x y) x"

definition po_lt :: "('s \<Rightarrow> 's \<Rightarrow> 's) \<Rightarrow> ('s \<Rightarrow> 's \<Rightarrow> bool) \<Rightarrow> 's \<Rightarrow> 's \<Rightarrow> bool" where
  "po_lt jn eq x y \<longleftrightarrow> (let j = jn x y in eq j y \<and> \<not> eq j x)"

definition po_gt :: "('s \<Rightarrow> 's \<Rightarrow> 's) \<Rightarrow> ('s \<Rightarrow> 's \<Rightarrow> bool) \<Rightarrow> 's \<Rightarrow> 's \<Rightarrow> bool" where
  "po_gt jn eq x y \<longleftrightarrow> (let j = jn x y in eq j x \<and> \<not> eq j y)"

text \<open>The overloads for a strict meet semilattice.\<close>

definition po_leq_meet :: "('s \<Rightarrow> 's \<Rightarrow> 's) \<Rightarrow> ('s \<Rightarrow> 's \<Rightarrow> bool) \<Rightarrow> 's \<Rightarrow> 's \<Rightarrow> bool" where
  "po_leq_meet mt eq x y \<longleftrightarrow> eq (mt x y) x"

definition po_geq_meet :: "('s \<Rightarrow> 's \<Rightarrow> 's) \<Rightarrow> ('s \<Rightarrow> 's \<Rightarrow> bool) \<Rightarrow> 's \<Rightarrow> 's \<Rightarrow> bool" where
  "po_geq_meet mt eq x y \<longleftrightarrow> eq (mt x y) y"

definition po_lt_meet :: "('s \<Rightarrow> 's \<Rightarrow> 's) \<Rightarrow> ('s \<Rightarrow> 's \<Rightarrow> bool) \<Rightarrow> 's \<Rightarrow> 's \<Rightarrow> bool" where
  "po_lt_meet mt eq x y \<longleftrightarrow> (let j = mt x y in eq j x \<and> \<not> eq j y)"

definition po_gt_meet :: "('s \<Rightarrow> 's \<Rightarrow> 's) \<Rightarrow> ('s \<Rightarrow> 's \<Rightarrow> bool) \<Rightarrow> 's \<Rightarrow> 's \<Rightarrow> bool" where
  "po_gt_meet mt eq x y \<longleftrightarrow> (let j = mt x y in eq j y \<and> \<not> eq j x)"

text \<open>
  Join (and meet) over an iterator range: an empty range gives the default-constructed element,
  otherwise the first element is combined with the others from left to right.
\<close>

fun join_range :: "'s \<Rightarrow> ('s \<Rightarrow> 's \<Rightarrow> 's) \<Rightarrow> 's list \<Rightarrow> 's" where
  "join_range dflt jn [] = dflt"
| "join_range dflt jn (x # xs) = foldl jn x xs"

fun meet_range :: "'s \<Rightarrow> ('s \<Rightarrow> 's \<Rightarrow> 's) \<Rightarrow> 's list \<Rightarrow> 's" where
  "meet_range dflt mt [] = dflt"
| "meet_range dflt mt (x # xs) = foldl mt x xs"

section \<open>The contract of a join semilattice\<close>

locale join_semilattice =
  fixes inv :: "'s \<Rightarrow> bool"
    and jn :: "'s \<Rightarrow> 's \<Rightarrow> 's"
    and eq :: "'s \<Rightarrow> 's \<Rightarrow> bool"
  assumes jn_inv: "inv x \<Longrightarrow> inv y \<Longrightarrow> inv (jn x y)"
    and eq_iff: "inv x \<Longrightarrow> inv y \<Longrightarrow> eq x y \<longleftrightarrow> x = y"
    and jn_assoc: "inv x \<Longrightarrow> inv y \<Longrightarrow> inv z \<Longrightarrow> jn (jn x y) z = jn x (jn y z)"
    and jn_comm: "inv x \<Longrightarrow> inv y \<Longrightarrow> jn x y = jn y x"
    and jn_idem: "inv x \<Longrightarrow> jn x x = x"
begin

lemma leq_iff: "inv x \<Longrightarrow> inv y \<Longrightarrow> po_leq jn eq x y \<longleftrightarrow> jn x y = y"
  by (simp add: po_leq_def eq_iff jn_inv)

lemma leq_refl: "inv x \<Longrightarrow> po_leq jn eq x x"
  by (simp add: leq_iff jn_idem)

lemma leq_antisym:
  "inv x \<Longrightarrow> inv y \<Longrightarrow> po_leq jn eq x y \<Longrightarrow> po_leq jn eq y x \<Longrightarrow> x = y"
  by (metis leq_iff jn_comm)

lemma leq_trans:
  "inv x \<Longrightarrow> inv y \<Longrightarrow> inv z \<Longrightarrow> po_leq jn eq x y \<Longrightarrow> po_leq jn eq y z \<Longrightarrow> po_leq jn eq x z"
  by (metis leq_iff jn_assoc)

lemma leq_jn1: "inv x \<Longrightarrow> inv y \<Longrightarrow> po_leq jn eq x (jn x y)"
  by (metis leq_iff jn_assoc jn_idem jn_inv)

lemma leq_jn2: "inv x \<Longrightarrow> inv y \<Longrightarrow> po_leq jn eq y (jn x y)"
  by (metis jn_comm leq_jn1)

lemma jn_least:
  assumes "inv x" "inv y" "inv z" "po_leq jn eq x z" "po_leq jn eq y z"
  shows "po_leq jn eq (jn x y) z"
  using assms jn_inv leq_iff jn_assoc by metis

lemma geq_iff: "inv x \<Longrightarrow> inv y \<Longrightarrow> po_geq jn eq x y \<longleftrightarrow> po_leq jn eq y x"
  by (simp add: po_geq_def po_leq_def eq_iff jn_inv jn_comm)

lemma lt_iff: "inv x \<Longrightarrow> inv y \<Longrightarrow> po_lt jn eq x y \<longleftrightarrow> po_leq jn eq x y \<and> x \<noteq> y"
  by (metis (full_types) eq_iff jn_inv leq_iff po_lt_def)

lemma gt_iff: "inv x \<Longrightarrow> inv y \<Longrightarrow> po_gt jn eq x y \<longleftrightarrow> po_lt jn eq y x"
  by (simp add: po_gt_def po_lt_def eq_iff jn_inv jn_comm Let_def)

lemma foldl_jn_inv:
  "inv x \<Longrightarrow> \<forall>y \<in> set ys. inv y \<Longrightarrow> inv (foldl jn x ys)"
  by (induction ys arbitrary: x) (auto simp: jn_inv)

lemma foldl_jn_least:
  assumes "inv z"
  shows "inv x \<Longrightarrow> \<forall>y \<in> set ys. inv y \<Longrightarrow>
    po_leq jn eq (foldl jn x ys) z \<longleftrightarrow> po_leq jn eq x z \<and> (\<forall>y \<in> set ys. po_leq jn eq y z)"
proof (induction ys arbitrary: x)
  case Nil
  then show ?case by simp
next
  case (Cons y ys)
  then have "inv (jn x y)" by (simp add: jn_inv)
  then have "po_leq jn eq (foldl jn (jn x y) ys) z \<longleftrightarrow>
      po_leq jn eq (jn x y) z \<and> (\<forall>y \<in> set ys. po_leq jn eq y z)"
    using Cons by simp
  moreover have "po_leq jn eq (jn x y) z \<longleftrightarrow> po_leq jn eq x z \<and> po_leq jn eq y z"
    using Cons.prems assms jn_least leq_jn1 leq_jn2 leq_trans jn_inv
    by (metis list.set_intros(1))
  ultimately show ?case by auto
qed

lemma join_range_lub:
  assumes "\<forall>x \<in> set xs. inv x" and "xs \<noteq> []" and "inv z"
  shows "po_leq jn eq (join_range d jn xs) z \<longleftrightarrow> (\<forall>x \<in> set xs. po_leq jn eq x z)"
  using assms by (cases xs) (auto simp: foldl_jn_least)

end

section \<open>Bit-string domains\<close>

text \<open>
  \<open>BitstringDomain<unsigned char>\<close>: the element is one byte, join is bitwise or, meet bitwise and.
  \<open>Classification\<close> and \<open>DirtinessClassification\<close> derive from it.
\<close>

datatype bitstring = Bitstring (bs_value: "8 word")

definition bs_join :: "bitstring \<Rightarrow> bitstring \<Rightarrow> bitstring" where
  "bs_join x y = Bitstring (bs_value x OR bs_value y)"

definition bs_meet :: "bitstring \<Rightarrow> bitstring \<Rightarrow> bitstring" where
  "bs_meet x y = Bitstring (bs_value x AND bs_value y)"

definition bs_eq :: "bitstring \<Rightarrow> bitstring \<Rightarrow> bool" where
  "bs_eq x y \<longleftrightarrow> bs_value x = bs_value y"

definition bs_less :: "bitstring \<Rightarrow> bitstring \<Rightarrow> bool" where
  "bs_less x y \<longleftrightarrow> bs_value x < bs_value y"

lemma bs_eq_iff [simp]: "bs_eq x y \<longleftrightarrow> x = y"
  by (cases x; cases y) (simp add: bs_eq_def)

interpretation bitstring_join: join_semilattice "\<lambda>_. True" bs_join bs_eq
  by unfold_locales (simp_all add: bs_join_def ac_simps)

interpretation bitstring_meet: join_semilattice "\<lambda>_. True" bs_meet bs_eq
  by unfold_locales (simp_all add: bs_meet_def ac_simps)

type_synonym classification = bitstring
type_synonym dirtiness_class = bitstring

definition CL_BOT :: classification where "CL_BOT = Bitstring 0"
definition CL_HIT :: classification where "CL_HIT = Bitstring 1"
definition CL_MISS :: classification where "CL_MISS = Bitstring 2"
definition CL_UNKNOWN :: classification where "CL_UNKNOWN = Bitstring 3"
definition CL2_HIT :: classification where "CL2_HIT = Bitstring 4"
definition CL2_MISS :: classification where "CL2_MISS = Bitstring 8"
definition CL2_UNKNOWN :: classification where "CL2_UNKNOWN = Bitstring 12"

lemmas cl_defs = CL_BOT_def CL_HIT_def CL_MISS_def CL_UNKNOWN_def CL2_HIT_def CL2_MISS_def
  CL2_UNKNOWN_def

text \<open>
  \<open>ClassificationNames\<close> has 14 entries.  Printing indexes it with the byte, so a byte above 13
  reads past the table: \<open>None\<close>.
\<close>

definition classification_names :: "string list" where
  "classification_names = [''Bot'', ''Hit'', ''Miss'', ''L1unknow'', ''L2Hit'', ''5F'', ''6F'',
     ''7F'', ''L2Miss'', ''9F'', ''10F'', ''11F'', ''L2unknown'', ''13F'']"

definition classification_name :: "classification \<Rightarrow> string option" where
  "classification_name c =
     (let i = unat (bs_value c)
      in if i < length classification_names then Some (classification_names ! i) else None)"

definition mk_classification :: "bool \<Rightarrow> classification" where
  "mk_classification initializeAsBottom = (if initializeAsBottom then CL_BOT else CL_UNKNOWN)"

lemma cl_distinct [simp]:
  "CL_BOT \<noteq> CL_HIT" "CL_BOT \<noteq> CL_MISS" "CL_BOT \<noteq> CL_UNKNOWN" "CL_HIT \<noteq> CL_BOT"
  "CL_HIT \<noteq> CL_MISS" "CL_HIT \<noteq> CL_UNKNOWN" "CL_MISS \<noteq> CL_BOT" "CL_MISS \<noteq> CL_HIT"
  "CL_MISS \<noteq> CL_UNKNOWN" "CL_UNKNOWN \<noteq> CL_BOT" "CL_UNKNOWN \<noteq> CL_HIT" "CL_UNKNOWN \<noteq> CL_MISS"
  "CL2_HIT \<noteq> CL_HIT" "CL2_HIT \<noteq> CL_MISS" "CL2_HIT \<noteq> CL_UNKNOWN" "CL2_HIT \<noteq> CL_BOT"
  "CL_HIT \<noteq> CL2_HIT" "CL_MISS \<noteq> CL2_HIT" "CL_UNKNOWN \<noteq> CL2_HIT" "CL_BOT \<noteq> CL2_HIT"
  by (simp_all add: cl_defs)

lemma cl_join_simps [simp]:
  "bs_join CL_BOT c = c" "bs_join c CL_BOT = c" "bs_join c c = c"
  "bs_join CL_HIT CL_MISS = CL_UNKNOWN" "bs_join CL_MISS CL_HIT = CL_UNKNOWN"
  "bs_join CL_HIT CL_UNKNOWN = CL_UNKNOWN" "bs_join CL_MISS CL_UNKNOWN = CL_UNKNOWN"
  "bs_join CL_UNKNOWN CL_HIT = CL_UNKNOWN" "bs_join CL_UNKNOWN CL_MISS = CL_UNKNOWN"
  by (simp_all add: bs_join_def cl_defs)

definition DCL_BOT :: dirtiness_class where "DCL_BOT = Bitstring 0"
definition DCL_DIRTY :: dirtiness_class where "DCL_DIRTY = Bitstring 1"
definition DCL_CLEAN :: dirtiness_class where "DCL_CLEAN = Bitstring 6"
definition DCL_UNKNOWN :: dirtiness_class where "DCL_UNKNOWN = Bitstring 7"

lemmas dcl_defs = DCL_BOT_def DCL_DIRTY_def DCL_CLEAN_def DCL_UNKNOWN_def

definition dirtiness_name :: "dirtiness_class \<Rightarrow> string option" where
  "dirtiness_name d =
     (if d = DCL_DIRTY then Some ''D''
      else if d = DCL_CLEAN then Some ''C''
      else if d = DCL_UNKNOWN then Some ''U''
      else None)"

lemma dcl_distinct [simp]:
  "DCL_DIRTY \<noteq> DCL_CLEAN" "DCL_CLEAN \<noteq> DCL_DIRTY" "DCL_DIRTY \<noteq> DCL_UNKNOWN"
  "DCL_UNKNOWN \<noteq> DCL_DIRTY" "DCL_CLEAN \<noteq> DCL_UNKNOWN" "DCL_UNKNOWN \<noteq> DCL_CLEAN"
  "DCL_BOT \<noteq> DCL_DIRTY" "DCL_BOT \<noteq> DCL_CLEAN" "DCL_BOT \<noteq> DCL_UNKNOWN"
  by (simp_all add: dcl_defs)

lemma dcl_join_simps [simp]:
  "bs_join DCL_BOT d = d" "bs_join d DCL_BOT = d"
  "bs_join DCL_DIRTY DCL_CLEAN = DCL_UNKNOWN" "bs_join DCL_CLEAN DCL_DIRTY = DCL_UNKNOWN"
  "bs_join DCL_DIRTY DCL_UNKNOWN = DCL_UNKNOWN" "bs_join DCL_UNKNOWN DCL_DIRTY = DCL_UNKNOWN"
  "bs_join DCL_CLEAN DCL_UNKNOWN = DCL_UNKNOWN" "bs_join DCL_UNKNOWN DCL_CLEAN = DCL_UNKNOWN"
  by (simp_all add: bs_join_def dcl_defs)

end
