(* ===== verification/TA_Implicit_Set.thy ===== *)
theory TA_Implicit_Set
  imports TA_Prelude
begin

text \<open>
  \<open>ImplicitSet<C>\<close> (\<open>include/Memory/util/ImplicitSet.h\<close>): a set given by its elements or, when
  \<open>isUniverse_\<close> is set, by the elements it lacks.  The base class \<open>std::set<C>\<close> is the field
  \<open>is_super\<close>.  \<open>is_denote\<close> is the set of elements an object stands for; every operation is shown
  to compute the set operation it is named after.
\<close>

record 'c implicit_set =
  is_super :: "'c set"
  is_universe :: bool

definition is_denote :: "'c implicit_set \<Rightarrow> 'c set" where
  "is_denote x = (if is_universe x then - is_super x else is_super x)"

definition is_make :: "bool \<Rightarrow> 'c implicit_set" where
  "is_make isUniverse = \<lparr>is_super = {}, is_universe = isUniverse\<rparr>"

definition is_of_set :: "'c set \<Rightarrow> 'c implicit_set" where
  "is_of_set s = \<lparr>is_super = s, is_universe = False\<rparr>"

definition is_negated :: "'c implicit_set \<Rightarrow> bool" where
  "is_negated x = is_universe x"

definition is_contains_all :: "'c implicit_set \<Rightarrow> bool" where
  "is_contains_all x \<longleftrightarrow> is_universe x \<and> is_super x = {}"

definition is_clear :: "'c implicit_set \<Rightarrow> 'c implicit_set" where
  "is_clear x = x\<lparr>is_super := {}, is_universe := False\<rparr>"

definition is_count :: "'c implicit_set \<Rightarrow> 'c \<Rightarrow> nat" where
  "is_count x e =
     (let c = (if e \<in> is_super x then 1 else 0) in if is_negated x then 1 - c else c)"

definition is_empty :: "'c implicit_set \<Rightarrow> bool" where
  "is_empty x = (if is_negated x then False else is_super x = {})"

definition is_erase :: "'c implicit_set \<Rightarrow> 'c \<Rightarrow> 'c implicit_set" where
  "is_erase x e =
     (if is_negated x then x\<lparr>is_super := insert e (is_super x)\<rparr>
      else x\<lparr>is_super := is_super x - {e}\<rparr>)"

text \<open>
  \<open>insert\<close> returns the object and the flag of the returned pair: always \<open>false\<close> for a negated
  set, otherwise whether the element is new.
\<close>

definition is_insert :: "'c implicit_set \<Rightarrow> 'c \<Rightarrow> 'c implicit_set \<times> bool" where
  "is_insert x e =
     (if is_negated x then (x\<lparr>is_super := is_super x - {e}\<rparr>, False)
      else (x\<lparr>is_super := insert e (is_super x)\<rparr>, e \<notin> is_super x))"

fun is_insert_range :: "'c implicit_set \<Rightarrow> 'c list \<Rightarrow> 'c implicit_set" where
  "is_insert_range x [] = x"
| "is_insert_range x (e # es) = is_insert_range (fst (is_insert x e)) es"

definition is_make_elem :: "'c \<Rightarrow> 'c implicit_set" where
  "is_make_elem e = fst (is_insert (is_make False) e)"

definition is_make_copy :: "'c implicit_set \<Rightarrow> 'c \<Rightarrow> 'c implicit_set" where
  "is_make_copy y e = fst (is_insert \<lparr>is_super = is_super y, is_universe = is_universe y\<rparr> e)"

definition is_insert_all :: "'c implicit_set \<Rightarrow> 'c implicit_set" where
  "is_insert_all x = x\<lparr>is_super := {}, is_universe := True\<rparr>"

text \<open>\<open>size_type\<close> is 64 bits wide: the size of a negated set is its maximum less the exceptions.\<close>

definition is_size :: "'c implicit_set \<Rightarrow> nat" where
  "is_size x =
     (let n = card (is_super x) in if is_negated x then 2 ^ 64 - 1 - n else n)"

definition is_subset :: "'c implicit_set \<Rightarrow> 'c implicit_set \<Rightarrow> bool" where
  "is_subset x y =
     (if is_negated y then
        if is_negated x then is_super y \<subseteq> is_super x
        else is_super x \<inter> is_super y = {}
      else if is_negated x then False
      else is_super x \<subseteq> is_super y)"

text \<open>
  The four-way case splits of \<open>intersect\<close>, \<open>unite\<close> and \<open>substract\<close>: which operand is negated
  decides which operation of \<open>std::set\<close> runs on the stored elements.
\<close>

definition is_intersect :: "'c implicit_set \<Rightarrow> 'c implicit_set \<Rightarrow> 'c implicit_set" where
  "is_intersect s1 s2 =
     (if is_negated s1 then
        if is_negated s2 then (is_make True)\<lparr>is_super := is_super s1 \<union> is_super s2\<rparr>
        else (is_make False)\<lparr>is_super := is_super s2 - is_super s1\<rparr>
      else if is_negated s2 then (is_make False)\<lparr>is_super := is_super s1 - is_super s2\<rparr>
      else (is_make False)\<lparr>is_super := is_super s1 \<inter> is_super s2\<rparr>)"

definition is_unite :: "'c implicit_set \<Rightarrow> 'c implicit_set \<Rightarrow> 'c implicit_set" where
  "is_unite s1 s2 =
     (if is_negated s1 then
        if is_negated s2 then (is_make True)\<lparr>is_super := is_super s1 \<inter> is_super s2\<rparr>
        else (is_make True)\<lparr>is_super := is_super s1 - is_super s2\<rparr>
      else if is_negated s2 then (is_make True)\<lparr>is_super := is_super s2 - is_super s1\<rparr>
      else (is_make False)\<lparr>is_super := is_super s1 \<union> is_super s2\<rparr>)"

definition is_substract :: "'c implicit_set \<Rightarrow> 'c implicit_set \<Rightarrow> 'c implicit_set" where
  "is_substract s1 s2 =
     (if is_negated s1 then
        if is_negated s2 then (is_make False)\<lparr>is_super := is_super s2 - is_super s1\<rparr>
        else (is_make True)\<lparr>is_super := is_super s1 \<union> is_super s2\<rparr>
      else if is_negated s2 then (is_make False)\<lparr>is_super := is_super s1 \<inter> is_super s2\<rparr>
      else (is_make False)\<lparr>is_super := is_super s1 - is_super s2\<rparr>)"

lemmas is_defs = is_denote_def is_negated_def is_make_def is_count_def is_erase_def is_insert_def
  is_clear_def is_insert_all_def is_contains_all_def is_empty_def is_of_set_def is_subset_def
  is_intersect_def is_unite_def is_substract_def

section \<open>The operations compute on the denoted sets\<close>

lemma is_denote_make: "is_denote (is_make b) = (if b then UNIV else {})"
  by (simp add: is_defs)

lemma is_denote_of_set: "is_denote (is_of_set s) = s"
  by (simp add: is_defs)

lemma is_count_iff: "is_count x e = (if e \<in> is_denote x then 1 else 0)"
  by (simp add: is_defs)

lemma is_denote_erase: "is_denote (is_erase x e) = is_denote x - {e}"
  by (auto simp: is_defs)

lemma is_denote_insert: "is_denote (fst (is_insert x e)) = insert e (is_denote x)"
  by (auto simp: is_defs)

lemma is_insert_universe: "is_universe (fst (is_insert x e)) = is_universe x"
  by (simp add: is_defs)

lemma is_denote_insert_range: "is_denote (is_insert_range x es) = is_denote x \<union> set es"
  by (induction es arbitrary: x) (auto simp: is_denote_insert)

lemma is_denote_make_elem: "is_denote (is_make_elem e) = {e}"
  by (simp add: is_make_elem_def is_denote_insert is_denote_make)

lemma is_denote_make_copy: "is_denote (is_make_copy y e) = insert e (is_denote y)"
  by (simp add: is_make_copy_def is_denote_insert) (simp add: is_denote_def)

lemma is_contains_all_denote: "is_contains_all x \<Longrightarrow> is_denote x = UNIV"
  by (auto simp: is_defs)

lemma is_denote_intersect: "is_denote (is_intersect s1 s2) = is_denote s1 \<inter> is_denote s2"
  by (auto simp: is_defs)

lemma is_denote_unite: "is_denote (is_unite s1 s2) = is_denote s1 \<union> is_denote s2"
  by (auto simp: is_defs)

lemma is_denote_substract: "is_denote (is_substract s1 s2) = is_denote s1 - is_denote s2"
  by (auto simp: is_defs)

text \<open>
  \<open>isSubset\<close> answers \<open>false\<close> for a negated set against a plain one.  That is the right answer when
  the element type has more values than the two sets store, in particular for an infinite type.
\<close>

lemma is_subset_sound: "is_subset x y \<Longrightarrow> is_denote x \<subseteq> is_denote y"
  by (auto simp: is_defs split: if_splits)

lemma is_subset_complete:
  assumes "is_denote x \<subseteq> is_denote y" and "is_super x \<union> is_super y \<noteq> UNIV"
  shows "is_subset x y"
  using assms by (auto simp: is_defs split: if_splits)

end
