(* ===== verification/TA_Address.thy ===== *)
theory TA_Address
  imports TA_Prelude
begin

text \<open>
  Cache dimensions (\<open>include/Memory/CacheTraits.h\<close>), the mapping of addresses to cache lines, sets
  and tags (\<open>include/Memory/util/CacheUtils.h\<close>), abstract addresses
  (\<open>include/Util/AbstractAddress.h\<close>, \<open>lib/Util/AbstractAddress.cpp\<close>) and the options and multi-core
  tables the cache analyses read (\<open>include/Util/Options.h\<close>, \<open>include/Util/GlobalVars.h\<close>,
  \<open>include/Util/muticoreinfo.h\<close>).
\<close>

section \<open>Cache traits\<close>

record cache_traits =
  LINE_SIZE :: "32 word"
  ASSOCIATIVITY :: nat
  N_SETS :: "32 word"
  WRITEBACK :: bool
  WRITEALLOCATE :: bool
  LEVEL :: int
  LATENCY :: nat

text \<open>
  The constructor ignores its five arguments and stores fixed dimensions; \<open>LEVEL\<close> stays
  uninitialised (an argument here).  The options parser overwrites the fields afterwards.
\<close>

definition make_traits ::
  "int \<Rightarrow> 32 word \<Rightarrow> nat \<Rightarrow> 32 word \<Rightarrow> bool \<Rightarrow> bool \<Rightarrow> cache_traits" where
  "make_traits uninit L A S WB WA =
     \<lparr>LINE_SIZE = 16, ASSOCIATIVITY = 2, N_SETS = 32, WRITEBACK = False, WRITEALLOCATE = False,
      LEVEL = uninit, LATENCY = 5\<rparr>"

definition check_params :: "cache_traits \<Rightarrow> bool" where
  "check_params T \<longleftrightarrow> (\<not> WRITEBACK T \<or> WRITEALLOCATE T)"

text \<open>
  The dimensions the code works for: a line size that is a power of two (\<open>getCachelineAddress\<close>
  masks with \<open>LINE_SIZE - 1\<close>), at least one set, and an associativity that fits the byte an age
  is stored in.
\<close>

definition traits_ok :: "cache_traits \<Rightarrow> bool" where
  "traits_ok T \<longleftrightarrow> (\<exists>k < 32. LINE_SIZE T = 2 ^ k) \<and> 0 < N_SETS T \<and>
     0 < ASSOCIATIVITY T \<and> ASSOCIATIVITY T \<le> 255"

definition getCachelineAddress :: "cache_traits \<Rightarrow> address \<Rightarrow> address" where
  "getCachelineAddress T addr = addr AND NOT (LINE_SIZE T - 1)"

definition getTag :: "cache_traits \<Rightarrow> address \<Rightarrow> tag" where
  "getTag T addr = (addr div LINE_SIZE T) div N_SETS T"

definition getindex :: "cache_traits \<Rightarrow> address \<Rightarrow> 32 word" where
  "getindex T addr = (addr div LINE_SIZE T) mod N_SETS T"

section \<open>Abstract addresses\<close>

text \<open>
  A \<open>const GlobalVariable *\<close> is an index \<open>gvar\<close>; what the static address provider knows of it (base
  address and size in bytes) is in the analysis environment, together with the command-line
  options and the multi-core tables.
\<close>

type_synonym gvar = nat

datatype array_persistence = APNone | APSetwise

datatype multi_core = LiangY | ZhangW | MCNone

record ana_env =
  ArrayAnalysis :: bool
  ArrayPersistenceAnalysis :: array_persistence
  AssumeCleanCache :: bool
  globalVariables :: "gvar list"
  globalVarAddress :: "gvar \<Rightarrow> address"
  arraySize :: "gvar \<Rightarrow> 32 word"
  MulCType :: multi_core
  CoreNums :: nat
  CurrentCore :: nat
  SPersistenceA :: bool
  coreinfo :: "string list list"
  functiontofs :: "string \<Rightarrow> address list list"

datatype abs_address = AInterval (ai_lower: address) (ai_upper: address) | AArray gvar

datatype access_type = LOAD | STORE

definition aa_of_address :: "address \<Rightarrow> abs_address" where
  "aa_of_address addr = AInterval addr addr"

definition aa_unknown :: abs_address where
  "aa_unknown = AInterval 0 0xffffffff"

definition aa_of_array :: "ana_env \<Rightarrow> gvar \<Rightarrow> abs_address" where
  "aa_of_array E gv = (if \<not> ArrayAnalysis E then aa_unknown else AArray gv)"

fun aa_is_array :: "abs_address \<Rightarrow> bool" where
  "aa_is_array (AArray _) = True"
| "aa_is_array (AInterval _ _) = False"

fun aa_is_precise :: "abs_address \<Rightarrow> bool" where
  "aa_is_precise (AInterval l u) = (l = u)"
| "aa_is_precise (AArray _) = False"

fun aa_get_array :: "abs_address \<Rightarrow> gvar option" where
  "aa_get_array (AArray gv) = Some gv"
| "aa_get_array (AInterval _ _) = None"

text \<open>The upper bound of an array is the address of its last word.\<close>

fun aa_interval :: "ana_env \<Rightarrow> abs_address \<Rightarrow> address \<times> address" where
  "aa_interval E (AInterval l u) = (l, u)"
| "aa_interval E (AArray gv) =
     (let base = globalVarAddress E gv; size = arraySize E gv in (base, base + size - 4))"

definition aa_lower :: "ana_env \<Rightarrow> abs_address \<Rightarrow> address" where
  "aa_lower E aa = fst (aa_interval E aa)"

definition aa_upper :: "ana_env \<Rightarrow> abs_address \<Rightarrow> address" where
  "aa_upper E aa = snd (aa_interval E aa)"

definition aa_same_interval :: "ana_env \<Rightarrow> abs_address \<Rightarrow> abs_address \<Rightarrow> bool" where
  "aa_same_interval E a b \<longleftrightarrow> aa_lower E a = aa_lower E b \<and> aa_upper E a = aa_upper E b"

text \<open>Equality distinguishes an array from the interval it covers.\<close>

fun aa_eq :: "ana_env \<Rightarrow> abs_address \<Rightarrow> abs_address \<Rightarrow> bool" where
  "aa_eq E (AInterval l u) (AInterval l' u') = aa_same_interval E (AInterval l u) (AInterval l' u')"
| "aa_eq E (AArray g) (AArray h) = (g = h)"
| "aa_eq E _ _ = False"

text \<open>The artificial order for use in maps: intervals before arrays (\<open>AddressType\<close> order).\<close>

fun aa_less :: "abs_address \<Rightarrow> abs_address \<Rightarrow> bool" where
  "aa_less (AInterval l u) (AInterval l' u') = (if l \<noteq> l' then l < l' else u < u')"
| "aa_less (AInterval _ _) (AArray _) = True"
| "aa_less (AArray _) (AInterval _ _) = False"
| "aa_less (AArray g) (AArray h) = (g < h)"

text \<open>
  The overloads of \<open>getTag\<close> and \<open>getindex\<close> on abstract addresses assert that the whole interval
  lies in one cache line, then read its lower end.
\<close>

definition aa_same_line :: "cache_traits \<Rightarrow> ana_env \<Rightarrow> abs_address \<Rightarrow> bool" where
  "aa_same_line T E aa \<longleftrightarrow>
     getCachelineAddress T (aa_lower E aa) = getCachelineAddress T (aa_upper E aa)"

definition aa_getTag :: "cache_traits \<Rightarrow> ana_env \<Rightarrow> abs_address \<Rightarrow> tag option" where
  "aa_getTag T E aa = (if aa_same_line T E aa then Some (getTag T (aa_lower E aa)) else None)"

definition aa_getindex :: "cache_traits \<Rightarrow> ana_env \<Rightarrow> abs_address \<Rightarrow> 32 word option" where
  "aa_getindex T E aa = (if aa_same_line T E aa then Some (getindex T (aa_lower E aa)) else None)"

definition getintaddr :: "cache_traits \<Rightarrow> ana_env \<Rightarrow> abs_address \<Rightarrow> address option" where
  "getintaddr T E aa = (if aa_same_line T E aa then Some (aa_lower E aa) else None)"

text \<open>How long the transfer of a line takes; \<open>separate\<close> says that the topology has separate caches.\<close>

datatype cache_type = CtInstruction | CtData | CtUnified

definition getCachelineMemoryLatency ::
  "bool \<Rightarrow> 32 word \<Rightarrow> 32 word \<Rightarrow> 32 word \<Rightarrow> 32 word \<Rightarrow> cache_type \<Rightarrow> 32 word option" where
  "getCachelineMemoryLatency separate Ilinesize Dlinesize Latency PerWordLatency ct =
     (if \<not> separate \<or> (ct = CtUnified \<and> Ilinesize \<noteq> Dlinesize) then None
      else let linesize = (if ct = CtData then Dlinesize else Ilinesize)
           in if linesize mod 4 \<noteq> 0 then None else Some (Latency + PerWordLatency * (linesize div 4)))"

lemma getintaddr_of_address [simp]: "getintaddr T E (aa_of_address a) = Some a"
  by (simp add: getintaddr_def aa_same_line_def aa_of_address_def aa_lower_def aa_upper_def)

section \<open>Conflicting blocks of other cores\<close>

text \<open>
  The variable \<open>CNN\<close> that \<open>classify\<close> and \<open>isPersistent\<close> compute under \<open>MultiCoreType::LiangY\<close>: over
  all cores but the current one, all their tasks and all recorded addresses, the number of those
  that map to the same set with another tag.  The same block may be counted several times.
\<close>

definition foreign_addresses :: "ana_env \<Rightarrow> address list" where
  "foreign_addresses E =
     concat (map (\<lambda>i. if i = CurrentCore E then []
                      else concat (map (\<lambda>entry. concat (functiontofs E entry)) (coreinfo E ! i)))
                 [0..<length (coreinfo E)])"

definition conflict_count :: "cache_traits \<Rightarrow> ana_env \<Rightarrow> 32 word \<Rightarrow> tag \<Rightarrow> nat" where
  "conflict_count T E idx t =
     length (filter (\<lambda>a. getindex T a = idx \<and> getTag T a \<noteq> t) (foreign_addresses E))"

definition CNN :: "cache_traits \<Rightarrow> ana_env \<Rightarrow> 32 word \<Rightarrow> tag \<Rightarrow> nat" where
  "CNN T E idx t =
     (if MulCType E = LiangY \<and> LEVEL T > 1 then conflict_count T E idx t else 0)"

section \<open>Size of an array per cache set\<close>

definition getPerSetSize :: "cache_traits \<Rightarrow> ana_env \<Rightarrow> gvar \<Rightarrow> 32 word" where
  "getPerSetSize T E ds =
     (let base = globalVarAddress E ds;
          size = arraySize E ds + (base - getCachelineAddress T base);
          cacheSizePerAssoc = N_SETS T * LINE_SIZE T;
          perSetSize = size div cacheSizePerAssoc
      in if size mod cacheSizePerAssoc \<noteq> 0 then perSetSize + 1 else perSetSize)"

section \<open>Properties of the address mapping\<close>

lemma and_not_mask_div:
  fixes a :: "'a::len word"
  shows "a AND NOT (mask k) = push_bit k (drop_bit k a)"
  by (rule bit_eqI) (auto simp: bit_simps)

lemma getCachelineAddress_eq:
  assumes "LINE_SIZE T = 2 ^ k"
  shows "getCachelineAddress T a = push_bit k (drop_bit k a)"
  using assms by (simp add: getCachelineAddress_def flip: mask_eq_exp_minus_1 and_not_mask_div)

lemma block_eq_drop_bit:
  assumes "LINE_SIZE T = 2 ^ k"
  shows "a div LINE_SIZE T = drop_bit k a"
  using assms by (simp add: drop_bit_eq_div)

lemma drop_push_drop:
  fixes a :: "'a::len word"
  shows "drop_bit k (push_bit k (drop_bit k a)) = drop_bit k a"
  by (rule bit_eqI) (auto simp: bit_simps dest: bit_imp_le_length)

lemma traits_okE:
  assumes "traits_ok T"
  obtains k where "k < 32" "LINE_SIZE T = 2 ^ k"
  using assms by (auto simp: traits_ok_def)

text \<open>Two addresses have the same cache line address exactly if they are in the same block.\<close>

lemma same_line_iff_block:
  assumes "traits_ok T"
  shows "getCachelineAddress T a = getCachelineAddress T b \<longleftrightarrow> a div LINE_SIZE T = b div LINE_SIZE T"
proof -
  obtain k where k: "LINE_SIZE T = 2 ^ k" using assms by (rule traits_okE)
  have "push_bit k (drop_bit k a) = push_bit k (drop_bit k b) \<longleftrightarrow> drop_bit k a = drop_bit k b"
    by (metis drop_push_drop)
  then show ?thesis by (simp add: getCachelineAddress_eq [OF k] block_eq_drop_bit [OF k])
qed

lemma block_of_line:
  assumes "traits_ok T"
  shows "getCachelineAddress T a div LINE_SIZE T = a div LINE_SIZE T"
proof -
  obtain k where k: "LINE_SIZE T = 2 ^ k" using assms by (rule traits_okE)
  show ?thesis by (simp add: getCachelineAddress_eq [OF k] block_eq_drop_bit [OF k] drop_push_drop)
qed

lemma getTag_line [simp]: "traits_ok T \<Longrightarrow> getTag T (getCachelineAddress T a) = getTag T a"
  by (simp add: getTag_def block_of_line)

lemma getindex_line [simp]: "traits_ok T \<Longrightarrow> getindex T (getCachelineAddress T a) = getindex T a"
  by (simp add: getindex_def block_of_line)

lemma getCachelineAddress_idem [simp]:
  "traits_ok T \<Longrightarrow> getCachelineAddress T (getCachelineAddress T a) = getCachelineAddress T a"
  by (simp add: getCachelineAddress_def and.assoc)

text \<open>Tag and index identify the block: nothing else aliases with it.\<close>

lemma word_div_mod_cancel:
  fixes x y n :: "'a::len word"
  assumes "x div n = y div n" and "x mod n = y mod n"
  shows "x = y"
  by (metis assms word_mod_div_equality)

lemma tag_index_iff_block:
  "getTag T a = getTag T b \<and> getindex T a = getindex T b \<longleftrightarrow> a div LINE_SIZE T = b div LINE_SIZE T"
  by (metis getTag_def getindex_def word_div_mod_cancel)

lemma tag_index_iff_line:
  "traits_ok T \<Longrightarrow> getTag T a = getTag T b \<and> getindex T a = getindex T b \<longleftrightarrow>
     getCachelineAddress T a = getCachelineAddress T b"
  by (simp add: same_line_iff_block tag_index_iff_block)

lemma getindex_less: "traits_ok T \<Longrightarrow> getindex T a < N_SETS T"
  by (simp add: getindex_def traits_ok_def word_mod_less_divisor)

lemma getindex_less_nat: "traits_ok T \<Longrightarrow> unat (getindex T a) < unat (N_SETS T)"
  using getindex_less by (simp add: word_less_nat_alt)

lemma aa_getTag_of_address [simp]: "aa_getTag T E (aa_of_address a) = Some (getTag T a)"
  by (simp add: aa_getTag_def aa_same_line_def aa_of_address_def aa_lower_def aa_upper_def)

lemma aa_getindex_of_address [simp]: "aa_getindex T E (aa_of_address a) = Some (getindex T a)"
  by (simp add: aa_getindex_def aa_same_line_def aa_of_address_def aa_lower_def aa_upper_def)

lemma aa_lower_of_address [simp]: "aa_lower E (aa_of_address a) = a"
  and aa_upper_of_address [simp]: "aa_upper E (aa_of_address a) = a"
  by (simp_all add: aa_of_address_def aa_lower_def aa_upper_def)

lemma aa_less_irrefl: "\<not> aa_less a a"
  by (cases a) auto

lemma aa_less_trans: "aa_less a b \<Longrightarrow> aa_less b c \<Longrightarrow> aa_less a c"
  by (cases a; cases b; cases c) (auto split: if_splits)

lemma aa_less_total: "aa_less a b \<or> aa_eq E a b \<or> aa_less b a"
  by (cases a; cases b) (auto simp: aa_same_interval_def aa_lower_def aa_upper_def)

section \<open>A concrete configuration\<close>

text \<open>A small four-way cache and an environment without globals, used to evaluate instances.\<close>

definition ex_traits :: cache_traits where
  "ex_traits = \<lparr>LINE_SIZE = 16, ASSOCIATIVITY = 4, N_SETS = 2, WRITEBACK = True,
     WRITEALLOCATE = True, LEVEL = 1, LATENCY = 5\<rparr>"

definition ex_env :: ana_env where
  "ex_env = \<lparr>ArrayAnalysis = False, ArrayPersistenceAnalysis = APNone, AssumeCleanCache = True,
     globalVariables = [], globalVarAddress = (\<lambda>_. 0), arraySize = (\<lambda>_. 0), MulCType = MCNone,
     CoreNums = 1, CurrentCore = 0, SPersistenceA = False, coreinfo = [], functiontofs = (\<lambda>_. [])\<rparr>"

lemma ex_traits_simps [simp]:
  "LINE_SIZE ex_traits = 16" "ASSOCIATIVITY ex_traits = 4" "N_SETS ex_traits = 2" "LEVEL ex_traits = 1"
  by (simp_all add: ex_traits_def)

lemma ex_traits_ok: "traits_ok ex_traits"
proof -
  have "(16 :: 32 word) = 2 ^ 4" by simp
  then show ?thesis unfolding traits_ok_def by (auto intro!: exI [of _ 4])
qed

lemma ex_CNN [simp]: "CNN ex_traits E idx t = 0"
  by (simp add: CNN_def)

end
