(* ===== verification/TA_Reports.thy ===== *)
theory TA_Reports
  imports TA_Address
begin

text \<open>
  Update reports (\<open>include/Memory/UpdateReports.h\<close>).  A nullable \<open>UpdateReport *\<close> is an option;
  the class hierarchy is a datatype whose constructors are the concrete classes.  Only
  \<open>WritebackReport\<close> is joinable, so a \<open>dynamic_cast\<close> to \<open>JoinableUpdateReport\<close> is
  \<open>as_joinable\<close>, which gives a null pointer for every other class.
\<close>

datatype update_report =
    PlainReport
  | MustReport (mr_evicted: "tag set")
  | MayReport (yr_evicted: "tag set") (justEvictedUnknowns: bool) (justIntroducedUnknowns: bool)
  | WritebackReport (wbPossible: bool) (dirtifyingStore: bool)

fun joinable :: "update_report \<Rightarrow> bool" where
  "joinable (WritebackReport _ _) = True"
| "joinable _ = False"

definition as_joinable :: "update_report option \<Rightarrow> update_report option" where
  "as_joinable r = (case r of None \<Rightarrow> None | Some x \<Rightarrow> if joinable x then Some x else None)"

text \<open>
  \<open>WritebackReport::join\<close>; the operands are joinable, that is writeback reports.  A null argument
  is a no-op.
\<close>

fun wb_join :: "update_report \<Rightarrow> update_report option \<Rightarrow> update_report" where
  "wb_join x None = x"
| "wb_join (WritebackReport w d) (Some (WritebackReport w' d')) = WritebackReport (w \<or> w') (d \<or> d')"
| "wb_join x (Some _) = x"

text \<open>Which address may be written back: the unknown address, or none.\<close>

definition potentialWritebacks :: "update_report \<Rightarrow> abs_address option" where
  "potentialWritebacks r = (case r of WritebackReport w d \<Rightarrow> if w then Some aa_unknown else None
                                    | _ \<Rightarrow> None)"

lemma as_joinable_Some_iff:
  "as_joinable r = Some x \<longleftrightarrow> r = Some x \<and> joinable x"
  by (auto simp: as_joinable_def split: option.splits)

lemma joinable_cases: "joinable x \<Longrightarrow> \<exists>w d. x = WritebackReport w d"
  by (cases x) auto

end
