(* ===== verification/TA_LRU.thy ===== *)
theory TA_LRU
  imports TA_Prelude
begin

text \<open>
  The reference the cache analyses are proved against: one set of a cache of associativity \<open>A\<close>
  with least-recently-used replacement.  It is a list of distinct tags, most recently used first;
  an access moves its tag to the front and keeps the first \<open>A\<close>.  The age of a tag is its position.
  This is the abstract specification of the hardware the comments of the analyses speak of
  (``must analysis for an LRU cache set'', ``maximal age''); no file of the repository implements it.
\<close>

type_synonym lru_set = "tag list"

definition lru_access :: "nat \<Rightarrow> tag \<Rightarrow> lru_set \<Rightarrow> lru_set" where
  "lru_access A t q = take A (t # removeAll t q)"

definition lru_age :: "lru_set \<Rightarrow> tag \<Rightarrow> nat" where
  "lru_age q t = length (takeWhile (\<lambda>u. u \<noteq> t) q)"

definition lru_wf :: "nat \<Rightarrow> lru_set \<Rightarrow> bool" where
  "lru_wf A q \<longleftrightarrow> distinct q \<and> length q \<le> A"

fun lru_run :: "nat \<Rightarrow> tag list \<Rightarrow> lru_set \<Rightarrow> lru_set" where
  "lru_run A [] q = q"
| "lru_run A (t # ts) q = lru_run A ts (lru_access A t q)"

section \<open>Ages in a list\<close>

lemma lru_age_Nil [simp]: "lru_age [] t = 0"
  by (simp add: lru_age_def)

lemma lru_age_Cons [simp]: "lru_age (u # q) t = (if u = t then 0 else Suc (lru_age q t))"
  by (simp add: lru_age_def)

lemma lru_age_less: "t \<in> set q \<Longrightarrow> lru_age q t < length q"
  by (induction q) auto

lemma lru_age_notin: "t \<notin> set q \<Longrightarrow> lru_age q t = length q"
  by (induction q) auto

lemma lru_age_inj: "t \<in> set q \<Longrightarrow> u \<in> set q \<Longrightarrow> lru_age q t = lru_age q u \<Longrightarrow> t = u"
  by (induction q) (auto split: if_splits)

lemma nth_lru_age: "t \<in> set q \<Longrightarrow> q ! lru_age q t = t"
  by (induction q) auto

lemma lru_age_nth: "distinct q \<Longrightarrow> i < length q \<Longrightarrow> lru_age q (q ! i) = i"
  by (metis lru_age_less nth_eq_iff_index_eq nth_lru_age nth_mem)

lemma in_take_iff: "distinct q \<Longrightarrow> t \<in> set (take A q) \<longleftrightarrow> t \<in> set q \<and> lru_age q t < A"
proof (induction q arbitrary: A)
  case Nil
  then show ?case by simp
next
  case (Cons u q)
  then show ?case by (cases A) auto
qed

lemma lru_age_take: "t \<in> set (take A q) \<Longrightarrow> lru_age (take A q) t = lru_age q t"
proof (induction q arbitrary: A)
  case Nil
  then show ?case by simp
next
  case (Cons u q)
  then show ?case by (cases A) auto
qed

text \<open>Removing a tag moves the older ones up by one place.\<close>

lemma lru_age_removeAll:
  assumes "distinct q" and "t \<in> set q" and "t \<noteq> x"
  shows "lru_age (removeAll x q) t =
    (if x \<in> set q \<and> lru_age q x < lru_age q t then lru_age q t - 1 else lru_age q t)"
  using assms
proof (induction q)
  case Nil
  then show ?case by simp
next
  case (Cons u q)
  show ?case
  proof (cases "u = x")
    case True
    then have "removeAll x (u # q) = q" using Cons.prems(1) by (simp add: removeAll_id)
    then show ?thesis using True Cons.prems by simp
  next
    case False
    then show ?thesis using Cons by auto
  qed
qed

section \<open>Effect of an access\<close>

lemma lru_access_wf [intro]: "lru_wf A q \<Longrightarrow> lru_wf A (lru_access A t q)"
  by (auto simp: lru_wf_def lru_access_def distinct_removeAll dest: in_set_takeD
      intro!: distinct_take)

lemma lru_run_wf: "lru_wf A q \<Longrightarrow> lru_wf A (lru_run A ts q)"
  by (induction ts arbitrary: q) auto

lemma lru_access_self [lru_simps]:
  "0 < A \<Longrightarrow> t \<in> set (lru_access A t q)" "0 < A \<Longrightarrow> lru_age (lru_access A t q) t = 0"
  by (cases A; simp add: lru_access_def)+

text \<open>The age an element would have after the access, whether or not it stays cached.\<close>

definition lru_next_age :: "lru_set \<Rightarrow> tag \<Rightarrow> tag \<Rightarrow> nat" where
  "lru_next_age q x t =
     (if x \<in> set q \<and> lru_age q x < lru_age q t then lru_age q t else Suc (lru_age q t))"

lemma lru_access_other [lru_simps]:
  assumes "lru_wf A q" and "t \<noteq> x"
  shows "t \<in> set (lru_access A x q) \<longleftrightarrow> t \<in> set q \<and> lru_next_age q x t < A"
    and "t \<in> set (lru_access A x q) \<Longrightarrow> lru_age (lru_access A x q) t = lru_next_age q x t"
proof -
  have d: "distinct (x # removeAll x q)" using assms(1) by (simp add: lru_wf_def distinct_removeAll)
  have dq: "distinct q" using assms(1) by (simp add: lru_wf_def)
  have age: "lru_age (x # removeAll x q) t = lru_next_age q x t" if "t \<in> set q"
    using lru_age_removeAll [OF dq that assms(2)] assms(2)
    by (auto simp: lru_next_age_def)
  show "t \<in> set (lru_access A x q) \<longleftrightarrow> t \<in> set q \<and> lru_next_age q x t < A"
    unfolding lru_access_def in_take_iff [OF d] using assms(2) age by auto
  assume "t \<in> set (lru_access A x q)"
  then show "lru_age (lru_access A x q) t = lru_next_age q x t"
    unfolding lru_access_def using age assms(2)
    by (metis in_set_takeD lru_age_take set_ConsD set_removeAll Diff_iff)
qed

lemma lru_next_age_le: "lru_next_age q x t \<le> Suc (lru_age q t)"
  by (simp add: lru_next_age_def)

lemma lru_next_age_ge: "lru_age q t \<le> lru_next_age q x t"
  by (simp add: lru_next_age_def)

lemma lru_access_subset: "set (lru_access A x q) \<subseteq> insert x (set q)"
  by (auto simp: lru_access_def dest: in_set_takeD)

text \<open>
  A full set holds \<open>A\<close> tags; if \<open>A\<close> tags are known to be cached, no other tag is.
\<close>

lemma lru_full_only:
  assumes "lru_wf A q" and "S \<subseteq> set q" and "A \<le> card S" and "t \<in> set q"
  shows "t \<in> S"
proof -
  have "card (set q) \<le> A" using assms(1) card_length [of q] by (simp add: lru_wf_def)
  then have "S = set q" using card_subset_eq [OF _ assms(2)] card_mono [OF _ assms(2)] assms(3)
    by auto
  then show ?thesis using assms(4) by simp
qed

end
