(* ===== verification/TA_Must.thy ===== *)
theory TA_Must
  imports TA_Lattice TA_Implicit_Set TA_Reports TA_LRU
begin

text \<open>
  The must analysis of one LRU set (\<open>include/Memory/LruMaxAgeAbstractCache.h\<close>).

  The members \<open>tags\<close>, \<open>ages\<close> and \<open>size\<close> are one list: element \<open>i\<close> is \<open>(tags[i], ages[i])\<close> for
  \<open>i < size\<close>, and entries at or beyond \<open>size\<close>, which the code never reads, are not represented.
  The loops over positions are recursions over this list, in the direction the code walks.
  \<open>must_wf\<close> is the class invariant: the order documented at the members, ages below the
  associativity, and at most \<open>k + 1\<close> tags of maximal age \<open>k\<close>.
\<close>

type_synonym must_state = "(tag \<times> way) list"

section \<open>The operations\<close>

definition must_init :: "bool \<Rightarrow> must_state" where
  "must_init assumeAnEmptyCache = []"

fun must_lookup :: "must_state \<Rightarrow> tag \<Rightarrow> way option" where
  "must_lookup [] t = None"
| "must_lookup ((u, a) # m) t = (if u = t then Some a else must_lookup m t)"

definition must_classify_tag ::
  "cache_traits \<Rightarrow> ana_env \<Rightarrow> must_state \<Rightarrow> tag \<Rightarrow> 32 word \<Rightarrow> classification" where
  "must_classify_tag T E m t idx =
     (case must_lookup m t of
        Some a \<Rightarrow> if a + CNN T E idx t \<ge> ASSOCIATIVITY T then CL_MISS else CL_HIT
      | None \<Rightarrow> if length m = ASSOCIATIVITY T then CL_MISS else CL_UNKNOWN)"

definition must_classify ::
  "cache_traits \<Rightarrow> ana_env \<Rightarrow> must_state \<Rightarrow> abs_address \<Rightarrow> classification option" where
  "must_classify T E m aa =
     (case aa_getTag T E aa of None \<Rightarrow> None
      | Some t \<Rightarrow> (case aa_getindex T E aa of None \<Rightarrow> None
                 | Some idx \<Rightarrow> Some (must_classify_tag T E m t idx)))"

text \<open>
  \<open>getAge\<close> narrows the age to a signed byte before it widens it to \<open>int\<close>.
\<close>

definition INT_MAX :: int where "INT_MAX = 2 ^ 31 - 1"

definition int8_cast :: "nat \<Rightarrow> int" where
  "int8_cast n = (let b = n mod 256 in if b < 128 then int b else int b - 256)"

definition must_get_age_tag :: "cache_traits \<Rightarrow> must_state \<Rightarrow> tag \<Rightarrow> int" where
  "must_get_age_tag T m t =
     (case must_lookup m t of
        Some a \<Rightarrow> if a \<ge> ASSOCIATIVITY T then INT_MAX else int8_cast a
      | None \<Rightarrow> INT_MAX)"

definition must_get_age :: "cache_traits \<Rightarrow> ana_env \<Rightarrow> must_state \<Rightarrow> abs_address \<Rightarrow> int option" where
  "must_get_age T E m aa = map_option (must_get_age_tag T m) (aa_getTag T E aa)"

text \<open>The entries of age \<open>A - 1\<close> at the end are dropped; their tags are the evicted elements.\<close>

definition must_evict :: "nat \<Rightarrow> must_state \<Rightarrow> must_state \<times> tag set" where
  "must_evict A m =
     (rev (dropWhile (\<lambda>e. snd e = A - 1) (rev m)),
      set (keys (takeWhile (\<lambda>e. snd e = A - 1) (rev m))))"

definition must_potential_entries :: "nat \<Rightarrow> must_state \<Rightarrow> must_state \<times> tag set" where
  "must_potential_entries A m =
     (let (kept, evicted) = must_evict A m in (map (\<lambda>(t, a). (t, way_inc a)) kept, evicted))"

definition must_potential_update ::
  "cache_traits \<Rightarrow> must_state \<Rightarrow> abs_address \<Rightarrow> access_type \<Rightarrow> bool \<Rightarrow>
     must_state \<times> update_report option" where
  "must_potential_update T m aa load_store wantReport =
     (let (m', evicted) = must_potential_entries (ASSOCIATIVITY T) m
      in (m', if wantReport then Some (MustReport evicted) else None))"

text \<open>
  The loop that keeps the merged group sorted: the entry just shifted has age \<open>acc\<close>, and it moves
  right past the entries of the same age with smaller tags.
\<close>

fun must_bubble :: "way \<Rightarrow> tag \<Rightarrow> must_state \<Rightarrow> must_state" where
  "must_bubble acc t [] = [(t, acc)]"
| "must_bubble acc t ((u, b) # r) =
     (if b = acc \<and> u < t then (u, acc) # must_bubble acc t r else (t, acc) # (u, b) # r)"

text \<open>
  The backward shift loop: the entries left of the accessed position move one place to the
  right, age if they are younger than \<open>accessedAge\<close>, and those that reach it are merged in.
\<close>

fun must_shift :: "way \<Rightarrow> must_state \<Rightarrow> must_state \<Rightarrow> must_state" where
  "must_shift acc [] old = old"
| "must_shift acc ((t, a) # young) old =
     (let r = must_shift acc young old; a' = (if a < acc then way_inc a else a)
      in if a' = acc then must_bubble acc t r else (t, a') # r)"

text \<open>
  \<open>update\<close> on the entries.  \<open>young\<close> is what lies left of the accessed tag, \<open>old\<close> what lies right of
  it.  Stored ages are below the associativity, so the test \<open>accessedAge == ASSOCIATIVITY\<close>
  succeeds exactly if the tag was not found.  A direct-mapped set skips the shift loop: only the
  accessed tag is left.  \<open>None\<close> is a failed assertion on the size.
\<close>

definition must_insert_front :: "nat \<Rightarrow> tag \<Rightarrow> way \<Rightarrow> must_state \<Rightarrow> must_state \<Rightarrow> must_state" where
  "must_insert_front A t acc young old =
     (t, 0) # (if A > 1 then must_shift acc young old else old)"

definition must_update_entries ::
  "nat \<Rightarrow> tag \<Rightarrow> bool \<Rightarrow> must_state \<Rightarrow> (must_state \<times> tag set) option" where
  "must_update_entries A t assumeHit m =
     (let young = takeWhile (\<lambda>e. fst e \<noteq> t) m; rest = dropWhile (\<lambda>e. fst e \<noteq> t) m in
      (case rest of
         (u, h) # old \<Rightarrow>
           let m' = must_insert_front A t h young old
           in if length m' \<le> A then Some (m', {}) else None
       | [] \<Rightarrow>
           if assumeHit then
             if Suc (length m) \<le> A then Some (must_insert_front A t (A - 1) young [], {}) else None
           else
             let (kept, evicted) = must_evict A m; m' = must_insert_front A t A kept []
             in if length m' \<le> A then Some (m', evicted) else None))"

definition must_assumes_hit :: "cache_traits \<Rightarrow> classification \<Rightarrow> bool" where
  "must_assumes_hit T assumption \<longleftrightarrow>
     assumption = CL_HIT \<or> (LEVEL T > 1 \<and> assumption = CL2_HIT)"

definition must_update ::
  "cache_traits \<Rightarrow> ana_env \<Rightarrow> must_state \<Rightarrow> abs_address \<Rightarrow> access_type \<Rightarrow> bool \<Rightarrow> classification \<Rightarrow>
     (must_state \<times> update_report option) option" where
  "must_update T E m aa load_store wantReport assumption =
     (case aa_getTag T E aa of None \<Rightarrow> None
      | Some t \<Rightarrow>
         (case must_update_entries (ASSOCIATIVITY T) t (must_assumes_hit T assumption) m of
            None \<Rightarrow> None
          | Some (m', evicted) \<Rightarrow>
              Some (m', if wantReport then Some (MustReport evicted) else None)))"

text \<open>
  \<open>join\<close> merges from the oldest entry down.  The greater head is consumed; it is output if its
  tag occurs among the other operand's unconsumed entries, so with the greater of the two ages.
  The operands of the loop are the reversed lists.
\<close>

definition entry_less :: "tag \<times> way \<Rightarrow> tag \<times> way \<Rightarrow> bool" where
  "entry_less e f \<longleftrightarrow> snd e < snd f \<or> (snd e = snd f \<and> fst e < fst f)"

definition must_pick :: "tag \<times> way \<Rightarrow> must_state \<Rightarrow> must_state \<Rightarrow> must_state" where
  "must_pick e others out = (if fst e \<in> set (keys others) then e # out else out)"

fun must_join_loop :: "must_state \<Rightarrow> must_state \<Rightarrow> must_state \<Rightarrow> must_state" where
  "must_join_loop [] [] out = out"
| "must_join_loop (x # xs) [] out = must_join_loop xs [] (must_pick x [] out)"
| "must_join_loop [] (y # ys) out = must_join_loop [] ys (must_pick y [] out)"
| "must_join_loop (x # xs) (y # ys) out =
     (if snd x > snd y \<or> (snd x = snd y \<and> fst x \<ge> fst y)
      then must_join_loop xs (y # ys) (must_pick x (y # ys) out)
      else must_join_loop (x # xs) ys (must_pick y (x # xs) out))"

definition must_join :: "must_state \<Rightarrow> must_state \<Rightarrow> must_state" where
  "must_join x y = must_join_loop (rev x) (rev y) []"

definition must_eq :: "must_state \<Rightarrow> must_state \<Rightarrow> bool" where
  "must_eq x y \<longleftrightarrow> length x = length y \<and> map fst x = map fst y \<and> map snd x = map snd y"

definition must_lessequal :: "must_state \<Rightarrow> must_state \<Rightarrow> bool" where
  "must_lessequal x y = must_eq (must_join x y) y"

fun first_difference :: "('a \<Rightarrow> 'a \<Rightarrow> bool) \<Rightarrow> 'a list \<Rightarrow> 'a list \<Rightarrow> bool option" where
  "first_difference lt (x # xs) (y # ys) =
     (if x \<noteq> y then Some (lt x y) else first_difference lt xs ys)"
| "first_difference lt _ _ = None"

definition must_less :: "must_state \<Rightarrow> must_state \<Rightarrow> bool" where
  "must_less x y =
     (if length x \<noteq> length y then length x < length y
      else case first_difference (<) (map snd x) (map snd y) of
             Some b \<Rightarrow> b
           | None \<Rightarrow> (case first_difference (<) (map fst x) (map fst y) of Some b \<Rightarrow> b | None \<Rightarrow> False))"

definition must_get_max_age :: "cache_traits \<Rightarrow> must_state \<Rightarrow> tag \<Rightarrow> nat" where
  "must_get_max_age T m t = (case must_lookup m t of Some a \<Rightarrow> a | None \<Rightarrow> ASSOCIATIVITY T)"

fun must_number_with_max_age :: "must_state \<Rightarrow> int \<Rightarrow> nat" where
  "must_number_with_max_age [] maxAge = 0"
| "must_number_with_max_age ((t, a) # m) maxAge =
     (if int a > maxAge then 0
      else (if int a = maxAge then 1 else 0) + must_number_with_max_age m maxAge)"

fun must_tags_loop :: "must_state \<Rightarrow> int \<Rightarrow> tag implicit_set \<Rightarrow> tag implicit_set" where
  "must_tags_loop [] maxAge res = res"
| "must_tags_loop ((t, a) # m) maxAge res =
     (if int a > maxAge then res else must_tags_loop m maxAge (fst (is_insert res t)))"

definition must_tags_with_max_max_age :: "must_state \<Rightarrow> int \<Rightarrow> tag implicit_set" where
  "must_tags_with_max_max_age m maxAge = must_tags_loop m maxAge (is_make False)"

fun must_substack_loop :: "must_state \<Rightarrow> nat \<Rightarrow> int \<Rightarrow> nat \<Rightarrow> nat" where
  "must_substack_loop [] i maxStackSize res = res"
| "must_substack_loop ((t, a) # m) i maxStackSize res =
     (if int a \<ge> maxStackSize then res
      else must_substack_loop m (Suc i) maxStackSize (if a = i then i + 1 else res))"

definition must_max_concrete_substack :: "must_state \<Rightarrow> int \<Rightarrow> nat" where
  "must_max_concrete_substack m maxStackSize = must_substack_loop m 0 maxStackSize 0"

section \<open>Invariant and meaning\<close>

definition must_wf :: "nat \<Rightarrow> must_state \<Rightarrow> bool" where
  "must_wf A m \<longleftrightarrow> distinct (keys m) \<and> sorted_wrt entry_less m \<and> (\<forall>e \<in> set m. snd e < A) \<and>
     (\<forall>k < A. length (filter (\<lambda>e. snd e \<le> k) m) \<le> Suc k)"

text \<open>Every entry bounds the age of a cached tag from above.\<close>

definition must_gamma :: "nat \<Rightarrow> must_state \<Rightarrow> lru_set set" where
  "must_gamma A m =
     {q. lru_wf A q \<and> (\<forall>e \<in> set m. fst e \<in> set q \<and> lru_age q (fst e) \<le> snd e)}"

text \<open>The textbook update of the must domain on finite maps, for an access to \<open>t\<close>.\<close>

definition must_spec_age :: "nat \<Rightarrow> (tag \<rightharpoonup> way) \<Rightarrow> tag \<Rightarrow> bool \<Rightarrow> way" where
  "must_spec_age A mp t assumeHit =
     (case mp t of Some a \<Rightarrow> a | None \<Rightarrow> if assumeHit then A - 1 else A)"

definition must_spec_update :: "nat \<Rightarrow> tag \<Rightarrow> bool \<Rightarrow> (tag \<rightharpoonup> way) \<Rightarrow> (tag \<rightharpoonup> way)" where
  "must_spec_update A t assumeHit mp =
     (\<lambda>u. if u = t then Some 0
          else (case mp u of None \<Rightarrow> None
                | Some a \<Rightarrow>
                    let a' = (if a < must_spec_age A mp t assumeHit then Suc a else a)
                    in if a' < A then Some a' else None))"

definition must_spec_join :: "(tag \<rightharpoonup> way) \<Rightarrow> (tag \<rightharpoonup> way) \<Rightarrow> (tag \<rightharpoonup> way)" where
  "must_spec_join mp mq =
     (\<lambda>u. case (mp u, mq u) of (Some a, Some b) \<Rightarrow> Some (max a b) | _ \<Rightarrow> None)"

end
