(* ===== verification/TA_Must_Correct.thy ===== *)
theory TA_Must_Correct
  imports TA_Must
begin

text \<open>
  Correctness of the must analysis: the entry list refines the textbook update on finite maps,
  every operation keeps \<open>must_wf\<close>, no assertion of \<open>update\<close> fails, and update, potential update,
  join and classification are sound for the LRU set of \<open>TA_LRU\<close>.
\<close>

section \<open>Entries in order\<close>

lemma entry_less_irrefl [simp]: "\<not> entry_less e e"
  by (simp add: entry_less_def)

lemma entry_less_trans: "entry_less e f \<Longrightarrow> entry_less f g \<Longrightarrow> entry_less e g"
  by (auto simp: entry_less_def)

lemma entry_less_total: "entry_less e f \<or> e = f \<or> entry_less f e"
  by (auto simp: entry_less_def prod_eq_iff)

lemma entry_less_asym: "entry_less e f \<Longrightarrow> \<not> entry_less f e"
  by (auto simp: entry_less_def)

lemma must_wf_unique:
  assumes "must_wf A x" "must_wf A y" "map_of x = map_of y"
  shows "x = y"
proof (rule sorted_wrt_set_unique [where R = entry_less])
  show "set x = set y"
    using assms by (simp add: must_wf_def map_of_inject_set)
next
  show "entry_less e g" if "entry_less e f" "entry_less f g" for e f g
    using that by (rule entry_less_trans)
qed (use assms in \<open>simp_all add: must_wf_def\<close>)

lemma must_wf_length:
  assumes "must_wf A m"
  shows "length m \<le> A"
proof (cases A)
  case 0
  then show ?thesis using assms by (cases m) (auto simp: must_wf_def)
next
  case (Suc k)
  then have "filter (\<lambda>e. snd e \<le> k) m = m"
    using assms by (auto simp: must_wf_def less_Suc_eq_le intro: filter_True)
  then show ?thesis using assms Suc by (auto simp: must_wf_def)
qed

lemma must_lookup_map_of [simp]: "must_lookup m t = map_of m t"
  by (induction m t rule: must_lookup.induct) auto

lemma must_init_wf: "must_wf A (must_init b)"
  by (simp add: must_wf_def must_init_def)

lemma must_eq_iff [simp]: "must_eq x y \<longleftrightarrow> x = y"
  unfolding must_eq_def by (metis zip_map_fst_snd)

section \<open>The shift loop\<close>

lemma mset_must_bubble: "mset (must_bubble acc t r) = add_mset (t, acc) (mset r)"
  by (induction acc t r rule: must_bubble.induct) auto

abbreviation aged :: "way \<Rightarrow> tag \<times> way \<Rightarrow> tag \<times> way" where
  "aged acc \<equiv> (\<lambda>(t, a). (t, if a < acc then way_inc a else a))"

lemma mset_must_shift:
  "mset (must_shift acc young old) = image_mset (aged acc) (mset young) + mset old"
  by (induction acc young old rule: must_shift.induct)
    (auto simp: mset_must_bubble Let_def split: if_splits)

lemma set_must_bubble: "set (must_bubble acc t r) = insert (t, acc) (set r)"
  by (simp add: mset_must_bubble flip: set_mset_mset)

lemma set_must_shift: "set (must_shift acc young old) = aged acc ` set young \<union> set old"
  by (simp add: mset_must_shift flip: set_mset_mset)

lemma sorted_must_bubble:
  assumes "sorted_wrt entry_less r" and "t \<notin> set (keys r)" and "\<forall>e \<in> set r. acc \<le> snd e"
  shows "sorted_wrt entry_less (must_bubble acc t r)"
  using assms
proof (induction acc t r rule: must_bubble.induct)
  case (1 acc t)
  then show ?case by simp
next
  case (2 acc t u b r)
  have head: "\<forall>e \<in> set r. entry_less (u, b) e" using "2.prems"(1) by simp
  show ?case
  proof (cases "b = acc \<and> u < t")
    case True
    have "set (must_bubble acc t r) = insert (t, acc) (set r)"
      by (rule set_must_bubble)
    then show ?thesis using True "2.IH" "2.prems" head by (auto simp: entry_less_def)
  next
    case False
    then have "entry_less (t, acc) (u, b)"
      using "2.prems" by (auto simp: entry_less_def)
    then show ?thesis using False "2.prems" head entry_less_trans by auto
  qed
qed

text \<open>
  The shift keeps the order: the shifted entries stay below everything to their right, and a
  group that reaches \<open>acc\<close> is merged with the entries of that age.
\<close>

lemma sorted_must_shift:
  assumes "sorted_wrt entry_less (young @ old)" and "distinct (keys (young @ old))"
    and "\<forall>e \<in> set young. snd e \<le> acc" and "\<forall>e \<in> set old. acc \<le> snd e" and "acc \<le> 255"
  shows "sorted_wrt entry_less (must_shift acc young old)"
  using assms
proof (induction acc young old rule: must_shift.induct)
  case (1 acc old)
  then show ?case by simp
next
  case (2 acc t a young old)
  let ?r = "must_shift acc young old"
  let ?a = "if a < acc then way_inc a else a"
  have sorted_r: "sorted_wrt entry_less ?r" using 2 by simp
  have set_r: "set ?r = aged acc ` set young \<union> set old"
    by (rule set_must_shift)
  have t_notin: "t \<notin> set (keys ?r)" using "2.prems"(2) by (force simp: set_r)
  have a': "?a \<le> acc" "a < acc \<Longrightarrow> ?a = Suc a" using "2.prems"(3,5) by auto
  show ?case
  proof (cases "?a = acc")
    case True
    have "\<forall>e \<in> set ?r. acc \<le> snd e"
    proof
      fix e assume "e \<in> set ?r"
      then consider u b where "(u, b) \<in> set young" "e = aged acc (u, b)" | "e \<in> set old"
        by (auto simp: set_r)
      then show "acc \<le> snd e"
      proof cases
        case 1
        then have "entry_less (t, a) (u, b)" "b \<le> acc" using "2.prems"(1,3) by auto
        then show ?thesis using 1 True a' "2.prems"(5) by (auto simp: entry_less_def split: if_splits)
      next
        case 2
        then show ?thesis using "2.prems"(4) by simp
      qed
    qed
    then show ?thesis using True sorted_r t_notin by (simp add: sorted_must_bubble)
  next
    case False
    then have lt: "a < acc" "Suc a < acc" using a' "2.prems"(3) by (auto split: if_splits)
    have "\<forall>e \<in> set ?r. entry_less (t, Suc a) e"
    proof
      fix e assume "e \<in> set ?r"
      then consider u b where "(u, b) \<in> set young" "e = aged acc (u, b)" | "e \<in> set old"
        by (auto simp: set_r)
      then show "entry_less (t, Suc a) e"
      proof cases
        case 1
        then have "entry_less (t, a) (u, b)" "b \<le> acc" using "2.prems"(1,3) by auto
        then show ?thesis using 1 lt "2.prems"(5) by (auto simp: entry_less_def)
      next
        case 2
        then show ?thesis using "2.prems"(4) lt by (auto simp: entry_less_def)
      qed
    qed
    then show ?thesis using False sorted_r a'(2) [OF lt(1)] by (simp add: Let_def)
  qed
qed

section \<open>Eviction\<close>

lemma must_evict_sorted:
  assumes "sorted_wrt entry_less m" and "\<forall>e \<in> set m. snd e < A"
  shows "must_evict A m =
    (filter (\<lambda>e. snd e < A - 1) m, fst ` {e \<in> set m. snd e = A - 1})"
  using assms
proof (induction m rule: rev_induct)
  case Nil
  then show ?case by (simp add: must_evict_def)
next
  case (snoc e m)
  then have IH: "must_evict A m = (filter (\<lambda>e. snd e < A - 1) m, fst ` {e \<in> set m. snd e = A - 1})"
    by (simp add: sorted_wrt_append)
  show ?case
  proof (cases "snd e = A - 1")
    case True
    then show ?thesis using IH by (auto simp: must_evict_def)
  next
    case False
    with snoc.prems have "snd e < A - 1" by auto
    moreover have "\<forall>f \<in> set m. snd f \<le> snd e"
      using snoc.prems(1) by (auto simp: sorted_wrt_append entry_less_def)
    ultimately have lt: "\<forall>f \<in> set (m @ [e]). snd f < A - 1" by auto
    have "filter (\<lambda>e. snd e < A - 1) (m @ [e]) = m @ [e]"
      using lt by (intro filter_True) auto
    moreover have "{f \<in> set (m @ [e]). snd f = A - 1} = {}" using lt by auto
    ultimately show ?thesis using False by (simp add: must_evict_def)
  qed
qed

lemma must_wf_evict:
  "must_wf A m \<Longrightarrow>
    must_evict A m = (filter (\<lambda>e. snd e < A - 1) m, fst ` {e \<in> set m. snd e = A - 1})"
  by (rule must_evict_sorted) (auto simp: must_wf_def)

lemma must_wf_count_filter:
  assumes "must_wf A m" and "0 < k" and "k \<le> A"
    and "\<And>e. e \<in> set es \<Longrightarrow> P e \<Longrightarrow> snd e < k" and "mset es \<subseteq># mset m"
  shows "length (filter P es) \<le> k"
proof -
  have "filter_mset P (mset es) \<subseteq># filter_mset (\<lambda>e. snd e \<le> k - 1) (mset es)"
    using assms(2,4) by (intro filter_mset_mono_strong) fastforce+
  also have "\<dots> \<subseteq># filter_mset (\<lambda>e. snd e \<le> k - 1) (mset m)"
    using assms(5) by (rule multiset_filter_mono)
  finally have "size (filter_mset P (mset es)) \<le> size (filter_mset (\<lambda>e. snd e \<le> k - 1) (mset m))"
    by (rule size_mset_mono)
  then have "length (filter P es) \<le> length (filter (\<lambda>e. snd e \<le> k - 1) m)"
    by (simp flip: mset_filter)
  also have "\<dots> \<le> Suc (k - 1)"
  proof -
    have "k - 1 < A" using assms(2,3) by simp
    then show ?thesis using assms(1) unfolding must_wf_def by blast
  qed
  finally show ?thesis using assms(2) by simp
qed

section \<open>Inserting at the front\<close>

text \<open>What the three branches of \<open>update\<close> have in common.\<close>

definition front_ok :: "nat \<Rightarrow> tag \<Rightarrow> way \<Rightarrow> must_state \<Rightarrow> must_state \<Rightarrow> bool" where
  "front_ok A t acc young old \<longleftrightarrow>
     sorted_wrt entry_less (young @ old) \<and> distinct (t # keys (young @ old)) \<and>
     (\<forall>e \<in> set young. snd e \<le> acc \<and> snd (aged acc e) < A) \<and>
     (\<forall>e \<in> set old. acc \<le> snd e \<and> snd e < A) \<and> (A > 1 \<or> young = []) \<and> acc \<le> 255 \<and> 0 < A \<and>
     (\<forall>k < A. length (filter (\<lambda>e. snd (aged acc e) \<le> k) young) +
              length (filter (\<lambda>e. snd e \<le> k) old) \<le> k)"

lemma mset_insert_front:
  assumes "front_ok A t acc young old"
  shows "mset (must_insert_front A t acc young old) =
    add_mset (t, 0) (image_mset (aged acc) (mset young) + mset old)"
  using assms by (auto simp: must_insert_front_def front_ok_def mset_must_shift)

lemma set_insert_front:
  assumes "front_ok A t acc young old"
  shows "set (must_insert_front A t acc young old) = insert (t, 0) (aged acc ` set young \<union> set old)"
  using mset_insert_front [OF assms] by (simp flip: set_mset_mset)

lemma insert_front_count:
  assumes "front_ok A t acc young old" and "k < A"
  shows "length (filter (\<lambda>e. snd e \<le> k) (must_insert_front A t acc young old)) \<le> Suc k"
proof -
  let ?P = "\<lambda>e. snd e \<le> k"
  have "length (filter ?P (must_insert_front A t acc young old)) =
      size (filter_mset ?P (mset (must_insert_front A t acc young old)))"
    by (simp flip: mset_filter)
  also have "\<dots> = Suc (size (filter_mset ?P (image_mset (aged acc) (mset young))) +
      size (filter_mset ?P (mset old)))"
    by (simp add: mset_insert_front [OF assms(1)])
  also have "\<dots> = Suc (length (filter (\<lambda>e. ?P (aged acc e)) young) + length (filter ?P old))"
    by (simp add: filter_mset_image_mset o_def flip: mset_filter)
  finally show ?thesis using assms by (simp add: front_ok_def)
qed

lemma insert_front_keys:
  assumes "front_ok A t acc young old"
  shows "distinct (keys (must_insert_front A t acc young old))"
proof -
  have "mset (keys (must_insert_front A t acc young old)) = mset (t # keys (young @ old))"
    by (simp add: mset_insert_front [OF assms] image_mset.compositionality o_def case_prod_beta)
  from mset_eq_imp_distinct_iff [OF this] show ?thesis
    using assms unfolding front_ok_def by blast
qed

lemma insert_front_wf:
  assumes "front_ok A t acc young old"
  shows "must_wf A (must_insert_front A t acc young old)"
proof -
  let ?m = "must_insert_front A t acc young old"
  obtain r where r: "?m = (t, 0) # r" by (simp add: must_insert_front_def)
  have "0 < A" using assms by (simp add: front_ok_def)
  then have "length (filter (\<lambda>e. snd e \<le> 0) ?m) \<le> Suc 0"
    using insert_front_count [OF assms] by blast
  then have pos: "\<forall>e \<in> set r. 0 < snd e" by (auto simp: r filter_empty_conv)
  have "sorted_wrt entry_less r"
    using r assms sorted_must_shift [of young old acc]
    by (auto simp: must_insert_front_def front_ok_def split: if_splits)
  then have "sorted_wrt entry_less ?m" using pos by (auto simp: r entry_less_def)
  moreover have "\<forall>e \<in> set ?m. snd e < A"
    using assms \<open>0 < A\<close> by (auto simp: set_insert_front [OF assms]) (auto simp: front_ok_def)
  ultimately show ?thesis
    using insert_front_keys [OF assms] insert_front_count [OF assms] by (simp add: must_wf_def)
qed

lemma insert_front_map:
  assumes "front_ok A t acc young old"
  shows "map_of (must_insert_front A t acc young old) =
    (\<lambda>u. if u = t then Some 0 else map_of (map (aged acc) young @ old) u)"
proof -
  have "map_of (must_insert_front A t acc young old) = map_of ((t, 0) # map (aged acc) young @ old)"
    by (rule map_of_mset_cong)
      (simp_all add: mset_insert_front [OF assms] insert_front_keys [OF assms])
  then show ?thesis by auto
qed

lemma map_of_aged:
  "map_of (map (aged acc) es) u = map_option (\<lambda>a. if a < acc then way_inc a else a) (map_of es u)"
  by (simp add: map_of_map)

text \<open>The three branches: the tag is stored, assumed to hit, or assumed to miss.\<close>

lemma must_wf_split:
  assumes "must_wf A (young @ (t, h) # old)"
  shows "\<forall>e \<in> set young. snd e \<le> h" "\<forall>e \<in> set old. h \<le> snd e" "h < A"
    "\<forall>e \<in> set young \<union> set old. snd e < A" "t \<notin> set (keys young)" "t \<notin> set (keys old)"
    "sorted_wrt entry_less (young @ old)" "distinct (t # keys (young @ old))"
proof -
  have "sorted_wrt entry_less (young @ (t, h) # old)" "distinct (keys (young @ (t, h) # old))"
    "\<forall>e \<in> set (young @ (t, h) # old). snd e < A"
    using assms unfolding must_wf_def by blast+
  then show "\<forall>e \<in> set young. snd e \<le> h" "\<forall>e \<in> set old. h \<le> snd e" "h < A"
    "\<forall>e \<in> set young \<union> set old. snd e < A" "t \<notin> set (keys young)" "t \<notin> set (keys old)"
    "sorted_wrt entry_less (young @ old)" "distinct (t # keys (young @ old))"
    by (auto simp: sorted_wrt_append entry_less_def)
qed

lemma filter_length_mono: "(\<And>x. x \<in> set xs \<Longrightarrow> P x \<Longrightarrow> Q x) \<Longrightarrow> length (filter P xs) \<le> length (filter Q xs)"
  by (induction xs) (auto simp: le_SucI)

lemma must_wf_count: "must_wf A m \<Longrightarrow> k < A \<Longrightarrow> length (filter (\<lambda>e. snd e \<le> k) m) \<le> Suc k"
  by (simp add: must_wf_def)

lemma must_wf_count_less:
  assumes "must_wf A m" and "k \<le> A"
  shows "length (filter (\<lambda>e. snd e < k) m) \<le> k"
proof (cases k)
  case (Suc j)
  then show ?thesis using must_wf_count [OF assms(1), of j] assms(2) by (simp add: less_Suc_eq_le)
qed simp

lemma aged_le_iff:
  assumes "acc \<le> 255" and "snd e \<le> acc"
  shows "snd (aged acc e) \<le> k \<longleftrightarrow> (if k < acc then snd e < k else True)"
  using assms by (cases e) auto

lemma aged_le: "acc \<le> 255 \<Longrightarrow> snd e \<le> acc \<Longrightarrow> snd (aged acc e) \<le> acc"
  by (cases e) auto

lemma front_ok_hit:
  assumes "must_wf A (young @ (t, h) # old)" and "A \<le> 255"
  shows "front_ok A t h young old"
proof -
  note split = must_wf_split [OF assms(1)]
  have len: "length (young @ (t, h) # old) \<le> A" using assms(1) by (rule must_wf_length)
  have h: "h \<le> 255" using split(3) assms(2) by simp
  have "length (filter (\<lambda>e. snd (aged h e) \<le> k) young) + length (filter (\<lambda>e. snd e \<le> k) old) \<le> k"
    if "k < A" for k
  proof (cases "k < h")
    case True
    then have "filter (\<lambda>e. snd e \<le> k) old = []" using split(2) by (auto simp: filter_empty_conv)
    moreover have "length (filter (\<lambda>e. snd (aged h e) \<le> k) young) \<le> length (filter (\<lambda>e. snd e < k) young)"
      using split(1) True h by (intro filter_length_mono) (auto simp: aged_le_iff)
    moreover have "length (filter (\<lambda>e. snd e < k) young) \<le> k"
      using must_wf_count_less [OF assms(1), of k] that by simp
    ultimately show ?thesis by simp
  next
    case False
    have "length (filter (\<lambda>e. snd (aged h e) \<le> k) young) \<le> length (filter (\<lambda>e. snd e \<le> k) young)"
      using split(1) False by (intro filter_length_mono) auto
    then show ?thesis using must_wf_count [OF assms(1) that] False by simp
  qed
  moreover have "\<forall>e \<in> set young. snd (aged h e) < A"
    using split(1,3) h aged_le [of h] le_less_trans by blast
  moreover have "A > 1 \<or> young = []" using len by (cases young) auto
  ultimately show ?thesis using split h by (auto simp: front_ok_def)
qed

lemma front_ok_assumed:
  assumes "must_wf A m" and "A \<le> 255" and "t \<notin> set (keys m)" and "length m < A"
  shows "front_ok A t (A - 1) m []"
proof -
  have lt: "\<forall>e \<in> set m. snd e < A" and wf: "sorted_wrt entry_less m" "distinct (keys m)"
    using assms(1) unfolding must_wf_def by blast+
  have le: "\<forall>e \<in> set m. snd e \<le> A - 1" using lt by fastforce
  have "length (filter (\<lambda>e. snd (aged (A - 1) e) \<le> k) m) \<le> k" if "k < A" for k
  proof (cases "k < A - 1")
    case True
    have "length (filter (\<lambda>e. snd (aged (A - 1) e) \<le> k) m) \<le> length (filter (\<lambda>e. snd e < k) m)"
      using le True assms(2) by (intro filter_length_mono) (auto simp: aged_le_iff)
    then show ?thesis using must_wf_count_less [OF assms(1), of k] that by simp
  next
    case False
    then show ?thesis
      using length_filter_le [of "\<lambda>e. snd (aged (A - 1) e) \<le> k" m] assms(4) that by linarith
  qed
  moreover have "\<forall>e \<in> set m. snd (aged (A - 1) e) < A"
  proof
    fix e assume "e \<in> set m"
    then have "snd (aged (A - 1) e) \<le> A - 1" using le assms(2) by (intro aged_le) auto
    then show "snd (aged (A - 1) e) < A" using assms(4) by linarith
  qed
  moreover have "A > 1 \<or> m = []" using assms(4) by (cases m) auto
  ultimately show ?thesis using le wf assms(2-4) unfolding front_ok_def by simp
qed

lemma front_ok_miss:
  assumes "must_wf A m" and "A \<le> 255" and "0 < A" and "t \<notin> set (keys m)"
  shows "front_ok A t A (filter (\<lambda>e. snd e < A - 1) m) []"
proof -
  let ?kept = "filter (\<lambda>e. snd e < A - 1) m"
  have wf: "sorted_wrt entry_less m" "distinct (keys m)"
    using assms(1) unfolding must_wf_def by blast+
  have age: "\<And>e. e \<in> set ?kept \<Longrightarrow> snd (aged A e) = Suc (snd e) \<and> Suc (snd e) < A"
    using assms(2) by auto
  have "length (filter (\<lambda>e. snd (aged A e) \<le> k) ?kept) \<le> k" if "k < A" for k
  proof -
    have "length (filter (\<lambda>e. snd (aged A e) \<le> k) ?kept) \<le> length (filter (\<lambda>e. snd e < k) ?kept)"
    proof (rule filter_length_mono)
      fix e assume "e \<in> set ?kept" "snd (aged A e) \<le> k"
      with age [OF this(1)] show "snd e < k" by linarith
    qed
    also have "\<dots> \<le> length (filter (\<lambda>e. snd e < k) m)"
      unfolding filter_filter by (rule filter_length_mono) simp
    finally show ?thesis using must_wf_count_less [OF assms(1), of k] that by simp
  qed
  moreover have "sorted_wrt entry_less ?kept" "distinct (keys ?kept)" "t \<notin> set (keys ?kept)"
    using wf assms(4) by (auto simp: sorted_wrt_filter distinct_map_filter)
  moreover have "A > 1 \<or> ?kept = []" by (auto simp: filter_empty_conv)
  moreover have "\<forall>e \<in> set ?kept. snd e \<le> A \<and> snd (aged A e) < A" using age by auto
  ultimately show ?thesis using assms(2,3) unfolding front_ok_def by simp
qed

section \<open>The update refines the finite-map update\<close>

lemma hit_map:
  assumes "must_wf A (young @ (t, h) # old)" and "A \<le> 255"
  shows "map_of (must_insert_front A t h young old) =
    must_spec_update A t b (map_of (young @ (t, h) # old))"
proof
  fix u
  note split = must_wf_split [OF assms(1)]
  have "map_of young t = None" using split(5) by (simp add: map_of_eq_None_iff)
  then have "map_of (young @ (t, h) # old) t = Some h" by (simp add: map_add_def)
  then have age: "must_spec_age A (map_of (young @ (t, h) # old)) t b = h"
    by (simp add: must_spec_age_def)
  have "map_of (map (aged h) young @ old) u =
      (case map_of (young @ (t, h) # old) u of None \<Rightarrow> None
       | Some a \<Rightarrow> let a' = (if a < h then Suc a else a) in if a' < A then Some a' else None)"
    if "u \<noteq> t"
  proof (cases "map_of young u")
    case None
    have "h \<le> b \<and> b < A" if "map_of old u = Some b" for b
    proof -
      have mem: "(u, b) \<in> set old" using that by (rule map_of_SomeD)
      then show ?thesis using bspec [OF split(2) mem] bspec [OF split(4), of "(u, b)"] by simp
    qed
    then show ?thesis using that None
      by (auto simp: map_add_def map_of_aged Let_def split: option.splits)
  next
    case (Some a)
    then have "a \<le> h" using split(1) map_of_SomeD by fastforce
    then show ?thesis using Some that split(3) assms(2)
      by (auto simp: map_add_def map_of_aged Let_def split: option.splits)
  qed
  then show "map_of (must_insert_front A t h young old) u =
      must_spec_update A t b (map_of (young @ (t, h) # old)) u"
    unfolding must_spec_update_def age insert_front_map [OF front_ok_hit [OF assms]]
    by simp
qed

lemma absent_map:
  assumes "must_wf A m" and "A \<le> 255" and "0 < A" and "t \<notin> set (keys m)"
    and "b \<Longrightarrow> length m < A"
  shows "map_of (must_insert_front A t (if b then A - 1 else A)
      (if b then m else filter (\<lambda>e. snd e < A - 1) m) []) = must_spec_update A t b (map_of m)"
    (is "?lhs = _")
proof
  fix u
  have d: "distinct (keys m)" and lt: "\<forall>e \<in> set m. snd e < A"
    using assms(1) unfolding must_wf_def by blast+
  have t: "map_of m t = None" using assms(4) by (simp add: map_of_eq_None_iff)
  have kept: "map_of (filter (\<lambda>e. snd e < A - 1) m) u =
      (case map_of m u of None \<Rightarrow> None | Some a \<Rightarrow> if a < A - 1 then Some a else None)"
    using d by (induction m) (auto split: option.splits simp: map_of_eq_None_iff image_iff)
  have ok: "front_ok A t (if b then A - 1 else A)
      (if b then m else filter (\<lambda>e. snd e < A - 1) m) []"
    using assms front_ok_assumed front_ok_miss by simp
  have age: "a < A" if "map_of m u = Some a" for a
    using lt map_of_SomeD [OF that] by fastforce
  show "?lhs u = must_spec_update A t b (map_of m) u"
  proof (cases "map_of m u")
    case None
    then show ?thesis using t kept insert_front_map [OF ok]
      by (simp add: must_spec_update_def must_spec_age_def map_of_aged)
  next
    case (Some a)
    then show ?thesis using t kept age [OF Some] insert_front_map [OF ok] assms(2)
      by (auto simp: must_spec_update_def must_spec_age_def map_of_aged Let_def)
  qed
qed

lemma must_insert_front_length: 
  "front_ok A t acc young old \<Longrightarrow> length (must_insert_front A t acc young old) \<le> A"
  by (blast intro: must_wf_length insert_front_wf)

lemma must_update_entries_refines:
  assumes "must_wf A m" and "0 < A" and "A \<le> 255"
    and "assumeHit \<Longrightarrow> t \<in> set (keys m) \<or> length m < A"
  obtains m' where
    "must_update_entries A t assumeHit m =
      Some (m', if t \<in> set (keys m) \<or> assumeHit then {} else {u. map_of m u = Some (A - 1)})"
    "must_wf A m'" "map_of m' = must_spec_update A t assumeHit (map_of m)"
proof (cases "t \<in> set (keys m)")
  case True
  let ?young = "takeWhile (\<lambda>e. fst e \<noteq> t) m"
  obtain h old where d: "dropWhile (\<lambda>e. fst e \<noteq> t) m = (t, h) # old"
    and m: "m = ?young @ (t, h) # old"
    using takeWhile_dropWhile_key [OF True] by metis
  have wf: "must_wf A (?young @ (t, h) # old)" using assms(1) m by simp
  note ok = front_ok_hit [OF wf assms(3)]
  show thesis
  proof (rule that)
    show "must_update_entries A t assumeHit m =
      Some (must_insert_front A t h ?young old,
        if t \<in> set (keys m) \<or> assumeHit then {} else {u. map_of m u = Some (A - 1)})"
      using True d must_insert_front_length [OF ok] by (simp add: must_update_entries_def Let_def)
    show "must_wf A (must_insert_front A t h ?young old)" using ok by (rule insert_front_wf)
    show "map_of (must_insert_front A t h ?young old) = must_spec_update A t assumeHit (map_of m)"
      using hit_map [OF wf assms(3)] m by simp
  qed
next
  case False
  let ?acc = "if assumeHit then A - 1 else A"
  let ?young = "if assumeHit then m else filter (\<lambda>e. snd e < A - 1) m"
  have tk: "takeWhile (\<lambda>e. fst e \<noteq> t) m = m" "dropWhile (\<lambda>e. fst e \<noteq> t) m = []"
    using False by (auto simp: takeWhile_eq_all_conv dropWhile_eq_Nil_conv)
  have ok: "front_ok A t ?acc ?young []"
    using assms False front_ok_assumed front_ok_miss by simp
  have d: "distinct (keys m)" using assms(1) unfolding must_wf_def by blast
  have ev: "fst ` {e \<in> set m. snd e = A - 1} = {u. map_of m u = Some (A - 1)}"
    using d by (force simp: image_iff)
  show thesis
  proof (rule that)
    show "must_update_entries A t assumeHit m =
      Some (must_insert_front A t ?acc ?young [],
        if t \<in> set (keys m) \<or> assumeHit then {} else {u. map_of m u = Some (A - 1)})"
      unfolding must_update_entries_def tk
      using False assms(4) must_insert_front_length [OF ok] must_wf_evict [OF assms(1)] ev
      by (cases assumeHit) (simp_all add: Let_def Suc_le_eq)
    show "must_wf A (must_insert_front A t ?acc ?young [])" using ok by (rule insert_front_wf)
    show "map_of (must_insert_front A t ?acc ?young []) = must_spec_update A t assumeHit (map_of m)"
      using absent_map assms False by blast
  qed
qed

section \<open>Join\<close>

abbreviation descending :: "must_state \<Rightarrow> bool" where
  "descending xs \<equiv> sorted_wrt (\<lambda>e f. entry_less f e) xs"

definition join_pairs :: "must_state \<Rightarrow> must_state \<Rightarrow> (tag \<times> way) set" where
  "join_pairs xs ys = {(t, max a b) | t a b. (t, a) \<in> set xs \<and> (t, b) \<in> set ys}"

lemma mem_join_pairs:
  "(t, c) \<in> join_pairs xs ys \<longleftrightarrow> (\<exists>a b. (t, a) \<in> set xs \<and> (t, b) \<in> set ys \<and> c = max a b)"
  by (auto simp: join_pairs_def)

lemma join_pairs_commute: "join_pairs xs ys = join_pairs ys xs"
proof -
  have "(t, c) \<in> join_pairs xs ys \<longleftrightarrow> (t, c) \<in> join_pairs ys xs" for t c
    unfolding mem_join_pairs by (metis max.commute)
  then show ?thesis by auto
qed

lemma join_pairs_Nil [simp]: "join_pairs [] ys = {}" "join_pairs xs [] = {}"
  by (auto simp: join_pairs_def)

lemma join_pairs_Cons:
  assumes "\<forall>e \<in> set ys. snd e \<le> snd x"
  shows "join_pairs (x # xs) ys = join_pairs xs ys \<union> (if fst x \<in> set (keys ys) then {x} else {})"
proof -
  obtain u c where x: "x = (u, c)" by (cases x)
  have top: "max c b = c" if "(u, b) \<in> set ys" for b using assms that x by fastforce
  have mem: "u \<in> set (keys ys) \<longleftrightarrow> (\<exists>b. (u, b) \<in> set ys)" by force
  have "(t, d) \<in> join_pairs (x # xs) ys \<longleftrightarrow>
      (t, d) \<in> join_pairs xs ys \<union> (if fst x \<in> set (keys ys) then {x} else {})" for t d
  proof -
    have "(t, d) \<in> join_pairs (x # xs) ys \<longleftrightarrow>
        (t, d) \<in> join_pairs xs ys \<or> (\<exists>b. t = u \<and> (u, b) \<in> set ys \<and> d = max c b)"
      unfolding x mem_join_pairs by auto
    also have "(\<exists>b. t = u \<and> (u, b) \<in> set ys \<and> d = max c b) \<longleftrightarrow> (t, d) = x \<and> u \<in> set (keys ys)"
      unfolding x mem using top by auto
    finally show ?thesis using x by auto
  qed
  then have "e \<in> join_pairs (x # xs) ys \<longleftrightarrow>
      e \<in> join_pairs xs ys \<union> (if fst x \<in> set (keys ys) then {x} else {})" for e
    by (cases e) (simp only:)
  then show ?thesis by (rule set_eqI)
qed

text \<open>What holds of the operands and the output while the loop runs.\<close>

definition join_inv :: "must_state \<Rightarrow> must_state \<Rightarrow> must_state \<Rightarrow> bool" where
  "join_inv xs ys out \<longleftrightarrow> descending xs \<and> descending ys \<and> distinct (keys xs) \<and> distinct (keys ys) \<and>
     sorted_wrt entry_less out \<and> distinct (keys out) \<and>
     (\<forall>f \<in> set out. \<forall>e \<in> set xs \<union> set ys. entry_less e f \<or> e = f) \<and>
     set (keys out) \<inter> (set (keys xs) \<inter> set (keys ys)) = {}"

lemma join_inv_commute: "join_inv xs ys out \<Longrightarrow> join_inv ys xs out"
  unfolding join_inv_def by blast

lemma join_inv_step:
  assumes "join_inv (x # xs) ys out" and "\<forall>e \<in> set ys. entry_less e x \<or> e = x"
  shows "join_inv xs ys (must_pick x ys out)"
proof (cases "fst x \<in> set (keys ys)")
  case True
  have le: "\<forall>f \<in> set out. entry_less x f \<or> x = f" and new: "fst x \<notin> set (keys out)"
    using assms(1) True unfolding join_inv_def by auto
  have "\<forall>f \<in> set out. entry_less x f" using le new by force
  then show ?thesis using assms True new unfolding join_inv_def must_pick_def by auto
next
  case False
  then show ?thesis using assms unfolding join_inv_def must_pick_def by auto
qed

lemma head_greatest:
  assumes "descending (x # xs)" and "snd y > snd x \<or> (snd y = snd x \<and> fst y \<ge> fst x)"
  shows "\<forall>e \<in> set (x # xs). entry_less e y \<or> e = y"
proof -
  have xy: "entry_less x y \<or> x = y" using assms(2) by (auto simp: entry_less_def prod_eq_iff)
  moreover have "entry_less e y" if "e \<in> set xs" for e
    using xy assms(1) that entry_less_trans [of e x y] by auto
  ultimately show ?thesis by auto
qed

lemma entry_le_snd: "entry_less e x \<or> e = x \<Longrightarrow> snd e \<le> snd x"
  by (auto simp: entry_less_def)

lemma join_loop_spec:
  assumes "join_inv xs ys out"
  shows "set (must_join_loop xs ys out) = set out \<union> join_pairs xs ys \<and>
    sorted_wrt entry_less (must_join_loop xs ys out) \<and> distinct (keys (must_join_loop xs ys out))"
  using assms
proof (induction xs ys out rule: must_join_loop.induct)
  case (1 out)
  then show ?case by (simp add: join_inv_def)
next
  case (2 x xs out)
  then show ?case using join_inv_step [OF "2.prems"] by (simp add: must_pick_def)
next
  case (3 y ys out)
  then show ?case using join_inv_step [OF join_inv_commute [OF "3.prems"]] join_inv_commute
    by (simp add: must_pick_def)
next
  case (4 x xs y ys out)
  have desc: "descending (x # xs)" "descending (y # ys)"
    using "4.prems" by (simp_all add: join_inv_def)
  show ?case
  proof (cases "snd x > snd y \<or> (snd x = snd y \<and> fst x \<ge> fst y)")
    case True
    note top = head_greatest [OF desc(2) True]
    then have "\<forall>e \<in> set (y # ys). snd e \<le> snd x" using entry_le_snd by blast
    from join_pairs_Cons [OF this] show ?thesis
      using True "4.IH"(1) [OF True join_inv_step [OF "4.prems" top]]
      by (auto simp: must_pick_def)
  next
    case False
    then have "snd y > snd x \<or> (snd y = snd x \<and> fst y \<ge> fst x)" by auto
    note top = head_greatest [OF desc(1) this]
    then have "\<forall>e \<in> set (x # xs). snd e \<le> snd y" using entry_le_snd by blast
    from join_pairs_Cons [OF this] show ?thesis
      using False "4.IH"(2) [OF False join_inv_commute [OF join_inv_step
            [OF join_inv_commute [OF "4.prems"] top]]]
        join_pairs_commute [of "x # xs"]
      by (auto simp: must_pick_def)
  qed
qed

lemma must_wf_join_inv:
  assumes "must_wf A x" and "must_wf A y"
  shows "join_inv (rev x) (rev y) []"
proof -
  have "sorted_wrt entry_less z \<Longrightarrow> descending (rev z)" for z by (simp add: sorted_wrt_rev)
  then show ?thesis using assms by (simp add: join_inv_def must_wf_def flip: rev_map)
qed

lemma join_set_sorted:
  assumes "must_wf A x" and "must_wf A y"
  shows "set (must_join x y) = join_pairs x y" "sorted_wrt entry_less (must_join x y)"
    "distinct (keys (must_join x y))"
  using join_loop_spec [OF must_wf_join_inv [OF assms]]
  by (auto simp: must_join_def join_pairs_def)

lemma must_join_wf:
  assumes "must_wf A x" and "must_wf A y"
  shows "must_wf A (must_join x y)"
proof -
  note join = join_set_sorted [OF assms]
  have x: "distinct (keys x)" "\<forall>e \<in> set x. snd e < A" and y: "\<forall>e \<in> set y. snd e < A"
    using assms unfolding must_wf_def by blast+
  have "\<forall>e \<in> set (must_join x y). snd e < A" unfolding join using x y by (force simp: join_pairs_def)
  moreover have "length (filter (\<lambda>e. snd e \<le> k) (must_join x y)) \<le> Suc k" if "k < A" for k
  proof -
    have "fst ` {e \<in> join_pairs x y. snd e \<le> k} \<subseteq> fst ` {e \<in> set x. snd e \<le> k}"
      by (force simp: join_pairs_def)
    then have "card (fst ` {e \<in> join_pairs x y. snd e \<le> k}) \<le> card (fst ` {e \<in> set x. snd e \<le> k})"
      by (intro card_mono) auto
    then show ?thesis
      using must_wf_count [OF assms(1) that] length_filter_card [OF join(3)] length_filter_card [OF x(1)]
      by (simp add: join(1))
  qed
  ultimately show ?thesis using join unfolding must_wf_def by simp
qed

lemma must_join_map:
  assumes "must_wf A x" and "must_wf A y"
  shows "map_of (must_join x y) = must_spec_join (map_of x) (map_of y)"
proof
  fix u
  note join = join_set_sorted [OF assms]
  have d: "distinct (keys x)" "distinct (keys y)" using assms unfolding must_wf_def by blast+
  have "map_of (must_join x y) u = Some c \<longleftrightarrow> must_spec_join (map_of x) (map_of y) u = Some c" for c
    unfolding map_of_Some_iff [OF join(3)] join(1) mem_join_pairs must_spec_join_def
      map_of_Some_iff [OF d(1), symmetric] map_of_Some_iff [OF d(2), symmetric]
    by (auto split: option.splits)
  then show "map_of (must_join x y) u = must_spec_join (map_of x) (map_of y) u"
    by (metis option.exhaust)
qed

text \<open>A well-formed state is determined by its map; so the laws of join need only be seen on maps.\<close>

lemma must_spec_join_laws:
  "must_spec_join mp mp = mp" "must_spec_join mp mq = must_spec_join mq mp"
  "must_spec_join (must_spec_join mp mq) mr = must_spec_join mp (must_spec_join mq mr)"
  unfolding must_spec_join_def fun_eq_iff by (auto split: option.splits simp: max.assoc)

interpretation must_semilattice: join_semilattice "must_wf A" must_join must_eq
proof unfold_locales
  fix x y z :: must_state
  show "must_wf A x \<Longrightarrow> must_wf A y \<Longrightarrow> must_wf A (must_join x y)" by (rule must_join_wf)
  show "must_eq x y \<longleftrightarrow> x = y" by simp
  show "must_join x x = x" if "must_wf A x"
    using that by (intro must_wf_unique [of A])
      (simp_all add: must_join_wf must_join_map must_spec_join_laws)
  show "must_join x y = must_join y x" if "must_wf A x" "must_wf A y"
    using that by (intro must_wf_unique [of A])
      (simp_all add: must_join_wf must_join_map must_spec_join_laws)
  show "must_join (must_join x y) z = must_join x (must_join y z)"
    if "must_wf A x" "must_wf A y" "must_wf A z"
    using that by (intro must_wf_unique [of A])
      (simp_all add: must_join_wf must_join_map [of A] must_spec_join_laws(3))
qed

end
