(* ===== verification/TA_Must_Sound.thy ===== *)
theory TA_Must_Sound
  imports TA_Must_Correct
begin

text \<open>
  Soundness of the must analysis for an LRU set, and its queries: what \<open>must_gamma\<close> keeps under an
  access, a potential access, a join and a classification; the meaning of \<open>lessequal\<close>, \<open>operator<\<close>
  and of the counting queries.
\<close>

section \<open>The meaning of a state through its map\<close>

lemma must_wfD:
  assumes "must_wf A m"
  shows "distinct (keys m)" "sorted_wrt entry_less m" "\<forall>e \<in> set m. snd e < A"
  using assms unfolding must_wf_def by blast+

lemma must_gamma_iff:
  assumes "distinct (keys m)"
  shows "q \<in> must_gamma A m \<longleftrightarrow>
    lru_wf A q \<and> (\<forall>u a. map_of m u = Some a \<longrightarrow> u \<in> set q \<and> lru_age q u \<le> a)"
  unfolding must_gamma_def map_of_Some_iff [OF assms] by force

lemma must_age_less: "must_wf A m \<Longrightarrow> map_of m u = Some a \<Longrightarrow> a < A"
  using must_wfD(3) map_of_SomeD by fastforce

lemma must_init_gamma [gamma_intros]: "lru_wf A q \<Longrightarrow> q \<in> must_gamma A (must_init b)"
  by (simp add: must_gamma_def must_init_def)

section \<open>Accesses\<close>

lemma spec_update_bound:
  assumes q: "lru_wf A q" "\<forall>u a. mp u = Some a \<longrightarrow> u \<in> set q \<and> lru_age q u \<le> a \<and> a < A"
    and hit: "assumeHit \<Longrightarrow> t \<in> set q"
    and u: "must_spec_update A t assumeHit mp u = Some a'" "u \<noteq> t"
  shows "u \<in> set (lru_access A t q) \<and> lru_age (lru_access A t q) u \<le> a'"
proof -
  obtain a where a: "mp u = Some a" and a'_lt: "a' < A"
    and a': "a' = (if a < must_spec_age A mp t assumeHit then Suc a else a)"
    using u unfolding must_spec_update_def by (auto simp: Let_def split: option.splits if_splits)
  have uq: "u \<in> set q" "lru_age q u \<le> a" "a < A" using q(2) a by blast+
  have "lru_next_age q t u \<le> a'"
  proof (cases "a < must_spec_age A mp t assumeHit")
    case True
    then show ?thesis using a' uq lru_next_age_le [of q t u] by simp
  next
    case False
    then have tq: "t \<in> set q" "lru_age q t \<le> must_spec_age A mp t assumeHit"
    proof -
      have "mp t \<noteq> None \<or> assumeHit" using False uq(3) by (cases "mp t") (auto simp: must_spec_age_def split: if_splits)
      then show "t \<in> set q" using q(2) hit by auto
      then have "lru_age q t < A" using lru_age_less q(1) by (fastforce simp: lru_wf_def)
      then show "lru_age q t \<le> must_spec_age A mp t assumeHit"
        using q(2) False uq(3) by (auto simp: must_spec_age_def split: option.splits)
    qed
    have "lru_age q t \<noteq> lru_age q u" using lru_age_inj tq(1) uq(1) u(2) by metis
    then show ?thesis using False a' tq uq by (auto simp: lru_next_age_def)
  qed
  then show ?thesis using lru_access_other [OF q(1) u(2)] uq(1) a'_lt by auto
qed

lemma must_update_gamma:
  assumes "must_wf A m" and "0 < A" and "A \<le> 255" and "q \<in> must_gamma A m"
    and "assumeHit \<Longrightarrow> t \<in> set q"
  shows "\<exists>m' ev. must_update_entries A t assumeHit m = Some (m', ev) \<and> must_wf A m' \<and>
    lru_access A t q \<in> must_gamma A m'"
proof -
  have d: "distinct (keys m)" using assms(1) by (rule must_wfD)
  have q: "lru_wf A q" "\<forall>u a. map_of m u = Some a \<longrightarrow> u \<in> set q \<and> lru_age q u \<le> a \<and> a < A"
    using assms(4) must_age_less [OF assms(1)] unfolding must_gamma_iff [OF d] by blast+
  have room: "assumeHit \<Longrightarrow> t \<in> set (keys m) \<or> length m < A"
  proof (rule ccontr)
    assume hit: assumeHit and no: "\<not> (t \<in> set (keys m) \<or> length m < A)"
    have "card (set (keys m)) = length m" using d distinct_card [of "keys m"] by simp
    moreover have "set (keys m) \<subseteq> set q" using assms(4) by (auto simp: must_gamma_def)
    ultimately show False using lru_full_only [OF q(1), of "set (keys m)" t] assms(5) hit no by auto
  qed
  obtain m' where m': "must_update_entries A t assumeHit m =
        Some (m', if t \<in> set (keys m) \<or> assumeHit then {} else {u. map_of m u = Some (A - 1)})"
      "must_wf A m'" "map_of m' = must_spec_update A t assumeHit (map_of m)"
    using must_update_entries_refines [OF assms(1-3) room] .
  have "lru_access A t q \<in> must_gamma A m'"
    unfolding must_gamma_iff [OF must_wfD(1) [OF m'(2)]] m'(3)
  proof (intro conjI allI impI)
    fix u a' assume u: "must_spec_update A t assumeHit (map_of m) u = Some a'"
    show "u \<in> set (lru_access A t q)" "lru_age (lru_access A t q) u \<le> a'"
    proof -
      have "u \<in> set (lru_access A t q) \<and> lru_age (lru_access A t q) u \<le> a'"
      proof (cases "u = t")
        case True
        then show ?thesis using lru_access_self [OF assms(2)] by simp
      next
        case False
        then show ?thesis using spec_update_bound [OF q assms(5) u] by blast
      qed
      then show "u \<in> set (lru_access A t q)" "lru_age (lru_access A t q) u \<le> a'" by blast+
    qed
  qed (use q(1) in blast)
  then show ?thesis using m' by blast
qed

section \<open>Potential accesses\<close>

lemma must_potential_map:
  assumes "must_wf A m" and "A \<le> 255"
  shows "must_potential_entries A m =
    (map (\<lambda>(t, a). (t, Suc a)) (filter (\<lambda>e. snd e < A - 1) m), {u. map_of m u = Some (A - 1)})"
proof -
  have d: "distinct (keys m)" using assms(1) by (rule must_wfD)
  have "fst ` {e \<in> set m. snd e = A - 1} = {u. map_of m u = Some (A - 1)}"
    using d by (force simp: image_iff)
  moreover have "map (\<lambda>(t, a). (t, way_inc a)) (filter (\<lambda>e. snd e < A - 1) m) =
      map (\<lambda>(t, a). (t, Suc a)) (filter (\<lambda>e. snd e < A - 1) m)"
    using assms(2) by (intro map_cong) auto
  ultimately show ?thesis
    by (simp add: must_potential_entries_def must_wf_evict [OF assms(1)])
qed

lemma must_potential_wf:
  assumes "must_wf A m" and "A \<le> 255"
  shows "must_wf A (fst (must_potential_entries A m))"
proof -
  let ?kept = "filter (\<lambda>e. snd e < A - 1) m"
  let ?m = "map (\<lambda>(t, a). (t, Suc a)) ?kept"
  note wf = must_wfD [OF assms(1)]
  have "keys ?m = keys ?kept" by (simp add: case_prod_beta)
  then have "distinct (keys ?m)" using wf(1) by (simp only: distinct_map_filter)
  moreover have "sorted_wrt entry_less ?m"
    using sorted_wrt_filter [OF wf(2)] unfolding sorted_wrt_map
    by (rule sorted_wrt_mono_rel [rotated]) (auto simp: entry_less_def)
  moreover have "\<forall>e \<in> set ?m. snd e < A" by auto
  moreover have "length (filter (\<lambda>e. snd e \<le> k) ?m) \<le> Suc k" if "k < A" for k
  proof -
    have "length (filter (\<lambda>e. snd e \<le> k) ?m) = length (filter (\<lambda>e. Suc (snd e) \<le> k) ?kept)"
      by (simp add: filter_map o_def case_prod_beta)
    also have "\<dots> \<le> length (filter (\<lambda>e. snd e \<le> k) m)"
      unfolding filter_filter by (rule filter_length_mono) simp
    finally show ?thesis using must_wf_count [OF assms(1) that] by simp
  qed
  ultimately show ?thesis unfolding must_potential_map [OF assms] must_wf_def by simp
qed

lemma must_potential_gamma:
  assumes "must_wf A m" and "A \<le> 255" and "q \<in> must_gamma A m"
  shows "q \<in> must_gamma A (fst (must_potential_entries A m))"
    and "lru_access A x q \<in> must_gamma A (fst (must_potential_entries A m))"
proof -
  have q: "lru_wf A q" using assms(3) by (simp add: must_gamma_def)
  have old: "t \<in> set q \<and> lru_age q t \<le> a" if "(t, a) \<in> set m" for t a
    using assms(3) that by (force simp: must_gamma_def)
  show "q \<in> must_gamma A (fst (must_potential_entries A m))"
    using q old unfolding must_potential_map [OF assms(1,2)] must_gamma_def
    by (force intro: le_SucI)
  have "t \<in> set (lru_access A x q) \<and> lru_age (lru_access A x q) t \<le> Suc a"
    if "(t, a) \<in> set m" "a < A - 1" for t a
  proof (cases "t = x")
    case True
    then show ?thesis using that lru_access_self [of A] by simp
  next
    case False
    have "lru_next_age q x t \<le> Suc a" using old [OF that(1)] lru_next_age_le [of q x t] by simp
    then show ?thesis
      using lru_access_other [OF q False] old [OF that(1)] that(2) by simp
  qed
  then show "lru_access A x q \<in> must_gamma A (fst (must_potential_entries A m))"
    using q unfolding must_potential_map [OF assms(1,2)] must_gamma_def by auto
qed

section \<open>Join and order\<close>

lemma must_gamma_join:
  assumes "must_wf A x" and "must_wf A y"
  shows "must_gamma A x \<union> must_gamma A y \<subseteq> must_gamma A (must_join x y)"
proof
  fix q assume "q \<in> must_gamma A x \<union> must_gamma A y"
  then show "q \<in> must_gamma A (must_join x y)"
    unfolding must_gamma_def join_set_sorted(1) [OF assms] join_pairs_def by force
qed

lemma must_spec_join_absorb:
  "must_spec_join mp mq = mq \<longleftrightarrow> (\<forall>u b. mq u = Some b \<longrightarrow> (\<exists>a \<le> b. mp u = Some a))"
proof
  assume eq: "must_spec_join mp mq = mq"
  show "\<forall>u b. mq u = Some b \<longrightarrow> (\<exists>a \<le> b. mp u = Some a)"
  proof (intro allI impI)
    fix u b assume "mq u = Some b"
    then show "\<exists>a \<le> b. mp u = Some a"
      using fun_cong [OF eq, of u] by (auto simp: must_spec_join_def split: option.splits)
  qed
next
  assume le: "\<forall>u b. mq u = Some b \<longrightarrow> (\<exists>a \<le> b. mp u = Some a)"
  show "must_spec_join mp mq = mq"
  proof
    fix u show "must_spec_join mp mq u = mq u"
    proof (cases "mq u")
      case (Some b)
      then obtain a where "mp u = Some a" "a \<le> b" using le by blast
      then show ?thesis using Some by (simp add: must_spec_join_def)
    qed (simp add: must_spec_join_def split: option.splits)
  qed
qed

lemma must_lessequal_map:
  assumes "must_wf A x" and "must_wf A y"
  shows "must_lessequal x y \<longleftrightarrow> (\<forall>u b. map_of y u = Some b \<longrightarrow> (\<exists>a \<le> b. map_of x u = Some a))"
proof -
  have "must_lessequal x y \<longleftrightarrow> must_join x y = y" by (simp add: must_lessequal_def)
  also have "\<dots> \<longleftrightarrow> map_of (must_join x y) = map_of y"
    using must_wf_unique [OF must_join_wf [OF assms] assms(2)] by auto
  finally show ?thesis by (simp add: must_join_map [OF assms] must_spec_join_absorb)
qed

lemma must_lessequal_gamma:
  assumes "must_wf A x" and "must_wf A y" and "must_lessequal x y"
  shows "must_gamma A x \<subseteq> must_gamma A y"
proof
  fix q assume "q \<in> must_gamma A x"
  then show "q \<in> must_gamma A y"
    using assms(3) unfolding must_lessequal_map [OF assms(1,2)]
      must_gamma_iff [OF must_wfD(1) [OF assms(1)]] must_gamma_iff [OF must_wfD(1) [OF assms(2)]]
    by (meson order_trans)
qed

section \<open>Classification\<close>

lemma must_classify_hit:
  assumes "q \<in> must_gamma (ASSOCIATIVITY T) m" and "must_classify_tag T E m t idx = CL_HIT"
  shows "t \<in> set q"
  using assms map_of_SomeD [of m t]
  by (force simp: must_classify_tag_def must_gamma_def split: option.splits if_splits)

lemma must_full_miss:
  assumes "must_wf A m" and "q \<in> must_gamma A m" and "length m = A" and "map_of m t = None"
  shows "t \<notin> set q"
proof
  assume "t \<in> set q"
  have "card (set (keys m)) = length m" using must_wfD(1) [OF assms(1)] distinct_card [of "keys m"] by simp
  moreover have "set (keys m) \<subseteq> set q" "lru_wf A q" using assms(2) by (auto simp: must_gamma_def)
  ultimately have "t \<in> set (keys m)" using lru_full_only \<open>t \<in> set q\<close> assms(3) by auto
  then show False using assms(4) by (simp add: map_of_eq_None_iff)
qed

lemma must_classify_miss:
  assumes "must_wf (ASSOCIATIVITY T) m" and "q \<in> must_gamma (ASSOCIATIVITY T) m"
    and "CNN T E idx t = 0" and "must_classify_tag T E m t idx = CL_MISS"
  shows "t \<notin> set q"
proof (cases "map_of m t")
  case None
  then show ?thesis
    using assms must_full_miss by (auto simp: must_classify_tag_def split: if_splits)
next
  case (Some a)
  then show ?thesis using assms must_age_less [OF assms(1) Some]
    by (auto simp: must_classify_tag_def)
qed

section \<open>The order used in containers\<close>

lemma first_difference_None:
  "length xs = length ys \<Longrightarrow> first_difference lt xs ys = None \<longleftrightarrow> xs = ys"
  by (induction xs ys rule: list_induct2) auto

definition lex_less :: "('a::linorder) list \<Rightarrow> 'a list \<Rightarrow> bool" where
  "lex_less xs ys \<longleftrightarrow> first_difference (<) xs ys = Some True"

lemma lex_less_trans:
  "length xs = length ys \<Longrightarrow> length ys = length zs \<Longrightarrow> lex_less xs ys \<Longrightarrow> lex_less ys zs \<Longrightarrow> lex_less xs zs"
proof (induction xs ys zs rule: list_induct3)
  case Nil
  then show ?case by (simp add: lex_less_def)
next
  case (Cons x xs y ys z zs)
  then show ?case by (auto simp: lex_less_def split: if_splits)
qed

lemma lex_less_asym: "length xs = length ys \<Longrightarrow> lex_less xs ys \<Longrightarrow> \<not> lex_less ys xs"
  by (induction xs ys rule: list_induct2) (auto simp: lex_less_def split: if_splits)

lemma lex_less_total: "length xs = length ys \<Longrightarrow> lex_less xs ys \<or> xs = ys \<or> lex_less ys xs"
  by (induction xs ys rule: list_induct2) (auto simp: lex_less_def)

lemma first_difference_False:
  "length xs = length ys \<Longrightarrow> first_difference (<) xs ys = Some False \<longleftrightarrow> lex_less ys (xs :: 'a::linorder list)"
  by (induction xs ys rule: list_induct2) (auto simp: lex_less_def)

lemma must_less_iff:
  "must_less x y \<longleftrightarrow> length x < length y \<or>
     (length x = length y \<and> (lex_less (map snd x) (map snd y) \<or>
       (map snd x = map snd y \<and> lex_less (map fst x) (map fst y))))"
proof (cases "length x = length y")
  case True
  then have l: "length (map snd x) = length (map snd y)" "length (map fst x) = length (map fst y)" by simp_all
  show ?thesis
    using True first_difference_None [OF l(1), of "(<)"] first_difference_None [OF l(2), of "(<)"]
    by (auto simp: must_less_def lex_less_def split: option.splits)
next
  case False
  then show ?thesis by (auto simp: must_less_def)
qed

lemma must_less_laws:
  "\<not> must_less x x" "must_less x y \<Longrightarrow> must_less y z \<Longrightarrow> must_less x z"
  "must_less x y \<or> x = y \<or> must_less y x"
proof -
  show "\<not> must_less x x" using lex_less_asym [of "map snd x" "map snd x"]
      lex_less_asym [of "map fst x" "map fst x"] by (auto simp: must_less_iff)
  show "must_less x z" if xy: "must_less x y" and yz: "must_less y z"
  proof (cases "length x = length y \<and> length y = length z")
    case True
    have "lex_less (map snd x) (map snd y) \<Longrightarrow> lex_less (map snd y) (map snd z) \<Longrightarrow>
        lex_less (map snd x) (map snd z)"
      "lex_less (map fst x) (map fst y) \<Longrightarrow> lex_less (map fst y) (map fst z) \<Longrightarrow>
        lex_less (map fst x) (map fst z)"
      using True lex_less_trans [of "map snd x" "map snd y" "map snd z"]
        lex_less_trans [of "map fst x" "map fst y" "map fst z"] by simp_all
    then show ?thesis using True xy yz unfolding must_less_iff by (metis less_irrefl)
  next
    case False
    then have "length x < length z" using xy yz unfolding must_less_iff by linarith
    then show ?thesis unfolding must_less_iff by blast
  qed
  have "map snd x = map snd y \<Longrightarrow> map fst x = map fst y \<Longrightarrow> x = y" by (metis zip_map_fst_snd)
  then show "must_less x y \<or> x = y \<or> must_less y x"
    using lex_less_total [of "map snd x" "map snd y"] lex_less_total [of "map fst x" "map fst y"]
    unfolding must_less_iff by (metis length_map linorder_neqE_nat)
qed

section \<open>Counting queries\<close>

lemma must_number_filter:
  "sorted_wrt entry_less m \<Longrightarrow>
     must_number_with_max_age m k = length (filter (\<lambda>e. int (snd e) = k) m)"
proof (induction m k rule: must_number_with_max_age.induct)
  case (1 k)
  then show ?case by simp
next
  case (2 t a m k)
  then have "int a > k \<Longrightarrow> filter (\<lambda>e. int (snd e) = k) m = []"
    by (fastforce simp: filter_empty_conv entry_less_def)
  then show ?case using 2 by auto
qed

lemma must_tags_loop_denote:
  "sorted_wrt entry_less m \<Longrightarrow>
     is_denote (must_tags_loop m k res) = is_denote res \<union> fst ` {e \<in> set m. int (snd e) \<le> k}"
proof (induction m k res rule: must_tags_loop.induct)
  case (1 k res)
  then show ?case by simp
next
  case (2 t a m k res)
  show ?case
  proof (cases "int a > k")
    case True
    then have none: "\<forall>e \<in> set ((t, a) # m). \<not> int (snd e) \<le> k"
      using "2.prems" by (auto simp: entry_less_def)
    have empty: "{e \<in> set ((t, a) # m). int (snd e) \<le> k} = {}" using none by blast
    show ?thesis unfolding empty using True by simp
  next
    case False
    have split: "{e \<in> set ((t, a) # m). int (snd e) \<le> k} = insert (t, a) {e \<in> set m. int (snd e) \<le> k}"
      using False by auto
    show ?thesis unfolding split using 2 False by (simp add: is_denote_insert)
  qed
qed

text \<open>
  If entry \<open>i\<close> has age \<open>i\<close>, the first \<open>i + 1\<close> entries are the \<open>i + 1\<close> youngest cached tags.
\<close>

lemma must_substack_result:
  "must_substack_loop m i k res = r \<Longrightarrow>
     r = res \<or> (\<exists>j < length m. r = Suc (i + j) \<and> snd (m ! j) = i + j \<and> int (i + j) < k)"
proof (induction m i k res arbitrary: r rule: must_substack_loop.induct)
  case (1 i k res)
  then show ?case by simp
next
  case (2 t a m i k res)
  show ?case
  proof (cases "int a \<ge> k")
    case True
    then show ?thesis using 2 by simp
  next
    case False
    from "2.IH" [OF False] "2.prems" False
    consider "r = (if a = i then i + 1 else res)"
      | j where "j < length m" "r = Suc (Suc i + j)" "snd (m ! j) = Suc i + j" "int (Suc i + j) < k"
      by (auto split: if_splits)
    then show ?thesis
    proof cases
      case 1
      then show ?thesis using False by (auto split: if_splits)
    next
      case 2
      then show ?thesis by (intro disjI2 exI [of _ "Suc j"]) auto
    qed
  qed
qed

lemma young_prefix:
  assumes "lru_wf A q" and "card S = r" and "S \<subseteq> set q" and "\<forall>u \<in> S. lru_age q u < r"
  shows "set (take r q) = S"
proof -
  have d: "distinct q" using assms(1) by (simp add: lru_wf_def)
  have "S \<subseteq> set (take r q)" using assms(3,4) unfolding in_take_iff [OF d] by (auto simp: in_take_iff [OF d])
  moreover have "card (set (take r q)) \<le> r" using card_length [of "take r q"] by simp
  ultimately show ?thesis using card_seteq [of "set (take r q)" S] assms(2) by simp
qed

lemma must_concrete_prefix:
  assumes "must_wf A m" and "q \<in> must_gamma A m" and "must_max_concrete_substack m k = r"
  shows "set (take r q) = set (keys (take r m)) \<and> int r \<le> max 0 k \<and> r \<le> length m"
proof -
  note wf = must_wfD [OF assms(1)]
  from must_substack_result [OF assms(3) [unfolded must_max_concrete_substack_def]]
  consider "r = 0" | j where "j < length m" "r = Suc j" "snd (m ! j) = j" "int j < k" by auto
  then show ?thesis
  proof cases
    case 2
    have "distinct (keys (take r m))" using wf(1) by (simp add: distinct_take flip: take_map)
    then have "card (set (keys (take r m))) = r" using 2 distinct_card [of "keys (take r m)"] by simp
    moreover have "lru_age q (fst e) < r \<and> fst e \<in> set q" if "e \<in> set (take r m)" for e
    proof -
      have "take r m = take j m @ [m ! j]" using 2 by (simp add: take_Suc_conv_app_nth)
      then have "e \<in> set (take j m) \<or> e = m ! j" using that by auto
      moreover have "snd f \<le> j" if f: "f \<in> set (take j m)" for f
      proof -
        have "m = take j m @ m ! j # drop (Suc j) m" using 2 by (simp add: id_take_nth_drop)
        then have "sorted_wrt entry_less (take j m @ m ! j # drop (Suc j) m)" using wf(2) by simp
        then show ?thesis using f 2 by (auto simp: sorted_wrt_append entry_less_def)
      qed
      ultimately have "snd e \<le> j" using 2(3) by (metis order_refl)
      moreover have "fst e \<in> set q \<and> lru_age q (fst e) \<le> snd e"
        using assms(2) in_set_takeD [OF that] by (auto simp: must_gamma_def)
      ultimately show ?thesis using 2 by simp
    qed
    ultimately have "set (take r q) = set (keys (take r m))"
      using assms(2) by (intro young_prefix [of A]) (auto simp: must_gamma_def)
    then show ?thesis using 2 by simp
  qed simp
qed

section \<open>The operations as the cache calls them\<close>

lemma must_update_Some:
  assumes "aa_getTag T E aa = Some t"
    and "must_update_entries (ASSOCIATIVITY T) t (must_assumes_hit T c) m = Some (m', ev)"
  shows "must_update T E m aa ls rep c = Some (m', if rep then Some (MustReport ev) else None)"
  using assms by (simp add: must_update_def)

definition ex_must :: must_state where
  "ex_must = [(3, 0), (5, 1), (1, 2)]"

lemma ex_must_wf: "must_wf 4 ex_must"
proof -
  have "\<forall>k < 4. length (filter (\<lambda>e. snd e \<le> k) ex_must) \<le> Suc k"
    by (auto simp: ex_must_def less_Suc_eq numeral_eq_Suc)
  then show ?thesis by (simp add: must_wf_def ex_must_def entry_less_def)
qed

lemma ex_must_gamma: "[3, 5, 1, 7] \<in> must_gamma 4 ex_must"
  by (simp add: must_gamma_def ex_must_def lru_wf_def)

text \<open>An assumed hit on a tag that a full state does not store has no age left for it.\<close>

lemma must_update_full_fails:
  assumes "aa_getTag T E aa = Some t" "must_assumes_hit T c" "t \<notin> set (keys m)" "length m = ASSOCIATIVITY T"
  shows "must_update T E m aa ls rep c = None"
proof -
  have "dropWhile (\<lambda>e. fst e \<noteq> t) m = []" using assms(3) by (auto simp: dropWhile_eq_Nil_conv)
  then have "must_update_entries (ASSOCIATIVITY T) t True m = None"
    unfolding must_update_entries_def Let_def using assms(4) by (simp only: list.case if_True) simp
  then show ?thesis using assms(1,2) by (simp add: must_update_def)
qed



text \<open>
  C2: the must update is sound: if a state describes an LRU set, the state after the update
  describes the set after the access, and no assertion of the update fails, provided a hit is only
  assumed for a tag that is cached.
\<close>

theorem must_update_sound:
  assumes "traits_ok T" and "must_wf (ASSOCIATIVITY T) m" and "aa_getTag T E aa = Some t"
    and "q \<in> must_gamma (ASSOCIATIVITY T) m" and "must_assumes_hit T c \<Longrightarrow> t \<in> set q"
  shows "\<exists>m' r. must_update T E m aa ls rep c = Some (m', r) \<and>
    must_wf (ASSOCIATIVITY T) m' \<and>
    lru_access (ASSOCIATIVITY T) t q \<in> must_gamma (ASSOCIATIVITY T) m'"
proof -
  have A: "0 < ASSOCIATIVITY T" "ASSOCIATIVITY T \<le> 255" using assms(1) by (simp_all add: traits_ok_def)
  show ?thesis
    using must_update_gamma [OF assms(2) A assms(4,5)] must_update_Some [OF assms(3)] by metis
qed

theorem must_update_sound_witness:
  "\<exists>m' r. must_update ex_traits ex_env ex_must (aa_of_address 0xE0) STORE False CL_HIT = Some (m', r) \<and>
    must_wf 4 m' \<and> lru_access 4 7 [3, 5, 1, 7] \<in> must_gamma 4 m'"
proof -
  have tag: "aa_getTag ex_traits ex_env (aa_of_address 0xE0) = Some 7"
    by (simp add: getTag_def)
  show ?thesis
    using must_update_sound [OF ex_traits_ok _ tag, of ex_must "[3, 5, 1, 7]" CL_HIT STORE False]
      ex_must_wf ex_must_gamma by simp
qed

text \<open>
  A potential access (to an unknown line) leaves a state that describes both the untouched
  set and the set after any access, keeps the class invariant, and reports the tags of maximal age.
\<close>

theorem must_potential_sound:
  assumes "traits_ok T" and "must_wf (ASSOCIATIVITY T) m" and "q \<in> must_gamma (ASSOCIATIVITY T) m"
    and "must_potential_update T m aa ls rep = (m', r)"
  shows "must_wf (ASSOCIATIVITY T) m' \<and> q \<in> must_gamma (ASSOCIATIVITY T) m' \<and>
    (\<forall>x. lru_access (ASSOCIATIVITY T) x q \<in> must_gamma (ASSOCIATIVITY T) m') \<and>
    r = (if rep then Some (MustReport {u. map_of m u = Some (ASSOCIATIVITY T - 1)}) else None)"
proof -
  have A: "ASSOCIATIVITY T \<le> 255" using assms(1) by (simp add: traits_ok_def)
  have "m' = fst (must_potential_entries (ASSOCIATIVITY T) m)"
    "r = (if rep then Some (MustReport (snd (must_potential_entries (ASSOCIATIVITY T) m))) else None)"
    using assms(4) by (auto simp: must_potential_update_def split: prod.splits)
  then show ?thesis
    using must_potential_wf [OF assms(2) A] must_potential_gamma [OF assms(2) A assms(3)]
      must_potential_map [OF assms(2) A] by simp
qed

theorem must_potential_sound_witness:
  "must_wf 4 (fst (must_potential_update ex_traits ex_must aa_unknown LOAD True)) \<and>
   lru_access 4 9 [3, 5, 1, 7] \<in> must_gamma 4 (fst (must_potential_update ex_traits ex_must aa_unknown LOAD True))"
proof -
  obtain m' r where "must_potential_update ex_traits ex_must aa_unknown LOAD True = (m', r)"
    by (cases "must_potential_update ex_traits ex_must aa_unknown LOAD True")
  then show ?thesis
    using must_potential_sound [OF ex_traits_ok, of ex_must "[3, 5, 1, 7]" aa_unknown LOAD True m' r]
      ex_must_wf ex_must_gamma by simp
qed

text \<open>
  Classification by the must state: a hit is definite, and when no conflicting line of another
  core is counted a miss is definite, for every LRU set the state describes.
\<close>

theorem must_classify_sound:
  assumes "must_wf (ASSOCIATIVITY T) m" and "q \<in> must_gamma (ASSOCIATIVITY T) m"
    and "must_classify T E m aa = Some c"
  shows "\<exists>t idx. aa_getTag T E aa = Some t \<and> aa_getindex T E aa = Some idx \<and>
    (c = CL_HIT \<longrightarrow> t \<in> set q) \<and> (c = CL_MISS \<and> CNN T E idx t = 0 \<longrightarrow> t \<notin> set q)"
  using assms must_classify_hit [OF assms(2)] must_classify_miss [OF assms(1,2)]
  by (auto simp: must_classify_def split: option.splits)

theorem must_classify_sound_witness:
  "(\<exists>t idx. aa_getTag ex_traits ex_env (aa_of_address 0xA0) = Some t \<and>
     aa_getindex ex_traits ex_env (aa_of_address 0xA0) = Some idx \<and> (CL_HIT = CL_HIT \<longrightarrow> t \<in> set [3, 5, 1, 7]) \<and>
     (CL_HIT = CL_MISS \<and> CNN ex_traits ex_env idx t = 0 \<longrightarrow> t \<notin> set [3, 5, 1, 7]))"
proof -
  have "must_classify ex_traits ex_env ex_must (aa_of_address 0xA0) = Some CL_HIT"
    by (simp add: must_classify_def must_classify_tag_def getTag_def ex_must_def)
  from must_classify_sound [OF _ _ this, of "[3, 5, 1, 7]"] show ?thesis
    using ex_must_wf ex_must_gamma unfolding ex_traits_simps by blast
qed

lemma must_join_lub_facts:
  assumes "must_wf A x" and "must_wf A y"
  shows "must_wf A (must_join x y)" 
    and "map_of (must_join x y) = must_spec_join (map_of x) (map_of y)"
    and "must_gamma A x \<union> must_gamma A y \<subseteq> must_gamma A (must_join x y)"
    and "must_lessequal x (must_join x y)" and "must_lessequal y (must_join x y)"
    and "must_wf A z \<Longrightarrow> must_lessequal x z \<Longrightarrow> must_lessequal y z \<Longrightarrow> must_lessequal (must_join x y) z"
  using must_join_wf [OF assms] must_join_map [OF assms] must_gamma_join [OF assms]
    must_semilattice.leq_jn1 [OF assms] must_semilattice.leq_jn2 [OF assms]
    must_semilattice.jn_least [OF assms]
  by (simp_all add: must_lessequal_def po_leq_def)

text \<open>
  C14: the join of two well-formed must states is well-formed, describes every set one of them
  describes, is the pointwise maximum on the common tags, and is the least upper bound for
  \<open>lessequal\<close>.
\<close>

theorem must_join_lub:
  assumes "must_wf A x" and "must_wf A y"
  shows "(must_wf A (must_join x y)) \<and>
    (map_of (must_join x y) = must_spec_join (map_of x) (map_of y)) \<and>
    (must_gamma A x \<union> must_gamma A y \<subseteq> must_gamma A (must_join x y)) \<and>
    (must_lessequal x (must_join x y)) \<and>
    (must_lessequal y (must_join x y)) \<and>
    (must_wf A z \<longrightarrow> must_lessequal x z \<longrightarrow> must_lessequal y z \<longrightarrow> must_lessequal (must_join x y) z)"
  using must_join_lub_facts [OF assms] by blast

theorem must_join_lub_witness:
  "must_lessequal ex_must (must_join ex_must [(5, 0)]) \<and>
   map_of (must_join ex_must [(5, 0)]) = must_spec_join (map_of ex_must) (map_of [(5, 0)])"
proof -
  have "must_wf 4 [(5, 0)]" by (simp add: must_wf_def)
  then show ?thesis
    using must_join_lub [OF ex_must_wf] by blast
qed

lemma must_lessequal_order_facts:
  assumes "must_wf A x" and "must_wf A y"
  shows "must_lessequal x y \<longleftrightarrow> (\<forall>u b. map_of y u = Some b \<longrightarrow> (\<exists>a \<le> b. map_of x u = Some a))"
    and "must_lessequal x y \<Longrightarrow> must_gamma A x \<subseteq> must_gamma A y"
  using must_lessequal_map [OF assms] must_lessequal_gamma [OF assms] by blast+

text \<open>
  On well-formed must states \<open>lessequal\<close> is the pointwise order of the maps, and a smaller
  state describes fewer sets.
\<close>

theorem must_lessequal_order:
  assumes "must_wf A x" and "must_wf A y"
  shows "(must_lessequal x y \<longleftrightarrow> (\<forall>u b. map_of y u = Some b \<longrightarrow> (\<exists>a \<le> b. map_of x u = Some a))) \<and>
    (must_lessequal x y \<longrightarrow> must_gamma A x \<subseteq> must_gamma A y)"
  using must_lessequal_order_facts [OF assms] by blast

theorem must_lessequal_order_witness:
  "must_gamma 4 ex_must \<subseteq> must_gamma 4 [(5, 1)]"
proof -
  have wf: "must_wf 4 [(5, 1)]" by (simp add: must_wf_def)
  have "must_lessequal ex_must [(5, 1)]"
    by (simp add: must_lessequal_def must_join_def ex_must_def must_pick_def)
  then show ?thesis using must_lessequal_order [OF ex_must_wf wf] by blast
qed

text \<open>\<open>operator<\<close> on must states is a strict total order, as the ordered containers need.\<close>

theorem must_less_strict_order:
  "\<not> must_less x x \<and> (must_less x y \<and> must_less y z \<longrightarrow> must_less x z) \<and>
   (must_less x y \<or> must_eq x y \<or> must_less y x)"
  using must_less_laws(2) [of x y z] must_less_laws(1) [of x] must_less_laws(3) [of x y] by auto

theorem must_less_strict_order_witness:
  "must_less [(9, 0)] [(2, 0), (5, 1)] \<and> must_less [(2, 0), (5, 1)] ex_must \<and> must_less [(9, 0)] ex_must"
proof -
  have "must_less [(9, 0)] [(2, 0), (5, 1)]" "must_less [(2, 0), (5, 1)] ex_must"
    by (simp_all add: must_less_def ex_must_def)
  then show ?thesis
    using must_less_strict_order [of "[(9, 0)]" "[(2, 0), (5, 1)]" ex_must] by blast
qed

lemma must_queries_correct_facts:
  assumes "must_wf A m"
  shows "must_number_with_max_age m k = card {u. \<exists>a. map_of m u = Some a \<and> int a = k}"
    and "is_denote (must_tags_with_max_max_age m k) = {u. \<exists>a. map_of m u = Some a \<and> int a \<le> k}"
    and "q \<in> must_gamma A m \<Longrightarrow> set (take (must_max_concrete_substack m k) q) =
      set (keys (take (must_max_concrete_substack m k) m))"
proof -
  note wf = must_wfD [OF assms]
  have "fst ` {e \<in> set m. int (snd e) = k} = {u. \<exists>a. map_of m u = Some a \<and> int a = k}"
    using wf(1) by (force simp: image_iff)
  then show "must_number_with_max_age m k = card {u. \<exists>a. map_of m u = Some a \<and> int a = k}"
    by (simp add: must_number_filter [OF wf(2)] length_filter_card [OF wf(1)])
  have "fst ` {e \<in> set m. int (snd e) \<le> k} = {u. \<exists>a. map_of m u = Some a \<and> int a \<le> k}"
    using wf(1) by (force simp: image_iff)
  then show "is_denote (must_tags_with_max_max_age m k) = {u. \<exists>a. map_of m u = Some a \<and> int a \<le> k}"
    by (simp add: must_tags_with_max_max_age_def must_tags_loop_denote [OF wf(2)] is_denote_make)
  show "q \<in> must_gamma A m \<Longrightarrow> set (take (must_max_concrete_substack m k) q) =
      set (keys (take (must_max_concrete_substack m k) m))"
    using must_concrete_prefix [OF assms _ refl] by blast
qed

text \<open>
  The counting queries: the number of tags of a maximal age, the set of tags of at most an age,
  and the concrete sub-stack, whose tags are exactly the youngest ones of every described set.
\<close>

theorem must_queries_correct:
  assumes "must_wf A m"
  shows "(must_number_with_max_age m k = card {u. \<exists>a. map_of m u = Some a \<and> int a = k}) \<and>
    (is_denote (must_tags_with_max_max_age m k) = {u. \<exists>a. map_of m u = Some a \<and> int a \<le> k}) \<and>
    (q \<in> must_gamma A m \<longrightarrow> (set (take (must_max_concrete_substack m k) q) = set (keys (take (must_max_concrete_substack m k) m))))"
  using must_queries_correct_facts [OF assms] by blast

theorem must_queries_correct_witness:
  "set (take 2 [3, 5, 1, 7]) = set (keys (take 2 ex_must)) \<and>
   must_number_with_max_age ex_must 2 = card {u. \<exists>a. map_of ex_must u = Some a \<and> int a = 2}"
proof -
  have "must_max_concrete_substack ex_must 2 = 2"
    by (simp add: must_max_concrete_substack_def ex_must_def)
  then show ?thesis
    using must_queries_correct [OF ex_must_wf, of 2 "[3, 5, 1, 7]"] ex_must_gamma by simp
qed

lemma must_get_age_narrowing_facts:
  assumes "traits_ok T" and "must_wf (ASSOCIATIVITY T) m" and "map_of m t = Some a"
  shows "must_get_age_tag T m t = (if a < 128 then int a else int a - 256)"
    and "128 \<le> a \<Longrightarrow> must_get_age_tag T m t < 0"
proof -
  have "a < ASSOCIATIVITY T" "a < 256"
    using must_age_less [OF assms(2,3)] assms(1) by (auto simp: traits_ok_def)
  then show "must_get_age_tag T m t = (if a < 128 then int a else int a - 256)"
    "128 \<le> a \<Longrightarrow> must_get_age_tag T m t < 0"
    using assms(3) by (simp_all add: must_get_age_tag_def int8_cast_def Let_def)
qed

text \<open>
  \<open>getAge\<close> gives the stored maximal age below 128; from 128 on, where an associativity of up
  to 255 still admits the age, the narrowing to a signed byte makes it negative.
\<close>

theorem must_get_age_narrowing:
  assumes "traits_ok T" and "must_wf (ASSOCIATIVITY T) m" and "map_of m t = Some a"
  shows "(must_get_age_tag T m t = (if a < 128 then int a else int a - 256)) \<and>
    (128 \<le> a \<longrightarrow> must_get_age_tag T m t < 0)"
  using must_get_age_narrowing_facts [OF assms] by blast

theorem must_get_age_narrowing_witness:
  "must_get_age_tag (ex_traits\<lparr>ASSOCIATIVITY := 200\<rparr>) [(5, 150)] 5 < 0"
proof -
  have ok: "traits_ok (ex_traits\<lparr>ASSOCIATIVITY := 200\<rparr>)" using ex_traits_ok by (simp add: traits_ok_def)
  have wf: "must_wf (ASSOCIATIVITY (ex_traits\<lparr>ASSOCIATIVITY := 200\<rparr>)) [(5, 150)]" by (simp add: must_wf_def)
  have age: "map_of [(5 :: tag, 150 :: way)] 5 = Some 150" by simp
  show ?thesis using must_get_age_narrowing [OF ok wf age] by simp
qed

end
