(* ===== verification/TA_May.thy ===== *)
theory TA_May
  imports TA_Must_Sound
begin

text \<open>
  The may analysis of one LRU set (\<open>include/Memory/LruMinAgeAbstractCache.h\<close>).

  The member \<open>explicitTags\<close> is a list of entries \<open>(tag, age)\<close>, \<open>MayInfo\<close> in the code, in the order
  \<open>entry_less\<close>; every tag without an entry has the minimal age \<open>ageOfImplicitTags\<close>.  The loops
  over positions are recursions over this list; where the code moves tags only and leaves the ages
  in place, so does the model.  \<open>may_wf\<close> is the class invariant.
\<close>

record may_state =
  explicitTags :: "(tag \<times> way) list"
  ageOfImplicitTags :: way

section \<open>The operations\<close>

definition may_init :: "nat \<Rightarrow> bool \<Rightarrow> may_state" where
  "may_init A assumeAnEmptyCache =
     \<lparr>explicitTags = [], ageOfImplicitTags = (if assumeAnEmptyCache then A else 0)\<rparr>"

definition may_classify_tag ::
  "cache_traits \<Rightarrow> ana_env \<Rightarrow> may_state \<Rightarrow> tag \<Rightarrow> 32 word \<Rightarrow> classification" where
  "may_classify_tag T E m t idx =
     (let cnn = CNN T E idx t in
      if ageOfImplicitTags m + cnn < ASSOCIATIVITY T then CL_UNKNOWN
      else (case must_lookup (explicitTags m) t of
              Some a \<Rightarrow> if a + cnn \<ge> ASSOCIATIVITY T then CL_MISS else CL_UNKNOWN
            | None \<Rightarrow> CL_MISS))"

definition may_classify ::
  "cache_traits \<Rightarrow> ana_env \<Rightarrow> may_state \<Rightarrow> abs_address \<Rightarrow> classification option" where
  "may_classify T E m aa =
     (case aa_getTag T E aa of None \<Rightarrow> None
      | Some t \<Rightarrow> (case aa_getindex T E aa of None \<Rightarrow> None
                 | Some idx \<Rightarrow> Some (may_classify_tag T E m t idx)))"

text \<open>\<open>getAge\<close> narrows the tag of the entry it finds, not its age.\<close>

definition may_get_age_tag :: "cache_traits \<Rightarrow> may_state \<Rightarrow> tag \<Rightarrow> int" where
  "may_get_age_tag T m t =
     (case must_lookup (explicitTags m) t of
        Some a \<Rightarrow> if a \<ge> ASSOCIATIVITY T then INT_MAX else int8_cast (unat t)
      | None \<Rightarrow> INT_MAX)"

definition may_get_age :: "cache_traits \<Rightarrow> ana_env \<Rightarrow> may_state \<Rightarrow> abs_address \<Rightarrow> int option" where
  "may_get_age T E m aa = map_option (may_get_age_tag T m) (aa_getTag T E aa)"

definition removeRedundantTags :: "may_state \<Rightarrow> may_state" where
  "removeRedundantTags m =
     m\<lparr>explicitTags := rev (dropWhile (\<lambda>e. snd e \<ge> ageOfImplicitTags m) (rev (explicitTags m)))\<rparr>"

text \<open>
  The merge loop: a tag moves right past the entries of age at most \<open>lim\<close> with smaller tags.  Only
  tags move: \<open>a\<close> is the age at the position the moving tag has reached.
\<close>

fun may_bubble :: "nat \<Rightarrow> way \<Rightarrow> tag \<Rightarrow> (tag \<times> way) list \<Rightarrow> (tag \<times> way) list" where
  "may_bubble lim a t [] = [(t, a)]"
| "may_bubble lim a t ((u, b) # r) =
     (if b \<le> lim \<and> u < t then (u, a) # may_bubble lim b t r else (t, a) # (u, b) # r)"

definition may_merge :: "way \<Rightarrow> (tag \<times> way) list \<Rightarrow> (tag \<times> way) list \<Rightarrow> (tag \<times> way) list" where
  "may_merge h same right = foldr (\<lambda>e r. may_bubble (h + 1) (way_inc h) (fst e) r) same right"

definition age_all :: "(tag \<times> way) list \<Rightarrow> (tag \<times> way) list" where
  "age_all es = List.map (\<lambda>(t, a). (t, way_inc a)) es"

text \<open>Branch a1: the tag has no entry, or one of age \<open>ASSOCIATIVITY - 1\<close>.\<close>

definition may_kept :: "nat \<Rightarrow> (tag \<times> way) list \<Rightarrow> (tag \<times> way) list" where
  "may_kept A es = rev (dropWhile (\<lambda>e. snd e = A - 1) (rev es))"

text \<open>
  Branch a2: the tag is found at position \<open>length pre\<close> with age \<open>h\<close>.  The entries of the same age on
  both sides age and are merged into the group of age \<open>h + 1\<close>; the younger ones on the left age and
  shift by one place.
\<close>

definition may_found :: "tag \<Rightarrow> way \<Rightarrow> (tag \<times> way) list \<Rightarrow> (tag \<times> way) list \<Rightarrow> (tag \<times> way) list" where
  "may_found t h pre post =
     (let leftsame = rev (takeWhile (\<lambda>e. snd e = h) (rev pre));
          left = rev (dropWhile (\<lambda>e. snd e = h) (rev pre));
          rightsame = takeWhile (\<lambda>e. snd e = h) post;
          right = dropWhile (\<lambda>e. snd e = h) post
      in (t, 0) # age_all left @ may_merge h (leftsame @ rightsame) right)"

definition may_update_entries ::
  "nat \<Rightarrow> tag \<Rightarrow> may_state \<Rightarrow> may_state \<times> tag set \<times> bool" where
  "may_update_entries A t m =
     (let es = explicitTags m;
          pre = takeWhile (\<lambda>e. fst e \<noteq> t) es; rest = dropWhile (\<lambda>e. fst e \<noteq> t) es;
          pos = length pre;
          imp = ageOfImplicitTags m;
          accessedAge = (case rest of [] \<Rightarrow> imp | (_, h) # _ \<Rightarrow> h);
          ages = (imp \<le> accessedAge \<and> imp < A);
          imp' = (if ages then way_inc imp else imp);
          justEvicted = (ages \<and> imp' = A);
          kept = may_kept A es;
          dropped = (if imp' = A then set (List.map (\<lambda>i. fst (es ! i)) (filter (\<lambda>i. i \<noteq> pos) [length kept..<length es]))
                     else {});
          front = (t, 0) # age_all kept
      in (case rest of
            [] \<Rightarrow> (removeRedundantTags \<lparr>explicitTags = front, ageOfImplicitTags = imp'\<rparr>,
                   dropped, justEvicted)
          | (_, h) # post \<Rightarrow>
              if h = A - 1
              then (removeRedundantTags \<lparr>explicitTags = front, ageOfImplicitTags = imp'\<rparr>,
                    dropped, justEvicted)
              else (removeRedundantTags \<lparr>explicitTags = may_found t h pre post,
                                         ageOfImplicitTags = imp'\<rparr>, {}, justEvicted)))"

definition may_update ::
  "cache_traits \<Rightarrow> ana_env \<Rightarrow> may_state \<Rightarrow> abs_address \<Rightarrow> access_type \<Rightarrow> bool \<Rightarrow> classification \<Rightarrow>
     (may_state \<times> update_report option) option" where
  "may_update T E m aa load_store wantReport assumption =
     (case aa_getTag T E aa of None \<Rightarrow> None
      | Some t \<Rightarrow>
          let (m', evicted, justEvicted) = may_update_entries (ASSOCIATIVITY T) t m
          in Some (m', if wantReport then Some (MayReport evicted justEvicted False) else None))"

text \<open>
  \<open>potentialUpdate\<close>.  The loops over the tags from \<open>lowTag\<close> to \<open>highTag\<close> do not end if \<open>highTag\<close> is
  the greatest tag; that and the failed assertion are \<open>None\<close>.
\<close>

definition tag_range :: "tag \<Rightarrow> tag \<Rightarrow> tag list" where
  "tag_range lowTag highTag = List.map word_of_nat [unat lowTag..<Suc (unat highTag)]"

fun may_insert_range ::
  "tag \<Rightarrow> tag \<Rightarrow> bool \<Rightarrow> (tag \<times> way) list \<Rightarrow> (tag \<times> way) list" where
  "may_insert_range low high inserted [] =
     (if inserted then [] else List.map (\<lambda>t. (t, 0)) (tag_range low high))"
| "may_insert_range low high inserted ((u, a) # es) =
     (let now = (\<not> inserted \<and> (a > 0 \<or> u \<ge> low)) in
      (if now then List.map (\<lambda>t. (t, 0)) (tag_range low high) else []) @
      (if u < low \<or> u > high then [(u, a)] else []) @ may_insert_range low high (inserted \<or> now) es)"

definition maxWorthwhileTags :: "32 word" where "maxWorthwhileTags = 4"

definition may_potential_update ::
  "cache_traits \<Rightarrow> ana_env \<Rightarrow> may_state \<Rightarrow> abs_address \<Rightarrow> access_type \<Rightarrow> bool \<Rightarrow>
     (may_state \<times> update_report option) option" where
  "may_potential_update T E m aa load_store wantReport =
     (let report = (\<lambda>intro. if wantReport then Some (MayReport {} False intro) else None) in
      if ageOfImplicitTags m = 0 then
        (if explicitTags m = [] then Some (m, report False) else None)
      else
        let lowTag = getTag T (aa_lower E aa); highTag = getTag T (aa_upper E aa);
            numTags = highTag - lowTag + 1
        in if numTags > maxWorthwhileTags
           then Some (\<lparr>explicitTags = [], ageOfImplicitTags = 0\<rparr>, report True)
           else if highTag = - 1 then None
           else Some (m\<lparr>explicitTags := may_insert_range lowTag highTag False (explicitTags m)\<rparr>,
                      report False))"

text \<open>
  \<open>join\<close> merges from the youngest entry up.  An entry is output unless its tag is among the entries
  of the other operand consumed so far (\<open>xd\<close>, \<open>yd\<close>).
\<close>

definition may_pick :: "tag \<times> way \<Rightarrow> (tag \<times> way) list \<Rightarrow> (tag \<times> way) list" where
  "may_pick e consumed = (if fst e \<in> set (keys consumed) then [] else [e])"

fun may_join_loop ::
  "(tag \<times> way) list \<Rightarrow> (tag \<times> way) list \<Rightarrow> (tag \<times> way) list \<Rightarrow> (tag \<times> way) list \<Rightarrow> (tag \<times> way) list" where
  "may_join_loop [] [] xd yd = []"
| "may_join_loop (x # xs) [] xd yd = may_pick x yd @ may_join_loop xs [] (x # xd) yd"
| "may_join_loop [] (y # ys) xd yd = may_pick y xd @ may_join_loop [] ys xd (y # yd)"
| "may_join_loop (x # xs) (y # ys) xd yd =
     (if snd x < snd y \<or> (snd x = snd y \<and> fst x \<le> fst y)
      then may_pick x yd @ may_join_loop xs (y # ys) (x # xd) yd
      else may_pick y xd @ may_join_loop (x # xs) ys xd (y # yd))"

definition may_join :: "may_state \<Rightarrow> may_state \<Rightarrow> may_state" where
  "may_join x y = removeRedundantTags
     \<lparr>explicitTags = may_join_loop (explicitTags x) (explicitTags y) [] [],
      ageOfImplicitTags = min (ageOfImplicitTags x) (ageOfImplicitTags y)\<rparr>"

definition may_eq :: "may_state \<Rightarrow> may_state \<Rightarrow> bool" where
  "may_eq x y \<longleftrightarrow> ageOfImplicitTags x = ageOfImplicitTags y \<and> explicitTags x = explicitTags y"

definition may_lessequal :: "may_state \<Rightarrow> may_state \<Rightarrow> bool" where
  "may_lessequal x y = may_eq (may_join x y) y"

text \<open>\<open>operator<\<close> of \<open>std::vector\<close>: lexicographic, a proper prefix is less.\<close>

fun vector_less :: "('a \<Rightarrow> 'a \<Rightarrow> bool) \<Rightarrow> 'a list \<Rightarrow> 'a list \<Rightarrow> bool" where
  "vector_less lt xs [] = False"
| "vector_less lt [] (y # ys) = True"
| "vector_less lt (x # xs) (y # ys) = (lt x y \<or> (\<not> lt y x \<and> vector_less lt xs ys))"

definition may_less :: "may_state \<Rightarrow> may_state \<Rightarrow> bool" where
  "may_less x y \<longleftrightarrow> ageOfImplicitTags x < ageOfImplicitTags y \<or>
     (ageOfImplicitTags x = ageOfImplicitTags y \<and>
      vector_less entry_less (explicitTags x) (explicitTags y))"

definition getMinAge :: "may_state \<Rightarrow> tag \<Rightarrow> nat" where
  "getMinAge m t = (case must_lookup (explicitTags m) t of Some a \<Rightarrow> a | None \<Rightarrow> ageOfImplicitTags m)"

definition getTagsWithMaxMinAge :: "may_state \<Rightarrow> int \<Rightarrow> tag implicit_set" where
  "getTagsWithMaxMinAge m minAge =
     (if int (ageOfImplicitTags m) \<le> minAge then is_make True
      else must_tags_loop (explicitTags m) minAge (is_make False))"

fun may_count_loop :: "(tag \<times> way) list \<Rightarrow> int \<Rightarrow> nat" where
  "may_count_loop [] minAge = 0"
| "may_count_loop ((t, a) # es) minAge = (if int a > minAge then 0 else Suc (may_count_loop es minAge))"

definition getNTagsWithMaxMinAge :: "may_state \<Rightarrow> int \<Rightarrow> nat" where
  "getNTagsWithMaxMinAge m minAge =
     (if int (ageOfImplicitTags m) \<le> minAge then 2 ^ 32 - 1 else may_count_loop (explicitTags m) minAge)"

section \<open>Invariant and meaning\<close>

definition may_wf :: "nat \<Rightarrow> may_state \<Rightarrow> bool" where
  "may_wf A m \<longleftrightarrow> distinct (keys (explicitTags m)) \<and> sorted_wrt entry_less (explicitTags m) \<and>
     (\<forall>e \<in> set (explicitTags m). snd e < ageOfImplicitTags m) \<and> ageOfImplicitTags m \<le> A"

text \<open>Every cached tag is at least as old as its minimal age.\<close>

definition may_gamma :: "nat \<Rightarrow> may_state \<Rightarrow> lru_set set" where
  "may_gamma A m = {q. lru_wf A q \<and> (\<forall>t \<in> set q. getMinAge m t \<le> lru_age q t)}"

text \<open>The textbook update of the may domain on total functions, for an access to \<open>t\<close>.\<close>

definition may_spec_update :: "nat \<Rightarrow> tag \<Rightarrow> (tag \<Rightarrow> way) \<Rightarrow> (tag \<Rightarrow> way)" where
  "may_spec_update A t f =
     (\<lambda>u. if u = t then 0 else if f u \<le> f t then min A (Suc (f u)) else f u)"

end
