(* ===== verification/TA_May_Correct.thy ===== *)
theory TA_May_Correct
  imports TA_May
begin

text \<open>
  Correctness of the may analysis: the entries refine the textbook update on minimal ages, every
  operation keeps \<open>may_wf\<close>, join is the least upper bound, and update, potential update, join and
  classification are sound for the LRU set of \<open>TA_LRU\<close>.
\<close>

section \<open>Sorted entries and ages\<close>

lemma may_wfD:
  assumes "may_wf A m"
  shows "distinct (keys (explicitTags m))" "sorted_wrt entry_less (explicitTags m)"
    "\<forall>e \<in> set (explicitTags m). snd e < ageOfImplicitTags m" "ageOfImplicitTags m \<le> A"
  using assms unfolding may_wf_def by blast+

lemma getMinAge_le: "may_wf A m \<Longrightarrow> getMinAge m t \<le> ageOfImplicitTags m"
  using may_wfD(3) map_of_SomeD by (fastforce simp: getMinAge_def split: option.splits)

lemma getMinAge_explicit:
  assumes "may_wf A m"
  shows "map_of (explicitTags m) t = (if getMinAge m t < ageOfImplicitTags m then Some (getMinAge m t) else None)"
proof (cases "map_of (explicitTags m) t")
  case (Some a)
  have "a < ageOfImplicitTags m" using bspec [OF may_wfD(3) [OF assms] map_of_SomeD [OF Some]] by simp
  then show ?thesis using Some by (simp add: getMinAge_def)
qed (simp add: getMinAge_def)

lemma may_wf_unique:
  assumes "may_wf A x" "may_wf A y" "ageOfImplicitTags x = ageOfImplicitTags y"
    and "getMinAge x = getMinAge y"
  shows "x = y"
proof -
  have "map_of (explicitTags x) = map_of (explicitTags y)"
    using getMinAge_explicit [OF assms(1)] getMinAge_explicit [OF assms(2)] assms(3,4) by auto
  then have "set (explicitTags x) = set (explicitTags y)"
    using may_wfD(1) [OF assms(1)] may_wfD(1) [OF assms(2)] by (simp add: map_of_inject_set)
  then have "explicitTags x = explicitTags y"
    using may_wfD(2) [OF assms(1)] may_wfD(2) [OF assms(2)]
    by (intro sorted_wrt_set_unique [of entry_less]) (auto intro: entry_less_trans)
  then show ?thesis using assms(3) by simp
qed

lemma sorted_ages_append:
  "sorted_wrt entry_less (xs @ [e]) \<Longrightarrow> f \<in> set xs \<Longrightarrow> snd f \<le> snd e"
  by (auto simp: sorted_wrt_append entry_less_def)

lemma drop_old_filter:
  "sorted_wrt entry_less es \<Longrightarrow> rev (dropWhile (\<lambda>e. snd e \<ge> k) (rev es)) = filter (\<lambda>e. snd e < k) es"
proof (induction es rule: rev_induct)
  case (snoc e es)
  have IH: "rev (dropWhile (\<lambda>e. snd e \<ge> k) (rev es)) = filter (\<lambda>e. snd e < k) es"
    using snoc by (simp add: sorted_wrt_append)
  show ?case
  proof (cases "snd e \<ge> k")
    case False
    then have "\<forall>f \<in> set es. snd f < k" using sorted_ages_append [OF snoc.prems] by fastforce
    then show ?thesis using False by simp
  qed (use IH in simp)
qed simp

lemma split_group:
  assumes "sorted_wrt entry_less es" and "\<forall>e \<in> set es. snd e \<le> h"
  shows "rev (dropWhile (\<lambda>e. snd e = h) (rev es)) = filter (\<lambda>e. snd e < h) es"
    and "rev (takeWhile (\<lambda>e. snd e = h) (rev es)) = filter (\<lambda>e. snd e = h) es"
proof -
  have eq: "dropWhile (\<lambda>e. snd e = h) (rev es) = dropWhile (\<lambda>e. snd e \<ge> h) (rev es)"
    using assms(2) by (intro dropWhile_cong) auto
  show drop: "rev (dropWhile (\<lambda>e. snd e = h) (rev es)) = filter (\<lambda>e. snd e < h) es"
    unfolding eq by (rule drop_old_filter [OF assms(1)])
  have "es = rev (dropWhile (\<lambda>e. snd e = h) (rev es)) @ rev (takeWhile (\<lambda>e. snd e = h) (rev es))"
    by (metis rev_append rev_rev_ident takeWhile_dropWhile_id)
  then have parts: "es = filter (\<lambda>e. snd e < h) es @ rev (takeWhile (\<lambda>e. snd e = h) (rev es))"
    unfolding drop .
  have "filter (\<lambda>e. snd e = h) es = filter (\<lambda>e. snd e = h) (filter (\<lambda>e. snd e < h) es) @
      filter (\<lambda>e. snd e = h) (rev (takeWhile (\<lambda>e. snd e = h) (rev es)))"
    using arg_cong [OF parts, of "filter (\<lambda>e. snd e = h)"] by simp
  also have "\<dots> = rev (takeWhile (\<lambda>e. snd e = h) (rev es))"
  proof -
    have "filter (\<lambda>e. snd e = h) (filter (\<lambda>e. snd e < h) es) = []"
      by (auto simp: filter_empty_conv)
    moreover have "filter (\<lambda>e. snd e = h) (rev (takeWhile (\<lambda>e. snd e = h) (rev es))) =
        rev (takeWhile (\<lambda>e. snd e = h) (rev es))"
      by (rule filter_True) (auto dest: set_takeWhileD)
    ultimately show ?thesis by simp
  qed
  finally show "rev (takeWhile (\<lambda>e. snd e = h) (rev es)) = filter (\<lambda>e. snd e = h) es" ..
qed

lemma split_group_right:
  assumes "sorted_wrt entry_less es" and "\<forall>e \<in> set es. h \<le> snd e"
  shows "takeWhile (\<lambda>e. snd e = h) es = filter (\<lambda>e. snd e = h) es"
    and "dropWhile (\<lambda>e. snd e = h) es = filter (\<lambda>e. h < snd e) es"
  using assms
proof (induction es)
  case (Cons e es)
  { case 1
    have "filter (\<lambda>f. snd f = h) es = []" if "snd e \<noteq> h"
      using 1 that by (auto simp: filter_empty_conv entry_less_def)
    then show ?case using 1 Cons by simp
  next
    case 2
    have "filter (\<lambda>f. h < snd f) es = es" if "snd e \<noteq> h"
      using 2 that by (intro filter_True) (auto simp: entry_less_def)
    then show ?case using 2 Cons by (auto simp: le_neq_implies_less)
  }
qed simp_all

section \<open>The merge of the accessed group\<close>

lemma may_bubble_must:
  "\<forall>e \<in> set r. a \<le> snd e \<Longrightarrow> may_bubble a a t r = must_bubble a t r"
  by (induction r) auto

definition regroup :: "way \<Rightarrow> (tag \<times> way) list \<Rightarrow> (tag \<times> way) list" where
  "regroup a es = map (\<lambda>e. (fst e, a)) es"

lemma may_merge_spec:
  assumes "h < 255" and "distinct (keys (same @ right))" and "sorted_wrt entry_less right"
    and "\<forall>e \<in> set right. Suc h \<le> snd e"
  shows "mset (may_merge h same right) = mset (regroup (Suc h) same @ right) \<and>
    sorted_wrt entry_less (may_merge h same right)"
  using assms
proof (induction same)
  case Nil
  then show ?case by (simp add: may_merge_def regroup_def)
next
  case (Cons e same)
  let ?r = "may_merge h same right"
  have IH: "mset ?r = mset (regroup (Suc h) same @ right)" "sorted_wrt entry_less ?r"
    using Cons by simp_all
  have set_r: "set ?r = set (regroup (Suc h) same @ right)"
    using IH(1) by (rule mset_eq_setD)
  have ge: "\<forall>f \<in> set ?r. Suc h \<le> snd f"
    unfolding set_r using Cons.prems(4) by (auto simp: regroup_def)
  have "fst ` set (regroup (Suc h) same) = fst ` set same" by (simp add: regroup_def image_image)
  then have new: "fst e \<notin> set (keys ?r)"
    unfolding set_map set_r using Cons.prems(2) by (simp add: image_Un)
  have step: "may_merge h (e # same) right = must_bubble (Suc h) (fst e) ?r"
    using Cons.prems(1) may_bubble_must [OF ge] by (simp add: may_merge_def)
  show ?case
    unfolding step using sorted_must_bubble [OF IH(2) new ge] IH(1)
    by (simp add: mset_must_bubble regroup_def)
qed

definition bump :: "way \<Rightarrow> tag \<times> way \<Rightarrow> tag \<times> way" where
  "bump h e = (fst e, if snd e \<le> h then Suc (snd e) else snd e)"

lemma keys_bump [simp]: "keys (map (bump h) es) = keys es"
  by (simp add: bump_def)

lemma age_all_bump:
  "\<forall>e \<in> set es. snd e \<le> h \<and> snd e < 255 \<Longrightarrow> age_all es = map (bump h) es"
  by (induction es) (auto simp: age_all_def bump_def)

lemma partition_mset:
  "mset (filter P es) + mset (filter (\<lambda>e. \<not> P e) es) = mset es"
  by (induction es) auto

lemma may_found_spec:
  assumes wf: "sorted_wrt entry_less (pre @ (t, h) # post)" "distinct (keys (pre @ (t, h) # post))"
    and h: "h < 255"
  shows "mset (may_found t h pre post) = mset ((t, 0) # map (bump h) (pre @ post)) \<and>
    sorted_wrt entry_less (may_found t h pre post)"
proof -
  have sorted: "sorted_wrt entry_less pre" "sorted_wrt entry_less post"
    and le: "\<forall>e \<in> set pre. snd e \<le> h" and ge: "\<forall>e \<in> set post. h \<le> snd e"
    using wf(1) by (auto simp: sorted_wrt_append entry_less_def)
  let ?left = "filter (\<lambda>e. snd e < h) pre"
  let ?same = "filter (\<lambda>e. snd e = h) pre @ filter (\<lambda>e. snd e = h) post"
  let ?right = "filter (\<lambda>e. h < snd e) post"
  have found: "may_found t h pre post = (t, 0) # age_all ?left @ may_merge h ?same ?right"
    unfolding may_found_def Let_def split_group [OF sorted(1) le] split_group_right [OF sorted(2) ge] ..
  have d: "distinct (keys pre)" "distinct (keys post)" "set (keys pre) \<inter> set (keys post) = {}"
    using wf(2) by auto
  have "(u, b) \<notin> set post" if "(u, a) \<in> set post" "a < b" for u a b
    using that d(2) eq_key_imp_eq_value by (metis less_irrefl)
  then have "distinct (keys (?same @ ?right))"
    using d by (auto simp: distinct_map_filter)
  moreover have "sorted_wrt entry_less ?right" using sorted(2) by (rule sorted_wrt_filter)
  moreover have "\<forall>e \<in> set ?right. Suc h \<le> snd e" by auto
  ultimately have merge: "mset (may_merge h ?same ?right) = mset (regroup (Suc h) ?same @ ?right)"
    "sorted_wrt entry_less (may_merge h ?same ?right)"
    using may_merge_spec [OF h] by blast+
  have left: "age_all ?left = map (bump h) ?left" using h by (intro age_all_bump) auto
  have same: "regroup (Suc h) ?same = map (bump h) ?same"
    by (auto simp: regroup_def bump_def)
  have right: "?right = map (bump h) ?right"
    by (rule sym, rule map_idI) (auto simp: bump_def prod_eq_iff)
  have "mset (map (bump h) ?left @ map (bump h) ?same @ map (bump h) ?right) =
      image_mset (bump h) ((mset ?left + mset (filter (\<lambda>e. snd e = h) pre)) +
        (mset (filter (\<lambda>e. snd e = h) post) + mset ?right))"
    by (simp add: ac_simps)
  also have "mset ?left + mset (filter (\<lambda>e. snd e = h) pre) = mset pre"
  proof -
    have "filter (\<lambda>e. \<not> snd e < h) pre = filter (\<lambda>e. snd e = h) pre" using le by (intro filter_cong) auto
    then show ?thesis using partition_mset [of "\<lambda>e. snd e < h" pre] by simp
  qed
  also have "mset (filter (\<lambda>e. snd e = h) post) + mset ?right = mset post"
  proof -
    have "filter (\<lambda>e. \<not> snd e = h) post = ?right" using ge by (intro filter_cong) auto
    then show ?thesis using partition_mset [of "\<lambda>e. snd e = h" post] by simp
  qed
  finally have mset: "mset (map (bump h) ?left @ map (bump h) ?same @ map (bump h) ?right) =
      mset (map (bump h) (pre @ post))" by simp
  have "mset (may_found t h pre post) =
      add_mset (t, 0) (mset (map (bump h) ?left @ map (bump h) ?same @ ?right))"
    unfolding found left using merge(1) same by simp
  then have "mset (may_found t h pre post) = mset ((t, 0) # map (bump h) (pre @ post))"
    using mset right by simp
  moreover have "sorted_wrt entry_less (map (bump h) ?left)"
    using sorted_wrt_filter [OF sorted(1)] unfolding sorted_wrt_map
    by (rule sorted_wrt_mono_rel [rotated]) (auto simp: bump_def entry_less_def)
  moreover have "entry_less e f" if "e \<in> set (map (bump h) ?left)" "f \<in> set (may_merge h ?same ?right)" for e f
  proof -
    have "snd e \<le> h" using that(1) by (auto simp: bump_def)
    moreover have "Suc h \<le> snd f"
      using that(2) unfolding mset_eq_setD [OF merge(1)] by (auto simp: regroup_def)
    ultimately show ?thesis by (simp add: entry_less_def)
  qed
  moreover have "0 < snd e" if "e \<in> set (map (bump h) ?left @ may_merge h ?same ?right)" for e
    using that unfolding set_append mset_eq_setD [OF merge(1)] by (auto simp: regroup_def bump_def)
  ultimately show ?thesis
    unfolding found left using merge(2) by (auto simp: sorted_wrt_append entry_less_def)
qed

section \<open>The update refines the update of minimal ages\<close>

lemma removeRedundant_spec:
  assumes "sorted_wrt entry_less E" and "distinct (keys E)" and "imp \<le> A"
  shows "may_wf A (removeRedundantTags \<lparr>explicitTags = E, ageOfImplicitTags = imp\<rparr>)"
    and "ageOfImplicitTags (removeRedundantTags \<lparr>explicitTags = E, ageOfImplicitTags = imp\<rparr>) = imp"
    and "getMinAge (removeRedundantTags \<lparr>explicitTags = E, ageOfImplicitTags = imp\<rparr>) u =
      (case map_of E u of None \<Rightarrow> imp | Some a \<Rightarrow> min a imp)"
proof -
  have eq: "removeRedundantTags \<lparr>explicitTags = E, ageOfImplicitTags = imp\<rparr> =
      \<lparr>explicitTags = filter (\<lambda>e. snd e < imp) E, ageOfImplicitTags = imp\<rparr>"
    by (simp add: removeRedundantTags_def drop_old_filter [OF assms(1)])
  show "may_wf A (removeRedundantTags \<lparr>explicitTags = E, ageOfImplicitTags = imp\<rparr>)"
    unfolding eq may_wf_def using assms by (simp add: sorted_wrt_filter distinct_map_filter)
  show "ageOfImplicitTags (removeRedundantTags \<lparr>explicitTags = E, ageOfImplicitTags = imp\<rparr>) = imp"
    by (simp add: eq)
  have "map_of (filter (\<lambda>e. snd e < imp) E) u =
      (case map_of E u of None \<Rightarrow> None | Some a \<Rightarrow> if a < imp then Some a else None)"
    using assms(2) by (induction E) (auto split: option.splits simp: map_of_eq_None_iff image_iff)
  then show "getMinAge (removeRedundantTags \<lparr>explicitTags = E, ageOfImplicitTags = imp\<rparr>) u =
      (case map_of E u of None \<Rightarrow> imp | Some a \<Rightarrow> min a imp)"
    unfolding eq by (simp add: getMinAge_def min_def split: option.splits)
qed

lemma may_kept_filter:
  assumes "sorted_wrt entry_less es" and "\<forall>e \<in> set es. snd e < A"
  shows "may_kept A es = filter (\<lambda>e. snd e < A - 1) es"
    and "es = may_kept A es @ filter (\<lambda>e. snd e = A - 1) es"
proof -
  have le: "\<forall>e \<in> set es. snd e \<le> A - 1" using assms(2) by fastforce
  show "may_kept A es = filter (\<lambda>e. snd e < A - 1) es"
    unfolding may_kept_def by (rule split_group(1) [OF assms(1) le])
  have "es = rev (dropWhile (\<lambda>e. snd e = A - 1) (rev es)) @ rev (takeWhile (\<lambda>e. snd e = A - 1) (rev es))"
    by (metis rev_append rev_rev_ident takeWhile_dropWhile_id)
  then show "es = may_kept A es @ filter (\<lambda>e. snd e = A - 1) es"
    unfolding may_kept_def split_group(2) [OF assms(1) le] .
qed

lemma index_takeWhile:
  assumes "distinct (keys es)" and "i < length es"
  shows "i = length (takeWhile (\<lambda>e. fst e \<noteq> t) es) \<longleftrightarrow> fst (es ! i) = t"
proof
  assume "i = length (takeWhile (\<lambda>e. fst e \<noteq> t) es)"
  then show "fst (es ! i) = t" using assms(2) nth_length_takeWhile by blast
next
  assume t: "fst (es ! i) = t"
  let ?p = "length (takeWhile (\<lambda>e. fst e \<noteq> t) es)"
  have "\<not> i < ?p"
  proof
    assume i: "i < ?p"
    then have "es ! i \<in> set (takeWhile (\<lambda>e. fst e \<noteq> t) es)"
      using nth_mem [OF i] by (simp add: takeWhile_nth)
    then show False using t by (auto dest: set_takeWhileD)
  qed
  then have "?p < length es" "fst (es ! ?p) = t"
    using assms(2) nth_length_takeWhile [of "\<lambda>e. fst e \<noteq> t" es] by auto
  then have "keys es ! ?p = keys es ! i" using t assms(2) by simp
  then show "i = ?p"
    using nth_eq_iff_index_eq [OF assms(1), of ?p i] \<open>?p < length es\<close> assms(2) by simp
qed

lemma may_dropped:
  assumes "sorted_wrt entry_less es" and "distinct (keys es)" and "\<forall>e \<in> set es. snd e < A"
  shows "set (map (\<lambda>i. fst (es ! i)) (filter (\<lambda>i. i \<noteq> length (takeWhile (\<lambda>e. fst e \<noteq> t) es))
      [length (may_kept A es)..<length es])) = {u. u \<noteq> t \<and> map_of es u = Some (A - 1)}"
proof -
  let ?k = "length (may_kept A es)"
  let ?D = "filter (\<lambda>e. snd e = A - 1) es"
  have drop: "drop ?k es = ?D" using may_kept_filter(2) [OF assms(1,3)] by (metis append_eq_conv_conj)
  have tail: "e \<in> set ?D \<longleftrightarrow> (\<exists>i. ?k \<le> i \<and> i < length es \<and> e = es ! i)" for e
  proof -
    have "e \<in> set ?D \<longleftrightarrow> (\<exists>j < length es - ?k. e = es ! (?k + j))"
      unfolding drop [symmetric] in_set_conv_nth by auto
    also have "\<dots> \<longleftrightarrow> (\<exists>i. ?k \<le> i \<and> i < length es \<and> e = es ! i)"
    proof
      assume "\<exists>j < length es - ?k. e = es ! (?k + j)"
      then obtain j where "j < length es - ?k" "e = es ! (?k + j)" by blast
      then show "\<exists>i. ?k \<le> i \<and> i < length es \<and> e = es ! i" by (intro exI [of _ "?k + j"]) simp
    next
      assume "\<exists>i. ?k \<le> i \<and> i < length es \<and> e = es ! i"
      then obtain i where "?k \<le> i" "i < length es" "e = es ! i" by blast
      then show "\<exists>j < length es - ?k. e = es ! (?k + j)" by (intro exI [of _ "i - ?k"]) simp
    qed
    finally show ?thesis .
  qed
  have "u \<in> set (map (\<lambda>i. fst (es ! i)) (filter (\<lambda>i. i \<noteq> length (takeWhile (\<lambda>e. fst e \<noteq> t) es))
      [?k..<length es])) \<longleftrightarrow> u \<noteq> t \<and> (\<exists>e \<in> set ?D. fst e = u)" for u
  proof -
    have "(\<exists>e \<in> set ?D. fst e = u) \<longleftrightarrow> (\<exists>i. ?k \<le> i \<and> i < length es \<and> fst (es ! i) = u)"
      unfolding Bex_def tail by (safe; metis fst_conv)
    moreover have "u \<in> set (map (\<lambda>i. fst (es ! i)) (filter (\<lambda>i. i \<noteq> length (takeWhile (\<lambda>e. fst e \<noteq> t) es))
        [?k..<length es])) \<longleftrightarrow> (\<exists>i. ?k \<le> i \<and> i < length es \<and> fst (es ! i) = u \<and>
          i \<noteq> length (takeWhile (\<lambda>e. fst e \<noteq> t) es))"
      by auto
    moreover have "i < length es \<Longrightarrow> fst (es ! i) = u \<Longrightarrow>
        i \<noteq> length (takeWhile (\<lambda>e. fst e \<noteq> t) es) \<longleftrightarrow> u \<noteq> t" for i
      using index_takeWhile [OF assms(2), of i t] by simp
    ultimately show ?thesis by blast
  qed
  moreover have "(\<exists>e \<in> set ?D. fst e = u) \<longleftrightarrow> map_of es u = Some (A - 1)" for u
    unfolding map_of_Some_iff [OF assms(2)] by auto
  ultimately show ?thesis by auto
qed

lemma map_of_bump:
  "map_of (map (bump h) es) u = map_option (\<lambda>a. if a \<le> h then Suc a else a) (map_of es u)"
proof -
  have "bump h = (\<lambda>(t, a). (t, if a \<le> h then Suc a else a))" by (auto simp: bump_def)
  then show ?thesis by (simp add: map_of_map)
qed

text \<open>The entries before redundant ones are removed, in branch a1.\<close>

lemma may_front_spec:
  assumes wf: "sorted_wrt entry_less es" "distinct (keys es)" "\<forall>e \<in> set es. snd e < A"
    and A: "0 < A" "A \<le> 255" and t: "map_of es t = None \<or> map_of es t = Some (A - 1)"
  shows "sorted_wrt entry_less ((t, 0) # age_all (may_kept A es))"
    and "distinct (keys ((t, 0) # age_all (may_kept A es)))"
    and "map_of ((t, 0) # age_all (may_kept A es)) u =
      (if u = t then Some 0
       else case map_of es u of Some a \<Rightarrow> if Suc a < A then Some (Suc a) else None | None \<Rightarrow> None)"
proof -
  let ?K = "filter (\<lambda>e. snd e < A - 1) es"
  have kept: "may_kept A es = ?K" by (rule may_kept_filter(1) [OF wf(1,3)])
  have aged: "age_all ?K = map (bump (A - 1)) ?K" using A by (intro age_all_bump) auto
  have K: "map_of ?K u = (case map_of es u of None \<Rightarrow> None | Some a \<Rightarrow> if a < A - 1 then Some a else None)" for u
    using wf(2) by (induction es) (auto split: option.splits simp: map_of_eq_None_iff image_iff)
  have "sorted_wrt entry_less (map (bump (A - 1)) ?K)"
    using sorted_wrt_filter [OF wf(1)] unfolding sorted_wrt_map
    by (rule sorted_wrt_mono_rel [rotated]) (auto simp: bump_def entry_less_def)
  moreover have "0 < snd e" if "e \<in> set (map (bump (A - 1)) ?K)" for e
    using that by (auto simp: bump_def)
  ultimately show "sorted_wrt entry_less ((t, 0) # age_all (may_kept A es))"
    unfolding kept aged by (auto simp: entry_less_def)
  have "map_of ?K t = None" using t K [of t] by auto
  then have "t \<notin> set (keys ?K)" by (simp add: map_of_eq_None_iff)
  moreover have "distinct (keys ?K)" using wf(2) by (rule distinct_map_filter)
  ultimately show "distinct (keys ((t, 0) # age_all (may_kept A es)))"
    unfolding kept aged by (simp only: list.map fst_conv keys_bump distinct.simps simp_thms)
  show "map_of ((t, 0) # age_all (may_kept A es)) u =
      (if u = t then Some 0
       else case map_of es u of Some a \<Rightarrow> if Suc a < A then Some (Suc a) else None | None \<Rightarrow> None)"
    unfolding kept aged using K by (auto simp: map_of_bump split: option.splits)
qed

text \<open>What every branch computes before redundant tags are removed.\<close>

definition raw_ok :: "nat \<Rightarrow> tag \<Rightarrow> may_state \<Rightarrow> (tag \<times> way) list \<Rightarrow> bool" where
  "raw_ok A t m E \<longleftrightarrow> sorted_wrt entry_less E \<and> distinct (keys E) \<and>
     (\<forall>u. map_of E u = (if u = t then Some 0 else case map_of (explicitTags m) u of None \<Rightarrow> None
        | Some a \<Rightarrow> let a' = (if a \<le> getMinAge m t then Suc a else a) in
            if a' < A then Some a' else None))"

lemma may_wf_age_less: "may_wf A m \<Longrightarrow> map_of (explicitTags m) u = Some a \<Longrightarrow> a < ageOfImplicitTags m \<and> a < A"
  using may_wfD(3,4) map_of_SomeD by fastforce

lemma raw_front:
  assumes "may_wf A m" and "0 < A" "A \<le> 255"
    and t: "map_of (explicitTags m) t = None \<or> map_of (explicitTags m) t = Some (A - 1)"
  shows "raw_ok A t m ((t, 0) # age_all (may_kept A (explicitTags m)))"
proof -
  note es = may_wfD [OF assms(1)]
  have lt: "\<forall>e \<in> set (explicitTags m). snd e < A" using es(3,4) by fastforce
  note front = may_front_spec [OF es(2,1) lt assms(2-4)]
  have "a \<le> getMinAge m t" if "map_of (explicitTags m) u = Some a" for u a
    using may_wf_age_less [OF assms(1) that] t by (auto simp: getMinAge_def)
  then show ?thesis
    unfolding raw_ok_def using front(1,2) front(3)
    by (auto simp: Let_def simp del: map_of.simps split: option.splits)
qed

lemma raw_found:
  assumes wf: "may_wf A m" and A: "0 < A" "A \<le> 255"
    and split: "explicitTags m = pre @ (t, h) # post" and h: "h \<noteq> A - 1"
  shows "raw_ok A t m (may_found t h pre post)"
proof -
  let ?E = "may_found t h pre post"
  note es = may_wfD [OF wf]
  have mt: "map_of (explicitTags m) t = Some h"
    by (rule map_of_Some_iff [OF es(1), THEN iffD2]) (simp add: split)
  then have age: "getMinAge m t = h" by (simp add: getMinAge_def)
  have "h < 255" using may_wf_age_less [OF wf mt] A by simp
  then have mset: "mset ?E = mset ((t, 0) # map (bump h) (pre @ post))" and sorted: "sorted_wrt entry_less ?E"
    using may_found_spec es(1,2) unfolding split by blast+
  have "distinct (t # keys (pre @ post))" using es(1) unfolding split by auto
  then have "distinct (keys ((t, 0) # map (bump h) (pre @ post)))"
    by (simp only: list.map fst_conv keys_bump)
  moreover have "mset (keys ?E) = mset (keys ((t, 0) # map (bump h) (pre @ post)))"
    using mset by (simp only: mset_map)
  ultimately have dE: "distinct (keys ?E)" using mset_eq_imp_distinct_iff by blast
  have "map_of ?E u = (case map_of (explicitTags m) u of None \<Rightarrow> None
      | Some a \<Rightarrow> let a' = (if a \<le> h then Suc a else a) in if a' < A then Some a' else None)"
    if u: "u \<noteq> t" for u
  proof -
    have E: "map_of ?E u = map_option (\<lambda>a. if a \<le> h then Suc a else a) (map_of (pre @ post) u)"
      using map_of_mset_cong [OF mset dE] map_of_bump [of h "pre @ post" u] u by simp
    have old: "map_of (explicitTags m) u = map_of (pre @ post) u"
      unfolding split using u by (simp add: map_add_def split: option.splits)
    show ?thesis
    proof (cases "map_of (explicitTags m) u")
      case None
      then show ?thesis unfolding E old [symmetric] by simp
    next
      case (Some a)
      then have "a < A" using may_wf_age_less [OF wf] by blast
      then have "(if a \<le> h then Suc a else a) < A" using h may_wf_age_less [OF wf mt] by auto
      then show ?thesis unfolding E old [symmetric] Some by (simp add: Let_def)
    qed
  qed
  moreover have "map_of ?E t = Some 0" using map_of_mset_cong [OF mset dE] by simp
  ultimately show ?thesis unfolding raw_ok_def age using sorted dE by simp
qed

definition may_new_imp :: "nat \<Rightarrow> tag \<Rightarrow> may_state \<Rightarrow> way" where
  "may_new_imp A t m =
     (if ageOfImplicitTags m \<le> getMinAge m t \<and> ageOfImplicitTags m < A
      then Suc (ageOfImplicitTags m) else ageOfImplicitTags m)"

lemma may_update_raw:
  assumes wf: "may_wf A m" and A: "0 < A" "A \<le> 255"
    and upd: "may_update_entries A t m = (m', ev, justEvicted)"
  obtains E where "raw_ok A t m E"
    and "m' = removeRedundantTags \<lparr>explicitTags = E, ageOfImplicitTags = may_new_imp A t m\<rparr>"
    and "ev = (if may_new_imp A t m = A \<and>
        (map_of (explicitTags m) t = None \<or> map_of (explicitTags m) t = Some (A - 1))
      then {u. u \<noteq> t \<and> map_of (explicitTags m) u = Some (A - 1)} else {})"
    and "justEvicted \<longleftrightarrow> ageOfImplicitTags m \<le> getMinAge m t \<and> ageOfImplicitTags m < A \<and>
      may_new_imp A t m = A"
proof -
  let ?es = "explicitTags m" and ?i = "ageOfImplicitTags m"
  note es = may_wfD [OF wf]
  have lt: "\<forall>e \<in> set ?es. snd e < A" using es(3,4) by fastforce
  have imp: "(if ?i \<le> getMinAge m t \<and> ?i < A then way_inc ?i else ?i) = may_new_imp A t m"
    using A by (simp add: may_new_imp_def)
  note dropped = may_dropped [OF es(2,1) lt, of t]
  show thesis
  proof (cases "t \<in> set (keys ?es)")
    case False
    then have none: "map_of ?es t = None" by (simp add: map_of_eq_None_iff)
    then have age: "getMinAge m t = ?i" by (simp add: getMinAge_def)
    have rest: "dropWhile (\<lambda>e. fst e \<noteq> t) ?es = []" using False by (auto simp: dropWhile_eq_Nil_conv)
    show thesis
      by (rule that [OF raw_front [OF wf A disjI1 [OF none]]])
        (use upd imp dropped in \<open>simp_all add: may_update_entries_def Let_def rest age none split: if_splits\<close>)
  next
    case True
    obtain h post where rest: "dropWhile (\<lambda>e. fst e \<noteq> t) ?es = (t, h) # post"
      and split: "?es = takeWhile (\<lambda>e. fst e \<noteq> t) ?es @ (t, h) # post"
      using takeWhile_dropWhile_key [OF True] by metis
    have h: "map_of ?es t = Some h"
      unfolding map_of_Some_iff [OF es(1)] by (subst split) simp
    then have age: "getMinAge m t = h" by (simp add: getMinAge_def)
    show thesis
    proof (cases "h = A - 1")
      case True
      with h have "map_of ?es t = Some (A - 1)" by simp
      from raw_front [OF wf A disjI2 [OF this]] show thesis
        by (rule that) (use upd imp dropped True in
          \<open>simp_all add: may_update_entries_def Let_def rest age h split: if_splits\<close>)
    next
      case False
      from raw_found [OF wf A split False] show thesis
        by (rule that) (use upd imp False in
          \<open>simp_all add: may_update_entries_def Let_def rest age h split: if_splits\<close>)
    qed
  qed
qed

lemma may_update_entries_refines:
  assumes wf: "may_wf A m" and A: "0 < A" "A \<le> 255"
    and upd: "may_update_entries A t m = (m', ev, justEvicted)"
  shows "may_wf A m'" and "ageOfImplicitTags m' = may_new_imp A t m"
    and "getMinAge m' = may_spec_update A t (getMinAge m)"
    and "ev = {u. getMinAge m u < ageOfImplicitTags m \<and> getMinAge m' u = A}"
    and "justEvicted \<longleftrightarrow> ageOfImplicitTags m < A \<and> ageOfImplicitTags m' = A"
proof -
  let ?i = "ageOfImplicitTags m" and ?j = "may_new_imp A t m"
  note es = may_wfD [OF wf]
  obtain E where raw: "raw_ok A t m E"
    and m': "m' = removeRedundantTags \<lparr>explicitTags = E, ageOfImplicitTags = ?j\<rparr>"
    and ev: "ev = (if ?j = A \<and> (map_of (explicitTags m) t = None \<or> map_of (explicitTags m) t = Some (A - 1))
      then {u. u \<noteq> t \<and> map_of (explicitTags m) u = Some (A - 1)} else {})"
    and just: "justEvicted \<longleftrightarrow> ?i \<le> getMinAge m t \<and> ?i < A \<and> ?j = A"
    using may_update_raw [OF wf A upd] .
  have j: "?j \<le> A" using es(4) by (simp add: may_new_imp_def)
  have sorted: "sorted_wrt entry_less E" "distinct (keys E)"
    using raw unfolding raw_ok_def by blast+
  show "may_wf A m'" unfolding m' by (rule removeRedundant_spec(1) [OF sorted j])
  show jm: "ageOfImplicitTags m' = ?j" unfolding m' by (rule removeRedundant_spec(2) [OF sorted j])
  show age': "getMinAge m' = may_spec_update A t (getMinAge m)"
  proof
    fix u
    have E: "getMinAge m' u = (case map_of E u of None \<Rightarrow> ?j | Some a \<Rightarrow> min a ?j)"
      unfolding m' by (rule removeRedundant_spec(3) [OF sorted j])
    have t_le: "getMinAge m t \<le> ?i" "getMinAge m u \<le> ?i" using wf by (rule getMinAge_le)+
    show "getMinAge m' u = may_spec_update A t (getMinAge m) u"
    proof (cases "map_of (explicitTags m) u")
      case None
      then have u: "getMinAge m u = ?i" by (simp add: getMinAge_def)
      show ?thesis using E raw None u es(4) t_le
        by (auto simp: raw_ok_def may_spec_update_def may_new_imp_def)
    next
      case (Some a)
      then have u: "getMinAge m u = a" by (simp add: getMinAge_def)
      have "a < ?i" using may_wf_age_less [OF wf Some] by blast
      then show ?thesis using E raw Some u es(4) t_le
        by (auto simp: raw_ok_def may_spec_update_def may_new_imp_def Let_def)
    qed
  qed
  show "justEvicted \<longleftrightarrow> ageOfImplicitTags m < A \<and> ageOfImplicitTags m' = A"
    unfolding just jm by (auto simp: may_new_imp_def)
  show "ev = {u. getMinAge m u < ageOfImplicitTags m \<and> getMinAge m' u = A}"
  proof -
    have "u \<in> ev \<longleftrightarrow> getMinAge m u < ?i \<and> getMinAge m' u = A" for u
    proof -
      have Some_iff: "map_of (explicitTags m) w = Some b \<longleftrightarrow> getMinAge m w = b \<and> b < ?i" for w b
        using getMinAge_explicit [OF wf, of w] by auto
      have None_iff: "map_of (explicitTags m) w = None \<longleftrightarrow> \<not> getMinAge m w < ?i" for w
        using getMinAge_explicit [OF wf, of w] by simp
      have "getMinAge m t \<le> ?i" "getMinAge m u \<le> ?i" using wf by (rule getMinAge_le)+
      then show ?thesis
        unfolding ev age' Some_iff None_iff may_spec_update_def may_new_imp_def
        using A es(4) by (cases "u = t"; cases "?i = A") (simp; linarith)+
    qed
    then show ?thesis by blast
  qed
qed

end
