(* ===== verification/TA_May_Sound.thy ===== *)
theory TA_May_Sound
  imports TA_May_Correct
begin

text \<open>
  Soundness of the may analysis for an LRU set under accesses, potential accesses, joins and
  classification, its join semilattice, and its queries.
\<close>

section \<open>Accesses\<close>

lemma may_init_wf: "may_wf A (may_init A b)"
  by (simp add: may_wf_def may_init_def)

lemma may_init_gamma [gamma_intros]: "lru_wf A q \<Longrightarrow> (b \<Longrightarrow> q = []) \<Longrightarrow> q \<in> may_gamma A (may_init A b)"
  by (cases b) (auto simp: may_gamma_def may_init_def getMinAge_def)

lemma may_update_gamma:
  assumes "may_wf A m" and "0 < A" "A \<le> 255" and "q \<in> may_gamma A m"
    and "may_update_entries A t m = (m', ev, j)"
  shows "lru_access A t q \<in> may_gamma A m'"
proof -
  have q: "lru_wf A q" and old: "\<And>u. u \<in> set q \<Longrightarrow> getMinAge m u \<le> lru_age q u"
    using assms(4) by (auto simp: may_gamma_def)
  have "getMinAge m' u \<le> lru_age (lru_access A t q) u" if u: "u \<in> set (lru_access A t q)" for u
  proof (cases "u = t")
    case True
    then show ?thesis
      unfolding may_update_entries_refines(3) [OF assms(1-3,5)] by (simp add: may_spec_update_def)
  next
    case False
    then have uq: "u \<in> set q" and age: "lru_age (lru_access A t q) u = lru_next_age q t u"
      using lru_access_other [OF q False] u by blast+
    have "getMinAge m u < lru_next_age q t u" if "getMinAge m u \<le> getMinAge m t"
      using old [OF uq] old [of t] that by (auto simp: lru_next_age_def)
    then show ?thesis
      unfolding may_update_entries_refines(3) [OF assms(1-3,5)] age
      using False old [OF uq] lru_next_age_ge [of q u t] by (auto simp: may_spec_update_def)
  qed
  then show ?thesis using lru_access_wf [OF q] by (auto simp: may_gamma_def)
qed

section \<open>Potential accesses\<close>

lemma tag_range_set: "set (tag_range l h) = {t. l \<le> t \<and> t \<le> h}"
proof
  show "set (tag_range l h) \<subseteq> {t. l \<le> t \<and> t \<le> h}"
  proof
    fix t assume "t \<in> set (tag_range l h)"
    then obtain n where n: "unat l \<le> n" "n \<le> unat h" "t = word_of_nat n"
      by (auto simp: tag_range_def)
    have "unat h < 2 ^ LENGTH(32)" by (rule unsigned_less)
    then have "unat t = n" using n(2,3) by (simp add: unat_of_nat take_bit_nat_eq_self)
    then show "t \<in> {t. l \<le> t \<and> t \<le> h}" using n by (simp add: word_le_nat_alt)
  qed
next
  show "{t. l \<le> t \<and> t \<le> h} \<subseteq> set (tag_range l h)"
  proof
    fix t assume "t \<in> {t. l \<le> t \<and> t \<le> h}"
    then have "unat t \<in> set [unat l..<Suc (unat h)]" by (auto simp: word_le_nat_alt)
    then have "word_of_nat (unat t) \<in> set (tag_range l h)" unfolding tag_range_def set_map by blast
    then show "t \<in> set (tag_range l h)" by simp
  qed
qed

lemma tag_range_sorted: "sorted_wrt (<) (tag_range l h)"
proof -
  have lt: "n < m \<Longrightarrow> m \<le> unat h \<Longrightarrow> (word_of_nat n :: tag) < word_of_nat m" for n m
  proof -
    assume "n < m" "m \<le> unat h"
    moreover have "unat h < 2 ^ LENGTH(32)" by (rule unsigned_less)
    ultimately show ?thesis
      by (simp add: word_less_nat_alt unat_of_nat take_bit_nat_eq_self)
  qed
  have "sorted_wrt (\<lambda>n m. n < m \<and> m \<le> unat h) [unat l..<Suc (unat h)]"
  proof (rule sorted_wrt_mono_rel)
    show "sorted_wrt (<) [unat l..<Suc (unat h)]" by (rule sorted_wrt_upt)
  qed auto
  then show ?thesis
    unfolding tag_range_def sorted_wrt_map by (rule sorted_wrt_mono_rel [rotated]) (auto intro: lt)
qed

abbreviation in_range :: "tag \<Rightarrow> tag \<Rightarrow> tag \<Rightarrow> bool" where
  "in_range low high t \<equiv> low \<le> t \<and> t \<le> high"

lemma insert_range_done:
  "may_insert_range low high True es = filter (\<lambda>e. \<not> in_range low high (fst e)) es"
  by (induction es) (auto simp: Let_def not_le)

lemma insert_range_now:
  "a > 0 \<or> u \<ge> low \<Longrightarrow> may_insert_range low high False ((u, a) # es) =
     map (\<lambda>t. (t, 0)) (tag_range low high) @ filter (\<lambda>e. \<not> in_range low high (fst e)) ((u, a) # es)"
  by (auto simp: Let_def insert_range_done not_le)

lemma insert_range_later:
  "\<not> (a > 0 \<or> u \<ge> low) \<Longrightarrow>
     may_insert_range low high False ((u, a) # es) = (u, a) # may_insert_range low high False es"
  by (simp add: Let_def) (meson not_le)

lemma insert_range_set:
  "set (may_insert_range low high False es) =
    (\<lambda>t. (t, 0)) ` {t. in_range low high t} \<union> {e \<in> set es. \<not> in_range low high (fst e)}"
proof (induction es)
  case Nil
  then show ?case by (auto simp: tag_range_set)
next
  case (Cons e es)
  obtain u a where e: "e = (u, a)" by (cases e)
  show ?case
  proof (cases "a > 0 \<or> u \<ge> low")
    case True
    show ?thesis unfolding e insert_range_now [OF True] by (auto simp: tag_range_set)
  next
    case False
    show ?thesis unfolding e insert_range_later [OF False] using Cons False by auto
  qed
qed

lemma insert_range_sorted:
  assumes "sorted_wrt entry_less es"
  shows "sorted_wrt entry_less (may_insert_range low high False es)"
  using assms
proof (induction es)
  case Nil
  have "sorted_wrt entry_less (map (\<lambda>t. (t, 0)) (tag_range low high))"
    unfolding sorted_wrt_map using tag_range_sorted
    by (rule sorted_wrt_mono_rel [rotated]) (simp add: entry_less_def)
  then show ?case by simp
next
  case (Cons e es)
  obtain u a where e: "e = (u, a)" by (cases e)
  have range: "sorted_wrt entry_less (map (\<lambda>t. (t, 0)) (tag_range low high))"
    unfolding sorted_wrt_map using tag_range_sorted
    by (rule sorted_wrt_mono_rel [rotated]) (simp add: entry_less_def)
  show ?case
  proof (cases "a > 0 \<or> u \<ge> low")
    case True
    have out: "may_insert_range low high False (e # es) =
        map (\<lambda>t. (t, 0)) (tag_range low high) @ filter (\<lambda>e. \<not> in_range low high (fst e)) (e # es)"
      unfolding e by (rule insert_range_now [OF True])
    have later: "entry_less (t, 0) f" if "in_range low high t" "f \<in> set (e # es)" "\<not> in_range low high (fst f)" for t f
    proof -
      have "snd f > 0 \<or> fst f \<ge> low"
        using that(2) True Cons.prems by (auto simp: e entry_less_def)
      then show ?thesis using that(1,3) by (auto simp: entry_less_def)
    qed
    have "sorted_wrt entry_less (filter (\<lambda>e. \<not> in_range low high (fst e)) (e # es))"
      using Cons.prems by (rule sorted_wrt_filter)
    then show ?thesis
      unfolding out sorted_wrt_append using range later by (auto simp: tag_range_set)
  next
    case False
    have out: "may_insert_range low high False (e # es) = e # may_insert_range low high False es"
      unfolding e by (rule insert_range_later [OF False])
    have "entry_less e f" if "f \<in> set (may_insert_range low high False es)" for f
      using that Cons.prems False by (auto simp: insert_range_set e entry_less_def)
    then show ?thesis unfolding out using Cons by simp
  qed
qed

lemma entries_distinct:
  assumes "sorted_wrt entry_less es" and "\<And>t a b. (t, a) \<in> set es \<Longrightarrow> (t, b) \<in> set es \<Longrightarrow> a = b"
  shows "distinct (keys es)"
  using assms
proof (induction es)
  case (Cons e es)
  have "fst e \<notin> set (keys es)"
  proof
    assume "fst e \<in> set (keys es)"
    then obtain f where f: "f \<in> set es" "fst f = fst e" by auto
    then have "snd f = snd e" using Cons.prems(2) [of "fst e" "snd f" "snd e"] by (cases e; cases f) auto
    then have "f = e" using f by (simp add: prod_eq_iff)
    then show False using f Cons.prems(1) by auto
  qed
  then show ?case using Cons by (auto intro: Cons.IH)
qed simp

lemma insert_range_wf:
  fixes low high :: tag
  assumes "may_wf A m" and "ageOfImplicitTags m \<noteq> 0"
  defines "m' \<equiv> m\<lparr>explicitTags := may_insert_range low high False (explicitTags m)\<rparr>"
  shows "may_wf A m'" and "getMinAge m' t = (if in_range low high t then 0 else getMinAge m t)"
proof -
  note es = may_wfD [OF assms(1)]
  let ?E = "may_insert_range low high False (explicitTags m)"
  have sorted: "sorted_wrt entry_less ?E" using es(2) by (rule insert_range_sorted)
  have distinct: "distinct (keys ?E)"
  proof (rule entries_distinct [OF sorted])
    fix t a b assume "(t, a) \<in> set ?E" "(t, b) \<in> set ?E"
    then show "a = b" using eq_key_imp_eq_value [OF es(1)] by (auto simp: insert_range_set)
  qed
  show "may_wf A m'"
    using assms(2) es(3,4) sorted distinct by (auto simp: m'_def may_wf_def insert_range_set)
  have iff: "map_of ?E t = Some a \<longleftrightarrow>
      (if in_range low high t then a = 0 else map_of (explicitTags m) t = Some a)" for a
    unfolding map_of_Some_iff [OF distinct] map_of_Some_iff [OF es(1)] insert_range_set by auto
  show "getMinAge m' t = (if in_range low high t then 0 else getMinAge m t)"
  proof (cases "in_range low high t")
    case True
    then show ?thesis using iff [of 0] by (simp add: m'_def getMinAge_def)
  next
    case False
    then have "map_of ?E t = map_of (explicitTags m) t" using iff by (metis option.exhaust)
    then show ?thesis using False by (auto simp: m'_def getMinAge_def split: option.splits)
  qed
qed

text \<open>All that a potential access may touch is in the interval; so any tag of it gets age 0.\<close>

lemma may_potential_spec:
  assumes "may_wf A m" and "getTag T (aa_upper E aa) \<noteq> - 1" and "0 < A"
  obtains m' intro where
    "may_potential_update T E m aa ls rep = Some (m', if rep then Some (MayReport {} False intro) else None)"
    and "may_wf A m'" and "\<And>t. getMinAge m' t \<le> getMinAge m t"
    and "\<And>t. in_range (getTag T (aa_lower E aa)) (getTag T (aa_upper E aa)) t \<Longrightarrow> getMinAge m' t = 0"
    and "intro \<longleftrightarrow> ageOfImplicitTags m \<noteq> 0 \<and> ageOfImplicitTags m' = 0"
proof (cases "ageOfImplicitTags m = 0")
  case True
  then have empty: "explicitTags m = []" using may_wfD(3) [OF assms(1)] by (cases "explicitTags m") auto
  show thesis
    by (rule that [of m False])
      (use True empty assms in \<open>simp_all add: may_potential_update_def getMinAge_def\<close>)
next
  case False
  show thesis
  proof (cases "getTag T (aa_upper E aa) - getTag T (aa_lower E aa) + 1 > maxWorthwhileTags")
    case True
    show thesis
      by (rule that [of "\<lparr>explicitTags = [], ageOfImplicitTags = 0\<rparr>" True])
        (use True False in \<open>simp_all add: may_potential_update_def getMinAge_def may_wf_def\<close>)
  next
    case small: False
    show thesis
      by (rule that [of "m\<lparr>explicitTags := may_insert_range (getTag T (aa_lower E aa))
          (getTag T (aa_upper E aa)) False (explicitTags m)\<rparr>" False])
        (use False small assms(2) insert_range_wf [OF assms(1) False] in
          \<open>simp_all add: may_potential_update_def\<close>)
  qed
qed

lemma may_gamma_mono:
  "q \<in> may_gamma A m \<Longrightarrow> (\<And>t. getMinAge m' t \<le> getMinAge m t) \<Longrightarrow> q \<in> may_gamma A m'"
  unfolding may_gamma_def using le_trans by blast

lemma may_potential_gamma:
  assumes "q \<in> may_gamma A m" and "\<And>t. getMinAge m' t \<le> getMinAge m t" and "getMinAge m' x = 0"
  shows "lru_access A x q \<in> may_gamma A m'"
proof -
  have q: "lru_wf A q" using assms(1) by (simp add: may_gamma_def)
  have "getMinAge m' u \<le> lru_age (lru_access A x q) u" if u: "u \<in> set (lru_access A x q)" for u
  proof (cases "u = x")
    case False
    then have "u \<in> set q" "lru_age (lru_access A x q) u = lru_next_age q x u"
      using lru_access_other [OF q False] u by blast+
    then show ?thesis
      using assms(1,2) lru_next_age_ge [of q u x] unfolding may_gamma_def by (fastforce intro: le_trans)
  qed (simp add: assms(3))
  then show ?thesis using lru_access_wf [OF q] by (auto simp: may_gamma_def)
qed

section \<open>Join\<close>

text \<open>
  The merge outputs, for every tag, the first of its entries: the invariant relates the rest of the
  two operands, what was consumed of them, and the output still to come.
\<close>

definition merge_inv ::
  "(tag \<times> way) list \<Rightarrow> (tag \<times> way) list \<Rightarrow> (tag \<times> way) list \<Rightarrow> (tag \<times> way) list \<Rightarrow> bool" where
  "merge_inv xs ys xd yd \<longleftrightarrow> sorted_wrt entry_less xs \<and> sorted_wrt entry_less ys \<and>
     distinct (keys xs @ keys xd) \<and> distinct (keys ys @ keys yd)"

lemma merge_set: "set (may_join_loop xs ys xd yd) \<subseteq> set xs \<union> set ys"
  by (induction xs ys xd yd rule: may_join_loop.induct) (auto simp: may_pick_def)

definition merge_spec ::
  "(tag \<times> way) list \<Rightarrow> (tag \<times> way) list \<Rightarrow> (tag \<times> way) list \<Rightarrow> (tag \<times> way) list \<Rightarrow> tag \<Rightarrow> way option" where
  "merge_spec xs ys xd yd t =
    (if t \<in> set (keys xd) \<union> set (keys yd) then None
     else case map_of xs t of
       None \<Rightarrow> map_of ys t
     | Some a \<Rightarrow> (case map_of ys t of None \<Rightarrow> Some a | Some b \<Rightarrow> Some (min a b)))"

lemma merge_spec_step:
  assumes "merge_inv (x # xs) ys xd yd" and "\<forall>e \<in> set ys. snd x \<le> snd e"
  shows "merge_spec (x # xs) ys xd yd t =
    (case map_of (may_pick x yd) t of Some a \<Rightarrow> Some a | None \<Rightarrow> merge_spec xs ys (x # xd) yd t)"
proof (cases "t = fst x")
  case False
  then show ?thesis by (cases x) (auto simp: merge_spec_def may_pick_def)
next
  case True
  obtain a where x: "x = (t, a)" using True by (cases x) auto
  have fresh: "t \<notin> set (keys xd)" using assms(1) by (auto simp: merge_inv_def x)
  have "a \<le> b" if "map_of ys t = Some b" for b
    using bspec [OF assms(2) map_of_SomeD [OF that]] by (simp add: x)
  then show ?thesis using fresh
    by (auto simp: merge_spec_def may_pick_def x min_def split: option.splits)
qed

lemma merge_inv_commute: "merge_inv xs ys xd yd \<Longrightarrow> merge_inv ys xs yd xd"
  by (simp add: merge_inv_def)

lemma merge_spec_commute: "merge_spec xs ys xd yd = merge_spec ys xs yd xd"
  by (rule ext) (auto simp: merge_spec_def min.commute split: option.splits)

lemma merge_inv_next: "merge_inv (x # xs) ys xd yd \<Longrightarrow> merge_inv xs ys (x # xd) yd"
  by (auto simp: merge_inv_def)

lemma merge_lookup:
  "merge_inv xs ys xd yd \<Longrightarrow> map_of (may_join_loop xs ys xd yd) t = merge_spec xs ys xd yd t"
proof (induction xs ys xd yd rule: may_join_loop.induct)
  case (1 xd yd)
  then show ?case by (simp add: merge_spec_def)
next
  case (2 x xs xd yd)
  then show ?case
    using merge_spec_step [OF "2.prems"] merge_inv_next [OF "2.prems"]
    by (simp add: map_add_def split: option.splits)
next
  case (3 y ys xd yd)
  have inv: "merge_inv (y # ys) [] yd xd" using "3.prems" by (rule merge_inv_commute)
  have "merge_inv [] ys xd (y # yd)" using merge_inv_commute [OF merge_inv_next [OF inv]] .
  then show ?case
    using merge_spec_step [OF inv] "3.IH"
    by (simp add: map_add_def merge_spec_commute [of "[]"] split: option.splits)
next
  case (4 x xs y ys xd yd)
  have sorted: "\<forall>e \<in> set xs. snd x \<le> snd e" "\<forall>e \<in> set ys. snd y \<le> snd e"
    using "4.prems" by (auto simp: merge_inv_def entry_less_def)
  show ?case
  proof (cases "snd x < snd y \<or> (snd x = snd y \<and> fst x \<le> fst y)")
    case True
    then have "\<forall>e \<in> set (y # ys). snd x \<le> snd e" using sorted(2) by auto
    from merge_spec_step [OF "4.prems" this] "4.IH"(1) [OF True merge_inv_next [OF "4.prems"]] show ?thesis
      using True by (simp add: map_add_def split: option.splits)
  next
    case False
    then have "\<forall>e \<in> set (x # xs). snd y \<le> snd e" using sorted(1) by auto
    moreover have inv: "merge_inv (y # ys) (x # xs) yd xd" using "4.prems" by (rule merge_inv_commute)
    moreover have step: "may_join_loop (x # xs) (y # ys) xd yd =
        may_pick y xd @ may_join_loop (x # xs) ys xd (y # yd)" using False by auto
    ultimately show ?thesis
      using merge_spec_step [OF inv] "4.IH"(2) [OF False merge_inv_commute [OF merge_inv_next [OF inv]]]
      unfolding step by (simp add: map_add_def merge_spec_commute [of "x # xs"] split: option.splits)
  qed
qed

lemma merge_fresh:
  assumes "merge_inv xs ys xd yd" and "t \<in> set (keys xd) \<union> set (keys yd)"
  shows "t \<notin> set (keys (may_join_loop xs ys xd yd))"
proof -
  have "map_of (may_join_loop xs ys xd yd) t = None"
    using assms(2) by (simp add: merge_lookup [OF assms(1)] merge_spec_def)
  then show ?thesis by (simp add: map_of_eq_None_iff)
qed

definition out_ok :: "(tag \<times> way) list \<Rightarrow> bool" where
  "out_ok es \<longleftrightarrow> sorted_wrt entry_less es \<and> distinct (keys es)"

lemma out_ok_pick:
  assumes "out_ok es" and "fst x \<notin> set (keys es)" and "\<forall>e \<in> set es. entry_less x e \<or> e = x"
  shows "out_ok (may_pick x ds @ es)"
proof -
  have "\<forall>e \<in> set es. entry_less x e" using assms(2,3) by force
  then show ?thesis using assms(1,2) by (simp add: out_ok_def may_pick_def)
qed

lemma head_least:
  assumes "sorted_wrt entry_less (y # ys)" and "snd x < snd y \<or> (snd x = snd y \<and> fst x \<le> fst y)"
  shows "\<forall>e \<in> set (y # ys). entry_less x e \<or> e = x"
proof -
  have xy: "entry_less x y \<or> y = x" using assms(2) by (auto simp: entry_less_def prod_eq_iff)
  moreover have "entry_less x e" if "e \<in> set ys" for e
    using xy assms(1) that entry_less_trans [of x y e] by auto
  ultimately show ?thesis by auto
qed

lemma merge_sorted: "merge_inv xs ys xd yd \<Longrightarrow> out_ok (may_join_loop xs ys xd yd)"
proof (induction xs ys xd yd rule: may_join_loop.induct)
  case (1 xd yd)
  then show ?case by (simp add: out_ok_def)
next
  case (2 x xs xd yd)
  note inv = merge_inv_next [OF "2.prems"]
  have "\<forall>e \<in> set (may_join_loop xs [] (x # xd) yd). entry_less x e \<or> e = x"
    using merge_set [of xs "[]" "x # xd" yd] "2.prems" by (auto simp: merge_inv_def)
  then show ?case using "2.IH" [OF inv] merge_fresh [OF inv, of "fst x"] by (simp add: out_ok_pick)
next
  case (3 y ys xd yd)
  note inv = merge_inv_commute [OF merge_inv_next [OF merge_inv_commute [OF "3.prems"]]]
  have "\<forall>e \<in> set (may_join_loop [] ys xd (y # yd)). entry_less y e \<or> e = y"
    using merge_set [of "[]" ys xd "y # yd"] "3.prems" by (auto simp: merge_inv_def)
  then show ?case using "3.IH" [OF inv] merge_fresh [OF inv, of "fst y"] by (simp add: out_ok_pick)
next
  case (4 x xs y ys xd yd)
  have sorted: "sorted_wrt entry_less (x # xs)" "sorted_wrt entry_less (y # ys)"
    using "4.prems" by (simp_all add: merge_inv_def)
  show ?case
  proof (cases "snd x < snd y \<or> (snd x = snd y \<and> fst x \<le> fst y)")
    case True
    note inv = merge_inv_next [OF "4.prems"]
    have "\<forall>e \<in> set (may_join_loop xs (y # ys) (x # xd) yd). entry_less x e \<or> e = x"
      using merge_set [of xs "y # ys" "x # xd" yd] head_least [OF sorted(2) True] sorted(1) by auto
    then show ?thesis using True "4.IH"(1) [OF True inv] merge_fresh [OF inv, of "fst x"]
      by (simp add: out_ok_pick)
  next
    case False
    note inv = merge_inv_commute [OF merge_inv_next [OF merge_inv_commute [OF "4.prems"]]]
    have less: "snd y < snd x \<or> (snd y = snd x \<and> fst y \<le> fst x)" using False by auto
    have "\<forall>e \<in> set (may_join_loop (x # xs) ys xd (y # yd)). entry_less y e \<or> e = y"
      using merge_set [of "x # xs" ys xd "y # yd"] head_least [OF sorted(1) less] sorted(2) by auto
    moreover have "may_join_loop (x # xs) (y # ys) xd yd =
        may_pick y xd @ may_join_loop (x # xs) ys xd (y # yd)" using False by auto
    ultimately show ?thesis using "4.IH"(2) [OF False inv] merge_fresh [OF inv, of "fst y"]
      by (simp add: out_ok_pick)
  qed
qed

lemma may_join_spec:
  assumes "may_wf A x" and "may_wf A y"
  shows "may_wf A (may_join x y)"
    and "ageOfImplicitTags (may_join x y) = min (ageOfImplicitTags x) (ageOfImplicitTags y)"
    and "getMinAge (may_join x y) t = min (getMinAge x t) (getMinAge y t)"
proof -
  let ?E = "may_join_loop (explicitTags x) (explicitTags y) [] []"
  let ?i = "min (ageOfImplicitTags x) (ageOfImplicitTags y)"
  note ex = may_wfD [OF assms(1)] and ey = may_wfD [OF assms(2)]
  have inv: "merge_inv (explicitTags x) (explicitTags y) [] []"
    using ex ey by (simp add: merge_inv_def)
  have ok: "sorted_wrt entry_less ?E" "distinct (keys ?E)" "?i \<le> A"
    using merge_sorted [OF inv] ex(4) by (auto simp: out_ok_def)
  show "may_wf A (may_join x y)" "ageOfImplicitTags (may_join x y) = ?i"
    unfolding may_join_def by (rule removeRedundant_spec [OF ok])+
  have ax: "a < ageOfImplicitTags x" if "map_of (explicitTags x) t = Some a" for a
    using may_wf_age_less [OF assms(1) that] by blast
  have ay: "a < ageOfImplicitTags y" if "map_of (explicitTags y) t = Some a" for a
    using may_wf_age_less [OF assms(2) that] by blast
  have "getMinAge (may_join x y) t = (case map_of ?E t of None \<Rightarrow> ?i | Some a \<Rightarrow> min a ?i)"
    unfolding may_join_def by (rule removeRedundant_spec(3) [OF ok])
  also have "\<dots> = min (getMinAge x t) (getMinAge y t)"
    unfolding merge_lookup [OF inv] merge_spec_def getMinAge_def must_lookup_map_of
    using ax ay by (fastforce split: option.splits)
  finally show "getMinAge (may_join x y) t = min (getMinAge x t) (getMinAge y t)" .
qed

lemma may_eq_iff [simp]: "may_eq x y \<longleftrightarrow> x = y"
  by (cases x; cases y) (auto simp: may_eq_def)

interpretation may_semilattice: join_semilattice "may_wf A" may_join may_eq
proof unfold_locales
  fix x y z :: may_state
  show "may_wf A x \<Longrightarrow> may_wf A y \<Longrightarrow> may_wf A (may_join x y)" by (rule may_join_spec)
  show "may_eq x y \<longleftrightarrow> x = y" by simp
  show "may_join x x = x" if "may_wf A x"
    using that by (intro may_wf_unique [of A]) (simp_all add: may_join_spec fun_eq_iff)
  show "may_join x y = may_join y x" if "may_wf A x" "may_wf A y"
    using that by (intro may_wf_unique [of A]) (simp_all add: may_join_spec fun_eq_iff min.commute)
  show "may_join (may_join x y) z = may_join x (may_join y z)"
    if "may_wf A x" "may_wf A y" "may_wf A z"
    using that by (intro may_wf_unique [of A]) (simp_all add: may_join_spec [of A] fun_eq_iff min.assoc)
qed

lemma may_gamma_join:
  assumes "may_wf A x" and "may_wf A y"
  shows "may_gamma A x \<union> may_gamma A y \<subseteq> may_gamma A (may_join x y)"
  using may_join_spec(3) [OF assms] by (auto simp: may_gamma_def intro: min.coboundedI1 min.coboundedI2)

lemma may_lessequal_pointwise:
  assumes "may_wf A x" and "may_wf A y"
  shows "may_lessequal x y \<longleftrightarrow>
    ageOfImplicitTags y \<le> ageOfImplicitTags x \<and> (\<forall>t. getMinAge y t \<le> getMinAge x t)"
proof -
  have "may_lessequal x y \<longleftrightarrow> may_join x y = y" by (simp add: may_lessequal_def)
  also have "\<dots> \<longleftrightarrow> ageOfImplicitTags (may_join x y) = ageOfImplicitTags y \<and>
      getMinAge (may_join x y) = getMinAge y"
    using may_wf_unique [OF may_join_spec(1) [OF assms] assms(2)] by auto
  finally show ?thesis
    by (simp only: may_join_spec [OF assms] fun_eq_iff min.absorb_iff2)
qed

section \<open>Classification and queries\<close>

lemma may_classify_miss:
  assumes "q \<in> may_gamma (ASSOCIATIVITY T) m" and "CNN T E idx t = 0"
    and "may_classify_tag T E m t idx = CL_MISS"
  shows "t \<notin> set q"
proof
  assume t: "t \<in> set q"
  then have "getMinAge m t \<le> lru_age q t" "lru_age q t < ASSOCIATIVITY T"
    using assms(1) lru_age_less [OF t] by (auto simp: may_gamma_def lru_wf_def)
  then show False using assms(2,3)
    by (auto simp: may_classify_tag_def getMinAge_def Let_def split: option.splits if_splits)
qed

lemma may_never_hit: "may_classify_tag T E m t idx \<noteq> CL_HIT"
  by (auto simp: may_classify_tag_def Let_def split: option.splits)

lemma may_count_filter:
  "sorted_wrt entry_less es \<Longrightarrow> may_count_loop es k = length (filter (\<lambda>e. int (snd e) \<le> k) es)"
proof (induction es k rule: may_count_loop.induct)
  case (1 k)
  then show ?case by simp
next
  case (2 t a es k)
  then have "int a > k \<Longrightarrow> filter (\<lambda>e. int (snd e) \<le> k) es = []"
    by (fastforce simp: filter_empty_conv entry_less_def)
  then show ?case using 2 by auto
qed

lemma vector_less_laws:
  assumes irrefl: "\<And>a. \<not> lt a a" and trans: "\<And>a b c. lt a b \<Longrightarrow> lt b c \<Longrightarrow> lt a c"
    and total: "\<And>a b. lt a b \<or> a = b \<or> lt b a"
  shows "\<not> vector_less lt xs xs"
    and "vector_less lt xs ys \<Longrightarrow> vector_less lt ys zs \<Longrightarrow> vector_less lt xs zs"
    and "vector_less lt xs ys \<or> xs = ys \<or> vector_less lt ys xs"
proof -
  show "\<not> vector_less lt xs xs" by (induction xs) (auto simp: irrefl)
  show "vector_less lt xs ys \<or> xs = ys \<or> vector_less lt ys xs"
  proof (induction xs arbitrary: ys)
    case Nil
    then show ?case by (cases ys) auto
  next
    case (Cons x xs)
    then show ?case using total irrefl by (cases ys) auto
  qed
  show "vector_less lt xs ys \<Longrightarrow> vector_less lt ys zs \<Longrightarrow> vector_less lt xs zs"
  proof (induction xs arbitrary: ys zs)
    case Nil
    then show ?case by (cases ys; cases zs) auto
  next
    case (Cons x xs)
    obtain y ys' where ys: "ys = y # ys'" using Cons.prems by (cases ys) auto
    obtain z zs' where zs: "zs = z # zs'" using Cons.prems by (cases zs) auto
    have xy: "lt x y \<or> x = y \<and> vector_less lt xs ys'" and yz: "lt y z \<or> y = z \<and> vector_less lt ys' zs'"
      using Cons.prems total irrefl unfolding ys zs by auto
    then have "lt x z \<or> x = z \<and> vector_less lt xs zs'" using trans Cons.IH by blast
    then show ?case unfolding zs using irrefl by auto
  qed
qed

lemma entry_vector_less_laws:
  "\<not> vector_less entry_less xs xs"
  "vector_less entry_less xs ys \<Longrightarrow> vector_less entry_less ys zs \<Longrightarrow> vector_less entry_less xs zs"
  "vector_less entry_less xs ys \<or> xs = ys \<or> vector_less entry_less ys xs"
  using vector_less_laws [of entry_less] entry_less_irrefl entry_less_trans entry_less_total by blast+

section \<open>The operations as the cache calls them\<close>

definition ex_may :: may_state where
  "ex_may = \<lparr>explicitTags = [(3, 0), (5, 1)], ageOfImplicitTags = 3\<rparr>"

lemma ex_may_wf: "may_wf 4 ex_may"
  by (simp add: may_wf_def ex_may_def entry_less_def)

lemma ex_may_gamma: "[3, 5] \<in> may_gamma 4 ex_may"
  by (simp add: may_gamma_def ex_may_def lru_wf_def getMinAge_def)

text \<open>
  C4: for a well-formed may state the update of an access to a known line keeps the class invariant
  and computes the textbook update of minimal ages; its report lists exactly the explicit tags that
  leave the cache and says whether the implicit ones just did.
\<close>

theorem may_update_functional:
  assumes "traits_ok T" and "may_wf (ASSOCIATIVITY T) m" and "aa_getTag T E aa = Some t"
  shows "\<exists>m'. may_update T E m aa ls rep c = Some (m', if rep then Some (MayReport
        {u. getMinAge m u < ageOfImplicitTags m \<and> getMinAge m' u = ASSOCIATIVITY T}
        (ageOfImplicitTags m < ASSOCIATIVITY T \<and> ageOfImplicitTags m' = ASSOCIATIVITY T) False) else None) \<and>
    may_wf (ASSOCIATIVITY T) m' \<and> getMinAge m' = may_spec_update (ASSOCIATIVITY T) t (getMinAge m)"
proof -
  have A: "0 < ASSOCIATIVITY T" "ASSOCIATIVITY T \<le> 255" using assms(1) by (simp_all add: traits_ok_def)
  obtain m' ev j where upd: "may_update_entries (ASSOCIATIVITY T) t m = (m', ev, j)"
    by (cases "may_update_entries (ASSOCIATIVITY T) t m") auto
  show ?thesis
    using may_update_entries_refines [OF assms(2) A upd] assms(3) upd
    by (intro exI [of _ m']) (simp add: may_update_def)
qed

theorem may_update_functional_witness:
  "\<exists>m'. may_update ex_traits ex_env ex_may (aa_of_address 0xE0) LOAD True CL_UNKNOWN = Some (m', Some (MayReport
      {u. getMinAge ex_may u < 3 \<and> getMinAge m' u = 4} (ageOfImplicitTags m' = 4) False)) \<and>
    may_wf 4 m' \<and> getMinAge m' = may_spec_update 4 7 (getMinAge ex_may)"
proof -
  have tag: "aa_getTag ex_traits ex_env (aa_of_address 0xE0) = Some 7"
    by (simp add: getTag_def)
  have imp: "ageOfImplicitTags ex_may = 3" by (simp add: ex_may_def)
  show ?thesis
    using may_update_functional [OF ex_traits_ok _ tag, of ex_may LOAD True CL_UNKNOWN] ex_may_wf imp by simp
qed

text \<open>
  C5: the may update is sound: if a state describes an LRU set, the state after the update
  describes the set after the access.
\<close>

theorem may_update_sound:
  assumes "traits_ok T" and "may_wf (ASSOCIATIVITY T) m" and "aa_getTag T E aa = Some t"
    and "q \<in> may_gamma (ASSOCIATIVITY T) m"
  shows "\<exists>m' r. may_update T E m aa ls rep c = Some (m', r) \<and> may_wf (ASSOCIATIVITY T) m' \<and>
    lru_access (ASSOCIATIVITY T) t q \<in> may_gamma (ASSOCIATIVITY T) m'"
proof -
  have A: "0 < ASSOCIATIVITY T" "ASSOCIATIVITY T \<le> 255" using assms(1) by (simp_all add: traits_ok_def)
  obtain m' ev j where upd: "may_update_entries (ASSOCIATIVITY T) t m = (m', ev, j)"
    by (cases "may_update_entries (ASSOCIATIVITY T) t m") auto
  show ?thesis
    using may_update_entries_refines(1) [OF assms(2) A upd] may_update_gamma [OF assms(2) A assms(4) upd]
      assms(3) upd by (simp add: may_update_def)
qed

theorem may_update_sound_witness:
  "\<exists>m' r. may_update ex_traits ex_env ex_may (aa_of_address 0xE0) LOAD False CL_UNKNOWN = Some (m', r) \<and>
    may_wf 4 m' \<and> lru_access 4 7 [3, 5] \<in> may_gamma 4 m'"
proof -
  have tag: "aa_getTag ex_traits ex_env (aa_of_address 0xE0) = Some 7"
    by (simp add: getTag_def)
  show ?thesis
    using may_update_sound [OF ex_traits_ok _ tag, of ex_may "[3, 5]" LOAD False CL_UNKNOWN]
      ex_may_wf ex_may_gamma by simp
qed

text \<open>
  The potential update of the may analysis returns unless the interval ends at the greatest
  tag; the result describes the untouched set and the set after an access to any tag of the interval.
\<close>

theorem may_potential_sound:
  assumes "traits_ok T" and "may_wf (ASSOCIATIVITY T) m" and "q \<in> may_gamma (ASSOCIATIVITY T) m"
    and "getTag T (aa_upper E aa) \<noteq> - 1"
  shows "\<exists>m' r. may_potential_update T E m aa ls rep = Some (m', r) \<and> may_wf (ASSOCIATIVITY T) m' \<and>
    q \<in> may_gamma (ASSOCIATIVITY T) m' \<and>
    (\<forall>x. in_range (getTag T (aa_lower E aa)) (getTag T (aa_upper E aa)) x \<longrightarrow>
      lru_access (ASSOCIATIVITY T) x q \<in> may_gamma (ASSOCIATIVITY T) m')"
proof -
  have A: "0 < ASSOCIATIVITY T" using assms(1) by (simp add: traits_ok_def)
  obtain m' intro where m':
    "may_potential_update T E m aa ls rep = Some (m', if rep then Some (MayReport {} False intro) else None)"
    "may_wf (ASSOCIATIVITY T) m'" "\<And>t. getMinAge m' t \<le> getMinAge m t"
    "\<And>t. in_range (getTag T (aa_lower E aa)) (getTag T (aa_upper E aa)) t \<Longrightarrow> getMinAge m' t = 0"
    using may_potential_spec [OF assms(2,4) A] by metis
  show ?thesis
    using m' may_gamma_mono [OF assms(3) m'(3)] may_potential_gamma [OF assms(3) m'(3) m'(4)] by blast
qed

theorem may_potential_sound_witness:
  "\<exists>m' r. may_potential_update ex_traits ex_env ex_may (AInterval 0xC0 0x100) LOAD True = Some (m', r) \<and>
    may_wf 4 m' \<and> [3, 5] \<in> may_gamma 4 m' \<and> lru_access 4 7 [3, 5] \<in> may_gamma 4 m'"
proof -
  have hi: "getTag ex_traits (aa_upper ex_env (AInterval 0xC0 0x100)) = 8"
    and lo: "getTag ex_traits (aa_lower ex_env (AInterval 0xC0 0x100)) = 6"
    by (simp_all add: getTag_def aa_upper_def aa_lower_def)
  have "(8 :: tag) \<noteq> - 1" by simp
  then show ?thesis
    using may_potential_sound [OF ex_traits_ok, of ex_may "[3, 5]" ex_env "AInterval 0xC0 0x100" LOAD True]
      ex_may_wf ex_may_gamma unfolding hi lo by auto
qed

lemma may_join_lub_facts:
  assumes "may_wf A x" and "may_wf A y"
  shows "may_wf A (may_join x y)"
    and "getMinAge (may_join x y) t = min (getMinAge x t) (getMinAge y t)"
    and "may_gamma A x \<union> may_gamma A y \<subseteq> may_gamma A (may_join x y)"
    and "may_lessequal x (may_join x y)" and "may_lessequal y (may_join x y)"
    and "may_wf A z \<Longrightarrow> may_lessequal x z \<Longrightarrow> may_lessequal y z \<Longrightarrow> may_lessequal (may_join x y) z"
    and "may_lessequal x y \<longleftrightarrow>
      ageOfImplicitTags y \<le> ageOfImplicitTags x \<and> (\<forall>t. getMinAge y t \<le> getMinAge x t)"
  using may_join_spec [OF assms] may_gamma_join [OF assms] may_lessequal_pointwise [OF assms]
    may_semilattice.leq_jn1 [OF assms] may_semilattice.leq_jn2 [OF assms]
    may_semilattice.jn_least [OF assms]
  by (simp_all add: may_lessequal_def po_leq_def)

text \<open>
  C15: the join of two well-formed may states is well-formed, describes every set one of them
  describes, is the pointwise minimum of the ages, and is the least upper bound for
  \<open>lessequal\<close>, which is the pointwise order.
\<close>

theorem may_join_lub:
  assumes "may_wf A x" and "may_wf A y"
  shows "(may_wf A (may_join x y)) \<and>
    (getMinAge (may_join x y) t = min (getMinAge x t) (getMinAge y t)) \<and>
    (may_gamma A x \<union> may_gamma A y \<subseteq> may_gamma A (may_join x y)) \<and>
    (may_lessequal x (may_join x y)) \<and>
    (may_lessequal y (may_join x y)) \<and>
    (may_wf A z \<longrightarrow> may_lessequal x z \<longrightarrow> may_lessequal y z \<longrightarrow> may_lessequal (may_join x y) z) \<and>
    (may_lessequal x y \<longleftrightarrow> ageOfImplicitTags y \<le> ageOfImplicitTags x \<and> (\<forall>t. getMinAge y t \<le> getMinAge x t))"
  using may_join_lub_facts [OF assms] by blast

theorem may_join_lub_witness:
  "may_lessequal ex_may (may_join ex_may (may_init 4 True)) \<and>
   getMinAge (may_join ex_may (may_init 4 True)) 5 = min 1 4"
proof -
  have "getMinAge ex_may 5 = 1" "getMinAge (may_init 4 True) 5 = 4"
    by (simp_all add: ex_may_def getMinAge_def may_init_def)
  then show ?thesis
    using may_join_lub [OF ex_may_wf may_init_wf, of True 5] by metis
qed

text \<open>
  Classification by the may state never claims a hit; when no conflicting line of another core is
  counted, a miss is definite for every LRU set the state describes.
\<close>

theorem may_classify_sound:
  assumes "may_wf (ASSOCIATIVITY T) m" and "q \<in> may_gamma (ASSOCIATIVITY T) m"
    and "may_classify T E m aa = Some c"
  shows "c \<noteq> CL_HIT \<and> (\<exists>t idx. aa_getTag T E aa = Some t \<and> aa_getindex T E aa = Some idx \<and>
    (c = CL_MISS \<and> CNN T E idx t = 0 \<longrightarrow> t \<notin> set q))"
  using assms(3) may_classify_miss [OF assms(2)] may_never_hit
  by (auto simp: may_classify_def split: option.splits)

theorem may_classify_sound_witness:
  "\<exists>t idx. aa_getTag ex_traits ex_env (aa_of_address 0xE0) = Some t \<and>
     aa_getindex ex_traits ex_env (aa_of_address 0xE0) = Some idx \<and> t \<notin> set []"
proof -
  have init: "may_wf 4 (may_init 4 True)" "[] \<in> may_gamma 4 (may_init 4 True)"
    by (simp_all add: may_init_wf may_init_gamma lru_wf_def)
  have "may_classify ex_traits ex_env (may_init 4 True) (aa_of_address 0xE0) = Some CL_MISS"
    by (simp add: may_classify_def may_classify_tag_def may_init_def)
  from may_classify_sound [OF _ _ this, of "[]"] show ?thesis using init by simp
qed

lemma may_queries_correct_facts:
  assumes "may_wf A m"
  shows "is_denote (getTagsWithMaxMinAge m k) = {u. int (getMinAge m u) \<le> k}"
    and "k < int (ageOfImplicitTags m) \<Longrightarrow> getNTagsWithMaxMinAge m k = card {u. int (getMinAge m u) \<le> k}"
    and "\<not> may_less m m \<and> (may_less m x \<and> may_less x y \<longrightarrow> may_less m y) \<and>
      (may_less m x \<or> may_eq m x \<or> may_less x m)"
proof -
  note es = may_wfD [OF assms]
  have young: "fst ` {e \<in> set (explicitTags m). int (snd e) \<le> k} = {u. int (getMinAge m u) \<le> k}"
    if k: "k < int (ageOfImplicitTags m)"
  proof -
    have "u \<in> fst ` {e \<in> set (explicitTags m). int (snd e) \<le> k} \<longleftrightarrow>
        (\<exists>a. map_of (explicitTags m) u = Some a \<and> int a \<le> k)" for u
      unfolding map_of_Some_iff [OF es(1)] by force
    moreover have "(\<exists>a. map_of (explicitTags m) u = Some a \<and> int a \<le> k) \<longleftrightarrow> int (getMinAge m u) \<le> k" for u
      using k by (auto simp: getMinAge_def split: option.splits)
    ultimately show ?thesis by blast
  qed
  show "is_denote (getTagsWithMaxMinAge m k) = {u. int (getMinAge m u) \<le> k}"
  proof (cases "int (ageOfImplicitTags m) \<le> k")
    case True
    then have "int (getMinAge m u) \<le> k" for u
      using getMinAge_le [OF assms, of u] by linarith
    then show ?thesis using True by (simp add: getTagsWithMaxMinAge_def is_denote_make)
  next
    case False
    then show ?thesis using young
      by (simp add: getTagsWithMaxMinAge_def is_denote_make must_tags_loop_denote [OF es(2)])
  qed
  show "k < int (ageOfImplicitTags m) \<Longrightarrow> getNTagsWithMaxMinAge m k = card {u. int (getMinAge m u) \<le> k}"
    using young by (simp add: getNTagsWithMaxMinAge_def may_count_filter [OF es(2)] length_filter_card [OF es(1)])
  show "\<not> may_less m m \<and> (may_less m x \<and> may_less x y \<longrightarrow> may_less m y) \<and>
      (may_less m x \<or> may_eq m x \<or> may_less x m)"
    using entry_vector_less_laws(1) [of "explicitTags m"]
      entry_vector_less_laws(2) [of "explicitTags m" "explicitTags x" "explicitTags y"]
      entry_vector_less_laws(3) [of "explicitTags m" "explicitTags x"]
    unfolding may_less_def may_eq_def by (auto dest: less_trans)
qed

text \<open>
  The queries of the may state: the tags of at most a minimal age, their number (the greatest
  unsigned number when all implicit tags count), and \<open>operator<\<close> as a strict total order.
\<close>

theorem may_queries_correct:
  assumes "may_wf A m"
  shows "(is_denote (getTagsWithMaxMinAge m k) = {u. int (getMinAge m u) \<le> k}) \<and>
    (k < int (ageOfImplicitTags m) \<longrightarrow> (getNTagsWithMaxMinAge m k = card {u. int (getMinAge m u) \<le> k})) \<and>
    (\<not> may_less m m \<and> (may_less m x \<and> may_less x y \<longrightarrow> may_less m y) \<and> (may_less m x \<or> may_eq m x \<or> may_less x m))"
  using may_queries_correct_facts [OF assms] by blast

theorem may_queries_correct_witness:
  "is_denote (getTagsWithMaxMinAge ex_may 1) = {u. int (getMinAge ex_may u) \<le> 1} \<and>
   getNTagsWithMaxMinAge ex_may 1 = card {u. int (getMinAge ex_may u) \<le> 1} \<and> \<not> may_less ex_may ex_may"
proof -
  have "1 < int (ageOfImplicitTags ex_may)" by (simp add: ex_may_def)
  then show ?thesis
    using may_queries_correct [OF ex_may_wf, of 1 ex_may ex_may] by blast
qed

end
