(* ===== verification/TA_Set_Analysis.thy ===== *)
theory TA_Set_Analysis
  imports TA_May_Sound
begin

text \<open>
  The interface of a cache set analysis (\<open>concepts::CacheSetAnalysis\<close>,
  \<open>include/Memory/util/CacheSetAnalysisConcept.h\<close>), the template parameter of
  \<open>AbstractCacheImpl\<close> and of \<open>CompositionalAbstractCache\<close>: a record of operations, and the contract
  they keep, the locale \<open>set_analysis_contract\<close>.  The must and the may analysis are instances.

  A \<open>PersistenceScope\<close> is identified by its number; \<open>'d\<close> is the type of the analysis dependencies,
  a null pointer being \<open>None\<close>.  \<open>None\<close> as a result is a failed assertion.
\<close>

type_synonym scope = nat

record ('s, 'd) set_analysis =
  sa_init :: "bool \<Rightarrow> 's"
  sa_classify :: "'s \<Rightarrow> abs_address \<Rightarrow> classification option"
  sa_get_age :: "'s \<Rightarrow> abs_address \<Rightarrow> int option"
  sa_css_tag :: "'s \<Rightarrow> tag \<Rightarrow> int"
  sa_css_var :: "'s \<Rightarrow> gvar \<Rightarrow> int"
  sa_update :: "'s \<Rightarrow> abs_address \<Rightarrow> access_type \<Rightarrow> 'd option \<Rightarrow> bool \<Rightarrow> classification \<Rightarrow>
     ('s \<times> update_report option) option"
  sa_potential :: "'s \<Rightarrow> abs_address \<Rightarrow> access_type \<Rightarrow> bool \<Rightarrow> ('s \<times> update_report option) option"
  sa_join :: "'s \<Rightarrow> 's \<Rightarrow> 's"
  sa_lessequal :: "'s \<Rightarrow> 's \<Rightarrow> bool"
  sa_enter :: "scope \<Rightarrow> 's \<Rightarrow> 's"
  sa_leave :: "scope \<Rightarrow> 's \<Rightarrow> 's"
  sa_pers_tag :: "'s \<Rightarrow> tag \<Rightarrow> scope set"
  sa_pers_var :: "'s \<Rightarrow> gvar \<Rightarrow> scope set"
  sa_eq :: "'s \<Rightarrow> 's \<Rightarrow> bool"
  sa_less :: "'s \<Rightarrow> 's \<Rightarrow> bool"

definition must_analysis :: "cache_traits \<Rightarrow> ana_env \<Rightarrow> (must_state, unit) set_analysis" where
  "must_analysis T E =
     \<lparr>sa_init = must_init, sa_classify = must_classify T E, sa_get_age = must_get_age T E,
      sa_css_tag = (\<lambda>_ _. -1), sa_css_var = (\<lambda>_ _. -1),
      sa_update = (\<lambda>m aa ls _ rep c. must_update T E m aa ls rep c),
      sa_potential = (\<lambda>m aa ls rep. Some (must_potential_update T m aa ls rep)),
      sa_join = must_join, sa_lessequal = must_lessequal,
      sa_enter = (\<lambda>_ m. m), sa_leave = (\<lambda>_ m. m),
      sa_pers_tag = (\<lambda>_ _. {}), sa_pers_var = (\<lambda>_ _. {}), sa_eq = must_eq, sa_less = must_less\<rparr>"

definition may_analysis :: "cache_traits \<Rightarrow> ana_env \<Rightarrow> (may_state, unit) set_analysis" where
  "may_analysis T E =
     \<lparr>sa_init = may_init (ASSOCIATIVITY T), sa_classify = may_classify T E,
      sa_get_age = may_get_age T E, sa_css_tag = (\<lambda>_ _. -1), sa_css_var = (\<lambda>_ _. -1),
      sa_update = (\<lambda>m aa ls _ rep c. may_update T E m aa ls rep c),
      sa_potential = may_potential_update T E,
      sa_join = may_join, sa_lessequal = may_lessequal,
      sa_enter = (\<lambda>_ m. m), sa_leave = (\<lambda>_ m. m),
      sa_pers_tag = (\<lambda>_ _. {}), sa_pers_var = (\<lambda>_ _. {}), sa_eq = may_eq, sa_less = may_less\<rparr>"

lemmas set_analysis_simps = must_analysis_def may_analysis_def

section \<open>The contract\<close>

text \<open>
  The concrete machine is one cache set: a state \<open>'q\<close>, the effect \<open>acc\<close> of an access to a tag, of
  entering and of leaving a scope, and whether an access to a tag would hit.  A sound analysis has
  an invariant and a concretisation that its operations keep: an update with a justified
  assumption does not fail and describes the set after the access; a potential update describes
  the set with and without an access to a line of the interval; classifications are justified, a
  miss only if no conflicting line of another core is counted; a report is given iff it is wanted.
\<close>

definition plain_class :: "classification \<Rightarrow> bool" where
  "plain_class c \<longleftrightarrow> c = CL_HIT \<or> c = CL_MISS \<or> c = CL_UNKNOWN"

text \<open>
  A sequence of precise loads: every access is classified, and the state updated with the
  classification as the assumption.  \<open>run_hits\<close> is what happens in the concrete set, and
  \<open>justified\<close> compares the two.
\<close>

fun sa_run :: "('s, 'd) set_analysis \<Rightarrow> address list \<Rightarrow> 's \<Rightarrow> (classification list \<times> 's) option" where
  "sa_run An [] s = Some ([], s)"
| "sa_run An (a # as) s =
     (case sa_classify An s (aa_of_address a) of None \<Rightarrow> None
      | Some c \<Rightarrow> (case sa_update An s (aa_of_address a) LOAD None False c of None \<Rightarrow> None
                  | Some (s', r) \<Rightarrow> map_option (\<lambda>(cs, s''). (c # cs, s'')) (sa_run An as s')))"

fun run_hits :: "cache_traits \<Rightarrow> (tag \<Rightarrow> 'q \<Rightarrow> 'q) \<Rightarrow> ('q \<Rightarrow> tag \<Rightarrow> bool) \<Rightarrow> address list \<Rightarrow> 'q \<Rightarrow> bool list" where
  "run_hits T acc hit [] q = []"
| "run_hits T acc hit (a # as) q = hit q (getTag T a) # run_hits T acc hit as (acc (getTag T a) q)"

fun justified :: "cache_traits \<Rightarrow> ana_env \<Rightarrow> address list \<Rightarrow> classification list \<Rightarrow> bool list \<Rightarrow> bool" where
  "justified T E (a # as) (c # cs) (h # hs) =
     ((c = CL_HIT \<longrightarrow> h) \<and> (c = CL_MISS \<and> CNN T E (getindex T a) (getTag T a) = 0 \<longrightarrow> \<not> h) \<and>
      justified T E as cs hs)"
| "justified T E as cs hs = (as = [] \<and> cs = [] \<and> hs = [])"

locale set_analysis_contract =
  fixes T :: cache_traits and E :: ana_env and An :: "('s, 'd) set_analysis"
    and inv :: "'s \<Rightarrow> bool" and gamma :: "'s \<Rightarrow> 'q set"
    and acc :: "tag \<Rightarrow> 'q \<Rightarrow> 'q" and ent :: "scope \<Rightarrow> 'q \<Rightarrow> 'q" and lea :: "scope \<Rightarrow> 'q \<Rightarrow> 'q"
    and hit :: "'q \<Rightarrow> tag \<Rightarrow> bool" and start :: "bool \<Rightarrow> 'q set"
  assumes init: "traits_ok T \<Longrightarrow> inv (sa_init An b)" "traits_ok T \<Longrightarrow> start b \<subseteq> gamma (sa_init An b)"
    and classify: "traits_ok T \<Longrightarrow> inv s \<Longrightarrow> q \<in> gamma s \<Longrightarrow> \<exists>c. sa_classify An s (aa_of_address a) = Some c \<and> plain_class c \<and>
      (c = CL_HIT \<longrightarrow> hit q (getTag T a)) \<and>
      (c = CL_MISS \<and> CNN T E (getindex T a) (getTag T a) = 0 \<longrightarrow> \<not> hit q (getTag T a))"
    and update: "traits_ok T \<Longrightarrow> inv s \<Longrightarrow> q \<in> gamma s \<Longrightarrow> (must_assumes_hit T c \<Longrightarrow> hit q (getTag T a)) \<Longrightarrow> c \<noteq> CL_BOT \<Longrightarrow>
      \<exists>s' r. sa_update An s (aa_of_address a) ls None rep c = Some (s', r) \<and> inv s' \<and>
        acc (getTag T a) q \<in> gamma s' \<and> (r \<noteq> None \<longleftrightarrow> rep)"
    and potential: "traits_ok T \<Longrightarrow> inv s \<Longrightarrow> q \<in> gamma s \<Longrightarrow> getTag T (aa_upper E aa) \<noteq> - 1 \<Longrightarrow>
      \<exists>s' r. sa_potential An s aa ls rep = Some (s', r) \<and> inv s' \<and> q \<in> gamma s' \<and>
        (\<forall>x. in_range (getTag T (aa_lower E aa)) (getTag T (aa_upper E aa)) x \<longrightarrow> acc x q \<in> gamma s') \<and>
        (r \<noteq> None \<longleftrightarrow> rep)"
    and join: "traits_ok T \<Longrightarrow> inv x \<Longrightarrow> inv y \<Longrightarrow> inv (sa_join An x y)"
      "traits_ok T \<Longrightarrow> inv x \<Longrightarrow> inv y \<Longrightarrow> gamma x \<union> gamma y \<subseteq> gamma (sa_join An x y)"
    and lessequal: "traits_ok T \<Longrightarrow> inv x \<Longrightarrow> inv y \<Longrightarrow> sa_lessequal An x y \<Longrightarrow> gamma x \<subseteq> gamma y"
    and scopes: "traits_ok T \<Longrightarrow> inv s \<Longrightarrow> inv (sa_enter An sc s)"
      "traits_ok T \<Longrightarrow> inv s \<Longrightarrow> inv (sa_leave An sc s)"
      "traits_ok T \<Longrightarrow> inv s \<Longrightarrow> q \<in> gamma s \<Longrightarrow> ent sc q \<in> gamma (sa_enter An sc s)"
      "traits_ok T \<Longrightarrow> inv s \<Longrightarrow> q \<in> gamma s \<Longrightarrow> lea sc q \<in> gamma (sa_leave An sc s)"
begin

text \<open>An access that is classified first, and assumed to be what the classification says.\<close>

lemma classify_update:
  assumes "traits_ok T" "inv s" "q \<in> gamma s"
  shows "\<exists>c s' r. sa_classify An s (aa_of_address a) = Some c \<and>
    sa_update An s (aa_of_address a) ls None rep c = Some (s', r) \<and> inv s' \<and> acc (getTag T a) q \<in> gamma s'"
proof -
  obtain c where c: "sa_classify An s (aa_of_address a) = Some c" "plain_class c"
      "c = CL_HIT \<longrightarrow> hit q (getTag T a)"
    using classify [OF assms] by blast
  have "must_assumes_hit T c \<Longrightarrow> hit q (getTag T a)" "c \<noteq> CL_BOT"
    using c(2,3) by (auto simp: plain_class_def must_assumes_hit_def)
  from update [OF assms this] show ?thesis using c(1) by blast
qed

text \<open>Along any sequence of accesses nothing fails and every classification is justified.\<close>

lemma run_accesses_sound:
  "traits_ok T \<Longrightarrow> inv s \<Longrightarrow> q \<in> gamma s \<Longrightarrow>
     \<exists>cs s'. sa_run An as s = Some (cs, s') \<and> inv s' \<and> fold (\<lambda>a. acc (getTag T a)) as q \<in> gamma s' \<and>
       justified T E as cs (run_hits T acc hit as q)"
proof (induction as arbitrary: s q)
  case Nil
  then show ?case by simp
next
  case (Cons a as)
  obtain c s' r where step: "sa_classify An s (aa_of_address a) = Some c"
    "sa_update An s (aa_of_address a) LOAD None False c = Some (s', r)" "inv s'" "acc (getTag T a) q \<in> gamma s'"
    using classify_update [OF Cons.prems] by blast
  obtain c' where "sa_classify An s (aa_of_address a) = Some c'"
      "(c' = CL_HIT \<longrightarrow> hit q (getTag T a)) \<and>
       (c' = CL_MISS \<and> CNN T E (getindex T a) (getTag T a) = 0 \<longrightarrow> \<not> hit q (getTag T a))"
    using classify [OF Cons.prems] by blast
  moreover obtain cs s'' where "sa_run An as s' = Some (cs, s'')" "inv s''"
    "fold (\<lambda>a. acc (getTag T a)) as (acc (getTag T a) q) \<in> gamma s''"
    "justified T E as cs (run_hits T acc hit as (acc (getTag T a) q))"
    using Cons.IH [OF Cons.prems(1) step(3,4)] by blast
  ultimately show ?case using step by simp
qed

end

section \<open>The must and the may analysis keep it\<close>

text \<open>The sets a cache set analysis may start with: any, or the empty one.\<close>

definition lru_start :: "nat \<Rightarrow> bool \<Rightarrow> lru_set set" where
  "lru_start A assumeAnEmptyCache = {q. lru_wf A q \<and> (assumeAnEmptyCache \<longrightarrow> q = [])}"

lemma traits_ok_assoc: "traits_ok T \<Longrightarrow> 0 < ASSOCIATIVITY T \<and> ASSOCIATIVITY T \<le> 255"
  by (simp add: traits_ok_def)

lemma must_classify_contract:
  assumes "must_wf (ASSOCIATIVITY T) s" "q \<in> must_gamma (ASSOCIATIVITY T) s"
  shows "\<exists>c. must_classify T E s (aa_of_address a) = Some c \<and> plain_class c \<and>
    (c = CL_HIT \<longrightarrow> getTag T a \<in> set q) \<and>
    (c = CL_MISS \<and> CNN T E (getindex T a) (getTag T a) = 0 \<longrightarrow> getTag T a \<notin> set q)"
  using must_classify_hit [OF assms(2)] must_classify_miss [OF assms]
  by (auto simp: must_classify_def plain_class_def must_classify_tag_def split: option.splits)

lemma must_update_contract:
  assumes "traits_ok T" "must_wf (ASSOCIATIVITY T) s" "q \<in> must_gamma (ASSOCIATIVITY T) s"
    and "must_assumes_hit T c \<Longrightarrow> getTag T a \<in> set q"
  shows "\<exists>s' r. must_update T E s (aa_of_address a) ls rep c = Some (s', r) \<and>
    must_wf (ASSOCIATIVITY T) s' \<and> lru_access (ASSOCIATIVITY T) (getTag T a) q \<in> must_gamma (ASSOCIATIVITY T) s' \<and>
    (r \<noteq> None \<longleftrightarrow> rep)"
  using must_update_gamma [OF assms(2) _ _ assms(3,4)] traits_ok_assoc [OF assms(1)]
    must_update_Some [OF aa_getTag_of_address [of T E a], of c s]
  by fastforce

lemma must_potential_contract:
  assumes "traits_ok T" "must_wf (ASSOCIATIVITY T) s" "q \<in> must_gamma (ASSOCIATIVITY T) s"
  shows "\<exists>s' r. Some (must_potential_update T s aa ls rep) = Some (s', r) \<and>
    must_wf (ASSOCIATIVITY T) s' \<and> q \<in> must_gamma (ASSOCIATIVITY T) s' \<and>
    (\<forall>x. in_range l h x \<longrightarrow> lru_access (ASSOCIATIVITY T) x q \<in> must_gamma (ASSOCIATIVITY T) s') \<and>
    (r \<noteq> None \<longleftrightarrow> rep)"
  using must_potential_wf [OF assms(2)] must_potential_gamma [OF assms(2) _ assms(3)] traits_ok_assoc [OF assms(1)]
  by (auto simp: must_potential_update_def split: prod.splits)

interpretation must_set: set_analysis_contract T E "must_analysis T E" "must_wf (ASSOCIATIVITY T)"
  "must_gamma (ASSOCIATIVITY T)" "lru_access (ASSOCIATIVITY T)" "\<lambda>_ q. q" "\<lambda>_ q. q"
  "\<lambda>q t. t \<in> set q" "lru_start (ASSOCIATIVITY T)" for T E
  by unfold_locales
    (use must_classify_contract must_update_contract must_potential_contract must_join_wf must_gamma_join
        must_lessequal_gamma must_init_gamma in
      \<open>auto simp: must_analysis_def must_init_wf lru_start_def\<close>)

lemma may_classify_contract:
  assumes "may_wf (ASSOCIATIVITY T) s" "q \<in> may_gamma (ASSOCIATIVITY T) s"
  shows "\<exists>c. may_classify T E s (aa_of_address a) = Some c \<and> plain_class c \<and>
    (c = CL_HIT \<longrightarrow> getTag T a \<in> set q) \<and>
    (c = CL_MISS \<and> CNN T E (getindex T a) (getTag T a) = 0 \<longrightarrow> getTag T a \<notin> set q)"
proof -
  have "plain_class (may_classify_tag T E s t idx)" for t idx
    by (auto simp: plain_class_def may_classify_tag_def Let_def split: option.splits)
  then show ?thesis
    using may_never_hit may_classify_miss [OF assms(2)] by (auto simp: may_classify_def)
qed

lemma may_update_contract:
  assumes "traits_ok T" "may_wf (ASSOCIATIVITY T) s" "q \<in> may_gamma (ASSOCIATIVITY T) s"
  shows "\<exists>s' r. may_update T E s (aa_of_address a) ls rep c = Some (s', r) \<and>
    may_wf (ASSOCIATIVITY T) s' \<and> lru_access (ASSOCIATIVITY T) (getTag T a) q \<in> may_gamma (ASSOCIATIVITY T) s' \<and>
    (r \<noteq> None \<longleftrightarrow> rep)"
proof -
  have A: "0 < ASSOCIATIVITY T" "ASSOCIATIVITY T \<le> 255" using traits_ok_assoc [OF assms(1)] by simp_all
  obtain m' ev j where upd: "may_update_entries (ASSOCIATIVITY T) (getTag T a) s = (m', ev, j)"
    by (cases "may_update_entries (ASSOCIATIVITY T) (getTag T a) s") auto
  then show ?thesis
    using may_update_entries_refines(1) [OF assms(2) A upd] may_update_gamma [OF assms(2) A assms(3) upd]
    by (simp add: may_update_def)
qed

lemma may_potential_contract:
  assumes "traits_ok T" "may_wf (ASSOCIATIVITY T) s" "q \<in> may_gamma (ASSOCIATIVITY T) s"
    and "getTag T (aa_upper E aa) \<noteq> - 1"
  shows "\<exists>s' r. may_potential_update T E s aa ls rep = Some (s', r) \<and>
    may_wf (ASSOCIATIVITY T) s' \<and> q \<in> may_gamma (ASSOCIATIVITY T) s' \<and>
    (\<forall>x. in_range (getTag T (aa_lower E aa)) (getTag T (aa_upper E aa)) x \<longrightarrow>
      lru_access (ASSOCIATIVITY T) x q \<in> may_gamma (ASSOCIATIVITY T) s') \<and> (r \<noteq> None \<longleftrightarrow> rep)"
proof -
  have A: "0 < ASSOCIATIVITY T" using traits_ok_assoc [OF assms(1)] by simp
  obtain m' intro where m':
    "may_potential_update T E s aa ls rep = Some (m', if rep then Some (MayReport {} False intro) else None)"
    "may_wf (ASSOCIATIVITY T) m'" "\<And>t. getMinAge m' t \<le> getMinAge s t"
    "\<And>t. in_range (getTag T (aa_lower E aa)) (getTag T (aa_upper E aa)) t \<Longrightarrow> getMinAge m' t = 0"
    using may_potential_spec [OF assms(2,4) A] by metis
  then show ?thesis
    using may_gamma_mono [OF assms(3) m'(3)] may_potential_gamma [OF assms(3) m'(3) m'(4)] by auto
qed

lemma may_lessequal_gamma:
  assumes "may_wf A x" "may_wf A y" "may_lessequal x y"
  shows "may_gamma A x \<subseteq> may_gamma A y"
  using assms(3) may_gamma_mono unfolding may_lessequal_pointwise [OF assms(1,2)] by blast

interpretation may_set: set_analysis_contract T E "may_analysis T E" "may_wf (ASSOCIATIVITY T)"
  "may_gamma (ASSOCIATIVITY T)" "lru_access (ASSOCIATIVITY T)" "\<lambda>_ q. q" "\<lambda>_ q. q"
  "\<lambda>q t. t \<in> set q" "lru_start (ASSOCIATIVITY T)" for T E
  by unfold_locales
    (use may_classify_contract may_update_contract may_potential_contract may_join_spec(1) may_gamma_join
        may_lessequal_gamma may_init_gamma in
      \<open>auto simp: may_analysis_def may_init_wf lru_start_def\<close>)

end
