(* ===== verification/TA_Compositional.thy ===== *)
theory TA_Compositional
  imports TA_Set_Analysis
begin

text \<open>
  \<open>CompositionalAbstractCache<A1, A2>\<close> (\<open>include/Memory/CompositionalAbstractCache.h\<close>): two set
  analyses run side by side.  An update without an assumption first classifies the access and
  hands the result to both as an assumption.  The preprocessor branch is the default one
  (\<open>NO_REDUCTIONS\<close> not defined).  The composition of two sound analyses of the same machine keeps the contract of
  \<open>TA_Set_Analysis\<close>; the instance used for instruction and data caches is must with may.
\<close>

type_synonym ('s, 't) comp_state = "'s \<times> 't"

definition comp_classify ::
  "('s, 'd) set_analysis \<Rightarrow> ('t, 'e) set_analysis \<Rightarrow> 's \<times> 't \<Rightarrow> abs_address \<Rightarrow> classification option" where
  "comp_classify A1 A2 s aa =
     (case sa_classify A1 (fst s) aa of None \<Rightarrow> None
      | Some cl \<Rightarrow> if cl \<noteq> CL_UNKNOWN then Some cl else sa_classify A2 (snd s) aa)"

text \<open>The age of the second analysis is computed and not used; only its assertion could matter.\<close>

definition comp_get_age ::
  "('s, 'd) set_analysis \<Rightarrow> ('t, 'e) set_analysis \<Rightarrow> 's \<times> 't \<Rightarrow> abs_address \<Rightarrow> int option" where
  "comp_get_age A1 A2 s aa =
     (case (sa_get_age A1 (fst s) aa, sa_get_age A2 (snd s) aa) of
        (Some age1, Some age2) \<Rightarrow> Some age1 | _ \<Rightarrow> None)"

text \<open>
  The report of the first analysis if it is joinable, joined with the second one if that is; a
  plain report otherwise.  Without a request the two reports must be null.
\<close>

definition comp_report ::
  "bool \<Rightarrow> update_report option \<Rightarrow> update_report option \<Rightarrow> update_report option option" where
  "comp_report wantReport r1 r2 =
     (if \<not> wantReport then (if r1 = None \<and> r2 = None then Some None else None)
      else Some (Some (case as_joinable r1 of None \<Rightarrow> PlainReport
                       | Some j \<Rightarrow> wb_join j (as_joinable r2))))"

definition comp_update ::
  "('s, 'd) set_analysis \<Rightarrow> ('t, 'e) set_analysis \<Rightarrow> 's \<times> 't \<Rightarrow> abs_address \<Rightarrow> access_type \<Rightarrow>
     ('d option \<times> 'e option) option \<Rightarrow> bool \<Rightarrow> classification \<Rightarrow>
     (('s \<times> 't) \<times> update_report option) option" where
  "comp_update A1 A2 s aa ls deps wantReport assumption =
     (case (if assumption = CL_UNKNOWN then comp_classify A1 A2 s aa else Some assumption) of
        None \<Rightarrow> None
      | Some cl \<Rightarrow>
          if cl = CL_BOT then None
          else
            let deps1 = (case deps of None \<Rightarrow> None | Some d \<Rightarrow> fst d);
                deps2 = (case deps of None \<Rightarrow> None | Some d \<Rightarrow> snd d)
            in (case (sa_update A1 (fst s) aa ls deps1 wantReport cl,
                      sa_update A2 (snd s) aa ls deps2 wantReport cl) of
                  (Some (s1, r1), Some (s2, r2)) \<Rightarrow>
                     map_option (\<lambda>r. ((s1, s2), r)) (comp_report wantReport r1 r2)
                | _ \<Rightarrow> None))"

definition comp_potential ::
  "('s, 'd) set_analysis \<Rightarrow> ('t, 'e) set_analysis \<Rightarrow> 's \<times> 't \<Rightarrow> abs_address \<Rightarrow> access_type \<Rightarrow> bool \<Rightarrow>
     (('s \<times> 't) \<times> update_report option) option" where
  "comp_potential A1 A2 s aa ls wantReport =
     (case (sa_potential A1 (fst s) aa ls wantReport, sa_potential A2 (snd s) aa ls wantReport) of
        (Some (s1, r1), Some (s2, r2)) \<Rightarrow>
           map_option (\<lambda>r. ((s1, s2), r)) (comp_report wantReport r1 r2)
      | _ \<Rightarrow> None)"

definition comp_less ::
  "('s, 'd) set_analysis \<Rightarrow> ('t, 'e) set_analysis \<Rightarrow> 's \<times> 't \<Rightarrow> 's \<times> 't \<Rightarrow> bool" where
  "comp_less A1 A2 x y =
     (if sa_less A1 (fst x) (fst y) then True
      else if sa_less A1 (fst y) (fst x) then False
      else sa_less A2 (snd x) (snd y))"

definition compositional ::
  "('s, 'd) set_analysis \<Rightarrow> ('t, 'e) set_analysis \<Rightarrow> ('s \<times> 't, 'd option \<times> 'e option) set_analysis" where
  "compositional A1 A2 =
     \<lparr>sa_init = (\<lambda>b. (sa_init A1 b, sa_init A2 b)),
      sa_classify = comp_classify A1 A2, sa_get_age = comp_get_age A1 A2,
      sa_css_tag = (\<lambda>s. sa_css_tag A2 (snd s)), sa_css_var = (\<lambda>s. sa_css_var A2 (snd s)),
      sa_update = comp_update A1 A2, sa_potential = comp_potential A1 A2,
      sa_join = (\<lambda>x y. (sa_join A1 (fst x) (fst y), sa_join A2 (snd x) (snd y))),
      sa_lessequal = (\<lambda>x y. sa_lessequal A1 (fst x) (fst y) \<and> sa_lessequal A2 (snd x) (snd y)),
      sa_enter = (\<lambda>sc s. (sa_enter A1 sc (fst s), sa_enter A2 sc (snd s))),
      sa_leave = (\<lambda>sc s. (sa_leave A1 sc (fst s), sa_leave A2 sc (snd s))),
      sa_pers_tag = (\<lambda>s t. sa_pers_tag A1 (fst s) t \<union> sa_pers_tag A2 (snd s) t),
      sa_pers_var = (\<lambda>s v. sa_pers_var A1 (fst s) v \<union> sa_pers_var A2 (snd s) v),
      sa_eq = (\<lambda>x y. sa_eq A1 (fst x) (fst y) \<and> sa_eq A2 (snd x) (snd y)),
      sa_less = comp_less A1 A2\<rparr>"

section \<open>The composition keeps the contract\<close>

lemma comp_report_total:
  "(r1 \<noteq> None) = rep \<Longrightarrow> (r2 \<noteq> None) = rep \<Longrightarrow> \<exists>r. comp_report rep r1 r2 = Some r \<and> (r \<noteq> None) = rep"
  by (auto simp: comp_report_def)

definition comp_gamma :: "('s \<Rightarrow> 'q set) \<Rightarrow> ('t \<Rightarrow> 'q set) \<Rightarrow> 's \<times> 't \<Rightarrow> 'q set" where
  "comp_gamma g1 g2 s = g1 (fst s) \<inter> g2 (snd s)"

text \<open>Two analyses of the same machine: the interface of the composition.\<close>

locale two_analyses =
  first: set_analysis_contract T E A1 inv1 gamma1 acc ent lea hit start +
  second: set_analysis_contract T E A2 inv2 gamma2 acc ent lea hit start
  for T :: cache_traits and E :: ana_env and A1 :: "('s, 'd) set_analysis" and inv1 :: "'s \<Rightarrow> bool"
    and gamma1 :: "'s \<Rightarrow> 'q set" and acc :: "tag \<Rightarrow> 'q \<Rightarrow> 'q" and ent :: "scope \<Rightarrow> 'q \<Rightarrow> 'q"
    and lea :: "scope \<Rightarrow> 'q \<Rightarrow> 'q" and hit :: "'q \<Rightarrow> tag \<Rightarrow> bool" and start :: "bool \<Rightarrow> 'q set"
    and A2 :: "('t, 'e) set_analysis" and inv2 :: "'t \<Rightarrow> bool" and gamma2 :: "'t \<Rightarrow> 'q set"
begin

abbreviation cinv :: "'s \<times> 't \<Rightarrow> bool" where
  "cinv s \<equiv> inv1 (fst s) \<and> inv2 (snd s)"

lemma comp_classify_sound:
  assumes "traits_ok T" "cinv s" "q \<in> comp_gamma gamma1 gamma2 s"
  shows "\<exists>c. comp_classify A1 A2 s (aa_of_address a) = Some c \<and> plain_class c \<and>
    (c = CL_HIT \<longrightarrow> hit q (getTag T a)) \<and>
    (c = CL_MISS \<and> CNN T E (getindex T a) (getTag T a) = 0 \<longrightarrow> \<not> hit q (getTag T a))"
proof -
  have q: "q \<in> gamma1 (fst s)" "q \<in> gamma2 (snd s)" using assms(3) by (auto simp: comp_gamma_def)
  obtain c1 where c1: "sa_classify A1 (fst s) (aa_of_address a) = Some c1" "plain_class c1 \<and>
      (c1 = CL_HIT \<longrightarrow> hit q (getTag T a)) \<and>
      (c1 = CL_MISS \<and> CNN T E (getindex T a) (getTag T a) = 0 \<longrightarrow> \<not> hit q (getTag T a))"
    using first.classify [OF assms(1) _ q(1)] assms(2) by blast
  obtain c2 where c2: "sa_classify A2 (snd s) (aa_of_address a) = Some c2" "plain_class c2 \<and>
      (c2 = CL_HIT \<longrightarrow> hit q (getTag T a)) \<and>
      (c2 = CL_MISS \<and> CNN T E (getindex T a) (getTag T a) = 0 \<longrightarrow> \<not> hit q (getTag T a))"
    using second.classify [OF assms(1) _ q(2)] assms(2) by blast
  show ?thesis
  proof (cases "c1 = CL_UNKNOWN")
    case True
    then show ?thesis using c1(1) c2 by (simp add: comp_classify_def)
  next
    case False
    then show ?thesis using c1 by (simp add: comp_classify_def)
  qed
qed

lemma comp_update_sound:
  assumes "traits_ok T" "cinv s" "q \<in> comp_gamma gamma1 gamma2 s"
    and "must_assumes_hit T c \<Longrightarrow> hit q (getTag T a)" and "c \<noteq> CL_BOT"
  shows "\<exists>s' r. comp_update A1 A2 s (aa_of_address a) ls None rep c = Some (s', r) \<and> cinv s' \<and>
    acc (getTag T a) q \<in> comp_gamma gamma1 gamma2 s' \<and> (r \<noteq> None \<longleftrightarrow> rep)"
proof -
  have q: "q \<in> gamma1 (fst s)" "q \<in> gamma2 (snd s)" using assms(3) by (auto simp: comp_gamma_def)
  obtain cl where cl: "(if c = CL_UNKNOWN then comp_classify A1 A2 s (aa_of_address a) else Some c) = Some cl"
    and just: "must_assumes_hit T cl \<Longrightarrow> hit q (getTag T a)" "cl \<noteq> CL_BOT"
  proof (cases "c = CL_UNKNOWN")
    case True
    obtain c' where "comp_classify A1 A2 s (aa_of_address a) = Some c'" "plain_class c'"
      "c' = CL_HIT \<longrightarrow> hit q (getTag T a)"
      using comp_classify_sound [OF assms(1-3)] by blast
    then show thesis using True that [of c'] by (auto simp: plain_class_def must_assumes_hit_def)
  next
    case False
    then show thesis using that [of c] assms(4,5) by simp
  qed
  obtain s1 r1 where u1: "sa_update A1 (fst s) (aa_of_address a) ls None rep cl = Some (s1, r1)"
    "inv1 s1" "acc (getTag T a) q \<in> gamma1 s1" "(r1 \<noteq> None) = rep"
    using first.update [OF assms(1) _ q(1) just] assms(2) by blast
  obtain s2 r2 where u2: "sa_update A2 (snd s) (aa_of_address a) ls None rep cl = Some (s2, r2)"
    "inv2 s2" "acc (getTag T a) q \<in> gamma2 s2" "(r2 \<noteq> None) = rep"
    using second.update [OF assms(1) _ q(2) just] assms(2) by blast
  obtain r where "comp_report rep r1 r2 = Some r" "(r \<noteq> None) = rep"
    using comp_report_total [OF u1(4) u2(4)] by blast
  then show ?thesis
    using cl just(2) u1 u2 by (simp add: comp_update_def comp_gamma_def)
qed

lemma comp_potential_sound:
  assumes "traits_ok T" "cinv s" "q \<in> comp_gamma gamma1 gamma2 s" "getTag T (aa_upper E aa) \<noteq> - 1"
  shows "\<exists>s' r. comp_potential A1 A2 s aa ls rep = Some (s', r) \<and> cinv s' \<and> q \<in> comp_gamma gamma1 gamma2 s' \<and>
    (\<forall>x. in_range (getTag T (aa_lower E aa)) (getTag T (aa_upper E aa)) x \<longrightarrow>
      acc x q \<in> comp_gamma gamma1 gamma2 s') \<and> (r \<noteq> None \<longleftrightarrow> rep)"
proof -
  have q: "q \<in> gamma1 (fst s)" "q \<in> gamma2 (snd s)" using assms(3) by (auto simp: comp_gamma_def)
  obtain s1 r1 where u1: "sa_potential A1 (fst s) aa ls rep = Some (s1, r1)" "inv1 s1" "q \<in> gamma1 s1"
    "\<forall>x. in_range (getTag T (aa_lower E aa)) (getTag T (aa_upper E aa)) x \<longrightarrow> acc x q \<in> gamma1 s1" "(r1 \<noteq> None) = rep"
    using first.potential [OF assms(1) _ q(1) assms(4)] assms(2) by blast
  obtain s2 r2 where u2: "sa_potential A2 (snd s) aa ls rep = Some (s2, r2)" "inv2 s2" "q \<in> gamma2 s2"
    "\<forall>x. in_range (getTag T (aa_lower E aa)) (getTag T (aa_upper E aa)) x \<longrightarrow> acc x q \<in> gamma2 s2" "(r2 \<noteq> None) = rep"
    using second.potential [OF assms(1) _ q(2) assms(4)] assms(2) by blast
  obtain r where "comp_report rep r1 r2 = Some r" "(r \<noteq> None) = rep"
    using comp_report_total [OF u1(5) u2(5)] by blast
  then show ?thesis using u1 u2 by (simp add: comp_potential_def comp_gamma_def)
qed

lemma comp_join_sound:
  assumes "traits_ok T" "cinv x" "cinv y"
  shows "comp_gamma gamma1 gamma2 x \<union> comp_gamma gamma1 gamma2 y \<subseteq>
    comp_gamma gamma1 gamma2 (sa_join A1 (fst x) (fst y), sa_join A2 (snd x) (snd y))"
  using first.join(2) [OF assms(1), of "fst x" "fst y"] second.join(2) [OF assms(1), of "snd x" "snd y"] assms(2,3)
  by (auto simp: comp_gamma_def)

lemma comp_lessequal_sound:
  assumes "traits_ok T" "cinv x" "cinv y" "sa_lessequal A1 (fst x) (fst y)" "sa_lessequal A2 (snd x) (snd y)"
  shows "comp_gamma gamma1 gamma2 x \<subseteq> comp_gamma gamma1 gamma2 y"
proof -
  have "gamma1 (fst x) \<subseteq> gamma1 (fst y)" "gamma2 (snd x) \<subseteq> gamma2 (snd y)"
    using assms first.lessequal second.lessequal by simp_all
  then show ?thesis by (auto simp: comp_gamma_def)
qed

end

sublocale two_analyses \<subseteq> comp: set_analysis_contract T E "compositional A1 A2" cinv
  "comp_gamma gamma1 gamma2" acc ent lea hit start
proof unfold_locales
  fix s q c a ls rep
  assume "traits_ok T" "cinv s" "q \<in> comp_gamma gamma1 gamma2 s"
  then show "\<exists>c. sa_classify (compositional A1 A2) s (aa_of_address a) = Some c \<and> plain_class c \<and>
      (c = CL_HIT \<longrightarrow> hit q (getTag T a)) \<and>
      (c = CL_MISS \<and> CNN T E (getindex T a) (getTag T a) = 0 \<longrightarrow> \<not> hit q (getTag T a))"
    using comp_classify_sound by (simp add: compositional_def)
next
  fix x y
  assume "traits_ok T" "cinv x" "cinv y" "sa_lessequal (compositional A1 A2) x y"
  then show "comp_gamma gamma1 gamma2 x \<subseteq> comp_gamma gamma1 gamma2 y"
    using comp_lessequal_sound by (simp add: compositional_def)
qed (use comp_update_sound comp_potential_sound comp_join_sound first.init second.init first.join(1) second.join(1)
    first.scopes second.scopes in
    \<open>auto simp: compositional_def comp_gamma_def\<close>)

interpretation must_may: two_analyses T E "must_analysis T E" "must_wf (ASSOCIATIVITY T)"
  "must_gamma (ASSOCIATIVITY T)" "lru_access (ASSOCIATIVITY T)" "\<lambda>_ q. q" "\<lambda>_ q. q"
  "\<lambda>q t. t \<in> set q" "lru_start (ASSOCIATIVITY T)" "may_analysis T E" "may_wf (ASSOCIATIVITY T)"
  "may_gamma (ASSOCIATIVITY T)" for T E
  by unfold_locales

text \<open>
  The composition of must and may analysis: starting from a state for all cache sets, or for the
  empty one, no sequence of accesses makes an assertion fail, every access classified as a hit hits,
  and every access classified as a miss, with no conflicting lines counted, misses.
\<close>

theorem must_may_run_sound:
  assumes "traits_ok T" and "q \<in> lru_start (ASSOCIATIVITY T) b"
  shows "\<exists>cs s'. sa_run (compositional (must_analysis T E) (may_analysis T E)) as
      (sa_init (compositional (must_analysis T E) (may_analysis T E)) b) = Some (cs, s') \<and>
    justified T E as cs (run_hits T (lru_access (ASSOCIATIVITY T)) (\<lambda>q t. t \<in> set q) as q)"
  using must_may.comp.run_accesses_sound [OF assms(1) must_may.comp.init(1) [OF assms(1)]
      subsetD [OF must_may.comp.init(2) [OF assms(1)] assms(2)], of E as] assms(1) by blast

theorem must_may_run_sound_witness:
  "\<exists>cs s'. sa_run (compositional (must_analysis ex_traits ex_env) (may_analysis ex_traits ex_env))
      [0x20, 0x40, 0x20] (sa_init (compositional (must_analysis ex_traits ex_env) (may_analysis ex_traits ex_env)) True) =
      Some (cs, s') \<and>
    justified ex_traits ex_env [0x20, 0x40, 0x20] cs
      (run_hits ex_traits (lru_access 4) (\<lambda>q t. t \<in> set q) [0x20, 0x40, 0x20] [])"
proof -
  have "[] \<in> lru_start (ASSOCIATIVITY ex_traits) True" by (simp add: lru_start_def lru_wf_def)
  from must_may_run_sound [OF ex_traits_ok this, of ex_env "[0x20, 0x40, 0x20]"] show ?thesis by simp
qed

end
