(* ===== verification/TA_Shared_Storage.thy ===== *)
theory TA_Shared_Storage
  imports TA_May_Sound
begin

text \<open>
  \<open>util::SharedStorage<T>\<close> (\<open>include/Util/SharedStorage.h\<close>): hash-consing of cache set states.  The
  heap is a list, a pointer a position in it; the \<open>std::set\<close> of pointers, ordered by the
  \<open>operator<\<close> of what they point to, is the list of the pointers it holds.  \<open>insert\<close> allocates a
  copy, looks for a pointer to an equivalent object and, if there is one, frees the copy (its cell
  is not used again here).  The reference count only governs when the storage is destroyed.

  If \<open>operator<\<close> is a strict total order, equal pointers mean equal objects and a pointer
  stays valid; that is why \<open>AbstractCacheImpl\<close> may compare its sets by pointer, and why
  \<open>TA_Abstract_Cache\<close> may store the objects themselves.
\<close>

record 's storage =
  st_heap :: "'s list"
  st_ptrs :: "nat list"

definition DereferenceLess :: "('s \<Rightarrow> 's \<Rightarrow> bool) \<Rightarrow> 's storage \<Rightarrow> nat \<Rightarrow> nat \<Rightarrow> bool" where
  "DereferenceLess lt st p1 p2 = lt (st_heap st ! p1) (st_heap st ! p2)"

definition st_empty :: "'s storage" where
  "st_empty = \<lparr>st_heap = [], st_ptrs = []\<rparr>"

definition st_insert :: "('s \<Rightarrow> 's \<Rightarrow> bool) \<Rightarrow> 's storage \<Rightarrow> 's \<Rightarrow> 's storage \<times> nat" where
  "st_insert lt st x =
     (let ptr = length (st_heap st); st1 = st\<lparr>st_heap := st_heap st @ [x]\<rparr> in
      case List.find (\<lambda>p. \<not> DereferenceLess lt st1 p ptr \<and> \<not> DereferenceLess lt st1 ptr p) (st_ptrs st) of
        Some p \<Rightarrow> (st1, p)
      | None \<Rightarrow> (st1\<lparr>st_ptrs := ptr # st_ptrs st\<rparr>, ptr))"

definition st_deref :: "'s storage \<Rightarrow> nat \<Rightarrow> 's" where
  "st_deref st p = st_heap st ! p"

text \<open>Every pointer of the set is allocated, and no two of them point to the same object.\<close>

definition st_wf :: "'s storage \<Rightarrow> bool" where
  "st_wf st \<longleftrightarrow> (\<forall>p \<in> set (st_ptrs st). p < length (st_heap st)) \<and>
     inj_on (st_deref st) (set (st_ptrs st))"

text \<open>The order of the elements: what \<open>std::set\<close> needs and the cache set analyses provide.\<close>

locale strict_total_order =
  fixes lt :: "'s \<Rightarrow> 's \<Rightarrow> bool"
  assumes irrefl: "\<not> lt x x"
    and trans: "lt x y \<Longrightarrow> lt y z \<Longrightarrow> lt x z"
    and total: "lt x y \<or> x = y \<or> lt y x"
begin

lemma equivalent_iff: "\<not> lt x y \<and> \<not> lt y x \<longleftrightarrow> x = y"
  using irrefl total by blast

lemma insert_spec:
  assumes "st_wf st" and "st_insert lt st x = (st', p)"
  shows "st_wf st'" and "st_deref st' p = x" and "p \<in> set (st_ptrs st')"
    and "\<And>r. r \<in> set (st_ptrs st) \<Longrightarrow> r \<in> set (st_ptrs st') \<and> st_deref st' r = st_deref st r"
proof -
  have alloc: "\<And>r. r \<in> set (st_ptrs st) \<Longrightarrow> r < length (st_heap st)"
    using assms(1) by (simp add: st_wf_def)
  then have old: "\<And>r. r \<in> set (st_ptrs st) \<Longrightarrow> (st_heap st @ [x]) ! r = st_deref st r"
    by (simp add: st_deref_def nth_append)
  have inj: "inj_on (st_deref st) (set (st_ptrs st))" using assms(1) by (simp add: st_wf_def)
  let ?P = "\<lambda>r. (st_heap st @ [x]) ! r = x"
  have ins: "st_insert lt st x = (case List.find ?P (st_ptrs st) of
      Some r \<Rightarrow> (st\<lparr>st_heap := st_heap st @ [x]\<rparr>, r)
    | None \<Rightarrow> (st\<lparr>st_heap := st_heap st @ [x], st_ptrs := length (st_heap st) # st_ptrs st\<rparr>, length (st_heap st)))"
    by (simp add: st_insert_def DereferenceLess_def equivalent_iff Let_def nth_append)
  have "st_wf st' \<and> st_deref st' p = x \<and> p \<in> set (st_ptrs st') \<and>
    (\<forall>r \<in> set (st_ptrs st). r \<in> set (st_ptrs st') \<and> st_deref st' r = st_deref st r)"
  proof (cases "List.find ?P (st_ptrs st)")
    case (Some r)
    then have r: "r \<in> set (st_ptrs st)" "?P r" by (auto simp: find_Some_iff)
    have "st' = st\<lparr>st_heap := st_heap st @ [x]\<rparr>" "p = r" using ins Some assms(2) by simp_all
    moreover have "inj_on ((!) (st_heap st @ [x])) (set (st_ptrs st))"
      using inj by (simp add: inj_on_def old)
    ultimately show ?thesis
      using r alloc old by (auto simp: st_wf_def st_deref_def [abs_def] less_SucI)
  next
    case None
    then have fresh: "\<And>r. r \<in> set (st_ptrs st) \<Longrightarrow> st_deref st r \<noteq> x"
      using old by (auto simp: find_None_iff)
    have st': "st' = st\<lparr>st_heap := st_heap st @ [x], st_ptrs := length (st_heap st) # st_ptrs st\<rparr>"
      "p = length (st_heap st)" using ins None assms(2) by simp_all
    have "inj_on ((!) (st_heap st @ [x])) (insert (length (st_heap st)) (set (st_ptrs st)))"
      using inj fresh by (auto simp: inj_on_def old)
    then show ?thesis
      using st' alloc old by (auto simp: st_wf_def st_deref_def [abs_def] less_SucI)
  qed
  then show "st_wf st'" "st_deref st' p = x" "p \<in> set (st_ptrs st')"
    "\<And>r. r \<in> set (st_ptrs st) \<Longrightarrow> r \<in> set (st_ptrs st') \<and> st_deref st' r = st_deref st r"
    by blast+
qed

text \<open>Pointers of the storage are equal exactly if the objects are.\<close>

lemma pointer_eq_iff:
  "st_wf st \<Longrightarrow> p \<in> set (st_ptrs st) \<Longrightarrow> r \<in> set (st_ptrs st) \<Longrightarrow> p = r \<longleftrightarrow> st_deref st p = st_deref st r"
  unfolding st_wf_def by (meson inj_on_eq_iff)

end

interpretation must_order: strict_total_order must_less
  using must_less_laws by unfold_locales blast+

interpretation may_order: strict_total_order may_less
proof unfold_locales
  fix x y z :: may_state
  show "\<not> may_less x x" using entry_vector_less_laws(1) by (auto simp: may_less_def)
  show "may_less x y \<Longrightarrow> may_less y z \<Longrightarrow> may_less x z"
    using entry_vector_less_laws(2) unfolding may_less_def by (metis less_trans)
  show "may_less x y \<or> x = y \<or> may_less y x"
    using entry_vector_less_laws(3) [of "explicitTags x" "explicitTags y"] unfolding may_less_def by auto
qed

text \<open>
  Inserting a must state into the shared storage gives a pointer to an equal state, leaves the
  pointers handed out before valid, and two pointers are equal exactly if their states are.
\<close>

theorem storage_insert_must:
  assumes "st_wf st" and "st_insert must_less st x = (st', p)"
  shows "st_wf st' \<and> st_deref st' p = x \<and>
    (\<forall>r \<in> set (st_ptrs st). st_deref st' r = st_deref st r \<and> (p = r \<longleftrightarrow> x = st_deref st r))"
proof -
  note ins = must_order.insert_spec [OF assms]
  show ?thesis
    using ins must_order.pointer_eq_iff [OF ins(1,3)] by metis
qed

theorem storage_insert_must_witness:
  "st_deref (fst (st_insert must_less st_empty ex_must)) (snd (st_insert must_less st_empty ex_must)) = ex_must"
proof -
  have "st_wf st_empty" by (simp add: st_wf_def st_empty_def)
  from storage_insert_must [OF this, of ex_must] show ?thesis
    by (cases "st_insert must_less st_empty ex_must") simp
qed

end
