(* ===== verification/TA_Abstract_Cache.thy ===== *)
theory TA_Abstract_Cache
  imports TA_Compositional TA_Shared_Storage
begin

text \<open>
  \<open>AbstractCacheImpl<T, C>\<close> and \<open>TrackLastAccess<T>\<close> (\<open>include/Memory/AbstractCache.h\<close>): a cache as
  a vector of cache set states of an analysis \<open>C\<close>, with the modulo mapping of addresses to sets.

  The pointers of the code into the shared storage are equal exactly if the states are
  (\<open>TA_Shared_Storage\<close>), so the vector holds the states.  The loops over cache lines compare and
  advance unsigned addresses; they need not end, and are \<open>partial_function\<close>s: \<open>None\<close> is a failed
  assertion or a loop that does not end.
\<close>

type_synonym 's cache = "'s list"

section \<open>Address arithmetic of the cache\<close>

definition getTagAndIndex :: "cache_traits \<Rightarrow> address \<Rightarrow> 32 word \<times> 32 word" where
  "getTagAndIndex T addr =
     (let blockNumber = addr div LINE_SIZE T in (blockNumber div N_SETS T, blockNumber mod N_SETS T))"

definition getCacheSet :: "cache_traits \<Rightarrow> address \<Rightarrow> 32 word" where
  "getCacheSet T addr = (addr div LINE_SIZE T) mod N_SETS T"

definition alignToCacheline :: "cache_traits \<Rightarrow> address \<Rightarrow> address" where
  "alignToCacheline T addr = getCachelineAddress T addr"

definition getHitLatency :: "cache_traits \<Rightarrow> nat" where
  "getHitLatency T = LATENCY T"

definition getWritePolicy :: "cache_traits \<Rightarrow> bool \<times> bool" where
  "getWritePolicy T = (WRITEBACK T, WRITEALLOCATE T)"

definition getCacheSetInterval :: "cache_traits \<Rightarrow> address \<Rightarrow> address \<Rightarrow> 32 word \<times> 32 word" where
  "getCacheSetInterval T l u =
     (if u + 4 - l \<ge> N_SETS T * LINE_SIZE T then (0, N_SETS T - 1)
      else (getCacheSet T l, getCacheSet T u))"

lemma getTagAndIndex_eq: "getTagAndIndex T a = (getTag T a, getindex T a)"
  by (simp add: getTagAndIndex_def getTag_def getindex_def Let_def)

lemma getCacheSet_eq: "getCacheSet T a = getindex T a"
  by (simp add: getCacheSet_def getindex_def)

section \<open>Operations of \<open>AbstractCacheImpl\<close>\<close>

definition cache_init :: "cache_traits \<Rightarrow> ('s, 'd) set_analysis \<Rightarrow> bool \<Rightarrow> 's cache" where
  "cache_init T An assumeAnEmptyCache = replicate (unat (N_SETS T)) (sa_init An assumeAnEmptyCache)"

definition cache_set :: "cache_traits \<Rightarrow> 's cache \<Rightarrow> address \<Rightarrow> 's" where
  "cache_set T cs a = cs ! unat (snd (getTagAndIndex T a))"

partial_function (option) classify_loop ::
  "cache_traits \<Rightarrow> ('s, 'd) set_analysis \<Rightarrow> 's cache \<Rightarrow> address \<Rightarrow> address \<Rightarrow> classification \<Rightarrow>
     classification option" where
  "classify_loop T An cs lowAligned upAligned res =
     (if lowAligned \<le> upAligned \<and> res \<noteq> CL_UNKNOWN
      then Option.bind (sa_classify An (cache_set T cs lowAligned) (aa_of_address lowAligned))
             (\<lambda>c. classify_loop T An cs (lowAligned + LINE_SIZE T) upAligned (bs_join res c))
      else Some res)"

definition cache_classify ::
  "cache_traits \<Rightarrow> ana_env \<Rightarrow> ('s, 'd) set_analysis \<Rightarrow> 's cache \<Rightarrow> abs_address \<Rightarrow> classification option" where
  "cache_classify T E An cs addr =
     (if aa_same_interval E addr aa_unknown then Some CL_UNKNOWN
      else classify_loop T An cs (alignToCacheline T (aa_lower E addr))
             (alignToCacheline T (aa_upper E addr)) CL_BOT)"

partial_function (option) get_age_loop ::
  "cache_traits \<Rightarrow> ('s, 'd) set_analysis \<Rightarrow> 's cache \<Rightarrow> address \<Rightarrow> address \<Rightarrow> int \<Rightarrow> int option" where
  "get_age_loop T An cs lowAligned upAligned age =
     (if lowAligned \<le> upAligned \<and> age \<noteq> INT_MAX
      then Option.bind (sa_get_age An (cache_set T cs lowAligned) (aa_of_address lowAligned))
             (\<lambda>a. get_age_loop T An cs (lowAligned + LINE_SIZE T) upAligned (max age a))
      else Some age)"

definition cache_get_age ::
  "cache_traits \<Rightarrow> ana_env \<Rightarrow> ('s, 'd) set_analysis \<Rightarrow> 's cache \<Rightarrow> abs_address \<Rightarrow> int option" where
  "cache_get_age T E An cs addr =
     (if aa_same_interval E addr aa_unknown then Some INT_MAX
      else get_age_loop T An cs (alignToCacheline T (aa_lower E addr))
             (alignToCacheline T (aa_upper E addr)) 0)"

text \<open>
  \<open>updateUnknownSets\<close>: a potential update of every set from \<open>lower\<close> to \<open>upper\<close>.  The report is the
  first joinable one, joined with the others.
\<close>

definition join_set_report ::
  "bool \<Rightarrow> update_report option \<Rightarrow> update_report option \<Rightarrow> update_report option" where
  "join_set_report wantReport report rep =
     (if \<not> wantReport then report
      else let jrep = as_joinable rep in
        case report of None \<Rightarrow> jrep | Some r \<Rightarrow> Some (wb_join r jrep))"

definition potential_step ::
  "('s, 'd) set_analysis \<Rightarrow> abs_address \<Rightarrow> access_type \<Rightarrow> bool \<Rightarrow> nat \<Rightarrow>
     's cache \<times> update_report option \<Rightarrow> ('s cache \<times> update_report option) option" where
  "potential_step An addr ls wantReport i st =
     (case sa_potential An (fst st ! i) addr ls wantReport of
        None \<Rightarrow> None
      | Some (s', rep) \<Rightarrow> Some ((fst st)[i := s'], join_set_report wantReport (snd st) rep))"

definition updateUnknownSets ::
  "('s, 'd) set_analysis \<Rightarrow> nat \<Rightarrow> nat \<Rightarrow> abs_address \<Rightarrow> access_type \<Rightarrow> bool \<Rightarrow> 's cache \<Rightarrow>
     ('s cache \<times> update_report option) option" where
  "updateUnknownSets An lower upper addr ls wantReport cs =
     fold_opt (potential_step An addr ls wantReport) [lower..<Suc upper] (cs, None)"

text \<open>The report of an update over two ranges of sets; both must be null if none is wanted.\<close>

definition join_range_reports ::
  "bool \<Rightarrow> update_report option \<Rightarrow> update_report option \<Rightarrow> update_report option option" where
  "join_range_reports wantReport report report2 =
     (if \<not> wantReport then (if report = None \<and> report2 = None then Some None else None)
      else (case (report, report2) of
              (Some r, Some r2) \<Rightarrow> Some (Some (wb_join r (Some r2)))
            | _ \<Rightarrow> Some (Some PlainReport)))"

definition cache_update ::
  "cache_traits \<Rightarrow> ana_env \<Rightarrow> ('s, 'd) set_analysis \<Rightarrow> 's cache \<Rightarrow> abs_address \<Rightarrow> access_type \<Rightarrow>
     'd option list option \<Rightarrow> bool \<Rightarrow> classification \<Rightarrow> ('s cache \<times> update_report option) option" where
  "cache_update T E An cs addr ls AD wantReport assumption =
     (let l = aa_lower E addr; u = aa_upper E addr in
      if alignToCacheline T l = alignToCacheline T u then
        let i = unat (snd (getTagAndIndex T l)) in
        (case (case AD of None \<Rightarrow> Some None | Some ds \<Rightarrow> if i < length ds then Some (ds ! i) else None) of
           None \<Rightarrow> None
         | Some deps \<Rightarrow>
             (case sa_update An (cs ! i) (aa_of_address (alignToCacheline T l)) ls deps wantReport assumption of
                None \<Rightarrow> None
              | Some (s', report) \<Rightarrow>
                  if report \<noteq> None \<or> \<not> wantReport then Some (cs[i := s'], report) else None))
      else
        let (lower, upper) = getCacheSetInterval T l u in
        if \<not> (N_SETS T = 1 \<or> lower \<noteq> upper) then None
        else if lower \<le> upper then
          (case updateUnknownSets An (unat lower) (unat upper) addr ls wantReport cs of
             None \<Rightarrow> None
           | Some (cs', report) \<Rightarrow>
               Some (cs', if wantReport \<and> report = None then Some PlainReport else report))
        else
          (case updateUnknownSets An (unat lower) (unat (N_SETS T - 1)) addr ls wantReport cs of
             None \<Rightarrow> None
           | Some (cs1, report) \<Rightarrow>
               (case updateUnknownSets An 0 (unat upper) addr ls wantReport cs1 of
                  None \<Rightarrow> None
                | Some (cs2, report2) \<Rightarrow>
                    map_option (Pair cs2) (join_range_reports wantReport report report2))))"

text \<open>The loops over all sets; equal sets are skipped.\<close>

definition join_sets :: "('s, 'd) set_analysis \<Rightarrow> 's \<Rightarrow> 's \<Rightarrow> 's" where
  "join_sets An x y = (if x = y then x else sa_join An x y)"

definition cache_join :: "cache_traits \<Rightarrow> ('s, 'd) set_analysis \<Rightarrow> 's cache \<Rightarrow> 's cache \<Rightarrow> 's cache" where
  "cache_join T An x y = map (\<lambda>i. join_sets An (x ! i) (y ! i)) [0..<unat (N_SETS T)]"

definition cache_lessequal :: "cache_traits \<Rightarrow> ('s, 'd) set_analysis \<Rightarrow> 's cache \<Rightarrow> 's cache \<Rightarrow> bool" where
  "cache_lessequal T An x y =
     list_all (\<lambda>i. x ! i = y ! i \<or> sa_lessequal An (x ! i) (y ! i)) [0..<unat (N_SETS T)]"

definition cache_enter :: "('s, 'd) set_analysis \<Rightarrow> scope \<Rightarrow> 's cache \<Rightarrow> 's cache" where
  "cache_enter An sc cs = map (sa_enter An sc) cs"

definition cache_leave :: "('s, 'd) set_analysis \<Rightarrow> scope \<Rightarrow> 's cache \<Rightarrow> 's cache" where
  "cache_leave An sc cs = map (sa_leave An sc) cs"

text \<open>For an array, the scopes common to the sets of the interval; no wrap-around here.\<close>

definition cache_persistent_scopes ::
  "cache_traits \<Rightarrow> ana_env \<Rightarrow> ('s, 'd) set_analysis \<Rightarrow> 's cache \<Rightarrow> abs_address \<Rightarrow> scope set option" where
  "cache_persistent_scopes T E An cs addr =
     (case aa_get_array addr of
        Some v \<Rightarrow>
          let (lower, upper) = getCacheSetInterval T (aa_lower E addr) (aa_upper E addr)
          in Some (fold (\<lambda>i ret. ret \<inter> sa_pers_var An (cs ! i) v) [Suc (unat lower)..<Suc (unat upper)]
                     (sa_pers_var An (cs ! unat lower) v))
      | None \<Rightarrow>
          if aa_is_precise addr then
            let (t, idx) = getTagAndIndex T (aa_lower E addr) in Some (sa_pers_tag An (cs ! unat idx) t)
          else None)"

definition cache_equals :: "'s cache \<Rightarrow> 's cache \<Rightarrow> bool" where
  "cache_equals x y \<longleftrightarrow> length y \<ge> length x \<and> list_all2 (=) x (take (length x) y)"

section \<open>\<open>TrackLastAccess\<close>\<close>

definition track_init :: "bool \<Rightarrow> address option" where
  "track_init assumeAnEmptyCache = None"

definition track_classify :: "address option \<Rightarrow> abs_address \<Rightarrow> classification" where
  "track_classify s addr = CL_UNKNOWN"

definition track_update ::
  "cache_traits \<Rightarrow> ana_env \<Rightarrow> address option \<Rightarrow> abs_address \<Rightarrow> access_type \<Rightarrow> bool \<Rightarrow> classification \<Rightarrow>
     (address option \<times> update_report option) option" where
  "track_update T E s addr ls wantReport assumption =
     (if alignToCacheline T (aa_lower E addr) = alignToCacheline T (aa_upper E addr)
      then Some (Some (alignToCacheline T (aa_lower E addr)), None) else None)"

definition track_join :: "address option \<Rightarrow> address option \<Rightarrow> address option" where
  "track_join x y = (if x \<noteq> y then None else x)"

definition track_lessequal :: "address option \<Rightarrow> address option \<Rightarrow> bool" where
  "track_lessequal x y = (if y \<noteq> None then x = y else True)"

definition track_equals :: "address option \<Rightarrow> address option \<Rightarrow> bool" where
  "track_equals x y \<longleftrightarrow> x = y"

end
