(* ===== verification/TA_Abstract_Cache_Sound.thy ===== *)
theory TA_Abstract_Cache_Sound
  imports TA_Abstract_Cache
begin

text \<open>
  Soundness of the cache analysis for a set-associative cache: the contract of a cache set analysis
  (\<open>TA_Set_Analysis\<close>) is lifted to the vector of sets.  The concrete cache gives the state of
  every set; an access to an address changes the set it maps to.
\<close>

definition cache_inv :: "cache_traits \<Rightarrow> ('s \<Rightarrow> bool) \<Rightarrow> 's cache \<Rightarrow> bool" where
  "cache_inv T iv cs \<longleftrightarrow> length cs = unat (N_SETS T) \<and> (\<forall>s \<in> set cs. iv s)"

definition cache_gamma :: "cache_traits \<Rightarrow> ('s \<Rightarrow> 'q set) \<Rightarrow> 's cache \<Rightarrow> (nat \<Rightarrow> 'q) set" where
  "cache_gamma T gamma cs = {Q. \<forall>i < unat (N_SETS T). Q i \<in> gamma (cs ! i)}"

definition cache_index :: "cache_traits \<Rightarrow> address \<Rightarrow> nat" where
  "cache_index T a = unat (getindex T a)"

definition cache_access :: "cache_traits \<Rightarrow> (tag \<Rightarrow> 'q \<Rightarrow> 'q) \<Rightarrow> address \<Rightarrow> (nat \<Rightarrow> 'q) \<Rightarrow> (nat \<Rightarrow> 'q)" where
  "cache_access T acc a Q = Q(cache_index T a := acc (getTag T a) (Q (cache_index T a)))"

definition cache_hit :: "cache_traits \<Rightarrow> ('q \<Rightarrow> tag \<Rightarrow> bool) \<Rightarrow> (nat \<Rightarrow> 'q) \<Rightarrow> address \<Rightarrow> bool" where
  "cache_hit T hit Q a \<longleftrightarrow> hit (Q (cache_index T a)) (getTag T a)"

section \<open>Cache lines as numbers\<close>

definition lsize :: "cache_traits \<Rightarrow> nat" where "lsize T = unat (LINE_SIZE T)"

definition block :: "cache_traits \<Rightarrow> address \<Rightarrow> nat" where "block T a = unat a div lsize T"

lemma lsize_pos: "traits_ok T \<Longrightarrow> 0 < lsize T"
  by (auto simp: traits_ok_def lsize_def unat_gt_0)

lemma nsets_pos: "traits_ok T \<Longrightarrow> 0 < unat (N_SETS T)"
  using word_neq_0_conv by (simp add: traits_ok_def unat_gt_0 word_less_nat_alt)

lemma unat_line: "traits_ok T \<Longrightarrow> unat (getCachelineAddress T a) = block T a * lsize T"
proof -
  assume "traits_ok T"
  then obtain k where k: "k < 32" "LINE_SIZE T = 2 ^ k" by (rule traits_okE)
  have "unat (push_bit k (1 :: 32 word)) = take_bit LENGTH(32) (push_bit k (unat (1 :: 32 word)))"
    by (rule unsigned_push_bit_eq)
  then have L: "lsize T = 2 ^ k"
    using k by (simp add: lsize_def push_bit_eq_mult)
  have drop: "unat (drop_bit k a) = unat a div 2 ^ k"
    unfolding unat_drop_bit_eq by (rule drop_bit_eq_div)
  have "unat (push_bit k (drop_bit k a)) = unat a div 2 ^ k * 2 ^ k"
  proof -
    have "unat a div 2 ^ k * 2 ^ k \<le> unat a" by simp
    also have "unat a < 2 ^ 32" using unsigned_less [of a] by simp
    finally have "unat a div 2 ^ k * 2 ^ k < 2 ^ 32" .
    moreover have "unat (push_bit k (drop_bit k a)) = take_bit LENGTH(32) (push_bit k (unat (drop_bit k a)))"
      by (rule unsigned_push_bit_eq)
    ultimately show ?thesis
      unfolding drop by (simp add: push_bit_eq_mult take_bit_nat_eq_self del: word_unat_eq_iff)
  qed
  then show ?thesis by (simp add: getCachelineAddress_eq [OF k(2)] block_def L)
qed

lemma getTag_block: "unat (getTag T a) = block T a div unat (N_SETS T)"
  by (simp add: getTag_def block_def lsize_def unat_div)

lemma getindex_block: "cache_index T a = block T a mod unat (N_SETS T)"
  by (simp add: getindex_def block_def lsize_def cache_index_def unat_div unat_mod)

lemma block_mono: "a \<le> b \<Longrightarrow> block T a \<le> block T b"
  by (simp add: block_def word_le_nat_alt div_le_mono)

lemma getTag_mono: "a \<le> b \<Longrightarrow> getTag T a \<le> getTag T b"
  by (simp add: word_le_nat_alt getTag_block div_le_mono block_mono)

lemma same_line_block:
  "traits_ok T \<Longrightarrow> getCachelineAddress T a = getCachelineAddress T b \<longleftrightarrow> block T a = block T b"
  using unat_line lsize_pos by (metis mult_cancel2 not_gr_zero word_unat_eq_iff)

section \<open>The classification loop ends\<close>

text \<open>
  The loop on line numbers.  As long as the line after the last one is representable, the loop on
  addresses is this one.
\<close>

definition line_addr :: "cache_traits \<Rightarrow> nat \<Rightarrow> address" where
  "line_addr T b = word_of_nat (b * lsize T)"

fun classify_lines ::
  "cache_traits \<Rightarrow> ('s, 'd) set_analysis \<Rightarrow> 's cache \<Rightarrow> nat \<Rightarrow> nat \<Rightarrow> classification \<Rightarrow> classification option" where
  "classify_lines T An cs b 0 res = Some res"
| "classify_lines T An cs b (Suc d) res =
     (if res \<noteq> CL_UNKNOWN
      then Option.bind (sa_classify An (cache_set T cs (line_addr T b)) (aa_of_address (line_addr T b)))
             (\<lambda>c. classify_lines T An cs (Suc b) d (bs_join res c))
      else Some res)"

lemma unat_of_small: "n < 2 ^ 32 \<Longrightarrow> unat (word_of_nat n :: 32 word) = n"
  by (simp add: unat_of_nat take_bit_nat_eq_self)

lemma unat_line_addr: "b * lsize T < 2 ^ 32 \<Longrightarrow> unat (line_addr T b) = b * lsize T"
  unfolding line_addr_def by (rule unat_of_small)

lemma line_addr_step: "line_addr T b + LINE_SIZE T = line_addr T (Suc b)"
  by (simp add: line_addr_def lsize_def algebra_simps)

lemma line_addr_block: "traits_ok T \<Longrightarrow> line_addr T (block T a) = getCachelineAddress T a"
  unfolding line_addr_def by (simp flip: unat_line del: of_nat_mult)

lemma classify_loop_lines:
  assumes "traits_ok T" and "Suc j * lsize T < 2 ^ 32" and "b + d = Suc j"
  shows "classify_loop T An cs (line_addr T b) (line_addr T j) res = classify_lines T An cs b d res"
  using assms(3)
proof (induction d arbitrary: b res)
  case 0
  have "unat (line_addr T j) < unat (line_addr T b)"
    using 0 assms(2) lsize_pos [OF assms(1)] by (simp add: unat_line_addr)
  then show ?case by (simp add: classify_loop.simps word_le_nat_alt)
next
  case (Suc d)
  have "b \<le> j" using Suc.prems by simp
  then have mono: "b * lsize T \<le> j * lsize T" by (rule mult_le_mono1)
  moreover have lt: "j * lsize T < 2 ^ 32" using assms(2) by simp
  ultimately have "b * lsize T < 2 ^ 32" by (rule le_less_trans)
  then have "unat (line_addr T b) \<le> unat (line_addr T j)"
    using mono lt by (simp only: unat_line_addr)
  then have le: "line_addr T b \<le> line_addr T j" by (simp add: word_le_nat_alt)
  show ?case
    using Suc by (subst classify_loop.simps) (simp add: le line_addr_step cong: option.case_cong if_cong)
qed

section \<open>The sets an interval maps to\<close>

definition in_sets :: "32 word \<times> 32 word \<Rightarrow> nat \<Rightarrow> bool" where
  "in_sets I i \<longleftrightarrow> (if fst I \<le> snd I then unat (fst I) \<le> i \<and> i \<le> unat (snd I)
     else unat (fst I) \<le> i \<or> i \<le> unat (snd I))"

text \<open>
  When \<open>getCacheSetInterval\<close> covers the interval: it is not so long that its length wraps, and
  either as long as all sets together or within less than one turn of the set numbers.  The
  unknown address is covered if the sets divide the address space.
\<close>

definition interval_ok :: "cache_traits \<Rightarrow> address \<Rightarrow> address \<Rightarrow> bool" where
  "interval_ok T l u \<longleftrightarrow> l \<le> u \<and> unat (N_SETS T) * lsize T < 2 ^ 32 \<and>
     unat u + 4 - unat l < 2 ^ 32 \<and>
     (unat (N_SETS T) * lsize T \<le> unat u + 4 - unat l \<or> block T u - block T l < unat (N_SETS T))"

lemma mod_window:
  fixes n :: nat
  assumes "0 < n" and "bl \<le> b" and "b \<le> bu" and "bu - bl < n"
  shows "if bl mod n \<le> bu mod n then bl mod n \<le> b mod n \<and> b mod n \<le> bu mod n
    else bl mod n \<le> b mod n \<or> b mod n \<le> bu mod n"
proof -
  define r where "r = bl mod n"
  define q where "q = bl div n"
  have bl: "bl = q * n + r" and r: "r < n" using assms(1) by (simp_all add: q_def r_def)
  obtain e where e: "b = bl + e" using assms(2) le_Suc_ex by blast
  obtain d where d: "bu = bl + d" using assms(2,3) le_Suc_ex le_trans by blast
  have le: "e \<le> d" "d < n" using assms(3,4) e d by auto
  have md: "(q * n + r + x) mod n = (if r + x < n then r + x else r + x - n)" if "x < n" for x
  proof (cases "r + x < n")
    case True
    then show ?thesis by (simp add: add.assoc)
  next
    case False
    then have "(r + x) mod n = r + x - n" using that r by (simp add: mod_if)
    then show ?thesis using False by (simp add: add.assoc)
  qed
  have "b mod n = (if r + e < n then r + e else r + e - n)" "bu mod n = (if r + d < n then r + d else r + d - n)"
    unfolding e d bl using md le by simp_all
  then show ?thesis unfolding r_def [symmetric] using le r by auto
qed

lemma unat_sub_len: "l \<le> u \<Longrightarrow> unat u + 4 - unat l < 2 ^ 32 \<Longrightarrow> unat (u + 4 - l) = unat u + 4 - unat (l :: 32 word)"
proof -
  assume le: "l \<le> u" and lt: "unat u + 4 - unat l < 2 ^ 32"
  have "unat (u - l) = unat u - unat l" using le by (simp add: unat_sub word_le_nat_alt)
  moreover have eq: "u + 4 - l = (u - l) + 4" by (simp add: algebra_simps)
  moreover have "unat ((u - l) + 4) = unat (u - l) + unat (4 :: 32 word)"
    using le lt calculation(1) by (simp add: unat_word_ariths word_le_nat_alt)
  ultimately show ?thesis unfolding eq using le by (simp add: word_le_nat_alt)
qed

lemma set_interval_covers:
  assumes "traits_ok T" and "interval_ok T l u" and "l \<le> a" "a \<le> u"
  shows "in_sets (getCacheSetInterval T l u) (cache_index T a)"
proof -
  have N: "0 < unat (N_SETS T)" by (rule nsets_pos [OF assms(1)])
  have idx: "cache_index T a < unat (N_SETS T)" using N by (simp add: getindex_block)
  have prod: "unat (N_SETS T * LINE_SIZE T) = unat (N_SETS T) * lsize T"
    using assms(2) by (simp add: interval_ok_def lsize_def unat_word_ariths(2))
  have len: "unat (u + 4 - l) = unat u + 4 - unat l"
    using assms(2) by (intro unat_sub_len) (simp_all add: interval_ok_def)
  show ?thesis
  proof (cases "u + 4 - l \<ge> N_SETS T * LINE_SIZE T")
    case True
    have "unat (N_SETS T - 1) = unat (N_SETS T) - 1" using N by (intro unat_minus_one) auto
    then show ?thesis using True idx by (simp add: getCacheSetInterval_def in_sets_def)
  next
    case False
    then have "block T u - block T l < unat (N_SETS T)"
      using assms(2) prod len by (auto simp: interval_ok_def word_le_nat_alt)
    note window = mod_window [OF N block_mono [OF assms(3)] block_mono [OF assms(4)] this,
        folded getindex_block]
    show ?thesis
      using False window unfolding cache_index_def
      by (auto simp: getCacheSetInterval_def in_sets_def getCacheSet_eq word_le_nat_alt split: if_splits)
  qed
qed

text \<open>The bounds are set numbers, and differ if the ends of the interval are in different lines.\<close>

lemma set_interval_bounds:
  assumes "traits_ok T" and "interval_ok T l u" and "getCacheSetInterval T l u = (lo, up)"
  shows "unat lo < unat (N_SETS T)" and "unat up < unat (N_SETS T)"
    and "block T l \<noteq> block T u \<Longrightarrow> N_SETS T = 1 \<or> lo \<noteq> up"
proof -
  have N: "0 < unat (N_SETS T)" by (rule nsets_pos [OF assms(1)])
  have last: "unat (N_SETS T - 1) = unat (N_SETS T) - 1" using N by (intro unat_minus_one) auto
  have idx: "unat (getindex T a) < unat (N_SETS T)" for a using getindex_less_nat [OF assms(1)] .
  show "unat lo < unat (N_SETS T)" "unat up < unat (N_SETS T)"
    using assms(3) N last idx by (auto simp: getCacheSetInterval_def getCacheSet_eq split: if_splits)
  assume ne: "block T l \<noteq> block T u"
  have prod: "unat (N_SETS T * LINE_SIZE T) = unat (N_SETS T) * lsize T"
    using assms(2) by (simp add: interval_ok_def lsize_def unat_word_ariths(2))
  have len: "unat (u + 4 - l) = unat u + 4 - unat l"
    using assms(2) by (intro unat_sub_len) (simp_all add: interval_ok_def)
  show "N_SETS T = 1 \<or> lo \<noteq> up"
  proof (cases "u + 4 - l \<ge> N_SETS T * LINE_SIZE T")
    case True
    then have "lo = 0" "up = N_SETS T - 1" using assms(3) by (simp_all add: getCacheSetInterval_def)
    then show ?thesis by auto
  next
    case False
    then have d: "block T u - block T l < unat (N_SETS T)"
      using assms(2) prod len by (auto simp: interval_ok_def word_le_nat_alt)
    have le: "block T l \<le> block T u" using assms(2) by (simp add: interval_ok_def block_mono)
    have "cache_index T l \<noteq> cache_index T u"
    proof
      assume "cache_index T l = cache_index T u"
      then have "unat (N_SETS T) dvd block T u - block T l"
        unfolding getindex_block using mod_eq_dvd_iff_nat [OF le, of "unat (N_SETS T)"] by metis
      then show False using d le ne by (auto dest: dvd_imp_le)
    qed
    then show ?thesis
      using False assms(3) by (auto simp: getCacheSetInterval_def getCacheSet_eq cache_index_def)
  qed
qed

section \<open>Lifting the contract\<close>

context set_analysis_contract
begin

abbreviation C_inv :: "'s cache \<Rightarrow> bool" where "C_inv \<equiv> cache_inv T inv"
abbreviation C_gamma :: "'s cache \<Rightarrow> (nat \<Rightarrow> 'q) set" where "C_gamma \<equiv> cache_gamma T gamma"

lemma cache_set_inv: "C_inv cs \<Longrightarrow> i < unat (N_SETS T) \<Longrightarrow> inv (cs ! i)"
  by (simp add: cache_inv_def)

lemma index_less: "traits_ok T \<Longrightarrow> cache_index T a < unat (N_SETS T)"
  using nsets_pos by (simp add: getindex_block)

lemma cache_init_sound:
  assumes "traits_ok T" and "\<forall>i < unat (N_SETS T). Q i \<in> start b"
  shows "C_inv (cache_init T An b) \<and> Q \<in> C_gamma (cache_init T An b)"
  using assms init [OF assms(1)] by (auto simp: cache_inv_def cache_gamma_def cache_init_def)

text \<open>The join of the classifications of some lines, none of them bottom.\<close>

definition part_ok :: "(nat \<Rightarrow> 'q) \<Rightarrow> nat set \<Rightarrow> classification \<Rightarrow> classification \<Rightarrow> bool" where
  "part_ok Q K res r \<longleftrightarrow> (r = CL_BOT \<and> K = {} \<and> res = CL_BOT \<or> plain_class r) \<and>
     (r = CL_HIT \<longrightarrow> (res = CL_BOT \<or> res = CL_HIT) \<and> (\<forall>k \<in> K. cache_hit T hit Q (line_addr T k))) \<and>
     (r = CL_MISS \<longrightarrow> (res = CL_BOT \<or> res = CL_MISS) \<and> (\<forall>k \<in> K.
        CNN T E (getindex T (line_addr T k)) (getTag T (line_addr T k)) = 0 \<longrightarrow>
          \<not> cache_hit T hit Q (line_addr T k)))"

lemma part_ok_step:
  assumes "part_ok Q K (bs_join res c) r" and "plain_class c" and "res = CL_BOT \<or> plain_class res"
    and "c = CL_HIT \<longrightarrow> cache_hit T hit Q (line_addr T b)"
    and "c = CL_MISS \<and> CNN T E (getindex T (line_addr T b)) (getTag T (line_addr T b)) = 0 \<longrightarrow>
      \<not> cache_hit T hit Q (line_addr T b)"
  shows "part_ok Q (insert b K) res r"
proof -
  have j: "bs_join res c \<noteq> CL_BOT" "bs_join res c = CL_HIT \<Longrightarrow> c = CL_HIT \<and> (res = CL_BOT \<or> res = CL_HIT)"
    "bs_join res c = CL_MISS \<Longrightarrow> c = CL_MISS \<and> (res = CL_BOT \<or> res = CL_MISS)"
    using assms(2,3) by (auto simp: plain_class_def)
  have r: "plain_class r" using assms(1) j(1) unfolding part_ok_def by blast
  then consider "r = CL_HIT" | "r = CL_MISS" | "r = CL_UNKNOWN" by (auto simp: plain_class_def)
  then show ?thesis
  proof cases
    case 1
    then have "bs_join res c = CL_HIT" using assms(1) j(1) by (simp add: part_ok_def)
    then show ?thesis using assms(1,4) j(2) r 1 by (simp add: part_ok_def)
  next
    case 2
    then have "bs_join res c = CL_MISS" using assms(1) j(1) by (simp add: part_ok_def)
    then show ?thesis using assms(1,5) j(3) r 2 by (simp add: part_ok_def)
  qed (simp add: part_ok_def plain_class_def)
qed

lemma classify_lines_sound:
  assumes "traits_ok T" "C_inv cs" "Q \<in> C_gamma cs" and "res = CL_BOT \<or> plain_class res"
  shows "\<exists>r. classify_lines T An cs b d res = Some r \<and> part_ok Q {b..<b + d} res r"
  using assms(4)
proof (induction d arbitrary: b res)
  case 0
  then show ?case by (auto simp: part_ok_def plain_class_def)
next
  case (Suc d)
  show ?case
  proof (cases "res = CL_UNKNOWN")
    case True
    then show ?thesis by (simp add: part_ok_def plain_class_def)
  next
    case False
    let ?a = "line_addr T b"
    have i: "cache_index T ?a < unat (N_SETS T)" using index_less [OF assms(1)] .
    have set: "cache_set T cs ?a = cs ! cache_index T ?a"
      by (simp add: cache_set_def getTagAndIndex_eq cache_index_def)
    have "Q (cache_index T ?a) \<in> gamma (cs ! cache_index T ?a)"
      using assms(3) i by (simp add: cache_gamma_def)
    from classify [OF assms(1) cache_set_inv [OF assms(2) i] this, of ?a]
    obtain c where c: "sa_classify An (cache_set T cs ?a) (aa_of_address ?a) = Some c" "plain_class c"
      "c = CL_HIT \<longrightarrow> cache_hit T hit Q ?a"
      "c = CL_MISS \<and> CNN T E (getindex T ?a) (getTag T ?a) = 0 \<longrightarrow> \<not> cache_hit T hit Q ?a"
      unfolding set cache_hit_def by blast
    have "bs_join res c = CL_BOT \<or> plain_class (bs_join res c)"
      using c(2) Suc.prems by (auto simp: plain_class_def)
    then obtain r where r: "classify_lines T An cs (Suc b) d (bs_join res c) = Some r"
      "part_ok Q {Suc b..<Suc b + d} (bs_join res c) r" using Suc.IH by blast
    have "{b..<b + Suc d} = insert b {Suc b..<Suc b + d}" by auto
    then have "part_ok Q {b..<b + Suc d} res r"
      using part_ok_step [OF r(2) c(2) Suc.prems c(3,4)] by simp
    then show ?thesis using r(1) c(1) False by simp
  qed
qed


lemma cache_hit_line: "traits_ok T \<Longrightarrow> cache_hit T hit Q (getCachelineAddress T a) = cache_hit T hit Q a"
  by (simp add: cache_hit_def cache_index_def)

lemma cache_classify_sound:
  assumes "traits_ok T" "C_inv cs" "Q \<in> C_gamma cs"
    and "aa_lower E aa \<le> aa_upper E aa" and "Suc (block T (aa_upper E aa)) * lsize T < 2 ^ 32"
  shows "\<exists>c. cache_classify T E An cs aa = Some c \<and> plain_class c \<and>
    (\<forall>a. aa_lower E aa \<le> a \<and> a \<le> aa_upper E aa \<longrightarrow>
      (c = CL_HIT \<longrightarrow> cache_hit T hit Q a) \<and>
      (c = CL_MISS \<and> CNN T E (getindex T a) (getTag T a) = 0 \<longrightarrow> \<not> cache_hit T hit Q a))"
proof (cases "aa_same_interval E aa aa_unknown")
  case True
  then show ?thesis by (simp add: cache_classify_def plain_class_def)
next
  case False
  let ?l = "block T (aa_lower E aa)" and ?u = "block T (aa_upper E aa)"
  have le: "?l \<le> ?u" using assms(4) by (rule block_mono)
  obtain r where r: "classify_lines T An cs ?l (Suc ?u - ?l) CL_BOT = Some r"
      "part_ok Q {?l..<?l + (Suc ?u - ?l)} CL_BOT r"
    using classify_lines_sound [OF assms(1-3)] by blast
  have range: "{?l..<?l + (Suc ?u - ?l)} = {?l..?u}" using le by auto
  have "?l + (Suc ?u - ?l) = Suc ?u" using le by simp
  from classify_loop_lines [OF assms(1,5) this, of An cs CL_BOT]
  have "cache_classify T E An cs aa = Some r"
    using False r(1)
    by (simp add: cache_classify_def alignToCacheline_def flip: line_addr_block [OF assms(1)])
  moreover have "plain_class r" using r(2) le unfolding part_ok_def range by auto
  moreover have "(r = CL_HIT \<longrightarrow> cache_hit T hit Q a) \<and>
      (r = CL_MISS \<and> CNN T E (getindex T a) (getTag T a) = 0 \<longrightarrow> \<not> cache_hit T hit Q a)"
    if "aa_lower E aa \<le> a" "a \<le> aa_upper E aa" for a
  proof -
    have "block T a \<in> {?l..?u}" using that by (simp add: block_mono)
    then show ?thesis
      using r(2) line_addr_block [OF assms(1), of a] cache_hit_line [OF assms(1), of Q a] assms(1)
      unfolding part_ok_def range by fastforce
  qed
  ultimately show ?thesis by blast
qed

section \<open>Updates\<close>

lemma C_gamma_update:
  assumes "Q \<in> C_gamma cs" "length cs = unat (N_SETS T)" "x \<in> gamma s'"
  shows "Q(i := x) \<in> C_gamma (cs[i := s'])"
  using assms by (auto simp: cache_gamma_def nth_list_update)

lemma C_inv_update: "C_inv cs \<Longrightarrow> inv s' \<Longrightarrow> C_inv (cs[i := s'])"
  using set_update_subset_insert [of cs i s'] by (auto simp: cache_inv_def)

lemma precise_update_sound:
  assumes "traits_ok T" "C_inv cs" "Q \<in> C_gamma cs" "c \<noteq> CL_BOT"
    and "must_assumes_hit T c \<Longrightarrow> cache_hit T hit Q a"
    and line: "getCachelineAddress T (aa_lower E aa) = getCachelineAddress T (aa_upper E aa)"
      "getCachelineAddress T a = getCachelineAddress T (aa_lower E aa)"
  shows "\<exists>cs' r. cache_update T E An cs aa ls None rep c = Some (cs', r) \<and> C_inv cs' \<and>
    cache_access T acc a Q \<in> C_gamma cs' \<and> (r \<noteq> None \<longleftrightarrow> rep)"
proof -
  let ?l = "aa_lower E aa" and ?i = "cache_index T a"
  have same: "getTag T ?l = getTag T a" "getindex T ?l = getindex T a"
    using line(2) tag_index_iff_line [OF assms(1)] by metis+
  have i: "?i < unat (N_SETS T)" by (rule index_less [OF assms(1)])
  have "Q ?i \<in> gamma (cs ! ?i)" using assms(3) i by (simp add: cache_gamma_def)
  moreover have "must_assumes_hit T c \<Longrightarrow> hit (Q ?i) (getTag T (getCachelineAddress T ?l))"
    using assms(1,5) same by (simp add: cache_hit_def)
  ultimately obtain s' r where s': "sa_update An (cs ! ?i) (aa_of_address (getCachelineAddress T ?l)) ls None rep c = Some (s', r)"
      "inv s'" "acc (getTag T a) (Q ?i) \<in> gamma s'" "(r \<noteq> None) = rep"
    using update [OF assms(1) cache_set_inv [OF assms(2) i]] assms(1,4) same by (metis getTag_line)
  have "cache_update T E An cs aa ls None rep c = Some (cs[?i := s'], r)"
    using line(1) s'(1,4) same
    by (simp add: cache_update_def alignToCacheline_def getTagAndIndex_eq cache_index_def Let_def)
  moreover have "cache_access T acc a Q \<in> C_gamma (cs[?i := s'])"
    unfolding cache_access_def using assms(2) s'(3)
    by (intro C_gamma_update [OF assms(3)]) (simp_all add: cache_inv_def)
  ultimately show ?thesis using C_inv_update [OF assms(2) s'(2)] s'(4) by blast
qed

text \<open>After the sets of a range are updated: each describes its state with and without an access.\<close>

definition touched :: "abs_address \<Rightarrow> (nat \<Rightarrow> 'q) \<Rightarrow> nat set \<Rightarrow> 's cache \<Rightarrow> bool" where
  "touched aa Q I cs \<longleftrightarrow> C_inv cs \<and> Q \<in> C_gamma cs \<and>
     (\<forall>i \<in> I. \<forall>x. in_range (getTag T (aa_lower E aa)) (getTag T (aa_upper E aa)) x \<longrightarrow>
       acc x (Q i) \<in> gamma (cs ! i))"

lemma touched_step:
  assumes "traits_ok T" "getTag T (aa_upper E aa) \<noteq> - 1"
    and "touched aa Q I cs" "i < unat (N_SETS T)" "i \<notin> I" "\<not> rep \<Longrightarrow> r = None"
  shows "\<exists>cs' r'. potential_step An aa ls rep i (cs, r) = Some (cs', r') \<and> touched aa Q (insert i I) cs' \<and>
    (\<not> rep \<longrightarrow> r' = None)"
proof -
  have cs: "C_inv cs" "Q \<in> C_gamma cs" using assms(3) by (simp_all add: touched_def)
  have "Q i \<in> gamma (cs ! i)" using cs(2) assms(4) by (simp add: cache_gamma_def)
  then obtain s' r1 where s': "sa_potential An (cs ! i) aa ls rep = Some (s', r1)" "inv s'" "Q i \<in> gamma s'"
      "\<forall>x. in_range (getTag T (aa_lower E aa)) (getTag T (aa_upper E aa)) x \<longrightarrow> acc x (Q i) \<in> gamma s'"
    using potential [OF assms(1) cache_set_inv [OF cs(1) assms(4)] _ assms(2)] by blast
  have len: "length cs = unat (N_SETS T)" using cs(1) by (simp add: cache_inv_def)
  have "Q(i := Q i) \<in> C_gamma (cs[i := s'])" using cs(2) len s'(3) by (rule C_gamma_update)
  then have "touched aa Q (insert i I) (cs[i := s'])"
    using assms(3,4,5) C_inv_update [OF cs(1) s'(2)] s'(4) len by (auto simp: touched_def nth_list_update)
  then show ?thesis using s'(1) assms(6) by (simp add: potential_step_def join_set_report_def)
qed

lemma unknown_sets_sound:
  assumes "traits_ok T" "getTag T (aa_upper E aa) \<noteq> - 1"
    and "touched aa Q I cs" "upper < unat (N_SETS T)" "I \<inter> {lower..upper} = {}"
  shows "\<exists>cs' r. updateUnknownSets An lower upper aa ls rep cs = Some (cs', r) \<and>
    touched aa Q (I \<union> {lower..upper}) cs' \<and> (\<not> rep \<longrightarrow> r = None)"
proof -
  have run: "\<exists>cs' r'. fold_opt (potential_step An aa ls rep) is (cs, r) = Some (cs', r') \<and>
      touched aa Q (I \<union> set is) cs' \<and> (\<not> rep \<longrightarrow> r' = None)"
    if "touched aa Q I cs" "\<forall>i \<in> set is. i < unat (N_SETS T)" "distinct is" "I \<inter> set is = {}" "\<not> rep \<longrightarrow> r = None"
    for "is" I cs r
    using that
  proof (induction "is" arbitrary: I cs r)
    case (Cons i "is")
    obtain cs1 r1 where step: "potential_step An aa ls rep i (cs, r) = Some (cs1, r1)"
        "touched aa Q (insert i I) cs1" "\<not> rep \<longrightarrow> r1 = None"
      using touched_step [OF assms(1,2) Cons.prems(1), of i rep r ls] Cons.prems by auto
    obtain cs2 r2 where "fold_opt (potential_step An aa ls rep) is (cs1, r1) = Some (cs2, r2)"
        "touched aa Q (insert i I \<union> set is) cs2" "\<not> rep \<longrightarrow> r2 = None"
      using Cons.IH [OF step(2), of r1] Cons.prems step(3) by (simp del: Un_insert_left) blast
    then show ?case using step(1) by simp
  qed simp
  have "set [lower..<Suc upper] = {lower..upper}" by auto
  then show ?thesis
    using run [OF assms(3), of "[lower..<Suc upper]" None] assms(4,5)
    by (auto simp: updateUnknownSets_def simp del: upt_Suc)
qed


lemma touched_access:
  assumes "traits_ok T" "touched aa Q I cs" "cache_index T a \<in> I"
    and "aa_lower E aa \<le> a" "a \<le> aa_upper E aa"
  shows "cache_access T acc a Q \<in> C_gamma cs"
  using assms getTag_mono [of "aa_lower E aa" a T] getTag_mono [of a "aa_upper E aa" T]
  by (auto simp: touched_def cache_gamma_def cache_access_def)

lemma imprecise_update_sound:
  assumes "traits_ok T" "C_inv cs" "Q \<in> C_gamma cs" "interval_ok T (aa_lower E aa) (aa_upper E aa)"
    and "getTag T (aa_upper E aa) \<noteq> - 1"
    and "aa_lower E aa \<le> a" "a \<le> aa_upper E aa"
    and "getCachelineAddress T (aa_lower E aa) \<noteq> getCachelineAddress T (aa_upper E aa)"
  shows "\<exists>cs' r. cache_update T E An cs aa ls None rep c = Some (cs', r) \<and> C_inv cs' \<and>
    cache_access T acc a Q \<in> C_gamma cs' \<and> (r \<noteq> None \<longleftrightarrow> rep)"
proof -
  obtain lo up where I: "getCacheSetInterval T (aa_lower E aa) (aa_upper E aa) = (lo, up)"
    by (cases "getCacheSetInterval T (aa_lower E aa) (aa_upper E aa)")
  have in_I: "in_sets (lo, up) (cache_index T a)"
    using set_interval_covers [OF assms(1,4,6,7)] by (simp add: I)
  note N = nsets_pos [OF assms(1)]
  have last: "unat (N_SETS T - 1) = unat (N_SETS T) - 1" using N by (intro unat_minus_one) auto
  have bounds: "unat lo < unat (N_SETS T)" "unat up < unat (N_SETS T)" and ok: "N_SETS T = 1 \<or> lo \<noteq> up"
    using set_interval_bounds [OF assms(1,4) I] assms(8) same_line_block [OF assms(1)] by blast+
  have start: "touched aa Q {} cs" using assms(2,3) by (simp add: touched_def)
  show ?thesis
  proof (cases "lo \<le> up")
    case True
    obtain cs' r where u: "updateUnknownSets An (unat lo) (unat up) aa ls rep cs = Some (cs', r)"
      "touched aa Q {unat lo..unat up} cs'" "\<not> rep \<longrightarrow> r = None"
      using unknown_sets_sound [OF assms(1,5) start bounds(2), of "unat lo" ls rep] by simp blast
    have "cache_access T acc a Q \<in> C_gamma cs'"
      using touched_access [OF assms(1) u(2) _ assms(6,7)] in_I True by (simp add: in_sets_def)
    then show ?thesis
      using u True ok I assms(8)
      by (auto simp: cache_update_def alignToCacheline_def Let_def touched_def)
  next
    case False
    then have lt: "unat up < unat lo" by (simp add: word_le_nat_alt)
    obtain cs1 r1 where u1: "updateUnknownSets An (unat lo) (unat (N_SETS T - 1)) aa ls rep cs = Some (cs1, r1)"
      "touched aa Q {unat lo..unat (N_SETS T - 1)} cs1" "\<not> rep \<longrightarrow> r1 = None"
      using unknown_sets_sound [OF assms(1,5) start, of "unat (N_SETS T - 1)" "unat lo" ls rep] N last by simp blast
    obtain cs2 r2 where u2: "updateUnknownSets An 0 (unat up) aa ls rep cs1 = Some (cs2, r2)"
      "touched aa Q ({unat lo..unat (N_SETS T - 1)} \<union> {0..unat up}) cs2" "\<not> rep \<longrightarrow> r2 = None"
      using unknown_sets_sound [OF assms(1,5) u1(2) bounds(2), of 0 ls rep] lt by simp blast
    have "cache_index T a \<le> unat (N_SETS T - 1)" using index_less [OF assms(1), of a] last by simp
    then have "cache_access T acc a Q \<in> C_gamma cs2"
      using touched_access [OF assms(1) u2(2) _ assms(6,7)] in_I False by (simp add: in_sets_def)
    moreover obtain r where "join_range_reports rep r1 r2 = Some r" "(r \<noteq> None) = rep"
      using u1(3) u2(3) by (cases r1; cases r2; cases rep) (auto simp: join_range_reports_def)
    ultimately show ?thesis
      using u1(1) u2 False ok I assms(8)
      by (auto simp: cache_update_def alignToCacheline_def Let_def touched_def)
  qed
qed

lemma cache_join_sound:
  assumes "traits_ok T" "C_inv x" "C_inv y"
  shows "C_inv (cache_join T An x y)" and "C_gamma x \<union> C_gamma y \<subseteq> C_gamma (cache_join T An x y)"
proof -
  have iv: "inv (x ! i)" "inv (y ! i)" if "i < unat (N_SETS T)" for i
    using cache_set_inv assms that by blast+
  show "C_inv (cache_join T An x y)"
    using iv join(1) [OF assms(1)] by (auto simp: cache_inv_def cache_join_def join_sets_def)
  show "C_gamma x \<union> C_gamma y \<subseteq> C_gamma (cache_join T An x y)"
    using iv join(2) [OF assms(1)] by (fastforce simp: cache_gamma_def cache_join_def join_sets_def)
qed

lemma cache_lessequal_sound:
  assumes "traits_ok T" "C_inv x" "C_inv y" "cache_lessequal T An x y"
  shows "C_gamma x \<subseteq> C_gamma y"
proof
  fix Q assume Q: "Q \<in> C_gamma x"
  have "Q i \<in> gamma (y ! i)" if i: "i < unat (N_SETS T)" for i
  proof -
    have "x ! i = y ! i \<or> sa_lessequal An (x ! i) (y ! i)"
      using assms(4) i by (simp add: cache_lessequal_def list_all_iff)
    moreover have "Q i \<in> gamma (x ! i)" using Q i by (simp add: cache_gamma_def)
    ultimately show ?thesis
      using lessequal [OF assms(1) cache_set_inv [OF assms(2) i] cache_set_inv [OF assms(3) i]] by auto
  qed
  then show "Q \<in> C_gamma y" by (simp add: cache_gamma_def)
qed

lemma cache_scopes_sound:
  assumes "traits_ok T" "C_inv cs" "Q \<in> C_gamma cs"
  shows "C_inv (cache_enter An sc cs)" "(\<lambda>i. ent sc (Q i)) \<in> C_gamma (cache_enter An sc cs)"
    and "C_inv (cache_leave An sc cs)" "(\<lambda>i. lea sc (Q i)) \<in> C_gamma (cache_leave An sc cs)"
proof -
  have len: "length cs = unat (N_SETS T)" using assms(2) by (simp add: cache_inv_def)
  show "C_inv (cache_enter An sc cs)" "C_inv (cache_leave An sc cs)"
    using assms(2) scopes(1,2) [OF assms(1)] by (auto simp: cache_inv_def cache_enter_def cache_leave_def)
  have "Q i \<in> gamma (cs ! i)" "inv (cs ! i)" if "i < unat (N_SETS T)" for i
    using assms(3) that cache_set_inv [OF assms(2) that] by (simp_all add: cache_gamma_def)
  then show "(\<lambda>i. ent sc (Q i)) \<in> C_gamma (cache_enter An sc cs)"
    "(\<lambda>i. lea sc (Q i)) \<in> C_gamma (cache_leave An sc cs)"
    using scopes(3,4) [OF assms(1)] len by (simp_all add: cache_gamma_def cache_enter_def cache_leave_def)
qed

end

end
