(* ===== verification/TA_Cache_Properties.thy ===== *)
theory TA_Cache_Properties
  imports TA_Abstract_Cache_Sound
begin

text \<open>
  The data and instruction caches of the analysis: must and may analysis side by side in every set of
  a set-associative cache.  The properties of the whole cache, for single accesses, for joins and for
  sequences of accesses, and the inputs on which the address arithmetic of the code goes wrong.
\<close>

abbreviation mm :: "cache_traits \<Rightarrow> ana_env \<Rightarrow> _" where
  "mm T E \<equiv> compositional (must_analysis T E) (may_analysis T E)"

abbreviation mm_gamma :: "cache_traits \<Rightarrow> _ \<Rightarrow> (nat \<Rightarrow> lru_set) set" where
  "mm_gamma T \<equiv> cache_gamma T (comp_gamma (must_gamma (ASSOCIATIVITY T)) (may_gamma (ASSOCIATIVITY T)))"

abbreviation mm_inv :: "cache_traits \<Rightarrow> _ \<Rightarrow> bool" where
  "mm_inv T \<equiv> cache_inv T (\<lambda>s. must_wf (ASSOCIATIVITY T) (fst s) \<and> may_wf (ASSOCIATIVITY T) (snd s))"

text \<open>The concrete cache: an LRU set for every set number, an access, and what would hit.\<close>

abbreviation lru_cache_access :: "cache_traits \<Rightarrow> address \<Rightarrow> (nat \<Rightarrow> lru_set) \<Rightarrow> (nat \<Rightarrow> lru_set)" where
  "lru_cache_access T \<equiv> cache_access T (lru_access (ASSOCIATIVITY T))"

abbreviation lru_cache_hit :: "cache_traits \<Rightarrow> (nat \<Rightarrow> lru_set) \<Rightarrow> address \<Rightarrow> bool" where
  "lru_cache_hit T \<equiv> cache_hit T (\<lambda>q t. t \<in> set q)"

section \<open>Sequences of accesses\<close>

text \<open>Every access is classified, and the cache updated with the classification as the assumption.\<close>

fun cache_run ::
  "cache_traits \<Rightarrow> ana_env \<Rightarrow> ('s, 'd) set_analysis \<Rightarrow> (abs_address \<times> access_type) list \<Rightarrow> 's cache \<Rightarrow>
     (classification list \<times> 's cache) option" where
  "cache_run T E An [] cs = Some ([], cs)"
| "cache_run T E An ((aa, ls) # accs) cs =
     (case cache_classify T E An cs aa of None \<Rightarrow> None
      | Some c \<Rightarrow> (case cache_update T E An cs aa ls None False c of None \<Rightarrow> None
                  | Some (cs', r) \<Rightarrow> map_option (\<lambda>(l, cs''). (c # l, cs'')) (cache_run T E An accs cs')))"

text \<open>
  The accesses the address arithmetic supports: the last line of the address space is not
  touched, an access to several lines is one \<open>getCacheSetInterval\<close> covers.
\<close>

definition access_ok :: "cache_traits \<Rightarrow> ana_env \<Rightarrow> abs_address \<Rightarrow> address \<Rightarrow> bool" where
  "access_ok T E aa a \<longleftrightarrow> aa_lower E aa \<le> a \<and> a \<le> aa_upper E aa \<and>
     Suc (block T (aa_upper E aa)) * lsize T < 2 ^ 32 \<and>
     (getCachelineAddress T (aa_lower E aa) = getCachelineAddress T (aa_upper E aa) \<or>
      interval_ok T (aa_lower E aa) (aa_upper E aa) \<and> getTag T (aa_upper E aa) \<noteq> - 1)"

fun trace_justified ::
  "cache_traits \<Rightarrow> ana_env \<Rightarrow> (tag \<Rightarrow> 'q \<Rightarrow> 'q) \<Rightarrow> ('q \<Rightarrow> tag \<Rightarrow> bool) \<Rightarrow> address list \<Rightarrow> classification list \<Rightarrow>
     (nat \<Rightarrow> 'q) \<Rightarrow> bool" where
  "trace_justified T E acc hit (a # as) (c # cs) Q =
     ((c = CL_HIT \<longrightarrow> cache_hit T hit Q a) \<and>
      (c = CL_MISS \<and> CNN T E (getindex T a) (getTag T a) = 0 \<longrightarrow> \<not> cache_hit T hit Q a) \<and>
      trace_justified T E acc hit as cs (cache_access T acc a Q))"
| "trace_justified T E acc hit as cs Q = (as = [] \<and> cs = [])"

lemma access_ok_line:
  assumes "traits_ok T" "access_ok T E aa a"
    and "getCachelineAddress T (aa_lower E aa) = getCachelineAddress T (aa_upper E aa)"
  shows "getCachelineAddress T a = getCachelineAddress T (aa_lower E aa)"
proof -
  have "block T (aa_lower E aa) \<le> block T a" "block T a \<le> block T (aa_upper E aa)"
    using assms(2) by (auto simp: access_ok_def intro: block_mono)
  then show ?thesis using assms(3) unfolding same_line_block [OF assms(1)] by simp
qed

context set_analysis_contract
begin

lemma cache_step_sound:
  assumes "traits_ok T" "C_inv cs" "Q \<in> C_gamma cs" "access_ok T E aa a"
  shows "\<exists>c cs' r. cache_classify T E An cs aa = Some c \<and> cache_update T E An cs aa ls None rep c = Some (cs', r) \<and>
    C_inv cs' \<and> cache_access T acc a Q \<in> C_gamma cs' \<and>
    (c = CL_HIT \<longrightarrow> cache_hit T hit Q a) \<and>
    (c = CL_MISS \<and> CNN T E (getindex T a) (getTag T a) = 0 \<longrightarrow> \<not> cache_hit T hit Q a)"
proof -
  have in_range: "aa_lower E aa \<le> a" "a \<le> aa_upper E aa" "aa_lower E aa \<le> aa_upper E aa"
    "Suc (block T (aa_upper E aa)) * lsize T < 2 ^ 32"
    using assms(4) by (auto simp: access_ok_def)
  obtain c where c: "cache_classify T E An cs aa = Some c" "plain_class c" "c = CL_HIT \<longrightarrow> cache_hit T hit Q a"
      "c = CL_MISS \<and> CNN T E (getindex T a) (getTag T a) = 0 \<longrightarrow> \<not> cache_hit T hit Q a"
    using cache_classify_sound [OF assms(1-3) in_range(3,4)] in_range(1,2) by blast
  have just: "c \<noteq> CL_BOT" "must_assumes_hit T c \<Longrightarrow> cache_hit T hit Q a"
    using c(2,3) by (auto simp: plain_class_def must_assumes_hit_def)
  have "\<exists>cs' r. cache_update T E An cs aa ls None rep c = Some (cs', r) \<and> C_inv cs' \<and>
      cache_access T acc a Q \<in> C_gamma cs' \<and> (r \<noteq> None \<longleftrightarrow> rep)"
  proof (cases "getCachelineAddress T (aa_lower E aa) = getCachelineAddress T (aa_upper E aa)")
    case True
    show ?thesis
      using precise_update_sound [OF assms(1-3) just True access_ok_line [OF assms(1,4) True]] .
  next
    case False
    then show ?thesis
      using imprecise_update_sound [OF assms(1-3) _ _ in_range(1,2) False] assms(4)
      by (simp add: access_ok_def)
  qed
  then show ?thesis using c by blast
qed

lemma cache_run_contract:
  assumes "traits_ok T"
  shows "C_inv cs \<Longrightarrow> Q \<in> C_gamma cs \<Longrightarrow> list_all2 (\<lambda>(aa, ls) a. access_ok T E aa a) accs as \<Longrightarrow>
    \<exists>cl cs'. cache_run T E An accs cs = Some (cl, cs') \<and> C_inv cs' \<and>
      fold (cache_access T acc) as Q \<in> C_gamma cs' \<and> trace_justified T E acc hit as cl Q"
proof (induction accs arbitrary: cs Q as)
  case Nil
  then show ?case by simp
next
  case (Cons p accs)
  obtain aa ls where p: "p = (aa, ls)" by (cases p)
  obtain a as' where as: "as = a # as'" "access_ok T E aa a" "list_all2 (\<lambda>(aa, ls) a. access_ok T E aa a) accs as'"
    using Cons.prems(3) by (auto simp: p list_all2_Cons1)
  obtain c cs1 r where s: "cache_classify T E An cs aa = Some c"
    "cache_update T E An cs aa ls None False c = Some (cs1, r)" "C_inv cs1" "cache_access T acc a Q \<in> C_gamma cs1"
    "c = CL_HIT \<longrightarrow> cache_hit T hit Q a"
    "c = CL_MISS \<and> CNN T E (getindex T a) (getTag T a) = 0 \<longrightarrow> \<not> cache_hit T hit Q a"
    using cache_step_sound [OF assms Cons.prems(1,2) as(2), of ls False] by blast
  obtain cl cs2 where "cache_run T E An accs cs1 = Some (cl, cs2)" "C_inv cs2"
    "fold (cache_access T acc) as' (cache_access T acc a Q) \<in> C_gamma cs2"
    "trace_justified T E acc hit as' cl (cache_access T acc a Q)"
    using Cons.IH [OF s(3,4) as(3)] by blast
  then show ?case using s by (simp add: p as(1))
qed

end

section \<open>Properties\<close>

lemma lru_start_gamma:
  assumes "traits_ok T" "\<forall>i < unat (N_SETS T). Q i \<in> lru_start (ASSOCIATIVITY T) b"
  shows "mm_inv T (cache_init T (mm T E) b)" "Q \<in> mm_gamma T (cache_init T (mm T E) b)"
  using must_may.comp.cache_init_sound [OF assms] by blast+

text \<open>
  C1: the data or instruction cache: started for any cache, or for the empty one, along every
  sequence of loads and stores of supported addresses no assertion fails and no loop runs forever,
  the state describes the concrete cache after the accesses, and every classification is right for
  the address really accessed.
\<close>

theorem cache_run_sound:
  assumes "traits_ok T" "\<forall>i < unat (N_SETS T). Q i \<in> lru_start (ASSOCIATIVITY T) b"
    and "list_all2 (\<lambda>(aa, ls) a. access_ok T E aa a) accs as"
  shows "\<exists>cl cs'. cache_run T E (mm T E) accs (cache_init T (mm T E) b) = Some (cl, cs') \<and>
    fold (lru_cache_access T) as Q \<in> mm_gamma T cs' \<and>
    trace_justified T E (lru_access (ASSOCIATIVITY T)) (\<lambda>q t. t \<in> set q) as cl Q"
  using must_may.comp.cache_run_contract [OF assms(1) lru_start_gamma [OF assms(1,2)] assms(3)] by blast

theorem cache_run_sound_witness:
  "\<exists>cl cs'. cache_run ex_traits ex_env (mm ex_traits ex_env)
      [(AInterval 0x20 0x24, LOAD), (AInterval 0x10 0x30, STORE)]
      (cache_init ex_traits (mm ex_traits ex_env) True) = Some (cl, cs') \<and>
    fold (lru_cache_access ex_traits) [0x20, 0x28] (\<lambda>_. []) \<in> mm_gamma ex_traits cs' \<and>
    trace_justified ex_traits ex_env (lru_access 4) (\<lambda>q t. t \<in> set q) [0x20, 0x28] cl (\<lambda>_. [])"
proof -
  have "\<forall>i < unat (N_SETS ex_traits). [] \<in> lru_start (ASSOCIATIVITY ex_traits) True"
    by (simp add: lru_start_def lru_wf_def)
  moreover have "access_ok ex_traits ex_env (AInterval 0x20 0x24) 0x20"
    by (simp add: access_ok_def aa_lower_def aa_upper_def block_def lsize_def getCachelineAddress_def)
  moreover have "access_ok ex_traits ex_env (AInterval 0x10 0x30) 0x28"
    by (simp add: access_ok_def aa_lower_def aa_upper_def block_def lsize_def interval_ok_def getTag_def)
  ultimately show ?thesis
    using cache_run_sound [OF ex_traits_ok, of "\<lambda>_. []" True ex_env
        "[(AInterval 0x20 0x24, LOAD), (AInterval 0x10 0x30, STORE)]" "[0x20, 0x28]"] by simp
qed

text \<open>
  C13: \<open>classify\<close> of a cache that describes the concrete one ends, for every address or interval
  that does not reach the last line of the address space.  If it answers hit, every address of the
  interval hits; if it answers miss, every address of the interval misses for whose line \<open>CNN\<close> counts no
  conflicting line of another core (it counts some only in a second-level cache under \<open>LiangY\<close>).
\<close>

theorem cache_classify_must_may:
  assumes "traits_ok T" "mm_inv T cs" "Q \<in> mm_gamma T cs"
    and "aa_lower E aa \<le> aa_upper E aa" "Suc (block T (aa_upper E aa)) * lsize T < 2 ^ 32"
  shows "\<exists>c. cache_classify T E (mm T E) cs aa = Some c \<and> plain_class c \<and>
    (\<forall>a. aa_lower E aa \<le> a \<and> a \<le> aa_upper E aa \<longrightarrow> (c = CL_HIT \<longrightarrow> lru_cache_hit T Q a) \<and>
      (c = CL_MISS \<and> CNN T E (getindex T a) (getTag T a) = 0 \<longrightarrow> \<not> lru_cache_hit T Q a))"
  using must_may.comp.cache_classify_sound [OF assms] .

theorem cache_classify_must_may_witness:
  "\<exists>c. cache_classify ex_traits ex_env (mm ex_traits ex_env) (cache_init ex_traits (mm ex_traits ex_env) True)
      (AInterval 0x10 0x30) = Some c \<and> c \<noteq> CL_HIT"
proof -
  have "\<forall>i < unat (N_SETS ex_traits). [] \<in> lru_start (ASSOCIATIVITY ex_traits) True"
    by (simp add: lru_start_def lru_wf_def)
  note start = lru_start_gamma [OF ex_traits_ok this, of ex_env]
  have "\<not> lru_cache_hit ex_traits (\<lambda>_. []) 0x10" by (simp add: cache_hit_def)
  then show ?thesis
    using cache_classify_must_may [OF ex_traits_ok start, of ex_env "AInterval 0x10 0x30"]
    by (force simp: aa_lower_def aa_upper_def block_def lsize_def)
qed

text \<open>
  C12: \<open>update\<close> for an access to one line, with a hit assumed only if the access hits: no assertion
  fails, the new state describes the concrete cache after the access, and a report is given exactly
  if it is wanted.
\<close>

theorem cache_update_must_may:
  assumes "traits_ok T" "mm_inv T cs" "Q \<in> mm_gamma T cs" "c \<noteq> CL_BOT"
    and "must_assumes_hit T c \<Longrightarrow> lru_cache_hit T Q a"
    and "getCachelineAddress T (aa_lower E aa) = getCachelineAddress T (aa_upper E aa)"
    and "getCachelineAddress T a = getCachelineAddress T (aa_lower E aa)"
  shows "\<exists>cs' r. cache_update T E (mm T E) cs aa ls None rep c = Some (cs', r) \<and> mm_inv T cs' \<and>
    lru_cache_access T a Q \<in> mm_gamma T cs' \<and> (r \<noteq> None \<longleftrightarrow> rep)"
  using must_may.comp.precise_update_sound [OF assms] .

theorem cache_update_must_may_witness:
  "\<exists>cs' r. cache_update ex_traits ex_env (mm ex_traits ex_env) (cache_init ex_traits (mm ex_traits ex_env) True)
      (aa_of_address 0x20) LOAD None True CL_MISS = Some (cs', r) \<and>
    lru_cache_access ex_traits 0x24 (\<lambda>_. []) \<in> mm_gamma ex_traits cs' \<and> r \<noteq> None"
proof -
  have "\<forall>i < unat (N_SETS ex_traits). [] \<in> lru_start (ASSOCIATIVITY ex_traits) True"
    by (simp add: lru_start_def lru_wf_def)
  note start = lru_start_gamma [OF ex_traits_ok this, of ex_env]
  have "\<not> must_assumes_hit ex_traits CL_MISS" by (simp add: must_assumes_hit_def)
  then show ?thesis
    using cache_update_must_may [OF ex_traits_ok start, of CL_MISS "0x24" ex_env "aa_of_address 0x20" LOAD True]
    by (auto simp: getCachelineAddress_def)
qed

lemma cache_join_must_may_facts:
  assumes "traits_ok T" "mm_inv T x" "mm_inv T y"
  shows "mm_inv T (cache_join T (mm T E) x y)"
    and "mm_gamma T x \<union> mm_gamma T y \<subseteq> mm_gamma T (cache_join T (mm T E) x y)"
    and "cache_lessequal T (mm T E) x y \<Longrightarrow> mm_gamma T x \<subseteq> mm_gamma T y"
  using must_may.comp.cache_join_sound [OF assms] must_may.comp.cache_lessequal_sound [OF assms] by blast+

text \<open>
  \<open>join\<close> describes the concrete caches of both arguments, \<open>lessequal\<close> implies that the second
  argument describes all caches of the first, both for a vector of sets of the right length.
\<close>

theorem cache_join_must_may:
  assumes "traits_ok T" "mm_inv T x" "mm_inv T y"
  shows "(mm_inv T (cache_join T (mm T E) x y)) \<and>
    (mm_gamma T x \<union> mm_gamma T y \<subseteq> mm_gamma T (cache_join T (mm T E) x y)) \<and>
    (cache_lessequal T (mm T E) x y \<longrightarrow> mm_gamma T x \<subseteq> mm_gamma T y)"
  using cache_join_must_may_facts [OF assms] by blast

theorem cache_join_must_may_witness:
  "(\<lambda>_. []) \<in> mm_gamma ex_traits (cache_join ex_traits (mm ex_traits ex_env)
     (cache_init ex_traits (mm ex_traits ex_env) True) (cache_init ex_traits (mm ex_traits ex_env) False))"
proof -
  have "\<forall>i < unat (N_SETS ex_traits). [] \<in> lru_start (ASSOCIATIVITY ex_traits) b" for b
    by (simp add: lru_start_def lru_wf_def)
  note start = lru_start_gamma [OF ex_traits_ok this, of ex_env]
  show ?thesis using cache_join_must_may [OF ex_traits_ok start(1) start(1)] start(2) by blast
qed

section \<open>Where the address arithmetic goes wrong\<close>

text \<open>A loop all of whose classifications are misses does not leave it at the last line.\<close>

lemma lsize_dvd: "traits_ok T \<Longrightarrow> lsize T dvd 2 ^ 32"
proof -
  assume "traits_ok T"
  then obtain k where k: "k < 32" "LINE_SIZE T = 2 ^ k" by (rule traits_okE)
  have "unat (push_bit k (1 :: 32 word)) = take_bit LENGTH(32) (push_bit k (unat (1 :: 32 word)))"
    by (rule unsigned_push_bit_eq)
  then have "lsize T = 2 ^ k" using k by (simp add: lsize_def push_bit_eq_mult)
  moreover have "(2 :: nat) ^ k dvd 2 ^ 32" using k(1) by (intro le_imp_power_dvd) simp
  ultimately show ?thesis by (simp only:)
qed

lemma line_addr_le_last:
  assumes "traits_ok T"
  shows "line_addr T b \<le> getCachelineAddress T (- 1)"
proof -
  have "lsize T dvd unat (line_addr T b)"
    using lsize_dvd [OF assms] by (simp add: line_addr_def unat_of_nat dvd_mod take_bit_eq_mod del: of_nat_mult)
  then obtain q where q: "unat (line_addr T b) = q * lsize T" by (auto simp: dvd_def ac_simps)
  have "line_addr T b \<le> - 1" by simp
  then have "unat (line_addr T b) \<le> unat (- 1 :: 32 word)" by (simp only: word_le_nat_alt)
  then have "q \<le> unat (- 1 :: 32 word) div lsize T"
    using lsize_pos [OF assms] q by (metis div_le_mono nonzero_mult_div_cancel_right not_gr_zero)
  then show ?thesis
    unfolding word_le_nat_alt unat_line [OF assms] q block_def by simp
qed

definition only_misses ::
  "cache_traits \<Rightarrow> ('s, 'd) set_analysis \<Rightarrow> 's cache \<Rightarrow> address \<Rightarrow> address \<Rightarrow> classification \<Rightarrow> bool" where
  "only_misses T An cs low up res \<longleftrightarrow>
     traits_ok T \<and> (\<forall>a. sa_classify An (cache_set T cs a) (aa_of_address a) = Some CL_MISS) \<and>
     up = getCachelineAddress T (- 1) \<and> (\<exists>b. low = line_addr T b) \<and> (res = CL_BOT \<or> res = CL_MISS)"

lemma only_misses_step:
  assumes "only_misses T An cs low up res"
  shows "low \<le> up" "res \<noteq> CL_UNKNOWN"
    "sa_classify An (cache_set T cs low) (aa_of_address low) = Some CL_MISS"
    "only_misses T An cs (low + LINE_SIZE T) up (bs_join res CL_MISS)"
proof -
  obtain b where b: "low = line_addr T b" using assms by (auto simp: only_misses_def)
  show "low \<le> up" using assms line_addr_le_last b by (auto simp: only_misses_def)
  show "res \<noteq> CL_UNKNOWN" "sa_classify An (cache_set T cs low) (aa_of_address low) = Some CL_MISS"
    using assms by (auto simp: only_misses_def)
  have "\<exists>b. low + LINE_SIZE T = line_addr T b" unfolding b line_addr_step by blast
  then show "only_misses T An cs (low + LINE_SIZE T) up (bs_join res CL_MISS)"
    using assms by (auto simp: only_misses_def)
qed

lemma classify_loop_diverges:
  fixes An :: "('a, 'b) set_analysis" and cs :: "'a cache"
  assumes "classify_loop T An cs low up res = Some y"
  shows "\<not> only_misses T An cs low up res"
proof (rule classify_loop.raw_induct [where P = "\<lambda>T An cs low up res y. \<not> only_misses T An cs low up res", OF _ assms])
  fix loop and T and An :: "('a, 'b) set_analysis" and cs :: "'a cache" and low up and res y :: classification
  assume IH: "\<And>T (An :: ('a, 'b) set_analysis) (cs :: 'a cache) low up res (y :: classification). loop T An cs low up res = Some y \<Longrightarrow> \<not> only_misses T An cs low up res"
  assume body: "(if low \<le> up \<and> res \<noteq> CL_UNKNOWN
      then Option.bind (sa_classify An (cache_set T cs low) (aa_of_address low))
             (\<lambda>c. loop T An cs (low + LINE_SIZE T) up (bs_join res c))
      else Some res) = Some y"
  show "\<not> only_misses T An cs low up res"
  proof
    assume "only_misses T An cs low up res"
    note step = only_misses_step [OF this]
    have "loop T An cs (low + LINE_SIZE T) up (bs_join res CL_MISS) = Some y"
      using body step(1-3) by simp
    from IH [OF this] show False using step(4) by blast
  qed
qed

text \<open>
  The loop of \<open>classify\<close> never ends for an access to the last line of the address space in a
  cache assumed to be empty: the bound it compares with is the greatest line address, so the
  unsigned counter never exceeds it.
\<close>

theorem cache_classify_last_line_diverges:
  assumes "traits_ok T" "aa_upper E aa \<ge> getCachelineAddress T (- 1)"
    and "\<not> aa_same_interval E aa aa_unknown"
  shows "cache_classify T E (mm T E) (cache_init T (mm T E) True) aa = None"
proof -
  let ?cs = "cache_init T (mm T E) True"
  have miss: "\<forall>a. sa_classify (mm T E) (cache_set T ?cs a) (aa_of_address a) = Some CL_MISS"
    using traits_ok_assoc [OF assms(1)] getindex_less_nat [OF assms(1)]
    by (simp add: compositional_def comp_classify_def must_analysis_def may_analysis_def cache_init_def
        cache_set_def getTagAndIndex_eq must_classify_def must_classify_tag_def must_init_def
        may_classify_def may_classify_tag_def may_init_def)
  have "block T (getCachelineAddress T (- 1)) = block T (- 1)"
    using assms(1) same_line_block getCachelineAddress_idem by blast
  then have "block T (aa_upper E aa) = block T (- 1)"
    using block_mono [OF assms(2), of T] block_mono [of "aa_upper E aa" "- 1" T] by simp
  then have up: "getCachelineAddress T (aa_upper E aa) = getCachelineAddress T (- 1)"
    using same_line_block [OF assms(1)] by blast
  have low: "\<exists>b. getCachelineAddress T (aa_lower E aa) = line_addr T b"
    using line_addr_block [OF assms(1)] by metis
  have "classify_loop T (mm T E) ?cs (getCachelineAddress T (aa_lower E aa)) (getCachelineAddress T (- 1)) CL_BOT \<noteq> Some y" for y
    using classify_loop_diverges assms(1) miss low unfolding only_misses_def by blast
  then have "classify_loop T (mm T E) ?cs (getCachelineAddress T (aa_lower E aa)) (getCachelineAddress T (- 1)) CL_BOT = None"
    by (cases "classify_loop T (mm T E) ?cs (getCachelineAddress T (aa_lower E aa)) (getCachelineAddress T (- 1)) CL_BOT") auto
  then show ?thesis using assms(3) by (simp add: cache_classify_def alignToCacheline_def up)
qed

theorem cache_classify_last_line_diverges_witness:
  "cache_classify ex_traits ex_env (mm ex_traits ex_env) (cache_init ex_traits (mm ex_traits ex_env) True)
     (aa_of_address 0xFFFFFFF4) = None"
proof -
  have "aa_upper ex_env (aa_of_address 0xFFFFFFF4) \<ge> getCachelineAddress ex_traits (- 1)"
    by (simp add: getCachelineAddress_def)
  moreover have "\<not> aa_same_interval ex_env (aa_of_address 0xFFFFFFF4) aa_unknown"
    by (simp add: aa_same_interval_def aa_unknown_def aa_lower_def aa_upper_def aa_of_address_def)
  ultimately show ?thesis by (rule cache_classify_last_line_diverges [OF ex_traits_ok])
qed

text \<open>
  C16: \<open>getCacheSetInterval\<close> adds a word of four bytes to the interval, not the rest of the line: an
  interval of unsupported length that starts and ends in lines of the same set, one turn of the set
  numbers apart, is taken for that set alone, and \<open>update\<close> fails its assertion.
\<close>

theorem cache_update_one_set_fails:
  assumes "getCachelineAddress T (aa_lower E aa) \<noteq> getCachelineAddress T (aa_upper E aa)"
    and "getindex T (aa_lower E aa) = getindex T (aa_upper E aa)" and "N_SETS T \<noteq> 1"
    and "aa_upper E aa + 4 - aa_lower E aa < N_SETS T * LINE_SIZE T"
  shows "cache_update T E An cs aa ls deps rep c = None"
proof -
  have "(N_SETS T * LINE_SIZE T \<le> aa_upper E aa + 4 - aa_lower E aa) = False" using assms(4) by (simp add: not_le)
  then show ?thesis
    using assms(1-3) by (simp add: cache_update_def alignToCacheline_def Let_def getCacheSetInterval_def getCacheSet_eq)
qed

theorem cache_update_one_set_fails_witness:
  "cache_update (make_traits 1 16 2 32 True True) ex_env (mm (make_traits 1 16 2 32 True True) ex_env)
     (cache_init (make_traits 1 16 2 32 True True) (mm (make_traits 1 16 2 32 True True) ex_env) True)
     (AInterval 8 512) LOAD None False CL_UNKNOWN = None"
  by (rule cache_update_one_set_fails)
    (simp_all add: make_traits_def aa_lower_def aa_upper_def getCachelineAddress_def getindex_def)

end
