(* ===== verification/TA_Multicore.thy ===== *)
theory TA_Multicore
  imports TA_Prelude
begin

text \<open>
  The task tables of the multi-core analysis (\<open>include/Util/muticoreinfo.h\<close>, class
  \<open>Multicoreinfo\<close>): which tasks run on which core, their execution time bounds, the life times
  derived from them, and which tasks of other cores may run at the same time.

  A \<open>std::vector\<close> per core is a list, a \<open>std::map\<close> a finite map.  \<open>None\<close> is an access to a core
  that does not exist, or an exception of \<open>at\<close>.  \<open>operator[]\<close> of a map inserts the default 0 for
  a key that is not there, and so do the operations that use it.
\<close>

type_synonym time = "32 word"
type_synonym func = string

record multicoreinfo =
  mc_schedule :: "(time \<times> time) list list"
  mc_BWtime :: "(time \<times> time) list list"
  mc_coreOrz :: "(func \<rightharpoonup> nat) list"
  mc_withtime :: "func \<rightharpoonup> (address \<Rightarrow> 32 word)"
  mc_addressinfo :: "func \<rightharpoonup> address set"
  mc_coreinfo :: "func list list"

section \<open>The operations\<close>

definition mc_init :: "nat \<Rightarrow> multicoreinfo" where
  "mc_init coreNum =
     \<lparr>mc_schedule = replicate coreNum [], mc_BWtime = replicate coreNum [],
      mc_coreOrz = replicate coreNum Map.empty, mc_withtime = Map.empty, mc_addressinfo = Map.empty,
      mc_coreinfo = replicate coreNum []\<rparr>"

definition resize :: "nat \<Rightarrow> 'a \<Rightarrow> 'a list \<Rightarrow> 'a list" where
  "resize n d xs = take n xs @ replicate (n - length xs) d"

definition mc_setSize :: "multicoreinfo \<Rightarrow> nat \<Rightarrow> multicoreinfo" where
  "mc_setSize s core =
     s\<lparr>mc_schedule := resize core [] (mc_schedule s), mc_BWtime := resize core [] (mc_BWtime s),
       mc_coreinfo := resize core [] (mc_coreinfo s),
       mc_coreOrz := resize core Map.empty (mc_coreOrz s)\<rparr>"

definition mc_addaddress :: "multicoreinfo \<Rightarrow> func \<Rightarrow> address \<Rightarrow> multicoreinfo option" where
  "mc_addaddress s function addressLINE =
     (case mc_addressinfo s function of
        None \<Rightarrow> None
      | Some A \<Rightarrow> Some (s\<lparr>mc_addressinfo := (mc_addressinfo s)(function \<mapsto> insert addressLINE A)\<rparr>))"

fun mc_addaddresses :: "multicoreinfo \<Rightarrow> func \<Rightarrow> address list \<Rightarrow> 32 word \<Rightarrow> multicoreinfo option" where
  "mc_addaddresses s function [] time = Some s"
| "mc_addaddresses s function (a # addrlist) time =
     (case mc_withtime s function of
        None \<Rightarrow> None
      | Some w \<Rightarrow>
          (case mc_addaddress (s\<lparr>mc_withtime := (mc_withtime s)(function \<mapsto> w(a := w a + time))\<rparr>)
                  function a of
             None \<Rightarrow> None
           | Some s' \<Rightarrow> mc_addaddresses s' function addrlist time))"

text \<open>\<open>std::map::insert\<close> keeps an entry that exists.\<close>

definition map_insert :: "('k \<rightharpoonup> 'v) \<Rightarrow> 'k \<Rightarrow> 'v \<Rightarrow> ('k \<rightharpoonup> 'v)" where
  "map_insert m k v = (case m k of None \<Rightarrow> m(k \<mapsto> v) | Some _ \<Rightarrow> m)"

definition mc_addTask :: "multicoreinfo \<Rightarrow> nat \<Rightarrow> func \<Rightarrow> multicoreinfo option" where
  "mc_addTask s num function =
     (if num \<ge> length (mc_coreinfo s) then None
      else
        let ci = mc_coreinfo s ! num @ [function];
            s1 = s\<lparr>mc_coreinfo := (mc_coreinfo s)[num := ci]\<rparr>;
            s2 = (if mc_addressinfo s1 function = None
                  then s1\<lparr>mc_withtime := map_insert (mc_withtime s1) function (\<lambda>_. 0),
                          mc_addressinfo := map_insert (mc_addressinfo s1) function {}\<rparr>
                  else s1)
        in Some (s2\<lparr>mc_coreOrz := (mc_coreOrz s2)[num :=
                         map_insert (mc_coreOrz s2 ! num) function (length ci - 1)],
                    mc_schedule := (mc_schedule s2)[num := mc_schedule s2 ! num @ [(0, 0)]],
                    mc_BWtime := (mc_BWtime s2)[num := mc_BWtime s2 ! num @ [(0, 0)]]\<rparr>))"

definition set_slot :: "(time \<times> time) list list \<Rightarrow> nat \<Rightarrow> nat \<Rightarrow> (time \<times> time) \<Rightarrow> (time \<times> time) list list" where
  "set_slot S core i v = S[core := (S ! core)[i := v]]"

definition mc_setTaskTime ::
  "multicoreinfo \<Rightarrow> nat \<Rightarrow> func \<Rightarrow> time \<Rightarrow> time \<Rightarrow> multicoreinfo option" where
  "mc_setTaskTime s core function early latest =
     (if core \<ge> length (mc_coreOrz s) then None
      else (case (mc_coreOrz s ! core) function of
              None \<Rightarrow> Some s
            | Some i \<Rightarrow> Some (s\<lparr>mc_schedule := set_slot (mc_schedule s) core i (early, latest)\<rparr>)))"

definition mc_updateTaskTime ::
  "multicoreinfo \<Rightarrow> nat \<Rightarrow> func \<Rightarrow> time \<Rightarrow> time \<Rightarrow> (multicoreinfo \<times> bool) option" where
  "mc_updateTaskTime s core function early latest =
     (if core \<ge> length (mc_coreOrz s) then None
      else (case (mc_coreOrz s ! core) function of
              None \<Rightarrow> Some (s, False)
            | Some taskNum \<Rightarrow>
                let changed = (mc_BWtime s ! core ! taskNum \<noteq> (early, latest));
                    s1 = (if changed
                          then s\<lparr>mc_BWtime := set_slot (mc_BWtime s) core taskNum (early, latest)\<rparr>
                          else s);
                    sched = mc_schedule s1;
                    base = (if taskNum = 0 then 0 else snd (sched ! core ! (taskNum - 1)));
                    sched1 = set_slot sched core taskNum (fst (sched ! core ! taskNum), base + latest);
                    sched2 = (if taskNum \<noteq> length (sched1 ! core) - 1
                              then set_slot sched1 core (taskNum + 1)
                                     (fst (sched1 ! core ! taskNum) + early,
                                      snd (sched1 ! core ! (taskNum + 1)))
                              else sched1)
                in Some (s1\<lparr>mc_schedule := sched2\<rparr>, changed)))"

text \<open>\<open>coreOrz[core][function]\<close>: the index, and the table with the key inserted.\<close>

definition mc_index :: "multicoreinfo \<Rightarrow> nat \<Rightarrow> func \<Rightarrow> multicoreinfo \<times> nat" where
  "mc_index s core function =
     (case (mc_coreOrz s ! core) function of
        Some i \<Rightarrow> (s, i)
      | None \<Rightarrow> (s\<lparr>mc_coreOrz := (mc_coreOrz s)[core := (mc_coreOrz s ! core)(function \<mapsto> 0)]\<rparr>, 0))"

definition lifetimes_conflict :: "time \<times> time \<Rightarrow> time \<times> time \<Rightarrow> bool" where
  "lifetimes_conflict t l \<longleftrightarrow>
     (snd t > fst l \<and> snd t < snd l) \<or> (fst t \<ge> fst l \<and> fst t < snd l) \<or>
     (fst l \<ge> fst t \<and> snd l \<le> snd t)"

definition mc_getConflictFunction ::
  "multicoreinfo \<Rightarrow> nat \<Rightarrow> func \<Rightarrow> (multicoreinfo \<times> func list) option" where
  "mc_getConflictFunction s core function =
     (if core \<ge> length (mc_coreOrz s) then None
      else
        let (s', i) = mc_index s core function in
        if i \<ge> length (mc_schedule s' ! core) then None
        else
          let liftime = mc_schedule s' ! core ! i
          in Some (s', concat (map (\<lambda>c. if c = core then []
               else map (\<lambda>j. mc_coreinfo s' ! c ! j)
                      (filter (\<lambda>j. lifetimes_conflict (mc_schedule s' ! c ! j) liftime)
                         [0..<length (mc_schedule s' ! c)]))
             [0..<length (mc_schedule s')])))"

definition mc_getlifetime ::
  "multicoreinfo \<Rightarrow> nat \<Rightarrow> func \<Rightarrow> (multicoreinfo \<times> (time \<times> time)) option" where
  "mc_getlifetime s core function =
     (if core \<ge> length (mc_coreOrz s) then None
      else let (s', i) = mc_index s core function in
        if i \<ge> length (mc_schedule s' ! core) then None else Some (s', mc_schedule s' ! core ! i))"

definition mc_getPreTask ::
  "multicoreinfo \<Rightarrow> nat \<Rightarrow> func \<Rightarrow> (multicoreinfo \<times> (time \<times> time)) option" where
  "mc_getPreTask s core function =
     (if core \<ge> length (mc_coreOrz s) then None
      else let (s', i) = mc_index s core function in
        if i = 0 then Some (s', (0, 0)) else Some (s', mc_schedule s' ! core ! (i - 1)))"

section \<open>The invariant of the tables\<close>

definition mc_wf :: "multicoreinfo \<Rightarrow> bool" where
  "mc_wf s \<longleftrightarrow>
     length (mc_BWtime s) = length (mc_schedule s) \<and> length (mc_coreOrz s) = length (mc_schedule s) \<and>
     length (mc_coreinfo s) = length (mc_schedule s) \<and>
     (\<forall>c < length (mc_schedule s).
        length (mc_BWtime s ! c) = length (mc_schedule s ! c) \<and>
        length (mc_coreinfo s ! c) = length (mc_schedule s ! c) \<and>
        (\<forall>f i. (mc_coreOrz s ! c) f = Some i \<longrightarrow> i < length (mc_schedule s ! c)))"

text \<open>A core whose tasks are distinct functions, each registered at its position.\<close>

definition mc_registered :: "multicoreinfo \<Rightarrow> nat \<Rightarrow> bool" where
  "mc_registered s c \<longleftrightarrow>
     (\<forall>i < length (mc_coreinfo s ! c). (mc_coreOrz s ! c) (mc_coreinfo s ! c ! i) = Some i)"

lemma mc_wf_init: "mc_wf (mc_init n)"
  by (simp add: mc_wf_def mc_init_def)

lemma length_set_slot [simp]:
  "length (set_slot S c i v) = length S" "length (set_slot S c i v ! d) = length (S ! d)"
proof -
  show "length (set_slot S c i v) = length S" by (simp add: set_slot_def)
  show "length (set_slot S c i v ! d) = length (S ! d)"
    by (cases "c < length S"; cases "d = c") (simp_all add: set_slot_def list_update_beyond)
qed

lemma nth_set_slot:
  "c < length S \<Longrightarrow> i < length (S ! c) \<Longrightarrow>
     set_slot S c i v ! d ! j = (if d = c \<and> j = i then v else S ! d ! j)"
  by (auto simp: set_slot_def nth_list_update)

lemma mc_addTask_fields:
  assumes "num < length (mc_coreinfo s)"
  obtains s' where "mc_addTask s num f = Some s'"
    and "mc_coreinfo s' = (mc_coreinfo s)[num := mc_coreinfo s ! num @ [f]]"
    and "mc_schedule s' = (mc_schedule s)[num := mc_schedule s ! num @ [(0, 0)]]"
    and "mc_BWtime s' = (mc_BWtime s)[num := mc_BWtime s ! num @ [(0, 0)]]"
    and "mc_coreOrz s' = (mc_coreOrz s)[num :=
      map_insert (mc_coreOrz s ! num) f (length (mc_coreinfo s ! num))]"
proof -
  obtain s' where "mc_addTask s num f = Some s'"
    using assms by (simp add: mc_addTask_def Let_def)
  then show thesis
    by (rule that) (use \<open>mc_addTask s num f = Some s'\<close> assms in
      \<open>auto simp: mc_addTask_def Let_def split: if_splits\<close>)
qed

lemma map_insert_Some: "map_insert m k v x = Some y \<Longrightarrow> m x = Some y \<or> x = k \<and> y = v"
  by (auto simp: map_insert_def split: option.splits if_splits)

lemma mc_wfD:
  assumes "mc_wf s"
  shows "length (mc_BWtime s) = length (mc_schedule s)" "length (mc_coreOrz s) = length (mc_schedule s)"
    "length (mc_coreinfo s) = length (mc_schedule s)"
    "c < length (mc_schedule s) \<Longrightarrow> length (mc_BWtime s ! c) = length (mc_schedule s ! c)"
    "c < length (mc_schedule s) \<Longrightarrow> length (mc_coreinfo s ! c) = length (mc_schedule s ! c)"
    "c < length (mc_schedule s) \<Longrightarrow> (mc_coreOrz s ! c) f = Some i \<Longrightarrow> i < length (mc_schedule s ! c)"
  using assms unfolding mc_wf_def by blast+

lemma mc_wf_addTask:
  assumes "mc_wf s" and "num < length (mc_schedule s)"
  shows "\<exists>s'. mc_addTask s num f = Some s' \<and> mc_wf s' \<and>
    mc_coreinfo s' = (mc_coreinfo s)[num := mc_coreinfo s ! num @ [f]]"
proof -
  note wf = mc_wfD [OF assms(1)]
  have "num < length (mc_coreinfo s)" using assms(2) wf by simp
  then obtain s' where s': "mc_addTask s num f = Some s'"
    "mc_coreinfo s' = (mc_coreinfo s)[num := mc_coreinfo s ! num @ [f]]"
    "mc_schedule s' = (mc_schedule s)[num := mc_schedule s ! num @ [(0, 0)]]"
    "mc_BWtime s' = (mc_BWtime s)[num := mc_BWtime s ! num @ [(0, 0)]]"
    "mc_coreOrz s' = (mc_coreOrz s)[num :=
      map_insert (mc_coreOrz s ! num) f (length (mc_coreinfo s ! num))]"
    by (rule mc_addTask_fields)
  have "length (mc_BWtime s' ! c) = length (mc_schedule s' ! c) \<and>
      length (mc_coreinfo s' ! c) = length (mc_schedule s' ! c) \<and>
      (\<forall>g i. (mc_coreOrz s' ! c) g = Some i \<longrightarrow> i < length (mc_schedule s' ! c))"
    if c: "c < length (mc_schedule s)" for c
  proof (cases "c = num")
    case True
    then show ?thesis using c wf(1-3) wf(4,5) [OF c] wf(6) [OF c] s'
      by (auto dest!: map_insert_Some intro: less_SucI)
  next
    case False
    then show ?thesis using wf(4,5) [OF c] wf(6) [OF c] s' by simp
  qed
  then have "mc_wf s'" using s' wf(1-3) by (simp add: mc_wf_def)
  then show ?thesis using s' by blast
qed

lemma mc_wf_same_lengths:
  assumes "mc_wf s" and "mc_coreinfo s' = mc_coreinfo s" and "mc_coreOrz s' = mc_coreOrz s"
    and "map length (mc_schedule s') = map length (mc_schedule s)"
    and "map length (mc_BWtime s') = map length (mc_BWtime s)"
  shows "mc_wf s'"
proof -
  note wf = mc_wfD [OF assms(1)]
  have len: "length (mc_schedule s') = length (mc_schedule s)" "length (mc_BWtime s') = length (mc_BWtime s)"
    using assms(4,5) by (metis length_map)+
  have "length (mc_schedule s' ! c) = length (mc_schedule s ! c)"
    "length (mc_BWtime s' ! c) = length (mc_BWtime s ! c)" if "c < length (mc_schedule s)" for c
    using that assms(4,5) wf(1) len by (metis nth_map)+
  then show ?thesis using wf len assms(2,3) unfolding mc_wf_def by simp
qed

lemma map_length_set_slot [simp]: "map length (set_slot S c i v) = map length S"
  by (rule nth_equalityI) simp_all

lemma mc_wf_setTaskTime:
  assumes "mc_wf s" and "mc_setTaskTime s core f e l = Some s'"
  shows "mc_wf s'"
  by (rule mc_wf_same_lengths [OF assms(1)])
    (use assms(2) in \<open>auto simp: mc_setTaskTime_def split: option.splits if_splits\<close>)

lemma mc_wf_updateTaskTime:
  assumes "mc_wf s" and "mc_updateTaskTime s core f e l = Some (s', ch)"
  shows "mc_wf s'"
  by (rule mc_wf_same_lengths [OF assms(1)])
    (use assms(2) in \<open>auto simp: mc_updateTaskTime_def Let_def split: option.splits if_splits\<close>)

lemma mc_wf_index:
  assumes "mc_wf s" and "core < length (mc_schedule s)" and "mc_schedule s ! core \<noteq> []"
    and "mc_index s core f = (s', i)"
  shows "mc_wf s' \<and> i < length (mc_schedule s ! core) \<and> mc_schedule s' = mc_schedule s \<and>
    mc_coreinfo s' = mc_coreinfo s"
proof (cases "(mc_coreOrz s ! core) f")
  case (Some j)
  then show ?thesis using assms mc_wfD(6) [OF assms(1,2) Some] by (simp add: mc_index_def)
next
  case None
  then have s': "s' = s\<lparr>mc_coreOrz := (mc_coreOrz s)[core := (mc_coreOrz s ! core)(f \<mapsto> 0)]\<rparr>" "i = 0"
    using assms(4) by (simp_all add: mc_index_def)
  note wf = mc_wfD [OF assms(1)]
  have "(mc_coreOrz s' ! c) g = Some j \<Longrightarrow> j < length (mc_schedule s ! c)"
    if c: "c < length (mc_schedule s)" for c g j
    using wf(6) [OF c] assms(3) c wf(2) by (cases "c = core") (auto simp: s' split: if_splits)
  then have "mc_wf s'" using wf unfolding mc_wf_def by (simp add: s')
  then show ?thesis using s' assms(3) by simp
qed

section \<open>Life times\<close>

text \<open>All tasks of a core updated in their order with the given execution time bounds.\<close>

definition mc_update_run ::
  "nat \<Rightarrow> (time \<times> time) list \<Rightarrow> nat list \<Rightarrow> multicoreinfo \<Rightarrow> multicoreinfo option" where
  "mc_update_run c bs ks s = fold_opt (\<lambda>k s.
     map_option fst (mc_updateTaskTime s c (mc_coreinfo s ! c ! k) (fst (bs ! k)) (snd (bs ! k)))) ks s"

definition lo_sum :: "(time \<times> time) list \<Rightarrow> nat \<Rightarrow> nat" where
  "lo_sum bs k = sum_list (map (\<lambda>b. unat (fst b)) (take k bs))"

definition hi_sum :: "(time \<times> time) list \<Rightarrow> nat \<Rightarrow> nat" where
  "hi_sum bs k = sum_list (map (\<lambda>b. unat (snd b)) (take k bs))"

lemma sum_Suc:
  "k < length bs \<Longrightarrow> lo_sum bs (Suc k) = lo_sum bs k + unat (fst (bs ! k))"
  "k < length bs \<Longrightarrow> hi_sum bs (Suc k) = hi_sum bs k + unat (snd (bs ! k))"
  by (simp_all add: lo_sum_def hi_sum_def take_Suc_conv_app_nth)

lemma sum_mono:
  assumes "j \<le> k"
  shows "lo_sum bs j \<le> lo_sum bs k" and "hi_sum bs j \<le> hi_sum bs k"
proof -
  have "lo_sum bs n \<le> lo_sum bs (Suc n) \<and> hi_sum bs n \<le> hi_sum bs (Suc n)" for n
    by (cases "n < length bs") (simp_all add: sum_Suc, simp add: lo_sum_def hi_sum_def)
  then show "lo_sum bs j \<le> lo_sum bs k" "hi_sum bs j \<le> hi_sum bs k"
    using assms lift_Suc_mono_le [of "lo_sum bs" j k] lift_Suc_mono_le [of "hi_sum bs" j k] by blast+
qed

lemma update_registered:
  assumes "mc_wf s" and "c < length (mc_schedule s)" and "mc_registered s c"
    and "k < length (mc_schedule s ! c)"
  shows "\<exists>s' ch. mc_updateTaskTime s c (mc_coreinfo s ! c ! k) e l = Some (s', ch) \<and>
    mc_coreinfo s' = mc_coreinfo s \<and> mc_coreOrz s' = mc_coreOrz s \<and>
    map length (mc_schedule s') = map length (mc_schedule s) \<and>
    (\<forall>d j. j < length (mc_schedule s ! d) \<longrightarrow> mc_schedule s' ! d ! j =
      (if d = c \<and> j = k then (fst (mc_schedule s ! c ! k), (if k = 0 then 0 else snd (mc_schedule s ! c ! (k - 1))) + l)
       else if d = c \<and> j = Suc k then (fst (mc_schedule s ! c ! k) + e, snd (mc_schedule s ! c ! j))
       else mc_schedule s ! d ! j))"
proof -
  note wf = mc_wfD [OF assms(1)]
  have idx: "(mc_coreOrz s ! c) (mc_coreinfo s ! c ! k) = Some k"
    using assms(3,4) wf(5) [OF assms(2)] by (simp add: mc_registered_def)
  show ?thesis
    using assms(2,4) wf(2) idx by (auto simp: mc_updateTaskTime_def Let_def nth_set_slot)
qed

text \<open>The life times of the first tasks, once their bounds are entered.\<close>

definition lifetimes_upto :: "multicoreinfo \<Rightarrow> nat \<Rightarrow> (time \<times> time) list \<Rightarrow> nat \<Rightarrow> bool" where
  "lifetimes_upto s c bs m \<longleftrightarrow>
     (\<forall>k < length (mc_schedule s ! c).
        (k \<le> m \<longrightarrow> unat (fst (mc_schedule s ! c ! k)) = lo_sum bs k) \<and>
        (k < m \<longrightarrow> unat (snd (mc_schedule s ! c ! k)) = hi_sum bs (Suc k)))"

lemma update_lifetimes:
  assumes wf: "mc_wf s" "c < length (mc_schedule s)" "mc_registered s c"
    and bs: "length bs = length (mc_schedule s ! c)" "m < length bs"
      "lo_sum bs (length bs) < 2 ^ 32" "hi_sum bs (length bs) < 2 ^ 32"
    and inv: "lifetimes_upto s c bs m"
    and upd: "mc_updateTaskTime s c (mc_coreinfo s ! c ! m) (fst (bs ! m)) (snd (bs ! m)) = Some (s', ch)"
  shows "lifetimes_upto s' c bs (Suc m)" and "length (mc_schedule s' ! c) = length (mc_schedule s ! c)"
    and "mc_registered s' c" and "length (mc_schedule s') = length (mc_schedule s)"
    and "mc_coreinfo s' = mc_coreinfo s" and "d \<noteq> c \<Longrightarrow> d < length (mc_schedule s) \<Longrightarrow> mc_schedule s' ! d = mc_schedule s ! d"
proof -
  have m: "m < length (mc_schedule s ! c)" using bs by simp
  from update_registered [OF wf m, of "fst (bs ! m)" "snd (bs ! m)"] upd
  have same: "mc_coreinfo s' = mc_coreinfo s" "mc_coreOrz s' = mc_coreOrz s"
      "map length (mc_schedule s') = map length (mc_schedule s)"
    and sched: "\<And>d j. j < length (mc_schedule s ! d) \<Longrightarrow> mc_schedule s' ! d ! j =
      (if d = c \<and> j = m then (fst (mc_schedule s ! c ! m),
         (if m = 0 then 0 else snd (mc_schedule s ! c ! (m - 1))) + snd (bs ! m))
       else if d = c \<and> j = Suc m then (fst (mc_schedule s ! c ! m) + fst (bs ! m), snd (mc_schedule s ! c ! j))
       else mc_schedule s ! d ! j)"
    by auto
  show len: "length (mc_schedule s') = length (mc_schedule s)" using same(3) by (metis length_map)
  have lens: "length (mc_schedule s' ! d) = length (mc_schedule s ! d)" if "d < length (mc_schedule s)" for d
    using that same(3) len by (metis nth_map)
  then show lc: "length (mc_schedule s' ! c) = length (mc_schedule s ! c)" using wf(2) by blast
  show "mc_registered s' c" "mc_coreinfo s' = mc_coreinfo s" using wf(3) same by (simp_all add: mc_registered_def)
  show "d \<noteq> c \<Longrightarrow> d < length (mc_schedule s) \<Longrightarrow> mc_schedule s' ! d = mc_schedule s ! d"
    using lens sched by (intro nth_equalityI) auto
  have lo: "lo_sum bs (Suc m) < 2 ^ 32" "hi_sum bs (Suc m) < 2 ^ 32"
    using sum_mono [of "Suc m" "length bs" bs] bs by auto
  have first: "unat (fst (mc_schedule s ! c ! m)) = lo_sum bs m"
    using inv m by (simp add: lifetimes_upto_def)
  have prev: "unat (if m = 0 then 0 else snd (mc_schedule s ! c ! (m - 1))) = hi_sum bs m"
  proof (cases m)
    case 0
    then show ?thesis by (simp add: hi_sum_def)
  next
    case (Suc j)
    then show ?thesis using inv m by (auto simp: lifetimes_upto_def)
  qed
  have "unat (fst (mc_schedule s ! c ! m) + fst (bs ! m)) = lo_sum bs (Suc m)"
    using lo(1) first sum_Suc(1) [OF bs(2)] by (subst unat_add_small) auto
  moreover have "unat ((if m = 0 then 0 else snd (mc_schedule s ! c ! (m - 1))) + snd (bs ! m)) = hi_sum bs (Suc m)"
    using lo(2) prev sum_Suc(2) [OF bs(2)] by (subst unat_add_small) auto
  ultimately show "lifetimes_upto s' c bs (Suc m)"
    using inv first sched [of _ c] unfolding lifetimes_upto_def lc
    by (auto simp: less_Suc_eq le_Suc_eq)
qed

lemma lifetimes_start:
  assumes "fst (mc_schedule s ! c ! 0) = 0"
  shows "lifetimes_upto s c bs 0"
  using assms by (auto simp: lifetimes_upto_def lo_sum_def)

lemma update_run_lifetimes:
  assumes "mc_wf s" "c < length (mc_schedule s)" "mc_registered s c"
    and "length bs = length (mc_schedule s ! c)"
    and "lo_sum bs (length bs) < 2 ^ 32" "hi_sum bs (length bs) < 2 ^ 32"
    and "lifetimes_upto s c bs m" and "m + n \<le> length bs"
  shows "\<exists>s'. mc_update_run c bs [m..<m + n] s = Some s' \<and> mc_wf s' \<and> lifetimes_upto s' c bs (m + n) \<and>
    length (mc_schedule s' ! c) = length bs \<and> length (mc_schedule s') = length (mc_schedule s) \<and>
    mc_coreinfo s' = mc_coreinfo s \<and> mc_registered s' c \<and>
    (\<forall>d < length (mc_schedule s). d \<noteq> c \<longrightarrow> mc_schedule s' ! d = mc_schedule s ! d)"
  using assms
proof (induction n arbitrary: s m)
  case 0
  then show ?case by (simp add: mc_update_run_def)
next
  case (Suc n)
  have m: "m < length bs" using Suc.prems(8) by simp
  then have m': "m < length (mc_schedule s ! c)" using Suc.prems(4) by simp
  obtain s1 ch where s1: "mc_updateTaskTime s c (mc_coreinfo s ! c ! m) (fst (bs ! m)) (snd (bs ! m)) = Some (s1, ch)"
    using update_registered [OF Suc.prems(1-3) m'] by blast
  note step = update_lifetimes [OF Suc.prems(1-4) m Suc.prems(5-7) s1]
  have "length bs = length (mc_schedule s1 ! c)" using step(2) Suc.prems(4) by simp
  then obtain s' where s': "mc_update_run c bs [Suc m..<Suc m + n] s1 = Some s'" "mc_wf s'"
      "lifetimes_upto s' c bs (Suc m + n)" "length (mc_schedule s' ! c) = length bs"
      "length (mc_schedule s') = length (mc_schedule s1)" "mc_coreinfo s' = mc_coreinfo s1" "mc_registered s' c"
      "\<forall>d < length (mc_schedule s1). d \<noteq> c \<longrightarrow> mc_schedule s' ! d = mc_schedule s1 ! d"
    using Suc.IH [of s1 "Suc m"] mc_wf_updateTaskTime [OF Suc.prems(1) s1] step Suc.prems by auto
  have range: "[m..<m + Suc n] = m # [Suc m..<Suc m + n]" by (simp add: upt_rec)
  have "mc_update_run c bs [m..<m + Suc n] s = Some s'"
    unfolding range using s1 s'(1) by (simp add: mc_update_run_def)
  then show ?case using s' step by simp
qed

lemma conflict_if_overlap:
  assumes "fst t < snd l" and "fst l < snd t"
  shows "lifetimes_conflict t l"
  using assms by (auto simp: lifetimes_conflict_def)

lemma conflict_meaning:
  assumes "fst t \<le> snd t" and "fst l < snd l"
  shows "lifetimes_conflict t l \<longleftrightarrow> fst t < snd l \<and> (fst l < snd t \<or> fst l = fst t)"
  using assms unfolding lifetimes_conflict_def by auto

section \<open>Properties\<close>

lemma mc_invariant_facts:
  assumes "mc_wf s" and "core < length (mc_schedule s)"
  shows "\<exists>s'. mc_addTask s core f = Some s' \<and> mc_wf s'"
    and "\<exists>s'. mc_setTaskTime s core f e l = Some s' \<and> mc_wf s'"
    and "\<exists>s' ch. mc_updateTaskTime s core f e l = Some (s', ch) \<and> mc_wf s'"
    and "mc_schedule s ! core \<noteq> [] \<Longrightarrow> \<exists>s' fs. mc_getConflictFunction s core f = Some (s', fs) \<and> mc_wf s'"
proof -
  have orz: "core < length (mc_coreOrz s)" using assms mc_wfD(2) by simp
  show "\<exists>s'. mc_addTask s core f = Some s' \<and> mc_wf s'" using mc_wf_addTask [OF assms] by blast
  have "\<exists>s'. mc_setTaskTime s core f e l = Some s'"
    using orz by (simp add: mc_setTaskTime_def split: option.splits)
  then show "\<exists>s'. mc_setTaskTime s core f e l = Some s' \<and> mc_wf s'"
    using mc_wf_setTaskTime [OF assms(1)] by blast
  have "\<exists>s' ch. mc_updateTaskTime s core f e l = Some (s', ch)"
    using orz by (cases "(mc_coreOrz s ! core) f") (auto simp: mc_updateTaskTime_def Let_def)
  then show "\<exists>s' ch. mc_updateTaskTime s core f e l = Some (s', ch) \<and> mc_wf s'"
    using mc_wf_updateTaskTime [OF assms(1)] by blast
  assume ne: "mc_schedule s ! core \<noteq> []"
  obtain s' i where idx: "mc_index s core f = (s', i)" by (cases "mc_index s core f")
  show "\<exists>s' fs. mc_getConflictFunction s core f = Some (s', fs) \<and> mc_wf s'"
    using mc_wf_index [OF assms ne idx] idx orz by (simp add: mc_getConflictFunction_def)
qed

text \<open>Every operation on the task tables keeps their invariant, whatever its arguments.\<close>

theorem mc_invariant:
  assumes "mc_wf s" and "core < length (mc_schedule s)"
  shows "(\<exists>s'. mc_addTask s core f = Some s' \<and> mc_wf s') \<and>
    (\<exists>s'. mc_setTaskTime s core f e l = Some s' \<and> mc_wf s') \<and>
    (\<exists>s' ch. mc_updateTaskTime s core f e l = Some (s', ch) \<and> mc_wf s') \<and>
    (mc_schedule s ! core \<noteq> [] \<longrightarrow> (\<exists>s' fs. mc_getConflictFunction s core f = Some (s', fs) \<and> mc_wf s'))"
  using mc_invariant_facts [OF assms] by blast

definition ex_tables :: multicoreinfo where
  "ex_tables = \<lparr>mc_schedule = [[(0, 0)], [(0, 0)]], mc_BWtime = [[(0, 0)], [(0, 0)]],
     mc_coreOrz = [[''a'' \<mapsto> 0], [''b'' \<mapsto> 0]], mc_withtime = [''a'' \<mapsto> (\<lambda>_. 0), ''b'' \<mapsto> (\<lambda>_. 0)],
     mc_addressinfo = [''a'' \<mapsto> {}, ''b'' \<mapsto> {}], mc_coreinfo = [[''a''], [''b'']]\<rparr>"

lemma ex_tables_wf: "mc_wf ex_tables"
  by (auto simp: mc_wf_def ex_tables_def less_Suc_eq split: if_splits)

theorem mc_invariant_witness:
  "\<exists>s'. mc_addTask ex_tables 1 ''c'' = Some s' \<and> mc_wf s'"
proof -
  have "1 < length (mc_schedule ex_tables)" by (simp add: ex_tables_def)
  from mc_invariant [OF ex_tables_wf this, of "''c''"] show ?thesis by blast
qed

text \<open>
  Entering the execution time bounds of the tasks of a core in order gives every task the life
  time from the sum of the earlier best cases to the sum of the worst cases up to it, as long as
  the sums fit an unsigned number; the other cores are untouched.
\<close>

theorem mc_lifetimes:
  assumes "mc_wf s" and "c < length (mc_schedule s)" and "mc_registered s c"
    and "length bs = length (mc_schedule s ! c)" and "fst (mc_schedule s ! c ! 0) = 0"
    and "lo_sum bs (length bs) < 2 ^ 32" and "hi_sum bs (length bs) < 2 ^ 32"
  shows "\<exists>s'. mc_update_run c bs [0..<length bs] s = Some s' \<and> mc_wf s' \<and>
    (\<forall>k < length bs. unat (fst (mc_schedule s' ! c ! k)) = lo_sum bs k \<and>
                     unat (snd (mc_schedule s' ! c ! k)) = hi_sum bs (Suc k)) \<and>
    (\<forall>d < length (mc_schedule s). d \<noteq> c \<longrightarrow> mc_schedule s' ! d = mc_schedule s ! d)"
  using update_run_lifetimes [OF assms(1-4,6,7) lifetimes_start [OF assms(5)], of "length bs"]
  by (auto simp: lifetimes_upto_def)

theorem mc_lifetimes_witness:
  "\<exists>s'. mc_update_run 0 [(3, 7)] [0..<1] ex_tables = Some s' \<and> mc_wf s' \<and>
     unat (fst (mc_schedule s' ! 0 ! 0)) = lo_sum [(3, 7)] 0 \<and>
     unat (snd (mc_schedule s' ! 0 ! 0)) = hi_sum [(3, 7)] (Suc 0)"
proof -
  have "mc_registered ex_tables 0" by (simp add: mc_registered_def ex_tables_def)
  then show ?thesis
    using mc_lifetimes [OF ex_tables_wf, of 0 "[(3, 7)]"]
    by (auto simp: ex_tables_def lo_sum_def hi_sum_def)
qed



end
