(* ===== verification/TA_Ordered_Map.thy ===== *)
theory TA_Ordered_Map
  imports TA_Prelude
begin

text \<open>
  \<open>std::map\<close> as the list of its entries in the order of the keys: what an iteration over the map
  sees, and what the comparison operators of the maps compare.  A lookup is \<open>map_of\<close>.
\<close>

type_synonym ('k, 'v) omap = "('k \<times> 'v) list"

definition omap_wf :: "('k :: linorder, 'v) omap \<Rightarrow> bool" where
  "omap_wf m \<longleftrightarrow> sorted_wrt (<) (keys m)"

text \<open>\<open>m[k] = v\<close>.\<close>

fun omap_set :: "'k :: linorder \<Rightarrow> 'v \<Rightarrow> ('k, 'v) omap \<Rightarrow> ('k, 'v) omap" where
  "omap_set k v [] = [(k, v)]"
| "omap_set k v ((l, w) # m) =
     (if k < l then (k, v) # (l, w) # m else if k = l then (k, v) # m else (l, w) # omap_set k v m)"

text \<open>\<open>m.insert(make_pair(k, v))\<close> keeps an entry that exists.\<close>

definition omap_insert :: "'k :: linorder \<Rightarrow> 'v \<Rightarrow> ('k, 'v) omap \<Rightarrow> ('k, 'v) omap" where
  "omap_insert k v m = (if map_of m k = None then omap_set k v m else m)"

definition omap_erase :: "'k \<Rightarrow> ('k, 'v) omap \<Rightarrow> ('k, 'v) omap" where
  "omap_erase k m = filter (\<lambda>e. fst e \<noteq> k) m"

text \<open>A loop over the entries that replaces every value.\<close>

fun omap_update_all :: "('k \<Rightarrow> 'v \<Rightarrow> 'w option) \<Rightarrow> ('k, 'v) omap \<Rightarrow> ('k, 'w) omap option" where
  "omap_update_all f [] = Some []"
| "omap_update_all f ((k, v) # m) =
     (case f k v of None \<Rightarrow> None | Some v' \<Rightarrow> map_option (Cons (k, v')) (omap_update_all f m))"

text \<open>\<open>operator<\<close> of two maps: lexicographic on the entries.\<close>

fun omap_less :: "('v \<Rightarrow> 'v \<Rightarrow> bool) \<Rightarrow> ('k :: linorder, 'v) omap \<Rightarrow> ('k, 'v) omap \<Rightarrow> bool" where
  "omap_less lt xs [] = False"
| "omap_less lt [] (y # ys) = True"
| "omap_less lt ((k, v) # xs) ((l, w) # ys) =
     (if k < l \<or> (k = l \<and> lt v w) then True
      else if l < k \<or> (k = l \<and> lt w v) then False else omap_less lt xs ys)"

lemma map_of_omap_set [simp]: "map_of (omap_set k v m) = (map_of m)(k \<mapsto> v)"
  by (induction k v m rule: omap_set.induct) (auto simp: fun_upd_twist)

lemma keys_omap_set [simp]: "set (keys (omap_set k v m)) = insert k (set (keys m))"
  by (induction k v m rule: omap_set.induct) auto

lemma omap_wf_set [intro]: "omap_wf m \<Longrightarrow> omap_wf (omap_set k v m)"
proof (induction k v m rule: omap_set.induct)
  case (2 k v l w m)
  have "\<forall>x \<in> set (keys (omap_set k v m)). l < x" if "\<not> k < l" "k \<noteq> l"
    using 2(2) that unfolding keys_omap_set by (auto simp: omap_wf_def)
  then show ?case using 2 by (auto simp: omap_wf_def)
qed (simp add: omap_wf_def)

lemma omap_wf_insert [intro]: "omap_wf m \<Longrightarrow> omap_wf (omap_insert k v m)"
  by (simp add: omap_insert_def omap_wf_set)

lemma map_of_omap_insert [simp]:
  "map_of (omap_insert k v m) l = (if l = k \<and> map_of m k = None then Some v else map_of m l)"
  by (auto simp: omap_insert_def)

lemma map_of_omap_erase [simp]: "map_of (omap_erase k m) = (map_of m)(k := None)"
  by (induction m) (auto simp: omap_erase_def fun_eq_iff)

lemma omap_wf_erase [intro]: "omap_wf m \<Longrightarrow> omap_wf (omap_erase k m)"
  by (induction m) (auto simp: omap_wf_def omap_erase_def)

lemma omap_wf_Nil [simp]: "omap_wf []"
  by (simp add: omap_wf_def)

lemma omap_wf_distinct: "omap_wf m \<Longrightarrow> distinct (keys m)"
  by (simp add: omap_wf_def strict_sorted_iff)

lemma omap_update_all_spec:
  assumes "\<And>k v. map_of m k = Some v \<Longrightarrow> \<exists>v'. f k v = Some v' \<and> R k v v'" and "distinct (keys m)"
  shows "\<exists>m'. omap_update_all f m = Some m' \<and> keys m' = keys m \<and>
    (\<forall>k. (map_of m k = None \<longleftrightarrow> map_of m' k = None) \<and>
      (\<forall>v v'. map_of m k = Some v \<longrightarrow> map_of m' k = Some v' \<longrightarrow> f k v = Some v' \<and> R k v v'))"
  using assms
proof (induction m)
  case Nil
  then show ?case by simp
next
  case (Cons e m)
  obtain k v where e: "e = (k, v)" by (cases e)
  obtain v' where v': "f k v = Some v'" "R k v v'" using Cons.prems(1) [of k v] e by auto
  have "\<exists>v'. f l w = Some v' \<and> R l w v'" if "map_of m l = Some w" for l w
  proof -
    have "l \<noteq> k" using that Cons.prems(2) e by (metis distinct.simps(2) fst_conv list.simps(9) map_of_eq_None_iff option.distinct(1) set_map)
    then show ?thesis using Cons.prems(1) [of l w] that e by simp
  qed
  then obtain m' where m': "omap_update_all f m = Some m'" "keys m' = keys m"
    "\<forall>k. (map_of m k = None \<longleftrightarrow> map_of m' k = None) \<and>
      (\<forall>v v'. map_of m k = Some v \<longrightarrow> map_of m' k = Some v' \<longrightarrow> f k v = Some v' \<and> R k v v')"
    using Cons.IH Cons.prems(2) e by auto
  then have "omap_update_all f (e # m) = Some ((k, v') # m')" using v' e by simp
  then show ?case using m' v' e by auto
qed

end
