(* ===== verification/TA_Persistence.thy ===== *)
theory TA_Persistence
  imports TA_Ordered_Map TA_Set_Analysis "HOL-Library.Product_Lexorder" "HOL-Library.List_Lexorder"
begin

text \<open>
  The persistence analyses: \<open>SetWiseCountingPersistence\<close>, \<open>ElementWiseCountingPersistence\<close> and
  \<open>ConditionalMustPersistence\<close> (\<open>include/Memory/*Persistence.h\<close>).  They decide which memory
  blocks, once loaded into a cache set, stay there until the end of a scope.

  A \<open>std::set\<close> of blocks is a finite set (its order is that of the pairs), a \<open>std::multiset\<close> of
  arrays a multiset, a \<open>std::map\<close> a \<open>TA_Ordered_Map\<close>.  \<open>None\<close> is a failed assertion.
  The operations of an analysis are collected in a record, the template parameter \<open>P\<close> of
  \<open>MultiScopePersistence\<close>.
\<close>

record 's persistence =
  p_init :: 's
  p_update :: "'s \<Rightarrow> abs_address \<Rightarrow> access_type \<Rightarrow> bool \<Rightarrow> classification \<Rightarrow> ('s \<times> update_report option) option"
  p_potential :: "'s \<Rightarrow> abs_address \<Rightarrow> access_type \<Rightarrow> bool \<Rightarrow> ('s \<times> update_report option) option"
  p_join :: "'s \<Rightarrow> 's \<Rightarrow> 's option"
  p_lessequal :: "'s \<Rightarrow> 's \<Rightarrow> bool option"
  p_pers_tag :: "'s \<Rightarrow> tag \<Rightarrow> bool"
  p_pers_var :: "'s \<Rightarrow> gvar \<Rightarrow> bool"
  p_css_tag :: "'s \<Rightarrow> tag \<Rightarrow> int"
  p_css_var :: "'s \<Rightarrow> gvar \<Rightarrow> int"
  p_eq :: "'s \<Rightarrow> 's \<Rightarrow> bool"
  p_less :: "'s \<Rightarrow> 's \<Rightarrow> bool"

definition plain_report :: "bool \<Rightarrow> update_report option" where
  "plain_report wantReport = (if wantReport then Some PlainReport else None)"

section \<open>Set-wise counting\<close>

text \<open>A block is its tag with the arrays around it.\<close>

type_synonym block = "tag \<times> gvar list"

definition make_block :: "cache_traits \<Rightarrow> ana_env \<Rightarrow> abs_address \<Rightarrow> block option" where
  "make_block T E addr =
     (if \<not> aa_is_precise addr then None
      else
        let address = getCachelineAddress T (aa_lower E addr); t = getTag T address in
        if ArrayPersistenceAnalysis E = APNone then Some (t, [])
        else
          let around = filter (\<lambda>arr.
                let start = globalVarAddress E arr; end' = start + arraySize E arr - 1;
                    startLine = getCachelineAddress T start; endLine = getCachelineAddress T end'
                in startLine \<noteq> endLine \<and> startLine \<le> address \<and> address \<le> endLine) (globalVariables E)
          in if sorted around then Some (t, around) else None)"

record set_wise =
  sw_top :: bool
  sw_r :: address
  sw_blocks :: "block set"
  sw_arrays :: "gvar multiset"

definition sw_init :: "address \<Rightarrow> set_wise" where
  "sw_init addr = \<lparr>sw_top = False, sw_r = addr, sw_blocks = {}, sw_arrays = {#}\<rparr>"

definition sw_goto_top :: "set_wise \<Rightarrow> set_wise" where
  "sw_goto_top s = s\<lparr>sw_top := True, sw_blocks := {}, sw_arrays := {#}\<rparr>"

definition sw_size :: "set_wise \<Rightarrow> nat" where
  "sw_size s = card (sw_blocks s) + size (sw_arrays s)"

definition getPerArrayBound :: "cache_traits \<Rightarrow> ana_env \<Rightarrow> set_wise \<Rightarrow> gvar \<Rightarrow> nat option" where
  "getPerArrayBound T E s array =
     (let bound = sint (getPerSetSize T E array) - int (\<Sum>b \<in> sw_blocks s. count_list (snd b) array)
      in if bound \<ge> 0 then Some (nat bound) else None)"

definition sw_potential ::
  "cache_traits \<Rightarrow> ana_env \<Rightarrow> set_wise \<Rightarrow> abs_address \<Rightarrow> access_type \<Rightarrow> bool \<Rightarrow>
     (set_wise \<times> update_report option) option" where
  "sw_potential T E s addr load_store wantReport =
     (if sw_top s then Some (s, plain_report wantReport)
      else
        case (if ArrayPersistenceAnalysis E = APNone then None else aa_get_array addr) of
          None \<Rightarrow> Some (sw_goto_top s, plain_report wantReport)
        | Some array \<Rightarrow>
            (case getPerArrayBound T E s array of
               None \<Rightarrow> None
             | Some bound \<Rightarrow>
                 Some (if count (sw_arrays s) array < bound
                       then (if sw_size s > ASSOCIATIVITY T then sw_goto_top s
                             else s\<lparr>sw_arrays := add_mset array (sw_arrays s)\<rparr>)
                       else s, plain_report wantReport)))"

definition sw_update ::
  "cache_traits \<Rightarrow> ana_env \<Rightarrow> set_wise \<Rightarrow> abs_address \<Rightarrow> access_type \<Rightarrow> bool \<Rightarrow> classification \<Rightarrow>
     (set_wise \<times> update_report option) option" where
  "sw_update T E s addr load_store wantReport assumption =
     (if sw_top s then Some (s, plain_report wantReport)
      else if sw_r s \<noteq> 0 \<and> Some (getindex T (sw_r s)) \<noteq> aa_getindex T E addr then None
      else
        case make_block T E addr of
          None \<Rightarrow> None
        | Some b \<Rightarrow>
            let inserted = (b \<notin> sw_blocks s); s' = s\<lparr>sw_blocks := insert b (sw_blocks s)\<rparr>
            in Some (if inserted \<and> sw_size s' > ASSOCIATIVITY T then sw_goto_top s' else s',
                     plain_report wantReport))"

text \<open>
  The loop of \<open>join\<close> that honours the bounds visits every element of the multiset once, in order,
  and erases it or goes on.
\<close>

definition sw_honour ::
  "cache_traits \<Rightarrow> ana_env \<Rightarrow> gvar \<Rightarrow> set_wise \<Rightarrow> set_wise option" where
  "sw_honour T E array s =
     (case getPerArrayBound T E s array of
        None \<Rightarrow> None
      | Some bound \<Rightarrow>
          Some (if count (sw_arrays s) array > bound
                then s\<lparr>sw_arrays := sw_arrays s - {#array#}\<rparr> else s))"

definition sw_join :: "cache_traits \<Rightarrow> ana_env \<Rightarrow> set_wise \<Rightarrow> set_wise \<Rightarrow> set_wise option" where
  "sw_join T E x y =
     (if sw_top x \<or> sw_top y then Some (sw_goto_top x)
      else
        let x1 = x\<lparr>sw_blocks := sw_blocks x \<union> sw_blocks y\<rparr> in
        case (if ArrayPersistenceAnalysis E = APNone then Some x1
              else let x2 = x1\<lparr>sw_arrays := sw_arrays x + (sw_arrays y - sw_arrays x)\<rparr>
                   in fold_opt (sw_honour T E) (sorted_list_of_multiset (sw_arrays x2)) x2) of
          None \<Rightarrow> None
        | Some x3 \<Rightarrow> Some (if sw_size x3 > ASSOCIATIVITY T then sw_goto_top x3 else x3))"

definition sw_eq :: "set_wise \<Rightarrow> set_wise \<Rightarrow> bool" where
  "sw_eq x y =
     (if sw_r x \<noteq> sw_r y then False
      else if sw_top x \<or> sw_top y then sw_top x = sw_top y
      else sw_blocks x = sw_blocks y \<and> sw_arrays x = sw_arrays y)"

definition sw_less :: "set_wise \<Rightarrow> set_wise \<Rightarrow> bool" where
  "sw_less x y =
     (if sw_r x \<noteq> sw_r y then sw_r x < sw_r y
      else if sw_top x \<or> sw_top y then \<not> sw_top x
      else if sw_blocks x \<noteq> sw_blocks y
      then sorted_list_of_set (sw_blocks x) < sorted_list_of_set (sw_blocks y)
      else if sw_arrays x \<noteq> sw_arrays y
      then sorted_list_of_multiset (sw_arrays x) < sorted_list_of_multiset (sw_arrays y)
      else False)"

definition sw_lessequal :: "cache_traits \<Rightarrow> ana_env \<Rightarrow> set_wise \<Rightarrow> set_wise \<Rightarrow> bool option" where
  "sw_lessequal T E x y = map_option (\<lambda>copy. sw_eq copy y) (sw_join T E x y)"

text \<open>The two methods \<open>getCSS\<close>; the sum of two sizes is narrowed to \<open>int\<close>.\<close>

definition sw_css :: "set_wise \<Rightarrow> int" where
  "sw_css s = int (sw_size s)"

definition sw_pers_tag :: "cache_traits \<Rightarrow> ana_env \<Rightarrow> set_wise \<Rightarrow> tag \<Rightarrow> bool" where
  "sw_pers_tag T E s t =
     (if SPersistenceA E \<and> CoreNums E > 0 \<and> LEVEL T > 1 then
        (if sw_top s then False
         else let cnn = (if MulCType E = LiangY then conflict_count T E (getindex T (sw_r s)) t else 0)
              in sw_size s + cnn \<le> ASSOCIATIVITY T)
      else \<not> sw_top s)"

definition sw_pers_var :: "set_wise \<Rightarrow> gvar \<Rightarrow> bool" where
  "sw_pers_var s var = (\<not> sw_top s)"

definition set_wise_persistence :: "cache_traits \<Rightarrow> ana_env \<Rightarrow> set_wise persistence" where
  "set_wise_persistence T E =
     \<lparr>p_init = sw_init 0, p_update = sw_update T E, p_potential = sw_potential T E,
      p_join = sw_join T E, p_lessequal = sw_lessequal T E, p_pers_tag = sw_pers_tag T E,
      p_pers_var = sw_pers_var, p_css_tag = (\<lambda>s _. sw_css s), p_css_var = (\<lambda>s _. sw_css s),
      p_eq = sw_eq, p_less = sw_less\<rparr>"

section \<open>Element-wise counting\<close>

type_synonym element_wise = "(tag, set_wise) omap"

definition ew_potential ::
  "cache_traits \<Rightarrow> ana_env \<Rightarrow> element_wise \<Rightarrow> abs_address \<Rightarrow> access_type \<Rightarrow> bool \<Rightarrow>
     (element_wise \<times> update_report option) option" where
  "ew_potential T E m addr load_store wantReport =
     map_option (\<lambda>m'. (m', plain_report wantReport))
       (omap_update_all (\<lambda>_ s. map_option fst (sw_potential T E s addr load_store False)) m)"

definition ew_update ::
  "cache_traits \<Rightarrow> ana_env \<Rightarrow> element_wise \<Rightarrow> abs_address \<Rightarrow> access_type \<Rightarrow> bool \<Rightarrow> classification \<Rightarrow>
     (element_wise \<times> update_report option) option" where
  "ew_update T E m addr load_store wantReport assumption =
     (case aa_getTag T E addr of
        None \<Rightarrow> None
      | Some t \<Rightarrow>
          map_option (\<lambda>m'. (m', plain_report wantReport))
            (omap_update_all (\<lambda>_ s. map_option fst (sw_update T E s addr load_store False CL_UNKNOWN))
               (omap_set t (sw_init (aa_lower E addr)) m)))"

definition ew_join :: "cache_traits \<Rightarrow> ana_env \<Rightarrow> element_wise \<Rightarrow> element_wise \<Rightarrow> element_wise option" where
  "ew_join T E x y =
     map_option (\<lambda>x'. fold (\<lambda>(t, s). omap_insert t s) y x')
       (omap_update_all (\<lambda>t s. case map_of y t of None \<Rightarrow> Some s | Some s' \<Rightarrow> sw_join T E s s') x)"

text \<open>The loop of \<open>lessequal\<close> stops at the first entry that is not below.\<close>

fun ew_lessequal :: "cache_traits \<Rightarrow> ana_env \<Rightarrow> element_wise \<Rightarrow> element_wise \<Rightarrow> bool option" where
  "ew_lessequal T E [] y = Some True"
| "ew_lessequal T E ((t, s) # x) y =
     (case map_of y t of
        None \<Rightarrow> Some False
      | Some s' \<Rightarrow>
          (case sw_lessequal T E s s' of
             None \<Rightarrow> None | Some le \<Rightarrow> if le then ew_lessequal T E x y else Some False))"

definition ew_eq :: "cache_traits \<Rightarrow> ana_env \<Rightarrow> element_wise \<Rightarrow> element_wise \<Rightarrow> bool" where
  "ew_eq T E x y \<longleftrightarrow> ew_lessequal T E x y = Some True \<and> ew_lessequal T E y x = Some True"

fun ew_less_entries :: "element_wise \<Rightarrow> element_wise \<Rightarrow> bool" where
  "ew_less_entries ((t, s) # x) ((u, s') # y) =
     (if t \<noteq> u then t < u else if \<not> sw_eq s s' then sw_less s s' else ew_less_entries x y)"
| "ew_less_entries _ _ = False"

definition ew_less :: "element_wise \<Rightarrow> element_wise \<Rightarrow> bool" where
  "ew_less x y = (if length x \<noteq> length y then length x < length y else ew_less_entries x y)"

definition ew_pers_tag :: "cache_traits \<Rightarrow> ana_env \<Rightarrow> element_wise \<Rightarrow> tag \<Rightarrow> bool" where
  "ew_pers_tag T E m t = (case map_of m t of None \<Rightarrow> False | Some s \<Rightarrow> sw_pers_tag T E s t)"

definition ew_css_tag :: "element_wise \<Rightarrow> tag \<Rightarrow> int" where
  "ew_css_tag m t = (case map_of m t of None \<Rightarrow> INT_MAX | Some s \<Rightarrow> sw_css s)"

definition element_wise_persistence :: "cache_traits \<Rightarrow> ana_env \<Rightarrow> element_wise persistence" where
  "element_wise_persistence T E =
     \<lparr>p_init = [], p_update = ew_update T E, p_potential = ew_potential T E,
      p_join = ew_join T E, p_lessequal = ew_lessequal T E, p_pers_tag = ew_pers_tag T E,
      p_pers_var = (\<lambda>_ _. False), p_css_tag = ew_css_tag, p_css_var = (\<lambda>_ _. -1),
      p_eq = ew_eq T E, p_less = ew_less\<rparr>"

section \<open>Conditional must\<close>

type_synonym cond_must = "(tag, nat) omap"

definition cm_age :: "cache_traits \<Rightarrow> nat \<Rightarrow> nat" where
  "cm_age T n = (if n > 0 \<and> n \<le> ASSOCIATIVITY T then Suc n else n)"

text \<open>Neither update gives a report, wanted or not.\<close>

definition cm_potential ::
  "cache_traits \<Rightarrow> cond_must \<Rightarrow> abs_address \<Rightarrow> access_type \<Rightarrow> bool \<Rightarrow> (cond_must \<times> update_report option) option" where
  "cm_potential T m addr load_store wantReport = Some (map (\<lambda>(t, n). (t, cm_age T n)) m, None)"

definition cm_update ::
  "cache_traits \<Rightarrow> ana_env \<Rightarrow> cond_must \<Rightarrow> abs_address \<Rightarrow> access_type \<Rightarrow> bool \<Rightarrow> classification \<Rightarrow>
     (cond_must \<times> update_report option) option" where
  "cm_update T E m addr load_store wantReport assumption =
     (case aa_getTag T E addr of
        None \<Rightarrow> None
      | Some t \<Rightarrow>
          if map_of m t = None then Some (omap_set t 1 m, None)
          else Some (map (\<lambda>(u, n). (u, if u = t then 1 else cm_age T n)) m, None))"

definition cm_join :: "cond_must \<Rightarrow> cond_must \<Rightarrow> cond_must" where
  "cm_join x y =
     fold (\<lambda>(t, n) m. let m' = omap_insert t 0 m in omap_set t (max n (the (map_of m' t))) m') y x"

definition cm_pers_tag :: "cache_traits \<Rightarrow> cond_must \<Rightarrow> tag \<Rightarrow> bool" where
  "cm_pers_tag T m t = (case map_of m t of None \<Rightarrow> True | Some n \<Rightarrow> n \<le> ASSOCIATIVITY T)"

definition cm_css_tag :: "cond_must \<Rightarrow> tag \<Rightarrow> int" where
  "cm_css_tag m t = (case map_of m t of None \<Rightarrow> INT_MAX | Some n \<Rightarrow> int n)"

definition cond_must_persistence :: "cache_traits \<Rightarrow> ana_env \<Rightarrow> cond_must persistence" where
  "cond_must_persistence T E =
     \<lparr>p_init = [], p_update = cm_update T E, p_potential = cm_potential T,
      p_join = (\<lambda>x y. Some (cm_join x y)), p_lessequal = (\<lambda>x y. Some (cm_join x y = y)),
      p_pers_tag = cm_pers_tag T, p_pers_var = (\<lambda>_ _. False), p_css_tag = cm_css_tag,
      p_css_var = (\<lambda>_ _. INT_MAX), p_eq = (=), p_less = omap_less (<)\<rparr>"

end
