(* ===== verification/TA_Persistence_Sound.thy ===== *)
theory TA_Persistence_Sound
  imports TA_Persistence
begin

text \<open>
  What a persistence analysis promises, as the locale \<open>persistence_contract\<close>: a state describes
  histories of accesses to the set since the scope was entered (most recent first), and a tag it
  calls persistent conflicts with at most as many tags as the set has ways since its last access.
  Then the tag is cached, whatever the set held when the scope was entered.

  The set-wise and the element-wise analysis keep the contract as long as no array is tracked
  (\<open>ArrayPersistenceAnaType::NONE\<close>); with tracked arrays, and for the conditional must analysis,
  the last section gives accesses after which a tag called persistent is not cached.
\<close>

section \<open>Conflicts since the last access\<close>

text \<open>
  A history consists of the accesses to the set, most recent first, each with whether its address
  was known to the analysis.  Only accesses to known addresses are classified, and only they make a
  block one that must stay in the cache.
\<close>

type_synonym history = "(tag \<times> bool) list"

definition since :: "tag \<Rightarrow> history \<Rightarrow> tag list" where
  "since t h = map fst (takeWhile (\<lambda>e. e \<noteq> (t, True)) h) @ [t]"

lemma since_Cons: "since t (e # h) = (if e = (t, True) then [t] else fst e # since t h)"
  by (simp add: since_def)

lemma set_since_subset: "(t, True) \<in> set h \<Longrightarrow> set (since t h) \<subseteq> fst ` set h"
  by (force simp: since_def dest: set_takeWhileD)

lemma lru_run_snoc: "lru_run A (ts @ [t]) q = lru_access A t (lru_run A ts q)"
  by (induction ts arbitrary: q) simp_all

lemma lru_younger_access:
  assumes "lru_wf A q" "t \<in> set q" "t \<noteq> x" and "card (insert x (set (takeWhile (\<lambda>u. u \<noteq> t) q))) < A"
  shows "t \<in> set (lru_access A x q) \<and>
    set (takeWhile (\<lambda>u. u \<noteq> t) (lru_access A x q)) \<subseteq> insert x (set (takeWhile (\<lambda>u. u \<noteq> t) q))"
proof -
  let ?Y = "takeWhile (\<lambda>u. u \<noteq> t) q" and ?r = "dropWhile (\<lambda>u. u \<noteq> t) q"
  have dq: "distinct q" using assms(1) by (simp add: lru_wf_def)
  obtain z where z: "?r = t # z"
    using assms(2) hd_dropWhile [of "\<lambda>u. u \<noteq> t" q]
    by (cases ?r) (auto simp: dropWhile_eq_Nil_conv)
  have q: "q = ?Y @ t # z" using takeWhile_dropWhile_id [of "\<lambda>u. u \<noteq> t" q] z by simp
  let ?p = "x # removeAll x ?Y"
  have eq: "x # removeAll x q = ?p @ t # removeAll x z"
    using assms(3) arg_cong [OF q, of "removeAll x"] by simp
  have d: "distinct ?p" using dq by (simp add: distinct_removeAll)
  have "length ?p = card (set ?p)" using distinct_card [OF d] by simp
  also have "set ?p = insert x (set ?Y)" by auto
  finally have len: "length ?p < A" using assms(4) by simp
  then have "lru_access A x q = ?p @ take (A - length ?p) (t # removeAll x z)"
    unfolding lru_access_def eq by (simp only: take_append take_all less_imp_le)
  moreover obtain k where "A - length ?p = Suc k" using len by (metis Suc_diff_Suc)
  ultimately have acc: "lru_access A x q = ?p @ t # take k (removeAll x z)" by simp
  have "\<forall>u \<in> set ?p. u \<noteq> t" using assms(3) by (auto dest: set_takeWhileD)
  then have "takeWhile (\<lambda>u. u \<noteq> t) (lru_access A x q) = ?p" unfolding acc by (subst takeWhile_append2) auto
  then show ?thesis unfolding acc by auto
qed

lemma younger_cached:
  assumes "lru_wf A q" "0 < A"
  shows "t \<in> set h \<Longrightarrow> card (insert t (set (takeWhile (\<lambda>u. u \<noteq> t) h))) \<le> A \<Longrightarrow>
    t \<in> set (lru_run A (rev h) q) \<and>
    set (takeWhile (\<lambda>u. u \<noteq> t) (lru_run A (rev h) q)) \<subseteq> set (takeWhile (\<lambda>u. u \<noteq> t) h)"
proof (induction h)
  case Nil
  then show ?case by simp
next
  case (Cons x h)
  let ?q = "lru_run A (rev h) q" and ?Z = "set (takeWhile (\<lambda>u. u \<noteq> t) h)"
  show ?case
  proof (cases "x = t")
    case True
    then obtain y where "lru_access A t ?q = t # y" using assms(2) by (cases A) (simp_all add: lru_access_def)
    then show ?thesis using True by (simp add: lru_run_snoc)
  next
    case False
    have bound: "card (insert t (insert x ?Z)) \<le> A" using Cons.prems(2) False by simp
    have "card (insert t ?Z) \<le> card (insert t (insert x ?Z))" by (intro card_mono) auto
    then have IH: "t \<in> set ?q" "set (takeWhile (\<lambda>u. u \<noteq> t) ?q) \<subseteq> ?Z"
      using Cons.IH Cons.prems(1) False bound by auto
    have t: "t \<notin> insert x ?Z" using False by (auto dest: set_takeWhileD)
    have "card (insert x (set (takeWhile (\<lambda>u. u \<noteq> t) ?q))) \<le> card (insert x ?Z)"
      using IH(2) by (intro card_mono) auto
    moreover have "Suc (card (insert x ?Z)) \<le> A" using bound t by simp
    ultimately have "card (insert x (set (takeWhile (\<lambda>u. u \<noteq> t) ?q))) < A" by simp
    from lru_younger_access [OF lru_run_wf [OF assms(1)] IH(1) _ this]
    have "t \<in> set (lru_access A x ?q)"
      "set (takeWhile (\<lambda>u. u \<noteq> t) (lru_access A x ?q)) \<subseteq> insert x (set (takeWhile (\<lambda>u. u \<noteq> t) ?q))"
      using False by blast+
    then show ?thesis using IH(2) False by (auto simp: lru_run_snoc)
  qed
qed

lemma younger_since:
  "insert t (set (takeWhile (\<lambda>u. u \<noteq> t) (map fst h))) \<subseteq> set (since t h)"
proof (induction h)
  case (Cons e h)
  then show ?case by (cases e) (auto simp: since_Cons)
qed (simp add: since_def)

text \<open>At most as many conflicts as ways: the block is still cached.\<close>

lemma since_cached:
  assumes "lru_wf A q" "0 < A" "(t, True) \<in> set h" "card (set (since t h)) \<le> A"
  shows "t \<in> set (lru_run A (rev (map fst h)) q)"
proof -
  have "t \<in> set (map fst h)" using assms(3) by force
  moreover have "card (insert t (set (takeWhile (\<lambda>u. u \<noteq> t) (map fst h)))) \<le> A"
    using card_mono [OF _ younger_since [of t h]] assms(4) by simp
  ultimately show ?thesis using younger_cached [OF assms(1,2)] by blast
qed

section \<open>The contract\<close>

definition persist_ok :: "cache_traits \<Rightarrow> ana_env \<Rightarrow> bool" where
  "persist_ok T E \<longleftrightarrow> traits_ok T \<and> ArrayPersistenceAnalysis E = APNone"

locale persistence_contract =
  fixes T :: cache_traits and E :: ana_env and idx :: "32 word" and P :: "'s persistence"
    and inv :: "'s \<Rightarrow> bool" and gamma :: "'s \<Rightarrow> history set"
  assumes init: "inv (p_init P)" "[] \<in> gamma (p_init P)"
    and update: "persist_ok T E \<Longrightarrow> inv s \<Longrightarrow> h \<in> gamma s \<Longrightarrow> getindex T a = idx \<Longrightarrow>
      \<exists>s' r. p_update P s (aa_of_address a) ls rep c = Some (s', r) \<and> inv s' \<and> (getTag T a, True) # h \<in> gamma s'"
    and potential: "persist_ok T E \<Longrightarrow> inv s \<Longrightarrow> h \<in> gamma s \<Longrightarrow>
      \<exists>s' r. p_potential P s aa ls rep = Some (s', r) \<and> inv s' \<and> h \<in> gamma s' \<and> (\<forall>x. (x, False) # h \<in> gamma s')"
    and join: "persist_ok T E \<Longrightarrow> inv x \<Longrightarrow> inv y \<Longrightarrow>
      \<exists>z. p_join P x y = Some z \<and> inv z \<and> gamma x \<union> gamma y \<subseteq> gamma z"
    and lessequal: "persist_ok T E \<Longrightarrow> inv x \<Longrightarrow> inv y \<Longrightarrow>
      \<exists>b. p_lessequal P x y = Some b \<and> (b \<longrightarrow> gamma x \<subseteq> gamma y)"
    and persistent: "persist_ok T E \<Longrightarrow> inv s \<Longrightarrow> h \<in> gamma s \<Longrightarrow> p_pers_tag P s t \<Longrightarrow> (t, True) \<in> set h \<Longrightarrow>
      card (set (since t h)) \<le> ASSOCIATIVITY T"
begin

text \<open>A tag that is persistent and has been accessed in the scope is cached.\<close>

lemma persistent_cached:
  assumes "persist_ok T E" "inv s" "h \<in> gamma s" "p_pers_tag P s t" "(t, True) \<in> set h"
    and "lru_wf (ASSOCIATIVITY T) q"
  shows "t \<in> set (lru_run (ASSOCIATIVITY T) (rev (map fst h)) q)"
  using since_cached [OF assms(6) _ assms(5) persistent [OF assms(1-5)]] assms(1)
  by (simp add: persist_ok_def traits_ok_def)

end

section \<open>Set-wise counting keeps it\<close>

definition sw_inv :: "cache_traits \<Rightarrow> 32 word \<Rightarrow> set_wise \<Rightarrow> bool" where
  "sw_inv T idx s \<longleftrightarrow> (sw_r s \<noteq> 0 \<longrightarrow> getindex T (sw_r s) = idx) \<and> sw_arrays s = {#} \<and>
     finite (sw_blocks s) \<and> (\<forall>b \<in> sw_blocks s. snd b = []) \<and> card (sw_blocks s) \<le> ASSOCIATIVITY T"

definition sw_gamma :: "set_wise \<Rightarrow> tag list set" where
  "sw_gamma s = {h. \<not> sw_top s \<longrightarrow> set h \<subseteq> fst ` sw_blocks s}"

lemma sw_init_ok: "getindex T a = idx \<or> a = 0 \<Longrightarrow> sw_inv T idx (sw_init a)" "[] \<in> sw_gamma (sw_init a)"
  by (auto simp: sw_inv_def sw_init_def sw_gamma_def)

lemma sw_goto_top_ok: "sw_inv T idx s \<Longrightarrow> sw_inv T idx (sw_goto_top s)" "h \<in> sw_gamma (sw_goto_top s)"
  by (auto simp: sw_inv_def sw_goto_top_def sw_gamma_def)

lemma make_block_precise:
  "persist_ok T E \<Longrightarrow> make_block T E (aa_of_address a) = Some (getTag T a, [])"
  by (simp add: make_block_def persist_ok_def aa_of_address_def aa_lower_def)

lemma sw_bound_ok:
  assumes "sw_inv T idx s'" "b = (if card (sw_blocks s') > ASSOCIATIVITY T then sw_goto_top s' else s')"
  shows "sw_inv T idx b"
  using assms sw_goto_top_ok by simp

lemma sw_update_ok:
  assumes "persist_ok T E" "sw_inv T idx s" "h \<in> sw_gamma s" "getindex T a = idx"
  shows "\<exists>s' r. sw_update T E s (aa_of_address a) ls rep c = Some (s', r) \<and> sw_inv T idx s' \<and>
    getTag T a # h \<in> sw_gamma s'"
proof (cases "sw_top s")
  case True
  then show ?thesis using assms(2) by (simp add: sw_update_def sw_gamma_def)
next
  case False
  let ?b = "(getTag T a, [])" 
  let ?s = "s\<lparr>sw_blocks := insert ?b (sw_blocks s)\<rparr>"
  let ?s' = "if ?b \<notin> sw_blocks s \<and> sw_size ?s > ASSOCIATIVITY T then sw_goto_top ?s else ?s"
  have upd: "sw_update T E s (aa_of_address a) ls rep c = Some (?s', plain_report rep)"
    using False assms(2,4) make_block_precise [OF assms(1)]
    by (auto simp: sw_update_def sw_inv_def Let_def)
  have "h \<in> sw_gamma s \<Longrightarrow> getTag T a # h \<in> sw_gamma ?s" using False by (auto simp: sw_gamma_def)
  then have "getTag T a # h \<in> sw_gamma ?s'" using assms(3) sw_goto_top_ok(2) by simp
  moreover have "sw_inv T idx ?s'"
    using assms(2) by (auto simp: sw_inv_def sw_size_def sw_goto_top_def insert_absorb)
  ultimately show ?thesis using upd by blast
qed

lemma sw_potential_ok:
  assumes "persist_ok T E" "sw_inv T idx s"
  shows "\<exists>s' r. sw_potential T E s aa ls rep = Some (s', r) \<and> sw_inv T idx s' \<and> (\<forall>h. h \<in> sw_gamma s')"
  using assms sw_goto_top_ok(1) [OF assms(2)]
  by (auto simp: sw_potential_def persist_ok_def sw_gamma_def sw_goto_top_def)

lemma sw_join_ok:
  assumes "persist_ok T E" "sw_inv T idx x" "sw_inv T idx y"
  shows "\<exists>z. sw_join T E x y = Some z \<and> sw_inv T idx z \<and> sw_gamma x \<union> sw_gamma y \<subseteq> sw_gamma z"
proof (cases "sw_top x \<or> sw_top y")
  case True
  then show ?thesis using sw_goto_top_ok(1) [OF assms(2)] sw_goto_top_ok(2) [of _ x] by (auto simp: sw_join_def)
next
  case False
  let ?z = "x\<lparr>sw_blocks := sw_blocks x \<union> sw_blocks y\<rparr>"
  let ?z' = "if sw_size ?z > ASSOCIATIVITY T then sw_goto_top ?z else ?z"
  have "sw_join T E x y = Some ?z'" using False assms(1) by (simp add: sw_join_def persist_ok_def Let_def)
  moreover have "sw_inv T idx ?z'"
    using assms(2,3) by (auto simp: sw_inv_def sw_size_def sw_goto_top_def)
  moreover have "sw_gamma x \<union> sw_gamma y \<subseteq> sw_gamma ?z"
    using False by (auto simp: sw_gamma_def)
  then have "sw_gamma x \<union> sw_gamma y \<subseteq> sw_gamma ?z'" using sw_goto_top_ok(2) by auto
  ultimately show ?thesis by blast
qed

lemma sw_eq_gamma: "sw_eq x y \<Longrightarrow> sw_gamma x = sw_gamma y"
  by (auto simp: sw_eq_def sw_gamma_def split: if_splits)

lemma sw_lessequal_ok:
  assumes "persist_ok T E" "sw_inv T idx x" "sw_inv T idx y"
  shows "\<exists>b. sw_lessequal T E x y = Some b \<and> (b \<longrightarrow> sw_gamma x \<subseteq> sw_gamma y)"
proof -
  obtain z where "sw_join T E x y = Some z" "sw_gamma x \<union> sw_gamma y \<subseteq> sw_gamma z"
    using sw_join_ok [OF assms] by blast
  then show ?thesis using sw_eq_gamma [of z y] by (auto simp: sw_lessequal_def)
qed

lemma sw_persistent_bound:
  assumes "sw_inv T idx s" "h \<in> sw_gamma s" "sw_pers_tag T E s t"
  shows "card (set h) \<le> ASSOCIATIVITY T"
proof -
  have "\<not> sw_top s" using assms(3) by (auto simp: sw_pers_tag_def split: if_splits)
  then have "set h \<subseteq> fst ` sw_blocks s" using assms(2) by (simp add: sw_gamma_def)
  moreover have "finite (sw_blocks s)" "card (sw_blocks s) \<le> ASSOCIATIVITY T"
    using assms(1) by (simp_all add: sw_inv_def)
  ultimately show ?thesis
    by (meson card_image_le card_mono finite_imageI le_trans)
qed

definition sw_histories :: "set_wise \<Rightarrow> history set" where
  "sw_histories s = {h. map fst h \<in> sw_gamma s}"

interpretation set_wise_pers: persistence_contract T E idx "set_wise_persistence T E" "sw_inv T idx" sw_histories for T E idx
proof unfold_locales
  show "sw_inv T idx (p_init (set_wise_persistence T E))" "[] \<in> sw_histories (p_init (set_wise_persistence T E))"
    by (simp_all add: set_wise_persistence_def sw_init_ok sw_histories_def)
next
  fix s h a ls rep c
  assume "persist_ok T E" "sw_inv T idx s" "h \<in> sw_histories s" "getindex T a = idx"
  then show "\<exists>s' r. p_update (set_wise_persistence T E) s (aa_of_address a) ls rep c = Some (s', r) \<and> sw_inv T idx s' \<and>
      (getTag T a, True) # h \<in> sw_histories s'"
    using sw_update_ok [of T E idx s "map fst h" a ls rep c] by (simp add: set_wise_persistence_def sw_histories_def)
next
  fix s h aa ls rep
  assume "persist_ok T E" "sw_inv T idx s" "h \<in> sw_histories s"
  then show "\<exists>s' r. p_potential (set_wise_persistence T E) s aa ls rep = Some (s', r) \<and> sw_inv T idx s' \<and>
      h \<in> sw_histories s' \<and> (\<forall>x. (x, False) # h \<in> sw_histories s')"
    using sw_potential_ok [of T E idx s aa ls rep] by (auto simp: set_wise_persistence_def sw_histories_def)
next
  fix x y
  assume ok: "persist_ok T E" "sw_inv T idx x" "sw_inv T idx y"
  show "\<exists>z. p_join (set_wise_persistence T E) x y = Some z \<and> sw_inv T idx z \<and>
      sw_histories x \<union> sw_histories y \<subseteq> sw_histories z"
    using sw_join_ok [OF ok] by (auto simp: set_wise_persistence_def sw_histories_def)
  show "\<exists>b. p_lessequal (set_wise_persistence T E) x y = Some b \<and> (b \<longrightarrow> sw_histories x \<subseteq> sw_histories y)"
    using sw_lessequal_ok [OF ok] by (auto simp: set_wise_persistence_def sw_histories_def)
next
  fix s h t
  assume s: "sw_inv T idx s" "h \<in> sw_histories s" "p_pers_tag (set_wise_persistence T E) s t" "(t, True) \<in> set h"
  then have "card (fst ` set h) \<le> ASSOCIATIVITY T"
    using sw_persistent_bound [of T idx s "map fst h" E t] by (simp add: set_wise_persistence_def sw_histories_def)
  then show "card (set (since t h)) \<le> ASSOCIATIVITY T"
    using card_mono [OF _ set_since_subset [OF s(4)]] by simp
qed

section \<open>Element-wise counting keeps it\<close>

definition ew_inv :: "cache_traits \<Rightarrow> 32 word \<Rightarrow> element_wise \<Rightarrow> bool" where
  "ew_inv T idx m \<longleftrightarrow> omap_wf m \<and> (\<forall>t s. map_of m t = Some s \<longrightarrow> sw_inv T idx s)"

definition ew_gamma :: "element_wise \<Rightarrow> history set" where
  "ew_gamma m = {h. \<forall>t. (t, True) \<in> set h \<longrightarrow> (\<exists>s. map_of m t = Some s \<and> since t h \<in> sw_gamma s)}"

lemma ew_map_all:
  assumes "ew_inv T idx m" "\<And>t s. map_of m t = Some s \<Longrightarrow> \<exists>s'. f t s = Some s' \<and> sw_inv T idx s' \<and> R t s s'"
  shows "\<exists>m'. omap_update_all f m = Some m' \<and> ew_inv T idx m' \<and>
    (\<forall>t s. map_of m t = Some s \<longrightarrow> (\<exists>s'. map_of m' t = Some s' \<and> R t s s')) \<and>
    (\<forall>t. map_of m t = None \<longrightarrow> map_of m' t = None)"
proof -
  have wf: "omap_wf m" using assms(1) by (simp add: ew_inv_def)
  from omap_update_all_spec [where R = "\<lambda>t s s'. sw_inv T idx s' \<and> R t s s'", OF assms(2) omap_wf_distinct [OF wf]]
  obtain m' where m': "omap_update_all f m = Some m'" "keys m' = keys m"
    and vals: "\<forall>k. (map_of m k = None \<longleftrightarrow> map_of m' k = None) \<and>
      (\<forall>v v'. map_of m k = Some v \<longrightarrow> map_of m' k = Some v' \<longrightarrow> f k v = Some v' \<and> sw_inv T idx v' \<and> R k v v')"
    by blast
  have "omap_wf m'" using m'(2) wf by (simp add: omap_wf_def)
  moreover have "sw_inv T idx s'" if "map_of m' t = Some s'" for t s'
    using that vals by (metis option.exhaust)
  ultimately have "ew_inv T idx m'" by (simp add: ew_inv_def)
  moreover have "\<exists>s'. map_of m' t = Some s' \<and> R t s s'" if "map_of m t = Some s" for t s
    using that vals by (metis option.exhaust)
  ultimately show ?thesis using m'(1) vals by blast
qed

lemma ew_update_ok:
  assumes "persist_ok T E" "ew_inv T idx m" "h \<in> ew_gamma m" "getindex T a = idx"
  shows "\<exists>m' r. ew_update T E m (aa_of_address a) ls rep c = Some (m', r) \<and> ew_inv T idx m' \<and>
    (getTag T a, True) # h \<in> ew_gamma m'"
proof -
  let ?x = "getTag T a"
  let ?m = "omap_set ?x (sw_init a) m"
  let ?f = "\<lambda>_ s. map_option fst (sw_update T E s (aa_of_address a) ls False CL_UNKNOWN)"
  let ?R = "\<lambda>t s s'. \<forall>g \<in> sw_gamma s. ?x # g \<in> sw_gamma s'"
  have inv: "ew_inv T idx ?m"
    using assms(2,4) sw_init_ok(1) [of T a idx] omap_wf_set by (auto simp: ew_inv_def)
  have step: "\<exists>s'. ?f t s = Some s' \<and> sw_inv T idx s' \<and> ?R t s s'" if "map_of ?m t = Some s" for t s
  proof -
    have s: "sw_inv T idx s" using inv that unfolding ew_inv_def by blast
    have "[] \<in> sw_gamma s" by (simp add: sw_gamma_def)
    from sw_update_ok [OF assms(1) s this assms(4), of ls False CL_UNKNOWN]
    obtain s' r where u: "sw_update T E s (aa_of_address a) ls False CL_UNKNOWN = Some (s', r)" "sw_inv T idx s'"
      by blast
    have "?x # g \<in> sw_gamma s'" if "g \<in> sw_gamma s" for g
      using sw_update_ok [OF assms(1) s that assms(4), of ls False CL_UNKNOWN] u(1) by simp
    then show ?thesis using u by simp
  qed
  obtain m' where m': "omap_update_all ?f ?m = Some m'" "ew_inv T idx m'"
    and vals: "\<And>t s. map_of ?m t = Some s \<Longrightarrow> \<exists>s'. map_of m' t = Some s' \<and> ?R t s s'"
    using ew_map_all [of T idx ?m ?f ?R, OF inv] step by blast
  have "\<exists>s'. map_of m' t = Some s' \<and> since t ((?x, True) # h) \<in> sw_gamma s'"
    if t: "(t, True) \<in> set ((?x, True) # h)" for t
  proof (cases "t = ?x")
    case True
    then have "map_of ?m t = Some (sw_init a)" by simp
    from vals [OF this] show ?thesis using True sw_init_ok(2) [of a] by (auto simp: since_Cons)
  next
    case False
    then obtain s where s: "map_of m t = Some s" "since t h \<in> sw_gamma s"
      using assms(3) t by (auto simp: ew_gamma_def)
    then have "map_of ?m t = Some s" using False by simp
    from vals [OF this] show ?thesis using s(2) False by (auto simp: since_Cons)
  qed
  then have "(?x, True) # h \<in> ew_gamma m'" unfolding ew_gamma_def by blast
  then show ?thesis using m' by (simp add: ew_update_def)
qed

lemma ew_potential_ok:
  assumes "persist_ok T E" "ew_inv T idx m" "h \<in> ew_gamma m"
  shows "\<exists>m' r. ew_potential T E m aa ls rep = Some (m', r) \<and> ew_inv T idx m' \<and> h \<in> ew_gamma m' \<and>
    (\<forall>x. (x, False) # h \<in> ew_gamma m')"
proof -
  let ?f = "\<lambda>_ s. map_option fst (sw_potential T E s aa ls False)"
  have step: "\<exists>s'. ?f t s = Some s' \<and> sw_inv T idx s' \<and> (\<forall>g. g \<in> sw_gamma s')" if "map_of m t = Some s" for t s
  proof -
    have "sw_inv T idx s" using assms(2) that unfolding ew_inv_def by blast
    from sw_potential_ok [OF assms(1) this, of aa ls False] show ?thesis by auto
  qed
  obtain m' where m': "omap_update_all ?f m = Some m'" "ew_inv T idx m'"
    and vals: "\<And>t s. map_of m t = Some s \<Longrightarrow> \<exists>s'. map_of m' t = Some s' \<and> (\<forall>g. g \<in> sw_gamma s')"
    using ew_map_all [of T idx m ?f "\<lambda>_ _ s'. \<forall>g. g \<in> sw_gamma s'", OF assms(2)] step by blast
  have "\<exists>s'. map_of m' t = Some s' \<and> (\<forall>g. g \<in> sw_gamma s')" if "(t, True) \<in> set h" for t
    using assms(3) that vals unfolding ew_gamma_def by blast
  then have "h \<in> ew_gamma m'" "\<forall>x. (x, False) # h \<in> ew_gamma m'" by (force simp: ew_gamma_def)+
  then show ?thesis using m' by (simp add: ew_potential_def)
qed

text \<open>The second loop of \<open>join\<close>: the entries of the other map that are missing.\<close>

lemma fold_omap_insert:
  "map_of (fold (\<lambda>(t, s). omap_insert t s) y x) k = (case map_of x k of Some s \<Rightarrow> Some s | None \<Rightarrow> map_of y k)"
  by (induction y arbitrary: x) (auto split: option.splits)

lemma fold_omap_insert_wf: "omap_wf x \<Longrightarrow> omap_wf (fold (\<lambda>(t, s). omap_insert t s) y x)"
  by (induction y arbitrary: x) (auto intro: omap_wf_insert)

lemma ew_join_ok:
  assumes "persist_ok T E" "ew_inv T idx x" "ew_inv T idx y"
  shows "\<exists>z. ew_join T E x y = Some z \<and> ew_inv T idx z \<and> ew_gamma x \<union> ew_gamma y \<subseteq> ew_gamma z"
proof -
  let ?f = "\<lambda>t s. case map_of y t of None \<Rightarrow> Some s | Some s' \<Rightarrow> sw_join T E s s'"
  let ?R = "\<lambda>t s z. sw_gamma s \<subseteq> sw_gamma z \<and> (\<forall>s'. map_of y t = Some s' \<longrightarrow> sw_gamma s' \<subseteq> sw_gamma z)"
  have step: "\<exists>z. ?f t s = Some z \<and> sw_inv T idx z \<and> ?R t s z" if "map_of x t = Some s" for t s
  proof (cases "map_of y t")
    case None
    then show ?thesis using that assms(2) by (simp add: ew_inv_def)
  next
    case (Some s')
    have "sw_inv T idx s" "sw_inv T idx s'" using that Some assms(2,3) by (simp_all add: ew_inv_def)
    from sw_join_ok [OF assms(1) this] show ?thesis using Some by auto
  qed
  obtain x' where x': "omap_update_all ?f x = Some x'" "ew_inv T idx x'"
    and vals: "\<And>t s. map_of x t = Some s \<Longrightarrow> \<exists>z. map_of x' t = Some z \<and> ?R t s z"
    and none: "\<And>t. map_of x t = None \<Longrightarrow> map_of x' t = None"
    using ew_map_all [of T idx x ?f ?R, OF assms(2)] step by blast
  let ?z = "fold (\<lambda>(t, s). omap_insert t s) y x'"
  have "ew_inv T idx ?z"
    using x'(2) assms(3) fold_omap_insert_wf [of x' y]
    by (auto simp: ew_inv_def fold_omap_insert split: option.splits)
  moreover have "\<exists>z. map_of ?z t = Some z \<and> sw_gamma s \<subseteq> sw_gamma z" if "map_of x t = Some s" for t s
    using vals [OF that] by (auto simp: fold_omap_insert)
  moreover have "\<exists>z. map_of ?z t = Some z \<and> sw_gamma s' \<subseteq> sw_gamma z" if "map_of y t = Some s'" for t s'
  proof (cases "map_of x t")
    case None
    then show ?thesis using none that by (simp add: fold_omap_insert)
  next
    case (Some s)
    from vals [OF this] show ?thesis using that by (auto simp: fold_omap_insert)
  qed
  ultimately have "ew_inv T idx ?z" "ew_gamma x \<union> ew_gamma y \<subseteq> ew_gamma ?z"
    unfolding ew_gamma_def by blast+
  then show ?thesis using x'(1) by (simp add: ew_join_def)
qed

lemma ew_lessequal_ok:
  assumes "persist_ok T E" "ew_inv T idx x" "ew_inv T idx y"
  shows "\<exists>b. ew_lessequal T E x y = Some b \<and>
    (b \<longrightarrow> (\<forall>t s. (t, s) \<in> set x \<longrightarrow> (\<exists>s'. map_of y t = Some s' \<and> sw_gamma s \<subseteq> sw_gamma s')))"
proof -
  have "\<forall>(t, s) \<in> set x. sw_inv T idx s"
    using assms(2) omap_wf_distinct [of x] by (auto simp: ew_inv_def)
  then show ?thesis
  proof (induction x)
    case Nil
    show ?case by (intro exI [of _ True]) simp
  next
    case (Cons e x)
    obtain t s where e: "e = (t, s)" by (cases e)
    show ?case
    proof (cases "map_of y t")
      case None
      then show ?thesis by (intro exI [of _ False]) (simp add: e)
    next
      case (Some s')
      have "sw_inv T idx s" "sw_inv T idx s'" using Cons.prems Some assms(3) e by (auto simp: ew_inv_def)
      from sw_lessequal_ok [OF assms(1) this]
      obtain b where b: "sw_lessequal T E s s' = Some b" "b \<longrightarrow> sw_gamma s \<subseteq> sw_gamma s'" by blast
      show ?thesis using Cons Some b by (auto simp: e)
    qed
  qed
qed

interpretation element_wise_pers: persistence_contract T E idx "element_wise_persistence T E" "ew_inv T idx" ew_gamma for T E idx
proof unfold_locales
  show "ew_inv T idx (p_init (element_wise_persistence T E))" "[] \<in> ew_gamma (p_init (element_wise_persistence T E))"
    by (simp_all add: element_wise_persistence_def ew_inv_def ew_gamma_def)
next
  fix x y
  assume ok: "persist_ok T E" "ew_inv T idx x" "ew_inv T idx y"
  obtain b where b: "ew_lessequal T E x y = Some b"
    "b \<longrightarrow> (\<forall>t s. (t, s) \<in> set x \<longrightarrow> (\<exists>s'. map_of y t = Some s' \<and> sw_gamma s \<subseteq> sw_gamma s'))"
    using ew_lessequal_ok [OF ok] by blast
  then have "b \<longrightarrow> ew_gamma x \<subseteq> ew_gamma y"
    unfolding ew_gamma_def using map_of_SomeD by fast
  then show "\<exists>b. p_lessequal (element_wise_persistence T E) x y = Some b \<and> (b \<longrightarrow> ew_gamma x \<subseteq> ew_gamma y)"
    using b(1) by (simp add: element_wise_persistence_def)
next
  fix s h t
  assume s: "ew_inv T idx s" "h \<in> ew_gamma s" "p_pers_tag (element_wise_persistence T E) s t" "(t, True) \<in> set h"
  then obtain c where "map_of s t = Some c" "since t h \<in> sw_gamma c" by (auto simp: ew_gamma_def)
  moreover have "sw_pers_tag T E c t"
    using s(3) calculation(1) by (simp add: element_wise_persistence_def ew_pers_tag_def)
  ultimately show "card (set (since t h)) \<le> ASSOCIATIVITY T"
    using sw_persistent_bound [of T idx c "since t h" E t] s(1) by (simp add: ew_inv_def)
qed (use ew_update_ok ew_potential_ok ew_join_ok in \<open>simp add: element_wise_persistence_def\<close>)+

end
