(* ===== verification/TA_Multi_Scope.thy ===== *)
theory TA_Multi_Scope
  imports TA_Persistence_Sound
begin

text \<open>
  \<open>MultiScopePersistence<P>\<close> (\<open>include/Memory/MultiScopePersistence.h\<close>, without
  \<open>STRICT_SCOPE_CONSISTENCY\<close>): one state of a persistence analysis for every scope that is open,
  and how often the scope has been entered.  \<open>None\<close> is a failed assertion, an exception of \<open>at\<close> or
  an iterator that runs past the end.
\<close>

record 's multi_scope =
  scopes2info :: "(scope, 's) omap"
  scopes2entercount :: "(scope, 32 word) omap"

definition ms_init :: "'s multi_scope" where
  "ms_init = \<lparr>scopes2info = [], scopes2entercount = []\<rparr>"

definition ms_classify :: "'s multi_scope \<Rightarrow> abs_address \<Rightarrow> classification" where
  "ms_classify s addr = CL_UNKNOWN"

definition ms_get_age :: "'s multi_scope \<Rightarrow> abs_address \<Rightarrow> int" where
  "ms_get_age s addr = -1"

definition ms_potential ::
  "'s persistence \<Rightarrow> 's multi_scope \<Rightarrow> abs_address \<Rightarrow> access_type \<Rightarrow> bool \<Rightarrow>
     ('s multi_scope \<times> update_report option) option" where
  "ms_potential P s addr load_store wantReport =
     map_option (\<lambda>info. (s\<lparr>scopes2info := info\<rparr>, plain_report wantReport))
       (omap_update_all (\<lambda>_ p. map_option fst (p_potential P p addr load_store False)) (scopes2info s))"

definition ms_update ::
  "'s persistence \<Rightarrow> 's multi_scope \<Rightarrow> abs_address \<Rightarrow> access_type \<Rightarrow> bool \<Rightarrow> classification \<Rightarrow>
     ('s multi_scope \<times> update_report option) option" where
  "ms_update P s addr load_store wantReport assumption =
     map_option (\<lambda>info. (s\<lparr>scopes2info := info\<rparr>, plain_report wantReport))
       (omap_update_all (\<lambda>_ p. map_option fst (p_update P p addr load_store False assumption)) (scopes2info s))"

text \<open>The loop over both entry counts, as far as the first map goes.\<close>

fun same_counts :: "(scope, 32 word) omap \<Rightarrow> (scope, 32 word) omap \<Rightarrow> bool" where
  "same_counts [] ys = True"
| "same_counts (x # xs) (y # ys) = (snd x = snd y \<and> same_counts xs ys)"
| "same_counts (x # xs) [] = False"

fun join_infos :: "'s persistence \<Rightarrow> (scope, 's) omap \<Rightarrow> (scope, 's) omap \<Rightarrow> (scope, 's) omap option" where
  "join_infos P ((sc, p) # xs) ((sc', p') # ys) =
     (if sc \<noteq> sc' then None
      else case p_join P p p' of None \<Rightarrow> None | Some z \<Rightarrow> map_option (Cons (sc, z)) (join_infos P xs ys))"
| "join_infos P [] ys = Some []"
| "join_infos P (x # xs) [] = None"

definition ms_join :: "'s persistence \<Rightarrow> 's multi_scope \<Rightarrow> 's multi_scope \<Rightarrow> 's multi_scope option" where
  "ms_join P x y =
     (if length (scopes2info x) \<noteq> length (scopes2info y) then None
      else if \<not> same_counts (scopes2entercount x) (scopes2entercount y) then None
      else map_option (\<lambda>info. x\<lparr>scopes2info := info\<rparr>) (join_infos P (scopes2info x) (scopes2info y)))"

text \<open>\<open>lessequal\<close> and \<open>operator==\<close> walk both maps and stop at the first entry that differs.\<close>

fun all_infos ::
  "('s \<Rightarrow> 's \<Rightarrow> bool option) \<Rightarrow> (scope, 's) omap \<Rightarrow> (scope, 's) omap \<Rightarrow> bool option" where
  "all_infos R ((sc, p) # xs) ((sc', p') # ys) =
     (if sc \<noteq> sc' then None
      else case R p p' of None \<Rightarrow> None | Some b \<Rightarrow> if b then all_infos R xs ys else Some False)"
| "all_infos R [] ys = Some True"
| "all_infos R (x # xs) [] = None"

definition ms_lessequal :: "'s persistence \<Rightarrow> 's multi_scope \<Rightarrow> 's multi_scope \<Rightarrow> bool option" where
  "ms_lessequal P x y =
     (if length (scopes2info x) \<noteq> length (scopes2info y) then None
      else if \<not> same_counts (scopes2entercount x) (scopes2entercount y) then None
      else all_infos (p_lessequal P) (scopes2info x) (scopes2info y))"

definition ms_eq :: "'s persistence \<Rightarrow> 's multi_scope \<Rightarrow> 's multi_scope \<Rightarrow> bool option" where
  "ms_eq P x y =
     (if length (scopes2info x) \<noteq> length (scopes2info y) then None
      else if \<not> same_counts (scopes2entercount x) (scopes2entercount y) then None
      else all_infos (\<lambda>p p'. Some (p_eq P p p')) (scopes2info x) (scopes2info y))"

fun less_infos ::
  "'s persistence \<Rightarrow> (scope, 32 word) omap \<Rightarrow> (scope, 32 word) omap \<Rightarrow> (scope, 's) omap \<Rightarrow> (scope, 's) omap \<Rightarrow>
     bool option" where
  "less_infos P cx cy ((sc, p) # xs) ((sc', p') # ys) =
     (if sc \<noteq> sc' then Some (sc < sc')
      else if \<not> p_eq P p p' then Some (p_less P p p')
      else case (map_of cx sc, map_of cy sc') of
             (Some n, Some n') \<Rightarrow> if n \<noteq> n' then Some (n < n') else less_infos P cx cy xs ys
           | _ \<Rightarrow> None)"
| "less_infos P cx cy [] ys = Some False"
| "less_infos P cx cy (x # xs) [] = None"

definition ms_less :: "'s persistence \<Rightarrow> 's multi_scope \<Rightarrow> 's multi_scope \<Rightarrow> bool option" where
  "ms_less P x y =
     (if length (scopes2info x) \<noteq> length (scopes2info y)
      then Some (length (scopes2info x) < length (scopes2info y))
      else less_infos P (scopes2entercount x) (scopes2entercount y) (scopes2info x) (scopes2info y))"

definition ms_enter :: "'s persistence \<Rightarrow> scope \<Rightarrow> 's multi_scope \<Rightarrow> 's multi_scope" where
  "ms_enter P sc s =
     (if map_of (scopes2info s) sc = None
      then \<lparr>scopes2info = omap_insert sc (p_init P) (scopes2info s),
            scopes2entercount = omap_insert sc 1 (scopes2entercount s)\<rparr>
      else s\<lparr>scopes2entercount :=
             omap_set sc ((case map_of (scopes2entercount s) sc of None \<Rightarrow> 0 | Some n \<Rightarrow> n) + 1) (scopes2entercount s)\<rparr>)"

definition ms_leave :: "scope \<Rightarrow> 's multi_scope \<Rightarrow> 's multi_scope option" where
  "ms_leave sc s =
     (if map_of (scopes2info s) sc = None then None
      else case map_of (scopes2entercount s) sc of
             None \<Rightarrow> None
           | Some n \<Rightarrow>
               Some (if n > 1 then s\<lparr>scopes2entercount := omap_set sc (n - 1) (scopes2entercount s)\<rparr>
                     else \<lparr>scopes2info = omap_erase sc (scopes2info s),
                           scopes2entercount = omap_erase sc (scopes2entercount s)\<rparr>))"

definition ms_persistent_scopes_tag :: "'s persistence \<Rightarrow> 's multi_scope \<Rightarrow> tag \<Rightarrow> scope set" where
  "ms_persistent_scopes_tag P s t = set (keys (filter (\<lambda>e. p_pers_tag P (snd e) t) (scopes2info s)))"

definition ms_persistent_scopes_var :: "'s persistence \<Rightarrow> 's multi_scope \<Rightarrow> gvar \<Rightarrow> scope set" where
  "ms_persistent_scopes_var P s var = set (keys (filter (\<lambda>e. p_pers_var P (snd e) var) (scopes2info s)))"

definition ms_css_tag :: "'s persistence \<Rightarrow> 's multi_scope \<Rightarrow> tag \<Rightarrow> int" where
  "ms_css_tag P s t =
     fold (\<lambda>(sc, p) age. if p_pers_tag P p t then max age (p_css_tag P p t) else age) (scopes2info s) (-1)"

definition ms_css_var :: "'s persistence \<Rightarrow> 's multi_scope \<Rightarrow> gvar \<Rightarrow> int" where
  "ms_css_var P s var =
     fold (\<lambda>(sc, p) age. if p_pers_var P p var then max age (p_css_var P p var) else age) (scopes2info s) (-1)"

section \<open>Accesses and scopes in the concrete set\<close>

text \<open>
  The events of an execution: an access whose address the analysis knows, one of which it knows an
  approximation only, and the borders of scopes.  The concrete machine is the LRU set, and for every
  open scope how often it was entered, the set at the first entry, and the history since.
\<close>

datatype event = Access address access_type | Imprecise abs_address tag access_type | Enter scope | Leave scope

record scope_info =
  si_entered :: nat
  si_start :: lru_set
  si_history :: history

record scoped_set =
  ss_set :: lru_set
  ss_scopes :: "scope \<rightharpoonup> scope_info"

definition log_access :: "tag \<Rightarrow> bool \<Rightarrow> (scope \<rightharpoonup> scope_info) \<Rightarrow> (scope \<rightharpoonup> scope_info)" where
  "log_access t known sigma =
     (\<lambda>sc. map_option (\<lambda>i. i\<lparr>si_history := (t, known) # si_history i\<rparr>) (sigma sc))"

text \<open>Events are possible if scopes are left at most as often as entered, less than \<open>2\<^sup>3\<^sup>2\<close> times.\<close>

fun concrete_step :: "cache_traits \<Rightarrow> 32 word \<Rightarrow> event \<Rightarrow> scoped_set \<Rightarrow> scoped_set option" where
  "concrete_step T idx (Access a ls) c =
     (if getindex T a \<noteq> idx then None
      else Some \<lparr>ss_set = lru_access (ASSOCIATIVITY T) (getTag T a) (ss_set c),
                 ss_scopes = log_access (getTag T a) True (ss_scopes c)\<rparr>)"
| "concrete_step T idx (Imprecise aa t ls) c =
     Some \<lparr>ss_set = lru_access (ASSOCIATIVITY T) t (ss_set c), ss_scopes = log_access t False (ss_scopes c)\<rparr>"
| "concrete_step T idx (Enter sc) c =
     (case ss_scopes c sc of
        None \<Rightarrow> Some (c\<lparr>ss_scopes := (ss_scopes c)(sc \<mapsto> \<lparr>si_entered = 1, si_start = ss_set c, si_history = []\<rparr>)\<rparr>)
      | Some i \<Rightarrow> if Suc (si_entered i) \<ge> 2 ^ 32 then None
                  else Some (c\<lparr>ss_scopes := (ss_scopes c)(sc \<mapsto> i\<lparr>si_entered := Suc (si_entered i)\<rparr>)\<rparr>))"
| "concrete_step T idx (Leave sc) c =
     (case ss_scopes c sc of
        None \<Rightarrow> None
      | Some i \<Rightarrow> Some (c\<lparr>ss_scopes := (ss_scopes c)(sc :=
            if si_entered i > 1 then Some (i\<lparr>si_entered := si_entered i - 1\<rparr>) else None)\<rparr>))"

fun abstract_step :: "'s persistence \<Rightarrow> event \<Rightarrow> 's multi_scope \<Rightarrow> 's multi_scope option" where
  "abstract_step P (Access a ls) s = map_option fst (ms_update P s (aa_of_address a) ls False CL_UNKNOWN)"
| "abstract_step P (Imprecise aa t ls) s = map_option fst (ms_potential P s aa ls False)"
| "abstract_step P (Enter sc) s = Some (ms_enter P sc s)"
| "abstract_step P (Leave sc) s = ms_leave sc s"

definition scope_ok :: "cache_traits \<Rightarrow> lru_set \<Rightarrow> scope_info \<Rightarrow> bool" where
  "scope_ok T q i \<longleftrightarrow> 0 < si_entered i \<and> si_entered i < 2 ^ 32 \<and> lru_wf (ASSOCIATIVITY T) (si_start i) \<and>
     lru_run (ASSOCIATIVITY T) (rev (map fst (si_history i))) (si_start i) = q"

definition scoped_wf :: "cache_traits \<Rightarrow> scoped_set \<Rightarrow> bool" where
  "scoped_wf T c \<longleftrightarrow> lru_wf (ASSOCIATIVITY T) (ss_set c) \<and>
     (\<forall>sc i. ss_scopes c sc = Some i \<longrightarrow> scope_ok T (ss_set c) i)"

lemma scope_ok_access:
  "scope_ok T q i \<Longrightarrow> scope_ok T (lru_access (ASSOCIATIVITY T) t q) (i\<lparr>si_history := (t, known) # si_history i\<rparr>)"
  by (auto simp: scope_ok_def lru_run_snoc)

lemma scope_ok_entered:
  "scope_ok T q i \<Longrightarrow> 0 < n \<Longrightarrow> n < 2 ^ 32 \<Longrightarrow> scope_ok T q (i\<lparr>si_entered := n\<rparr>)"
  by (simp add: scope_ok_def)

lemma concrete_step_wf:
  assumes "concrete_step T idx ev c = Some c'" "scoped_wf T c"
  shows "scoped_wf T c'"
proof -
  have wf: "lru_wf (ASSOCIATIVITY T) (ss_set c)" "\<And>sc i. ss_scopes c sc = Some i \<Longrightarrow> scope_ok T (ss_set c) i"
    using assms(2) by (auto simp: scoped_wf_def)
  have access: "scoped_wf T \<lparr>ss_set = lru_access (ASSOCIATIVITY T) t (ss_set c),
      ss_scopes = log_access t known (ss_scopes c)\<rparr>" for t known
    using wf scope_ok_access by (auto simp: scoped_wf_def log_access_def)
  have upd: "scoped_wf T (c\<lparr>ss_scopes := (ss_scopes c)(sc := x)\<rparr>)"
    if "\<And>i. x = Some i \<Longrightarrow> scope_ok T (ss_set c) i" for sc x
    using wf that by (auto simp: scoped_wf_def split: if_splits)
  show ?thesis
  proof (cases ev)
    case (Access a ls)
    then show ?thesis using assms(1) access by (auto split: if_splits)
  next
    case (Imprecise aa t ls)
    then show ?thesis using assms(1) access by auto
  next
    case (Enter sc)
    show ?thesis
    proof (cases "ss_scopes c sc")
      case None
      have "scope_ok T (ss_set c) \<lparr>si_entered = 1, si_start = ss_set c, si_history = []\<rparr>"
        using wf(1) by (simp add: scope_ok_def)
      then have "scoped_wf T (c\<lparr>ss_scopes := (ss_scopes c)(sc \<mapsto> \<lparr>si_entered = 1, si_start = ss_set c, si_history = []\<rparr>)\<rparr>)"
        by (intro upd) simp
      then show ?thesis using assms(1) Enter None by simp
    next
      case (Some i)
      have i: "Suc (si_entered i) < 2 ^ 32"
        "c' = c\<lparr>ss_scopes := (ss_scopes c)(sc \<mapsto> i\<lparr>si_entered := Suc (si_entered i)\<rparr>)\<rparr>"
        using assms(1) Enter Some by (auto split: if_splits)
      have "scope_ok T (ss_set c) (i\<lparr>si_entered := Suc (si_entered i)\<rparr>)"
        using i(1) by (intro scope_ok_entered wf(2) [OF Some]) simp_all
      then show ?thesis unfolding i(2) by (intro upd) simp
    qed
  next
    case (Leave sc)
    then obtain i where i: "ss_scopes c sc = Some i"
      "c' = c\<lparr>ss_scopes := (ss_scopes c)(sc :=
            if si_entered i > 1 then Some (i\<lparr>si_entered := si_entered i - 1\<rparr>) else None)\<rparr>"
      using assms(1) by (auto split: option.splits)
    have "scope_ok T (ss_set c) (i\<lparr>si_entered := si_entered i - 1\<rparr>)" if "si_entered i > 1"
      using that wf(2) [OF i(1)] by (intro scope_ok_entered) (auto simp: scope_ok_def)
    then show ?thesis unfolding i(2) by (intro upd) (auto split: if_splits)
  qed
qed

section \<open>The wrapper follows the concrete scopes\<close>

definition scope_rel ::
  "('s \<Rightarrow> bool) \<Rightarrow> ('s \<Rightarrow> history set) \<Rightarrow> scope_info option \<Rightarrow> 's option \<Rightarrow> 32 word option \<Rightarrow> bool" where
  "scope_rel iv gamma i p n \<longleftrightarrow>
     (case i of
        None \<Rightarrow> p = None \<and> n = None
      | Some j \<Rightarrow> n = Some (word_of_nat (si_entered j)) \<and> (\<exists>x. p = Some x \<and> iv x \<and> si_history j \<in> gamma x))"

definition ms_rel :: "('s \<Rightarrow> bool) \<Rightarrow> ('s \<Rightarrow> history set) \<Rightarrow> 's multi_scope \<Rightarrow> scoped_set \<Rightarrow> bool" where
  "ms_rel iv gamma s c \<longleftrightarrow> omap_wf (scopes2info s) \<and>
     (\<forall>sc. scope_rel iv gamma (ss_scopes c sc) (map_of (scopes2info s) sc) (map_of (scopes2entercount s) sc))"

lemma ms_rel_init: "ss_scopes c = Map.empty \<Longrightarrow> ms_rel iv gamma ms_init c"
  by (simp add: ms_rel_def ms_init_def scope_rel_def)

text \<open>An access: every open scope is updated by a step that extends its histories.\<close>

lemma ms_rel_access:
  assumes "ms_rel iv gamma s c"
    and step: "\<And>p h. iv p \<Longrightarrow> h \<in> gamma p \<Longrightarrow> \<exists>p'. f p = Some p' \<and> iv p' \<and> (t, known) # h \<in> gamma p'"
  shows "\<exists>info. omap_update_all (\<lambda>_. f) (scopes2info s) = Some info \<and>
    ms_rel iv gamma (s\<lparr>scopes2info := info\<rparr>) \<lparr>ss_set = q, ss_scopes = log_access t known (ss_scopes c)\<rparr>"
proof -
  let ?R = "\<lambda>sc (p :: 'a) p'. iv p' \<and> (\<forall>i. ss_scopes c sc = Some i \<longrightarrow> (t, known) # si_history i \<in> gamma p')"
  have rel: "scope_rel iv gamma (ss_scopes c sc) (map_of (scopes2info s) sc) (map_of (scopes2entercount s) sc)" for sc
    using assms(1) by (simp add: ms_rel_def)
  have wf: "omap_wf (scopes2info s)" using assms(1) by (simp add: ms_rel_def)
  have all: "\<exists>p'. f p = Some p' \<and> ?R sc p p'" if m: "map_of (scopes2info s) sc = Some p" for sc p
  proof -
    obtain i where "ss_scopes c sc = Some i" "iv p" "si_history i \<in> gamma p"
      using rel [of sc] m by (auto simp: scope_rel_def split: option.splits)
    then show ?thesis using step by fastforce
  qed
  from omap_update_all_spec [where R = ?R and f = "\<lambda>_. f", OF all omap_wf_distinct [OF wf]]
  obtain info where info: "omap_update_all (\<lambda>_. f) (scopes2info s) = Some info" "keys info = keys (scopes2info s)"
    and vals: "\<forall>k. (map_of (scopes2info s) k = None \<longleftrightarrow> map_of info k = None) \<and>
      (\<forall>v v'. map_of (scopes2info s) k = Some v \<longrightarrow> map_of info k = Some v' \<longrightarrow> f v = Some v' \<and> ?R k v v')"
    by blast
  have "scope_rel iv gamma (log_access t known (ss_scopes c) sc) (map_of info sc) (map_of (scopes2entercount s) sc)" for sc
  proof (cases "ss_scopes c sc")
    case None
    then show ?thesis using rel [of sc] vals by (simp add: scope_rel_def log_access_def)
  next
    case (Some i)
    then obtain p where "map_of (scopes2info s) sc = Some p" using rel [of sc] by (auto simp: scope_rel_def)
    moreover obtain p' where "map_of info sc = Some p'"
      using vals calculation by (metis option.exhaust)
    ultimately show ?thesis using rel [of sc] vals Some by (simp add: scope_rel_def log_access_def)
  qed
  moreover have "omap_wf info" using info(2) wf by (simp add: omap_wf_def)
  ultimately show ?thesis using info(1) by (simp add: ms_rel_def)
qed

text \<open>Only one scope changes.\<close>

lemma ms_rel_change:
  assumes "ms_rel iv gamma s c" "omap_wf (scopes2info s')"
    and "\<And>k. k \<noteq> sc \<Longrightarrow> map_of (scopes2info s') k = map_of (scopes2info s) k \<and>
      map_of (scopes2entercount s') k = map_of (scopes2entercount s) k \<and> ss_scopes c' k = ss_scopes c k"
    and "scope_rel iv gamma (ss_scopes c' sc) (map_of (scopes2info s') sc) (map_of (scopes2entercount s') sc)"
  shows "ms_rel iv gamma s' c'"
  unfolding ms_rel_def
proof (intro conjI allI)
  fix k
  show "scope_rel iv gamma (ss_scopes c' k) (map_of (scopes2info s') k) (map_of (scopes2entercount s') k)"
    using assms(1,3,4) by (cases "k = sc") (simp_all add: ms_rel_def)
qed (rule assms(2))

lemma word_entered:
  "0 < n \<Longrightarrow> n < 2 ^ 32 \<Longrightarrow> (word_of_nat n > (1 :: 32 word)) = (1 < n)"
  by (simp add: word_less_nat_alt unat_of_nat take_bit_nat_eq_self)

context persistence_contract
begin

lemma abstract_step_sound:
  assumes ok: "persist_ok T E" and wf: "scoped_wf T c" and rel: "ms_rel inv gamma s c"
    and step: "concrete_step T idx ev c = Some c'"
  shows "\<exists>s'. abstract_step P ev s = Some s' \<and> ms_rel inv gamma s' c'"
proof (cases ev)
  case (Access a ls)
  then have idx: "getindex T a = idx" and c': "c' = \<lparr>ss_set = lru_access (ASSOCIATIVITY T) (getTag T a) (ss_set c),
      ss_scopes = log_access (getTag T a) True (ss_scopes c)\<rparr>"
    using step by (auto split: if_splits)
  let ?f = "\<lambda>p. map_option fst (p_update P p (aa_of_address a) ls False CL_UNKNOWN)"
  have "\<exists>p'. ?f p = Some p' \<and> inv p' \<and>
      (getTag T a, True) # h \<in> gamma p'" if "inv p" "h \<in> gamma p" for p h
    using update [OF ok that idx, of ls False CL_UNKNOWN] by auto
  from ms_rel_access [where f = ?f and q = "lru_access (ASSOCIATIVITY T) (getTag T a) (ss_set c)", OF rel this] show ?thesis unfolding c' by (auto simp: Access ms_update_def)
next
  case (Imprecise aa t ls)
  then have c': "c' = \<lparr>ss_set = lru_access (ASSOCIATIVITY T) t (ss_set c), ss_scopes = log_access t False (ss_scopes c)\<rparr>"
    using step by simp
  let ?f = "\<lambda>p. map_option fst (p_potential P p aa ls False)"
  have "\<exists>p'. ?f p = Some p' \<and> inv p' \<and> (t, False) # h \<in> gamma p'"
    if "inv p" "h \<in> gamma p" for p h
    using potential [OF ok that, of aa ls False] by auto
  from ms_rel_access [where f = ?f and q = "lru_access (ASSOCIATIVITY T) t (ss_set c)", OF rel this] show ?thesis unfolding c' by (auto simp: Imprecise ms_potential_def)
next
  case (Enter sc)
  have r: "scope_rel inv gamma (ss_scopes c sc) (map_of (scopes2info s) sc) (map_of (scopes2entercount s) sc)"
    and wfi: "omap_wf (scopes2info s)"
    using rel by (simp_all add: ms_rel_def)
  have "ms_rel inv gamma (ms_enter P sc s) c'"
  proof (cases "ss_scopes c sc")
    case None
    then have "c' = c\<lparr>ss_scopes := (ss_scopes c)(sc \<mapsto> \<lparr>si_entered = 1, si_start = ss_set c, si_history = []\<rparr>)\<rparr>"
      using step Enter by simp
    then show ?thesis
      using None r init wfi by (intro ms_rel_change [OF rel]) (auto simp: ms_enter_def scope_rel_def)
  next
    case (Some i)
    then have "c' = c\<lparr>ss_scopes := (ss_scopes c)(sc \<mapsto> i\<lparr>si_entered := Suc (si_entered i)\<rparr>)\<rparr>"
      using step Enter by (auto split: if_splits)
    then show ?thesis
      using Some r wfi by (intro ms_rel_change [OF rel]) (auto simp: ms_enter_def scope_rel_def)
  qed
  then show ?thesis by (simp add: Enter)
next
  case (Leave sc)
  have r: "scope_rel inv gamma (ss_scopes c sc) (map_of (scopes2info s) sc) (map_of (scopes2entercount s) sc)"
    and wfi: "omap_wf (scopes2info s)"
    using rel by (simp_all add: ms_rel_def)
  obtain i where i: "ss_scopes c sc = Some i"
      "c' = c\<lparr>ss_scopes := (ss_scopes c)(sc :=
            if si_entered i > 1 then Some (i\<lparr>si_entered := si_entered i - 1\<rparr>) else None)\<rparr>"
    using step Leave by (auto split: option.splits)
  have n: "0 < si_entered i" "si_entered i < 2 ^ 32" using wf i(1) by (auto simp: scoped_wf_def scope_ok_def)
  obtain p where p: "map_of (scopes2info s) sc = Some p" "inv p" "si_history i \<in> gamma p"
      "map_of (scopes2entercount s) sc = Some (word_of_nat (si_entered i))"
    using r i(1) by (auto simp: scope_rel_def)
  let ?s' = "if si_entered i > 1
      then s\<lparr>scopes2entercount := omap_set sc (word_of_nat (si_entered i) - 1) (scopes2entercount s)\<rparr>
      else \<lparr>scopes2info = omap_erase sc (scopes2info s), scopes2entercount = omap_erase sc (scopes2entercount s)\<rparr>"
  have leave: "ms_leave sc s = Some ?s'" using p word_entered [OF n] by (simp add: ms_leave_def)
  have "(word_of_nat (si_entered i) :: 32 word) - 1 = word_of_nat (si_entered i - 1)"
    using n(1) by (simp add: of_nat_diff)
  then have left: "scope_rel inv gamma (Some (i\<lparr>si_entered := si_entered i - 1\<rparr>)) (Some p)
      (Some (word_of_nat (si_entered i) - 1))"
    using p by (simp add: scope_rel_def)
  have "ms_rel inv gamma ?s' c'"
  proof (cases "si_entered i > 1")
    case True
    then show ?thesis using left p(1) i(2) wfi by (intro ms_rel_change [OF rel, of _ sc]) simp_all
  next
    case False
    then show ?thesis
      using i(2) omap_wf_erase [OF wfi] by (intro ms_rel_change [OF rel, of _ sc]) (simp_all add: scope_rel_def)
  qed
  then show ?thesis using leave by (simp add: Leave)
qed

lemma scopes_run_sound:
  assumes "persist_ok T E" "scoped_wf T c" "ms_rel inv gamma s c" "fold_opt (concrete_step T idx) evs c = Some c'"
  shows "\<exists>s'. fold_opt (abstract_step P) evs s = Some s' \<and> ms_rel inv gamma s' c' \<and> scoped_wf T c'"
  using assms(2-4)
proof (induction evs arbitrary: c s)
  case Nil
  then show ?case by simp
next
  case (Cons ev evs)
  obtain c1 where c1: "concrete_step T idx ev c = Some c1" "fold_opt (concrete_step T idx) evs c1 = Some c'"
    using Cons.prems(3) by (auto split: option.splits)
  obtain s1 where s1: "abstract_step P ev s = Some s1" "ms_rel inv gamma s1 c1"
    using abstract_step_sound [OF assms(1) Cons.prems(1,2) c1(1)] by blast
  show ?case
    using Cons.IH [OF concrete_step_wf [OF c1(1) Cons.prems(1)] s1(2) c1(2)] s1(1) by simp
qed

lemma persistent_scopes_sound:
  assumes "persist_ok T E" "scoped_wf T c" "ms_rel inv gamma s c"
    and "sc \<in> ms_persistent_scopes_tag P s t" "ss_scopes c sc = Some i" "(t, True) \<in> set (si_history i)"
  shows "t \<in> set (ss_set c)"
proof -
  have "omap_wf (scopes2info s)" using assms(3) by (simp add: ms_rel_def)
  then obtain p where p: "map_of (scopes2info s) sc = Some p" "p_pers_tag P p t"
    using assms(4) omap_wf_distinct [of "scopes2info s"] by (auto simp: ms_persistent_scopes_tag_def)
  have "scope_rel inv gamma (Some i) (Some p) (map_of (scopes2entercount s) sc)"
    using assms(3) unfolding ms_rel_def p(1) [symmetric] assms(5) [symmetric] by blast
  then have "inv p" "si_history i \<in> gamma p" by (auto simp: scope_rel_def)
  moreover have "scope_ok T (ss_set c) i" using assms(2,5) by (simp add: scoped_wf_def)
  ultimately show ?thesis
    using persistent_cached [OF assms(1) _ _ p(2) assms(6), of "si_start i"] by (auto simp: scope_ok_def)
qed

end

end
