(* ===== verification/TA_Persistence_Properties.thy ===== *)
theory TA_Persistence_Properties
  imports TA_Multi_Scope
begin

text \<open>
  The properties of the persistence analyses: the set-wise and the element-wise analysis in the
  multi-scope wrapper are sound along every execution without tracked arrays; the conditional must
  analysis and the set-wise analysis with tracked arrays are not.
\<close>

definition start_set :: "lru_set \<Rightarrow> scoped_set" where
  "start_set q = \<lparr>ss_set = q, ss_scopes = Map.empty\<rparr>"

lemma start_set_ok: "lru_wf (ASSOCIATIVITY T) q \<Longrightarrow> scoped_wf T (start_set q)" "ms_rel iv gamma ms_init (start_set q)"
  by (auto simp: start_set_def scoped_wf_def intro: ms_rel_init)

text \<open>
  C17: element-wise persistence in the multi-scope wrapper, with the persistence of arrays switched off: along every execution of accesses and
  scope borders no assertion fails, and a block that is called persistent in an open scope and was
  accessed in it, at an address the analysis knew, is cached, whatever the set held before.
\<close>

theorem element_wise_scopes_sound:
  assumes "persist_ok T E" "lru_wf (ASSOCIATIVITY T) q"
    and "fold_opt (concrete_step T idx) evs (start_set q) = Some c"
  shows "\<exists>s. fold_opt (abstract_step (element_wise_persistence T E)) evs ms_init = Some s \<and>
    (\<forall>sc t i. sc \<in> ms_persistent_scopes_tag (element_wise_persistence T E) s t \<and>
      ss_scopes c sc = Some i \<and> (t, True) \<in> set (si_history i) \<longrightarrow> t \<in> set (ss_set c))"
proof -
  note start = start_set_ok(1) [OF assms(2)] start_set_ok(2)
  obtain s where s: "fold_opt (abstract_step (element_wise_persistence T E)) evs ms_init = Some s"
    "ms_rel (ew_inv T idx) ew_gamma s c" "scoped_wf T c"
    using element_wise_pers.scopes_run_sound [OF assms(1) start assms(3)] by blast
  then show ?thesis using element_wise_pers.persistent_scopes_sound [OF assms(1) s(3,2)] by blast
qed

definition ex_events :: "event list" where
  "ex_events = [Enter 7, Access 0x20 LOAD, Access 0x40 LOAD, Access 0x20 STORE]"

lemma ex_events_run:
  "fold_opt (concrete_step ex_traits 0) ex_events (start_set []) =
     Some \<lparr>ss_set = [1, 2], ss_scopes = [7 \<mapsto> \<lparr>si_entered = 1, si_start = [], si_history = [(1, True), (2, True), (1, True)]\<rparr>]\<rparr>"
  by (simp add: ex_events_def start_set_def getindex_def getTag_def lru_access_def log_access_def fun_eq_iff)

lemma ex_persist_ok: "persist_ok ex_traits ex_env"
  by (simp add: persist_ok_def ex_traits_ok ex_env_def)

theorem element_wise_scopes_sound_witness:
  "\<exists>s. fold_opt (abstract_step (element_wise_persistence ex_traits ex_env)) ex_events ms_init = Some s \<and>
    (7 \<in> ms_persistent_scopes_tag (element_wise_persistence ex_traits ex_env) s 1 \<longrightarrow> 1 \<in> set [1 :: tag, 2])"
proof -
  have "lru_wf (ASSOCIATIVITY ex_traits) []" by (simp add: lru_wf_def)
  from element_wise_scopes_sound [OF ex_persist_ok this ex_events_run] show ?thesis by auto
qed

text \<open>
  C18: set-wise persistence in the multi-scope wrapper, with the persistence of arrays switched off, is sound
  in the same sense: along every execution of accesses and scope borders no assertion fails, and a block
  that is called persistent in an open scope and was accessed in it, at an address the analysis knew, is
  cached, whatever the set held before.
\<close>

theorem set_wise_scopes_sound:
  assumes "persist_ok T E" "lru_wf (ASSOCIATIVITY T) q"
    and "fold_opt (concrete_step T idx) evs (start_set q) = Some c"
  shows "\<exists>s. fold_opt (abstract_step (set_wise_persistence T E)) evs ms_init = Some s \<and>
    (\<forall>sc t i. sc \<in> ms_persistent_scopes_tag (set_wise_persistence T E) s t \<and>
      ss_scopes c sc = Some i \<and> (t, True) \<in> set (si_history i) \<longrightarrow> t \<in> set (ss_set c))"
proof -
  note start = start_set_ok(1) [OF assms(2)] start_set_ok(2)
  obtain s where s: "fold_opt (abstract_step (set_wise_persistence T E)) evs ms_init = Some s"
    "ms_rel (sw_inv T idx) sw_histories s c" "scoped_wf T c"
    using set_wise_pers.scopes_run_sound [OF assms(1) start assms(3)] by blast
  then show ?thesis using set_wise_pers.persistent_scopes_sound [OF assms(1) s(3,2)] by blast
qed

theorem set_wise_scopes_sound_witness:
  "\<exists>s. fold_opt (abstract_step (set_wise_persistence ex_traits ex_env)) ex_events ms_init = Some s \<and>
    (7 \<in> ms_persistent_scopes_tag (set_wise_persistence ex_traits ex_env) s 2 \<longrightarrow> 2 \<in> set [1 :: tag, 2])"
proof -
  have "lru_wf (ASSOCIATIVITY ex_traits) []" by (simp add: lru_wf_def)
  from set_wise_scopes_sound [OF ex_persist_ok this ex_events_run] show ?thesis by auto
qed

section \<open>Where persistence is claimed too often\<close>

text \<open>
  Other tags age a tag by one each as long as they are new: after as many of them as there are
  ways the tag is gone.
\<close>

definition aged_by :: "tag \<Rightarrow> tag set \<Rightarrow> lru_set \<Rightarrow> bool" where
  "aged_by t S q \<longleftrightarrow> (t \<in> set q \<longrightarrow> card S \<le> lru_age q t \<and> (\<forall>u \<in> set q. lru_age q u < lru_age q t \<longrightarrow> u \<in> S))"

lemma aged_by_access:
  assumes "lru_wf A q" "aged_by t S q" "x \<notin> S" "x \<noteq> t" "finite S"
  shows "aged_by t (insert x S) (lru_access A x q)"
  unfolding aged_by_def
proof (intro impI)
  assume "t \<in> set (lru_access A x q)"
  then have t: "t \<in> set q" "lru_age (lru_access A x q) t = lru_next_age q x t"
    using lru_access_other [OF assms(1), of t x] assms(4) by auto
  have S: "card S \<le> lru_age q t" "\<And>u. u \<in> set q \<Longrightarrow> lru_age q u < lru_age q t \<Longrightarrow> u \<in> S"
    using assms(2) t(1) by (auto simp: aged_by_def)
  have age: "lru_age (lru_access A x q) t = Suc (lru_age q t)"
    unfolding t(2) lru_next_age_def using S(2) assms(3) by auto
  have "u \<in> insert x S" if "u \<in> set (lru_access A x q)" "lru_age (lru_access A x q) u < Suc (lru_age q t)" for u
  proof (cases "u = x")
    case False
    then have u: "u \<in> set q" "lru_next_age q x u < Suc (lru_age q t)"
      using lru_access_other [OF assms(1), of u x] that by auto
    then have "lru_age q u \<le> lru_age q t" using lru_next_age_ge [of q u x] by simp
    moreover have "u \<noteq> t" using u(2) S(2) assms(3) by (auto simp: lru_next_age_def split: if_splits)
    ultimately have "lru_age q u < lru_age q t" using lru_age_inj [OF u(1) t(1)] by fastforce
    then show ?thesis using S(2) u(1) by blast
  qed simp
  then show "card (insert x S) \<le> lru_age (lru_access A x q) t \<and>
      (\<forall>u \<in> set (lru_access A x q). lru_age (lru_access A x q) u < lru_age (lru_access A x q) t \<longrightarrow> u \<in> insert x S)"
    using S(1) assms(3,5) unfolding age by auto
qed

lemma aged_by_run:
  "lru_wf A q \<Longrightarrow> aged_by t S q \<Longrightarrow> finite S \<Longrightarrow> distinct us \<Longrightarrow> t \<notin> set us \<Longrightarrow> S \<inter> set us = {} \<Longrightarrow>
     aged_by t (S \<union> set us) (lru_run A us q)"
proof (induction us arbitrary: S q)
  case Nil
  then show ?case by simp
next
  case (Cons x us)
  have "aged_by t (insert x S) (lru_access A x q)"
    using Cons.prems by (intro aged_by_access) auto
  then have "aged_by t (insert x S \<union> set us) (lru_run A us (lru_access A x q))"
    using Cons.prems by (intro Cons.IH) auto
  then show ?case by simp
qed

lemma evicted_by_new_tags:
  assumes "lru_wf A q" "0 < A" "distinct us" "t \<notin> set us" "A \<le> length us"
  shows "t \<notin> set (lru_run A (t # us) q)"
proof
  assume "t \<in> set (lru_run A (t # us) q)"
  have "aged_by t {} (lru_access A t q)" using lru_access_self(2) [OF assms(2)] by (simp add: aged_by_def)
  then have "aged_by t ({} \<union> set us) (lru_run A us (lru_access A t q))"
    using assms by (intro aged_by_run) auto
  then have "card (set us) \<le> lru_age (lru_run A (t # us) q) t"
    using \<open>t \<in> set (lru_run A (t # us) q)\<close> by (simp add: aged_by_def)
  moreover have "lru_age (lru_run A (t # us) q) t < A"
    using lru_age_less [OF \<open>t \<in> set (lru_run A (t # us) q)\<close>] lru_run_wf [OF assms(1), of "t # us"]
    by (auto simp: lru_wf_def)
  ultimately show False using assms(5) distinct_card [OF assms(3)] by simp
qed

definition cm_run :: "cache_traits \<Rightarrow> ana_env \<Rightarrow> address list \<Rightarrow> cond_must \<Rightarrow> cond_must option" where
  "cm_run T E as m = fold_opt (\<lambda>a m. map_option fst (cm_update T E m (aa_of_address a) LOAD False CL_UNKNOWN)) as m"

lemma cm_run_first_accesses:
  "distinct (map (getTag T) as) \<Longrightarrow> set (map (getTag T) as) \<inter> set (keys m) = {} \<Longrightarrow>
     \<exists>m'. cm_run T E as m = Some m' \<and> (\<forall>t \<in> set (keys m). map_of m' t = map_of m t)"
proof (induction as arbitrary: m)
  case Nil
  then show ?case by (simp add: cm_run_def)
next
  case (Cons a as)
  let ?t = "getTag T a"
  have new: "map_of m ?t = None" using Cons.prems(2) by (auto simp: map_of_eq_None_iff)
  have "set (map (getTag T) as) \<inter> set (keys (omap_set ?t 1 m)) = {}"
    using Cons.prems unfolding keys_omap_set by auto
  moreover have "distinct (map (getTag T) as)" using Cons.prems(1) by simp
  ultimately obtain m' where m': "cm_run T E as (omap_set ?t 1 m) = Some m'"
    "\<forall>t \<in> set (keys (omap_set ?t 1 m)). map_of m' t = map_of (omap_set ?t 1 m) t"
    using Cons.IH by blast
  have "map_of m' t = map_of m t" if "t \<in> set (keys m)" for t
  proof -
    have "t \<noteq> ?t" using that Cons.prems(2) by force
    moreover have "t \<in> set (keys (omap_set ?t 1 m))" unfolding keys_omap_set using that by blast
    with m'(2) have "map_of m' t = map_of (omap_set ?t 1 m) t" by blast
    ultimately show ?thesis by simp
  qed
  then show ?case using m'(1) new by (simp add: cm_run_def cm_update_def)
qed

text \<open>
  C19: the conditional must analysis calls a block persistent that has been evicted: the first access
  to a block leaves the counts of the others as they are, so after one access to each of as many new
  blocks as there are ways, the first one is no longer cached and still persistent.
\<close>

theorem cond_must_first_accesses_unsound:
  assumes "traits_ok T" "lru_wf (ASSOCIATIVITY T) q"
    and "distinct (map (getTag T) (a # as))" "ASSOCIATIVITY T \<le> length as"
  shows "\<exists>m. cm_run T E (a # as) [] = Some m \<and> cm_pers_tag T m (getTag T a) \<and>
    getTag T a \<notin> set (lru_run (ASSOCIATIVITY T) (map (getTag T) (a # as)) q)"
proof -
  have A: "0 < ASSOCIATIVITY T" using assms(1) by (simp add: traits_ok_def)
  have first: "cm_run T E (a # as) [] = cm_run T E as [(getTag T a, 1)]"
    by (simp add: cm_run_def cm_update_def)
  obtain m where m: "cm_run T E as [(getTag T a, 1)] = Some m" "map_of m (getTag T a) = Some 1"
    using cm_run_first_accesses [of T as "[(getTag T a, 1)]" E] assms(3) by auto
  have "cm_pers_tag T m (getTag T a)" using m(2) A by (simp add: cm_pers_tag_def)
  moreover have "getTag T a \<notin> set (lru_run (ASSOCIATIVITY T) (getTag T a # map (getTag T) as) q)"
    using assms(3,4) by (intro evicted_by_new_tags [OF assms(2) A]) auto
  ultimately show ?thesis using m(1) first by simp
qed

theorem cond_must_first_accesses_unsound_witness:
  "\<exists>m. cm_run ex_traits ex_env [0x20, 0x40, 0x60, 0x80, 0xA0] [] = Some m \<and> cm_pers_tag ex_traits m 1 \<and>
    1 \<notin> set (lru_run 4 [1, 2, 3, 4, 5] [])"
proof -
  have "lru_wf (ASSOCIATIVITY ex_traits) []" by (simp add: lru_wf_def)
  moreover have "map (getTag ex_traits) [0x20, 0x40, 0x60, 0x80, 0xA0] = [1, 2, 3, 4, 5]" by (simp add: getTag_def)
  ultimately show ?thesis
    using cond_must_first_accesses_unsound [OF ex_traits_ok, of "[]" "0x20" "[0x40, 0x60, 0x80, 0xA0]" ex_env]
    by (simp del: lru_run.simps)
qed

text \<open>
  With tracked arrays the set-wise analysis admits one conflict too many: an access to an array
  in a state with as many conflicts as ways does not go to top, and every block is still called
  persistent.
\<close>

theorem set_wise_array_exceeds_ways:
  assumes "ArrayPersistenceAnalysis E \<noteq> APNone" "aa_get_array aa = Some v" "\<not> SPersistenceA E"
    and "\<not> sw_top s" "sw_size s = ASSOCIATIVITY T" "getPerArrayBound T E s v = Some b" "count (sw_arrays s) v < b"
  shows "\<exists>s' r. sw_potential T E s aa ls rep = Some (s', r) \<and> sw_size s' = Suc (ASSOCIATIVITY T) \<and>
    sw_pers_tag T E s' t"
  using assms by (simp add: sw_potential_def sw_size_def sw_pers_tag_def)

text \<open>An array of 16 lines, and four blocks that fill the set.\<close>

definition ex_array_env :: ana_env where
  "ex_array_env = ex_env\<lparr>ArrayAnalysis := True, ArrayPersistenceAnalysis := APSetwise, globalVariables := [3],
     globalVarAddress := (\<lambda>_. 0x1000), arraySize := (\<lambda>_. 256)\<rparr>"

definition ex_full_set :: set_wise where
  "ex_full_set = \<lparr>sw_top = False, sw_r = 0, sw_blocks = {(1, []), (2, []), (3, []), (4, [])}, sw_arrays = {#}\<rparr>"

theorem set_wise_array_exceeds_ways_witness:
  "\<exists>s' r. sw_potential ex_traits ex_array_env ex_full_set (AArray 3) LOAD False = Some (s', r) \<and>
    sw_size s' = 5 \<and> sw_pers_tag ex_traits ex_array_env s' 1"
proof -
  have "getPerSetSize ex_traits ex_array_env 3 = 8"
    by (simp add: getPerSetSize_def ex_array_env_def getCachelineAddress_def Let_def)
  then have "getPerArrayBound ex_traits ex_array_env ex_full_set 3 = Some 8"
    by (simp add: getPerArrayBound_def ex_full_set_def)
  then show ?thesis
    using set_wise_array_exceeds_ways [of ex_array_env "AArray 3" 3 ex_full_set ex_traits 8 LOAD False 1]
    by (simp add: ex_array_env_def ex_env_def ex_full_set_def sw_size_def)
qed

end
