(* ===== verification/TA_Interval_Counter.thy ===== *)
theory TA_Interval_Counter
  imports TA_Prelude
begin

text \<open>
  \<open>IntervalCounter<LowerBoundNeeded, UpperBoundNeeded, AllowJoin>\<close>
  (\<open>include/Util/IntervalCounter.h\<close>): bounds on a number of events.  The three classes the alias
  template selects from are the constructors of a datatype; the template arguments are the flags
  \<open>L\<close>, \<open>U\<close> and \<open>J\<close>.  Bounds are unsigned and wrap around.
\<close>

datatype interval_counter = DoubleBound "32 word" "32 word" | SingleBound "32 word" | NoBound

text \<open>\<open>IntervalCounterType\<close>: which class the flags select.\<close>

definition ic_shape :: "bool \<Rightarrow> bool \<Rightarrow> bool \<Rightarrow> interval_counter \<Rightarrow> bool" where
  "ic_shape L U J c =
     (if L \<and> U \<and> J then (case c of DoubleBound _ _ \<Rightarrow> True | _ \<Rightarrow> False)
      else if L \<or> U then (case c of SingleBound _ \<Rightarrow> True | _ \<Rightarrow> False)
      else c = NoBound)"

text \<open>
  The constructor from two bounds.  A single counter takes the bound it needs; for both bounds and
  no join they must be equal.
\<close>

definition ic_make2 :: "bool \<Rightarrow> bool \<Rightarrow> bool \<Rightarrow> 32 word \<Rightarrow> 32 word \<Rightarrow> interval_counter option" where
  "ic_make2 L U J lb ub =
     (if L \<and> U \<and> J then Some (DoubleBound lb ub)
      else if L \<and> \<not> U then Some (SingleBound lb)
      else if U then (if L \<and> lb \<noteq> ub then None else Some (SingleBound ub))
      else Some NoBound)"

definition ic_make :: "bool \<Rightarrow> bool \<Rightarrow> bool \<Rightarrow> 32 word \<Rightarrow> interval_counter" where
  "ic_make L U J v =
     (if L \<and> U \<and> J then DoubleBound v v else if L \<or> U then SingleBound v else NoBound)"

text \<open>\<open>operator=\<close> for an unsigned value.\<close>

fun ic_assign :: "interval_counter \<Rightarrow> 32 word \<Rightarrow> interval_counter" where
  "ic_assign (DoubleBound _ _) v = DoubleBound v v"
| "ic_assign (SingleBound _) v = SingleBound v"
| "ic_assign NoBound v = NoBound"

fun ic_add :: "interval_counter \<Rightarrow> 32 word \<Rightarrow> interval_counter" where
  "ic_add (DoubleBound l u) v = DoubleBound (l + v) (u + v)"
| "ic_add (SingleBound s) v = SingleBound (s + v)"
| "ic_add NoBound v = NoBound"

text \<open>\<open>operator+=\<close> for another counter of the same type.\<close>

fun ic_plus :: "interval_counter \<Rightarrow> interval_counter \<Rightarrow> interval_counter" where
  "ic_plus (DoubleBound l u) (DoubleBound l' u') = DoubleBound (l + l') (u + u')"
| "ic_plus (SingleBound s) (SingleBound s') = SingleBound (s + s')"
| "ic_plus c _ = c"

definition ic_inc :: "interval_counter \<Rightarrow> interval_counter" where
  "ic_inc c = ic_add c 1"

definition ic_eq :: "interval_counter \<Rightarrow> interval_counter \<Rightarrow> bool" where
  "ic_eq c d \<longleftrightarrow> c = d"

fun ic_joinable :: "bool \<Rightarrow> interval_counter \<Rightarrow> interval_counter \<Rightarrow> bool" where
  "ic_joinable J NoBound d = True"
| "ic_joinable J c d = (if J then True else ic_eq c d)"

fun ic_join :: "bool \<Rightarrow> bool \<Rightarrow> bool \<Rightarrow> interval_counter \<Rightarrow> interval_counter \<Rightarrow> interval_counter option" where
  "ic_join L U J (DoubleBound l u) (DoubleBound l' u') =
     (if \<not> ic_joinable J (DoubleBound l u) (DoubleBound l' u') then None
      else Some (DoubleBound (if l > l' then l' else l) (if u < u' then u' else u)))"
| "ic_join L U J (SingleBound s) (SingleBound s') =
     (if \<not> ic_joinable J (SingleBound s) (SingleBound s') then None
      else if J then
        let s1 = (if L \<and> s > s' then s' else s)
        in Some (SingleBound (if U \<and> s1 < s' then s' else s1))
      else Some (SingleBound s))"
| "ic_join L U J c d = Some c"

fun ic_lb :: "interval_counter \<Rightarrow> 32 word" where
  "ic_lb (DoubleBound l u) = l"
| "ic_lb (SingleBound s) = s"
| "ic_lb NoBound = 0"

fun ic_ub :: "interval_counter \<Rightarrow> 32 word" where
  "ic_ub (DoubleBound l u) = u"
| "ic_ub (SingleBound s) = s"
| "ic_ub NoBound = 0"

section \<open>What a counter says\<close>

definition ic_gamma :: "bool \<Rightarrow> bool \<Rightarrow> interval_counter \<Rightarrow> nat set" where
  "ic_gamma L U c = {n. (L \<longrightarrow> unat (ic_lb c) \<le> n) \<and> (U \<longrightarrow> n \<le> unat (ic_ub c))}"

text \<open>No addition wraps a bound that is needed.\<close>

definition ic_fits :: "bool \<Rightarrow> bool \<Rightarrow> interval_counter \<Rightarrow> nat \<Rightarrow> bool" where
  "ic_fits L U c k \<longleftrightarrow> (L \<longrightarrow> unat (ic_lb c) + k < 2 ^ 32) \<and> (U \<longrightarrow> unat (ic_ub c) + k < 2 ^ 32)"

lemma ic_shape_make [simp]: "ic_shape L U J (ic_make L U J v)"
  by (simp add: ic_shape_def ic_make_def)

lemma ic_shape_add [simp]: "ic_shape L U J (ic_add c v) = ic_shape L U J c"
  by (cases c) (simp_all add: ic_shape_def)

lemma ic_shape_assign [simp]: "ic_shape L U J (ic_assign c v) = ic_shape L U J c"
  by (cases c) (simp_all add: ic_shape_def)

lemma ic_bounds_make: "L \<or> U \<Longrightarrow> ic_lb (ic_make L U J v) = v \<and> ic_ub (ic_make L U J v) = v"
  by (simp add: ic_make_def)

lemma ic_make_gamma: "n \<in> ic_gamma L U (ic_make L U J v) \<longleftrightarrow> (L \<longrightarrow> unat v \<le> n) \<and> (U \<longrightarrow> n \<le> unat v)"
  using ic_bounds_make [of L U J v] by (auto simp: ic_gamma_def)

lemma ic_bounds_add: "c \<noteq> NoBound \<Longrightarrow> ic_lb (ic_add c v) = ic_lb c + v \<and> ic_ub (ic_add c v) = ic_ub c + v"
  by (cases c) simp_all

lemma ic_add_gamma:
  assumes "ic_shape L U J c" "n \<in> ic_gamma L U c" "ic_fits L U c (unat v)"
  shows "n + unat v \<in> ic_gamma L U (ic_add c v)"
proof (cases "c = NoBound")
  case True
  then show ?thesis using assms(1) by (auto simp: ic_shape_def ic_gamma_def split: if_splits)
next
  case False
  then show ?thesis
    using assms(2,3) ic_bounds_add [of c v] unat_add_small [of "ic_lb c" v] unat_add_small [of "ic_ub c" v]
    by (auto simp: ic_gamma_def ic_fits_def)
qed

lemma ic_plus_gamma:
  assumes "ic_shape L U J c" "ic_shape L U J d" "n \<in> ic_gamma L U c" "k \<in> ic_gamma L U d"
    and "ic_fits L U c (unat (ic_ub d))" "ic_fits L U c (unat (ic_lb d))"
  shows "n + k \<in> ic_gamma L U (ic_plus c d)"
proof (cases c)
  case (DoubleBound l u)
  then obtain l' u' where "d = DoubleBound l' u'"
    using assms(1,2) by (cases d) (auto simp: ic_shape_def split: if_splits)
  then show ?thesis
    using DoubleBound assms(3-6) unat_add_small [of l l'] unat_add_small [of u u']
    by (auto simp: ic_gamma_def ic_fits_def)
next
  case (SingleBound s)
  then obtain s' where "d = SingleBound s'"
    using assms(1,2) by (cases d) (auto simp: ic_shape_def split: if_splits)
  then show ?thesis
    using SingleBound assms(3-6) unat_add_small [of s s'] by (auto simp: ic_gamma_def ic_fits_def)
next
  case NoBound
  then show ?thesis using assms(1) by (auto simp: ic_shape_def ic_gamma_def split: if_splits)
qed

text \<open>A join is defined for joinable counters and covers both.\<close>

lemma ic_join_gamma:
  assumes "ic_shape L U J c" "ic_shape L U J d" "ic_joinable J c d"
  shows "\<exists>e. ic_join L U J c d = Some e \<and> ic_shape L U J e \<and> ic_gamma L U c \<union> ic_gamma L U d \<subseteq> ic_gamma L U e"
proof (cases c)
  case (DoubleBound l u)
  then obtain l' u' where "d = DoubleBound l' u'"
    using assms(1,2) by (cases d) (auto simp: ic_shape_def split: if_splits)
  then show ?thesis
    using DoubleBound assms by (auto simp: ic_gamma_def ic_shape_def word_less_nat_alt split: if_splits)
next
  case (SingleBound s)
  then obtain s' where d: "d = SingleBound s'"
    using assms(1,2) by (cases d) (auto simp: ic_shape_def split: if_splits)
  have flags: "\<not> (L \<and> U \<and> J)" using assms(1) SingleBound by (auto simp: ic_shape_def)
  show ?thesis
  proof (cases J)
    case True
    then show ?thesis
      using flags SingleBound d assms(1)
      by (cases L; cases U) (auto simp: ic_gamma_def ic_shape_def word_less_nat_alt Let_def)
  next
    case False
    then show ?thesis using SingleBound d assms by (simp add: ic_eq_def)
  qed
next
  case NoBound
  then show ?thesis using assms(1) by (auto simp: ic_shape_def ic_gamma_def split: if_splits)
qed

section \<open>Counting events\<close>

text \<open>
  How the counter of a program point comes about: it is set to 0, events are added along a path, and the
  counters of paths that meet are joined.
\<close>

datatype counter_tree = Fresh | Counted counter_tree "32 word" | Joined counter_tree counter_tree

fun tree_counter :: "bool \<Rightarrow> bool \<Rightarrow> bool \<Rightarrow> counter_tree \<Rightarrow> interval_counter option" where
  "tree_counter L U J Fresh = Some (ic_make L U J 0)"
| "tree_counter L U J (Counted t v) = map_option (\<lambda>c. ic_add c v) (tree_counter L U J t)"
| "tree_counter L U J (Joined a b) =
     (case (tree_counter L U J a, tree_counter L U J b) of (Some c, Some d) \<Rightarrow> ic_join L U J c d | _ \<Rightarrow> None)"

text \<open>The numbers of events on the paths.\<close>

fun path_counts :: "counter_tree \<Rightarrow> nat set" where
  "path_counts Fresh = {0}"
| "path_counts (Counted t v) = (\<lambda>n. n + unat v) ` path_counts t"
| "path_counts (Joined a b) = path_counts a \<union> path_counts b"

lemma path_counts_finite: "finite (path_counts t) \<and> path_counts t \<noteq> {}"
  by (induction t) auto

lemma Min_shift: "finite S \<Longrightarrow> S \<noteq> {} \<Longrightarrow> Min ((\<lambda>n. n + k) ` S) = Min S + (k :: nat)"
  by (rule mono_Min_commute [symmetric]) (auto simp: mono_def)

lemma Max_shift: "finite S \<Longrightarrow> S \<noteq> {} \<Longrightarrow> Max ((\<lambda>n. n + k) ` S) = Max S + (k :: nat)"
  by (rule mono_Max_commute [symmetric]) (auto simp: mono_def)

definition ic_exact :: "bool \<Rightarrow> bool \<Rightarrow> bool \<Rightarrow> interval_counter \<Rightarrow> nat set \<Rightarrow> bool" where
  "ic_exact L U J c S \<longleftrightarrow> ic_shape L U J c \<and> (L \<longrightarrow> unat (ic_lb c) = Min S) \<and> (U \<longrightarrow> unat (ic_ub c) = Max S)"

lemma ic_add_exact:
  assumes "ic_exact L U J c S" "finite S" "S \<noteq> {}" "\<forall>n \<in> S. n + unat v < 2 ^ 32"
  shows "ic_exact L U J (ic_add c v) ((\<lambda>n. n + unat v) ` S)"
proof (cases "c = NoBound")
  case True
  then show ?thesis using assms(1) by (auto simp: ic_exact_def ic_shape_def split: if_splits)
next
  case False
  have "Min S + unat v < 2 ^ 32" "Max S + unat v < 2 ^ 32" using assms(2-4) by simp_all
  then show ?thesis
    using assms(1-3) ic_bounds_add [OF False, of v] unat_add_small [of "ic_lb c" v] unat_add_small [of "ic_ub c" v]
    by (auto simp: ic_exact_def Min_shift Max_shift)
qed

lemma ic_join_exact:
  assumes "ic_exact L U J c S" "ic_exact L U J d T" "finite S" "S \<noteq> {}" "finite T" "T \<noteq> {}"
  shows "J \<Longrightarrow> \<exists>e. ic_join L U J c d = Some e"
    and "ic_join L U J c d = Some e \<Longrightarrow> ic_exact L U J e (S \<union> T)"
proof -
  have m: "Min (S \<union> T) = min (Min S) (Min T)" "Max (S \<union> T) = max (Max S) (Max T)"
    using assms(3-6) by (simp_all add: Min_Un Max_Un)
  note sh = assms(1,2) [unfolded ic_exact_def, THEN conjunct1]
  consider (double) l u l' u' where "c = DoubleBound l u" "d = DoubleBound l' u'"
    | (single) s s' where "c = SingleBound s" "d = SingleBound s'" "\<not> (L \<and> U \<and> J)"
    | (none) "c = NoBound" "d = NoBound" "\<not> L" "\<not> U"
    using sh by (cases c; cases d) (auto simp: ic_shape_def split: if_splits)
  note c = this
  show "J \<Longrightarrow> \<exists>e. ic_join L U J c d = Some e" using c by cases auto
  show "ic_join L U J c d = Some e \<Longrightarrow> ic_exact L U J e (S \<union> T)"
    using c
  proof cases
    case double
    moreover assume "ic_join L U J c d = Some e"
    ultimately show ?thesis using assms(1,2)
      by (auto simp: ic_exact_def ic_shape_def m min_def max_def word_less_nat_alt not_less split: if_splits)
  next
    case single
    moreover assume "ic_join L U J c d = Some e"
    ultimately show ?thesis using assms(1,2)
      by (cases J; cases L; cases U)
        (auto simp: ic_exact_def ic_shape_def ic_eq_def Let_def m min_def max_def word_less_nat_alt not_less split: if_splits)
  next
    case none
    moreover assume "ic_join L U J c d = Some e"
    ultimately show ?thesis using assms(1) by (auto simp: ic_exact_def ic_shape_def)
  qed
qed

lemma tree_counter_exact:
  assumes "\<forall>n \<in> path_counts t. n < 2 ^ 32"
  shows "(J \<longrightarrow> tree_counter L U J t \<noteq> None) \<and> (\<forall>c. tree_counter L U J t = Some c \<longrightarrow> ic_exact L U J c (path_counts t))"
  using assms
proof (induction t)
  case Fresh
  then show ?case using ic_bounds_make [of L U J 0] by (cases "L \<or> U") (auto simp: ic_exact_def)
next
  case (Counted t v)
  have "n < 2 ^ 32" if "n \<in> path_counts t" for n
  proof -
    have "n + unat v < 2 ^ 32" using Counted.prems that by simp
    then show ?thesis by simp
  qed
  then have ih: "(J \<longrightarrow> tree_counter L U J t \<noteq> None) \<and> (\<forall>c. tree_counter L U J t = Some c \<longrightarrow> ic_exact L U J c (path_counts t))"
    using Counted.IH by blast
  have "ic_exact L U J (ic_add c v) (path_counts (Counted t v))" if "tree_counter L U J t = Some c" for c
    using ic_add_exact [of L U J c "path_counts t" v] ih that path_counts_finite [of t] Counted.prems by simp
  then show ?case using ih by auto
next
  case (Joined a b)
  note fin = path_counts_finite [of a] path_counts_finite [of b]
  have a: "(J \<longrightarrow> tree_counter L U J a \<noteq> None) \<and> (\<forall>c. tree_counter L U J a = Some c \<longrightarrow> ic_exact L U J c (path_counts a))"
    using Joined by simp
  have b: "(J \<longrightarrow> tree_counter L U J b \<noteq> None) \<and> (\<forall>c. tree_counter L U J b = Some c \<longrightarrow> ic_exact L U J c (path_counts b))"
    using Joined by simp
  show ?case
    using a b ic_join_exact [of L U J _ "path_counts a" _ "path_counts b"] fin by (fastforce split: option.splits)
qed

text \<open>
  C24: the bounds a counter keeps are exact: for the events added along paths since it was set to 0 and the
  joins where paths meet, the lower bound is the least and the upper bound the greatest number of events
  on one of the paths, as long as no number reaches \<open>2 ^ 32\<close>; with joining allowed no join fails.
\<close>

theorem interval_counter_sound:
  assumes "\<forall>n \<in> path_counts t. n < 2 ^ 32"
  shows "(J \<longrightarrow> tree_counter L U J t \<noteq> None) \<and>
    (\<forall>c. tree_counter L U J t = Some c \<longrightarrow>
      (L \<longrightarrow> unat (ic_lb c) = Min (path_counts t)) \<and> (U \<longrightarrow> unat (ic_ub c) = Max (path_counts t)))"
  using tree_counter_exact [OF assms, of J L U] by (auto simp: ic_exact_def)

theorem interval_counter_sound_witness:
  "\<exists>c. tree_counter True True True (Counted (Joined (Counted Fresh 3) (Joined Fresh (Counted Fresh 9))) 4) = Some c \<and>
    unat (ic_lb c) = 4 \<and> unat (ic_ub c) = 13"
proof -
  let ?t = "Counted (Joined (Counted Fresh 3) (Joined Fresh (Counted Fresh 9))) 4"
  have p: "path_counts ?t = {7, 4, 13}" by auto
  have "\<forall>n \<in> path_counts ?t. n < 2 ^ 32" unfolding p by simp
  from interval_counter_sound [OF this, of True True True] obtain c where "tree_counter True True True ?t = Some c"
      "unat (ic_lb c) = Min {7, 4, 13}" "unat (ic_ub c) = Max {7, 4, 13}"
    unfolding p by auto
  then show ?thesis by auto
qed

end
