(* ===== verification/TA_Cycling_Memory.thy ===== *)
theory TA_Cycling_Memory
  imports TA_Address TA_Interval_Counter
begin

text \<open>
  The memories below the caches, cycled by the pipeline (\<open>include/Memory/AbstractCyclingMemory.h\<close>): the
  fixed-latency memory (\<open>FixedLatencyCyclingMemory.h\<close>), the SDRAM with refreshes
  (\<open>SimpleSDRAMCyclingMemory.h\<close>, \<open>lib/Memory/SimpleSDRAMCyclingMemory.cpp\<close>), and the wrappers that
  count accesses and busy cycles and add the blocking of a shared bus (\<open>WrappingCyclingMemory.h\<close>,
  \<open>AccessCounterCyclingMemory.h\<close>, \<open>BusyCycleCounterCyclingMemory.h\<close>, \<open>BlockingCyclingMemory.h\<close>,
  \<open>BlockingCounterCyclingMemory.h\<close>).

  The virtual methods of \<open>AbstractCyclingMemory\<close> are the fields of a record, a subclass is a value of
  it, and the template parameter \<open>Memory\<close> of a wrapper is an argument.  Operations that the code
  writes with an assertion return an option; the lists are the cases the analysis splits into.
\<close>

section \<open>The interface\<close>

record ('m, 'l) cycling_memory =
  am_init :: 'm
  am_metrics :: "'m \<Rightarrow> 'l"
  am_reset :: "'m \<Rightarrow> 'm"
  am_busy :: "'m \<Rightarrow> bool"
  am_cycle :: "'m \<Rightarrow> 'm list option"
  am_stall :: "'m \<Rightarrow> bool"
  am_equals :: "'m \<Rightarrow> 'm \<Rightarrow> bool"
  am_joinable :: "'m \<Rightarrow> 'm \<Rightarrow> bool"
  am_join :: "'m \<Rightarrow> 'm \<Rightarrow> 'm option"
  am_announce :: "abs_address \<Rightarrow> access_type \<Rightarrow> 32 word \<Rightarrow> 'm \<Rightarrow> 'm list option"
  am_ff :: "'m \<Rightarrow> 'm list option"

text \<open>
  The command-line options the memories read: the latencies, and which penalties are accounted
  compositionally or stall the pipeline.
\<close>

record memory_options =
  Latency :: "32 word"
  PerWordLatency :: "32 word"
  DRAMRefreshLatency :: "32 word"
  comp_bus_blocking :: bool
  comp_dram_refresh :: bool
  stall_bus_blocking :: bool
  stall_dram_refresh :: bool

text \<open>The two-sided counters that are joined, and the interval added to them when fast-forwarding.\<close>

definition ff_zero :: interval_counter where
  "ff_zero = ic_make True True True 0"

definition ff_interval :: "32 word \<Rightarrow> 32 word \<Rightarrow> interval_counter" where
  "ff_interval lb ub = DoubleBound lb ub"

lemma ff_interval_make2: "ic_make2 True True True lb ub = Some (ff_interval lb ub)"
  by (simp add: ic_make2_def ff_interval_def)

section \<open>Fixed latency\<close>

record fixed_latency_config =
  flc_latency :: "32 word"
  flc_per_word :: "32 word"

text \<open>\<open>timeBlocked\<close> is a signed int.\<close>

record fixed_latency =
  fl_time :: int
  fl_ff :: interval_counter

definition fl_init :: fixed_latency where
  "fl_init = \<lparr>fl_time = 0, fl_ff = ff_zero\<rparr>"

definition fl_metrics :: "fixed_latency \<Rightarrow> interval_counter" where
  "fl_metrics m = fl_ff m"

definition fl_reset :: "fixed_latency \<Rightarrow> fixed_latency" where
  "fl_reset m = m\<lparr>fl_ff := ic_assign (fl_ff m) 0\<rparr>"

definition fl_busy :: "fixed_latency \<Rightarrow> bool" where
  "fl_busy m \<longleftrightarrow> fl_time m > 0"

definition fl_cycle :: "fixed_latency \<Rightarrow> fixed_latency list option" where
  "fl_cycle m = Some [if fl_time m > 0 then m\<lparr>fl_time := fl_time m - 1\<rparr> else m]"

definition fl_equals :: "fixed_latency \<Rightarrow> fixed_latency \<Rightarrow> bool" where
  "fl_equals m m' \<longleftrightarrow> fl_time m = fl_time m' \<and> ic_eq (fl_ff m) (fl_ff m')"

definition fl_joinable :: "fixed_latency \<Rightarrow> fixed_latency \<Rightarrow> bool" where
  "fl_joinable m m' \<longleftrightarrow> fl_time m = fl_time m' \<and> ic_joinable True (fl_ff m) (fl_ff m')"

definition fl_join :: "fixed_latency \<Rightarrow> fixed_latency \<Rightarrow> fixed_latency option" where
  "fl_join m m' =
     (if \<not> fl_joinable m m' then None
      else map_option (\<lambda>c. m\<lparr>fl_ff := c\<rparr>) (ic_join True True True (fl_ff m) (fl_ff m')))"

text \<open>The latency is computed in unsigned arithmetic and stored in the int.\<close>

definition fl_announce ::
  "fixed_latency_config \<Rightarrow> abs_address \<Rightarrow> access_type \<Rightarrow> 32 word \<Rightarrow> fixed_latency \<Rightarrow> fixed_latency list option" where
  "fl_announce C addr t numWords m =
     (if fl_busy m then None
      else Some [m\<lparr>fl_time := sint (flc_latency C + numWords * flc_per_word C)\<rparr>])"

definition fl_fast_forward :: "fixed_latency \<Rightarrow> fixed_latency list option" where
  "fl_fast_forward m =
     (if \<not> fl_busy m then None
      else Some [m\<lparr>fl_ff := ic_add (fl_ff m) (word_of_int (fl_time m - 1)), fl_time := 1\<rparr>])"

definition fl_memory :: "fixed_latency_config \<Rightarrow> (fixed_latency, interval_counter) cycling_memory" where
  "fl_memory C = \<lparr>am_init = fl_init, am_metrics = fl_metrics, am_reset = fl_reset, am_busy = fl_busy,
     am_cycle = fl_cycle, am_stall = (\<lambda>m. False), am_equals = fl_equals, am_joinable = fl_joinable,
     am_join = fl_join, am_announce = fl_announce C, am_ff = fl_fast_forward\<rparr>"

section \<open>SDRAM\<close>

datatype dram_phase = IDLE | REFRESH | ACCESS

record sdram =
  sd_phase :: dram_phase
  sd_time :: "32 word"
  sd_just_refreshed :: "abs_address option"
  sd_seen_refresh :: bool
  sd_ff :: interval_counter

definition maxBurstLength :: "32 word" where
  "maxBurstLength = 8"

definition sd_init :: sdram where
  "sd_init = \<lparr>sd_phase = IDLE, sd_time = 0, sd_just_refreshed = None, sd_seen_refresh = False, sd_ff = ff_zero\<rparr>"

definition sd_metrics :: "sdram \<Rightarrow> interval_counter \<times> abs_address option" where
  "sd_metrics m = (sd_ff m, sd_just_refreshed m)"

definition sd_metrics_join ::
  "interval_counter \<times> abs_address option \<Rightarrow> interval_counter \<times> abs_address option \<Rightarrow> (interval_counter \<times> abs_address option) option" where
  "sd_metrics_join x y =
     map_option (\<lambda>c. (c, if snd x \<noteq> snd y then None else snd x)) (ic_join True True True (fst x) (fst y))"

definition sd_reset :: "sdram \<Rightarrow> sdram" where
  "sd_reset m = m\<lparr>sd_just_refreshed := None, sd_ff := ic_assign (sd_ff m) 0\<rparr>"

definition sd_busy :: "sdram \<Rightarrow> bool" where
  "sd_busy m \<longleftrightarrow> sd_phase m \<noteq> IDLE"

definition sd_cycle :: "memory_options \<Rightarrow> sdram \<Rightarrow> sdram list option" where
  "sd_cycle Op m =
     (let r = m\<lparr>sd_just_refreshed := None\<rparr> in
      if sd_time r > 0 then
        if sd_phase r = IDLE then None
        else
          let r = r\<lparr>sd_time := sd_time r - 1\<rparr> in
          if sd_phase r = ACCESS \<and> sd_time r = 0 then
            Some ((if \<not> comp_dram_refresh Op \<and> \<not> sd_seen_refresh m
                   then [r\<lparr>sd_phase := REFRESH, sd_time := DRAMRefreshLatency Op,
                           sd_just_refreshed := Some aa_unknown\<rparr>] else []) @
                  [r\<lparr>sd_phase := IDLE, sd_seen_refresh := False\<rparr>])
          else if sd_phase r = REFRESH \<and> sd_time r = 0 then Some [r\<lparr>sd_phase := IDLE\<rparr>]
          else if sd_phase r = REFRESH then
            Some ((if \<not> comp_dram_refresh Op then [r\<lparr>sd_phase := IDLE, sd_time := 0\<rparr>] else []) @ [r])
          else Some [r]
      else Some [r])"

definition sd_stall :: "memory_options \<Rightarrow> sdram \<Rightarrow> bool" where
  "sd_stall Op m \<longleftrightarrow> stall_dram_refresh Op \<and> sd_phase m = REFRESH"

definition sd_equals :: "sdram \<Rightarrow> sdram \<Rightarrow> bool" where
  "sd_equals m m' \<longleftrightarrow> sd_phase m = sd_phase m' \<and> sd_time m = sd_time m' \<and>
     sd_just_refreshed m = sd_just_refreshed m' \<and> sd_seen_refresh m = sd_seen_refresh m' \<and>
     ic_eq (sd_ff m) (sd_ff m')"

definition sd_joinable :: "sdram \<Rightarrow> sdram \<Rightarrow> bool" where
  "sd_joinable m m' \<longleftrightarrow> sd_phase m = sd_phase m' \<and> sd_time m = sd_time m' \<and>
     sd_seen_refresh m = sd_seen_refresh m' \<and> ic_joinable True (sd_ff m) (sd_ff m')"

definition sd_join :: "sdram \<Rightarrow> sdram \<Rightarrow> sdram option" where
  "sd_join m m' =
     (if \<not> sd_joinable m m' then None
      else
        let j = (if sd_just_refreshed m \<noteq> sd_just_refreshed m' then m\<lparr>sd_just_refreshed := None\<rparr> else m)
        in map_option (\<lambda>c. j\<lparr>sd_ff := c\<rparr>) (ic_join True True True (sd_ff m) (sd_ff m')))"

definition sd_announce ::
  "memory_options \<Rightarrow> abs_address \<Rightarrow> access_type \<Rightarrow> 32 word \<Rightarrow> sdram \<Rightarrow> sdram list option" where
  "sd_announce Op addr t numWords m =
     (if sd_busy m \<or> sd_seen_refresh m \<or> numWords > maxBurstLength then None
      else Some [m\<lparr>sd_phase := ACCESS, sd_time := Latency Op + PerWordLatency Op * numWords\<rparr>])"

definition sd_fast_forward :: "memory_options \<Rightarrow> sdram \<Rightarrow> sdram list option" where
  "sd_fast_forward Op m =
     (case sd_phase m of
        IDLE \<Rightarrow> None
      | ACCESS \<Rightarrow>
          if sd_just_refreshed m \<noteq> None \<or> sd_time m = 0 then None
          else
            let refresh = \<not> comp_dram_refresh Op;
                r = (if refresh then m\<lparr>sd_seen_refresh := True\<rparr> else m)
            in Some ((if refresh
                      then [r\<lparr>sd_ff := ic_plus (sd_ff m)
                                (ff_interval (sd_time m - 1) (sd_time m - 1 + DRAMRefreshLatency Op)),
                              sd_just_refreshed := Some aa_unknown, sd_time := 1\<rparr>] else []) @
                     [r\<lparr>sd_ff := ic_add (sd_ff m) (sd_time m - 1), sd_time := 1\<rparr>])
      | REFRESH \<Rightarrow>
          if sd_time m = 0 then None
          else Some [m\<lparr>sd_ff := ic_plus (sd_ff m) (ff_interval 0 (sd_time m - 1)), sd_time := 1\<rparr>])"

definition sd_memory :: "memory_options \<Rightarrow> (sdram, interval_counter \<times> abs_address option) cycling_memory" where
  "sd_memory Op = \<lparr>am_init = sd_init, am_metrics = sd_metrics, am_reset = sd_reset, am_busy = sd_busy,
     am_cycle = sd_cycle Op, am_stall = sd_stall Op, am_equals = sd_equals, am_joinable = sd_joinable,
     am_join = sd_join, am_announce = sd_announce Op, am_ff = sd_fast_forward Op\<rparr>"

text \<open>\<open>getRefreshInterArrivalCycles\<close>: the cycles between two refreshes of a row, in unsigned arithmetic.\<close>

definition refresh_inter_arrival :: "memory_options \<Rightarrow> 32 word" where
  "refresh_inter_arrival Op = 64 * 100000 div 8192 - (Latency Op + PerWordLatency Op * maxBurstLength)"

section \<open>Wrapping\<close>

text \<open>
  \<open>WrappingCyclingMemory\<close> holds the wrapped memory; a subclass that adds a counter extends the
  record, and the virtual \<open>clone\<close> the base class calls keeps the added fields: the operations below
  are polymorphic in the extension.
\<close>

record 'm wrapping =
  wm_memory :: 'm

definition wm_cycle :: "('m, 'l) cycling_memory \<Rightarrow> ('m, 'z) wrapping_scheme \<Rightarrow> ('m, 'z) wrapping_scheme list option" where
  "wm_cycle M w = map_option (List.map (\<lambda>m. w\<lparr>wm_memory := m\<rparr>)) (am_cycle M (wm_memory w))"

definition wm_joinable :: "('m, 'l) cycling_memory \<Rightarrow> ('m, 'z) wrapping_scheme \<Rightarrow> ('m, 'z) wrapping_scheme \<Rightarrow> bool" where
  "wm_joinable M w w' = am_joinable M (wm_memory w) (wm_memory w')"

definition wm_join :: "('m, 'l) cycling_memory \<Rightarrow> ('m, 'z) wrapping_scheme \<Rightarrow> ('m, 'z) wrapping_scheme \<Rightarrow> ('m, 'z) wrapping_scheme option" where
  "wm_join M w w' =
     (if \<not> wm_joinable M w w' then None
      else map_option (\<lambda>m. w\<lparr>wm_memory := m\<rparr>) (am_join M (wm_memory w) (wm_memory w')))"

definition wm_announce ::
  "('m, 'l) cycling_memory \<Rightarrow> abs_address \<Rightarrow> access_type \<Rightarrow> 32 word \<Rightarrow> ('m, 'z) wrapping_scheme \<Rightarrow> ('m, 'z) wrapping_scheme list option" where
  "wm_announce M addr t numWords w =
     (if am_busy M (wm_memory w) then None
      else map_option (List.map (\<lambda>m. w\<lparr>wm_memory := m\<rparr>)) (am_announce M addr t numWords (wm_memory w)))"

definition wm_fast_forward :: "('m, 'l) cycling_memory \<Rightarrow> ('m, 'z) wrapping_scheme \<Rightarrow> ('m, 'z) wrapping_scheme list option" where
  "wm_fast_forward M w =
     (if \<not> am_busy M (wm_memory w) then None
      else map_option (List.map (\<lambda>m. w\<lparr>wm_memory := m\<rparr>)) (am_ff M (wm_memory w)))"

definition wm_memory_of :: "('m, 'l) cycling_memory \<Rightarrow> ('m wrapping, 'l) cycling_memory" where
  "wm_memory_of M = \<lparr>am_init = \<lparr>wm_memory = am_init M\<rparr>, am_metrics = (\<lambda>w. am_metrics M (wm_memory w)),
     am_reset = (\<lambda>w. w\<lparr>wm_memory := am_reset M (wm_memory w)\<rparr>), am_busy = (\<lambda>w. am_busy M (wm_memory w)),
     am_cycle = wm_cycle M, am_stall = (\<lambda>w. am_stall M (wm_memory w)),
     am_equals = (\<lambda>w w'. am_equals M (wm_memory w) (wm_memory w')), am_joinable = wm_joinable M,
     am_join = wm_join M, am_announce = wm_announce M, am_ff = wm_fast_forward M\<rparr>"

section \<open>Counting accesses and busy cycles\<close>

text \<open>Both subclasses add one counter, with the flags \<open>LowerBoundNeeded\<close>, \<open>UpperBoundNeeded\<close>, \<open>AllowJoin\<close>.\<close>

record 'm counting = "'m wrapping" +
  cm_counter :: interval_counter

definition cnt_init :: "bool \<Rightarrow> bool \<Rightarrow> bool \<Rightarrow> ('m, 'l) cycling_memory \<Rightarrow> 'm counting" where
  "cnt_init L U J M = \<lparr>wm_memory = am_init M, cm_counter = ic_make L U J 0\<rparr>"

definition cnt_metrics :: "('m, 'l) cycling_memory \<Rightarrow> 'm counting \<Rightarrow> 'l \<times> interval_counter" where
  "cnt_metrics M w = (am_metrics M (wm_memory w), cm_counter w)"

definition cnt_reset :: "('m, 'l) cycling_memory \<Rightarrow> 'm counting \<Rightarrow> 'm counting" where
  "cnt_reset M w = w\<lparr>wm_memory := am_reset M (wm_memory w), cm_counter := ic_assign (cm_counter w) 0\<rparr>"

definition cnt_equals :: "('m, 'l) cycling_memory \<Rightarrow> 'm counting \<Rightarrow> 'm counting \<Rightarrow> bool" where
  "cnt_equals M w w' \<longleftrightarrow> am_equals M (wm_memory w) (wm_memory w') \<and> ic_eq (cm_counter w) (cm_counter w')"

definition cnt_joinable :: "bool \<Rightarrow> ('m, 'l) cycling_memory \<Rightarrow> 'm counting \<Rightarrow> 'm counting \<Rightarrow> bool" where
  "cnt_joinable J M w w' \<longleftrightarrow> wm_joinable M w w' \<and> ic_joinable J (cm_counter w) (cm_counter w')"

definition cnt_join :: "bool \<Rightarrow> bool \<Rightarrow> bool \<Rightarrow> ('m, 'l) cycling_memory \<Rightarrow> 'm counting \<Rightarrow> 'm counting \<Rightarrow> 'm counting option" where
  "cnt_join L U J M w w' =
     (if \<not> cnt_joinable J M w w' then None
      else case wm_join M w w' of
          None \<Rightarrow> None
        | Some v \<Rightarrow> map_option (\<lambda>c. v\<lparr>cm_counter := c\<rparr>) (ic_join L U J (cm_counter v) (cm_counter w')))"

definition acc_announce ::
  "('m, 'l) cycling_memory \<Rightarrow> abs_address \<Rightarrow> access_type \<Rightarrow> 32 word \<Rightarrow> 'm counting \<Rightarrow> 'm counting list option" where
  "acc_announce M addr t numWords w =
     (if am_busy M (wm_memory w) then None
      else wm_announce M addr t numWords (w\<lparr>cm_counter := ic_inc (cm_counter w)\<rparr>))"

definition access_counter :: "bool \<Rightarrow> bool \<Rightarrow> bool \<Rightarrow> ('m, 'l) cycling_memory \<Rightarrow> ('m counting, 'l \<times> interval_counter) cycling_memory" where
  "access_counter L U J M = \<lparr>am_init = cnt_init L U J M, am_metrics = cnt_metrics M, am_reset = cnt_reset M,
     am_busy = (\<lambda>w. am_busy M (wm_memory w)), am_cycle = wm_cycle M, am_stall = (\<lambda>w. am_stall M (wm_memory w)),
     am_equals = cnt_equals M, am_joinable = cnt_joinable J M, am_join = cnt_join L U J M,
     am_announce = acc_announce M, am_ff = wm_fast_forward M\<rparr>"

definition busy_cycle :: "('m, 'l) cycling_memory \<Rightarrow> 'm counting \<Rightarrow> 'm counting list option" where
  "busy_cycle M w =
     (if am_busy M (wm_memory w) then wm_cycle M (w\<lparr>cm_counter := ic_inc (cm_counter w)\<rparr>) else wm_cycle M w)"

definition busy_counter :: "bool \<Rightarrow> bool \<Rightarrow> bool \<Rightarrow> ('m, 'l) cycling_memory \<Rightarrow> ('m counting, 'l \<times> interval_counter) cycling_memory" where
  "busy_counter L U J M = \<lparr>am_init = cnt_init L U J M, am_metrics = cnt_metrics M, am_reset = cnt_reset M,
     am_busy = (\<lambda>w. am_busy M (wm_memory w)), am_cycle = busy_cycle M, am_stall = (\<lambda>w. am_stall M (wm_memory w)),
     am_equals = cnt_equals M, am_joinable = cnt_joinable J M, am_join = cnt_join L U J M,
     am_announce = wm_announce M, am_ff = wm_fast_forward M\<rparr>"

section \<open>Blocking on a shared bus\<close>

record blocking_config =
  maxBlockingPerAccess :: "32 word"
  accessLatency :: "32 word"

record 'm blocking =
  bm_memory :: 'm
  bm_delayed :: "(abs_address \<times> access_type) option"
  bm_added :: interval_counter
  bm_ff :: interval_counter

text \<open>\<open>BlockingCounterCyclingMemory\<close> overrides the hook \<open>incrementAddedBlocking\<close> and adds a counter.\<close>

record 'm blocking_counter = "'m blocking" +
  bc_counter :: interval_counter

definition bm_increment :: "('m, 'z) blocking_scheme \<Rightarrow> ('m, 'z) blocking_scheme" where
  "bm_increment w = w\<lparr>bm_added := ic_inc (bm_added w)\<rparr>"

definition bc_increment :: "'m blocking_counter \<Rightarrow> 'm blocking_counter" where
  "bc_increment w = (bm_increment w)\<lparr>bc_counter := ic_inc (bc_counter w)\<rparr>"

definition bm_busy :: "('m, 'l) cycling_memory \<Rightarrow> ('m, 'z) blocking_scheme \<Rightarrow> bool" where
  "bm_busy M w \<longleftrightarrow> bm_delayed w \<noteq> None \<or> am_busy M (bm_memory w)"

text \<open>The hook is the argument \<open>inc\<close>.\<close>

definition bm_split ::
  "blocking_config \<Rightarrow> memory_options \<Rightarrow> (('m, 'z) blocking_scheme \<Rightarrow> ('m, 'z) blocking_scheme) \<Rightarrow>
    ('m, 'l) cycling_memory \<Rightarrow> ('m, 'z) blocking_scheme \<Rightarrow> ('m, 'z) blocking_scheme list option" where
  "bm_split B Op inc M w =
     (if am_busy M (bm_memory w) then None
      else if bm_delayed w \<noteq> None then
        Some ((if \<not> comp_bus_blocking Op \<and> ic_lb (bm_added w) < maxBlockingPerAccess B then [inc w] else []) @
              [w\<lparr>bm_delayed := None, bm_added := ic_assign (bm_added w) 0\<rparr>])
      else Some [w])"

definition bm_cycle ::
  "blocking_config \<Rightarrow> memory_options \<Rightarrow> (('m, 'z) blocking_scheme \<Rightarrow> ('m, 'z) blocking_scheme) \<Rightarrow>
    ('m, 'l) cycling_memory \<Rightarrow> ('m, 'z) blocking_scheme \<Rightarrow> ('m, 'z) blocking_scheme list option" where
  "bm_cycle B Op inc M w =
     (if \<not> ic_lb (bm_added w) \<le> (if bm_delayed w \<noteq> None then maxBlockingPerAccess B else 0) then None
      else case am_cycle M (bm_memory w) of
          None \<Rightarrow> None
        | Some ms \<Rightarrow>
            map_option concat (those (List.map (\<lambda>m.
              let r = w\<lparr>bm_memory := m\<rparr>
              in if \<not> am_busy M m then bm_split B Op inc M r else Some [r]) ms)))"

definition bm_stall :: "memory_options \<Rightarrow> ('m, 'l) cycling_memory \<Rightarrow> ('m, 'z) blocking_scheme \<Rightarrow> bool" where
  "bm_stall Op M w \<longleftrightarrow>
     (stall_bus_blocking Op \<and> bm_delayed w \<noteq> None \<and> \<not> am_busy M (bm_memory w)) \<or> am_stall M (bm_memory w)"

definition bm_equals :: "('m, 'l) cycling_memory \<Rightarrow> ('m, 'z) blocking_scheme \<Rightarrow> ('m, 'z) blocking_scheme \<Rightarrow> bool" where
  "bm_equals M w w' \<longleftrightarrow> ic_eq (bm_added w) (bm_added w') \<and> ic_eq (bm_ff w) (bm_ff w') \<and>
     bm_delayed w = bm_delayed w' \<and> am_equals M (bm_memory w) (bm_memory w')"

definition bm_joinable :: "('m, 'l) cycling_memory \<Rightarrow> ('m, 'z) blocking_scheme \<Rightarrow> ('m, 'z) blocking_scheme \<Rightarrow> bool" where
  "bm_joinable M w w' \<longleftrightarrow> ic_joinable False (bm_added w) (bm_added w') \<and> ic_joinable True (bm_ff w) (bm_ff w') \<and>
     bm_delayed w = bm_delayed w' \<and> am_joinable M (bm_memory w) (bm_memory w')"

definition bm_join :: "('m, 'l) cycling_memory \<Rightarrow> ('m, 'z) blocking_scheme \<Rightarrow> ('m, 'z) blocking_scheme \<Rightarrow> ('m, 'z) blocking_scheme option" where
  "bm_join M w w' =
     (if \<not> bm_joinable M w w' then None
      else case (ic_join True False False (bm_added w) (bm_added w'),
                 ic_join True True True (bm_ff w) (bm_ff w'),
                 am_join M (bm_memory w) (bm_memory w')) of
          (Some a, Some f, Some m) \<Rightarrow> Some (w\<lparr>bm_added := a, bm_ff := f, bm_memory := m\<rparr>)
        | _ \<Rightarrow> None)"

text \<open>The wrapped memory handles the access first, the blocking is added afterwards.\<close>

definition bm_announce ::
  "('m, 'l) cycling_memory \<Rightarrow> abs_address \<Rightarrow> access_type \<Rightarrow> 32 word \<Rightarrow> ('m, 'z) blocking_scheme \<Rightarrow> ('m, 'z) blocking_scheme list option" where
  "bm_announce M addr t numWords w =
     (if bm_busy M w then None
      else case am_announce M addr t numWords (bm_memory w) of
          None \<Rightarrow> None
        | Some ms \<Rightarrow>
            if \<not> list_all (am_busy M) ms then None
            else Some (List.map (\<lambda>m. w\<lparr>bm_memory := m, bm_delayed := Some (addr, t)\<rparr>) ms))"

definition bm_fast_forward ::
  "blocking_config \<Rightarrow> memory_options \<Rightarrow> ('m, 'l) cycling_memory \<Rightarrow> ('m, 'z) blocking_scheme \<Rightarrow> ('m, 'z) blocking_scheme list option" where
  "bm_fast_forward B Op M w =
     (if \<not> bm_busy M w \<or> bm_delayed w = None then None
      else if am_busy M (bm_memory w) then
        case am_ff M (bm_memory w) of
          None \<Rightarrow> None
        | Some ms \<Rightarrow>
            those (List.map (\<lambda>m.
              let copy = w\<lparr>bm_memory := m\<rparr>
              in if \<not> comp_bus_blocking Op then
                   if \<not> (ic_lb (bm_added copy) = 0 \<and> ic_ub (bm_added copy) = 0) then None
                   else Some (copy\<lparr>bm_added := ic_assign (bm_added copy) (maxBlockingPerAccess B),
                          bm_ff := ic_plus (bm_ff copy) (ff_interval 0 (maxBlockingPerAccess B))\<rparr>)
                 else Some copy) ms)
      else if comp_bus_blocking Op then None
      else Some [w\<lparr>bm_added := ic_assign (bm_added w) (maxBlockingPerAccess B),
                   bm_ff := ic_plus (bm_ff w) (ff_interval 0 (maxBlockingPerAccess B - ic_lb (bm_added w)))\<rparr>])"

definition bm_init :: "('m, 'l) cycling_memory \<Rightarrow> 'm blocking" where
  "bm_init M = \<lparr>bm_memory = am_init M, bm_delayed = None, bm_added = ic_make True False False 0, bm_ff = ff_zero\<rparr>"

definition bm_metrics :: "('m, 'l) cycling_memory \<Rightarrow> ('m, 'z) blocking_scheme \<Rightarrow> 'l \<times> interval_counter" where
  "bm_metrics M w = (am_metrics M (bm_memory w), bm_ff w)"

definition bm_reset :: "('m, 'l) cycling_memory \<Rightarrow> ('m, 'z) blocking_scheme \<Rightarrow> ('m, 'z) blocking_scheme" where
  "bm_reset M w = w\<lparr>bm_ff := ic_assign (bm_ff w) 0, bm_memory := am_reset M (bm_memory w)\<rparr>"

definition blocking_memory :: "blocking_config \<Rightarrow> memory_options \<Rightarrow> ('m, 'l) cycling_memory \<Rightarrow> ('m blocking, 'l \<times> interval_counter) cycling_memory" where
  "blocking_memory B Op M = \<lparr>am_init = bm_init M, am_metrics = bm_metrics M, am_reset = bm_reset M,
     am_busy = bm_busy M, am_cycle = bm_cycle B Op bm_increment M, am_stall = bm_stall Op M,
     am_equals = bm_equals M, am_joinable = bm_joinable M, am_join = bm_join M,
     am_announce = bm_announce M, am_ff = bm_fast_forward B Op M\<rparr>"

definition bc_init :: "('m, 'l) cycling_memory \<Rightarrow> 'm blocking_counter" where
  "bc_init M = \<lparr>bm_memory = am_init M, bm_delayed = None, bm_added = ic_make True False False 0,
     bm_ff = ff_zero, bc_counter = ic_make True False True 0\<rparr>"

definition bc_metrics :: "('m, 'l) cycling_memory \<Rightarrow> 'm blocking_counter \<Rightarrow> ('l \<times> interval_counter) \<times> interval_counter" where
  "bc_metrics M w = (bm_metrics M w, bc_counter w)"

definition bc_reset :: "('m, 'l) cycling_memory \<Rightarrow> 'm blocking_counter \<Rightarrow> 'm blocking_counter" where
  "bc_reset M w = (bm_reset M w)\<lparr>bc_counter := ic_assign (bc_counter w) 0\<rparr>"

definition bc_equals :: "('m, 'l) cycling_memory \<Rightarrow> 'm blocking_counter \<Rightarrow> 'm blocking_counter \<Rightarrow> bool" where
  "bc_equals M w w' \<longleftrightarrow> bm_equals M w w' \<and> ic_eq (bc_counter w) (bc_counter w')"

definition bc_joinable :: "('m, 'l) cycling_memory \<Rightarrow> 'm blocking_counter \<Rightarrow> 'm blocking_counter \<Rightarrow> bool" where
  "bc_joinable M w w' \<longleftrightarrow> bm_joinable M w w' \<and> ic_joinable True (bc_counter w) (bc_counter w')"

definition bc_join :: "('m, 'l) cycling_memory \<Rightarrow> 'm blocking_counter \<Rightarrow> 'm blocking_counter \<Rightarrow> 'm blocking_counter option" where
  "bc_join M w w' =
     (if \<not> bc_joinable M w w' then None
      else case bm_join M w w' of
          None \<Rightarrow> None
        | Some v \<Rightarrow> map_option (\<lambda>c. v\<lparr>bc_counter := c\<rparr>) (ic_join True False True (bc_counter v) (bc_counter w')))"

definition blocking_counter_memory ::
  "blocking_config \<Rightarrow> memory_options \<Rightarrow> ('m, 'l) cycling_memory \<Rightarrow> ('m blocking_counter, ('l \<times> interval_counter) \<times> interval_counter) cycling_memory" where
  "blocking_counter_memory B Op M = \<lparr>am_init = bc_init M, am_metrics = bc_metrics M, am_reset = bc_reset M,
     am_busy = bm_busy M, am_cycle = bm_cycle B Op bc_increment M, am_stall = bm_stall Op M,
     am_equals = bc_equals M, am_joinable = bc_joinable M, am_join = bc_join M,
     am_announce = bm_announce M, am_ff = bm_fast_forward B Op M\<rparr>"

end
