(* ===== verification/TA_Cycling_Memory_Sound.thy ===== *)
theory TA_Cycling_Memory_Sound
  imports TA_Cycling_Memory
begin

text \<open>
  What a cycling memory promises to the pipeline: the set of times an access may still take, which
  every cycle decreases by one over all the cases it splits into.  The contract is a locale; the
  fixed-latency memory and the SDRAM provide it, and the wrappers preserve it.
\<close>

section \<open>Service of an access\<close>

text \<open>\<open>serves M n m m'\<close>: \<open>n\<close> cycles lead from \<open>m\<close> to the idle \<open>m'\<close>, along one of the cases.\<close>

inductive serves :: "('m, 'l) cycling_memory \<Rightarrow> nat \<Rightarrow> 'm \<Rightarrow> 'm \<Rightarrow> bool" for M where
  finished: "\<not> am_busy M m \<Longrightarrow> serves M 0 m m"
| step: "am_busy M m \<Longrightarrow> am_cycle M m = Some ms \<Longrightarrow> m' \<in> set ms \<Longrightarrow> serves M n m' m'' \<Longrightarrow> serves M (Suc n) m m''"

inductive_cases serves_zeroE: "serves M 0 m m'"
inductive_cases serves_sucE: "serves M (Suc n) m m'"

lemma serves_0 [simp]: "serves M 0 m m' \<longleftrightarrow> \<not> am_busy M m \<and> m' = m"
  by (auto elim: serves_zeroE intro: serves.finished)

text \<open>All states after a number of cycles.\<close>

fun am_run :: "('m, 'l) cycling_memory \<Rightarrow> nat \<Rightarrow> 'm list \<Rightarrow> 'm list option" where
  "am_run M 0 ms = Some ms"
| "am_run M (Suc n) ms = (case those (List.map (am_cycle M) ms) of None \<Rightarrow> None | Some mss \<Rightarrow> am_run M n (concat mss))"

lemma those_map_Some:
  "(\<And>x. x \<in> set xs \<Longrightarrow> f x = Some (g x)) \<Longrightarrow> those (List.map f xs) = Some (List.map g xs)"
  by (induction xs) auto

lemma those_map_defined:
  assumes "\<And>x. x \<in> set xs \<Longrightarrow> f x \<noteq> None"
  shows "those (List.map f xs) = Some (List.map (\<lambda>x. the (f x)) xs)"
  by (rule those_map_Some) (use assms in auto)

locale cycling_memory_contract =
  fixes M :: "('m, 'l) cycling_memory"
    and ok :: "'m \<Rightarrow> bool"  \<comment> \<open>well-formed states\<close>
    and rem :: "'m \<Rightarrow> nat set"  \<comment> \<open>times the current access may still take\<close>
    and skipped :: "'m \<Rightarrow> nat set"  \<comment> \<open>numbers of cycles the fast-forwarding counters admit\<close>
    and lat :: "32 word \<Rightarrow> nat set"  \<comment> \<open>service times of an access to a number of words\<close>
    and valid :: "32 word \<Rightarrow> bool"  \<comment> \<open>accesses the memory accepts\<close>
    and can_ff :: "'m \<Rightarrow> bool"  \<comment> \<open>states in which fast-forwarding is allowed\<close>
  assumes init: "ok (am_init M)" "\<not> am_busy M (am_init M)" "0 \<in> skipped (am_init M)"
    and reset: "ok m \<Longrightarrow> ok (am_reset M m) \<and> rem (am_reset M m) = rem m \<and>
      am_busy M (am_reset M m) = am_busy M m \<and> 0 \<in> skipped (am_reset M m)"
    and rem_finite: "ok m \<Longrightarrow> finite (rem m) \<and> rem m \<noteq> {}"
    and idle: "ok m \<Longrightarrow> \<not> am_busy M m \<Longrightarrow> rem m = {0}"
    and busy: "ok m \<Longrightarrow> am_busy M m \<Longrightarrow> 0 \<notin> rem m"
    and cycle: "ok m \<Longrightarrow> \<exists>ms. am_cycle M m = Some ms \<and>
      (\<forall>m'\<in>set ms. ok m' \<and> skipped m \<subseteq> skipped m') \<and> (\<Union>m'\<in>set ms. rem m') = (\<lambda>t. t - 1) ` rem m"
    and announce: "ok m \<Longrightarrow> \<not> am_busy M m \<Longrightarrow> valid n \<Longrightarrow> \<exists>ms. am_announce M addr t n m = Some ms \<and>
      (\<forall>m'\<in>set ms. ok m' \<and> am_busy M m' \<and> skipped m \<subseteq> skipped m') \<and> (\<Union>m'\<in>set ms. rem m') = lat n"
    and join: "ok m \<Longrightarrow> ok m' \<Longrightarrow> am_joinable M m m' \<Longrightarrow> \<exists>j. am_join M m m' = Some j \<and>
      ok j \<and> rem j = rem m \<and> rem j = rem m' \<and> skipped m \<union> skipped m' \<subseteq> skipped j"
    and fast_forward: "ok m \<Longrightarrow> am_busy M m \<Longrightarrow> can_ff m \<Longrightarrow> \<exists>ms. am_ff M m = Some ms \<and>
      (\<forall>m'\<in>set ms. ok m' \<and> am_busy M m') \<and>
      (\<forall>r\<in>rem m. \<forall>k\<in>skipped m. \<exists>m'\<in>set ms. \<exists>r'\<in>rem m'. r' \<le> r \<and> k + (r - r') \<in> skipped m')"
begin

lemma busy_iff: "ok m \<Longrightarrow> am_busy M m \<longleftrightarrow> 0 \<notin> rem m"
  using idle busy by auto

lemma cycleE:
  assumes "ok m"
  obtains ms where "am_cycle M m = Some ms" "\<And>m'. m' \<in> set ms \<Longrightarrow> ok m'"
    "\<And>m' k. m' \<in> set ms \<Longrightarrow> k \<in> skipped m \<Longrightarrow> k \<in> skipped m'" "(\<Union>m'\<in>set ms. rem m') = (\<lambda>t. t - 1) ` rem m"
  using cycle [OF assms] by blast

lemma announceE:
  assumes "ok m" "\<not> am_busy M m" "valid n"
  obtains ms where "am_announce M addr t n m = Some ms" "\<And>m'. m' \<in> set ms \<Longrightarrow> ok m'"
    "\<And>m'. m' \<in> set ms \<Longrightarrow> am_busy M m'" "(\<Union>m'\<in>set ms. rem m') = lat n"
proof -
  from announce [OF assms, of addr t] obtain ms where ms: "am_announce M addr t n m = Some ms"
    "\<forall>m'\<in>set ms. ok m' \<and> am_busy M m' \<and> skipped m \<subseteq> skipped m'" "(\<Union>m'\<in>set ms. rem m') = lat n"
    by (elim exE conjE)
  show ?thesis by (rule that [OF ms(1)]) (use ms in auto)
qed

text \<open>The service times are exactly the remaining times.\<close>

lemma serves_rem: "serves M n m m' \<Longrightarrow> ok m \<Longrightarrow> n \<in> rem m \<and> ok m' \<and> \<not> am_busy M m' \<and> skipped m \<subseteq> skipped m'"
proof (induction rule: serves.induct)
  case (finished m)
  then show ?case using idle by simp
next
  case (step m ms m' n m'')
  obtain ms' where ms': "am_cycle M m = Some ms'" "\<And>x. x \<in> set ms' \<Longrightarrow> ok x"
    "\<And>x k. x \<in> set ms' \<Longrightarrow> k \<in> skipped m \<Longrightarrow> k \<in> skipped x" "(\<Union>x\<in>set ms'. rem x) = (\<lambda>t. t - 1) ` rem m"
    by (rule cycleE [OF step.prems], rule that) auto
  then have m': "ok m'" "m' \<in> set ms'" using step.hyps by auto
  then have n: "n \<in> rem m'" and rest: "ok m''" "\<not> am_busy M m''" "skipped m' \<subseteq> skipped m''"
    using step.IH by auto
  then have "n \<in> (\<lambda>t. t - 1) ` rem m" using ms'(4) m' by blast
  then obtain t where "t \<in> rem m" "n = t - 1" by blast
  moreover have "t \<noteq> 0" using busy step.prems step.hyps(1) \<open>t \<in> rem m\<close> by metis
  ultimately show ?case using rest ms'(3) m' by auto
qed

lemma rem_serves: "ok m \<Longrightarrow> n \<in> rem m \<Longrightarrow> \<exists>m'. serves M n m m'"
proof (induction n arbitrary: m)
  case 0
  then show ?case using busy by auto
next
  case (Suc n)
  obtain ms where ms: "am_cycle M m = Some ms" "\<And>x. x \<in> set ms \<Longrightarrow> ok x"
    "\<And>x k. x \<in> set ms \<Longrightarrow> k \<in> skipped m \<Longrightarrow> k \<in> skipped x" "(\<Union>x\<in>set ms. rem x) = (\<lambda>t. t - 1) ` rem m"
    by (rule cycleE [OF Suc.prems(1)], rule that) auto
  have "am_busy M m" using idle [OF Suc.prems(1)] Suc.prems(2) by auto
  have "n \<in> (\<Union>x\<in>set ms. rem x)" using ms(4) Suc.prems(2) by force
  then obtain x where "x \<in> set ms" "n \<in> rem x" by blast
  then obtain m' where "serves M n x m'" using Suc.IH ms(2) by blast
  then show ?case using serves.step [OF \<open>am_busy M m\<close> ms(1) \<open>x \<in> set ms\<close>] by blast
qed

lemma service_times: "ok m \<Longrightarrow> {n. \<exists>m'. serves M n m m'} = rem m"
  using serves_rem rem_serves by blast

text \<open>An access announced to an idle memory takes a time of \<open>lat\<close>, and every such time is possible.\<close>

lemma access_times:
  assumes "ok m" "\<not> am_busy M m" "valid n"
  shows "\<exists>ms. am_announce M addr t n m = Some ms \<and> (\<forall>m'\<in>set ms. ok m') \<and>
    {k. \<exists>m'\<in>set ms. \<exists>m''. serves M k m' m''} = lat n"
proof -
  obtain ms where ms: "am_announce M addr t n m = Some ms" "\<And>m'. m' \<in> set ms \<Longrightarrow> ok m'"
    "\<And>m'. m' \<in> set ms \<Longrightarrow> am_busy M m'" "(\<Union>m'\<in>set ms. rem m') = lat n"
    by (rule announceE [OF assms], rule that) auto
  have "{k. \<exists>m'\<in>set ms. \<exists>m''. serves M k m' m''} = (\<Union>m'\<in>set ms. {k. \<exists>m''. serves M k m' m''})" by blast
  also have "\<dots> = (\<Union>m'\<in>set ms. rem m')" using service_times ms(2) by simp
  finally show ?thesis using ms by simp
qed

text \<open>No state stays busy longer than its longest remaining time.\<close>

lemma run_ends:
  assumes "\<forall>m\<in>set ms. ok m \<and> (\<forall>r\<in>rem m. r \<le> n)"
  shows "\<exists>ms'. am_run M n ms = Some ms' \<and> (\<forall>m\<in>set ms'. ok m \<and> \<not> am_busy M m)"
  using assms
proof (induction n arbitrary: ms)
  case 0
  have "\<not> am_busy M m" if "m \<in> set ms" for m
  proof -
    have m: "ok m" "\<forall>r\<in>rem m. r = 0" using 0 that by auto
    then obtain r where "r \<in> rem m" using rem_finite by blast
    then have "0 \<in> rem m" using m(2) by metis
    then show ?thesis using busy [OF m(1)] by blast
  qed
  then show ?case using 0 by simp
next
  case (Suc n)
  let ?f = "\<lambda>m. the (am_cycle M m)"
  have cyc: "am_cycle M m = Some (?f m)" "\<And>x. x \<in> set (?f m) \<Longrightarrow> ok x \<and> (\<forall>r\<in>rem x. r \<le> n)" if "m \<in> set ms" for m
  proof -
    have m: "ok m" "\<And>r. r \<in> rem m \<Longrightarrow> r \<le> Suc n" using Suc.prems that by auto
    obtain l where l: "am_cycle M m = Some l" "\<And>x. x \<in> set l \<Longrightarrow> ok x"
    "\<And>x k. x \<in> set l \<Longrightarrow> k \<in> skipped m \<Longrightarrow> k \<in> skipped x" "(\<Union>x\<in>set l. rem x) = (\<lambda>t. t - 1) ` rem m"
      by (rule cycleE [OF m(1)], rule that) auto
    show "am_cycle M m = Some (?f m)" using l by simp
    fix x assume x: "x \<in> set (?f m)"
    have "r \<le> n" if r: "r \<in> rem x" for r
    proof -
      have "r \<in> (\<lambda>t. t - 1) ` rem m" using l(1,4) r x by auto
      then show ?thesis using m(2) by fastforce
    qed
    then show "ok x \<and> (\<forall>r\<in>rem x. r \<le> n)" using l x by simp
  qed
  have "those (List.map (am_cycle M) ms) = Some (List.map ?f ms)" by (rule those_map_Some) (rule cyc(1))
  moreover have "\<forall>x\<in>set (concat (List.map ?f ms)). ok x \<and> (\<forall>r\<in>rem x. r \<le> n)" using cyc(2) by auto
  ultimately show ?case using Suc.IH [of "concat (List.map ?f ms)"] by simp
qed

lemma access_ends:
  assumes "ok m" "\<not> am_busy M m" "valid n" "\<forall>k\<in>lat n. k \<le> b"
  shows "\<exists>ms ms'. am_announce M addr t n m = Some ms \<and> am_run M b ms = Some ms' \<and>
    (\<forall>x\<in>set ms'. \<not> am_busy M x)"
proof -
  obtain ms where ms: "am_announce M addr t n m = Some ms" "\<And>m'. m' \<in> set ms \<Longrightarrow> ok m'"
    "\<And>m'. m' \<in> set ms \<Longrightarrow> am_busy M m'" "(\<Union>m'\<in>set ms. rem m') = lat n"
    by (rule announceE [OF assms(1-3)], rule that) auto
  have "\<forall>x\<in>set ms. ok x \<and> (\<forall>r\<in>rem x. r \<le> b)" using ms(2,4) assms(4) by blast
  from run_ends [OF this] ms(1) show ?thesis by blast
qed

text \<open>
  Fast-forwarding loses no execution: for every time the access can really take there is a case whose
  cycles, together with a number its counters admit, give that time.
\<close>

lemma fast_forward_covers:
  assumes "ok m" "am_busy M m" "can_ff m" "serves M r m m\<^sub>1" "k \<in> skipped m"
  shows "\<exists>ms m' r' m\<^sub>2 d. am_ff M m = Some ms \<and> m' \<in> set ms \<and> serves M r' m' m\<^sub>2 \<and> r = r' + d \<and> k + d \<in> skipped m\<^sub>2"
proof -
  have "r \<in> rem m" using serves_rem assms by blast
  then obtain ms m' r' where ms: "am_ff M m = Some ms" "m' \<in> set ms" "ok m'" "r' \<in> rem m'" "r' \<le> r"
    "k + (r - r') \<in> skipped m'"
    using fast_forward [OF assms(1-3)] assms(5) by meson
  then obtain m2 where "serves M r' m' m2" using rem_serves by blast
  moreover from this have "k + (r - r') \<in> skipped m2" using serves_rem ms by blast
  ultimately show ?thesis using ms by (metis le_add_diff_inverse)
qed

end

section \<open>Fast-forwarding counters\<close>

abbreviation ff_ok :: "interval_counter \<Rightarrow> bool" where
  "ff_ok c \<equiv> ic_shape True True True c"

abbreviation ff_set :: "interval_counter \<Rightarrow> nat set" where
  "ff_set c \<equiv> ic_gamma True True c"

lemma ff_zero_facts [simp]: "ff_ok ff_zero" "0 \<in> ff_set ff_zero"
  by (auto simp: ff_zero_def ic_make_gamma)

lemma ff_interval_shape [simp]: "ff_ok (ff_interval l u)"
  by (simp add: ff_interval_def ic_shape_def)

lemma ff_assign_zero [simp]: "ff_ok c \<Longrightarrow> ff_ok (ic_assign c 0) \<and> 0 \<in> ff_set (ic_assign c 0)"
  by (cases c) (auto simp: ic_shape_def ic_gamma_def)

lemma ff_plus_shape [simp]: "ff_ok c \<Longrightarrow> ff_ok d \<Longrightarrow> ff_ok (ic_plus c d)"
  by (cases c; cases d) (auto simp: ic_shape_def)

lemma ff_interval_gamma: "d \<in> ff_set (ff_interval l u) \<longleftrightarrow> unat l \<le> d \<and> d \<le> unat u"
  by (simp add: ff_interval_def ic_gamma_def)

lemma ff_set_nonempty_le: "k \<in> ff_set c \<Longrightarrow> unat (ic_lb c) \<le> unat (ic_ub c)"
  by (auto simp: ic_gamma_def)

lemma ff_plus_interval:
  assumes "ff_ok c" "k \<in> ff_set c" "unat l \<le> d" "d \<le> unat u" "unat (ic_ub c) + unat u < 2 ^ 32"
  shows "k + d \<in> ff_set (ic_plus c (ff_interval l u))"
proof (rule ic_plus_gamma [where J = True])
  have "unat (ic_lb c) \<le> unat (ic_ub c)" using ff_set_nonempty_le assms(2) .
  then show "ic_fits True True c (unat (ic_ub (ff_interval l u)))" "ic_fits True True c (unat (ic_lb (ff_interval l u)))"
    using assms(3-5) by (auto simp: ic_fits_def ff_interval_def)
qed (use assms in \<open>auto simp: ff_interval_gamma\<close>)

lemma ff_add:
  assumes "ff_ok c" "k \<in> ff_set c" "unat (ic_ub c) + unat v < 2 ^ 32"
  shows "k + unat v \<in> ff_set (ic_add c v)"
proof (rule ic_add_gamma [where J = True])
  have "unat (ic_lb c) \<le> unat (ic_ub c)" using ff_set_nonempty_le assms(2) .
  then show "ic_fits True True c (unat v)" using assms(3) by (auto simp: ic_fits_def)
qed (use assms in auto)

lemma ff_joinable [simp]: "ic_joinable True c d"
  by (cases c; cases d) auto

lemma ff_join:
  assumes "ff_ok c" "ff_ok d"
  shows "\<exists>e. ic_join True True True c d = Some e \<and> ff_ok e \<and> ff_set c \<union> ff_set d \<subseteq> ff_set e"
  using ic_join_gamma [OF assms] by simp

end
