(* ===== verification/TA_Cycling_Memory_Instances.thy ===== *)
theory TA_Cycling_Memory_Instances
  imports TA_Cycling_Memory_Sound
begin

text \<open>
  The contract of \<open>TA_Cycling_Memory_Sound\<close> for the memories of the code: the fixed-latency memory, the
  SDRAM, the two counting wrappers and the blocking wrappers.
\<close>

section \<open>Fixed latency\<close>

definition fl_ok :: "fixed_latency \<Rightarrow> bool" where
  "fl_ok m \<longleftrightarrow> 0 \<le> fl_time m \<and> fl_time m < 2 ^ 31 \<and> ff_ok (fl_ff m)"

definition fl_rem :: "fixed_latency \<Rightarrow> nat set" where
  "fl_rem m = {nat (fl_time m)}"

definition fl_cycles :: "fixed_latency_config \<Rightarrow> 32 word \<Rightarrow> 32 word" where
  "fl_cycles C n = flc_latency C + n * flc_per_word C"

text \<open>An access takes at least one cycle and its latency fits the signed int.\<close>

definition fl_valid :: "fixed_latency_config \<Rightarrow> 32 word \<Rightarrow> bool" where
  "fl_valid C n \<longleftrightarrow> 0 < unat (fl_cycles C n) \<and> unat (fl_cycles C n) < 2 ^ 31"

definition fl_can_ff :: "fixed_latency \<Rightarrow> bool" where
  "fl_can_ff m \<longleftrightarrow> unat (ic_ub (fl_ff m)) + nat (fl_time m - 1) < 2 ^ 32"

lemma int_less_31: "k < 2 ^ 31 \<Longrightarrow> int k < 2 ^ 31"
  by simp

lemma sint_small: "unat (x :: 32 word) < 2 ^ 31 \<Longrightarrow> sint x = int (unat x)"
proof -
  assume "unat x < 2 ^ 31"
  then have "int (unat x) < 2 ^ 31" by (rule int_less_31)
  then have "uint x < 2 ^ 31" by simp
  moreover have "0 \<le> uint x" by simp
  ultimately have "signed_take_bit 31 (uint x) = uint x"
    by (intro signed_take_bit_int_eq_self) linarith+
  then have "sint x = uint x" by (simp add: sint_uint)
  then show ?thesis by simp
qed

lemma unat_of_pos_sint:
  assumes "0 < sint (x :: 32 word)"
  shows "0 < unat x \<and> unat x < 2 ^ 31"
proof -
  have lt: "sint x < 2 ^ 31" using sint_lt [of x] by simp
  have "take_bit 32 (sint x) = sint x" using assms lt by (intro take_bit_int_eq_self) auto
  moreover have "uint x = take_bit 32 (sint x)" using uint_sint [of x] by simp
  ultimately have "uint x = sint x" by simp
  then have "unat x = nat (sint x)" by (simp add: unat_eq_nat_uint)
  moreover have "0 < nat (sint x)" "nat (sint x) < nat (2 ^ 31)" using assms lt by auto
  ultimately show ?thesis by simp
qed

lemma fl_valid_sint:
  assumes "fl_valid C n"
  shows "0 < sint (fl_cycles C n)" "sint (fl_cycles C n) < 2 ^ 31" "nat (sint (fl_cycles C n)) = unat (fl_cycles C n)"
proof -
  have k: "0 < unat (fl_cycles C n)" "unat (fl_cycles C n) < 2 ^ 31" using assms by (auto simp: fl_valid_def)
  show "0 < sint (fl_cycles C n)" "sint (fl_cycles C n) < 2 ^ 31" "nat (sint (fl_cycles C n)) = unat (fl_cycles C n)"
    unfolding sint_small [OF k(2)] using k by (simp_all only: of_nat_0_less_iff nat_int int_less_31)
qed

lemmas fl_defs = fl_memory_def fl_init_def fl_metrics_def fl_reset_def fl_busy_def fl_cycle_def
  fl_joinable_def fl_join_def fl_announce_def fl_fast_forward_def fl_ok_def fl_rem_def

lemma fl_join_law:
  assumes "fl_ok m" "fl_ok m'" "fl_joinable m m'"
  shows "\<exists>j. fl_join m m' = Some j \<and> fl_ok j \<and> fl_rem j = fl_rem m \<and> fl_rem j = fl_rem m' \<and>
    ff_set (fl_ff m) \<union> ff_set (fl_ff m') \<subseteq> ff_set (fl_ff j)"
proof -
  obtain e where "ic_join True True True (fl_ff m) (fl_ff m') = Some e" "ff_ok e"
    "ff_set (fl_ff m) \<union> ff_set (fl_ff m') \<subseteq> ff_set e"
    using ff_join [of "fl_ff m" "fl_ff m'"] assms(1,2) by (auto simp: fl_ok_def)
  then show ?thesis using assms by (auto simp: fl_join_def fl_ok_def fl_rem_def fl_joinable_def)
qed

lemma fl_ff_law:
  assumes "fl_ok m" "fl_busy m" "fl_can_ff m"
  shows "\<exists>ms. fl_fast_forward m = Some ms \<and> (\<forall>m'\<in>set ms. fl_ok m' \<and> fl_busy m') \<and>
    (\<forall>r\<in>fl_rem m. \<forall>k\<in>ff_set (fl_ff m). \<exists>m'\<in>set ms. \<exists>r'\<in>fl_rem m'. r' \<le> r \<and> k + (r - r') \<in> ff_set (fl_ff m'))"
proof -
  let ?v = "word_of_int (fl_time m - 1) :: 32 word"
  have "take_bit 32 (fl_time m - 1) = fl_time m - 1"
    using assms(1,2) by (intro take_bit_int_eq_self) (auto simp: fl_ok_def fl_busy_def)
  then have "uint ?v = fl_time m - 1" unfolding uint_word_of_int_eq by simp
  then have v: "unat ?v = nat (fl_time m - 1)" by (simp add: unat_eq_nat_uint)
  have k: "k + (nat (fl_time m) - 1) \<in> ff_set (ic_add (fl_ff m) ?v)" if "k \<in> ff_set (fl_ff m)" for k
  proof -
    have e: "nat (fl_time m) - 1 = unat ?v" unfolding v using assms(2) by (simp add: fl_busy_def)
    show ?thesis unfolding e
      by (rule ff_add) (use assms that in \<open>simp_all only: v fl_ok_def fl_can_ff_def\<close>)
  qed
  have pos: "0 < fl_time m" "Suc 0 \<le> nat (fl_time m)" using assms(2) by (auto simp: fl_busy_def)
  show ?thesis using assms(1) pos k by (simp add: fl_fast_forward_def fl_busy_def fl_ok_def fl_rem_def)
qed

interpretation fl: cycling_memory_contract "fl_memory C" fl_ok fl_rem "\<lambda>m. ff_set (fl_ff m)"
  "\<lambda>n. {unat (fl_cycles C n)}" "fl_valid C" fl_can_ff for C
proof
  show "fl_ok (am_init (fl_memory C))" "\<not> am_busy (fl_memory C) (am_init (fl_memory C))"
    "0 \<in> ff_set (fl_ff (am_init (fl_memory C)))"
    by (simp_all add: fl_defs)
next
  fix m assume "fl_ok m"
  then show "fl_ok (am_reset (fl_memory C) m) \<and> fl_rem (am_reset (fl_memory C) m) = fl_rem m \<and>
      am_busy (fl_memory C) (am_reset (fl_memory C) m) = am_busy (fl_memory C) m \<and>
      0 \<in> ff_set (fl_ff (am_reset (fl_memory C) m))"
    by (simp add: fl_defs)
  show "finite (fl_rem m) \<and> fl_rem m \<noteq> {}" by (simp add: fl_rem_def)
  show "\<exists>ms. am_cycle (fl_memory C) m = Some ms \<and>
      (\<forall>m'\<in>set ms. fl_ok m' \<and> ff_set (fl_ff m) \<subseteq> ff_set (fl_ff m')) \<and> (\<Union>m'\<in>set ms. fl_rem m') = (\<lambda>t. t - 1) ` fl_rem m"
    using \<open>fl_ok m\<close> by (auto simp: fl_defs nat_diff_distrib)
next
  fix m assume "fl_ok m" "\<not> am_busy (fl_memory C) m"
  then show "fl_rem m = {0}" by (simp add: fl_defs)
next
  fix m assume "fl_ok m" "am_busy (fl_memory C) m"
  then show "0 \<notin> fl_rem m" by (simp add: fl_defs)
next
  fix m n addr t assume "fl_ok m" "\<not> am_busy (fl_memory C) m" "fl_valid C n"
  then show "\<exists>ms. am_announce (fl_memory C) addr t n m = Some ms \<and>
      (\<forall>m'\<in>set ms. fl_ok m' \<and> am_busy (fl_memory C) m' \<and> ff_set (fl_ff m) \<subseteq> ff_set (fl_ff m')) \<and>
      (\<Union>m'\<in>set ms. fl_rem m') = {unat (fl_cycles C n)}"
    using fl_valid_sint [of C n] by (simp add: fl_defs flip: fl_cycles_def)
next
  fix m m' assume "fl_ok m" "fl_ok m'" "am_joinable (fl_memory C) m m'"
  then show "\<exists>j. am_join (fl_memory C) m m' = Some j \<and> fl_ok j \<and> fl_rem j = fl_rem m \<and> fl_rem j = fl_rem m' \<and>
      ff_set (fl_ff m) \<union> ff_set (fl_ff m') \<subseteq> ff_set (fl_ff j)"
    using fl_join_law by (simp add: fl_memory_def)
next
  fix m assume "fl_ok m" "am_busy (fl_memory C) m" "fl_can_ff m"
  then show "\<exists>ms. am_ff (fl_memory C) m = Some ms \<and> (\<forall>m'\<in>set ms. fl_ok m' \<and> am_busy (fl_memory C) m') \<and>
      (\<forall>r\<in>fl_rem m. \<forall>k\<in>ff_set (fl_ff m). \<exists>m'\<in>set ms. \<exists>r'\<in>fl_rem m'. r' \<le> r \<and> k + (r - r') \<in> ff_set (fl_ff m'))"
    using fl_ff_law by (simp add: fl_memory_def)
qed

section \<open>SDRAM\<close>

text \<open>A refresh that takes no time would never end: \<open>cycle\<close> leaves the phase only after counting down.\<close>

definition sd_ok :: "memory_options \<Rightarrow> sdram \<Rightarrow> bool" where
  "sd_ok Op m \<longleftrightarrow> ff_ok (sd_ff m) \<and>
     (case sd_phase m of
        IDLE \<Rightarrow> sd_time m = 0 \<and> \<not> sd_seen_refresh m
      | ACCESS \<Rightarrow> sd_time m \<noteq> 0 \<and> (comp_dram_refresh Op \<or> sd_seen_refresh m \<or> DRAMRefreshLatency Op \<noteq> 0)
      | REFRESH \<Rightarrow> sd_time m \<noteq> 0 \<and> \<not> sd_seen_refresh m)"

definition sd_rem :: "memory_options \<Rightarrow> sdram \<Rightarrow> nat set" where
  "sd_rem Op m =
     (case sd_phase m of
        IDLE \<Rightarrow> {0}
      | ACCESS \<Rightarrow> {unat (sd_time m) .. unat (sd_time m) +
                   (if comp_dram_refresh Op \<or> sd_seen_refresh m then 0 else unat (DRAMRefreshLatency Op))}
      | REFRESH \<Rightarrow> {if comp_dram_refresh Op then unat (sd_time m) else 1 .. unat (sd_time m)})"

definition sd_cycles :: "memory_options \<Rightarrow> 32 word \<Rightarrow> nat" where
  "sd_cycles Op n = unat (Latency Op + PerWordLatency Op * n)"

definition sd_lat :: "memory_options \<Rightarrow> 32 word \<Rightarrow> nat set" where
  "sd_lat Op n = {sd_cycles Op n .. sd_cycles Op n + (if comp_dram_refresh Op then 0 else unat (DRAMRefreshLatency Op))}"

definition sd_valid :: "memory_options \<Rightarrow> 32 word \<Rightarrow> bool" where
  "sd_valid Op n \<longleftrightarrow> n \<le> maxBurstLength \<and> 0 < sd_cycles Op n \<and>
     (comp_dram_refresh Op \<or> DRAMRefreshLatency Op \<noteq> 0)"

definition sd_can_ff :: "memory_options \<Rightarrow> sdram \<Rightarrow> bool" where
  "sd_can_ff Op m \<longleftrightarrow>
     (case sd_phase m of
        IDLE \<Rightarrow> False
      | ACCESS \<Rightarrow> sd_just_refreshed m = None \<and>
          unat (ic_ub (sd_ff m)) + (unat (sd_time m) + unat (DRAMRefreshLatency Op)) < 2 ^ 32
      | REFRESH \<Rightarrow> unat (ic_ub (sd_ff m)) + unat (sd_time m) < 2 ^ 32)"

lemma unat_dec: "x \<noteq> (0 :: 32 word) \<Longrightarrow> unat (x - 1) = unat x - 1"
  by (simp add: unat_minus_one)

lemma unat_pos: "x \<noteq> (0 :: 32 word) \<Longrightarrow> Suc 0 \<le> unat x"
  by (simp add: Suc_le_eq unat_gt_0)

lemma dec_image_atLeastAtMost: "0 < a \<Longrightarrow> a \<le> b \<Longrightarrow> (\<lambda>t::nat. t - Suc 0) ` {a..b} = {a - Suc 0..b - Suc 0}"
proof -
  assume "0 < a" "a \<le> b"
  have "x \<in> (\<lambda>t. t - Suc 0) ` {a..b}" if "a - Suc 0 \<le> x" "x \<le> b - Suc 0" for x
    using that \<open>0 < a\<close> \<open>a \<le> b\<close> by (intro image_eqI [of _ _ "Suc x"]) auto
  then show ?thesis using \<open>0 < a\<close> by auto
qed

lemma sd_cycle_access:
  assumes "sd_ok Op m" "sd_phase m = ACCESS"
  shows "\<exists>ms. sd_cycle Op m = Some ms \<and> (\<forall>m'\<in>set ms. sd_ok Op m' \<and> sd_ff m' = sd_ff m) \<and>
    (\<Union>m'\<in>set ms. sd_rem Op m') = (\<lambda>t. t - 1) ` sd_rem Op m"
proof -
  have t: "sd_time m \<noteq> 0" using assms by (simp add: sd_ok_def)
  then have pos: "0 < sd_time m" "0 < unat (sd_time m)" by (auto simp: word_gt_0 unat_gt_0)
  let ?b = "if comp_dram_refresh Op \<or> sd_seen_refresh m then 0 else unat (DRAMRefreshLatency Op)"
  have image: "(\<lambda>t. t - 1) ` sd_rem Op m = {unat (sd_time m) - 1 .. unat (sd_time m) + ?b - 1}"
    using assms(2) pos(2) by (auto simp: sd_rem_def dec_image_atLeastAtMost)
  show ?thesis
  proof (cases "sd_time m = 1")
    case False
    then have "sd_time m - 1 \<noteq> 0" by auto
    then show ?thesis
      unfolding image using assms pos t by (auto simp: sd_cycle_def sd_ok_def sd_rem_def unat_dec Let_def)
  next
    case True
    have "{Suc 0..unat (DRAMRefreshLatency Op)} \<union> {0} = {0..unat (DRAMRefreshLatency Op)}" by auto
    then show ?thesis
      unfolding image using assms True by (auto simp: sd_cycle_def sd_ok_def sd_rem_def Let_def)
  qed
qed

lemma sd_cycle_refresh:
  assumes "sd_ok Op m" "sd_phase m = REFRESH"
  shows "\<exists>ms. sd_cycle Op m = Some ms \<and> (\<forall>m'\<in>set ms. sd_ok Op m' \<and> sd_ff m' = sd_ff m) \<and>
    (\<Union>m'\<in>set ms. sd_rem Op m') = (\<lambda>t. t - 1) ` sd_rem Op m"
proof -
  have t: "sd_time m \<noteq> 0" using assms by (simp add: sd_ok_def)
  then have pos: "0 < sd_time m" "0 < unat (sd_time m)" by (auto simp: word_gt_0 unat_gt_0)
  let ?a = "if comp_dram_refresh Op then unat (sd_time m) else 1"
  have image: "(\<lambda>t. t - 1) ` sd_rem Op m = {?a - 1 .. unat (sd_time m) - 1}"
    using assms(2) pos(2) by (auto simp: sd_rem_def dec_image_atLeastAtMost)
  show ?thesis
  proof (cases "sd_time m = 1")
    case False
    then have "sd_time m - 1 \<noteq> 0" by auto
    moreover have "insert 0 {Suc 0..unat (sd_time m) - Suc 0} = {0..unat (sd_time m) - Suc 0}" by auto
    ultimately show ?thesis
      unfolding image using assms pos t by (auto simp: sd_cycle_def sd_ok_def sd_rem_def unat_dec Let_def)
  next
    case True
    then show ?thesis
      unfolding image using assms True by (auto simp: sd_cycle_def sd_ok_def sd_rem_def Let_def)
  qed
qed

lemma sd_cycle_law:
  assumes "sd_ok Op m"
  shows "\<exists>ms. sd_cycle Op m = Some ms \<and> (\<forall>m'\<in>set ms. sd_ok Op m' \<and> sd_ff m' = sd_ff m) \<and>
    (\<Union>m'\<in>set ms. sd_rem Op m') = (\<lambda>t. t - 1) ` sd_rem Op m"
proof (cases "sd_phase m")
  case IDLE
  then show ?thesis using assms by (simp add: sd_cycle_def sd_ok_def sd_rem_def)
qed (use assms sd_cycle_access sd_cycle_refresh in auto)

lemma sd_join_law:
  assumes "sd_ok Op m" "sd_ok Op m'" "sd_joinable m m'"
  shows "\<exists>j. sd_join m m' = Some j \<and> sd_ok Op j \<and> sd_rem Op j = sd_rem Op m \<and> sd_rem Op j = sd_rem Op m' \<and>
    ff_set (sd_ff m) \<union> ff_set (sd_ff m') \<subseteq> ff_set (sd_ff j)"
proof -
  obtain e where "ic_join True True True (sd_ff m) (sd_ff m') = Some e" "ff_ok e"
    "ff_set (sd_ff m) \<union> ff_set (sd_ff m') \<subseteq> ff_set e"
    using ff_join [of "sd_ff m" "sd_ff m'"] assms(1,2) by (auto simp: sd_ok_def)
  then show ?thesis
    using assms by (cases "sd_phase m'") (auto simp: sd_join_def sd_ok_def sd_rem_def sd_joinable_def Let_def)
qed

lemma sd_ff_refresh:
  assumes "sd_ok Op m" "sd_phase m = REFRESH" "sd_can_ff Op m"
  shows "\<exists>ms. sd_fast_forward Op m = Some ms \<and> (\<forall>m'\<in>set ms. sd_ok Op m' \<and> sd_busy m') \<and>
    (\<forall>r\<in>sd_rem Op m. \<forall>k\<in>ff_set (sd_ff m). \<exists>m'\<in>set ms. \<exists>r'\<in>sd_rem Op m'. r' \<le> r \<and> k + (r - r') \<in> ff_set (sd_ff m'))"
proof -
  have t: "sd_time m \<noteq> 0" "ff_ok (sd_ff m)" using assms by (auto simp: sd_ok_def)
  have u: "unat (sd_time m - 1) = unat (sd_time m) - 1" using unat_dec t by blast
  have k: "k + (r - 1) \<in> ff_set (ic_plus (sd_ff m) (ff_interval 0 (sd_time m - 1)))"
    if "k \<in> ff_set (sd_ff m)" "r \<in> sd_rem Op m" for k r
    by (rule ff_plus_interval) (use assms t that u in \<open>auto simp: sd_can_ff_def sd_rem_def split: if_splits\<close>)
  have r: "1 \<le> r" if "r \<in> sd_rem Op m" for r
    using that assms(2) unat_pos [OF t(1)] by (auto simp: sd_rem_def split: if_splits)
  show ?thesis
    using assms t k r by (simp add: sd_fast_forward_def sd_ok_def sd_rem_def [of _ "_\<lparr>sd_ff := _\<rparr>"]
        sd_rem_def [of _ "_\<lparr>sd_ff := _, sd_time := _\<rparr>"] sd_busy_def)
qed

lemma sd_ff_access:
  assumes "sd_ok Op m" "sd_phase m = ACCESS" "sd_can_ff Op m"
  shows "\<exists>ms. sd_fast_forward Op m = Some ms \<and> (\<forall>m'\<in>set ms. sd_ok Op m' \<and> sd_busy m') \<and>
    (\<forall>r\<in>sd_rem Op m. \<forall>k\<in>ff_set (sd_ff m). \<exists>m'\<in>set ms. \<exists>r'\<in>sd_rem Op m'. r' \<le> r \<and> k + (r - r') \<in> ff_set (sd_ff m'))"
proof -
  let ?t = "sd_time m" and ?l = "DRAMRefreshLatency Op"
  have t: "?t \<noteq> 0" "ff_ok (sd_ff m)" using assms by (auto simp: sd_ok_def)
  have bound: "unat (ic_ub (sd_ff m)) + (unat ?t + unat ?l) < 2 ^ 32" "sd_just_refreshed m = None"
    using assms(2,3) by (auto simp: sd_can_ff_def)
  have u: "unat (?t - 1) = unat ?t - 1" using unat_dec t by blast
  have ul: "unat (?t - 1 + ?l) = unat ?t - 1 + unat ?l"
    using unat_add_small [of "?t - 1" ?l] u bound(1) by simp
  show ?thesis
  proof (cases "comp_dram_refresh Op")
    case True
    have "k + (r - 1) \<in> ff_set (ic_add (sd_ff m) (?t - 1))" if "k \<in> ff_set (sd_ff m)" "r \<in> sd_rem Op m" for k r
    proof -
      have "r - 1 = unat (?t - 1)" using that(2) assms(2) True u by (simp add: sd_rem_def)
      moreover have "k + unat (?t - 1) \<in> ff_set (ic_add (sd_ff m) (?t - 1))"
        by (rule ff_add) (use t that bound u in auto)
      ultimately show ?thesis by simp
    qed
    moreover have "Suc 0 \<le> r" if "r \<in> sd_rem Op m" for r
      using that assms(2) unat_pos [OF t(1)] by (simp add: sd_rem_def)
    ultimately show ?thesis
      using assms t bound True
      by (simp add: sd_fast_forward_def sd_ok_def sd_rem_def [of _ "_\<lparr>sd_ff := _\<rparr>"]
        sd_rem_def [of _ "_\<lparr>sd_ff := _, sd_time := _\<rparr>"] sd_busy_def)
  next
    case False
    let ?i = "ff_interval (?t - 1) (?t - 1 + ?l)"
    let ?r = "m\<lparr>sd_seen_refresh := True, sd_ff := ic_plus (sd_ff m) ?i, sd_just_refreshed := Some aa_unknown, sd_time := 1\<rparr>"
    let ?a = "m\<lparr>sd_seen_refresh := True, sd_ff := ic_add (sd_ff m) (?t - 1), sd_time := 1\<rparr>"
    have ff: "sd_fast_forward Op m = Some [?r, ?a]"
      using assms(2) t bound(2) False by (simp add: sd_fast_forward_def Let_def)
    have cover: "k + (r - 1) \<in> ff_set (ic_plus (sd_ff m) ?i)" "1 \<le> r" if "k \<in> ff_set (sd_ff m)" "r \<in> sd_rem Op m" for k r
    proof -
      have r: "unat ?t \<le> r" "r \<le> unat ?t + unat ?l"
        using that(2) assms(2) by (auto simp: sd_rem_def split: if_splits)
      then show "1 \<le> r" using unat_pos [OF t(1)] by linarith
      have "r - 1 \<le> unat ?t - 1 + unat ?l" using r unat_pos [OF t(1)] by linarith
      then show "k + (r - 1) \<in> ff_set (ic_plus (sd_ff m) ?i)"
        using r bound(1) unat_pos [OF t(1)] by (intro ff_plus_interval t that) (auto simp: u ul)
    qed
    have rem: "1 \<in> sd_rem Op ?r" using assms(2) by (simp add: sd_rem_def)
    have ok: "sd_ok Op ?r" "sd_ok Op ?a" "sd_busy ?r" "sd_busy ?a"
      using assms(1,2) t by (auto simp: sd_ok_def sd_busy_def)
    have "\<exists>m'\<in>set [?r, ?a]. \<exists>r'\<in>sd_rem Op m'. r' \<le> r \<and> k + (r - r') \<in> ff_set (sd_ff m')"
      if "r \<in> sd_rem Op m" "k \<in> ff_set (sd_ff m)" for r k
      by (rule bexI [of _ ?r], rule bexI [of _ 1]) (use cover that rem in auto)
    then show ?thesis unfolding ff using ok by auto
  qed
qed

interpretation sd: cycling_memory_contract "sd_memory Op" "sd_ok Op" "sd_rem Op" "\<lambda>m. ff_set (sd_ff m)"
  "sd_lat Op" "sd_valid Op" "sd_can_ff Op" for Op
proof
  show "sd_ok Op (am_init (sd_memory Op))" "\<not> am_busy (sd_memory Op) (am_init (sd_memory Op))"
    "0 \<in> ff_set (sd_ff (am_init (sd_memory Op)))"
    by (simp_all add: sd_memory_def sd_init_def sd_ok_def sd_busy_def)
next
  fix m assume "sd_ok Op m"
  then show "sd_ok Op (am_reset (sd_memory Op) m) \<and> sd_rem Op (am_reset (sd_memory Op) m) = sd_rem Op m \<and>
      am_busy (sd_memory Op) (am_reset (sd_memory Op) m) = am_busy (sd_memory Op) m \<and>
      0 \<in> ff_set (sd_ff (am_reset (sd_memory Op) m))"
    by (cases "sd_phase m") (auto simp: sd_memory_def sd_reset_def sd_ok_def sd_rem_def sd_busy_def)
  show "finite (sd_rem Op m) \<and> sd_rem Op m \<noteq> {}"
    using \<open>sd_ok Op m\<close> unat_pos [of "sd_time m"] by (auto simp: sd_rem_def sd_ok_def split: dram_phase.splits)
  show "\<exists>ms. am_cycle (sd_memory Op) m = Some ms \<and>
      (\<forall>m'\<in>set ms. sd_ok Op m' \<and> ff_set (sd_ff m) \<subseteq> ff_set (sd_ff m')) \<and>
      (\<Union>m'\<in>set ms. sd_rem Op m') = (\<lambda>t. t - 1) ` sd_rem Op m"
    using sd_cycle_law [OF \<open>sd_ok Op m\<close>] by (auto simp: sd_memory_def)
next
  fix m assume "sd_ok Op m" "\<not> am_busy (sd_memory Op) m"
  then show "sd_rem Op m = {0}" by (simp add: sd_memory_def sd_busy_def sd_rem_def)
next
  fix m assume "sd_ok Op m" "am_busy (sd_memory Op) m"
  then show "0 \<notin> sd_rem Op m"
    by (auto simp: sd_memory_def sd_busy_def sd_rem_def sd_ok_def unat_eq_0 split: dram_phase.splits)
next
  fix m n addr t assume "sd_ok Op m" "\<not> am_busy (sd_memory Op) m" "sd_valid Op n"
  then show "\<exists>ms. am_announce (sd_memory Op) addr t n m = Some ms \<and>
      (\<forall>m'\<in>set ms. sd_ok Op m' \<and> am_busy (sd_memory Op) m' \<and> ff_set (sd_ff m) \<subseteq> ff_set (sd_ff m')) \<and>
      (\<Union>m'\<in>set ms. sd_rem Op m') = sd_lat Op n"
    by (auto simp: sd_memory_def sd_announce_def sd_valid_def sd_ok_def sd_busy_def sd_rem_def sd_lat_def
        sd_cycles_def unat_gt_0)
next
  fix m m' assume "sd_ok Op m" "sd_ok Op m'" "am_joinable (sd_memory Op) m m'"
  then show "\<exists>j. am_join (sd_memory Op) m m' = Some j \<and> sd_ok Op j \<and> sd_rem Op j = sd_rem Op m \<and>
      sd_rem Op j = sd_rem Op m' \<and> ff_set (sd_ff m) \<union> ff_set (sd_ff m') \<subseteq> ff_set (sd_ff j)"
    using sd_join_law by (simp add: sd_memory_def)
next
  fix m assume "sd_ok Op m" "am_busy (sd_memory Op) m" "sd_can_ff Op m"
  then show "\<exists>ms. am_ff (sd_memory Op) m = Some ms \<and> (\<forall>m'\<in>set ms. sd_ok Op m' \<and> am_busy (sd_memory Op) m') \<and>
      (\<forall>r\<in>sd_rem Op m. \<forall>k\<in>ff_set (sd_ff m). \<exists>m'\<in>set ms. \<exists>r'\<in>sd_rem Op m'. r' \<le> r \<and> k + (r - r') \<in> ff_set (sd_ff m'))"
    using sd_ff_access sd_ff_refresh by (cases "sd_phase m") (auto simp: sd_memory_def sd_busy_def)
qed

end
