(* ===== verification/TA_Cycling_Memory_Wrappers.thy ===== *)
theory TA_Cycling_Memory_Wrappers
  imports TA_Cycling_Memory_Instances
begin

text \<open>
  The wrappers preserve the contract of a cycling memory: the counting wrappers do not change the
  service times, a blocking wrapper adds up to \<open>maxBlockingPerAccess\<close> cycles to each of them unless the
  blocking is accounted compositionally.
\<close>

section \<open>Counting wrappers\<close>

lemma ic_join_defined: "ic_joinable J c d \<Longrightarrow> \<exists>e. ic_join L U J c d = Some e"
  by (cases c; cases d) (auto simp: Let_def)

lemma counting_fields [simp]:
  "wm_memory (w\<lparr>cm_counter := c\<rparr>) = wm_memory w" "cm_counter (w\<lparr>wm_memory := m\<rparr>) = cm_counter w"
  "cm_counter (w\<lparr>cm_counter := c\<rparr>) = c"
  by (cases w, simp)+

lemmas wm_defs = wm_cycle_def wm_announce_def wm_fast_forward_def wm_join_def wm_joinable_def
lemmas cnt_defs = cnt_init_def cnt_metrics_def cnt_reset_def cnt_equals_def cnt_joinable_def cnt_join_def

context cycling_memory_contract
begin

lemma cnt_join_law:
  assumes "ok (wm_memory w)" "ok (wm_memory w')" "cnt_joinable J M w w'"
  shows "\<exists>j. cnt_join L U J M w w' = Some j \<and> ok (wm_memory j) \<and> rem (wm_memory j) = rem (wm_memory w) \<and>
    rem (wm_memory j) = rem (wm_memory w') \<and> skipped (wm_memory w) \<union> skipped (wm_memory w') \<subseteq> skipped (wm_memory j)"
proof -
  obtain e where e: "ic_join L U J (cm_counter w) (cm_counter w') = Some e"
    using ic_join_defined assms(3) unfolding cnt_joinable_def by blast
  have "am_joinable M (wm_memory w) (wm_memory w')" using assms(3) by (simp add: cnt_joinable_def wm_joinable_def)
  from join [OF assms(1,2) this] obtain j where j: "am_join M (wm_memory w) (wm_memory w') = Some j"
    "ok j" "rem j = rem (wm_memory w)" "rem j = rem (wm_memory w')" "skipped (wm_memory w) \<union> skipped (wm_memory w') \<subseteq> skipped j"
    by blast
  then show ?thesis using assms(3) e by (simp add: cnt_join_def wm_join_def cnt_joinable_def)
qed

lemma wm_cycle_law:
  fixes w :: "('m, 'z) wrapping_scheme"
  assumes "ok (wm_memory w)"
  shows "\<exists>ws. wm_cycle M w = Some ws \<and>
    (\<forall>w'\<in>set ws. ok (wm_memory w') \<and> skipped (wm_memory w) \<subseteq> skipped (wm_memory w')) \<and>
    (\<Union>w'\<in>set ws. rem (wm_memory w')) = (\<lambda>t. t - 1) ` rem (wm_memory w)"
  using cycle [OF assms] by (auto simp: wm_cycle_def)

lemma wm_announce_law:
  fixes w :: "('m, 'z) wrapping_scheme"
  assumes "ok (wm_memory w)" "\<not> am_busy M (wm_memory w)" "valid n"
  shows "\<exists>ws. wm_announce M addr t n w = Some ws \<and>
    (\<forall>w'\<in>set ws. ok (wm_memory w') \<and> am_busy M (wm_memory w') \<and> skipped (wm_memory w) \<subseteq> skipped (wm_memory w')) \<and>
    (\<Union>w'\<in>set ws. rem (wm_memory w')) = lat n"
  using announce [OF assms, of addr t] assms(2) by (auto simp: wm_announce_def)

lemma wm_fast_forward_law:
  fixes w :: "('m, 'z) wrapping_scheme"
  assumes "ok (wm_memory w)" "am_busy M (wm_memory w)" "can_ff (wm_memory w)"
  shows "\<exists>ws. wm_fast_forward M w = Some ws \<and>
    (\<forall>w'\<in>set ws. ok (wm_memory w') \<and> am_busy M (wm_memory w')) \<and>
    (\<forall>r\<in>rem (wm_memory w). \<forall>k\<in>skipped (wm_memory w). \<exists>w'\<in>set ws. \<exists>r'\<in>rem (wm_memory w').
       r' \<le> r \<and> k + (r - r') \<in> skipped (wm_memory w'))"
proof -
  obtain ms where "am_ff M (wm_memory w) = Some ms" "\<forall>m'\<in>set ms. ok m' \<and> am_busy M m'"
    "\<forall>r\<in>rem (wm_memory w). \<forall>k\<in>skipped (wm_memory w). \<exists>m'\<in>set ms. \<exists>r'\<in>rem m'. r' \<le> r \<and> k + (r - r') \<in> skipped m'"
    using fast_forward [OF assms] by blast
  then show ?thesis using assms(2) by (simp add: wm_fast_forward_def)
qed

lemma access_counter_contract:
  "cycling_memory_contract (access_counter L U J M) (\<lambda>w. ok (wm_memory w)) (\<lambda>w. rem (wm_memory w))
     (\<lambda>w. skipped (wm_memory w)) lat valid (\<lambda>w. can_ff (wm_memory w))"
proof (unfold_locales, goal_cases)
  case (5 m) then show ?case using rem_finite by simp
next
  case (6 m) then show ?case using idle by (simp add: access_counter_def)
next
  case (7 m) then show ?case using busy by (simp add: access_counter_def)
next
  case (8 w) then show ?case using wm_cycle_law by (simp add: access_counter_def)
next
  case (9 w n addr t)
  then show ?case
    using wm_announce_law [of "w\<lparr>cm_counter := ic_inc (cm_counter w)\<rparr>" n addr t]
    by (simp add: access_counter_def acc_announce_def)
next
  case (10 w w') then show ?case using cnt_join_law by (simp add: access_counter_def)
next
  case (11 w) then show ?case using wm_fast_forward_law by (simp add: access_counter_def)
qed (use init reset in \<open>simp_all add: access_counter_def cnt_defs\<close>)

lemma busy_cycle_law:
  assumes "ok (wm_memory w)"
  shows "\<exists>ws. busy_cycle M w = Some ws \<and>
    (\<forall>w'\<in>set ws. ok (wm_memory w') \<and> skipped (wm_memory w) \<subseteq> skipped (wm_memory w')) \<and>
    (\<Union>w'\<in>set ws. rem (wm_memory w')) = (\<lambda>t. t - 1) ` rem (wm_memory w)"
  using wm_cycle_law [of "w\<lparr>cm_counter := ic_inc (cm_counter w)\<rparr>"] wm_cycle_law [OF assms] assms
  by (simp add: busy_cycle_def)

lemma busy_counter_contract:
  "cycling_memory_contract (busy_counter L U J M) (\<lambda>w. ok (wm_memory w)) (\<lambda>w. rem (wm_memory w))
     (\<lambda>w. skipped (wm_memory w)) lat valid (\<lambda>w. can_ff (wm_memory w))"
proof (unfold_locales, goal_cases)
  case (5 m) then show ?case using rem_finite by simp
next
  case (6 m) then show ?case using idle by (simp add: busy_counter_def)
next
  case (7 m) then show ?case using busy by (simp add: busy_counter_def)
next
  case (8 w) then show ?case using busy_cycle_law by (simp add: busy_counter_def)
next
  case (9 w n addr t) then show ?case using wm_announce_law by (simp add: busy_counter_def)
next
  case (10 w w') then show ?case using cnt_join_law by (simp add: busy_counter_def)
next
  case (11 w) then show ?case using wm_fast_forward_law by (simp add: busy_counter_def)
qed (use init reset in \<open>simp_all add: busy_counter_def cnt_defs\<close>)

end

text \<open>What the counters count.\<close>

lemma acc_announce_counter:
  "acc_announce M addr t n w = Some ws \<Longrightarrow> w' \<in> set ws \<Longrightarrow> cm_counter w' = ic_inc (cm_counter w)"
  by (auto simp: acc_announce_def wm_announce_def split: if_splits)

lemma busy_cycle_counter:
  "busy_cycle M w = Some ws \<Longrightarrow> w' \<in> set ws \<Longrightarrow>
     cm_counter w' = (if am_busy M (wm_memory w) then ic_inc (cm_counter w) else cm_counter w)"
  by (auto simp: busy_cycle_def wm_cycle_def split: if_splits)

lemma serves_access_counter:
  "serves (access_counter L U J M) n w w' \<Longrightarrow> cm_counter w' = cm_counter w"
  by (induction rule: serves.induct) (auto simp: access_counter_def wm_cycle_def)

lemma serves_busy_counter:
  "serves (busy_counter L U J M) n w w' \<Longrightarrow> cm_counter w' = ((ic_inc ^^ n) (cm_counter w))"
proof (induction rule: serves.induct)
  case (finished w)
  then show ?case by simp
next
  case (step w ws w1 n w')
  then have "cm_counter w1 = ic_inc (cm_counter w)"
    using busy_cycle_counter [where M = M and w = w and ws = ws and w' = w1] by (simp add: busy_counter_def)
  then show ?case using step.IH by (simp add: funpow_swap1)
qed

lemma serves_counter_inner:
  "serves (access_counter L U J M) n w w' \<Longrightarrow> serves M n (wm_memory w) (wm_memory w')"
proof (induction rule: serves.induct)
  case (finished w)
  then show ?case by (simp add: access_counter_def)
next
  case (step w ws w1 n w')
  then obtain ms where "am_cycle M (wm_memory w) = Some ms" "wm_memory w1 \<in> set ms"
    by (auto simp: access_counter_def wm_cycle_def)
  moreover have "am_busy M (wm_memory w)" using step.hyps(1) by (simp add: access_counter_def)
  ultimately show ?case using serves.step step.IH by metis
qed

lemma ic_inc_power: "(ic_inc ^^ n) c = ic_add c (of_nat n)"
proof (induction n)
  case 0
  then show ?case by (cases c) auto
next
  case (Suc n)
  then show ?case by (cases c) (simp_all add: ic_inc_def algebra_simps)
qed

section \<open>Blocking wrappers\<close>

definition bm_extra :: "blocking_config \<Rightarrow> memory_options \<Rightarrow> ('m, 'z) blocking_scheme \<Rightarrow> nat" where
  "bm_extra B Op w = (if comp_bus_blocking Op then 0 else unat (maxBlockingPerAccess B) - unat (ic_lb (bm_added w)))"

definition bm_ok :: "blocking_config \<Rightarrow> ('m, 'l) cycling_memory \<Rightarrow> ('m \<Rightarrow> bool) \<Rightarrow> ('m, 'z) blocking_scheme \<Rightarrow> bool" where
  "bm_ok B M iok w \<longleftrightarrow> iok (bm_memory w) \<and> ff_ok (bm_ff w) \<and>
     ic_shape True False False (bm_added w) \<and>
     ic_lb (bm_added w) \<le> (if bm_delayed w \<noteq> None then maxBlockingPerAccess B else 0) \<and>
     (bm_delayed w = None \<longrightarrow> \<not> am_busy M (bm_memory w))"

definition bm_rem :: "blocking_config \<Rightarrow> memory_options \<Rightarrow> ('m, 'l) cycling_memory \<Rightarrow> ('m \<Rightarrow> nat set) \<Rightarrow> ('m, 'z) blocking_scheme \<Rightarrow> nat set" where
  "bm_rem B Op M irem w =
     (if bm_delayed w = None then {0}
      else if am_busy M (bm_memory w) then {r + k | r k. r \<in> irem (bm_memory w) \<and> k \<le> bm_extra B Op w}
      else {Suc k | k. k \<le> bm_extra B Op w})"

definition bm_skipped :: "('m \<Rightarrow> nat set) \<Rightarrow> ('m, 'z) blocking_scheme \<Rightarrow> nat set" where
  "bm_skipped iskip w = {i + j | i j. i \<in> iskip (bm_memory w) \<and> j \<in> ff_set (bm_ff w)}"

definition bm_lat :: "blocking_config \<Rightarrow> memory_options \<Rightarrow> (32 word \<Rightarrow> nat set) \<Rightarrow> 32 word \<Rightarrow> nat set" where
  "bm_lat B Op ilat n = {r + k | r k. r \<in> ilat n \<and>
     k \<le> (if comp_bus_blocking Op then 0 else unat (maxBlockingPerAccess B))}"

definition bm_can_ff :: "blocking_config \<Rightarrow> memory_options \<Rightarrow> ('m, 'l) cycling_memory \<Rightarrow> ('m \<Rightarrow> bool) \<Rightarrow> ('m, 'z) blocking_scheme \<Rightarrow> bool" where
  "bm_can_ff B Op M mff w \<longleftrightarrow> bm_delayed w \<noteq> None \<and>
     unat (ic_ub (bm_ff w)) + unat (maxBlockingPerAccess B) < 2 ^ 32 \<and>
     (if am_busy M (bm_memory w) then mff (bm_memory w) \<and> (comp_bus_blocking Op \<or> ic_lb (bm_added w) = 0)
      else \<not> comp_bus_blocking Op)"

text \<open>The hook changes the blocking counter only, up to fields a subclass adds.\<close>

definition bm_hook :: "(('m, 'z) blocking_scheme \<Rightarrow> ('m, 'z) blocking_scheme) \<Rightarrow> bool" where
  "bm_hook inc \<longleftrightarrow> (\<forall>w. bm_memory (inc w) = bm_memory w \<and> bm_delayed (inc w) = bm_delayed w \<and>
     bm_ff (inc w) = bm_ff w \<and> bm_added (inc w) = ic_inc (bm_added w))"

lemma bm_hooks [simp]: "bm_hook bm_increment" "bm_hook bc_increment"
  by (simp_all add: bm_hook_def bm_increment_def bc_increment_def)

lemma added_shape: "ic_shape True False False c \<Longrightarrow> \<exists>a. c = SingleBound a"
  by (cases c) (auto simp: ic_shape_def)

lemma single_shape [simp]: "ic_shape True False False (SingleBound a)"
  by (simp add: ic_shape_def)

lemma ic_lb_inc: "ic_shape True False False c \<Longrightarrow> ic_lb c < b \<Longrightarrow> unat (ic_lb (ic_inc c)) = Suc (unat (ic_lb c)) \<and> ic_lb (ic_inc c) \<le> b"
proof -
  assume "ic_shape True False False c" "ic_lb c < b"
  then obtain a where c: "c = SingleBound a" "a < b" using added_shape by force
  have "unat a < unat b" using c(2) by (simp add: word_less_nat_alt)
  moreover have "unat b < 2 ^ 32" using unsigned_less [of b] by simp
  ultimately have "unat (a + 1) = Suc (unat a)" using unat_add_small [of a 1] by simp
  moreover have "a + 1 \<le> b" using c(2) by (rule inc_le)
  ultimately show ?thesis using c by (simp add: ic_inc_def)
qed

lemma plus_extra_image:
  assumes "0 \<notin> R"
  shows "(\<lambda>t. t - 1) ` {r + k | r k. r \<in> R \<and> k \<le> (b::nat)} = {r + k | r k. r \<in> (\<lambda>t. t - 1) ` R \<and> k \<le> b}"
proof -
  have pos: "r + k - 1 = (r - 1) + k" if "r \<in> R" for r k using that assms by (cases r) auto
  show ?thesis (is "?l = ?r")
  proof
    show "?l \<subseteq> ?r" using pos by blast
    show "?r \<subseteq> ?l"
    proof
      fix x assume "x \<in> ?r"
      then obtain r k where x: "x = (r - 1) + k" "r \<in> R" "k \<le> b" by blast
      then have "x = (r + k) - 1" "r + k \<in> {r + k | r k. r \<in> R \<and> k \<le> b}" using pos by auto
      then show "x \<in> ?l" by blast
    qed
  qed
qed

lemma suc_image: "(\<lambda>t. t - 1) ` {Suc k | k. k \<le> b} = {r + k | r k. r \<in> (\<lambda>t. t - 1) ` {0} \<and> k \<le> (b::nat)}"
proof -
  have "{Suc k | k. k \<le> b} = Suc ` {..b}" by blast
  then have "(\<lambda>t. t - 1) ` {Suc k | k. k \<le> b} = {..b}" by (simp only: image_image diff_Suc_1 image_ident)
  moreover have "{r + k | r k. r \<in> (\<lambda>t. t - 1) ` {0} \<and> k \<le> b} = {..b}" by simp blast
  ultimately show ?thesis by simp
qed

lemma suc_set: "insert 0 {Suc k | k. k \<le> n} = {k. k \<le> Suc n}"
proof -
  have "k \<in> insert 0 {Suc k | k. k \<le> n}" if "k \<le> Suc n" for k using that by (cases k) auto
  then show ?thesis by auto
qed

text \<open>One case of a cycle: after the wrapped memory went to \<open>m\<close>.\<close>

definition bm_case ::
  "('m, 'l) cycling_memory \<Rightarrow> blocking_config \<Rightarrow> memory_options \<Rightarrow> (('m, 'z) blocking_scheme \<Rightarrow> ('m, 'z) blocking_scheme) \<Rightarrow>
    ('m, 'z) blocking_scheme \<Rightarrow> 'm \<Rightarrow> ('m, 'z) blocking_scheme list option" where
  "bm_case M B Op inc w m = (let r = w\<lparr>bm_memory := m\<rparr> in if \<not> am_busy M m then bm_split B Op inc M r else Some [r])"

text \<open>The state after fast-forwarding while the wrapped memory, now \<open>m\<close>, is busy.\<close>

definition bm_forwarded ::
  "blocking_config \<Rightarrow> memory_options \<Rightarrow> ('m, 'z) blocking_scheme \<Rightarrow> 'm \<Rightarrow> ('m, 'z) blocking_scheme" where
  "bm_forwarded B Op w m =
     (if comp_bus_blocking Op then w\<lparr>bm_memory := m\<rparr>
      else w\<lparr>bm_memory := m, bm_added := ic_assign (bm_added w) (maxBlockingPerAccess B),
             bm_ff := ic_plus (bm_ff w) (ff_interval 0 (maxBlockingPerAccess B))\<rparr>)"

context cycling_memory_contract
begin

lemma bm_case_law:
  fixes w :: "('m, 'z) blocking_scheme"
  assumes hook: "bm_hook inc" and w: "bm_ok B M ok w" and delayed: "bm_delayed w \<noteq> None" and m: "ok m"
  shows "\<exists>ws. bm_case M B Op inc w m = Some ws \<and>
    (\<forall>w'\<in>set ws. bm_ok B M ok w' \<and> bm_ff w' = bm_ff w \<and> bm_memory w' = m) \<and>
    (\<Union>w'\<in>set ws. bm_rem B Op M rem w') = {r + k | r k. r \<in> rem m \<and> k \<le> bm_extra B Op w}"
proof (cases "am_busy M m")
  case True
  then show ?thesis
    using w m delayed by (auto simp: bm_case_def bm_ok_def bm_rem_def bm_extra_def)
next
  case False
  let ?r = "w\<lparr>bm_memory := m\<rparr>"
  let ?free = "?r\<lparr>bm_delayed := None, bm_added := ic_assign (bm_added w) 0\<rparr>"
  have rem: "rem m = {0}" using idle m False .
  have shape: "ic_shape True False False (bm_added w)" using w by (simp add: bm_ok_def)
  then have free: "bm_ok B M ok ?free" using w m False added_shape [OF shape] by (auto simp: bm_ok_def)
  have rfree: "bm_rem B Op M rem ?free = {0}" by (simp add: bm_rem_def)
  show ?thesis
  proof (cases "\<not> comp_bus_blocking Op \<and> ic_lb (bm_added w) < maxBlockingPerAccess B")
    case longer: True
    let ?long = "inc ?r"
    have lb: "unat (ic_lb (ic_inc (bm_added w))) = Suc (unat (ic_lb (bm_added w)))"
      "ic_lb (ic_inc (bm_added w)) \<le> maxBlockingPerAccess B"
      using ic_lb_inc [OF shape] longer by auto
    have long: "bm_ok B M ok ?long" "bm_ff ?long = bm_ff w" "bm_memory ?long = m"
      using hook w m delayed lb shape by (auto simp: bm_hook_def bm_ok_def ic_inc_def)
    have ex: "bm_extra B Op w = Suc (bm_extra B Op ?long)"
      using longer lb hook by (simp add: bm_extra_def bm_hook_def word_less_nat_alt Suc_diff_Suc)
    have h: "bm_delayed ?long = bm_delayed w" "bm_memory ?long = m" using hook by (simp_all add: bm_hook_def)
    have d: "bm_delayed ?long \<noteq> None" unfolding h by (rule delayed)
    have nb: "\<not> am_busy M (bm_memory ?long)" unfolding h by (rule False)
    have rlong: "bm_rem B Op M rem ?long = {Suc k | k. k \<le> bm_extra B Op ?long}"
      unfolding bm_rem_def if_not_P [OF d] if_not_P [OF nb] by (rule refl)
    have "(\<Union>w'\<in>set [?long, ?free]. bm_rem B Op M rem w') = {r + k | r k. r \<in> rem m \<and> k \<le> bm_extra B Op w}"
      unfolding rem ex using suc_set by (simp add: rlong rfree)
    moreover have "bm_case M B Op inc w m = Some [?long, ?free]"
      using False delayed longer by (simp add: bm_case_def bm_split_def Let_def)
    moreover have "\<forall>w'\<in>set [?long, ?free]. bm_ok B M ok w' \<and> bm_ff w' = bm_ff w \<and> bm_memory w' = m"
      using free long by simp
    ultimately show ?thesis by blast
  next
    case notlonger: False
    then have "bm_extra B Op w = 0" by (auto simp: bm_extra_def word_less_nat_alt)
    moreover have "bm_case M B Op inc w m = Some [?free]"
      using False delayed notlonger by (simp add: bm_case_def bm_split_def Let_def)
    ultimately show ?thesis using free rem rfree by simp
  qed
qed

lemma bm_cycle_case:
  "ic_lb (bm_added w) \<le> (if bm_delayed w \<noteq> None then maxBlockingPerAccess B else 0) \<Longrightarrow>
     am_cycle M (bm_memory w) = Some ms \<Longrightarrow>
     bm_cycle B Op inc M w = map_option concat (those (List.map (bm_case M B Op inc w) ms))"
  by (simp add: bm_cycle_def bm_case_def Let_def cong: map_cong)

lemma bm_skipped_mono:
  "skipped (bm_memory w) \<subseteq> skipped (bm_memory w') \<Longrightarrow> ff_set (bm_ff w) \<subseteq> ff_set (bm_ff w') \<Longrightarrow>
     bm_skipped skipped w \<subseteq> bm_skipped skipped w'"
  unfolding bm_skipped_def by blast

lemma bm_cycle_idle:
  fixes w :: "('m, 'z) blocking_scheme"
  assumes w: "bm_ok B M ok w" and d: "bm_delayed w = None" and ms: "am_cycle M (bm_memory w) = Some ms"
    "\<And>m'. m' \<in> set ms \<Longrightarrow> ok m'" "(\<Union>m'\<in>set ms. rem m') = (\<lambda>t. t - 1) ` rem (bm_memory w)"
  shows "bm_cycle B Op inc M w = Some (List.map (\<lambda>m. w\<lparr>bm_memory := m\<rparr>) ms) \<and> ms \<noteq> [] \<and>
    (\<forall>m\<in>set ms. \<not> am_busy M m)"
proof -
  have ok: "ok (bm_memory w)" "\<not> am_busy M (bm_memory w)" using w d by (auto simp: bm_ok_def)
  have un: "(\<Union>m'\<in>set ms. rem m') = {0}" using ms(3) idle [OF ok] by simp
  have nb: "\<not> am_busy M m" if "m \<in> set ms" for m
  proof -
    have "rem m \<subseteq> {0}" "rem m \<noteq> {}" using un that ms(2) rem_finite by auto
    then have "0 \<in> rem m" by blast
    then show ?thesis using busy [OF ms(2) [OF that]] by blast
  qed
  have "those (List.map (bm_case M B Op inc w) ms) = Some (List.map (\<lambda>m. [w\<lparr>bm_memory := m\<rparr>]) ms)"
    by (rule those_map_Some) (use nb d in \<open>simp add: bm_case_def bm_split_def Let_def\<close>)
  then have "bm_cycle B Op inc M w = Some (concat (List.map (\<lambda>m. [w\<lparr>bm_memory := m\<rparr>]) ms))"
    using bm_cycle_case [OF _ ms(1)] w d by (auto simp: bm_ok_def)
  moreover have "concat (List.map (\<lambda>m. [w\<lparr>bm_memory := m\<rparr>]) ms) = List.map (\<lambda>m. w\<lparr>bm_memory := m\<rparr>) ms"
    by (induction ms) auto
  ultimately show ?thesis using nb un by auto
qed

lemma bm_cycle_law:
  fixes w :: "('m, 'z) blocking_scheme"
  assumes hook: "bm_hook inc" and w: "bm_ok B M ok w"
  shows "\<exists>ws. bm_cycle B Op inc M w = Some ws \<and>
    (\<forall>w'\<in>set ws. bm_ok B M ok w' \<and> bm_skipped skipped w \<subseteq> bm_skipped skipped w') \<and>
    (\<Union>w'\<in>set ws. bm_rem B Op M rem w') = (\<lambda>t. t - 1) ` bm_rem B Op M rem w"
proof -
  have ok: "ok (bm_memory w)" using w by (simp add: bm_ok_def)
  obtain ms where ms: "am_cycle M (bm_memory w) = Some ms" "\<And>m'. m' \<in> set ms \<Longrightarrow> ok m'"
    "\<And>m' k. m' \<in> set ms \<Longrightarrow> k \<in> skipped (bm_memory w) \<Longrightarrow> k \<in> skipped m'"
    "(\<Union>m'\<in>set ms. rem m') = (\<lambda>t. t - 1) ` rem (bm_memory w)"
    by (rule cycleE [OF ok], rule that) auto
  show ?thesis
  proof (cases "bm_delayed w = None")
    case True
    have cyc: "bm_cycle B Op inc M w = Some (List.map (\<lambda>m. w\<lparr>bm_memory := m\<rparr>) ms)" "ms \<noteq> []"
      "\<And>m. m \<in> set ms \<Longrightarrow> \<not> am_busy M m"
      using bm_cycle_idle [OF w True ms(1,2,4)] by auto
    have "bm_skipped skipped w \<subseteq> bm_skipped skipped (w\<lparr>bm_memory := m\<rparr>)" if "m \<in> set ms" for m
      by (rule bm_skipped_mono) (use ms(3) that in auto)
    moreover have "bm_ok B M ok (w\<lparr>bm_memory := m\<rparr>)" if "m \<in> set ms" for m
      using w ms(2) that True cyc(3) by (simp add: bm_ok_def)
    moreover have "(\<Union>m\<in>set ms. bm_rem B Op M rem (w\<lparr>bm_memory := m\<rparr>)) = (\<lambda>t. t - 1) ` bm_rem B Op M rem w"
      using True cyc(2) by (simp add: bm_rem_def)
    ultimately show ?thesis using cyc(1) by simp
  next
    case False
    let ?f = "\<lambda>m. the (bm_case M B Op inc w m)"
    have f: "bm_case M B Op inc w m = Some (?f m)"
      "\<And>w'. w' \<in> set (?f m) \<Longrightarrow> bm_ok B M ok w' \<and> bm_ff w' = bm_ff w \<and> bm_memory w' = m"
      "(\<Union>w'\<in>set (?f m). bm_rem B Op M rem w') = {r + k | r k. r \<in> rem m \<and> k \<le> bm_extra B Op w}" if m: "m \<in> set ms" for m
    proof -
      obtain ws where ws: "bm_case M B Op inc w m = Some ws"
        "\<forall>w'\<in>set ws. bm_ok B M ok w' \<and> bm_ff w' = bm_ff w \<and> bm_memory w' = m"
        "(\<Union>w'\<in>set ws. bm_rem B Op M rem w') = {r + k | r k. r \<in> rem m \<and> k \<le> bm_extra B Op w}"
        using bm_case_law [OF hook w False ms(2) [OF m], of Op] by (elim exE conjE) (rule that)
      then have "?f m = ws" by simp
      then show "bm_case M B Op inc w m = Some (?f m)"
        "\<And>w'. w' \<in> set (?f m) \<Longrightarrow> bm_ok B M ok w' \<and> bm_ff w' = bm_ff w \<and> bm_memory w' = m"
        "(\<Union>w'\<in>set (?f m). bm_rem B Op M rem w') = {r + k | r k. r \<in> rem m \<and> k \<le> bm_extra B Op w}"
        using ws by (simp_all only: option.sel)
    qed
    have "those (List.map (bm_case M B Op inc w) ms) = Some (List.map ?f ms)"
      by (rule those_map_Some) (rule f(1))
    then have cyc: "bm_cycle B Op inc M w = Some (concat (List.map ?f ms))"
      using bm_cycle_case [OF _ ms(1), of B Op inc] w False by (auto simp: bm_ok_def)
    have "bm_ok B M ok w' \<and> bm_skipped skipped w \<subseteq> bm_skipped skipped w'" if "w' \<in> set (concat (List.map ?f ms))" for w'
    proof -
      obtain m where m: "m \<in> set ms" "w' \<in> set (?f m)" using \<open>w' \<in> _\<close> by auto
      then have w': "bm_ok B M ok w'" "bm_ff w' = bm_ff w" "bm_memory w' = m" using f(2) by auto
      moreover have "skipped (bm_memory w) \<subseteq> skipped (bm_memory w')" using ms(3) m(1) w'(3) by blast
      ultimately show ?thesis using bm_skipped_mono [of w w'] by simp
    qed
    moreover have "(\<Union>w'\<in>set (concat (List.map ?f ms)). bm_rem B Op M rem w') = (\<lambda>t. t - 1) ` bm_rem B Op M rem w"
    proof -
      have "(\<Union>w'\<in>set (concat (List.map ?f ms)). bm_rem B Op M rem w') = (\<Union>m\<in>set ms. \<Union>w'\<in>set (?f m). bm_rem B Op M rem w')"
        by simp
      also have "\<dots> = (\<Union>m\<in>set ms. {r + k | r k. r \<in> rem m \<and> k \<le> bm_extra B Op w})"
        by (rule SUP_cong [OF refl]) (rule f(3))
      also have "\<dots> = {r + k | r k. r \<in> (\<Union>m\<in>set ms. rem m) \<and> k \<le> bm_extra B Op w}" by blast
      also have "\<dots> = {r + k | r k. r \<in> (\<lambda>t. t - 1) ` rem (bm_memory w) \<and> k \<le> bm_extra B Op w}" by (simp only: ms(4))
      also have "\<dots> = (\<lambda>t. t - 1) ` bm_rem B Op M rem w"
      proof (cases "am_busy M (bm_memory w)")
        case True
        show ?thesis
          unfolding bm_rem_def if_not_P [OF False] if_P [OF True]
          by (rule plus_extra_image [OF busy [OF ok True], symmetric])
      next
        case nb: False
        then have "rem (bm_memory w) = {0}" using idle ok by blast
        then show ?thesis
          unfolding bm_rem_def if_not_P [OF False] if_not_P [OF nb] by (simp only: suc_image)
      qed
      finally show ?thesis .
    qed
    ultimately show ?thesis using cyc by blast
  qed
qed

lemma bm_announce_law:
  fixes w :: "('m, 'z) blocking_scheme"
  assumes w: "bm_ok B M ok w" "\<not> bm_busy M w" and n: "valid n"
  shows "\<exists>ws. bm_announce M addr t n w = Some ws \<and>
    (\<forall>w'\<in>set ws. bm_ok B M ok w' \<and> bm_busy M w' \<and> bm_skipped skipped w \<subseteq> bm_skipped skipped w') \<and>
    (\<Union>w'\<in>set ws. bm_rem B Op M rem w') = bm_lat B Op lat n"
proof -
  have d: "bm_delayed w = None" "\<not> am_busy M (bm_memory w)" "ok (bm_memory w)"
    using w unfolding bm_busy_def bm_ok_def by blast+
  have lb: "ic_lb (bm_added w) = 0" using w(1) d by (simp add: bm_ok_def)
  obtain ms where ms: "am_announce M addr t n (bm_memory w) = Some ms"
    "\<forall>m'\<in>set ms. ok m' \<and> am_busy M m' \<and> skipped (bm_memory w) \<subseteq> skipped m'" "(\<Union>m'\<in>set ms. rem m') = lat n"
    using announce [OF d(3,2) n, of addr t] by (elim exE conjE) (rule that)
  let ?g = "\<lambda>m. w\<lparr>bm_memory := m, bm_delayed := Some (addr, t)\<rparr>"
  have ann: "bm_announce M addr t n w = Some (List.map ?g ms)"
    using w(2) ms by (simp add: bm_announce_def list_all_iff)
  have "bm_ok B M ok (?g m) \<and> bm_busy M (?g m) \<and> bm_skipped skipped w \<subseteq> bm_skipped skipped (?g m)"
    if "m \<in> set ms" for m
    using w(1) ms(2) that lb bm_skipped_mono [of w "?g m"] by (simp add: bm_ok_def bm_busy_def)
  moreover have "(\<Union>m\<in>set ms. bm_rem B Op M rem (?g m)) = bm_lat B Op lat n"
  proof -
    let ?b = "if comp_bus_blocking Op then 0 else unat (maxBlockingPerAccess B)"
    have "bm_rem B Op M rem (?g m) = {r + k | r k. r \<in> rem m \<and> k \<le> ?b}" if "m \<in> set ms" for m
      using ms(2) that lb by (simp add: bm_rem_def bm_extra_def)
    then have "(\<Union>m\<in>set ms. bm_rem B Op M rem (?g m)) = (\<Union>m\<in>set ms. {r + k | r k. r \<in> rem m \<and> k \<le> ?b})" by simp
    also have "\<dots> = {r + k | r k. r \<in> (\<Union>m\<in>set ms. rem m) \<and> k \<le> ?b}" by blast
    finally show ?thesis by (simp only: ms(3) bm_lat_def)
  qed
  ultimately show ?thesis using ann by simp
qed

lemma bm_join_law:
  assumes w: "bm_ok B M ok w" "bm_ok B M ok w'" and j: "bm_joinable M w w'"
  shows "\<exists>v. bm_join M w w' = Some v \<and> bm_ok B M ok v \<and> bm_rem B Op M rem v = bm_rem B Op M rem w \<and>
    bm_rem B Op M rem v = bm_rem B Op M rem w' \<and> bm_skipped skipped w \<union> bm_skipped skipped w' \<subseteq> bm_skipped skipped v"
proof -
  have ok: "ok (bm_memory w)" "ok (bm_memory w')" "ff_ok (bm_ff w)" "ff_ok (bm_ff w')" using w by (auto simp: bm_ok_def)
  obtain a a' where a: "bm_added w = SingleBound a" "bm_added w' = SingleBound a'"
    using w added_shape unfolding bm_ok_def by blast
  then have aa: "a = a'" "ic_join True False False (bm_added w) (bm_added w') = Some (bm_added w)"
    using j by (auto simp: bm_joinable_def ic_eq_def)
  have dj: "bm_delayed w = bm_delayed w'" "am_joinable M (bm_memory w) (bm_memory w')" using j by (auto simp: bm_joinable_def)
  obtain f where f: "ic_join True True True (bm_ff w) (bm_ff w') = Some f" "ff_ok f" "ff_set (bm_ff w) \<union> ff_set (bm_ff w') \<subseteq> ff_set f"
    using ff_join [OF ok(3,4)] by blast
  from join [OF ok(1,2) dj(2)] obtain m where m: "am_join M (bm_memory w) (bm_memory w') = Some m" "ok m"
    "rem m = rem (bm_memory w)" "rem m = rem (bm_memory w')" "skipped (bm_memory w) \<union> skipped (bm_memory w') \<subseteq> skipped m"
    by blast
  let ?v = "w\<lparr>bm_added := bm_added w, bm_ff := f, bm_memory := m\<rparr>"
  have "bm_join M w w' = Some ?v" using j aa f m by (simp add: bm_join_def)
  moreover have busy: "am_busy M m = am_busy M (bm_memory w)" "am_busy M m = am_busy M (bm_memory w')"
    using busy_iff m ok by auto
  moreover have "bm_ok B M ok ?v" using w m f busy by (simp add: bm_ok_def)
  moreover have "bm_rem B Op M rem ?v = bm_rem B Op M rem w" "bm_rem B Op M rem ?v = bm_rem B Op M rem w'"
    using m busy dj a aa(1) by (simp_all add: bm_rem_def bm_extra_def)
  moreover have "bm_skipped skipped w \<subseteq> bm_skipped skipped ?v"
    by (rule bm_skipped_mono) (use m(5) f(3) in simp_all)
  moreover have "bm_skipped skipped w' \<subseteq> bm_skipped skipped ?v"
    by (rule bm_skipped_mono) (use m(5) f(3) in simp_all)
  ultimately show ?thesis by blast
qed

lemma bm_ff_coverI:
  fixes w w' :: "('m, 'z) blocking_scheme"
  assumes "skipped_i + (r\<^sub>0 - r\<^sub>0') \<in> skipped (bm_memory w')" "j + e \<in> ff_set (bm_ff w')" "r\<^sub>0' \<le> r\<^sub>0"
  shows "(skipped_i + j) + ((r\<^sub>0 + e) - r\<^sub>0') \<in> bm_skipped skipped w'"
proof -
  have "(skipped_i + j) + ((r\<^sub>0 + e) - r\<^sub>0') = (skipped_i + (r\<^sub>0 - r\<^sub>0')) + (j + e)" using assms(3) by simp
  then show ?thesis using assms(1,2) unfolding bm_skipped_def by blast
qed

lemma bm_forwarded_ok:
  fixes w :: "('m, 'z) blocking_scheme"
  assumes w: "bm_ok B M ok w" and d: "bm_delayed w \<noteq> None" and busy: "am_busy M m" and m: "ok m"
  shows "bm_ok B M ok (bm_forwarded B Op w m)" "bm_busy M (bm_forwarded B Op w m)"
    "bm_memory (bm_forwarded B Op w m) = m" "bm_delayed (bm_forwarded B Op w m) = bm_delayed w"
proof -
  let ?f = "bm_forwarded B Op w m"
  have shape: "ff_ok (bm_ff w)" "ic_shape True False False (bm_added w)" using w by (auto simp: bm_ok_def)
  then obtain a where a: "bm_added w = SingleBound a" using added_shape by blast
  show dd: "bm_delayed ?f = bm_delayed w" by (simp add: bm_forwarded_def)
  show "bm_memory ?f = m" by (simp add: bm_forwarded_def)
  then show "bm_busy M ?f" using busy by (simp add: bm_busy_def)
  have "ic_lb (bm_added ?f) \<le> maxBlockingPerAccess B" "ic_shape True False False (bm_added ?f)" "ff_ok (bm_ff ?f)"
    using w d a shape by (auto simp: bm_ok_def bm_forwarded_def)
  then show "bm_ok B M ok ?f" using m d dd \<open>bm_memory ?f = m\<close> by (auto simp: bm_ok_def)
qed

lemma bm_forwarded_cover:
  fixes w :: "('m, 'z) blocking_scheme"
  assumes w: "bm_ok B M ok w" and d: "bm_delayed w \<noteq> None" and busy: "am_busy M m" and m: "ok m"
    and fits: "unat (ic_ub (bm_ff w)) + unat (maxBlockingPerAccess B) < 2 ^ 32"
    and e: "e \<le> bm_extra B Op w" and j: "j \<in> ff_set (bm_ff w)" and r': "r\<^sub>0' \<in> rem m"
  shows "j + e \<in> ff_set (bm_ff (bm_forwarded B Op w m))"
    "r\<^sub>0' \<in> bm_rem B Op M rem (bm_forwarded B Op w m)"
proof -
  let ?f = "bm_forwarded B Op w m"
  note f = bm_forwarded_ok [OF w d busy m]
  have shape: "ff_ok (bm_ff w)" using w by (auto simp: bm_ok_def)
  show "j + e \<in> ff_set (bm_ff ?f)"
  proof (cases "comp_bus_blocking Op")
    case True
    then show ?thesis using e j by (simp add: bm_forwarded_def bm_extra_def)
  next
    case False
    then have "e \<le> unat (maxBlockingPerAccess B)" using e by (simp add: bm_extra_def)
    then show ?thesis using False ff_plus_interval [OF shape j, of 0 e] fits by (simp add: bm_forwarded_def)
  qed
  have db: "bm_delayed ?f \<noteq> None" "am_busy M (bm_memory ?f)" unfolding f(3,4) by (fact d, fact busy)
  have "r\<^sub>0' = r\<^sub>0' + 0 \<and> r\<^sub>0' \<in> rem (bm_memory ?f) \<and> 0 \<le> bm_extra B Op ?f" using r' f(3) by simp
  then show "r\<^sub>0' \<in> bm_rem B Op M rem ?f"
    unfolding bm_rem_def if_not_P [OF db(1)] if_P [OF db(2)] by blast
qed

lemma bm_ff_busy:
  fixes w :: "('m, 'z) blocking_scheme"
  assumes w: "bm_ok B M ok w" and b: "am_busy M (bm_memory w)" and c: "bm_can_ff B Op M can_ff w"
  shows "\<exists>ws. bm_fast_forward B Op M w = Some ws \<and> (\<forall>w'\<in>set ws. bm_ok B M ok w' \<and> bm_busy M w') \<and>
    (\<forall>r\<in>bm_rem B Op M rem w. \<forall>k\<in>bm_skipped skipped w. \<exists>w'\<in>set ws. \<exists>r'\<in>bm_rem B Op M rem w'.
       r' \<le> r \<and> k + (r - r') \<in> bm_skipped skipped w')"
proof -
  have ok: "ok (bm_memory w)" "ff_ok (bm_ff w)" "ic_shape True False False (bm_added w)" using w by (auto simp: bm_ok_def)
  have d: "bm_delayed w \<noteq> None" and fits: "unat (ic_ub (bm_ff w)) + unat (maxBlockingPerAccess B) < 2 ^ 32"
    and cff: "can_ff (bm_memory w)" and add: "comp_bus_blocking Op \<or> ic_lb (bm_added w) = 0"
    using c b unfolding bm_can_ff_def by simp_all
  obtain ms where ms: "am_ff M (bm_memory w) = Some ms" "\<forall>m'\<in>set ms. ok m' \<and> am_busy M m'"
    "\<forall>r\<in>rem (bm_memory w). \<forall>k\<in>skipped (bm_memory w). \<exists>m'\<in>set ms. \<exists>r'\<in>rem m'. r' \<le> r \<and> k + (r - r') \<in> skipped m'"
    using fast_forward [OF ok(1) b cff] by blast
  obtain a where a: "bm_added w = SingleBound a" using added_shape ok(3) by blast
  have "bm_fast_forward B Op M w = Some (List.map (bm_forwarded B Op w) ms)"
    unfolding bm_fast_forward_def if_P [OF b] using d b add a ms(1)
    by (cases "comp_bus_blocking Op") (auto simp: bm_busy_def bm_forwarded_def Let_def intro!: those_map_Some)
  moreover have "\<forall>w'\<in>set (List.map (bm_forwarded B Op w) ms). bm_ok B M ok w' \<and> bm_busy M w'"
    using ms(2) bm_forwarded_ok [OF w d] by simp
  moreover have "\<exists>w'\<in>set (List.map (bm_forwarded B Op w) ms). \<exists>r'\<in>bm_rem B Op M rem w'.
      r' \<le> r \<and> k + (r - r') \<in> bm_skipped skipped w'"
    if r: "r \<in> bm_rem B Op M rem w" and k: "k \<in> bm_skipped skipped w" for r k
  proof -
    obtain r0 e where r0: "r = r0 + e" "r0 \<in> rem (bm_memory w)" "e \<le> bm_extra B Op w"
      using r unfolding bm_rem_def if_not_P [OF d] if_P [OF b] by blast
    obtain i j where i: "k = i + j" "i \<in> skipped (bm_memory w)" "j \<in> ff_set (bm_ff w)"
      using k unfolding bm_skipped_def by blast
    obtain m r' where m: "m \<in> set ms" "r' \<in> rem m" "r' \<le> r0" "i + (r0 - r') \<in> skipped m"
      using ms(3) r0(2) i(2) by blast
    have mok: "ok m" "am_busy M m" using ms(2) m(1) by auto
    note cov = bm_forwarded_cover [OF w d mok(2,1) fits r0(3) i(3) m(2)]
    have "k + (r - r') \<in> bm_skipped skipped (bm_forwarded B Op w m)"
      unfolding i(1) r0(1) by (rule bm_ff_coverI) (use cov m bm_forwarded_ok(3) [OF w d mok(2,1)] in simp_all)
    then show ?thesis using m(1,3) cov(2) r0(1) by (intro bexI [of _ "bm_forwarded B Op w m"] bexI [of _ r']) auto
  qed
  ultimately show ?thesis by blast
qed

lemma bm_ff_idle:
  fixes w :: "('m, 'z) blocking_scheme"
  assumes w: "bm_ok B M ok w" and b: "\<not> am_busy M (bm_memory w)" and c: "bm_can_ff B Op M can_ff w"
  shows "\<exists>ws. bm_fast_forward B Op M w = Some ws \<and> (\<forall>w'\<in>set ws. bm_ok B M ok w' \<and> bm_busy M w') \<and>
    (\<forall>r\<in>bm_rem B Op M rem w. \<forall>k\<in>bm_skipped skipped w. \<exists>w'\<in>set ws. \<exists>r'\<in>bm_rem B Op M rem w'.
       r' \<le> r \<and> k + (r - r') \<in> bm_skipped skipped w')"
proof -
  have ok: "ok (bm_memory w)" "ff_ok (bm_ff w)" "ic_shape True False False (bm_added w)" using w by (auto simp: bm_ok_def)
  have d: "bm_delayed w \<noteq> None" and fits: "unat (ic_ub (bm_ff w)) + unat (maxBlockingPerAccess B) < 2 ^ 32"
    and comp: "\<not> comp_bus_blocking Op"
    using c b unfolding bm_can_ff_def by simp_all
  obtain a where a: "bm_added w = SingleBound a" using added_shape ok(3) by blast
  have lb: "a \<le> maxBlockingPerAccess B" using w d a by (simp add: bm_ok_def split: if_splits)
  then have sub: "unat (maxBlockingPerAccess B - a) = unat (maxBlockingPerAccess B) - unat a" by (rule unat_sub)
  let ?f = "w\<lparr>bm_added := ic_assign (bm_added w) (maxBlockingPerAccess B),
    bm_ff := ic_plus (bm_ff w) (ff_interval 0 (maxBlockingPerAccess B - ic_lb (bm_added w)))\<rparr>"
  have ff: "bm_fast_forward B Op M w = Some [?f]"
    unfolding bm_fast_forward_def if_not_P [OF b] using d comp by (simp add: bm_busy_def)
  have fok: "bm_ok B M ok ?f" using w d a ok by (auto simp: bm_ok_def)
  have fb: "bm_busy M ?f" unfolding bm_busy_def using d by simp
  have fd: "bm_delayed ?f \<noteq> None" "\<not> am_busy M (bm_memory ?f)" using d b by auto
  have fr: "Suc 0 \<in> bm_rem B Op M rem ?f"
    unfolding bm_rem_def if_not_P [OF fd(1)] if_not_P [OF fd(2)] by blast
  have cover: "Suc 0 \<le> r \<and> k + (r - Suc 0) \<in> bm_skipped skipped ?f"
    if r: "r \<in> bm_rem B Op M rem w" and k: "k \<in> bm_skipped skipped w" for r k
  proof -
    obtain e where e: "r = Suc e" "e \<le> bm_extra B Op w"
      using r unfolding bm_rem_def if_not_P [OF d] if_not_P [OF b] by blast
    have e': "e \<le> unat (maxBlockingPerAccess B - a)" using e(2) comp a sub by (simp add: bm_extra_def)
    obtain i j where i: "k = i + j" "i \<in> skipped (bm_memory w)" "j \<in> ff_set (bm_ff w)"
      using k unfolding bm_skipped_def by blast
    have "j + e \<in> ff_set (bm_ff ?f)"
      using ff_plus_interval [OF ok(2) i(3), of 0 e "maxBlockingPerAccess B - a"] e' fits sub a by simp
    then have "i + (j + e) \<in> bm_skipped skipped ?f" using i(2) unfolding bm_skipped_def by auto
    then show ?thesis using e(1) i(1) by (simp add: add.assoc)
  qed
  show ?thesis unfolding ff using fok fb fr cover by auto
qed

lemma bm_ff_law:
  assumes "bm_ok B M ok w" "bm_can_ff B Op M can_ff w"
  shows "\<exists>ws. bm_fast_forward B Op M w = Some ws \<and> (\<forall>w'\<in>set ws. bm_ok B M ok w' \<and> bm_busy M w') \<and>
    (\<forall>r\<in>bm_rem B Op M rem w. \<forall>k\<in>bm_skipped skipped w. \<exists>w'\<in>set ws. \<exists>r'\<in>bm_rem B Op M rem w'.
       r' \<le> r \<and> k + (r - r') \<in> bm_skipped skipped w')"
  using bm_ff_busy bm_ff_idle assms by blast

lemma bm_rem_finite:
  assumes "bm_ok B M ok w"
  shows "finite (bm_rem B Op M rem w) \<and> bm_rem B Op M rem w \<noteq> {}"
proof -
  have R: "finite (rem (bm_memory w))" "rem (bm_memory w) \<noteq> {}" using assms rem_finite by (auto simp: bm_ok_def)
  have "{r + k | r k. r \<in> rem (bm_memory w) \<and> k \<le> bm_extra B Op w} =
      (\<lambda>(r, k). r + k) ` (rem (bm_memory w) \<times> {..bm_extra B Op w})" by auto
  moreover have "{Suc k | k. k \<le> bm_extra B Op w} = Suc ` {..bm_extra B Op w}" by auto
  ultimately show ?thesis using R by (simp add: bm_rem_def)
qed

lemma bm_idle_law: "bm_ok B M ok w \<Longrightarrow> \<not> bm_busy M w \<Longrightarrow> bm_rem B Op M rem w = {0}"
  by (simp add: bm_busy_def bm_rem_def)

lemma bm_busy_law:
  assumes "bm_ok B M ok w" "bm_busy M w"
  shows "0 \<notin> bm_rem B Op M rem w"
proof -
  have d: "bm_delayed w \<noteq> None" using assms unfolding bm_busy_def bm_ok_def by blast
  have "ok (bm_memory w)" using assms(1) by (simp add: bm_ok_def)
  then show ?thesis using busy unfolding bm_rem_def if_not_P [OF d] by auto
qed

lemma bm_reset_law:
  assumes "bm_ok B M ok w"
  shows "bm_ok B M ok (bm_reset M w) \<and> bm_rem B Op M rem (bm_reset M w) = bm_rem B Op M rem w \<and>
    bm_busy M (bm_reset M w) = bm_busy M w \<and> 0 \<in> bm_skipped skipped (bm_reset M w)"
proof -
  have r: "ok (am_reset M (bm_memory w))" "rem (am_reset M (bm_memory w)) = rem (bm_memory w)"
    "am_busy M (am_reset M (bm_memory w)) = am_busy M (bm_memory w)" "0 \<in> skipped (am_reset M (bm_memory w))"
    using reset assms by (auto simp: bm_ok_def)
  have "ff_ok (ic_assign (bm_ff w) 0)" "0 \<in> ff_set (ic_assign (bm_ff w) 0)" using assms by (auto simp: bm_ok_def)
  then show ?thesis
    using assms r by (auto simp: bm_ok_def bm_rem_def bm_busy_def bm_reset_def bm_skipped_def bm_extra_def)
qed

lemma bm_init_law:
  "bm_ok B M ok (bm_init M)" "\<not> bm_busy M (bm_init M)" "0 \<in> bm_skipped skipped (bm_init M)"
  "bm_ok B M ok (bc_init M)" "\<not> bm_busy M (bc_init M)" "0 \<in> bm_skipped skipped (bc_init M)"
  using init by (auto simp: bm_init_def bc_init_def bm_ok_def bm_busy_def bm_skipped_def ic_bounds_make)

lemma blocking_contract:
  "cycling_memory_contract (blocking_memory B Op M) (bm_ok B M ok) (bm_rem B Op M rem) (bm_skipped skipped)
     (bm_lat B Op lat) valid (bm_can_ff B Op M can_ff)"
proof (unfold_locales, unfold blocking_memory_def cycling_memory.select_convs)
qed (rule bm_init_law bm_reset_law bm_rem_finite bm_idle_law bm_busy_law bm_cycle_law [OF bm_hooks(1)]
  bm_announce_law bm_join_law bm_ff_law; assumption)+

lemma bc_fields [simp]:
  "bm_ok B M ok (w\<lparr>bc_counter := c\<rparr>) = bm_ok B M ok w" "bm_rem B Op M rem (w\<lparr>bc_counter := c\<rparr>) = bm_rem B Op M rem w"
  "bm_busy M (w\<lparr>bc_counter := c\<rparr>) = bm_busy M w" "bm_skipped skipped (w\<lparr>bc_counter := c\<rparr>) = bm_skipped skipped w"
  by (simp_all add: bm_ok_def bm_rem_def bm_busy_def bm_skipped_def bm_extra_def)

lemma bc_join_law:
  assumes "bm_ok B M ok w" "bm_ok B M ok w'" "bc_joinable M w w'"
  shows "\<exists>v. bc_join M w w' = Some v \<and> bm_ok B M ok v \<and> bm_rem B Op M rem v = bm_rem B Op M rem w \<and>
    bm_rem B Op M rem v = bm_rem B Op M rem w' \<and> bm_skipped skipped w \<union> bm_skipped skipped w' \<subseteq> bm_skipped skipped v"
proof -
  have j: "bm_joinable M w w'" using assms(3) by (simp add: bc_joinable_def)
  obtain v where v: "bm_join M w w' = Some v" "bm_ok B M ok v" "bm_rem B Op M rem v = bm_rem B Op M rem w"
    "bm_rem B Op M rem v = bm_rem B Op M rem w'" "bm_skipped skipped w \<union> bm_skipped skipped w' \<subseteq> bm_skipped skipped v"
    using bm_join_law [OF assms(1,2) j, of Op] by blast
  have "ic_joinable True (bc_counter v) (bc_counter w')" by simp
  then obtain c where "ic_join True False True (bc_counter v) (bc_counter w') = Some c" using ic_join_defined by blast
  then have "bc_join M w w' = Some (v\<lparr>bc_counter := c\<rparr>)" using v assms(3) by (simp add: bc_join_def)
  then show ?thesis using v(2-5) by simp
qed

lemma blocking_counter_contract:
  "cycling_memory_contract (blocking_counter_memory B Op M) (bm_ok B M ok) (bm_rem B Op M rem) (bm_skipped skipped)
     (bm_lat B Op lat) valid (bm_can_ff B Op M can_ff)"
proof (unfold_locales, unfold blocking_counter_memory_def cycling_memory.select_convs bc_reset_def bc_fields)
qed (rule bm_init_law bm_reset_law bm_rem_finite bm_idle_law bm_busy_law bm_cycle_law [OF bm_hooks(2)]
  bm_announce_law bc_join_law bm_ff_law; assumption)+

end

section \<open>The stacks of memories the analysis uses\<close>

interpretation fl_blocking: cycling_memory_contract "blocking_memory B Op (fl_memory C)" "bm_ok B (fl_memory C) fl_ok"
  "bm_rem B Op (fl_memory C) fl_rem" "bm_skipped (\<lambda>m. ff_set (fl_ff m))"
  "bm_lat B Op (\<lambda>n. {unat (fl_cycles C n)})" "fl_valid C" "bm_can_ff B Op (fl_memory C) fl_can_ff" for B Op C
  by (rule fl.blocking_contract)

interpretation sd_blocking: cycling_memory_contract "blocking_memory B Op (sd_memory Op)" "bm_ok B (sd_memory Op) (sd_ok Op)"
  "bm_rem B Op (sd_memory Op) (sd_rem Op)" "bm_skipped (\<lambda>m. ff_set (sd_ff m))"
  "bm_lat B Op (sd_lat Op)" "sd_valid Op" "bm_can_ff B Op (sd_memory Op) (sd_can_ff Op)" for B Op
  by (rule sd.blocking_contract)

interpretation sd_blocking_counter: cycling_memory_contract "blocking_counter_memory B Op (sd_memory Op)"
  "bm_ok B (sd_memory Op) (sd_ok Op)" "bm_rem B Op (sd_memory Op) (sd_rem Op)" "bm_skipped (\<lambda>m. ff_set (sd_ff m))"
  "bm_lat B Op (sd_lat Op)" "sd_valid Op" "bm_can_ff B Op (sd_memory Op) (sd_can_ff Op)" for B Op
  by (rule sd.blocking_counter_contract)

end
