(* ===== verification/TA_Cycling_Memory_Properties.thy ===== *)
theory TA_Cycling_Memory_Properties
  imports TA_Cycling_Memory_Wrappers
begin

text \<open>
  The properties of the cycling memories: the service times of accesses in every reachable state of a
  memory behind a shared bus, the end of every access, the coverage of fast-forwarding and the values
  of the event counters.
\<close>

section \<open>Reachable states\<close>

text \<open>
  The states the pipeline can bring a memory into: it resets the metrics, cycles the memory, announces
  the accesses \<open>V\<close> to an idle memory, joins joinable states, and fast-forwards busy memories in the
  states \<open>F\<close>.
\<close>

inductive am_reachable :: "('m, 'l) cycling_memory \<Rightarrow> (32 word \<Rightarrow> bool) \<Rightarrow> ('m \<Rightarrow> bool) \<Rightarrow> 'm \<Rightarrow> bool" for M V F where
  Start: "am_reachable M V F (am_init M)"
| Reset: "am_reachable M V F m \<Longrightarrow> am_reachable M V F (am_reset M m)"
| Cycle: "am_reachable M V F m \<Longrightarrow> am_cycle M m = Some ms \<Longrightarrow> m' \<in> set ms \<Longrightarrow> am_reachable M V F m'"
| Announce: "am_reachable M V F m \<Longrightarrow> \<not> am_busy M m \<Longrightarrow> V n \<Longrightarrow> am_announce M addr t n m = Some ms \<Longrightarrow>
    m' \<in> set ms \<Longrightarrow> am_reachable M V F m'"
| Join: "am_reachable M V F m \<Longrightarrow> am_reachable M V F m' \<Longrightarrow> am_joinable M m m' \<Longrightarrow> am_join M m m' = Some j \<Longrightarrow>
    am_reachable M V F j"
| Forward: "am_reachable M V F m \<Longrightarrow> am_busy M m \<Longrightarrow> F m \<Longrightarrow> am_ff M m = Some ms \<Longrightarrow> m' \<in> set ms \<Longrightarrow>
    am_reachable M V F m'"

context cycling_memory_contract
begin

lemma reachable_ok: "am_reachable M valid can_ff m \<Longrightarrow> ok m"
proof (induction rule: am_reachable.induct)
  case Start
  then show ?case by (rule init)
next
  case (Reset m)
  then show ?case using reset by blast
next
  case (Cycle m ms m')
  then show ?case using cycle [OF Cycle.IH] by auto
next
  case (Announce m n addr t ms m')
  then show ?case using announce [OF Announce.IH, of n addr t] by auto
next
  case (Join m m' j)
  then show ?case using join [OF Join.IH] by auto
next
  case (Forward m ms m')
  then show ?case using fast_forward [OF Forward.IH] by auto
qed

text \<open>A reachable state is never stuck: it cycles, and an idle one accepts every valid access.\<close>

lemma reachable_defined:
  assumes "am_reachable M valid can_ff m"
  shows "am_cycle M m \<noteq> None \<and> (\<not> am_busy M m \<and> valid n \<longrightarrow> am_announce M addr t n m \<noteq> None) \<and>
    (am_busy M m \<and> can_ff m \<longrightarrow> am_ff M m \<noteq> None)"
proof -
  have "ok m" using reachable_ok assms .
  then show ?thesis
    using cycle announce [of m n addr t] fast_forward by fastforce
qed

end

section \<open>Service times\<close>

lemma bm_lat_interval:
  "bm_lat B Op (\<lambda>n. {unat (fl_cycles C n)}) n =
     {unat (fl_cycles C n) .. unat (fl_cycles C n) + (if comp_bus_blocking Op then 0 else unat (maxBlockingPerAccess B))}"
  unfolding bm_lat_def by (auto simp: le_iff_add)

lemma sum_interval: "{r + k | r k. r \<in> {a..b} \<and> k \<le> c} = {a..b + (c::nat)}" if "a \<le> b"
proof -
  have "\<exists>r k. x = r + k \<and> r \<in> {a..b} \<and> k \<le> c" if "x \<in> {a..b + c}" for x
  proof (cases "x \<le> b")
    case True
    then show ?thesis using that by (intro exI [of _ x] exI [of _ 0]) auto
  next
    case False
    then show ?thesis using that \<open>a \<le> b\<close> by (intro exI [of _ b] exI [of _ "x - b"]) auto
  qed
  then show ?thesis by auto
qed

lemma bm_sd_lat_interval:
  "bm_lat B Op (sd_lat Op) n = {sd_cycles Op n .. sd_cycles Op n +
     (if comp_dram_refresh Op then 0 else unat (DRAMRefreshLatency Op)) +
     (if comp_bus_blocking Op then 0 else unat (maxBlockingPerAccess B))}"
  unfolding bm_lat_def sd_lat_def by (rule sum_interval) simp

text \<open>
  C20: in every state the pipeline can bring a fixed-latency memory behind a shared bus into, an access
  announced to the idle memory takes exactly the times from its latency to its latency plus
  \<open>maxBlockingPerAccess\<close> (only its latency if bus blocking is accounted compositionally): no other time
  is possible, and the cases \<open>cycle\<close> splits into realise each of them.
\<close>

theorem shared_memory_access_times:
  assumes "am_reachable (blocking_memory B Op (fl_memory C)) (fl_valid C) (bm_can_ff B Op (fl_memory C) fl_can_ff) m"
    and "\<not> bm_busy (fl_memory C) m" "fl_valid C n"
  shows "\<exists>ms. bm_announce (fl_memory C) addr t n m = Some ms \<and>
    {k. \<exists>m'\<in>set ms. \<exists>m''. serves (blocking_memory B Op (fl_memory C)) k m' m''} =
      {unat (fl_cycles C n) ..
       unat (fl_cycles C n) + (if comp_bus_blocking Op then 0 else unat (maxBlockingPerAccess B))}"
proof -
  let ?M = "blocking_memory B Op (fl_memory C)"
  have m: "bm_ok B (fl_memory C) fl_ok m" using fl_blocking.reachable_ok assms(1) .
  have "\<not> am_busy ?M m" using assms(2) by (simp add: blocking_memory_def)
  from fl_blocking.access_times [OF m this assms(3), of addr t] show ?thesis
    unfolding bm_lat_interval by (auto simp: blocking_memory_def)
qed

abbreviation example_bus :: blocking_config where
  "example_bus \<equiv> \<lparr>maxBlockingPerAccess = 3, accessLatency = 5\<rparr>"

abbreviation example_options :: memory_options where
  "example_options \<equiv> \<lparr>Latency = 4, PerWordLatency = 2, DRAMRefreshLatency = 7, comp_bus_blocking = False,
     comp_dram_refresh = False, stall_bus_blocking = False, stall_dram_refresh = False\<rparr>"

abbreviation example_fixed :: fixed_latency_config where
  "example_fixed \<equiv> \<lparr>flc_latency = 4, flc_per_word = 2\<rparr>"

theorem shared_memory_access_times_witness:
  "\<exists>ms. bm_announce (fl_memory example_fixed) (AInterval 0x40 0x40) LOAD 1 (bm_init (fl_memory example_fixed)) = Some ms \<and>
    {k. \<exists>m'\<in>set ms. \<exists>m''. serves (blocking_memory example_bus example_options (fl_memory example_fixed)) k m' m''} = {6..9}"
proof -
  let ?F = "fl_memory example_fixed"
  have r: "am_reachable (blocking_memory example_bus example_options ?F) (fl_valid example_fixed)
      (bm_can_ff example_bus example_options ?F fl_can_ff) (bm_init ?F)"
    using am_reachable.Start [of "blocking_memory example_bus example_options ?F"] by (simp add: blocking_memory_def)
  have "\<not> bm_busy ?F (bm_init ?F)" by (simp add: bm_busy_def bm_init_def fl_memory_def fl_busy_def fl_init_def)
  moreover have "fl_valid example_fixed 1" by (simp add: fl_valid_def fl_cycles_def)
  ultimately show ?thesis
    using shared_memory_access_times [OF r, of 1 "AInterval 0x40 0x40" LOAD] by (simp add: fl_cycles_def)
qed

text \<open>
  C21: an access to an SDRAM behind a shared bus, from any reachable idle state, takes exactly the times
  from its latency to its latency plus one refresh and \<open>maxBlockingPerAccess\<close>, where the parts that are
  accounted compositionally add nothing.
\<close>

theorem shared_sdram_access_times:
  assumes "am_reachable (blocking_counter_memory B Op (sd_memory Op)) (sd_valid Op)
      (bm_can_ff B Op (sd_memory Op) (sd_can_ff Op)) m"
    and "\<not> bm_busy (sd_memory Op) m" "sd_valid Op n"
  shows "\<exists>ms. bm_announce (sd_memory Op) addr t n m = Some ms \<and>
    {k. \<exists>m'\<in>set ms. \<exists>m''. serves (blocking_counter_memory B Op (sd_memory Op)) k m' m''} =
      {unat (Latency Op + PerWordLatency Op * n) .. unat (Latency Op + PerWordLatency Op * n) +
       (if comp_dram_refresh Op then 0 else unat (DRAMRefreshLatency Op)) +
       (if comp_bus_blocking Op then 0 else unat (maxBlockingPerAccess B))}"
proof -
  let ?M = "blocking_counter_memory B Op (sd_memory Op)"
  have m: "bm_ok B (sd_memory Op) (sd_ok Op) m" using sd_blocking_counter.reachable_ok assms(1) .
  have "\<not> am_busy ?M m" using assms(2) by (simp add: blocking_counter_memory_def)
  from sd_blocking_counter.access_times [OF m this assms(3), of addr t] show ?thesis
    unfolding bm_sd_lat_interval by (auto simp: blocking_counter_memory_def sd_cycles_def)
qed

lemma example_sd_start:
  "am_reachable (blocking_counter_memory example_bus example_options (sd_memory example_options)) (sd_valid example_options)
    (bm_can_ff example_bus example_options (sd_memory example_options) (sd_can_ff example_options))
    (bc_init (sd_memory example_options))"
  "\<not> bm_busy (sd_memory example_options) (bc_init (sd_memory example_options))" "sd_valid example_options 1"
proof -
  show "am_reachable (blocking_counter_memory example_bus example_options (sd_memory example_options)) (sd_valid example_options)
    (bm_can_ff example_bus example_options (sd_memory example_options) (sd_can_ff example_options))
    (bc_init (sd_memory example_options))"
    using am_reachable.Start [of "blocking_counter_memory example_bus example_options (sd_memory example_options)"]
    by (simp add: blocking_counter_memory_def)
qed (simp_all add: bm_busy_def bc_init_def sd_memory_def sd_busy_def sd_init_def sd_valid_def sd_cycles_def maxBurstLength_def)

theorem shared_sdram_access_times_witness:
  "\<exists>ms. bm_announce (sd_memory example_options) (AInterval 0x40 0x40) STORE 1 (bc_init (sd_memory example_options)) = Some ms \<and>
    {k. \<exists>m'\<in>set ms. \<exists>m''. serves (blocking_counter_memory example_bus example_options (sd_memory example_options)) k m' m''} = {6..16}"
  using shared_sdram_access_times [OF example_sd_start, of "AInterval 0x40 0x40" STORE] by simp

text \<open>
  C22: every access of at most 8 words with a latency that is not 0 ends, if the refresh latency is not 0 or
  refreshes are accounted compositionally: such an access announced to an idle SDRAM behind a shared bus,
  in any state reachable with such accesses, is accepted, and after its latency, a refresh and the maximal blocking have passed every case
  the cycles split into is idle; no cycle on the way fails.
\<close>

theorem shared_sdram_access_ends:
  assumes "am_reachable (blocking_counter_memory B Op (sd_memory Op)) (sd_valid Op)
      (bm_can_ff B Op (sd_memory Op) (sd_can_ff Op)) m"
    and "\<not> bm_busy (sd_memory Op) m" "sd_valid Op n"
  shows "\<exists>ms ms'. bm_announce (sd_memory Op) addr t n m = Some ms \<and>
    am_run (blocking_counter_memory B Op (sd_memory Op))
      (unat (Latency Op + PerWordLatency Op * n) + unat (DRAMRefreshLatency Op) + unat (maxBlockingPerAccess B)) ms = Some ms' \<and>
    (\<forall>m'\<in>set ms'. \<not> bm_busy (sd_memory Op) m')"
proof -
  let ?M = "blocking_counter_memory B Op (sd_memory Op)"
  have m: "bm_ok B (sd_memory Op) (sd_ok Op) m" using sd_blocking_counter.reachable_ok assms(1) .
  have idle: "\<not> am_busy ?M m" using assms(2) by (simp add: blocking_counter_memory_def)
  have "\<forall>k\<in>bm_lat B Op (sd_lat Op) n. k \<le> sd_cycles Op n + unat (DRAMRefreshLatency Op) + unat (maxBlockingPerAccess B)"
    unfolding bm_sd_lat_interval by auto
  from sd_blocking_counter.access_ends [OF m idle assms(3) this, of addr t] show ?thesis
    by (simp add: blocking_counter_memory_def sd_cycles_def)
qed

theorem shared_sdram_access_ends_witness:
  "\<exists>ms ms'. bm_announce (sd_memory example_options) (AInterval 0x40 0x40) STORE 1 (bc_init (sd_memory example_options)) = Some ms \<and>
    am_run (blocking_counter_memory example_bus example_options (sd_memory example_options)) 16 ms = Some ms' \<and>
    (\<forall>m'\<in>set ms'. \<not> bm_busy (sd_memory example_options) m')"
  using shared_sdram_access_ends [OF example_sd_start, of "AInterval 0x40 0x40" STORE] by simp

section \<open>Fast-forwarding\<close>

text \<open>
  C23: fast-forwarding loses no execution: if the access a reachable SDRAM behind a shared bus is busy with can
  take \<open>r\<close> more cycles, some fast-forwarded state finishes after \<open>r'\<close> cycles with counters that admit
  the missing \<open>r - r'\<close> cycles, on top of any number they admitted before.
\<close>

theorem sdram_fast_forward_covers:
  assumes "am_reachable (blocking_memory B Op (sd_memory Op)) (sd_valid Op) (bm_can_ff B Op (sd_memory Op) (sd_can_ff Op)) m"
    and "bm_busy (sd_memory Op) m" "bm_can_ff B Op (sd_memory Op) (sd_can_ff Op) m"
    and "serves (blocking_memory B Op (sd_memory Op)) r m m\<^sub>1"
    and "i \<in> ic_gamma True True (sd_ff (bm_memory m))" "j \<in> ic_gamma True True (bm_ff m)"
  shows "\<exists>ms m' r' m\<^sub>2 i' j'. bm_fast_forward B Op (sd_memory Op) m = Some ms \<and> m' \<in> set ms \<and>
    serves (blocking_memory B Op (sd_memory Op)) r' m' m\<^sub>2 \<and>
    i' \<in> ic_gamma True True (sd_ff (bm_memory m\<^sub>2)) \<and> j' \<in> ic_gamma True True (bm_ff m\<^sub>2) \<and> i + j + r = i' + j' + r'"
proof -
  let ?M = "blocking_memory B Op (sd_memory Op)"
  have m: "bm_ok B (sd_memory Op) (sd_ok Op) m" using sd_blocking.reachable_ok assms(1) .
  have busy: "am_busy ?M m" using assms(2) by (simp add: blocking_memory_def)
  have "i + j \<in> bm_skipped (\<lambda>m. ff_set (sd_ff m)) m" using assms(5,6) unfolding bm_skipped_def by blast
  from sd_blocking.fast_forward_covers [OF m busy assms(3,4) this]
  obtain ms m' r' m2 d where f: "am_ff ?M m = Some ms" "m' \<in> set ms" "serves ?M r' m' m2" "r = r' + d"
    "i + j + d \<in> bm_skipped (\<lambda>m. ff_set (sd_ff m)) m2" by blast
  then obtain i' j' where "i + j + d = i' + j'" "i' \<in> ff_set (sd_ff (bm_memory m2))" "j' \<in> ff_set (bm_ff m2)"
    unfolding bm_skipped_def by blast
  moreover have "bm_fast_forward B Op (sd_memory Op) m = Some ms" using f(1) by (simp add: blocking_memory_def)
  moreover have "i + j + r = i' + j' + r'" using f(4) calculation(1) by linarith
  ultimately show ?thesis using f(2,3) by blast
qed

theorem sdram_fast_forward_covers_witness:
  "\<exists>ms m' r' m\<^sub>2 i' j'.
    bm_fast_forward example_bus example_options (sd_memory example_options)
      \<lparr>bm_memory = \<lparr>sd_phase = ACCESS, sd_time = 6, sd_just_refreshed = None, sd_seen_refresh = False, sd_ff = ff_zero\<rparr>,
       bm_delayed = Some (AInterval 0x40 0x40, LOAD), bm_added = SingleBound 0, bm_ff = ff_zero\<rparr> = Some ms \<and>
    m' \<in> set ms \<and> serves (blocking_memory example_bus example_options (sd_memory example_options)) r' m' m\<^sub>2 \<and>
    i' \<in> ic_gamma True True (sd_ff (bm_memory m\<^sub>2)) \<and> j' \<in> ic_gamma True True (bm_ff m\<^sub>2) \<and> 9 = i' + j' + r'"
proof -
  let ?S = "sd_memory example_options" and ?B = "blocking_memory example_bus example_options (sd_memory example_options)"
  let ?m = "\<lparr>bm_memory = \<lparr>sd_phase = ACCESS, sd_time = 6, sd_just_refreshed = None, sd_seen_refresh = False, sd_ff = ff_zero\<rparr>,
       bm_delayed = Some (AInterval 0x40 0x40, LOAD), bm_added = SingleBound 0, bm_ff = ff_zero\<rparr>"
  have start: "am_reachable ?B (sd_valid example_options) (bm_can_ff example_bus example_options ?S (sd_can_ff example_options)) (bm_init ?S)"
    using am_reachable.Start [of ?B] by (simp add: blocking_memory_def)
  have idle: "\<not> am_busy ?B (bm_init ?S)"
    by (simp add: blocking_memory_def bm_busy_def bm_init_def sd_memory_def sd_busy_def sd_init_def)
  have ann: "am_announce ?B (AInterval 0x40 0x40) LOAD 1 (bm_init ?S) = Some [?m]"
    by (simp add: blocking_memory_def bm_announce_def bm_busy_def bm_init_def sd_memory_def sd_busy_def sd_init_def
        sd_announce_def maxBurstLength_def ic_make_def)
  have reach: "am_reachable ?B (sd_valid example_options) (bm_can_ff example_bus example_options ?S (sd_can_ff example_options)) ?m"
    by (rule am_reachable.Announce [OF start idle example_sd_start(3) ann]) simp
  have busy: "bm_busy ?S ?m" by (simp add: bm_busy_def)
  have ff: "bm_can_ff example_bus example_options ?S (sd_can_ff example_options) ?m"
    by (simp add: bm_can_ff_def sd_memory_def sd_busy_def sd_can_ff_def ff_zero_def ic_make_def)
  have "9 \<in> {r + k | r k. r \<in> {6..13::nat} \<and> k \<le> 3}" by (rule CollectI, rule exI [of _ 6], rule exI [of _ 3]) simp
  then have "9 \<in> bm_rem example_bus example_options ?S (sd_rem example_options) ?m"
    by (simp add: bm_rem_def bm_extra_def sd_memory_def sd_busy_def sd_rem_def)
  then obtain m1 where "serves ?B 9 ?m m1"
    using sd_blocking.rem_serves [OF sd_blocking.reachable_ok [OF reach]] by blast
  from sdram_fast_forward_covers [OF reach busy ff this, of 0 0] show ?thesis by simp
qed

section \<open>Event counters\<close>

text \<open>
  The counters of the wrappers: when an access announced to a memory under both counting wrappers has
  been served in \<open>k\<close> cycles, whichever memory they wrap and whichever case of the splits is followed,
  the access counter has grown by one and the busy-cycle counter by exactly \<open>k\<close> (modulo the width of
  the bounds).
\<close>

theorem access_and_busy_cycle_counts:
  assumes "acc_announce (busy_counter L U J M) addr t n w = Some ws" "w' \<in> set ws"
    and "serves (access_counter L' U' J' (busy_counter L U J M)) k w' w''"
  shows "cm_counter w'' = ic_add (cm_counter w) 1 \<and>
    cm_counter (wm_memory w'') = ic_add (cm_counter (wm_memory w)) (of_nat k)"
proof
  have "cm_counter w' = ic_inc (cm_counter w)" using acc_announce_counter assms(1,2) by blast
  then show "cm_counter w'' = ic_add (cm_counter w) 1"
    using serves_access_counter [OF assms(3)] by (simp add: ic_inc_def)
  have "cm_counter (wm_memory w') = cm_counter (wm_memory w)"
    using assms(1,2) by (auto simp: acc_announce_def wm_announce_def busy_counter_def split: if_splits)
  moreover have "serves (busy_counter L U J M) k (wm_memory w') (wm_memory w'')"
    using serves_counter_inner assms(3) .
  ultimately show "cm_counter (wm_memory w'') = ic_add (cm_counter (wm_memory w)) (of_nat k)"
    using serves_busy_counter [of L U J M k "wm_memory w'" "wm_memory w''"] ic_inc_power by metis
qed

theorem access_and_busy_cycle_counts_witness:
  "\<exists>w''. serves (access_counter True True True (busy_counter True True True (fl_memory \<lparr>flc_latency = 1, flc_per_word = 0\<rparr>))) 1
      \<lparr>wm_memory = \<lparr>wm_memory = \<lparr>fl_time = 1, fl_ff = ff_zero\<rparr>, cm_counter = DoubleBound 0 0\<rparr>, cm_counter = DoubleBound 1 1\<rparr> w'' \<and>
    cm_counter w'' = DoubleBound 1 1 \<and> cm_counter (wm_memory w'') = DoubleBound 1 1"
proof -
  let ?F = "fl_memory \<lparr>flc_latency = 1, flc_per_word = 0\<rparr>"
  let ?B = "busy_counter True True True ?F"
  let ?A = "access_counter True True True ?B"
  let ?w = "\<lparr>wm_memory = \<lparr>wm_memory = \<lparr>fl_time = 0, fl_ff = ff_zero\<rparr>, cm_counter = DoubleBound 0 0\<rparr>, cm_counter = DoubleBound 0 0\<rparr>"
  let ?w' = "\<lparr>wm_memory = \<lparr>wm_memory = \<lparr>fl_time = 1, fl_ff = ff_zero\<rparr>, cm_counter = DoubleBound 0 0\<rparr>, cm_counter = DoubleBound 1 1\<rparr>"
  let ?e = "\<lparr>wm_memory = \<lparr>wm_memory = \<lparr>fl_time = 0, fl_ff = ff_zero\<rparr>, cm_counter = DoubleBound 1 1\<rparr>, cm_counter = DoubleBound 1 1\<rparr>"
  have ann: "acc_announce ?B (AInterval 0 0) LOAD 1 ?w = Some [?w']"
    by (simp add: acc_announce_def wm_announce_def busy_counter_def fl_memory_def fl_busy_def fl_announce_def ic_inc_def)
  have cyc: "am_cycle ?A ?w' = Some [?e]" "am_busy ?A ?w'" "\<not> am_busy ?A ?e"
    by (simp_all add: access_counter_def wm_cycle_def busy_counter_def busy_cycle_def fl_memory_def fl_busy_def fl_cycle_def ic_inc_def)
  have "serves ?A (Suc 0) ?w' ?e"
    by (rule serves.step [OF cyc(2,1), of ?e]) (use cyc(3) in simp_all)
  then have "serves ?A 1 ?w' ?e" by simp
  moreover from access_and_busy_cycle_counts [OF ann _ this] have "cm_counter ?e = DoubleBound 1 1 \<and> cm_counter (wm_memory ?e) = DoubleBound 1 1"
    by simp
  ultimately show ?thesis by blast
qed

section \<open>Errors\<close>

text \<open>
  A memory behind a shared bus, idle in a reachable state, accepts exactly the accesses whose latency
  is positive and fits the signed counter \<open>timeBlocked\<close>; any other access stops at the assertion that
  no memory serves a request in no time.
\<close>

theorem shared_memory_accepts_iff:
  assumes "am_reachable (blocking_memory B Op (fl_memory C)) (fl_valid C) (bm_can_ff B Op (fl_memory C) fl_can_ff) m"
    and "\<not> bm_busy (fl_memory C) m"
  shows "bm_announce (fl_memory C) addr t n m = None \<longleftrightarrow>
    \<not> (0 < unat (flc_latency C + n * flc_per_word C) \<and> unat (flc_latency C + n * flc_per_word C) < 2 ^ 31)"
proof (cases "fl_valid C n")
  case True
  have "\<not> am_busy (blocking_memory B Op (fl_memory C)) m" using assms(2) by (simp add: blocking_memory_def)
  then have "am_announce (blocking_memory B Op (fl_memory C)) addr t n m \<noteq> None"
    using fl_blocking.reachable_defined [OF assms(1)] True by blast
  then show ?thesis using True by (simp add: blocking_memory_def fl_valid_def fl_cycles_def)
next
  case False
  let ?l = "flc_latency C + n * flc_per_word C"
  have "\<not> 0 < sint ?l"
  proof
    assume "0 < sint ?l"
    from unat_of_pos_sint [OF this] False show False by (simp add: fl_valid_def fl_cycles_def)
  qed
  moreover have "\<not> fl_busy (bm_memory m)" using assms(2) by (simp add: bm_busy_def fl_memory_def)
  ultimately have "bm_announce (fl_memory C) addr t n m = None"
    using assms(2) by (simp add: bm_announce_def fl_memory_def fl_announce_def fl_busy_def)
  then show ?thesis using False by (simp add: fl_valid_def fl_cycles_def)
qed

theorem shared_memory_accepts_iff_witness:
  "bm_announce (fl_memory \<lparr>flc_latency = 0, flc_per_word = 0\<rparr>) (AInterval 0 0) LOAD 1
     (bm_init (fl_memory \<lparr>flc_latency = 0, flc_per_word = 0\<rparr>)) = None"
proof -
  let ?F = "fl_memory \<lparr>flc_latency = 0, flc_per_word = 0\<rparr>"
  have r: "am_reachable (blocking_memory example_bus example_options ?F) (fl_valid \<lparr>flc_latency = 0, flc_per_word = 0\<rparr>)
      (bm_can_ff example_bus example_options ?F fl_can_ff) (bm_init ?F)"
    using am_reachable.Start [of "blocking_memory example_bus example_options ?F"] by (simp add: blocking_memory_def)
  have "\<not> bm_busy ?F (bm_init ?F)" by (simp add: bm_busy_def bm_init_def fl_memory_def fl_busy_def fl_init_def)
  from shared_memory_accepts_iff [OF r this, of "AInterval 0 0" LOAD 1] show ?thesis by simp
qed

lemma sd_zero_refresh_run:
  assumes "\<forall>m\<in>set ms. sd_time m = 0" "\<exists>m\<in>set ms. sd_busy m"
  shows "\<exists>ms'. am_run (sd_memory Op) k ms = Some ms' \<and> (\<forall>m\<in>set ms'. sd_time m = 0) \<and> (\<exists>m\<in>set ms'. sd_busy m)"
  using assms
proof (induction k arbitrary: ms)
  case 0
  then show ?case by simp
next
  case (Suc k)
  let ?g = "\<lambda>m. m\<lparr>sd_just_refreshed := None\<rparr>"
  have "those (List.map (sd_cycle Op) ms) = Some (List.map (\<lambda>m. [?g m]) ms)"
    by (rule those_map_Some) (use Suc.prems(1) in \<open>simp add: sd_cycle_def\<close>)
  moreover have "concat (List.map (\<lambda>m. [?g m]) ms) = List.map ?g ms" by (induction ms) auto
  moreover have "\<forall>m\<in>set (List.map ?g ms). sd_time m = 0" "\<exists>m\<in>set (List.map ?g ms). sd_busy m"
    using Suc.prems by (auto simp: sd_busy_def)
  ultimately show ?case using Suc.IH [of "List.map ?g ms"] by (simp add: sd_memory_def)
qed

text \<open>
  With a refresh latency of 0 an SDRAM access need not end: from the last cycle of an access on, one
  of the cases stays in the refresh phase and busy, however many cycles pass.
\<close>

theorem sdram_zero_refresh_never_ends:
  assumes "DRAMRefreshLatency Op = 0" "\<not> comp_dram_refresh Op"
    and "sd_phase m = ACCESS" "sd_time m = 1" "\<not> sd_seen_refresh m"
  shows "\<exists>ms. am_run (sd_memory Op) (Suc k) [m] = Some ms \<and> (\<exists>m'\<in>set ms. sd_busy m')"
proof -
  let ?r = "m\<lparr>sd_just_refreshed := None, sd_time := 0\<rparr>"
  let ?ms = "[?r\<lparr>sd_phase := REFRESH, sd_time := 0, sd_just_refreshed := Some aa_unknown\<rparr>,
    ?r\<lparr>sd_phase := IDLE, sd_seen_refresh := False\<rparr>]"
  have "sd_cycle Op m = Some ?ms" using assms by (simp add: sd_cycle_def Let_def)
  moreover have "\<exists>ms. am_run (sd_memory Op) k ?ms = Some ms \<and> (\<forall>m\<in>set ms. sd_time m = 0) \<and> (\<exists>m'\<in>set ms. sd_busy m')"
    by (rule sd_zero_refresh_run) (simp_all add: sd_busy_def)
  ultimately show ?thesis by (auto simp: sd_memory_def)
qed

theorem sdram_zero_refresh_never_ends_witness:
  "\<exists>ms. am_run (sd_memory (example_options\<lparr>DRAMRefreshLatency := 0\<rparr>)) 1000
      [\<lparr>sd_phase = ACCESS, sd_time = 1, sd_just_refreshed = None, sd_seen_refresh = False, sd_ff = ff_zero\<rparr>] = Some ms \<and>
    (\<exists>m'\<in>set ms. sd_busy m')"
  using sdram_zero_refresh_never_ends [of "example_options\<lparr>DRAMRefreshLatency := 0\<rparr>"
    "\<lparr>sd_phase = ACCESS, sd_time = 1, sd_just_refreshed = None, sd_seen_refresh = False, sd_ff = ff_zero\<rparr>" 999]
  by simp

end
