(* ===== verification/TA_Dirtiness.thy ===== *)
theory TA_Dirtiness
  imports TA_Set_Analysis TA_Ordered_Map
begin

text \<open>
  The dirtiness analysis of a write-back cache set (\<open>include/Memory/DirtinessAnalysis.h\<close>): a must and a
  may analysis, the dirtiness of the tags tracked explicitly, and whether any other cached tag may be
  dirty.  The map \<open>dirtiness\<close> is an ordered map; loops that erase or overwrite entries are a filter or
  a map over its entries.
\<close>

record dirt_state =
  ds_must :: must_state
  ds_may :: may_state
  implicitDirty :: bool
  dirtiness :: "(tag, dirtiness_class) omap"

definition ds_init :: "cache_traits \<Rightarrow> ana_env \<Rightarrow> bool \<Rightarrow> dirt_state" where
  "ds_init T E assumeAnEmptyCache =
     \<lparr>ds_must = must_init assumeAnEmptyCache, ds_may = may_init (ASSOCIATIVITY T) assumeAnEmptyCache,
      implicitDirty = (\<not> AssumeCleanCache E), dirtiness = []\<rparr>"

definition ds_classify :: "cache_traits \<Rightarrow> ana_env \<Rightarrow> dirt_state \<Rightarrow> abs_address \<Rightarrow> classification option" where
  "ds_classify T E s aa =
     (case must_classify T E (ds_must s) aa of None \<Rightarrow> None
      | Some c \<Rightarrow> if c \<noteq> CL_UNKNOWN then Some c else may_classify T E (ds_may s) aa)"

definition deleteDirtiness :: "dirtiness_class \<Rightarrow> (tag, dirtiness_class) omap \<Rightarrow> (tag, dirtiness_class) omap" where
  "deleteDirtiness todel d = filter (\<lambda>(t, c). c \<noteq> todel) d"

definition existsDirtyVictim :: "cache_traits \<Rightarrow> dirt_state \<Rightarrow> bool" where
  "existsDirtyVictim T s \<longleftrightarrow> implicitDirty s \<or>
     list_ex (\<lambda>(t, c). c \<noteq> DCL_CLEAN \<and> must_get_max_age T (ds_must s) t = ASSOCIATIVITY T) (dirtiness s)"

text \<open>The dirtiness of a tag without an entry.\<close>

definition default_dirtiness :: "bool \<Rightarrow> dirtiness_class" where
  "default_dirtiness implicit = (if implicit then DCL_UNKNOWN else DCL_CLEAN)"

text \<open>
  The arguments are the contents of the two reports.  \<open>None\<close> is the assertion marked unreachable.
\<close>

definition incorporateMustMayUpdates ::
  "cache_traits \<Rightarrow> tag set \<Rightarrow> tag set \<Rightarrow> bool \<Rightarrow> dirt_state \<Rightarrow> dirt_state option" where
  "incorporateMustMayUpdates T mustEvicted mayEvicted justEvicted s =
     (let s1 = (if justEvicted
                then s\<lparr>implicitDirty := False,
                       dirtiness := filter (\<lambda>(t, c). c \<noteq> DCL_CLEAN \<and> getMinAge (ds_may s) t \<noteq> ASSOCIATIVITY T)
                         (dirtiness s)\<rparr>
                else s);
          s2 = s1\<lparr>dirtiness := List.map (\<lambda>(t, c). (t, if t \<in> mustEvicted \<and> c = DCL_DIRTY then DCL_UNKNOWN else c))
                    (dirtiness s1)\<rparr>
      in if implicitDirty s2 \<and> mayEvicted \<noteq> {} then None
         else Some (s2\<lparr>dirtiness := filter (\<lambda>(t, c). t \<notin> mayEvicted) (dirtiness s2)\<rparr>))"

definition ds_update ::
  "cache_traits \<Rightarrow> ana_env \<Rightarrow> dirt_state \<Rightarrow> abs_address \<Rightarrow> access_type \<Rightarrow> bool \<Rightarrow> classification \<Rightarrow>
     (dirt_state \<times> update_report option) option" where
  "ds_update T E s aa load_store wantReport assumption =
     (case aa_getTag T E aa of None \<Rightarrow> None
      | Some t \<Rightarrow>
          let d1 = omap_insert t (default_dirtiness (implicitDirty s)) (dirtiness s);
              dirtifying = (load_store = STORE \<and> map_of d1 t \<noteq> Some DCL_DIRTY);
              d2 = (if load_store = STORE then omap_set t DCL_DIRTY d1 else d1)
          in case (must_update T E (ds_must s) aa load_store True assumption,
                   may_update T E (ds_may s) aa load_store True assumption) of
               (Some (must', Some (MustReport mustEvicted)), Some (may', Some (MayReport mayEvicted justEvicted _))) \<Rightarrow>
                 let s1 = s\<lparr>ds_must := must', ds_may := may', dirtiness := d2\<rparr>
                 in map_option (\<lambda>s2. (s2, if wantReport then Some (WritebackReport (existsDirtyVictim T s1) dirtifying) else None))
                      (incorporateMustMayUpdates T mustEvicted mayEvicted justEvicted s1)
             | _ \<Rightarrow> None)"

definition dirt_maxWorthwhileTags :: "32 word" where "dirt_maxWorthwhileTags = 4"

text \<open>One round of the loop over the tags of a potential access.\<close>

definition potential_tag ::
  "bool \<Rightarrow> access_type \<Rightarrow> tag \<Rightarrow> (tag, dirtiness_class) omap \<times> bool \<Rightarrow> (tag, dirtiness_class) omap \<times> bool" where
  "potential_tag implicit load_store t p =
     (let d1 = omap_insert t (default_dirtiness implicit) (fst p)
      in case map_of d1 t of
           None \<Rightarrow> p
         | Some c \<Rightarrow>
             if load_store = STORE then (omap_set t (bs_join c DCL_DIRTY) d1, snd p \<or> c \<noteq> DCL_DIRTY)
             else (d1, snd p))"

definition potential_tags ::
  "bool \<Rightarrow> access_type \<Rightarrow> tag list \<Rightarrow> (tag, dirtiness_class) omap \<Rightarrow> (tag, dirtiness_class) omap \<times> bool" where
  "potential_tags implicit load_store ts d = fold (potential_tag implicit load_store) ts (d, False)"

text \<open>The loop from \<open>lowTag\<close> to \<open>highTag\<close> does not end if \<open>highTag\<close> is the greatest tag: \<open>None\<close>.\<close>

definition ds_potential_update ::
  "cache_traits \<Rightarrow> ana_env \<Rightarrow> dirt_state \<Rightarrow> abs_address \<Rightarrow> access_type \<Rightarrow> bool \<Rightarrow>
     (dirt_state \<times> update_report option) option" where
  "ds_potential_update T E s aa load_store wantReport =
     (case (must_potential_update T (ds_must s) aa load_store True,
            may_potential_update T E (ds_may s) aa load_store True) of
        ((must', Some (MustReport mustEvicted)), Some (may', Some (MayReport mayEvicted justEvicted _))) \<Rightarrow>
          let s1 = s\<lparr>ds_must := must', ds_may := may'\<rparr>;
              report = (\<lambda>dirtifying. if wantReport then Some (WritebackReport (existsDirtyVictim T s1) dirtifying) else None)
          in case incorporateMustMayUpdates T mustEvicted mayEvicted justEvicted s1 of
               None \<Rightarrow> None
             | Some s2 \<Rightarrow>
                 let lowTag = getTag T (aa_lower E aa); highTag = getTag T (aa_upper E aa);
                     numTags = highTag - lowTag + 1
                 in if numTags > dirt_maxWorthwhileTags then
                      if load_store = STORE
                      then Some (s2\<lparr>implicitDirty := True, dirtiness := deleteDirtiness DCL_CLEAN (dirtiness s2)\<rparr>, report True)
                      else Some (s2, report False)
                    else if highTag = - 1 then None
                    else let (d, dirtifying) = potential_tags (implicitDirty s2) load_store (tag_range lowTag highTag) (dirtiness s2)
                         in Some (s2\<lparr>dirtiness := d\<rparr>, report dirtifying)
      | _ \<Rightarrow> None)"

text \<open>The merge of the two maps in \<open>join\<close>; a tag that only one of them has takes the other's default.\<close>

fun dirt_join_loop ::
  "bool \<Rightarrow> bool \<Rightarrow> (tag, dirtiness_class) omap \<Rightarrow> (tag, dirtiness_class) omap \<Rightarrow> (tag, dirtiness_class) omap" where
  "dirt_join_loop ix iy [] [] = []"
| "dirt_join_loop ix iy ((t, c) # xs) [] = (t, bs_join c (default_dirtiness iy)) # dirt_join_loop ix iy xs []"
| "dirt_join_loop ix iy [] ((u, e) # ys) = (u, bs_join (default_dirtiness ix) e) # dirt_join_loop ix iy [] ys"
| "dirt_join_loop ix iy ((t, c) # xs) ((u, e) # ys) =
     (if t = u then (t, bs_join c e) # dirt_join_loop ix iy xs ys
      else if t < u then (t, bs_join c (default_dirtiness iy)) # dirt_join_loop ix iy xs ((u, e) # ys)
      else (u, bs_join (default_dirtiness ix) e) # dirt_join_loop ix iy ((t, c) # xs) ys)"

definition ds_join :: "dirt_state \<Rightarrow> dirt_state \<Rightarrow> dirt_state" where
  "ds_join x y =
     \<lparr>ds_must = must_join (ds_must x) (ds_must y), ds_may = may_join (ds_may x) (ds_may y),
      implicitDirty = (implicitDirty x \<or> implicitDirty y),
      dirtiness = dirt_join_loop (implicitDirty x) (implicitDirty y) (dirtiness x) (dirtiness y)\<rparr>"

definition ds_eq :: "dirt_state \<Rightarrow> dirt_state \<Rightarrow> bool" where
  "ds_eq x y \<longleftrightarrow> implicitDirty x = implicitDirty y \<and> dirtiness x = dirtiness y \<and>
     must_eq (ds_must x) (ds_must y) \<and> may_eq (ds_may x) (ds_may y)"

definition ds_lessequal :: "dirt_state \<Rightarrow> dirt_state \<Rightarrow> bool" where
  "ds_lessequal x y = ds_eq (ds_join x y) y"

definition ds_less :: "dirt_state \<Rightarrow> dirt_state \<Rightarrow> bool" where
  "ds_less x y =
     (if implicitDirty x \<noteq> implicitDirty y then implicitDirty x < implicitDirty y
      else if dirtiness x \<noteq> dirtiness y then omap_less bs_less (dirtiness x) (dirtiness y)
      else if \<not> must_eq (ds_must x) (ds_must y) then must_less (ds_must x) (ds_must y)
      else may_less (ds_may x) (ds_may y))"

definition ds_enter :: "cache_traits \<Rightarrow> ana_env \<Rightarrow> scope \<Rightarrow> dirt_state \<Rightarrow> dirt_state" where
  "ds_enter T E sc s = s\<lparr>ds_must := sa_enter (must_analysis T E) sc (ds_must s),
     ds_may := sa_enter (may_analysis T E) sc (ds_may s)\<rparr>"

definition ds_leave :: "cache_traits \<Rightarrow> ana_env \<Rightarrow> scope \<Rightarrow> dirt_state \<Rightarrow> dirt_state" where
  "ds_leave T E sc s = s\<lparr>ds_must := sa_leave (must_analysis T E) sc (ds_must s),
     ds_may := sa_leave (may_analysis T E) sc (ds_may s)\<rparr>"

definition ds_pers_tag :: "cache_traits \<Rightarrow> ana_env \<Rightarrow> dirt_state \<Rightarrow> tag \<Rightarrow> scope set" where
  "ds_pers_tag T E s t = sa_pers_tag (must_analysis T E) (ds_must s) t \<union> sa_pers_tag (may_analysis T E) (ds_may s) t"

definition ds_pers_var :: "cache_traits \<Rightarrow> ana_env \<Rightarrow> dirt_state \<Rightarrow> gvar \<Rightarrow> scope set" where
  "ds_pers_var T E s g = sa_pers_var (must_analysis T E) (ds_must s) g \<union> sa_pers_var (may_analysis T E) (ds_may s) g"

definition dirt_analysis :: "cache_traits \<Rightarrow> ana_env \<Rightarrow> (dirt_state, unit) set_analysis" where
  "dirt_analysis T E =
     \<lparr>sa_init = ds_init T E, sa_classify = ds_classify T E, sa_get_age = (\<lambda>_ _. Some (-1)),
      sa_css_tag = (\<lambda>_ _. -1), sa_css_var = (\<lambda>_ _. -1),
      sa_update = (\<lambda>s aa ls _ rep c. ds_update T E s aa ls rep c),
      sa_potential = ds_potential_update T E, sa_join = ds_join, sa_lessequal = ds_lessequal,
      sa_enter = ds_enter T E, sa_leave = ds_leave T E, sa_pers_tag = ds_pers_tag T E,
      sa_pers_var = ds_pers_var T E, sa_eq = ds_eq, sa_less = ds_less\<rparr>"

text \<open>\<open>checkInvariants\<close>, run in debug builds.\<close>

definition ds_check :: "cache_traits \<Rightarrow> dirt_state \<Rightarrow> bool" where
  "ds_check T s \<longleftrightarrow> list_all (\<lambda>(t, c).
     \<not> (c = DCL_DIRTY \<and> must_get_max_age T (ds_must s) t = ASSOCIATIVITY T) \<and>
     \<not> (c \<noteq> DCL_CLEAN \<and> getMinAge (ds_may s) t = ASSOCIATIVITY T)) (dirtiness s)"

end
