(* ===== verification/TA_Dirtiness_Sound.thy ===== *)
theory TA_Dirtiness_Sound
  imports TA_Dirtiness
begin

text \<open>
  Soundness of the dirtiness analysis against a write-back, write-allocate LRU set: its state is the
  set and the dirty tags among the cached ones.  The invariant contains what \<open>checkInvariants\<close>
  asserts; a dirty tag without an entry is at least as old as the implicit tags of the may analysis,
  which is why the code may forget \<open>implicitDirty\<close> when they are evicted.
\<close>

section \<open>The set with dirty bits\<close>

type_synonym dirty_set = "lru_set \<times> tag set"

definition dirty_access :: "nat \<Rightarrow> tag \<Rightarrow> access_type \<Rightarrow> dirty_set \<Rightarrow> dirty_set" where
  "dirty_access A t ls p =
     (let q' = lru_access A t (fst p)
      in (q', ((if ls = STORE then insert t (snd p) else snd p) \<inter> set q')))"

text \<open>The access evicts a dirty line; the access makes a clean line dirty.\<close>

definition writes_back :: "nat \<Rightarrow> tag \<Rightarrow> dirty_set \<Rightarrow> bool" where
  "writes_back A t p \<longleftrightarrow> (\<exists>v \<in> snd p. v \<notin> set (lru_access A t (fst p)))"

definition dirties :: "tag \<Rightarrow> access_type \<Rightarrow> dirty_set \<Rightarrow> bool" where
  "dirties t ls p \<longleftrightarrow> ls = STORE \<and> t \<notin> snd p"

section \<open>Invariant and meaning\<close>

abbreviation dcl_ok :: "dirtiness_class \<Rightarrow> bool" where
  "dcl_ok c \<equiv> c = DCL_DIRTY \<or> c = DCL_CLEAN \<or> c = DCL_UNKNOWN"

definition dirt_map_ok :: "nat \<Rightarrow> must_state \<Rightarrow> may_state \<Rightarrow> (tag, dirtiness_class) omap \<Rightarrow> bool" where
  "dirt_map_ok A m y d \<longleftrightarrow> omap_wf d \<and>
     (\<forall>u c. map_of d u = Some c \<longrightarrow> dcl_ok c \<and> (c = DCL_DIRTY \<longrightarrow> u \<in> set (keys m)) \<and>
        (c \<noteq> DCL_CLEAN \<longrightarrow> getMinAge y u < A))"

definition dirt_wf :: "nat \<Rightarrow> dirt_state \<Rightarrow> bool" where
  "dirt_wf A s \<longleftrightarrow> must_wf A (ds_must s) \<and> may_wf A (ds_may s) \<and>
     dirt_map_ok A (ds_must s) (ds_may s) (dirtiness s) \<and>
     (implicitDirty s \<longrightarrow> ageOfImplicitTags (ds_may s) < A)"

text \<open>
  \<open>map_describes i imp d q D\<close>: the map and the implicit flag describe the dirty tags \<open>D\<close> of the set \<open>q\<close>.
\<close>

definition map_describes :: "bool \<Rightarrow> way \<Rightarrow> (tag, dirtiness_class) omap \<Rightarrow> lru_set \<Rightarrow> tag set \<Rightarrow> bool" where
  "map_describes i imp d q D \<longleftrightarrow>
     (\<forall>u \<in> D. case map_of d u of Some c \<Rightarrow> c \<noteq> DCL_CLEAN | None \<Rightarrow> i \<and> imp \<le> lru_age q u) \<and>
     (\<forall>u. map_of d u = Some DCL_DIRTY \<longrightarrow> u \<in> D)"

definition dirt_gamma :: "nat \<Rightarrow> dirt_state \<Rightarrow> dirty_set set" where
  "dirt_gamma A s = {p. fst p \<in> must_gamma A (ds_must s) \<and> fst p \<in> may_gamma A (ds_may s) \<and>
     snd p \<subseteq> set (fst p) \<and>
     map_describes (implicitDirty s) (ageOfImplicitTags (ds_may s)) (dirtiness s) (fst p) (snd p)}"

lemma map_of_filter_key:
  "distinct (keys d) \<Longrightarrow> map_of (filter (\<lambda>(t, c). P t c) d) u =
     (case map_of d u of None \<Rightarrow> None | Some c \<Rightarrow> if P u c then Some c else None)"
proof (induction d)
  case Nil
  then show ?case by simp
next
  case (Cons e d)
  obtain t c where e: "e = (t, c)" by (cases e)
  have "map_of d t = None" using Cons.prems e by (simp add: map_of_eq_None_iff image_iff)
  then show ?case using Cons e by (auto split: option.splits)
qed

lemma map_of_map_values: "map_of (List.map (\<lambda>(t, c). (t, f t c)) d) u = map_option (f u) (map_of d u)"
  by (induction d) auto

lemma omap_wf_filter: "omap_wf d \<Longrightarrow> omap_wf (filter P d)"
  by (induction d) (auto simp: omap_wf_def)

lemma omap_wf_map_values: "omap_wf d \<Longrightarrow> omap_wf (List.map (\<lambda>(t, c). (t, f t c)) d)"
proof -
  have "keys (List.map (\<lambda>(t, c). (t, f t c)) d) = keys d" by (induction d) auto
  then show "omap_wf d \<Longrightarrow> ?thesis" unfolding omap_wf_def by (simp only:)
qed

text \<open>The debug assertions are part of the invariant.\<close>

lemma dirt_wf_check:
  assumes "dirt_wf (ASSOCIATIVITY T) s"
  shows "ds_check T s"
  unfolding ds_check_def list_all_iff
proof (clarify, goal_cases)
  case (1 t c)
  have "distinct (keys (dirtiness s))" using assms by (simp add: dirt_wf_def dirt_map_ok_def omap_wf_distinct)
  then have mc: "map_of (dirtiness s) t = Some c" using 1 by simp
  have "must_get_max_age T (ds_must s) t \<noteq> ASSOCIATIVITY T" if "c = DCL_DIRTY"
  proof -
    have "t \<in> set (keys (ds_must s))" using assms mc that by (simp add: dirt_wf_def dirt_map_ok_def)
    then obtain a where "map_of (ds_must s) t = Some a"
      by (cases "map_of (ds_must s) t") (auto simp: map_of_eq_None_iff)
    moreover have "must_wf (ASSOCIATIVITY T) (ds_must s)" using assms by (simp add: dirt_wf_def)
    ultimately show ?thesis using must_age_less by (auto simp: must_get_max_age_def)
  qed
  moreover have "getMinAge (ds_may s) t \<noteq> ASSOCIATIVITY T" if "c \<noteq> DCL_CLEAN"
    using assms mc that unfolding dirt_wf_def dirt_map_ok_def by fastforce
  ultimately show ?case by blast
qed

section \<open>Incorporating the reports\<close>

text \<open>
  What an access \<open>t\<close> does to the two analyses and their reports, as far as the dirtiness needs it;
  a potential access is covered with the empty may report.
\<close>

definition reports_ok ::
  "nat \<Rightarrow> must_state \<Rightarrow> may_state \<Rightarrow> must_state \<Rightarrow> may_state \<Rightarrow> tag set \<Rightarrow> tag set \<Rightarrow> bool \<Rightarrow> bool" where
  "reports_ok A m y m' y' mev yev just \<longleftrightarrow>
     (\<forall>u \<in> set (keys m). u \<notin> mev \<longrightarrow> u \<in> set (keys m')) \<and>
     yev = {u. getMinAge y u < ageOfImplicitTags y \<and> getMinAge y' u = A} \<and>
     (just \<longleftrightarrow> ageOfImplicitTags y < A \<and> ageOfImplicitTags y' = A)"

definition incorporated :: "nat \<Rightarrow> may_state \<Rightarrow> tag set \<Rightarrow> tag set \<Rightarrow> bool \<Rightarrow> (tag, dirtiness_class) omap \<Rightarrow> tag \<Rightarrow> dirtiness_class option" where
  "incorporated A y' mev yev just d u =
     (case map_of d u of None \<Rightarrow> None
      | Some c \<Rightarrow> if (just \<and> (c = DCL_CLEAN \<or> getMinAge y' u = A)) \<or> u \<in> yev then None
                  else Some (if u \<in> mev \<and> c = DCL_DIRTY then DCL_UNKNOWN else c))"

lemma explicit_below:
  assumes "may_wf A y" "getMinAge y u = A"
  shows "ageOfImplicitTags y = A"
  using assms may_wf_age_less [OF assms(1), of u] by (fastforce simp: getMinAge_def may_wf_def split: option.splits)

lemma incorporate_spec:
  assumes y: "may_wf A y" "may_wf A (ds_may s)" and A: "A = ASSOCIATIVITY T"
    and r: "reports_ok A m y m' (ds_may s) mev yev just"
    and i: "implicitDirty s \<longrightarrow> ageOfImplicitTags y < A" and d: "omap_wf (dirtiness s)"
  shows "\<exists>s'. incorporateMustMayUpdates T mev yev just s = Some s' \<and> ds_must s' = ds_must s \<and> ds_may s' = ds_may s \<and>
    implicitDirty s' = (implicitDirty s \<and> \<not> just) \<and> omap_wf (dirtiness s') \<and>
    map_of (dirtiness s') = incorporated A (ds_may s) mev yev just (dirtiness s)"
proof -
  let ?s1 = "if just then s\<lparr>implicitDirty := False,
      dirtiness := filter (\<lambda>(t, c). c \<noteq> DCL_CLEAN \<and> getMinAge (ds_may s) t \<noteq> A) (dirtiness s)\<rparr> else s"
  let ?d2 = "List.map (\<lambda>(t, c). (t, if t \<in> mev \<and> c = DCL_DIRTY then DCL_UNKNOWN else c)) (dirtiness ?s1)"
  have "\<not> (implicitDirty ?s1 \<and> yev \<noteq> {})"
  proof
    assume h: "implicitDirty ?s1 \<and> yev \<noteq> {}"
    then obtain u where "getMinAge (ds_may s) u = A" using r by (auto simp: reports_ok_def)
    then have "ageOfImplicitTags (ds_may s) = A" using explicit_below y(2) by blast
    then show False using h r i by (auto simp: reports_ok_def split: if_splits)
  qed
  then have inc: "incorporateMustMayUpdates T mev yev just s =
      Some (?s1\<lparr>dirtiness := filter (\<lambda>(t, c). t \<notin> yev) ?d2\<rparr>)"
    by (simp add: incorporateMustMayUpdates_def A Let_def)
  have wf1: "omap_wf (dirtiness ?s1)" using d omap_wf_filter by auto
  then have wf2: "omap_wf ?d2" by (rule omap_wf_map_values)
  have m1: "map_of (dirtiness ?s1) u = (case map_of (dirtiness s) u of None \<Rightarrow> None
      | Some c \<Rightarrow> if just \<and> (c = DCL_CLEAN \<or> getMinAge (ds_may s) u = A) then None else Some c)" for u
    using map_of_filter_key [OF omap_wf_distinct [OF d]] by (auto split: option.splits)
  have m2: "map_of ?d2 u = map_option (\<lambda>c. if u \<in> mev \<and> c = DCL_DIRTY then DCL_UNKNOWN else c) (map_of (dirtiness ?s1) u)" for u
    by (rule map_of_map_values)
  have "map_of (filter (\<lambda>(t, c). t \<notin> yev) ?d2) u = incorporated A (ds_may s) mev yev just (dirtiness s) u" for u
    unfolding map_of_filter_key [OF omap_wf_distinct [OF wf2]] m2 m1
    by (auto simp: incorporated_def split: option.splits)
  then show ?thesis unfolding inc using omap_wf_filter [OF wf2] by (auto simp: fun_eq_iff)
qed

text \<open>The invariant of the map survives.\<close>

lemma incorporated_ok:
  assumes y: "may_wf A y" "may_wf A y'" and r: "reports_ok A m y m' y' mev yev just"
    and i: "i \<longrightarrow> ageOfImplicitTags y < A"
    and d: "\<And>u c. map_of d u = Some c \<Longrightarrow> dcl_ok c \<and> (c = DCL_DIRTY \<longrightarrow> u \<in> set (keys m) \<or> u \<in> set (keys m')) \<and>
      (c \<noteq> DCL_CLEAN \<longrightarrow> getMinAge y u < A \<or> getMinAge y' u < A)"
    and d': "\<And>u. map_of d' u = incorporated A y' mev yev just d u" "omap_wf d'"
  shows "dirt_map_ok A m' y' d' \<and> (i \<and> \<not> just \<longrightarrow> ageOfImplicitTags y' < A)"
proof
  show "i \<and> \<not> just \<longrightarrow> ageOfImplicitTags y' < A"
    using r i y(2) by (auto simp: reports_ok_def may_wf_def)
  have "dcl_ok c' \<and> (c' = DCL_DIRTY \<longrightarrow> u \<in> set (keys m')) \<and> (c' \<noteq> DCL_CLEAN \<longrightarrow> getMinAge y' u < A)"
    if u: "map_of d' u = Some c'" for u c'
  proof -
    obtain c where c: "map_of d u = Some c" "\<not> (just \<and> (c = DCL_CLEAN \<or> getMinAge y' u = A))" "u \<notin> yev"
      "c' = (if u \<in> mev \<and> c = DCL_DIRTY then DCL_UNKNOWN else c)"
      using u unfolding d' incorporated_def by (auto split: option.splits if_splits)
    note old = d [OF c(1)]
    have "u \<in> set (keys m')" if "c' = DCL_DIRTY"
    proof -
      have "c = DCL_DIRTY" "u \<notin> mev" using c(4) that by (auto split: if_splits)
      then show ?thesis using old r unfolding reports_ok_def by blast
    qed
    moreover have "getMinAge y' u < A" if "c' \<noteq> DCL_CLEAN"
    proof (rule ccontr)
      assume "\<not> getMinAge y' u < A"
      moreover have le: "getMinAge y' u \<le> ageOfImplicitTags y'" "ageOfImplicitTags y' \<le> A"
        using y(2) getMinAge_le by (auto simp: may_wf_def)
      ultimately have eq: "getMinAge y' u = A" "ageOfImplicitTags y' = A" by auto
      have nc: "c \<noteq> DCL_CLEAN" using c(4) that by auto
      then have lt: "getMinAge y u < A" using old eq(1) by auto
      have "\<not> just" using c(2) eq(1) by blast
      then have "\<not> ageOfImplicitTags y < A" using r eq(2) unfolding reports_ok_def by blast
      then have "u \<in> yev" using r lt eq(1) unfolding reports_ok_def by auto
      then show False using c(3) by blast
    qed
    ultimately show ?thesis using old c(4) by auto
  qed
  then show "dirt_map_ok A m' y' d'" using d'(2) unfolding dirt_map_ok_def by blast
qed

text \<open>And what it describes: \<open>q'\<close> is any later set, in which no dirty tag is younger than before.\<close>

lemma incorporated_describes:
  assumes y: "may_wf A y'" and r: "reports_ok A m y m' y' mev yev just" and q': "q' \<in> may_gamma A y'" "q' \<in> must_gamma A m'"
    and D': "D' \<subseteq> set q'"
    and cover: "\<And>u. u \<in> D' \<Longrightarrow> case map_of d u of Some c \<Rightarrow> c \<noteq> DCL_CLEAN
        | None \<Rightarrow> i \<and> ageOfImplicitTags y' \<le> lru_age q' u"
    and dirty: "\<And>u. map_of d u = Some DCL_DIRTY \<Longrightarrow> u \<in> set (keys m) \<or> u \<in> set (keys m') \<Longrightarrow> u \<in> set q' \<Longrightarrow> u \<in> D'"
    and dm: "\<And>u. map_of d u = Some DCL_DIRTY \<Longrightarrow> u \<in> set (keys m) \<or> u \<in> set (keys m')"
    and d': "\<And>u. map_of d' u = incorporated A y' mev yev just d u"
  shows "map_describes (i \<and> \<not> just) (ageOfImplicitTags y') d' q' D'"
  unfolding map_describes_def
proof (intro conjI ballI allI impI)
  have len: "lru_wf A q'" using q'(1) by (simp add: may_gamma_def)
  fix u assume u: "u \<in> D'"
  have age: "lru_age q' u < A" using lru_age_less [of u q'] u D' len by (force simp: lru_wf_def)
  have min: "getMinAge y' u \<le> lru_age q' u" using q'(1) u D' by (auto simp: may_gamma_def)
  show "case map_of d' u of Some c \<Rightarrow> c \<noteq> DCL_CLEAN | None \<Rightarrow> (i \<and> \<not> just) \<and> ageOfImplicitTags y' \<le> lru_age q' u"
  proof (cases "map_of d u")
    case None
    then have "i" "ageOfImplicitTags y' \<le> lru_age q' u" using cover [OF u] by simp_all
    moreover from this have "\<not> just" using age r by (auto simp: reports_ok_def)
    ultimately show ?thesis using None by (simp add: d' incorporated_def)
  next
    case (Some c)
    then have "c \<noteq> DCL_CLEAN" using cover [OF u] by simp
    moreover have "getMinAge y' u \<noteq> A" "u \<notin> yev" using min age r by (auto simp: reports_ok_def)
    ultimately show ?thesis using Some by (simp add: d' incorporated_def)
  qed
next
  fix u assume "map_of d' u = Some DCL_DIRTY"
  then have u: "map_of d u = Some DCL_DIRTY" "u \<notin> mev"
    unfolding d' incorporated_def by (auto split: option.splits if_splits)
  then have "u \<in> set (keys m')" using dm r unfolding reports_ok_def by blast
  then have "u \<in> set q'" using q'(2) by (auto simp: must_gamma_def)
  then show "u \<in> D'" using dirty u(1) dm by blast
qed

section \<open>Accesses\<close>

lemma must_update_reports:
  assumes "must_wf A m" "0 < A" "A \<le> 255" "q \<in> must_gamma A m" "hit \<Longrightarrow> t \<in> set q"
  shows "\<exists>m' mev. must_update_entries A t hit m = Some (m', mev) \<and> must_wf A m' \<and> lru_access A t q \<in> must_gamma A m' \<and>
    t \<in> set (keys m') \<and> (\<forall>u \<in> set (keys m). u \<notin> mev \<longrightarrow> u \<in> set (keys m'))"
proof -
  have key: "u \<in> set (keys es) \<longleftrightarrow> map_of es u \<noteq> None" for u and es :: must_state
    by (simp add: map_of_eq_None_iff)
  have room: "hit \<Longrightarrow> t \<in> set (keys m) \<or> length m < A"
  proof (rule ccontr)
    assume h: hit "\<not> (t \<in> set (keys m) \<or> length m < A)"
    have "set (keys m) \<subseteq> set q" using assms(4) by (auto simp: must_gamma_def)
    moreover have "card (set (keys m)) = length m" using distinct_card [OF must_wfD(1) [OF assms(1)]] by simp
    moreover have "lru_wf A q" using assms(4) by (simp add: must_gamma_def)
    ultimately have "t \<in> set (keys m)" using lru_full_only [of A q "set (keys m)" t] assms(5) h by simp
    then show False using h(2) by blast
  qed
  obtain m' where m': "must_update_entries A t hit m =
      Some (m', if t \<in> set (keys m) \<or> hit then {} else {u. map_of m u = Some (A - 1)})"
    "must_wf A m'" "map_of m' = must_spec_update A t hit (map_of m)"
    using must_update_entries_refines [OF assms(1-3) room] by blast
  obtain n ev where "must_update_entries A t hit m = Some (n, ev)" "lru_access A t q \<in> must_gamma A n"
    using must_update_gamma [OF assms] by blast
  then have g: "lru_access A t q \<in> must_gamma A m'" using m'(1) by simp
  have "u \<in> set (keys m')" if u: "u \<in> set (keys m)" "u \<notin> (if t \<in> set (keys m) \<or> hit then {} else {u. map_of m u = Some (A - 1)})" for u
  proof -
    obtain a where a: "map_of m u = Some a" using u(1) key by blast
    then have "a < A" using must_age_less [OF assms(1)] by blast
    moreover have "must_spec_age A (map_of m) t hit < A \<or> a \<noteq> A - 1"
    proof (cases "t \<in> set (keys m) \<or> hit")
      case True
      then show ?thesis using must_age_less [OF assms(1)] key [of t m] assms(2)
        by (auto simp: must_spec_age_def split: option.splits)
    next
      case False
      then show ?thesis using u(2) a by auto
    qed
    ultimately have "map_of m' u \<noteq> None" unfolding m'(3) using a by (auto simp: must_spec_update_def Let_def)
    then show ?thesis using key by blast
  qed
  moreover have "map_of m' t \<noteq> None" unfolding m'(3) by (simp add: must_spec_update_def)
  then have "t \<in> set (keys m')" using key by blast
  ultimately show ?thesis using m'(1,2) g by blast
qed

lemma implicit_age:
  assumes "may_wf A y" "0 < A" "A \<le> 255" "may_update_entries A t y = (y', yev, just)" "q \<in> may_gamma A y"
    and "u \<noteq> t" "u \<in> set (lru_access A t q)" "ageOfImplicitTags y \<le> lru_age q u"
  shows "ageOfImplicitTags y' \<le> lru_age (lru_access A t q) u"
proof -
  have q: "lru_wf A q" "t \<in> set q \<Longrightarrow> getMinAge y t \<le> lru_age q t" using assms(5) by (auto simp: may_gamma_def)
  have "lru_age (lru_access A t q) u = lru_next_age q t u"
    using lru_access_other [OF q(1) assms(6)] assms(7) by blast
  then show ?thesis
    using may_update_entries_refines(2) [OF assms(1-4)] q(2) assms(8)
    by (auto simp: may_new_imp_def lru_next_age_def)
qed

lemma existsDirtyVictim_covers:
  assumes "must_wf (ASSOCIATIVITY T) (ds_must s)" "q' \<in> must_gamma (ASSOCIATIVITY T) (ds_must s)" "v \<notin> set q'"
    and "case map_of (dirtiness s) v of Some c \<Rightarrow> c \<noteq> DCL_CLEAN | None \<Rightarrow> implicitDirty s"
  shows "existsDirtyVictim T s"
proof (cases "map_of (dirtiness s) v")
  case None
  then show ?thesis using assms(4) by (simp add: existsDirtyVictim_def)
next
  case (Some c)
  then have "(v, c) \<in> set (dirtiness s)" "c \<noteq> DCL_CLEAN" using map_of_SomeD assms(4) by auto
  moreover have "map_of (ds_must s) v = None"
    using assms(2,3) by (auto simp: must_gamma_def map_of_eq_None_iff)
  then have "must_get_max_age T (ds_must s) v = ASSOCIATIVITY T" by (simp add: must_get_max_age_def)
  ultimately show ?thesis unfolding existsDirtyVictim_def list_ex_iff by blast
qed

text \<open>
  An update returns, keeps the invariant, describes the set after the access, and its report covers a
  write-back and a line that becomes dirty.
\<close>

lemma ds_update_sound:
  assumes T: "traits_ok T" and s: "dirt_wf (ASSOCIATIVITY T) s" and p: "p \<in> dirt_gamma (ASSOCIATIVITY T) s"
    and t: "aa_getTag T E aa = Some t" and hit: "must_assumes_hit T c \<Longrightarrow> t \<in> set (fst p)"
  shows "\<exists>s' wb di. ds_update T E s aa ls rep c = Some (s', if rep then Some (WritebackReport wb di) else None) \<and>
    dirt_wf (ASSOCIATIVITY T) s' \<and> dirty_access (ASSOCIATIVITY T) t ls p \<in> dirt_gamma (ASSOCIATIVITY T) s' \<and>
    (writes_back (ASSOCIATIVITY T) t p \<longrightarrow> wb) \<and> (dirties t ls p \<longrightarrow> di)"
proof -
  let ?A = "ASSOCIATIVITY T" and ?q = "fst p" and ?D = "snd p"
  let ?q' = "lru_access ?A t ?q"
  let ?D' = "(if ls = STORE then insert t ?D else ?D) \<inter> set ?q'"
  have A: "0 < ?A" "?A \<le> 255" using traits_ok_assoc [OF T] by auto
  have wf: "must_wf ?A (ds_must s)" "may_wf ?A (ds_may s)" "dirt_map_ok ?A (ds_must s) (ds_may s) (dirtiness s)"
    "implicitDirty s \<longrightarrow> ageOfImplicitTags (ds_may s) < ?A" using s by (auto simp: dirt_wf_def)
  have g: "?q \<in> must_gamma ?A (ds_must s)" "?q \<in> may_gamma ?A (ds_may s)" "?D \<subseteq> set ?q"
    "map_describes (implicitDirty s) (ageOfImplicitTags (ds_may s)) (dirtiness s) ?q ?D"
    using p by (auto simp: dirt_gamma_def)
  obtain m' mev where m': "must_update_entries ?A t (must_assumes_hit T c) (ds_must s) = Some (m', mev)"
    "must_wf ?A m'" "?q' \<in> must_gamma ?A m'" "t \<in> set (keys m')" "\<forall>u \<in> set (keys (ds_must s)). u \<notin> mev \<longrightarrow> u \<in> set (keys m')"
    using must_update_reports [OF wf(1) A g(1) hit] by blast
  obtain y' yev just where yu: "may_update_entries ?A t (ds_may s) = (y', yev, just)"
    by (cases "may_update_entries ?A t (ds_may s)") auto
  note ym = may_update_entries_refines [OF wf(2) A yu]
  have yg: "?q' \<in> may_gamma ?A y'" using may_update_gamma [OF wf(2) A g(2) yu] .
  have rep: "reports_ok ?A (ds_must s) (ds_may s) m' y' mev yev just"
    unfolding reports_ok_def using m'(5) ym(4,5) by blast
  have y0: "getMinAge y' t = 0" using ym(3) by (simp add: may_spec_update_def)
  let ?d1 = "omap_insert t (default_dirtiness (implicitDirty s)) (dirtiness s)"
  let ?d2 = "if ls = STORE then omap_set t DCL_DIRTY ?d1 else ?d1"
  let ?dirt = "ls = STORE \<and> map_of ?d1 t \<noteq> Some DCL_DIRTY"
  let ?s1 = "s\<lparr>ds_must := m', ds_may := y', dirtiness := ?d2\<rparr>"
  have other: "map_of ?d2 u = map_of (dirtiness s) u" if "u \<noteq> t" for u using that by auto
  have at_t: "map_of ?d2 t = Some (if ls = STORE then DCL_DIRTY else
      case map_of (dirtiness s) t of Some e \<Rightarrow> e | None \<Rightarrow> default_dirtiness (implicitDirty s))"
    by (auto split: option.splits)
  have wf2: "omap_wf ?d2" using wf(3) by (auto simp: dirt_map_ok_def)
  have old_ok: "dcl_ok e \<and> (e = DCL_DIRTY \<longrightarrow> u \<in> set (keys (ds_must s))) \<and> (e \<noteq> DCL_CLEAN \<longrightarrow> getMinAge (ds_may s) u < ?A)"
    if "map_of (dirtiness s) u = Some e" for u e using wf(3) that unfolding dirt_map_ok_def by blast
  have old_D: "case map_of (dirtiness s) u of Some e \<Rightarrow> e \<noteq> DCL_CLEAN
      | None \<Rightarrow> implicitDirty s \<and> ageOfImplicitTags (ds_may s) \<le> lru_age ?q u" if "u \<in> ?D" for u
    using g(4) that unfolding map_describes_def by blast
  have old_dirty: "u \<in> ?D" if "map_of (dirtiness s) u = Some DCL_DIRTY" for u
    using g(4) that unfolding map_describes_def by blast
  obtain s2 where s2: "incorporateMustMayUpdates T mev yev just ?s1 = Some s2" "ds_must s2 = m'" "ds_may s2 = y'"
    "implicitDirty s2 = (implicitDirty s \<and> \<not> just)" "omap_wf (dirtiness s2)"
    "map_of (dirtiness s2) = incorporated ?A y' mev yev just ?d2"
    using incorporate_spec [where s = ?s1, OF wf(2) _ refl, of "ds_must s" m' mev yev just] ym(1) rep wf(4) wf2 by auto
  have d2_ok: "dcl_ok e \<and> (e = DCL_DIRTY \<longrightarrow> u \<in> set (keys (ds_must s)) \<or> u \<in> set (keys m')) \<and>
      (e \<noteq> DCL_CLEAN \<longrightarrow> getMinAge (ds_may s) u < ?A \<or> getMinAge y' u < ?A)" if "map_of ?d2 u = Some e" for u e
  proof (cases "u = t")
    case True
    then have "dcl_ok e" using that at_t old_ok [of t] by (auto simp: default_dirtiness_def split: if_splits option.splits)
    then show ?thesis using True m'(4) y0 A(1) by simp
  next
    case False
    then have "map_of (dirtiness s) u = Some e" using other [OF False] that by (simp only:)
    then show ?thesis using old_ok by blast
  qed
  have inv': "dirt_map_ok ?A m' y' (dirtiness s2) \<and> (implicitDirty s \<and> \<not> just \<longrightarrow> ageOfImplicitTags y' < ?A)"
    by (rule incorporated_ok [where d = ?d2, OF wf(2) ym(1) rep wf(4) d2_ok]) (simp_all only: s2(5,6))
  have wf': "dirt_wf ?A s2" unfolding dirt_wf_def using inv' s2 m'(2) ym(1) by simp
  have cover: "case map_of ?d2 u of Some e \<Rightarrow> e \<noteq> DCL_CLEAN
      | None \<Rightarrow> implicitDirty s \<and> ageOfImplicitTags y' \<le> lru_age ?q' u" if u: "u \<in> ?D'" for u
  proof (cases "u = t")
    case True
    show ?thesis
    proof (cases "ls = STORE")
      case True
      then show ?thesis using at_t \<open>u = t\<close> by simp
    next
      case False
      then have "t \<in> ?D" using u \<open>u = t\<close> by auto
      then show ?thesis
        unfolding \<open>u = t\<close> at_t using False old_D [of t] by (auto simp: default_dirtiness_def split: option.splits)
    qed
  next
    case False
    then have D: "u \<in> ?D" "u \<in> set ?q'" using u by (auto split: if_splits)
    show ?thesis
    proof (cases "map_of (dirtiness s) u")
      case None
      then have "implicitDirty s" "ageOfImplicitTags (ds_may s) \<le> lru_age ?q u" using old_D [OF D(1)] by simp_all
      then show ?thesis
        unfolding other [OF False] None using implicit_age [OF wf(2) A yu g(2) False D(2)] by simp
    next
      case (Some e)
      then show ?thesis unfolding other [OF False] using old_D [OF D(1)] by simp
    qed
  qed
  have dirty: "u \<in> ?D'" if "map_of ?d2 u = Some DCL_DIRTY" "u \<in> set ?q'" for u
  proof (cases "u = t")
    case True
    show ?thesis
    proof (cases "ls = STORE")
      case False
      then have "map_of (dirtiness s) t = Some DCL_DIRTY"
        using that(1) at_t True by (auto simp: default_dirtiness_def split: option.splits if_splits)
      then show ?thesis using old_dirty that(2) True by auto
    qed (use that(2) True in auto)
  next
    case False
    then have "u \<in> ?D" using that(1) old_dirty unfolding other [OF False] by blast
    then show ?thesis using that(2) by auto
  qed
  have "map_describes (implicitDirty s \<and> \<not> just) (ageOfImplicitTags y') (dirtiness s2) ?q' ?D'"
    by (rule incorporated_describes [OF ym(1) rep yg m'(3) _ cover dirty]) (use d2_ok s2(6) in auto)
  then have g': "dirty_access ?A t ls p \<in> dirt_gamma ?A s2"
    unfolding dirt_gamma_def dirty_access_def using s2 m'(3) yg by (simp add: Let_def)
  have wb: "existsDirtyVictim T ?s1" if "writes_back ?A t p"
  proof -
    obtain v where v: "v \<in> ?D" "v \<notin> set ?q'" using \<open>writes_back ?A t p\<close> by (auto simp: writes_back_def)
    have "v \<noteq> t" using v(2) m'(3,4) by (auto simp: must_gamma_def)
    then have "case map_of (dirtiness ?s1) v of Some e \<Rightarrow> e \<noteq> DCL_CLEAN | None \<Rightarrow> implicitDirty ?s1"
      using old_D [OF v(1)] other [of v] by (auto split: option.splits)
    from existsDirtyVictim_covers [OF _ _ v(2) this] show ?thesis using m'(2,3) by simp
  qed
  have di: "?dirt" if "dirties t ls p"
    using that old_dirty [of t] by (auto simp: dirties_def default_dirtiness_def split: if_splits)
  have "ds_update T E s aa ls rep c =
      Some (s2, if rep then Some (WritebackReport (existsDirtyVictim T ?s1) ?dirt) else None)"
    using t m'(1) yu s2(1) by (simp add: ds_update_def must_update_Some [OF t] may_update_def Let_def)
  then show ?thesis using wf' g' wb di by blast
qed

end
