(* ===== verification/TA_Dirtiness_Properties.thy ===== *)
theory TA_Dirtiness_Properties
  imports TA_Dirtiness_Sound
begin

text \<open>
  Potential updates, joins and the order of the dirtiness analysis, and its properties: along every
  sequence of accesses a write-back and a line that becomes dirty are reported.
\<close>

section \<open>Potential updates\<close>

definition base_class :: "bool \<Rightarrow> (tag, dirtiness_class) omap \<Rightarrow> tag \<Rightarrow> dirtiness_class" where
  "base_class i d u = (case map_of d u of Some c \<Rightarrow> c | None \<Rightarrow> default_dirtiness i)"

definition potential_class :: "bool \<Rightarrow> access_type \<Rightarrow> (tag, dirtiness_class) omap \<Rightarrow> tag \<Rightarrow> dirtiness_class" where
  "potential_class i ls d u = (if ls = STORE then bs_join (base_class i d u) DCL_DIRTY else base_class i d u)"

lemma potential_tag_eq:
  obtains d' where "potential_tag i ls t (d, b) = (d', b \<or> (ls = STORE \<and> base_class i d t \<noteq> DCL_DIRTY))"
    "map_of d' = (map_of d)(t \<mapsto> potential_class i ls d t)" "omap_wf d \<Longrightarrow> omap_wf d'"
proof -
  define d1 where "d1 = omap_insert t (default_dirtiness i) d"
  define e where "e = base_class i d t"
  have at: "map_of d1 t = Some e" by (auto simp: d1_def e_def base_class_def split: option.splits)
  have d1: "map_of d1 = (map_of d)(t \<mapsto> e)" using at by (auto simp: d1_def fun_eq_iff)
  have wf: "omap_wf d \<Longrightarrow> omap_wf d1" by (auto simp: d1_def)
  have pt: "potential_tag i ls t (d, b) =
      (if ls = STORE then (omap_set t (bs_join e DCL_DIRTY) d1, b \<or> e \<noteq> DCL_DIRTY) else (d1, b))"
    unfolding potential_tag_def fst_conv snd_conv Let_def d1_def [symmetric] at by simp
  show thesis
    by (rule that [of "if ls = STORE then omap_set t (bs_join e DCL_DIRTY) d1 else d1"])
      (use d1 wf in \<open>auto simp: pt potential_class_def e_def fun_eq_iff\<close>)
qed

lemma potential_fold:
  "distinct ts \<Longrightarrow> fold (potential_tag i ls) ts (d, b) = (d', b') \<Longrightarrow>
     (omap_wf d \<longrightarrow> omap_wf d') \<and>
     (\<forall>u. map_of d' u = (if u \<in> set ts then Some (potential_class i ls d u) else map_of d u)) \<and>
     (b' \<longleftrightarrow> b \<or> (ls = STORE \<and> (\<exists>u \<in> set ts. base_class i d u \<noteq> DCL_DIRTY)))"
proof (induction ts arbitrary: d b)
  case Nil
  then show ?case by simp
next
  case (Cons t ts)
  obtain d1 where d1: "potential_tag i ls t (d, b) = (d1, b \<or> (ls = STORE \<and> base_class i d t \<noteq> DCL_DIRTY))"
    "map_of d1 = (map_of d)(t \<mapsto> potential_class i ls d t)" "omap_wf d \<Longrightarrow> omap_wf d1"
    by (rule potential_tag_eq [of i ls t d b]) (rule that)
  have same: "base_class i d1 u = base_class i d u" "potential_class i ls d1 u = potential_class i ls d u" if "u \<noteq> t" for u
    using that by (simp_all add: base_class_def potential_class_def d1(2))
  have t: "t \<notin> set ts" "distinct ts" using Cons.prems(1) by auto
  then have sames: "\<forall>u \<in> set ts. base_class i d1 u = base_class i d u \<and> potential_class i ls d1 u = potential_class i ls d u"
    using same by metis
  have "fold (potential_tag i ls) ts (d1, b \<or> (ls = STORE \<and> base_class i d t \<noteq> DCL_DIRTY)) = (d', b')"
    using Cons.prems(2) d1(1) by simp
  from Cons.IH [OF t(2) this] show ?case using d1(2,3) t(1) sames by auto
qed

lemma must_potential_keys:
  assumes "must_wf A m" "A \<le> 255" "must_potential_entries A m = (m', mev)" "u \<in> set (keys m)" "u \<notin> mev"
  shows "u \<in> set (keys m')"
proof -
  have m': "m' = List.map (\<lambda>(t, a). (t, Suc a)) (filter (\<lambda>e. snd e < A - 1) m)" "mev = {u. map_of m u = Some (A - 1)}"
    using must_potential_map [OF assms(1,2)] assms(3) by auto
  obtain a where a: "(u, a) \<in> set m" using assms(4) by auto
  then have "map_of m u = Some a" using must_wfD(1) [OF assms(1)] by simp
  then have "a \<noteq> A - 1" "a < A" using assms(5) m'(2) must_age_less [OF assms(1)] by auto
  then have "(u, a) \<in> set (filter (\<lambda>e. snd e < A - 1) m)" using a by auto
  then show ?thesis unfolding m'(1) by force
qed

lemma may_potential_imp:
  assumes "may_potential_update T E m aa ls rep = Some (m', r)"
  shows "ageOfImplicitTags m' = ageOfImplicitTags m \<or> ageOfImplicitTags m' = 0"
    and "getTag T (aa_upper E aa) - getTag T (aa_lower E aa) + 1 > maxWorthwhileTags \<Longrightarrow> ageOfImplicitTags m' = 0"
  using assms by (auto simp: may_potential_update_def Let_def split: if_splits)

text \<open>The set after a potential access: untouched, or accessed at a tag of the interval.\<close>

definition potential_set :: "nat \<Rightarrow> tag option \<Rightarrow> access_type \<Rightarrow> dirty_set \<Rightarrow> dirty_set" where
  "potential_set A x ls p = (case x of None \<Rightarrow> p | Some t \<Rightarrow> dirty_access A t ls p)"

definition potential_writes_back :: "nat \<Rightarrow> tag option \<Rightarrow> dirty_set \<Rightarrow> bool" where
  "potential_writes_back A x p = (case x of None \<Rightarrow> False | Some t \<Rightarrow> writes_back A t p)"

definition potential_dirties :: "tag option \<Rightarrow> access_type \<Rightarrow> dirty_set \<Rightarrow> bool" where
  "potential_dirties x ls p = (case x of None \<Rightarrow> False | Some t \<Rightarrow> dirties t ls p)"

lemma potential_set_cases:
  assumes "D \<subseteq> set q" "lru_wf A q"
  obtains q' D' where "potential_set A x ls (q, D) = (q', D')" "D' \<subseteq> set q'"
    "\<And>u. u \<in> D' \<Longrightarrow> x = Some u \<or> (u \<in> D \<and> lru_age q u \<le> lru_age q' u)"
    "\<And>u. u \<in> D' \<Longrightarrow> ls \<noteq> STORE \<Longrightarrow> u \<in> D" "\<And>u. u \<in> D \<Longrightarrow> u \<in> set q' \<Longrightarrow> u \<in> D'"
    "q' = (case x of None \<Rightarrow> q | Some t \<Rightarrow> lru_access A t q)"
proof (cases x)
  case None
  then show thesis using that [of q D] assms by (simp add: potential_set_def potential_writes_back_def)
next
  case (Some t)
  let ?q' = "lru_access A t q"
  have age: "t = u \<or> lru_age q u \<le> lru_age ?q' u" if "u \<in> set ?q'" for u
    using lru_access_other(2) [OF assms(2) _ that] lru_next_age_ge [of q u t] by force
  show thesis
    by (rule that [of ?q' "(if ls = STORE then insert t D else D) \<inter> set ?q'"])
      (use Some age in \<open>auto simp: potential_set_def dirty_access_def potential_writes_back_def writes_back_def Let_def split: if_splits\<close>)
qed

lemma ds_potential_sound:
  assumes T: "traits_ok T" and s: "dirt_wf (ASSOCIATIVITY T) s" and p: "p \<in> dirt_gamma (ASSOCIATIVITY T) s"
    and high: "getTag T (aa_upper E aa) \<noteq> - 1"
  shows "\<exists>s' wb di. ds_potential_update T E s aa ls rep = Some (s', if rep then Some (WritebackReport wb di) else None) \<and>
    dirt_wf (ASSOCIATIVITY T) s' \<and>
    (\<forall>x. (case x of None \<Rightarrow> True | Some t \<Rightarrow> in_range (getTag T (aa_lower E aa)) (getTag T (aa_upper E aa)) t) \<longrightarrow>
      potential_set (ASSOCIATIVITY T) x ls p \<in> dirt_gamma (ASSOCIATIVITY T) s' \<and>
      (potential_writes_back (ASSOCIATIVITY T) x p \<longrightarrow> wb) \<and> (potential_dirties x ls p \<longrightarrow> di))"
proof -
  let ?A = "ASSOCIATIVITY T" and ?lo = "getTag T (aa_lower E aa)" and ?hi = "getTag T (aa_upper E aa)"
  obtain q D where pq: "p = (q, D)" by (cases p)
  have A: "0 < ?A" "?A \<le> 255" using traits_ok_assoc [OF T] by auto
  have wf: "must_wf ?A (ds_must s)" "may_wf ?A (ds_may s)" "dirt_map_ok ?A (ds_must s) (ds_may s) (dirtiness s)"
    "implicitDirty s \<longrightarrow> ageOfImplicitTags (ds_may s) < ?A" using s by (auto simp: dirt_wf_def)
  have g: "q \<in> must_gamma ?A (ds_must s)" "q \<in> may_gamma ?A (ds_may s)" "D \<subseteq> set q" "lru_wf ?A q"
    "map_describes (implicitDirty s) (ageOfImplicitTags (ds_may s)) (dirtiness s) q D"
    using p pq by (auto simp: dirt_gamma_def must_gamma_def)
  obtain m' mev where m': "must_potential_entries ?A (ds_must s) = (m', mev)" by (cases "must_potential_entries ?A (ds_must s)")
  have mwf: "must_wf ?A m'" using must_potential_wf [OF wf(1) A(2)] m' by simp
  have mg: "q \<in> must_gamma ?A m'" "lru_access ?A x q \<in> must_gamma ?A m'" for x
    using must_potential_gamma [OF wf(1) A(2) g(1)] m' by auto
  have mk: "\<forall>u \<in> set (keys (ds_must s)). u \<notin> mev \<longrightarrow> u \<in> set (keys m')"
    using must_potential_keys [OF wf(1) A(2) m'] by blast
  obtain y' intro where y': "may_potential_update T E (ds_may s) aa ls True = Some (y', Some (MayReport {} False intro))"
    "may_wf ?A y'" "\<And>t. getMinAge y' t \<le> getMinAge (ds_may s) t" "\<And>t. in_range ?lo ?hi t \<Longrightarrow> getMinAge y' t = 0"
    using may_potential_spec [OF wf(2) high A(1), of ls True] by (metis (full_types))
  have imp: "ageOfImplicitTags y' \<le> ageOfImplicitTags (ds_may s)" using may_potential_imp(1) [OF y'(1)] by auto
  have impA: "implicitDirty s \<longrightarrow> ageOfImplicitTags y' < ?A" using imp wf(4) by auto
  have no_just: "\<not> (ageOfImplicitTags (ds_may s) < ?A \<and> ageOfImplicitTags y' = ?A)" using imp by auto
  have no_evict: "{u. getMinAge (ds_may s) u < ageOfImplicitTags (ds_may s) \<and> getMinAge y' u = ?A} = {}"
  proof -
    have "ageOfImplicitTags (ds_may s) \<le> ?A" using wf(2) by (simp add: may_wf_def)
    moreover have "getMinAge y' u \<le> getMinAge (ds_may s) u" for u by (rule y'(3))
    ultimately show ?thesis by (auto simp: not_less) (metis le_trans not_le)
  qed
  have reports: "reports_ok ?A (ds_must s) (ds_may s) m' y' mev {} False"
    unfolding reports_ok_def using mk no_just no_evict by simp
  let ?s1 = "s\<lparr>ds_must := m', ds_may := y'\<rparr>"
  have wfd: "omap_wf (dirtiness s)" using wf(3) by (simp add: dirt_map_ok_def)
  obtain s2 where s2: "incorporateMustMayUpdates T mev {} False ?s1 = Some s2" "ds_must s2 = m'" "ds_may s2 = y'"
    "implicitDirty s2 = implicitDirty s" "omap_wf (dirtiness s2)"
    "map_of (dirtiness s2) = incorporated ?A y' mev {} False (dirtiness s)"
    using incorporate_spec [where s = ?s1, OF wf(2) _ refl, of "ds_must s" m' mev "{}" False] y'(2) reports wf(4) wfd by auto
  have d1: "map_of (dirtiness s2) u = map_option (\<lambda>c. if u \<in> mev \<and> c = DCL_DIRTY then DCL_UNKNOWN else c) (map_of (dirtiness s) u)" for u
    unfolding s2(6) incorporated_def by (auto split: option.splits)
  have old_ok: "dcl_ok e \<and> (e = DCL_DIRTY \<longrightarrow> u \<in> set (keys (ds_must s))) \<and> (e \<noteq> DCL_CLEAN \<longrightarrow> getMinAge (ds_may s) u < ?A)"
    if "map_of (dirtiness s) u = Some e" for u e using wf(3) that unfolding dirt_map_ok_def by blast
  have map1: "dirt_map_ok ?A m' y' (dirtiness s2) \<and> (implicitDirty s \<and> \<not> False \<longrightarrow> ageOfImplicitTags y' < ?A)"
    by (rule incorporated_ok [where d = "dirtiness s", OF wf(2) y'(2) reports wf(4)]) (use old_ok s2(5,6) in auto)
  have ok1: "dcl_ok e \<and> (e = DCL_DIRTY \<longrightarrow> u \<in> set (keys m')) \<and> (e \<noteq> DCL_CLEAN \<longrightarrow> getMinAge y' u < ?A)"
    if "map_of (dirtiness s2) u = Some e" for u e using map1 that unfolding dirt_map_ok_def by blast
  have old_D: "case map_of (dirtiness s2) u of Some e \<Rightarrow> e \<noteq> DCL_CLEAN
      | None \<Rightarrow> implicitDirty s \<and> ageOfImplicitTags (ds_may s) \<le> lru_age q u" if "u \<in> D" for u
  proof -
    have "case map_of (dirtiness s) u of Some e \<Rightarrow> e \<noteq> DCL_CLEAN
      | None \<Rightarrow> implicitDirty s \<and> ageOfImplicitTags (ds_may s) \<le> lru_age q u"
      using g(5) that unfolding map_describes_def by blast
    then show ?thesis unfolding d1 by (auto split: option.splits)
  qed
  have old_dirty: "u \<in> D" if "map_of (dirtiness s) u = Some DCL_DIRTY" for u
    using g(5) that unfolding map_describes_def by blast
  have dirty1: "u \<in> D \<and> u \<in> set (keys m')" if "map_of (dirtiness s2) u = Some DCL_DIRTY" for u
    using that ok1 old_dirty unfolding d1 by (auto split: if_splits)
  have wb: "existsDirtyVictim T ?s1" if h: "potential_writes_back ?A x p" for x
  proof -
    let ?q' = "case x of None \<Rightarrow> q | Some t \<Rightarrow> lru_access ?A t q"
    obtain v where v: "v \<in> D" "v \<notin> set ?q'"
      using h pq by (cases x) (auto simp: potential_writes_back_def writes_back_def)
    have "case map_of (dirtiness ?s1) v of Some e \<Rightarrow> e \<noteq> DCL_CLEAN | None \<Rightarrow> implicitDirty ?s1"
      using g(5) v(1) unfolding map_describes_def by (auto split: option.splits)
    moreover have "?q' \<in> must_gamma ?A m'" using mg by (cases x) auto
    ultimately show ?thesis using existsDirtyVictim_covers [of T ?s1 ?q' v] mwf v(2) by simp
  qed
  text \<open>What is left to show of the final state: \<open>i\<close> and \<open>d\<close> are its flag and map.\<close>
  have final: "dirt_wf ?A s' \<and> (\<forall>x. (case x of None \<Rightarrow> True | Some t \<Rightarrow> in_range ?lo ?hi t) \<longrightarrow>
      potential_set ?A x ls p \<in> dirt_gamma ?A s' \<and> (potential_dirties x ls p \<longrightarrow> di))"
    if s': "s' = s2\<lparr>implicitDirty := i, dirtiness := d\<rparr>" and i: "i \<longrightarrow> ageOfImplicitTags y' < ?A"
      and d: "dirt_map_ok ?A m' y' d"
      and keep: "\<And>u. u \<in> D \<Longrightarrow> case map_of d u of Some e \<Rightarrow> e \<noteq> DCL_CLEAN | None \<Rightarrow> i \<and>
        (ageOfImplicitTags y' = 0 \<or> (\<not> in_range ?lo ?hi u \<and> ageOfImplicitTags (ds_may s) \<le> lru_age q u))"
      and new: "\<And>u. in_range ?lo ?hi u \<Longrightarrow> ls = STORE \<Longrightarrow>
        (case map_of d u of Some e \<Rightarrow> e \<noteq> DCL_CLEAN | None \<Rightarrow> i \<and> ageOfImplicitTags y' = 0)"
      and dirty: "\<And>u. map_of d u = Some DCL_DIRTY \<Longrightarrow> map_of (dirtiness s2) u = Some DCL_DIRTY"
      and di: "\<And>u. in_range ?lo ?hi u \<Longrightarrow> ls = STORE \<Longrightarrow> map_of (dirtiness s2) u \<noteq> Some DCL_DIRTY \<Longrightarrow> di"
    for s' i d di
  proof (intro conjI allI impI)
    show "dirt_wf ?A s'" unfolding dirt_wf_def s' using mwf y'(2) d i s2(2,3) by simp
    fix x assume x: "case x of None \<Rightarrow> True | Some t \<Rightarrow> in_range ?lo ?hi t"
    obtain q' D' where c: "potential_set ?A x ls (q, D) = (q', D')" "D' \<subseteq> set q'"
      "\<And>u. u \<in> D' \<Longrightarrow> x = Some u \<or> (u \<in> D \<and> lru_age q u \<le> lru_age q' u)"
      "\<And>u. u \<in> D' \<Longrightarrow> ls \<noteq> STORE \<Longrightarrow> u \<in> D" "\<And>u. u \<in> D \<Longrightarrow> u \<in> set q' \<Longrightarrow> u \<in> D'"
      "q' = (case x of None \<Rightarrow> q | Some t \<Rightarrow> lru_access ?A t q)"
      by (rule potential_set_cases [OF g(3,4), of x ls]) (rule that)
    have q': "q' \<in> must_gamma ?A m'" "q' \<in> may_gamma ?A y'"
      using c(6) mg may_gamma_mono [OF g(2) y'(3)] may_potential_gamma [OF g(2) y'(3) y'(4)] x
      by (auto split: option.splits)
    have "case map_of d u of Some e \<Rightarrow> e \<noteq> DCL_CLEAN | None \<Rightarrow> i \<and> ageOfImplicitTags y' \<le> lru_age q' u" if u: "u \<in> D'" for u
    proof (cases "x = Some u")
      case True
      then have r: "in_range ?lo ?hi u" using x by simp
      show ?thesis
      proof (cases "ls = STORE")
        case True
        then show ?thesis using new [OF r] by (auto split: option.splits)
      next
        case False
        then show ?thesis using keep [OF c(4) [OF u]] r by (auto split: option.splits)
      qed
    next
      case False
      then have "u \<in> D" "lru_age q u \<le> lru_age q' u" using c(3) [OF u] by auto
      then show ?thesis using keep [of u] imp by (auto split: option.splits)
    qed
    moreover have "u \<in> D'" if "map_of d u = Some DCL_DIRTY" for u
      using dirty1 [OF dirty [OF that]] q'(1) c(5) by (auto simp: must_gamma_def)
    ultimately have "map_describes i (ageOfImplicitTags y') d q' D'" unfolding map_describes_def by blast
    then show "potential_set ?A x ls p \<in> dirt_gamma ?A s'"
      unfolding pq c(1) dirt_gamma_def s' using q' c(2) s2(2,3) by simp
    assume "potential_dirties x ls p"
    then obtain u where "x = Some u" "ls = STORE" "u \<notin> D"
      using pq by (auto simp: potential_dirties_def dirties_def split: option.splits)
    then show di using di [of u] dirty1 x by auto
  qed
  let ?num = "?hi - ?lo + 1"
  have upd: "ds_potential_update T E s aa ls rep =
      (let report = (\<lambda>dirtifying. if rep then Some (WritebackReport (existsDirtyVictim T ?s1) dirtifying) else None)
       in if ?num > dirt_maxWorthwhileTags then
            if ls = STORE
            then Some (s2\<lparr>implicitDirty := True, dirtiness := deleteDirtiness DCL_CLEAN (dirtiness s2)\<rparr>, report True)
            else Some (s2, report False)
          else let (d, dirtifying) = potential_tags (implicitDirty s2) ls (tag_range ?lo ?hi) (dirtiness s2)
               in Some (s2\<lparr>dirtiness := d\<rparr>, report dirtifying))"
    using m' y'(1) s2(1) high by (simp add: ds_potential_update_def must_potential_update_def Let_def)
  show ?thesis
  proof (cases "?num > dirt_maxWorthwhileTags")
    case True
    then have zero: "ageOfImplicitTags y' = 0"
      using may_potential_imp(2) [OF y'(1)] by (simp add: dirt_maxWorthwhileTags_def maxWorthwhileTags_def)
    show ?thesis
    proof (cases "ls = STORE")
      case store: True
      let ?d = "deleteDirtiness DCL_CLEAN (dirtiness s2)"
      have del: "map_of ?d u = (case map_of (dirtiness s2) u of None \<Rightarrow> None | Some c \<Rightarrow> if c \<noteq> DCL_CLEAN then Some c else None)" for u
        unfolding deleteDirtiness_def by (rule map_of_filter_key [OF omap_wf_distinct [OF s2(5)]])
      have dok: "dirt_map_ok ?A m' y' ?d"
        unfolding dirt_map_ok_def using ok1 del s2(5) omap_wf_filter [of "dirtiness s2"]
        by (auto simp: deleteDirtiness_def split: option.splits if_splits)
      note fin = final [where i = True and d = ?d and di = True, OF refl _ dok]
      have "dirt_wf ?A (s2\<lparr>implicitDirty := True, dirtiness := ?d\<rparr>) \<and> (\<forall>x. (case x of None \<Rightarrow> True | Some t \<Rightarrow> in_range ?lo ?hi t) \<longrightarrow>
        potential_set ?A x ls p \<in> dirt_gamma ?A (s2\<lparr>implicitDirty := True, dirtiness := ?d\<rparr>) \<and> (potential_dirties x ls p \<longrightarrow> True))"
        by (rule fin) (use zero A(1) del in \<open>auto split: option.splits if_splits\<close>)
      moreover have "ds_potential_update T E s aa ls rep = Some (s2\<lparr>implicitDirty := True, dirtiness := ?d\<rparr>,
          if rep then Some (WritebackReport (existsDirtyVictim T ?s1) True) else None)"
        unfolding upd using True store by simp
      ultimately show ?thesis using wb by blast
    next
      case load: False
      have s2': "s2 = s2\<lparr>implicitDirty := implicitDirty s, dirtiness := dirtiness s2\<rparr>" using s2(4) by simp
      have dok: "dirt_map_ok ?A m' y' (dirtiness s2)" using map1 by blast
      note fin = final [where di = False, OF s2' impA dok]
      have "dirt_wf ?A s2 \<and> (\<forall>x. (case x of None \<Rightarrow> True | Some t \<Rightarrow> in_range ?lo ?hi t) \<longrightarrow>
        potential_set ?A x ls p \<in> dirt_gamma ?A s2 \<and> (potential_dirties x ls p \<longrightarrow> False))"
      proof (rule fin)
        show "case map_of (dirtiness s2) u of Some e \<Rightarrow> e \<noteq> DCL_CLEAN | None \<Rightarrow> implicitDirty s \<and>
            (ageOfImplicitTags y' = 0 \<or> (\<not> in_range ?lo ?hi u \<and> ageOfImplicitTags (ds_may s) \<le> lru_age q u))" if "u \<in> D" for u
          using old_D [OF that] zero by (auto split: option.splits)
      qed (use load in auto)
      moreover have "ds_potential_update T E s aa ls rep = Some (s2,
          if rep then Some (WritebackReport (existsDirtyVictim T ?s1) False) else None)"
        unfolding upd using True load by simp
      ultimately show ?thesis using wb by blast
    qed
  next
    case small: False
    let ?ts = "tag_range ?lo ?hi"
    obtain d di where f: "potential_tags (implicitDirty s2) ls ?ts (dirtiness s2) = (d, di)"
      by (cases "potential_tags (implicitDirty s2) ls ?ts (dirtiness s2)")
    have dist: "distinct ?ts" using tag_range_sorted strict_sorted_iff by blast
    have tags: "(omap_wf (dirtiness s2) \<longrightarrow> omap_wf d) \<and>
        (\<forall>u. map_of d u = (if u \<in> set ?ts then Some (potential_class (implicitDirty s) ls (dirtiness s2) u) else map_of (dirtiness s2) u)) \<and>
        (di \<longleftrightarrow> False \<or> (ls = STORE \<and> (\<exists>u \<in> set ?ts. base_class (implicitDirty s) (dirtiness s2) u \<noteq> DCL_DIRTY)))"
      using potential_fold [OF dist, of "implicitDirty s2" ls "dirtiness s2" False d di] f s2(4)
      by (simp add: potential_tags_def)
    have md: "map_of d u = (if in_range ?lo ?hi u then Some (potential_class (implicitDirty s) ls (dirtiness s2) u) else map_of (dirtiness s2) u)" for u
      using tags by (simp add: tag_range_set)
    have base: "dcl_ok (base_class (implicitDirty s) (dirtiness s2) u)" for u
      using ok1 by (auto simp: base_class_def default_dirtiness_def split: option.splits)
    have pclass: "dcl_ok (potential_class (implicitDirty s) ls (dirtiness s2) u)"
      "potential_class (implicitDirty s) ls (dirtiness s2) u = DCL_DIRTY \<Longrightarrow> map_of (dirtiness s2) u = Some DCL_DIRTY" for u
    proof -
      show "dcl_ok (potential_class (implicitDirty s) ls (dirtiness s2) u)"
        using base [of u] by (auto simp: potential_class_def)
      assume "potential_class (implicitDirty s) ls (dirtiness s2) u = DCL_DIRTY"
      then have "base_class (implicitDirty s) (dirtiness s2) u = DCL_DIRTY"
        using base [of u] by (auto simp: potential_class_def split: if_splits)
      then show "map_of (dirtiness s2) u = Some DCL_DIRTY"
        by (auto simp: base_class_def default_dirtiness_def split: option.splits if_splits)
    qed
    have dok: "dirt_map_ok ?A m' y' d"
      unfolding dirt_map_ok_def
    proof (intro conjI allI impI)
      show "omap_wf d" using tags s2(5) by blast
      fix u c assume u: "map_of d u = Some c"
      have "dcl_ok c" "c = DCL_DIRTY \<Longrightarrow> map_of (dirtiness s2) u = Some DCL_DIRTY"
        using u pclass [of u] ok1 [of u c] unfolding md by (auto split: if_splits)
      then show "dcl_ok c" "c = DCL_DIRTY \<Longrightarrow> u \<in> set (keys m')" using dirty1 by blast+
      show "getMinAge y' u < ?A" if "c \<noteq> DCL_CLEAN"
        using u that y'(4) [of u] A(1) ok1 [of u c] unfolding md by (auto split: if_splits)
    qed
    have s': "s2\<lparr>dirtiness := d\<rparr> = s2\<lparr>implicitDirty := implicitDirty s, dirtiness := d\<rparr>" using s2(4) by simp
    note fin = final [where di = di, OF s' impA dok]
    have load_class: "potential_class (implicitDirty s) ls (dirtiness s2) u \<noteq> DCL_CLEAN" if "u \<in> D" for u
      using old_D [OF that] base [of u]
      by (auto simp: potential_class_def base_class_def default_dirtiness_def split: option.splits)
    have store_class: "potential_class (implicitDirty s) STORE (dirtiness s2) u \<noteq> DCL_CLEAN" for u
      using base [of u] by (auto simp: potential_class_def)
    have "dirt_wf ?A (s2\<lparr>dirtiness := d\<rparr>) \<and> (\<forall>x. (case x of None \<Rightarrow> True | Some t \<Rightarrow> in_range ?lo ?hi t) \<longrightarrow>
        potential_set ?A x ls p \<in> dirt_gamma ?A (s2\<lparr>dirtiness := d\<rparr>) \<and> (potential_dirties x ls p \<longrightarrow> di))"
    proof (rule fin)
      show "case map_of d u of Some e \<Rightarrow> e \<noteq> DCL_CLEAN | None \<Rightarrow> implicitDirty s \<and>
          (ageOfImplicitTags y' = 0 \<or> (\<not> in_range ?lo ?hi u \<and> ageOfImplicitTags (ds_may s) \<le> lru_age q u))" if "u \<in> D" for u
        using old_D [OF that] load_class [OF that] by (simp add: md split: option.splits)
      show "case map_of d u of Some e \<Rightarrow> e \<noteq> DCL_CLEAN | None \<Rightarrow> implicitDirty s \<and> ageOfImplicitTags y' = 0"
        if "in_range ?lo ?hi u" "ls = STORE" for u
        using that store_class [of u] by (simp add: md)
      show "map_of (dirtiness s2) u = Some DCL_DIRTY" if "map_of d u = Some DCL_DIRTY" for u
        using that pclass(2) [of u] by (simp add: md split: if_splits)
      show di if r: "in_range ?lo ?hi u" "ls = STORE" and "map_of (dirtiness s2) u \<noteq> Some DCL_DIRTY" for u
      proof -
        have "base_class (implicitDirty s) (dirtiness s2) u \<noteq> DCL_DIRTY"
          using that(3) by (auto simp: base_class_def default_dirtiness_def split: option.splits)
        then show ?thesis using tags r tag_range_set [of ?lo ?hi] by blast
      qed
    qed
    moreover have "ds_potential_update T E s aa ls rep = Some (s2\<lparr>dirtiness := d\<rparr>,
        if rep then Some (WritebackReport (existsDirtyVictim T ?s1) di) else None)"
      unfolding upd using small f by simp
    ultimately show ?thesis using wb by blast
  qed
qed

section \<open>Join and order\<close>

lemma dirt_join_loop_keys: "set (keys (dirt_join_loop ix iy xs ys)) = set (keys xs) \<union> set (keys ys)"
  by (induction ix iy xs ys rule: dirt_join_loop.induct) auto

lemma dirt_join_loop_wf: "omap_wf xs \<Longrightarrow> omap_wf ys \<Longrightarrow> omap_wf (dirt_join_loop ix iy xs ys)"
proof (induction ix iy xs ys rule: dirt_join_loop.induct)
  case (4 ix iy t c xs u e ys)
  have w: "\<forall>k \<in> set (keys xs). t < k" "\<forall>k \<in> set (keys ys). u < k" "omap_wf xs" "omap_wf ys"
    using 4(4,5) by (auto simp: omap_wf_def)
  have key: "omap_wf ((k, v) # m) \<longleftrightarrow> (\<forall>l \<in> set (keys m). k < l) \<and> omap_wf m" for k v and m :: "(tag, dirtiness_class) omap"
    by (simp add: omap_wf_def)
  consider "t = u" | "t < u" | "u < t" by (rule linorder_cases)
  then show ?case
  proof cases
    case 1
    have "omap_wf (dirt_join_loop ix iy xs ys)" using 4(1) [OF 1 w(3,4)] .
    moreover have "\<forall>k \<in> set (keys (dirt_join_loop ix iy xs ys)). t < k"
      unfolding dirt_join_loop_keys using w(1,2) 1 by blast
    ultimately show ?thesis using 1 key by simp
  next
    case 2
    have "omap_wf (dirt_join_loop ix iy xs ((u, e) # ys))" using 4(2) 2 w(3) 4(5) by simp
    moreover have "\<forall>k \<in> set (keys (dirt_join_loop ix iy xs ((u, e) # ys))). t < k"
      unfolding dirt_join_loop_keys using w(1,2) 2 by auto
    ultimately show ?thesis using 2 key less_imp_neq [OF 2] by simp
  next
    case 3
    have "omap_wf (dirt_join_loop ix iy ((t, c) # xs) ys)" using 4(3) 3 w(4) 4(4) by simp
    moreover have "\<forall>k \<in> set (keys (dirt_join_loop ix iy ((t, c) # xs) ys)). u < k"
      unfolding dirt_join_loop_keys using w(1,2) 3 by auto
    moreover have "t \<noteq> u" "\<not> t < u" using 3 by auto
    ultimately show ?thesis using key by simp
  qed
next
  case (2 ix iy t c xs)
  have "\<forall>k \<in> set (keys (dirt_join_loop ix iy xs [])). t < k"
    unfolding dirt_join_loop_keys using 2(2) by (auto simp: omap_wf_def)
  then show ?case using 2 by (simp add: omap_wf_def)
next
  case (3 ix iy u e ys)
  have "\<forall>k \<in> set (keys (dirt_join_loop ix iy [] ys)). u < k"
    unfolding dirt_join_loop_keys using 3(3) by (auto simp: omap_wf_def)
  then show ?case using 3 by (simp add: omap_wf_def)
qed (simp add: omap_wf_def)

text \<open>The join of the maps, tag by tag.\<close>

definition joined_class ::
  "bool \<Rightarrow> bool \<Rightarrow> (tag, dirtiness_class) omap \<Rightarrow> (tag, dirtiness_class) omap \<Rightarrow> tag \<Rightarrow> dirtiness_class option" where
  "joined_class ix iy xs ys u =
     (if map_of xs u = None \<and> map_of ys u = None then None
      else Some (bs_join (base_class ix xs u) (base_class iy ys u)))"

lemma omap_head_less: "omap_wf ((t, c) # m) \<Longrightarrow> u \<le> t \<Longrightarrow> u \<noteq> t \<Longrightarrow> map_of ((t, c) # m) u = None"
  by (fastforce simp: omap_wf_def map_of_eq_None_iff)

lemma omap_head_notin: "omap_wf ((t, c) # m) \<Longrightarrow> map_of m t = None"
  by (fastforce simp: omap_wf_def map_of_eq_None_iff)

lemma dirt_join_loop_map:
  "omap_wf xs \<Longrightarrow> omap_wf ys \<Longrightarrow> map_of (dirt_join_loop ix iy xs ys) k = joined_class ix iy xs ys k"
proof (induction ix iy xs ys rule: dirt_join_loop.induct)
  case (4 ix iy t c xs u e ys)
  have tl: "omap_wf xs" "omap_wf ys" using 4(4,5) by (auto simp: omap_wf_def)
  note hx = omap_head_notin [OF 4(4)] and hy = omap_head_notin [OF 4(5)]
  consider "t = u" | "t < u" | "u < t" by (rule linorder_cases)
  then show ?case
  proof cases
    case 1
    then have "map_of (dirt_join_loop ix iy xs ys) k = joined_class ix iy xs ys k" using 4(1) tl by blast
    then show ?thesis using 1 hx hy by (auto simp: joined_class_def base_class_def)
  next
    case 2
    then have "map_of (dirt_join_loop ix iy xs ((u, e) # ys)) k = joined_class ix iy xs ((u, e) # ys) k"
      using 4(2) tl 4(5) by simp
    moreover have "map_of ((u, e) # ys) t = None" using omap_head_less [OF 4(5), of t] 2 by auto
    ultimately show ?thesis using 2 hx by (auto simp: joined_class_def base_class_def)
  next
    case 3
    then have "map_of (dirt_join_loop ix iy ((t, c) # xs) ys) k = joined_class ix iy ((t, c) # xs) ys k"
      using 4(3) tl 4(4) by simp
    moreover have "map_of ((t, c) # xs) u = None" using omap_head_less [OF 4(4), of u] 3 by auto
    ultimately show ?thesis using 3 hy by (auto simp: joined_class_def base_class_def)
  qed
next
  case (2 ix iy t c xs)
  then show ?case using omap_head_notin [OF 2(2)] by (auto simp: joined_class_def base_class_def omap_wf_def)
next
  case (3 ix iy u e ys)
  then show ?case using omap_head_notin [OF 3(3)] by (auto simp: joined_class_def base_class_def omap_wf_def)
qed (simp add: joined_class_def)

lemma joined_cases:
  assumes "dcl_ok a" "dcl_ok b"
  shows "dcl_ok (bs_join a b)" "bs_join a b = DCL_DIRTY \<longleftrightarrow> a = DCL_DIRTY \<and> b = DCL_DIRTY"
    "bs_join a b = DCL_CLEAN \<longleftrightarrow> a = DCL_CLEAN \<and> b = DCL_CLEAN"
  using assms by auto

lemma base_class_ok:
  assumes "dirt_wf A s"
  shows "dcl_ok (base_class (implicitDirty s) (dirtiness s) u)"
    and "base_class (implicitDirty s) (dirtiness s) u = DCL_DIRTY \<Longrightarrow> u \<in> set (keys (ds_must s)) \<and> map_of (dirtiness s) u = Some DCL_DIRTY"
    and "base_class (implicitDirty s) (dirtiness s) u \<noteq> DCL_CLEAN \<Longrightarrow> getMinAge (ds_may s) u < A"
proof -
  have ok: "dcl_ok c \<and> (c = DCL_DIRTY \<longrightarrow> u \<in> set (keys (ds_must s))) \<and> (c \<noteq> DCL_CLEAN \<longrightarrow> getMinAge (ds_may s) u < A)"
    if "map_of (dirtiness s) u = Some c" for c
    using assms that unfolding dirt_wf_def dirt_map_ok_def by blast
  have imp: "implicitDirty s \<Longrightarrow> getMinAge (ds_may s) u < A"
    using assms getMinAge_le [of A "ds_may s" u] unfolding dirt_wf_def by auto
  show "dcl_ok (base_class (implicitDirty s) (dirtiness s) u)"
    using ok by (auto simp: base_class_def default_dirtiness_def split: option.splits)
  show "base_class (implicitDirty s) (dirtiness s) u = DCL_DIRTY \<Longrightarrow> u \<in> set (keys (ds_must s)) \<and> map_of (dirtiness s) u = Some DCL_DIRTY"
    using ok by (auto simp: base_class_def default_dirtiness_def split: option.splits if_splits)
  show "base_class (implicitDirty s) (dirtiness s) u \<noteq> DCL_CLEAN \<Longrightarrow> getMinAge (ds_may s) u < A"
    using ok imp by (auto simp: base_class_def default_dirtiness_def split: option.splits if_splits)
qed

lemma ds_join_wf:
  assumes "dirt_wf A x" "dirt_wf A y"
  shows "dirt_wf A (ds_join x y)"
proof -
  have w: "must_wf A (ds_must x)" "must_wf A (ds_must y)" "may_wf A (ds_may x)" "may_wf A (ds_may y)"
    "omap_wf (dirtiness x)" "omap_wf (dirtiness y)"
    using assms by (auto simp: dirt_wf_def dirt_map_ok_def)
  note jy = may_join_spec [OF w(3,4)]
  have mk: "u \<in> set (keys (must_join (ds_must x) (ds_must y)))" if "u \<in> set (keys (ds_must x))" "u \<in> set (keys (ds_must y))" for u
  proof -
    have "map_of (must_join (ds_must x) (ds_must y)) u \<noteq> None"
      using that unfolding must_join_map [OF w(1,2)] must_spec_join_def
      by (auto simp: map_of_eq_None_iff split: option.splits)
    then show ?thesis by (simp add: map_of_eq_None_iff)
  qed
  have "dcl_ok c \<and> (c = DCL_DIRTY \<longrightarrow> u \<in> set (keys (ds_must (ds_join x y)))) \<and> (c \<noteq> DCL_CLEAN \<longrightarrow> getMinAge (ds_may (ds_join x y)) u < A)"
    if "map_of (dirtiness (ds_join x y)) u = Some c" for u c
  proof -
    have c: "c = bs_join (base_class (implicitDirty x) (dirtiness x) u) (base_class (implicitDirty y) (dirtiness y) u)"
      using that unfolding ds_join_def by (auto simp: dirt_join_loop_map [OF w(5,6)] joined_class_def split: if_splits)
    note bx = base_class_ok [OF assms(1), of u] and by_ = base_class_ok [OF assms(2), of u]
    note j = joined_cases [OF bx(1) by_(1)]
    have "getMinAge (ds_may (ds_join x y)) u < A" if "c \<noteq> DCL_CLEAN"
      using that bx(3) by_(3) unfolding c j(3) by (auto simp: ds_join_def jy(3) min_less_iff_disj)
    then show ?thesis using j(1,2) bx(2) by_(2) mk c by (auto simp: ds_join_def)
  qed
  moreover have "implicitDirty (ds_join x y) \<longrightarrow> ageOfImplicitTags (ds_may (ds_join x y)) < A"
    using assms by (auto simp: ds_join_def jy(2) dirt_wf_def)
  ultimately show ?thesis
    unfolding dirt_wf_def dirt_map_ok_def
    using must_join_wf [OF w(1,2)] jy(1) dirt_join_loop_wf [OF w(5,6)] by (auto simp: ds_join_def)
qed

lemma map_describes_base:
  assumes "dirt_wf A s" "map_describes (implicitDirty s) imp (dirtiness s) q D" "u \<in> D"
  shows "base_class (implicitDirty s) (dirtiness s) u \<noteq> DCL_CLEAN \<and>
    (map_of (dirtiness s) u = None \<longrightarrow> implicitDirty s \<and> imp \<le> lru_age q u)"
  using assms(2,3) unfolding map_describes_def base_class_def default_dirtiness_def
  by (auto split: option.splits)

lemma map_describes_join:
  assumes "dirt_wf A s" "dirt_wf A o'" and d: "map_describes (implicitDirty s) imp (dirtiness s) q D"
    and j: "\<And>u. map_of j u = joined_class (implicitDirty s) (implicitDirty o') (dirtiness s) (dirtiness o') u \<or>
      map_of j u = joined_class (implicitDirty o') (implicitDirty s) (dirtiness o') (dirtiness s) u"
    and i: "implicitDirty s \<Longrightarrow> i" and imp': "imp' \<le> imp"
  shows "map_describes i imp' j q D"
  unfolding map_describes_def
proof (intro conjI ballI allI impI)
  have comm: "bs_join a b = bs_join b a" for a b by (simp add: bs_join_def or.commute)
  have jj: "map_of j u = joined_class (implicitDirty s) (implicitDirty o') (dirtiness s) (dirtiness o') u" for u
    using j [of u] comm by (auto simp: joined_class_def)
  fix u
  note bs = base_class_ok [OF assms(1), of u] and bo = base_class_ok [OF assms(2), of u]
  note jc = joined_cases [OF bs(1) bo(1)]
  show "case map_of j u of Some c \<Rightarrow> c \<noteq> DCL_CLEAN | None \<Rightarrow> i \<and> imp' \<le> lru_age q u" if "u \<in> D"
    using map_describes_base [OF assms(1) d that] jc(3) i imp'
    unfolding jj joined_class_def by auto
  show "u \<in> D" if "map_of j u = Some DCL_DIRTY"
  proof -
    have "base_class (implicitDirty s) (dirtiness s) u = DCL_DIRTY"
      using that jc(2) unfolding jj joined_class_def by (auto split: if_splits)
    then show ?thesis using bs(2) d unfolding map_describes_def by blast
  qed
qed

lemma ds_join_gamma:
  assumes "dirt_wf A x" "dirt_wf A y"
  shows "dirt_gamma A x \<union> dirt_gamma A y \<subseteq> dirt_gamma A (ds_join x y)"
proof
  fix p assume p: "p \<in> dirt_gamma A x \<union> dirt_gamma A y"
  have w: "must_wf A (ds_must x)" "must_wf A (ds_must y)" "may_wf A (ds_may x)" "may_wf A (ds_may y)"
    "omap_wf (dirtiness x)" "omap_wf (dirtiness y)"
    using assms by (auto simp: dirt_wf_def dirt_map_ok_def)
  have ages: "ageOfImplicitTags (ds_may (ds_join x y)) = min (ageOfImplicitTags (ds_may x)) (ageOfImplicitTags (ds_may y))"
    using may_join_spec(2) [OF w(3,4)] by (simp add: ds_join_def)
  have m: "map_of (dirtiness (ds_join x y)) u = joined_class (implicitDirty x) (implicitDirty y) (dirtiness x) (dirtiness y) u" for u
    by (simp add: ds_join_def dirt_join_loop_map [OF w(5,6)])
  have "fst p \<in> must_gamma A (ds_must (ds_join x y))" "fst p \<in> may_gamma A (ds_may (ds_join x y))" "snd p \<subseteq> set (fst p)"
    using p must_gamma_join [OF w(1,2)] may_gamma_join [OF w(3,4)] by (auto simp: dirt_gamma_def ds_join_def)
  moreover have "map_describes (implicitDirty (ds_join x y)) (ageOfImplicitTags (ds_may (ds_join x y))) (dirtiness (ds_join x y)) (fst p) (snd p)"
  proof (cases "p \<in> dirt_gamma A x")
    case True
    then have "map_describes (implicitDirty x) (ageOfImplicitTags (ds_may x)) (dirtiness x) (fst p) (snd p)" by (simp add: dirt_gamma_def)
    from map_describes_join [OF assms this] show ?thesis using m ages by (simp add: ds_join_def)
  next
    case False
    then have "p \<in> dirt_gamma A y" using p by blast
    then have "map_describes (implicitDirty y) (ageOfImplicitTags (ds_may y)) (dirtiness y) (fst p) (snd p)" by (simp add: dirt_gamma_def)
    from map_describes_join [OF assms(2,1) this] show ?thesis using m ages by (simp add: ds_join_def)
  qed
  ultimately show "p \<in> dirt_gamma A (ds_join x y)" by (simp add: dirt_gamma_def)
qed

lemma ds_eq_iff [simp]: "ds_eq x y \<longleftrightarrow> x = y"
  by (cases x; cases y) (auto simp: ds_eq_def)

lemma ds_lessequal_gamma:
  assumes "dirt_wf A x" "dirt_wf A y" "ds_lessequal x y"
  shows "dirt_gamma A x \<subseteq> dirt_gamma A y"
  using ds_join_gamma [OF assms(1,2)] assms(3) by (auto simp: ds_lessequal_def)

end
