(* ===== verification/TA_Dirtiness_Runs.thy ===== *)
theory TA_Dirtiness_Runs
  imports TA_Dirtiness_Properties
begin

text \<open>
  Whole runs of the dirtiness analysis next to a write-back set: each access is classified, assumed to
  be what the classification says and updated, potential accesses are taken or not, and the debug
  assertions of \<open>checkInvariants\<close> are evaluated in every state.  Also the analysis as an instance of the
  contract of set analyses, and the initial state that makes the unreachable assertion reachable.
\<close>

section \<open>Runs\<close>

datatype dirt_event =
    DirtAccess address access_type
  | DirtPotential abs_address access_type "tag option"

text \<open>A potential access happens at one of the tags of its interval, or not at all.\<close>

fun dirt_event_ok :: "cache_traits \<Rightarrow> ana_env \<Rightarrow> dirt_event \<Rightarrow> bool" where
  "dirt_event_ok T E (DirtAccess a ls) = True"
| "dirt_event_ok T E (DirtPotential aa ls x) =
     (getTag T (aa_upper E aa) \<noteq> - 1 \<and>
      (case x of None \<Rightarrow> True | Some t \<Rightarrow> in_range (getTag T (aa_lower E aa)) (getTag T (aa_upper E aa)) t))"

text \<open>One event in the analysis; \<open>None\<close> if an assertion fails.\<close>

fun dirt_step :: "cache_traits \<Rightarrow> ana_env \<Rightarrow> dirt_event \<Rightarrow> dirt_state \<Rightarrow> (dirt_state \<times> update_report option) option" where
  "dirt_step T E (DirtAccess a ls) s =
     (if \<not> ds_check T s then None
      else case ds_classify T E s (aa_of_address a) of None \<Rightarrow> None
           | Some c \<Rightarrow> ds_update T E s (aa_of_address a) ls True c)"
| "dirt_step T E (DirtPotential aa ls x) s =
     (if \<not> ds_check T s then None else ds_potential_update T E s aa ls True)"

fun dirt_run :: "cache_traits \<Rightarrow> ana_env \<Rightarrow> dirt_event list \<Rightarrow> dirt_state \<Rightarrow> (dirt_state \<times> update_report option list) option" where
  "dirt_run T E [] s = (if ds_check T s then Some (s, []) else None)"
| "dirt_run T E (e # es) s =
     (case dirt_step T E e s of None \<Rightarrow> None
      | Some (s', r) \<Rightarrow> map_option (\<lambda>(s'', rs). (s'', r # rs)) (dirt_run T E es s'))"

text \<open>The same event in the set, and whether it writes a line back, and dirties a clean one.\<close>

fun dirt_event_set :: "cache_traits \<Rightarrow> dirt_event \<Rightarrow> dirty_set \<Rightarrow> dirty_set" where
  "dirt_event_set T (DirtAccess a ls) p = potential_set (ASSOCIATIVITY T) (Some (getTag T a)) ls p"
| "dirt_event_set T (DirtPotential aa ls x) p = potential_set (ASSOCIATIVITY T) x ls p"

fun dirt_event_effect :: "cache_traits \<Rightarrow> dirt_event \<Rightarrow> dirty_set \<Rightarrow> bool \<times> bool" where
  "dirt_event_effect T (DirtAccess a ls) p =
     (potential_writes_back (ASSOCIATIVITY T) (Some (getTag T a)) p, potential_dirties (Some (getTag T a)) ls p)"
| "dirt_event_effect T (DirtPotential aa ls x) p =
     (potential_writes_back (ASSOCIATIVITY T) x p, potential_dirties x ls p)"

text \<open>The reports cover the effects, event by event.\<close>

fun reports_cover :: "cache_traits \<Rightarrow> dirt_event list \<Rightarrow> update_report option list \<Rightarrow> dirty_set \<Rightarrow> bool" where
  "reports_cover T [] [] p = True"
| "reports_cover T (e # es) (Some (WritebackReport wb di) # rs) p =
     ((fst (dirt_event_effect T e p) \<longrightarrow> wb) \<and> (snd (dirt_event_effect T e p) \<longrightarrow> di) \<and>
      reports_cover T es rs (dirt_event_set T e p))"
| "reports_cover T _ _ p = False"

definition dirty_start :: "nat \<Rightarrow> bool \<Rightarrow> bool \<Rightarrow> dirty_set set" where
  "dirty_start A assumeEmpty assumeClean =
     {(q, D). lru_wf A q \<and> (assumeEmpty \<longrightarrow> q = []) \<and> D \<subseteq> set q \<and> (assumeClean \<longrightarrow> D = {})}"

lemma ds_init_sound:
  assumes "traits_ok T" "b \<longrightarrow> AssumeCleanCache E"
  shows "dirt_wf (ASSOCIATIVITY T) (ds_init T E b)"
    and "dirty_start (ASSOCIATIVITY T) b (AssumeCleanCache E) \<subseteq> dirt_gamma (ASSOCIATIVITY T) (ds_init T E b)"
proof -
  have A: "0 < ASSOCIATIVITY T" using traits_ok_assoc [OF assms(1)] by simp
  show "dirt_wf (ASSOCIATIVITY T) (ds_init T E b)"
    using A assms(2) must_init_wf may_init_wf
    by (auto simp: dirt_wf_def ds_init_def dirt_map_ok_def omap_wf_def may_init_def)
  show "dirty_start (ASSOCIATIVITY T) b (AssumeCleanCache E) \<subseteq> dirt_gamma (ASSOCIATIVITY T) (ds_init T E b)"
  proof
    fix p assume "p \<in> dirty_start (ASSOCIATIVITY T) b (AssumeCleanCache E)"
    then obtain q D where p: "p = (q, D)" "lru_wf (ASSOCIATIVITY T) q" "b \<longrightarrow> q = []" "D \<subseteq> set q"
        "AssumeCleanCache E \<longrightarrow> D = {}"
      unfolding dirty_start_def by blast
    have "D = {} \<or> \<not> AssumeCleanCache E \<and> \<not> b" using p assms(2) by auto
    then show "p \<in> dirt_gamma (ASSOCIATIVITY T) (ds_init T E b)"
      using p must_init_gamma may_init_gamma
      by (auto simp: dirt_gamma_def ds_init_def map_describes_def may_init_def)
  qed
qed

lemma ds_classify_sound:
  assumes T: "traits_ok T" and s: "dirt_wf (ASSOCIATIVITY T) s" and p: "p \<in> dirt_gamma (ASSOCIATIVITY T) s"
  shows "\<exists>c. ds_classify T E s (aa_of_address a) = Some c \<and> plain_class c \<and>
      (c = CL_HIT \<longrightarrow> getTag T a \<in> set (fst p)) \<and>
      (c = CL_MISS \<and> CNN T E (getindex T a) (getTag T a) = 0 \<longrightarrow> getTag T a \<notin> set (fst p))"
proof -
  have g: "must_wf (ASSOCIATIVITY T) (ds_must s)" "may_wf (ASSOCIATIVITY T) (ds_may s)"
    "fst p \<in> must_gamma (ASSOCIATIVITY T) (ds_must s)" "fst p \<in> may_gamma (ASSOCIATIVITY T) (ds_may s)"
    using s p by (auto simp: dirt_wf_def dirt_gamma_def)
  obtain c where c: "must_classify T E (ds_must s) (aa_of_address a) = Some c" "plain_class c"
      "c = CL_HIT \<longrightarrow> getTag T a \<in> set (fst p)"
      "c = CL_MISS \<and> CNN T E (getindex T a) (getTag T a) = 0 \<longrightarrow> getTag T a \<notin> set (fst p)"
    using must_set.classify [OF T g(1,3), of E a] by (auto simp: must_analysis_def)
  obtain c' where "may_classify T E (ds_may s) (aa_of_address a) = Some c'" "plain_class c'"
      "c' = CL_HIT \<longrightarrow> getTag T a \<in> set (fst p)"
      "c' = CL_MISS \<and> CNN T E (getindex T a) (getTag T a) = 0 \<longrightarrow> getTag T a \<notin> set (fst p)"
    using may_set.classify [OF T g(2,4), of E a] by (auto simp: may_analysis_def)
  then show ?thesis using c by (cases "c = CL_UNKNOWN") (simp_all add: ds_classify_def)
qed

lemma dirt_step_sound:
  assumes T: "traits_ok T" and s: "dirt_wf (ASSOCIATIVITY T) s" and p: "p \<in> dirt_gamma (ASSOCIATIVITY T) s"
    and e: "dirt_event_ok T E e"
  shows "\<exists>s' wb di. dirt_step T E e s = Some (s', Some (WritebackReport wb di)) \<and>
    dirt_wf (ASSOCIATIVITY T) s' \<and> dirt_event_set T e p \<in> dirt_gamma (ASSOCIATIVITY T) s' \<and>
    (fst (dirt_event_effect T e p) \<longrightarrow> wb) \<and> (snd (dirt_event_effect T e p) \<longrightarrow> di)"
proof (cases e)
  case (DirtAccess a ls)
  obtain c where c: "ds_classify T E s (aa_of_address a) = Some c" "plain_class c"
      "c = CL_HIT \<longrightarrow> getTag T a \<in> set (fst p)"
    using ds_classify_sound [OF T s p] by blast
  have "must_assumes_hit T c \<Longrightarrow> getTag T a \<in> set (fst p)"
    using c(2,3) by (auto simp: plain_class_def must_assumes_hit_def)
  moreover have "aa_getTag T E (aa_of_address a) = Some (getTag T a)" by simp
  ultimately show ?thesis
    using ds_update_sound [OF T s p, of E "aa_of_address a" "getTag T a" c ls True] c(1) dirt_wf_check [OF s] DirtAccess
    by (simp add: potential_set_def potential_writes_back_def potential_dirties_def)
next
  case (DirtPotential aa ls x)
  then have "getTag T (aa_upper E aa) \<noteq> - 1"
    "case x of None \<Rightarrow> True | Some t \<Rightarrow> in_range (getTag T (aa_lower E aa)) (getTag T (aa_upper E aa)) t"
    using e by auto
  then show ?thesis
    using ds_potential_sound [OF T s p, of E aa ls True] dirt_wf_check [OF s] DirtPotential by auto
qed

lemma dirt_run_sound_from:
  assumes "traits_ok T" "dirt_wf (ASSOCIATIVITY T) s" "p \<in> dirt_gamma (ASSOCIATIVITY T) s" "list_all (dirt_event_ok T E) es"
  shows "\<exists>s' rs. dirt_run T E es s = Some (s', rs) \<and> reports_cover T es rs p \<and>
    fold (dirt_event_set T) es p \<in> dirt_gamma (ASSOCIATIVITY T) s'"
  using assms
proof (induction es arbitrary: s p)
  case Nil
  then show ?case by (simp add: dirt_wf_check)
next
  case (Cons e es)
  obtain s1 wb di where s1: "dirt_step T E e s = Some (s1, Some (WritebackReport wb di))"
      "dirt_wf (ASSOCIATIVITY T) s1" "dirt_event_set T e p \<in> dirt_gamma (ASSOCIATIVITY T) s1"
      "fst (dirt_event_effect T e p) \<longrightarrow> wb" "snd (dirt_event_effect T e p) \<longrightarrow> di"
    using dirt_step_sound [OF Cons.prems(1,2,3), of E e] Cons.prems(4) by auto
  obtain s' rs where "dirt_run T E es s1 = Some (s', rs)" "reports_cover T es rs (dirt_event_set T e p)"
      "fold (dirt_event_set T) es (dirt_event_set T e p) \<in> dirt_gamma (ASSOCIATIVITY T) s'"
    using Cons.IH [OF Cons.prems(1) s1(2,3)] Cons.prems(4) by auto
  then show ?case using s1 by simp
qed

section \<open>The contract of set analyses\<close>

abbreviation clean_env :: "ana_env \<Rightarrow> ana_env" where
  "clean_env E \<equiv> E\<lparr>AssumeCleanCache := True\<rparr>"

definition dirt_sets :: "nat \<Rightarrow> dirt_state \<Rightarrow> lru_set set" where
  "dirt_sets A s = fst ` dirt_gamma A s"

lemma dirt_sets_iff: "q \<in> dirt_sets A s \<longleftrightarrow> (\<exists>D. (q, D) \<in> dirt_gamma A s)"
  by (force simp: dirt_sets_def)

interpretation dirt_set: set_analysis_contract T "clean_env E" "dirt_analysis T (clean_env E)" "dirt_wf (ASSOCIATIVITY T)"
  "dirt_sets (ASSOCIATIVITY T)" "lru_access (ASSOCIATIVITY T)" "\<lambda>_ q. q" "\<lambda>_ q. q"
  "\<lambda>q t. t \<in> set q" "lru_start (ASSOCIATIVITY T)" for T E
proof
  fix b assume T: "traits_ok T"
  note i = ds_init_sound [OF T, of b "clean_env E"]
  show "dirt_wf (ASSOCIATIVITY T) (sa_init (dirt_analysis T (clean_env E)) b)" using i(1) by (simp add: dirt_analysis_def)
  show "lru_start (ASSOCIATIVITY T) b \<subseteq> dirt_sets (ASSOCIATIVITY T) (sa_init (dirt_analysis T (clean_env E)) b)"
  proof
    fix q assume "q \<in> lru_start (ASSOCIATIVITY T) b"
    then have "(q, {}) \<in> dirty_start (ASSOCIATIVITY T) b (AssumeCleanCache (clean_env E))"
      by (auto simp: lru_start_def dirty_start_def)
    then show "q \<in> dirt_sets (ASSOCIATIVITY T) (sa_init (dirt_analysis T (clean_env E)) b)"
      using i(2) unfolding dirt_sets_iff by (auto simp: dirt_analysis_def)
  qed
next
  fix s q a assume T: "traits_ok T" and s: "dirt_wf (ASSOCIATIVITY T) s" and "q \<in> dirt_sets (ASSOCIATIVITY T) s"
  then obtain D where "(q, D) \<in> dirt_gamma (ASSOCIATIVITY T) s" unfolding dirt_sets_iff by blast
  from ds_classify_sound [OF T s this, of "clean_env E" a]
  show "\<exists>c. sa_classify (dirt_analysis T (clean_env E)) s (aa_of_address a) = Some c \<and> plain_class c \<and>
      (c = CL_HIT \<longrightarrow> getTag T a \<in> set q) \<and>
      (c = CL_MISS \<and> CNN T (clean_env E) (getindex T a) (getTag T a) = 0 \<longrightarrow> getTag T a \<notin> set q)"
    by (simp add: dirt_analysis_def)
next
  fix s q a ls rep and c :: classification
  assume T: "traits_ok T" and s: "dirt_wf (ASSOCIATIVITY T) s" and "q \<in> dirt_sets (ASSOCIATIVITY T) s"
    and h: "must_assumes_hit T c \<Longrightarrow> getTag T a \<in> set q"
  then obtain D where p: "(q, D) \<in> dirt_gamma (ASSOCIATIVITY T) s" unfolding dirt_sets_iff by blast
  obtain s' wb di where u: "ds_update T (clean_env E) s (aa_of_address a) ls rep c = Some (s', if rep then Some (WritebackReport wb di) else None)"
      "dirt_wf (ASSOCIATIVITY T) s'" "dirty_access (ASSOCIATIVITY T) (getTag T a) ls (q, D) \<in> dirt_gamma (ASSOCIATIVITY T) s'"
    using ds_update_sound [OF T s p, of "clean_env E" "aa_of_address a" "getTag T a" c ls rep] h by auto
  have "lru_access (ASSOCIATIVITY T) (getTag T a) q \<in> dirt_sets (ASSOCIATIVITY T) s'"
    using u(3) unfolding dirt_sets_iff by (auto simp: dirty_access_def Let_def)
  then show "\<exists>s' r. sa_update (dirt_analysis T (clean_env E)) s (aa_of_address a) ls None rep c = Some (s', r) \<and>
      dirt_wf (ASSOCIATIVITY T) s' \<and> lru_access (ASSOCIATIVITY T) (getTag T a) q \<in> dirt_sets (ASSOCIATIVITY T) s' \<and> (r \<noteq> None \<longleftrightarrow> rep)"
    using u by (simp add: dirt_analysis_def)
next
  fix s q aa ls rep
  assume T: "traits_ok T" and s: "dirt_wf (ASSOCIATIVITY T) s" and "q \<in> dirt_sets (ASSOCIATIVITY T) s"
    and h: "getTag T (aa_upper (clean_env E) aa) \<noteq> - 1"
  then obtain D where p: "(q, D) \<in> dirt_gamma (ASSOCIATIVITY T) s" unfolding dirt_sets_iff by blast
  obtain s' wb di where u: "ds_potential_update T (clean_env E) s aa ls rep = Some (s', if rep then Some (WritebackReport wb di) else None)"
      "dirt_wf (ASSOCIATIVITY T) s'"
    and x: "\<And>x. (case x of None \<Rightarrow> True | Some t \<Rightarrow> in_range (getTag T (aa_lower (clean_env E) aa)) (getTag T (aa_upper (clean_env E) aa)) t) \<Longrightarrow>
      potential_set (ASSOCIATIVITY T) x ls (q, D) \<in> dirt_gamma (ASSOCIATIVITY T) s'"
    using ds_potential_sound [OF T s p h, of ls rep] by blast
  have "q \<in> dirt_sets (ASSOCIATIVITY T) s'"
    using x [of None] unfolding dirt_sets_iff by (auto simp: potential_set_def)
  moreover have "lru_access (ASSOCIATIVITY T) t q \<in> dirt_sets (ASSOCIATIVITY T) s'"
    if "in_range (getTag T (aa_lower (clean_env E) aa)) (getTag T (aa_upper (clean_env E) aa)) t" for t
    using x [of "Some t"] that unfolding dirt_sets_iff by (auto simp: potential_set_def dirty_access_def Let_def)
  ultimately show "\<exists>s' r. sa_potential (dirt_analysis T (clean_env E)) s aa ls rep = Some (s', r) \<and> dirt_wf (ASSOCIATIVITY T) s' \<and>
      q \<in> dirt_sets (ASSOCIATIVITY T) s' \<and>
      (\<forall>x. in_range (getTag T (aa_lower (clean_env E) aa)) (getTag T (aa_upper (clean_env E) aa)) x \<longrightarrow>
         lru_access (ASSOCIATIVITY T) x q \<in> dirt_sets (ASSOCIATIVITY T) s') \<and> (r \<noteq> None \<longleftrightarrow> rep)"
    using u by (simp add: dirt_analysis_def)
next
  fix x y assume "traits_ok T" and w: "dirt_wf (ASSOCIATIVITY T) x" "dirt_wf (ASSOCIATIVITY T) y"
  show "dirt_wf (ASSOCIATIVITY T) (sa_join (dirt_analysis T (clean_env E)) x y)"
    using ds_join_wf [OF w] by (simp add: dirt_analysis_def)
  show "dirt_sets (ASSOCIATIVITY T) x \<union> dirt_sets (ASSOCIATIVITY T) y \<subseteq> dirt_sets (ASSOCIATIVITY T) (sa_join (dirt_analysis T (clean_env E)) x y)"
    using ds_join_gamma [OF w] by (auto simp: dirt_analysis_def dirt_sets_def)
  assume "sa_lessequal (dirt_analysis T (clean_env E)) x y"
  then show "dirt_sets (ASSOCIATIVITY T) x \<subseteq> dirt_sets (ASSOCIATIVITY T) y"
    using ds_lessequal_gamma [OF w] by (auto simp: dirt_analysis_def dirt_sets_def)
qed (auto simp: dirt_analysis_def ds_enter_def ds_leave_def must_analysis_def may_analysis_def)

section \<open>Properties\<close>

text \<open>
  C25: the dirtiness analysis, started for the empty cache under the clean-cache assumption or for any
  cache, never fails an assertion along any sequence of accesses and potential accesses, keeps
  \<open>checkInvariants\<close> true, and its reports cover the write-back set: if an access writes a dirty line
  back, the report says that a write-back is possible, and if it makes a clean line dirty, the report
  says that the store may dirty.
\<close>

theorem dirtiness_run_sound:
  assumes "traits_ok T" and "b \<longrightarrow> AssumeCleanCache E"
    and "p \<in> dirty_start (ASSOCIATIVITY T) b (AssumeCleanCache E)" and "list_all (dirt_event_ok T E) es"
  shows "\<exists>s' rs. dirt_run T E es (ds_init T E b) = Some (s', rs) \<and> reports_cover T es rs p"
  using dirt_run_sound_from [OF assms(1) ds_init_sound(1) [OF assms(1,2)] _ assms(4), of p]
    ds_init_sound(2) [OF assms(1,2)] assms(3) by blast

definition ex_dirt_events :: "dirt_event list" where
  "ex_dirt_events = [DirtAccess 0 STORE, DirtPotential (aa_of_address 36) STORE (Some 1), DirtAccess 64 LOAD, DirtAccess 96 LOAD,
     DirtAccess 128 LOAD]"

lemma ex_dirt_events_ok: "list_all (dirt_event_ok ex_traits ex_env) ex_dirt_events"
  by code_simp

theorem dirtiness_run_sound_witness:
  "(\<exists>s' rs. dirt_run ex_traits ex_env ex_dirt_events (ds_init ex_traits ex_env True) = Some (s', rs) \<and>
     reports_cover ex_traits ex_dirt_events rs ([], {})) \<and>
   snd (fold (dirt_event_set ex_traits) (take 4 ex_dirt_events) ([], {})) = {0, 1} \<and>
   snd (fold (dirt_event_set ex_traits) ex_dirt_events ([], {})) = {1}"
proof (intro conjI)
  have "([], {}) \<in> dirty_start (ASSOCIATIVITY ex_traits) True (AssumeCleanCache ex_env)"
    by (simp add: dirty_start_def lru_wf_def)
  moreover have "AssumeCleanCache ex_env" by (simp add: ex_env_def)
  ultimately show "\<exists>s' rs. dirt_run ex_traits ex_env ex_dirt_events (ds_init ex_traits ex_env True) = Some (s', rs) \<and>
     reports_cover ex_traits ex_dirt_events rs ([], {})"
    using dirtiness_run_sound [OF ex_traits_ok _ _ ex_dirt_events_ok, of True] by blast
qed (code_simp)+

text \<open>
  The assertion marked unreachable is reachable: with a cache assumed empty but not clean
  (\<open>assumeAnEmptyCache\<close> without \<open>AssumeCleanCache\<close>), four loads of distinct lines of a four-way set
  succeed, \<open>checkInvariants\<close> holds, the fifth line is classified as a miss, and its update fails,
  because the first line is evicted from the may analysis while \<open>implicitDirty\<close> is still set.
\<close>

theorem dirtiness_empty_unclean_fails:
  "let E = ex_env\<lparr>AssumeCleanCache := False\<rparr> in
   \<exists>s rs. dirt_run ex_traits E [DirtAccess 0 LOAD, DirtAccess 32 LOAD, DirtAccess 64 LOAD, DirtAccess 96 LOAD]
       (ds_init ex_traits E True) = Some (s, rs) \<and>
     ds_check ex_traits s \<and> ds_classify ex_traits E s (aa_of_address 128) = Some CL_MISS \<and>
     ds_update ex_traits E s (aa_of_address 128) LOAD True CL_MISS = None"
proof -
  let ?E = "ex_env\<lparr>AssumeCleanCache := False\<rparr>"
  let ?r = "dirt_run ex_traits ?E [DirtAccess 0 LOAD, DirtAccess 32 LOAD, DirtAccess 64 LOAD, DirtAccess 96 LOAD]
       (ds_init ex_traits ?E True)"
  have "?r \<noteq> None \<and> ds_check ex_traits (fst (the ?r)) \<and>
      ds_classify ex_traits ?E (fst (the ?r)) (aa_of_address 128) = Some CL_MISS \<and>
      ds_update ex_traits ?E (fst (the ?r)) (aa_of_address 128) LOAD True CL_MISS = None"
    by code_simp
  then show ?thesis unfolding Let_def by (cases ?r) auto
qed

end
