(* ===== verification/TA_Topology.thy ===== *)
theory TA_Topology
  imports TA_Cycling_Memory_Sound TA_Set_Analysis
begin

text \<open>
  The memory topologies without caches: the interface the pipeline sees
  (\<open>include/Memory/MemoryTopologyInterface.h\<close>), one memory shared by instructions and data
  (\<open>SingleMemoryTopology.h\<close>), and separate memories (\<open>SeparateMemoriesTopology.h\<close>).  The memories are
  arguments, as they are template parameters of the code.  The access queues are lists; \<open>None\<close> is a
  failed assertion, and the lists of states are the cases the analysis splits into.
\<close>

section \<open>The interface\<close>

record mem_access =
  ma_id :: "32 word"
  ma_addr :: abs_address
  ma_load_store :: access_type
  ma_words :: "32 word"

record ('t, 'l) memory_topology =
  mt_init :: 't
  mt_metrics :: "'t \<Rightarrow> 'l"
  mt_reset :: "'t \<Rightarrow> 't"
  mt_access_instr :: "address \<Rightarrow> 32 word \<Rightarrow> 't \<Rightarrow> (32 word option \<times> 't) option"
  mt_access_data :: "abs_address \<Rightarrow> access_type \<Rightarrow> 32 word \<Rightarrow> 't \<Rightarrow> (32 word option \<times> 't) option"
  mt_cycle :: "bool \<Rightarrow> 't \<Rightarrow> 't list option"
  mt_stall :: "'t \<Rightarrow> bool option"
  mt_finished_instr :: "32 word \<Rightarrow> 't \<Rightarrow> bool \<times> 't"
  mt_finished_data :: "32 word \<Rightarrow> 't \<Rightarrow> bool \<times> 't"
  mt_enter :: "scope \<Rightarrow> 't \<Rightarrow> 't"
  mt_leave :: "scope \<Rightarrow> 't \<Rightarrow> 't"
  mt_unfinished :: "'t \<Rightarrow> bool"
  mt_equals :: "'t \<Rightarrow> 't \<Rightarrow> bool"
  mt_waiting_join :: "'t \<Rightarrow> bool"
  mt_joinable :: "'t \<Rightarrow> 't \<Rightarrow> bool"
  mt_join :: "'t \<Rightarrow> 't \<Rightarrow> 't option"
  mt_busy_instr :: "'t \<Rightarrow> bool"
  mt_busy_data :: "'t \<Rightarrow> bool"
  mt_ff :: "'t \<Rightarrow> 't list option"

text \<open>The options the topologies read.\<close>

record topology_options =
  strict_inorder :: bool
  separate_caches :: bool
  Ilinesize :: "32 word"
  Dlinesize :: "32 word"
  stall_on_nothing :: bool

definition ids_equal :: "32 word \<Rightarrow> 32 word \<Rightarrow> 32 word \<Rightarrow> 32 word \<Rightarrow> bool" where
  "ids_equal first second firstCurrent secondCurrent \<longleftrightarrow>
     (first = 0 \<and> second = 0) \<or> ((first \<noteq> 0 \<and> second \<noteq> 0) \<and> first - firstCurrent = second - secondCurrent)"

definition accesses_equal :: "ana_env \<Rightarrow> mem_access \<Rightarrow> mem_access \<Rightarrow> 32 word \<Rightarrow> 32 word \<Rightarrow> bool" where
  "accesses_equal E a b id1 id2 \<longleftrightarrow> ma_id a - id1 = ma_id b - id2 \<and> aa_same_interval E (ma_addr a) (ma_addr b) \<and>
     ma_load_store a = ma_load_store b \<and> ma_words a = ma_words b"

definition access_elements_equal ::
  "ana_env \<Rightarrow> mem_access option \<Rightarrow> mem_access option \<Rightarrow> 32 word \<Rightarrow> 32 word \<Rightarrow> bool" where
  "access_elements_equal E a b id1 id2 =
     (case (a, b) of (None, None) \<Rightarrow> True | (Some x, Some y) \<Rightarrow> accesses_equal E x y id1 id2 | _ \<Rightarrow> False)"

text \<open>Only the fronts of the queues are compared.\<close>

definition queues_equal :: "ana_env \<Rightarrow> mem_access list \<Rightarrow> mem_access list \<Rightarrow> 32 word \<Rightarrow> 32 word \<Rightarrow> bool" where
  "queues_equal E q1 q2 id1 id2 \<longleftrightarrow> length q1 = length q2 \<and>
     (length q1 = 0 \<or> accesses_equal E (hd q1) (hd q2) id1 id2)"

text \<open>\<open>incrementCurrentId\<close>, the same in every topology: zero is skipped.\<close>

definition next_id :: "32 word \<Rightarrow> 32 word" where
  "next_id i = (let j = i + 1 in if j = 0 then j + 1 else j)"

lemma next_id_nonzero: "next_id i \<noteq> 0"
  by (simp add: next_id_def Let_def)

text \<open>All cases of a list of states; \<open>None\<close> if one of them fails.\<close>

definition all_cases :: "('a \<Rightarrow> 'b list option) \<Rightarrow> 'a list \<Rightarrow> 'b list option" where
  "all_cases f xs = map_option concat (those (List.map f xs))"

lemma all_cases_simps [simp]:
  "all_cases f [] = Some []"
  "all_cases f (x # xs) = (case f x of None \<Rightarrow> None | Some ys \<Rightarrow> map_option ((@) ys) (all_cases f xs))"
  by (auto simp: all_cases_def option.map_comp comp_def split: option.splits)

lemma all_cases_defined:
  assumes "\<And>x. x \<in> set xs \<Longrightarrow> f x \<noteq> None"
  shows "\<exists>ys. all_cases f xs = Some ys \<and> set ys = (\<Union>x\<in>set xs. set (the (f x)))"
  using assms by (induction xs) force+

lemma all_cases_Some:
  "all_cases f xs = Some ys \<Longrightarrow> set ys = (\<Union>x\<in>set xs. set (the (f x))) \<and> (\<forall>x\<in>set xs. f x \<noteq> None)"
  by (induction xs arbitrary: ys) (force split: option.splits)+

section \<open>One memory\<close>

record 'm single_topology =
  sm_memory :: 'm
  sm_instr_queue :: "mem_access list"
  sm_data_queue :: "mem_access list"
  sm_current_id :: "32 word"
  sm_accessed_id :: "32 word"
  sm_finished :: "32 word"
  sm_accesses_instr :: bool
  sm_waiting_join :: bool

definition sm_init :: "('m, 'l) cycling_memory \<Rightarrow> 'm single_topology" where
  "sm_init M = \<lparr>sm_memory = am_init M, sm_instr_queue = [], sm_data_queue = [], sm_current_id = 1, sm_accessed_id = 0,
     sm_finished = 0, sm_accesses_instr = False, sm_waiting_join = False\<rparr>"

definition sm_metrics :: "('m, 'l) cycling_memory \<Rightarrow> 'm single_topology \<Rightarrow> 'l" where
  "sm_metrics M s = am_metrics M (sm_memory s)"

definition sm_reset :: "('m, 'l) cycling_memory \<Rightarrow> 'm single_topology \<Rightarrow> 'm single_topology" where
  "sm_reset M s = s\<lparr>sm_memory := am_reset M (sm_memory s)\<rparr>"

definition sm_setcurrentid :: "32 word \<Rightarrow> 'm single_topology \<Rightarrow> 'm single_topology" where
  "sm_setcurrentid i s = s\<lparr>sm_current_id := i\<rparr>"

definition sm_access_instr ::
  "topology_options \<Rightarrow> address \<Rightarrow> 32 word \<Rightarrow> 'm single_topology \<Rightarrow> (32 word option \<times> 'm single_topology) option" where
  "sm_access_instr Op addr numWords s =
     (if separate_caches Op \<and> numWords \<noteq> Ilinesize Op div 4 then None
      else let resId = sm_current_id s;
               q = (if length (sm_instr_queue s) > 0 then tl (sm_instr_queue s) else sm_instr_queue s)
           in Some (Some resId, s\<lparr>sm_instr_queue := q @ [\<lparr>ma_id = resId, ma_addr = aa_of_address addr, ma_load_store = LOAD,
                                                ma_words = numWords\<rparr>],
                         sm_current_id := next_id (sm_current_id s)\<rparr>))"

definition sm_access_data ::
  "topology_options \<Rightarrow> abs_address \<Rightarrow> access_type \<Rightarrow> 32 word \<Rightarrow> 'm single_topology \<Rightarrow>
     (32 word option \<times> 'm single_topology) option" where
  "sm_access_data Op addr ls numWords s =
     (if separate_caches Op \<and> ls = LOAD \<and> numWords \<noteq> Dlinesize Op div 4 then None
      else if length (sm_data_queue s) = 0 then
        let resId = sm_current_id s
        in Some (Some resId, s\<lparr>sm_data_queue := sm_data_queue s @ [\<lparr>ma_id = resId, ma_addr = addr, ma_load_store = ls,
                                              ma_words = numWords\<rparr>],
                       sm_current_id := next_id (sm_current_id s)\<rparr>)
      else Some (None, s))"

definition sm_access_memory ::
  "('m, 'l) cycling_memory \<Rightarrow> mem_access \<Rightarrow> 'm single_topology \<Rightarrow> 'm single_topology list option" where
  "sm_access_memory M a s =
     map_option (List.map (\<lambda>m. s\<lparr>sm_accessed_id := ma_id a, sm_memory := m\<rparr>))
       (am_announce M (ma_addr a) (ma_load_store a) (ma_words a) (sm_memory s))"

definition sm_finish_access :: "'m single_topology \<Rightarrow> 'm single_topology" where
  "sm_finish_access s = s\<lparr>sm_finished := sm_accessed_id s, sm_waiting_join := True, sm_accessed_id := 0\<rparr>"

text \<open>The first half of \<open>cycle\<close>: the next access is taken from a queue, data first.\<close>

definition sm_start ::
  "topology_options \<Rightarrow> ('m, 'l) cycling_memory \<Rightarrow> bool \<Rightarrow> 'm single_topology \<Rightarrow> 'm single_topology list option" where
  "sm_start Op M potentialDataMissesPending s =
     (if sm_accessed_id s = 0 then
        case sm_data_queue s of
          a # q \<Rightarrow> map_option (List.map (\<lambda>r. r\<lparr>sm_data_queue := tl (sm_data_queue r), sm_accesses_instr := False\<rparr>))
                    (sm_access_memory M a s)
        | [] \<Rightarrow>
            case sm_instr_queue s of
              [] \<Rightarrow> Some [s]
            | a # q \<Rightarrow>
                if \<not> strict_inorder Op \<or> \<not> potentialDataMissesPending then
                  if potentialDataMissesPending then None
                  else map_option (List.map (\<lambda>r. r\<lparr>sm_instr_queue := tl (sm_instr_queue r), sm_accesses_instr := True\<rparr>))
                         (sm_access_memory M a s)
                else Some [s]
      else Some [s])"

text \<open>The second half, for one of the states and one of its cycled memories.\<close>

definition sm_cycled :: "('m, 'l) cycling_memory \<Rightarrow> 'm single_topology \<Rightarrow> 'm \<Rightarrow> 'm single_topology option" where
  "sm_cycled M r m =
     (let n = r\<lparr>sm_waiting_join := False, sm_memory := m, sm_finished := 0\<rparr>;
          n' = (if sm_accessed_id n > 0 \<and> \<not> am_busy M (sm_memory n) then sm_finish_access n else n)
      in if sm_waiting_join n' \<and> sm_accessed_id n' \<noteq> 0 then None else Some n')"

definition sm_cycle ::
  "topology_options \<Rightarrow> ('m, 'l) cycling_memory \<Rightarrow> bool \<Rightarrow> 'm single_topology \<Rightarrow> 'm single_topology list option" where
  "sm_cycle Op M potentialDataMissesPending s =
     (case sm_start Op M potentialDataMissesPending s of None \<Rightarrow> None
      | Some rs \<Rightarrow>
          all_cases (\<lambda>r. case am_cycle M (sm_memory r) of None \<Rightarrow> None
                         | Some ms \<Rightarrow> those (List.map (sm_cycled M r) ms)) rs)"

definition sm_stall :: "('m, 'l) cycling_memory \<Rightarrow> 'm single_topology \<Rightarrow> bool option" where
  "sm_stall M s = Some (am_stall M (sm_memory s))"

text \<open>\<open>finishedInstrAccess\<close> and \<open>finishedDataAccess\<close> have the same body.\<close>

definition sm_finished_access :: "32 word \<Rightarrow> 'm single_topology \<Rightarrow> bool \<times> 'm single_topology" where
  "sm_finished_access i s = (let res = (sm_finished s = i) in (res, if res then s\<lparr>sm_finished := 0\<rparr> else s))"

definition sm_unfinished :: "'m single_topology \<Rightarrow> bool" where
  "sm_unfinished s \<longleftrightarrow> sm_accessed_id s \<noteq> 0 \<or> sm_data_queue s \<noteq> [] \<or> sm_instr_queue s \<noteq> []"

definition sm_ids_equal :: "ana_env \<Rightarrow> 'm single_topology \<Rightarrow> 'm single_topology \<Rightarrow> bool" where
  "sm_ids_equal E x y \<longleftrightarrow>
     queues_equal E (sm_instr_queue x) (sm_instr_queue y) (sm_current_id x) (sm_current_id y) \<and>
     queues_equal E (sm_data_queue x) (sm_data_queue y) (sm_current_id x) (sm_current_id y) \<and>
     ids_equal (sm_accessed_id x) (sm_accessed_id y) (sm_current_id x) (sm_current_id y) \<and>
     ids_equal (sm_finished x) (sm_finished y) (sm_current_id x) (sm_current_id y)"

definition sm_equals :: "ana_env \<Rightarrow> ('m, 'l) cycling_memory \<Rightarrow> 'm single_topology \<Rightarrow> 'm single_topology \<Rightarrow> bool" where
  "sm_equals E M x y \<longleftrightarrow> am_equals M (sm_memory x) (sm_memory y) \<and> sm_ids_equal E x y \<and>
     sm_waiting_join x = sm_waiting_join y"

definition sm_joinable :: "ana_env \<Rightarrow> ('m, 'l) cycling_memory \<Rightarrow> 'm single_topology \<Rightarrow> 'm single_topology \<Rightarrow> bool" where
  "sm_joinable E M x y \<longleftrightarrow> am_joinable M (sm_memory x) (sm_memory y) \<and> sm_ids_equal E x y"

definition sm_join ::
  "ana_env \<Rightarrow> ('m, 'l) cycling_memory \<Rightarrow> 'm single_topology \<Rightarrow> 'm single_topology \<Rightarrow> 'm single_topology option" where
  "sm_join E M x y =
     (if \<not> sm_joinable E M x y then None
      else map_option (\<lambda>m. x\<lparr>sm_waiting_join := sm_waiting_join x \<or> sm_waiting_join y, sm_memory := m\<rparr>)
             (am_join M (sm_memory x) (sm_memory y)))"

definition sm_busy_instr :: "'m single_topology \<Rightarrow> bool" where
  "sm_busy_instr s \<longleftrightarrow> sm_instr_queue s \<noteq> [] \<or> (sm_accessed_id s > 0 \<and> sm_accesses_instr s)"

definition sm_busy_data :: "'m single_topology \<Rightarrow> bool" where
  "sm_busy_data s \<longleftrightarrow> sm_data_queue s \<noteq> [] \<or> (sm_accessed_id s > 0 \<and> \<not> sm_accesses_instr s)"

definition sm_fast_forward :: "('m, 'l) cycling_memory \<Rightarrow> 'm single_topology \<Rightarrow> 'm single_topology list option" where
  "sm_fast_forward M s =
     (if am_busy M (sm_memory s) then
        if \<not> sm_accessed_id s > 0 then None
        else map_option (List.map (\<lambda>m. s\<lparr>sm_memory := m\<rparr>)) (am_ff M (sm_memory s))
      else Some [s])"

definition single_topology_of ::
  "ana_env \<Rightarrow> topology_options \<Rightarrow> ('m, 'l) cycling_memory \<Rightarrow> ('m single_topology, 'l) memory_topology" where
  "single_topology_of E Op M =
     \<lparr>mt_init = sm_init M, mt_metrics = sm_metrics M, mt_reset = sm_reset M,
      mt_access_instr = sm_access_instr Op, mt_access_data = sm_access_data Op, mt_cycle = sm_cycle Op M,
      mt_stall = sm_stall M, mt_finished_instr = sm_finished_access, mt_finished_data = sm_finished_access,
      mt_enter = (\<lambda>_ s. s), mt_leave = (\<lambda>_ s. s), mt_unfinished = sm_unfinished, mt_equals = sm_equals E M,
      mt_waiting_join = sm_waiting_join, mt_joinable = sm_joinable E M, mt_join = sm_join E M,
      mt_busy_instr = sm_busy_instr, mt_busy_data = sm_busy_data, mt_ff = sm_fast_forward M\<rparr>"

section \<open>Separate memories\<close>

record ('m, 'n) separate_topology =
  se_instr_memory :: 'm
  se_data_memory :: 'n
  se_instr_queue :: "mem_access list"
  se_data_queue :: "mem_access list"
  se_current_id :: "32 word"
  se_instr_accessed :: "32 word"
  se_data_accessed :: "32 word"
  se_instr_finished :: "32 word"
  se_data_finished :: "32 word"

definition se_init :: "('m, 'l) cycling_memory \<Rightarrow> ('n, 'k) cycling_memory \<Rightarrow> ('m, 'n) separate_topology" where
  "se_init M N = \<lparr>se_instr_memory = am_init M, se_data_memory = am_init N, se_instr_queue = [], se_data_queue = [],
     se_current_id = 1, se_instr_accessed = 0, se_data_accessed = 0, se_instr_finished = 0, se_data_finished = 0\<rparr>"

definition se_metrics ::
  "('m, 'l) cycling_memory \<Rightarrow> ('n, 'k) cycling_memory \<Rightarrow> ('m, 'n) separate_topology \<Rightarrow> 'l \<times> 'k" where
  "se_metrics M N s = (am_metrics M (se_instr_memory s), am_metrics N (se_data_memory s))"

definition se_reset ::
  "('m, 'l) cycling_memory \<Rightarrow> ('n, 'k) cycling_memory \<Rightarrow> ('m, 'n) separate_topology \<Rightarrow> ('m, 'n) separate_topology" where
  "se_reset M N s = s\<lparr>se_instr_memory := am_reset M (se_instr_memory s), se_data_memory := am_reset N (se_data_memory s)\<rparr>"

definition se_access_instr ::
  "address \<Rightarrow> 32 word \<Rightarrow> ('m, 'n) separate_topology \<Rightarrow> (32 word option \<times> ('m, 'n) separate_topology) option" where
  "se_access_instr addr numWords s =
     (let resId = se_current_id s;
          q = (if length (se_instr_queue s) > 0 then tl (se_instr_queue s) else se_instr_queue s)
      in Some (Some resId, s\<lparr>se_instr_queue := q @ [\<lparr>ma_id = resId, ma_addr = aa_of_address addr, ma_load_store = LOAD,
                                           ma_words = numWords\<rparr>],
                    se_current_id := next_id (se_current_id s)\<rparr>))"

definition se_access_data ::
  "abs_address \<Rightarrow> access_type \<Rightarrow> 32 word \<Rightarrow> ('m, 'n) separate_topology \<Rightarrow>
     (32 word option \<times> ('m, 'n) separate_topology) option" where
  "se_access_data addr ls numWords s =
     (if length (se_data_queue s) = 0 then
        let resId = se_current_id s
        in Some (Some resId, s\<lparr>se_data_queue := se_data_queue s @ [\<lparr>ma_id = resId, ma_addr = addr, ma_load_store = ls,
                                              ma_words = numWords\<rparr>],
                       se_current_id := next_id (se_current_id s)\<rparr>)
      else Some (None, s))"

definition se_access_instr_memory ::
  "('m, 'l) cycling_memory \<Rightarrow> mem_access \<Rightarrow> ('m, 'n) separate_topology \<Rightarrow> ('m, 'n) separate_topology list option" where
  "se_access_instr_memory M a s =
     map_option (List.map (\<lambda>m. s\<lparr>se_instr_accessed := ma_id a, se_instr_memory := m\<rparr>))
       (am_announce M (ma_addr a) (ma_load_store a) (ma_words a) (se_instr_memory s))"

definition se_access_data_memory ::
  "('n, 'k) cycling_memory \<Rightarrow> mem_access \<Rightarrow> ('m, 'n) separate_topology \<Rightarrow> ('m, 'n) separate_topology list option" where
  "se_access_data_memory N a s =
     map_option (List.map (\<lambda>m. s\<lparr>se_data_accessed := ma_id a, se_data_memory := m\<rparr>))
       (am_announce N (ma_addr a) (ma_load_store a) (ma_words a) (se_data_memory s))"

definition se_finish_instr :: "('m, 'n) separate_topology \<Rightarrow> ('m, 'n) separate_topology" where
  "se_finish_instr s = s\<lparr>se_instr_finished := se_instr_accessed s, se_instr_accessed := 0\<rparr>"

definition se_finish_data :: "('m, 'n) separate_topology \<Rightarrow> ('m, 'n) separate_topology" where
  "se_finish_data s = s\<lparr>se_data_finished := se_data_accessed s, se_data_accessed := 0\<rparr>"

definition se_start_instr ::
  "('m, 'l) cycling_memory \<Rightarrow> ('m, 'n) separate_topology \<Rightarrow> ('m, 'n) separate_topology list option" where
  "se_start_instr M s =
     (if se_instr_accessed s = 0 \<and> se_instr_queue s \<noteq> [] then
        map_option (List.map (\<lambda>r. r\<lparr>se_instr_queue := tl (se_instr_queue r)\<rparr>))
          (se_access_instr_memory M (hd (se_instr_queue s)) s)
      else Some [s])"

text \<open>An empty list of cases falls back to the states before the data access.\<close>

definition se_start_data ::
  "('n, 'k) cycling_memory \<Rightarrow> ('m, 'n) separate_topology \<Rightarrow> ('m, 'n) separate_topology list \<Rightarrow>
     ('m, 'n) separate_topology list option" where
  "se_start_data N s rs =
     map_option (\<lambda>rs2. if rs2 = [] then rs else rs2)
       (if se_data_accessed s = 0 \<and> se_data_queue s \<noteq> [] then
          all_cases (\<lambda>r. map_option (List.map (\<lambda>t. t\<lparr>se_data_queue := tl (se_data_queue t)\<rparr>))
                           (se_access_data_memory N (hd (se_data_queue s)) r)) rs
        else Some [])"

definition se_cycled ::
  "('m, 'l) cycling_memory \<Rightarrow> ('n, 'k) cycling_memory \<Rightarrow> ('m, 'n) separate_topology \<Rightarrow> 'm \<Rightarrow> 'n \<Rightarrow> ('m, 'n) separate_topology" where
  "se_cycled M N r im dm =
     (let n = r\<lparr>se_instr_memory := im, se_data_memory := dm, se_instr_finished := 0, se_data_finished := 0\<rparr>;
          n1 = (if se_instr_accessed n > 0 \<and> \<not> am_busy M (se_instr_memory n) then se_finish_instr n else n)
      in if se_data_accessed n1 > 0 \<and> \<not> am_busy N (se_data_memory n1) then se_finish_data n1 else n1)"

definition se_cycle ::
  "('m, 'l) cycling_memory \<Rightarrow> ('n, 'k) cycling_memory \<Rightarrow> bool \<Rightarrow> ('m, 'n) separate_topology \<Rightarrow>
     ('m, 'n) separate_topology list option" where
  "se_cycle M N potentialDataMissesPending s =
     (case se_start_instr M s of None \<Rightarrow> None
      | Some rs \<Rightarrow>
          (case se_start_data N s rs of None \<Rightarrow> None
           | Some rs2 \<Rightarrow>
               all_cases (\<lambda>r. case (am_cycle M (se_instr_memory r), am_cycle N (se_data_memory r)) of
                                (Some ims, Some dms) \<Rightarrow> Some (concat (List.map (\<lambda>im. List.map (se_cycled M N r im) dms) ims))
                              | _ \<Rightarrow> None) rs2))"

definition se_stall :: "topology_options \<Rightarrow> ('m, 'n) separate_topology \<Rightarrow> bool option" where
  "se_stall Op s = (if \<not> stall_on_nothing Op then None else Some False)"

definition se_finished_instr_access ::
  "32 word \<Rightarrow> ('m, 'n) separate_topology \<Rightarrow> bool \<times> ('m, 'n) separate_topology" where
  "se_finished_instr_access i s =
     (let res = (se_instr_finished s = i) in (res, if res then s\<lparr>se_instr_finished := 0\<rparr> else s))"

definition se_finished_data_access ::
  "32 word \<Rightarrow> ('m, 'n) separate_topology \<Rightarrow> bool \<times> ('m, 'n) separate_topology" where
  "se_finished_data_access i s =
     (let res = (se_data_finished s = i) in (res, if res then s\<lparr>se_data_finished := 0\<rparr> else s))"

definition se_unfinished :: "('m, 'n) separate_topology \<Rightarrow> bool" where
  "se_unfinished s \<longleftrightarrow> se_instr_accessed s \<noteq> 0 \<or> se_data_accessed s \<noteq> 0"

definition se_ids_equal :: "ana_env \<Rightarrow> ('m, 'n) separate_topology \<Rightarrow> ('m, 'n) separate_topology \<Rightarrow> bool" where
  "se_ids_equal E x y \<longleftrightarrow>
     queues_equal E (se_instr_queue x) (se_instr_queue y) (se_current_id x) (se_current_id y) \<and>
     queues_equal E (se_data_queue x) (se_data_queue y) (se_current_id x) (se_current_id y) \<and>
     ids_equal (se_instr_accessed x) (se_instr_accessed y) (se_current_id x) (se_current_id y) \<and>
     ids_equal (se_instr_finished x) (se_instr_finished y) (se_current_id x) (se_current_id y) \<and>
     ids_equal (se_data_accessed x) (se_data_accessed y) (se_current_id x) (se_current_id y) \<and>
     ids_equal (se_data_finished x) (se_data_finished y) (se_current_id x) (se_current_id y)"

definition se_equals ::
  "ana_env \<Rightarrow> ('m, 'l) cycling_memory \<Rightarrow> ('n, 'k) cycling_memory \<Rightarrow> ('m, 'n) separate_topology \<Rightarrow> ('m, 'n) separate_topology \<Rightarrow> bool" where
  "se_equals E M N x y \<longleftrightarrow> am_equals M (se_instr_memory x) (se_instr_memory y) \<and>
     am_equals N (se_data_memory x) (se_data_memory y) \<and> se_ids_equal E x y"

definition se_joinable ::
  "ana_env \<Rightarrow> ('m, 'l) cycling_memory \<Rightarrow> ('n, 'k) cycling_memory \<Rightarrow> ('m, 'n) separate_topology \<Rightarrow> ('m, 'n) separate_topology \<Rightarrow> bool" where
  "se_joinable E M N x y \<longleftrightarrow> am_joinable M (se_instr_memory x) (se_instr_memory y) \<and>
     am_joinable N (se_data_memory x) (se_data_memory y) \<and> se_ids_equal E x y"

definition se_join ::
  "ana_env \<Rightarrow> ('m, 'l) cycling_memory \<Rightarrow> ('n, 'k) cycling_memory \<Rightarrow> ('m, 'n) separate_topology \<Rightarrow> ('m, 'n) separate_topology \<Rightarrow>
     ('m, 'n) separate_topology option" where
  "se_join E M N x y =
     (if \<not> se_joinable E M N x y then None
      else case (am_join M (se_instr_memory x) (se_instr_memory y), am_join N (se_data_memory x) (se_data_memory y)) of
             (Some im, Some dm) \<Rightarrow> Some (x\<lparr>se_instr_memory := im, se_data_memory := dm\<rparr>)
           | _ \<Rightarrow> None)"

definition se_busy_instr :: "('m, 'n) separate_topology \<Rightarrow> bool" where
  "se_busy_instr s \<longleftrightarrow> se_instr_queue s \<noteq> [] \<or> se_instr_accessed s > 0"

definition se_busy_data :: "('m, 'n) separate_topology \<Rightarrow> bool" where
  "se_busy_data s \<longleftrightarrow> se_data_queue s \<noteq> [] \<or> se_data_accessed s > 0"

definition se_fast_forward ::
  "('m, 'l) cycling_memory \<Rightarrow> ('n, 'k) cycling_memory \<Rightarrow> ('m, 'n) separate_topology \<Rightarrow> ('m, 'n) separate_topology list option" where
  "se_fast_forward M N s =
     (if se_busy_instr s \<and> se_busy_data s then Some [s]
      else if se_busy_instr s \<and> am_busy M (se_instr_memory s) then
        if \<not> se_instr_accessed s > 0 then None
        else map_option (List.map (\<lambda>m. s\<lparr>se_instr_memory := m\<rparr>)) (am_ff M (se_instr_memory s))
      else if se_busy_data s \<and> am_busy N (se_data_memory s) then
        if \<not> se_data_accessed s > 0 then None
        else map_option (List.map (\<lambda>m. s\<lparr>se_data_memory := m\<rparr>)) (am_ff N (se_data_memory s))
      else Some [s])"

definition separate_topology_of ::
  "ana_env \<Rightarrow> topology_options \<Rightarrow> ('m, 'l) cycling_memory \<Rightarrow> ('n, 'k) cycling_memory \<Rightarrow>
     (('m, 'n) separate_topology, 'l \<times> 'k) memory_topology" where
  "separate_topology_of E Op M N =
     \<lparr>mt_init = se_init M N, mt_metrics = se_metrics M N, mt_reset = se_reset M N,
      mt_access_instr = se_access_instr, mt_access_data = se_access_data, mt_cycle = se_cycle M N,
      mt_stall = se_stall Op, mt_finished_instr = se_finished_instr_access, mt_finished_data = se_finished_data_access,
      mt_enter = (\<lambda>_ s. s), mt_leave = (\<lambda>_ s. s), mt_unfinished = se_unfinished, mt_equals = se_equals E M N,
      mt_waiting_join = (\<lambda>_. False), mt_joinable = se_joinable E M N, mt_join = se_join E M N,
      mt_busy_instr = se_busy_instr, mt_busy_data = se_busy_data, mt_ff = se_fast_forward M N\<rparr>"

end
