(* ===== verification/TA_Cached_Topology.thy ===== *)
theory TA_Cached_Topology
  imports TA_Topology TA_Abstract_Cache
begin

text \<open>
  The topology with separate first-level caches for instructions and data, a shared second-level cache
  and a background topology (\<open>include/Memory/JJYSeparateCachesMemoryTopology.h\<close>).  The caches are values
  of the interface \<open>AbstractCache\<close> (\<open>AbstractCache.h\<close>), the background topology is an argument.  \<open>None\<close> is
  a failed assertion; the lists are the cases the analysis splits into.
\<close>

section \<open>The cache interface\<close>

record 'c abstract_cache =
  ac_init :: "bool \<Rightarrow> 'c"
  ac_classify :: "'c \<Rightarrow> abs_address \<Rightarrow> classification option"
  ac_update :: "'c \<Rightarrow> abs_address \<Rightarrow> access_type \<Rightarrow> bool \<Rightarrow> classification \<Rightarrow> ('c \<times> update_report option) option"
  ac_join :: "'c \<Rightarrow> 'c \<Rightarrow> 'c"
  ac_lessequal :: "'c \<Rightarrow> 'c \<Rightarrow> bool"
  ac_enter :: "scope \<Rightarrow> 'c \<Rightarrow> 'c"
  ac_leave :: "scope \<Rightarrow> 'c \<Rightarrow> 'c"
  ac_equals :: "'c \<Rightarrow> 'c \<Rightarrow> bool"
  ac_align :: "address \<Rightarrow> address"
  ac_hit_latency :: "32 word"
  ac_write_policy :: "bool \<times> bool"

definition cache_impl :: "cache_traits \<Rightarrow> ana_env \<Rightarrow> ('s, 'd) set_analysis \<Rightarrow> 's cache abstract_cache" where
  "cache_impl T E An =
     \<lparr>ac_init = cache_init T An, ac_classify = cache_classify T E An,
      ac_update = (\<lambda>cs addr ls rep c. cache_update T E An cs addr ls None rep c),
      ac_join = cache_join T An, ac_lessequal = cache_lessequal T An, ac_enter = cache_enter An, ac_leave = cache_leave An,
      ac_equals = cache_equals, ac_align = alignToCacheline T, ac_hit_latency = of_nat (getHitLatency T),
      ac_write_policy = getWritePolicy T\<rparr>"

section \<open>State\<close>

record cached_options =
  isBCET :: bool
  TimingAnomalyAnalysis :: bool
  PreemptiveExecution :: bool
  instr_persistence :: bool
  data_persistence :: bool
  l2_persistence :: bool
  instr_always_hit :: bool
  data_always_hit :: bool
  follow_instr_miss :: bool
  follow_data_miss :: bool
  UnblockStores :: bool
  StaticallyRefuteWritebacks :: bool
  bound_dirtifying_stores :: bool
  need_accessed_addresses :: bool
  instr_line :: "32 word"
  data_line :: "32 word"

datatype access_phase = WaitForSTART | WaitForLOAD | WaitForCACHE | WaitForSTORE

record ongoing_access =
  oa_access :: mem_access
  oa_phase :: access_phase
  oa_stall :: bool
  oa_bgmem :: "32 word"
  oa_bgl2 :: "32 word"
  oa_l1_blocked :: "32 word"
  oa_l2_blocked :: "32 word"
  oa_class :: classification
  oa_age1 :: int
  oa_age2 :: int

definition new_ongoing :: "mem_access \<Rightarrow> ongoing_access" where
  "new_ongoing a = \<lparr>oa_access = a, oa_phase = WaitForSTART, oa_stall = False, oa_bgmem = 0, oa_bgl2 = 0, oa_l1_blocked = 0,
     oa_l2_blocked = 0, oa_class = CL_BOT, oa_age1 = -1, oa_age2 = -1\<rparr>"

record 'c memory_component =
  co_queue :: "mem_access list"
  co_ongoing :: "ongoing_access option"
  co_finished :: "32 word"
  co_cache :: 'c
  co_updated :: "abs_address option"
  co_missed :: "abs_address option"
  co_dirtified :: "abs_address option"
  co_wrote_back :: bool
  co_misses :: "32 word"
  co_stores :: "32 word"

definition new_component :: "'c \<Rightarrow> 'c memory_component" where
  "new_component c = \<lparr>co_queue = [], co_ongoing = None, co_finished = 0, co_cache = c, co_updated = None, co_missed = None,
     co_dirtified = None, co_wrote_back = False, co_misses = 0, co_stores = 0\<rparr>"

definition opt_aa_eq :: "ana_env \<Rightarrow> abs_address option \<Rightarrow> abs_address option \<Rightarrow> bool" where
  "opt_aa_eq E x y = (case (x, y) of (None, None) \<Rightarrow> True | (Some a, Some b) \<Rightarrow> aa_eq E a b | _ \<Rightarrow> False)"

text \<open>Identifiers of the background are compared only for being zero.\<close>

definition ongoing_equal :: "ana_env \<Rightarrow> ongoing_access \<Rightarrow> ongoing_access \<Rightarrow> 32 word \<Rightarrow> 32 word \<Rightarrow> bool" where
  "ongoing_equal E a b myId mcId \<longleftrightarrow>
     access_elements_equal E (Some (oa_access a)) (Some (oa_access b)) myId mcId \<and>
     ((oa_bgmem a \<noteq> 0 \<and> oa_bgmem b \<noteq> 0) \<or> (oa_bgmem a = 0 \<and> oa_bgmem b = 0)) \<and>
     ((oa_bgl2 a \<noteq> 0 \<and> oa_bgl2 b \<noteq> 0) \<or> (oa_bgl2 a = 0 \<and> oa_bgl2 b = 0)) \<and>
     oa_l1_blocked a = oa_l1_blocked b \<and> oa_l2_blocked a = oa_l2_blocked b \<and> oa_phase a = oa_phase b \<and>
     oa_stall a = oa_stall b \<and> oa_class a = oa_class b"

definition co_equals_without_cache :: "ana_env \<Rightarrow> 'c memory_component \<Rightarrow> 'c memory_component \<Rightarrow> 32 word \<Rightarrow> 32 word \<Rightarrow> bool" where
  "co_equals_without_cache E x y myId mcId \<longleftrightarrow>
     queues_equal E (co_queue x) (co_queue y) myId mcId \<and>
     (case (co_ongoing x, co_ongoing y) of (None, None) \<Rightarrow> True | (Some a, Some b) \<Rightarrow> ongoing_equal E a b myId mcId | _ \<Rightarrow> False) \<and>
     ids_equal (co_finished x) (co_finished y) myId mcId \<and> opt_aa_eq E (co_updated x) (co_updated y) \<and>
     co_wrote_back x = co_wrote_back y \<and> opt_aa_eq E (co_dirtified x) (co_dirtified y)"

definition co_equals :: "ana_env \<Rightarrow> 'c abstract_cache \<Rightarrow> 'c memory_component \<Rightarrow> 'c memory_component \<Rightarrow> 32 word \<Rightarrow> 32 word \<Rightarrow> bool" where
  "co_equals E C x y myId mcId \<longleftrightarrow>
     ac_lessequal C (co_cache x) (co_cache y) \<and> ac_lessequal C (co_cache y) (co_cache x) \<and>
     opt_aa_eq E (co_dirtified x) (co_dirtified y) \<and> co_wrote_back x = co_wrote_back y \<and>
     co_stores x = co_stores y \<and> co_misses x = co_misses y \<and> co_equals_without_cache E x y myId mcId"

definition co_join_cache :: "ana_env \<Rightarrow> 'c abstract_cache \<Rightarrow> 'c memory_component \<Rightarrow> 'c memory_component \<Rightarrow> 'c memory_component option" where
  "co_join_cache E C x y =
     (if \<not> (opt_aa_eq E (co_updated x) (co_updated y) \<and> opt_aa_eq E (co_dirtified x) (co_dirtified y) \<and>
            co_wrote_back x = co_wrote_back y) then None
      else Some (x\<lparr>co_cache := ac_join C (co_cache x) (co_cache y),
                   co_missed := (if \<not> opt_aa_eq E (co_missed x) (co_missed y) then None else co_missed x),
                   co_misses := max (co_misses x) (co_misses y), co_stores := max (co_stores x) (co_stores y)\<rparr>))"

record ('i, 'd, 'u, 't) cached_topology =
  jt_memory :: 't
  jt_current_id :: "32 word"
  jt_instr :: "'i memory_component"
  jt_data :: "'d memory_component"
  jt_l2 :: "'u memory_component"
  jt_entered :: "scope set option"

text \<open>The template parameters: options, environment, the three caches and the background topology.\<close>

record ('i, 'd, 'u, 't, 'l) cached_config =
  jc_options :: cached_options
  jc_env :: ana_env
  jc_instr :: "'i abstract_cache"
  jc_data :: "'d abstract_cache"
  jc_l2 :: "'u abstract_cache"
  jc_memory :: "('t, 'l) memory_topology"

definition jt_init :: "('i, 'd, 'u, 't, 'l) cached_config \<Rightarrow> ('i, 'd, 'u, 't) cached_topology" where
  "jt_init J = \<lparr>jt_memory = mt_init (jc_memory J), jt_current_id = 1, jt_instr = new_component (ac_init (jc_instr J) False),
     jt_data = new_component (ac_init (jc_data J) False), jt_l2 = new_component (ac_init (jc_l2 J) False), jt_entered = None\<rparr>"

section \<open>Metrics\<close>

record ('i, 'd, 'u, 'l) cached_metrics =
  jm_missed_instr :: "abs_address option"
  jm_missed_data :: "abs_address option"
  jm_missed_l2 :: "abs_address option"
  jm_entered :: "scope set option"
  jm_updated_instr :: "abs_address option"
  jm_updated_data :: "abs_address option"
  jm_dirtified :: "abs_address option"
  jm_wrote_back :: bool
  jm_instr_misses :: "32 word"
  jm_data_misses :: "32 word"
  jm_l2_misses :: "32 word"
  jm_stores :: "32 word"
  jm_instr_cache :: 'i
  jm_data_cache :: 'd
  jm_l2_cache :: 'u
  jm_memory :: 'l

definition jt_metrics :: "('i, 'd, 'u, 't, 'l) cached_config \<Rightarrow> ('i, 'd, 'u, 't) cached_topology \<Rightarrow> ('i, 'd, 'u, 'l) cached_metrics" where
  "jt_metrics J s =
     \<lparr>jm_missed_instr = co_missed (jt_instr s), jm_missed_data = co_missed (jt_data s), jm_missed_l2 = co_missed (jt_l2 s),
      jm_entered = jt_entered s, jm_updated_instr = co_updated (jt_instr s), jm_updated_data = co_updated (jt_data s),
      jm_dirtified = co_dirtified (jt_data s), jm_wrote_back = co_wrote_back (jt_data s),
      jm_instr_misses = co_misses (jt_instr s), jm_data_misses = co_misses (jt_data s), jm_l2_misses = co_misses (jt_l2 s),
      jm_stores = co_stores (jt_data s), jm_instr_cache = co_cache (jt_instr s), jm_data_cache = co_cache (jt_data s),
      jm_l2_cache = co_cache (jt_l2 s), jm_memory = mt_metrics (jc_memory J) (jt_memory s)\<rparr>"

text \<open>\<open>resetLocalMetrics\<close>; the instruction part keeps its write-back fields.\<close>

definition co_reset_events :: "'c memory_component \<Rightarrow> 'c memory_component" where
  "co_reset_events c = c\<lparr>co_missed := None, co_updated := None, co_dirtified := None, co_wrote_back := False\<rparr>"

definition jt_reset :: "('i, 'd, 'u, 't, 'l) cached_config \<Rightarrow> ('i, 'd, 'u, 't) cached_topology \<Rightarrow> ('i, 'd, 'u, 't) cached_topology" where
  "jt_reset J s = s\<lparr>jt_instr := (jt_instr s)\<lparr>co_missed := None, co_updated := None, co_misses := 0, co_stores := 0\<rparr>,
     jt_entered := None, jt_data := (co_reset_events (jt_data s))\<lparr>co_misses := 0, co_stores := 0\<rparr>,
     jt_l2 := (co_reset_events (jt_l2 s))\<lparr>co_misses := 0, co_stores := 0\<rparr>,
     jt_memory := mt_reset (jc_memory J) (jt_memory s)\<rparr>"

section \<open>Requests\<close>

definition jt_access_instr ::
  "address \<Rightarrow> 32 word \<Rightarrow> ('i, 'd, 'u, 't) cached_topology \<Rightarrow> (32 word option \<times> ('i, 'd, 'u, 't) cached_topology) option" where
  "jt_access_instr addr numWords s =
     (let c = jt_instr s; resId = jt_current_id s;
          q = (if length (co_queue c) > 0 then tl (co_queue c) else co_queue c)
      in Some (Some resId, s\<lparr>jt_instr := c\<lparr>co_queue := q @ [\<lparr>ma_id = resId, ma_addr = aa_of_address addr, ma_load_store = LOAD,
                                               ma_words = numWords\<rparr>]\<rparr>,
                    jt_current_id := next_id (jt_current_id s)\<rparr>))"

definition jt_access_l2 ::
  "address \<Rightarrow> access_type \<Rightarrow> 32 word \<Rightarrow> ('i, 'd, 'u, 't) cached_topology \<Rightarrow> (32 word option \<times> ('i, 'd, 'u, 't) cached_topology) option" where
  "jt_access_l2 addr ls numWords s = Some (Some (jt_current_id s), s)"

definition jt_access_data ::
  "abs_address \<Rightarrow> access_type \<Rightarrow> 32 word \<Rightarrow> ('i, 'd, 'u, 't) cached_topology \<Rightarrow>
     (32 word option \<times> ('i, 'd, 'u, 't) cached_topology) option" where
  "jt_access_data addr ls numWords s =
     (let c = jt_data s in
      if length (co_queue c) = 0 then
        let resId = jt_current_id s
        in Some (Some resId, s\<lparr>jt_data := c\<lparr>co_queue := co_queue c @ [\<lparr>ma_id = resId, ma_addr = addr, ma_load_store = ls,
                                              ma_words = numWords\<rparr>]\<rparr>,
                       jt_current_id := next_id (jt_current_id s)\<rparr>)
      else Some (None, s))"

definition jt_finished_instr :: "32 word \<Rightarrow> ('i, 'd, 'u, 't) cached_topology \<Rightarrow> bool \<times> ('i, 'd, 'u, 't) cached_topology" where
  "jt_finished_instr i s =
     (let res = (co_finished (jt_instr s) = i) in (res, if res then s\<lparr>jt_instr := (jt_instr s)\<lparr>co_finished := 0\<rparr>\<rparr> else s))"

definition jt_finished_data :: "32 word \<Rightarrow> ('i, 'd, 'u, 't) cached_topology \<Rightarrow> bool \<times> ('i, 'd, 'u, 't) cached_topology" where
  "jt_finished_data i s =
     (let res = (co_finished (jt_data s) = i) in (res, if res then s\<lparr>jt_data := (jt_data s)\<lparr>co_finished := 0\<rparr>\<rparr> else s))"

definition jt_enter :: "('i, 'd, 'u, 't, 'l) cached_config \<Rightarrow> scope \<Rightarrow> ('i, 'd, 'u, 't) cached_topology \<Rightarrow> ('i, 'd, 'u, 't) cached_topology" where
  "jt_enter J sc s = s\<lparr>jt_instr := (jt_instr s)\<lparr>co_cache := ac_enter (jc_instr J) sc (co_cache (jt_instr s))\<rparr>,
     jt_data := (jt_data s)\<lparr>co_cache := ac_enter (jc_data J) sc (co_cache (jt_data s))\<rparr>,
     jt_l2 := (jt_l2 s)\<lparr>co_cache := ac_enter (jc_l2 J) sc (co_cache (jt_l2 s))\<rparr>,
     jt_entered := Some (insert sc (case jt_entered s of None \<Rightarrow> {} | Some S \<Rightarrow> S))\<rparr>"

definition jt_leave :: "('i, 'd, 'u, 't, 'l) cached_config \<Rightarrow> scope \<Rightarrow> ('i, 'd, 'u, 't) cached_topology \<Rightarrow> ('i, 'd, 'u, 't) cached_topology" where
  "jt_leave J sc s = s\<lparr>jt_instr := (jt_instr s)\<lparr>co_cache := ac_leave (jc_instr J) sc (co_cache (jt_instr s))\<rparr>,
     jt_data := (jt_data s)\<lparr>co_cache := ac_leave (jc_data J) sc (co_cache (jt_data s))\<rparr>,
     jt_l2 := (jt_l2 s)\<lparr>co_cache := ac_leave (jc_l2 J) sc (co_cache (jt_l2 s))\<rparr>\<rparr>"

section \<open>Starting an access\<close>

text \<open>The line an access of known alignment just missed; an array is kept as it is.\<close>

definition missed_line :: "ana_env \<Rightarrow> 'c abstract_cache \<Rightarrow> abs_address \<Rightarrow> abs_address option \<Rightarrow> abs_address option" where
  "missed_line E C addr old =
     (if ac_align C (aa_lower E addr) = ac_align C (aa_upper E addr) then Some (aa_of_address (ac_align C (aa_lower E addr)))
      else if aa_is_array addr then Some addr else old)"

definition missed_instr :: "ana_env \<Rightarrow> 'c abstract_cache \<Rightarrow> bool \<Rightarrow> abs_address \<Rightarrow> 'c memory_component \<Rightarrow> 'c memory_component option" where
  "missed_instr E C record_it addr c =
     (if \<not> record_it then Some c
      else if \<not> aa_is_precise addr then None
      else Some (c\<lparr>co_missed := Some (aa_of_address (ac_align C (aa_lower E addr)))\<rparr>))"

definition processInstrCacheAccess ::
  "('i, 'd, 'u, 't, 'l) cached_config \<Rightarrow> classification \<Rightarrow> ('i, 'd, 'u, 't) cached_topology \<Rightarrow> ('i, 'd, 'u, 't) cached_topology option" where
  "processInstrCacheAccess J cl s =
     (case co_ongoing (jt_instr s) of None \<Rightarrow> None
      | Some oa0 \<Rightarrow>
          let Op = jc_options J; E = jc_env J; oa = oa0\<lparr>oa_class := cl\<rparr>; addr = ma_addr (oa_access oa) in
          if cl = CL_HIT then
            Some (s\<lparr>jt_instr := (jt_instr s)\<lparr>co_ongoing := Some (oa\<lparr>oa_l1_blocked := ac_hit_latency (jc_instr J)\<rparr>)\<rparr>\<rparr>)
          else if cl = CL2_HIT then
            map_option (\<lambda>c. s\<lparr>jt_instr := c\<lparr>co_ongoing := Some (oa\<lparr>oa_l2_blocked := ac_hit_latency (jc_l2 J), oa_bgl2 := jt_current_id s\<rparr>)\<rparr>\<rparr>)
              (missed_instr E (jc_instr J) (instr_persistence Op \<or> PreemptiveExecution Op) addr
                 ((jt_instr s)\<lparr>co_misses := co_misses (jt_instr s) + 1\<rparr>))
          else
            (case (missed_instr E (jc_l2 J) (cl = CL2_MISS \<and> (l2_persistence Op \<or> PreemptiveExecution Op)) addr
                     ((jt_l2 s)\<lparr>co_misses := co_misses (jt_l2 s) + 1\<rparr>),
                   missed_instr E (jc_instr J) (cl = CL2_MISS \<and> (instr_persistence Op \<or> PreemptiveExecution Op)) addr
                     ((jt_instr s)\<lparr>co_misses := co_misses (jt_instr s) + 1\<rparr>)) of
               (Some l2, Some ins) \<Rightarrow>
                 (case mt_access_instr (jc_memory J) (aa_lower E addr) (instr_line Op div 4) (jt_memory s) of
                    Some (Some i, m) \<Rightarrow>
                      Some (s\<lparr>jt_memory := m, jt_l2 := l2, jt_instr := ins\<lparr>co_ongoing := Some (oa\<lparr>oa_bgmem := i\<rparr>)\<rparr>\<rparr>)
                  | _ \<Rightarrow> None)
             | _ \<Rightarrow> None))"

definition processDataCacheAccess ::
  "('i, 'd, 'u, 't, 'l) cached_config \<Rightarrow> classification \<Rightarrow> ('i, 'd, 'u, 't) cached_topology \<Rightarrow> ('i, 'd, 'u, 't) cached_topology option" where
  "processDataCacheAccess J cl s =
     (case co_ongoing (jt_data s) of None \<Rightarrow> None
      | Some oa0 \<Rightarrow>
          let Op = jc_options J; E = jc_env J; oa = oa0\<lparr>oa_class := cl\<rparr>; acc = oa_access oa; addr = ma_addr acc; d = jt_data s in
          if cl = CL_HIT then
            Some (s\<lparr>jt_data := d\<lparr>co_ongoing := Some (oa\<lparr>oa_l1_blocked := ac_hit_latency (jc_data J), oa_phase := WaitForCACHE\<rparr>)\<rparr>\<rparr>)
          else if cl = CL2_HIT then
            Some (s\<lparr>jt_data := d\<lparr>co_misses := co_misses d + 1,
                      co_missed := (if data_persistence Op \<or> PreemptiveExecution Op then missed_line E (jc_data J) addr (co_missed d)
                                    else co_missed d),
                      co_ongoing := Some (oa\<lparr>oa_l2_blocked := ac_hit_latency (jc_l2 J), oa_phase := WaitForCACHE,
                                            oa_bgl2 := jt_current_id s\<rparr>)\<rparr>\<rparr>)
          else if ma_load_store acc = STORE \<and> \<not> snd (ac_write_policy (jc_data J)) then
            if fst (ac_write_policy (jc_data J)) then None
            else (case mt_access_data (jc_memory J) addr STORE (ma_words acc) (jt_memory s) of
                    Some (Some i, m) \<Rightarrow>
                      Some (s\<lparr>jt_memory := m, jt_data := d\<lparr>co_stores := co_stores d + 1,
                                co_ongoing := Some (oa\<lparr>oa_bgmem := i, oa_phase := WaitForSTORE\<rparr>)\<rparr>\<rparr>)
                  | _ \<Rightarrow> None)
          else
            let l2 = (jt_l2 s)\<lparr>co_misses := co_misses (jt_l2 s) + 1,
                       co_missed := (if cl = CL2_MISS \<and> (l2_persistence Op \<or> PreemptiveExecution Op)
                                     then missed_line E (jc_l2 J) addr (co_missed (jt_l2 s)) else co_missed (jt_l2 s))\<rparr>;
                d' = d\<lparr>co_misses := co_misses d + 1,
                       co_missed := (if cl = CL2_MISS \<and> (data_persistence Op \<or> PreemptiveExecution Op)
                                     then missed_line E (jc_data J) addr (co_missed d) else co_missed d)\<rparr>
            in (case mt_access_data (jc_memory J) addr LOAD (data_line Op div 4) (jt_memory s) of
                  Some (Some i, m) \<Rightarrow>
                    Some (s\<lparr>jt_memory := m, jt_l2 := l2, jt_data := d'\<lparr>co_ongoing := Some (oa\<lparr>oa_bgmem := i, oa_phase := WaitForLOAD\<rparr>)\<rparr>\<rparr>)
                | Some (None, m) \<Rightarrow>
                    Some (s\<lparr>jt_memory := m, jt_l2 := l2, jt_data := d'\<lparr>co_ongoing := Some (oa\<lparr>oa_stall := True, oa_phase := WaitForLOAD\<rparr>)\<rparr>\<rparr>)
                | None \<Rightarrow> None))"

text \<open>
  \<open>mystartInstructionAccess\<close> and \<open>mystartDataAccess\<close> choose the same classifications to continue with, the
  last of which changes the state itself.
\<close>

definition start_classes :: "cached_options \<Rightarrow> classification \<Rightarrow> classification \<Rightarrow> classification list" where
  "start_classes Op l1 l2 =
     (if l1 = CL_HIT \<or> (l1 = CL_UNKNOWN \<and> isBCET Op) then [CL_HIT]
      else if l2 = CL_HIT \<or> (l2 = CL_UNKNOWN \<and> isBCET Op) then
        (if l1 = CL_UNKNOWN \<and> TimingAnomalyAnalysis Op then [CL_HIT] else []) @ [CL2_HIT]
      else
        (if l2 = CL_UNKNOWN \<and> TimingAnomalyAnalysis Op
         then (if l1 = CL_UNKNOWN then [CL_HIT] else []) @ [CL2_HIT] else []) @ [CL2_MISS])"

definition mystartInstructionAccess ::
  "('i, 'd, 'u, 't, 'l) cached_config \<Rightarrow> ('i, 'd, 'u, 't) cached_topology \<Rightarrow> ('i, 'd, 'u, 't) cached_topology list option" where
  "mystartInstructionAccess J s =
     (case (co_ongoing (jt_instr s), co_queue (jt_instr s)) of
        (None, a # q) \<Rightarrow>
          let s1 = s\<lparr>jt_instr := (jt_instr s)\<lparr>co_ongoing := Some (new_ongoing a), co_queue := q\<rparr>\<rparr> in
          (case (ac_classify (jc_instr J) (co_cache (jt_instr s1)) (ma_addr a), ac_classify (jc_l2 J) (co_cache (jt_l2 s1)) (ma_addr a)) of
             (Some l1, Some l2) \<Rightarrow> those (List.map (\<lambda>cl. processInstrCacheAccess J cl s1) (start_classes (jc_options J) l1 l2))
           | _ \<Rightarrow> None)
      | _ \<Rightarrow> Some [s])"

definition mystartDataAccess ::
  "('i, 'd, 'u, 't, 'l) cached_config \<Rightarrow> ('i, 'd, 'u, 't) cached_topology \<Rightarrow> ('i, 'd, 'u, 't) cached_topology list option" where
  "mystartDataAccess J s =
     (case (co_ongoing (jt_data s), co_queue (jt_data s)) of
        (None, a # q) \<Rightarrow>
          let s1 = s\<lparr>jt_data := (jt_data s)\<lparr>co_ongoing := Some (new_ongoing a), co_queue := q\<rparr>\<rparr> in
          (case (ac_classify (jc_data J) (co_cache (jt_data s1)) (ma_addr a), ac_classify (jc_l2 J) (co_cache (jt_l2 s1)) (ma_addr a)) of
             (Some l1, Some l2) \<Rightarrow> those (List.map (\<lambda>cl. processDataCacheAccess J cl s1) (start_classes (jc_options J) l1 l2))
           | _ \<Rightarrow> None)
      | _ \<Rightarrow> Some [s])"

text \<open>The versions for one level of caches, which the code keeps but does not call.\<close>

definition one_level_classes :: "bool \<Rightarrow> bool \<Rightarrow> classification \<Rightarrow> classification list" where
  "one_level_classes follow_miss preempted res =
     (if res = CL_UNKNOWN then (if follow_miss then [CL_UNKNOWN] else [CL_MISS, CL_HIT])
      else (if res = CL_HIT \<and> preempted then [CL_MISS] else []) @ [res])"

definition startInstructionAccess ::
  "('i, 'd, 'u, 't, 'l) cached_config \<Rightarrow> ('i, 'd, 'u, 't) cached_topology \<Rightarrow> ('i, 'd, 'u, 't) cached_topology list option" where
  "startInstructionAccess J s =
     (case (co_ongoing (jt_instr s), co_queue (jt_instr s)) of
        (None, a # q) \<Rightarrow>
          let Op = jc_options J; s1 = s\<lparr>jt_instr := (jt_instr s)\<lparr>co_ongoing := Some (new_ongoing a), co_queue := q\<rparr>\<rparr> in
          (case ac_classify (jc_instr J) (co_cache (jt_instr s1)) (ma_addr a) of None \<Rightarrow> None
           | Some res \<Rightarrow> those (List.map (\<lambda>cl. processInstrCacheAccess J cl s1)
                           (one_level_classes (follow_instr_miss Op) (PreemptiveExecution Op \<and> \<not> instr_always_hit Op) res)))
      | _ \<Rightarrow> Some [s])"

definition startDataAccess ::
  "('i, 'd, 'u, 't, 'l) cached_config \<Rightarrow> ('i, 'd, 'u, 't) cached_topology \<Rightarrow> ('i, 'd, 'u, 't) cached_topology list option" where
  "startDataAccess J s =
     (case (co_ongoing (jt_data s), co_queue (jt_data s)) of
        (None, a # q) \<Rightarrow>
          let Op = jc_options J; s1 = s\<lparr>jt_data := (jt_data s)\<lparr>co_ongoing := Some (new_ongoing a), co_queue := q\<rparr>\<rparr> in
          (case ac_classify (jc_data J) (co_cache (jt_data s1)) (ma_addr a) of None \<Rightarrow> None
           | Some res \<Rightarrow> those (List.map (\<lambda>cl. processDataCacheAccess J cl s1)
                           (one_level_classes (follow_data_miss Op) (PreemptiveExecution Op \<and> \<not> data_always_hit Op) res)))
      | _ \<Rightarrow> Some [s])"

section \<open>One cycle of the access in progress\<close>

definition finish_instr :: "mem_access \<Rightarrow> 'c memory_component \<Rightarrow> 'c memory_component" where
  "finish_instr a c = c\<lparr>co_finished := ma_id a, co_ongoing := None\<rparr>"

definition dec_blocked :: "32 word \<Rightarrow> 32 word" where
  "dec_blocked t = (if t > 0 then t - 1 else t)"

definition checkInstructionPart ::
  "('i, 'd, 'u, 't, 'l) cached_config \<Rightarrow> ('i, 'd, 'u, 't) cached_topology \<Rightarrow> ('i, 'd, 'u, 't) cached_topology list option" where
  "checkInstructionPart J s =
     (case co_ongoing (jt_instr s) of
        None \<Rightarrow> Some [s]
      | Some oa \<Rightarrow>
          let c = jt_instr s; u = jt_l2 s; a = oa_access oa in
          if oa_bgmem oa \<noteq> 0 then
            let (done, m) = mt_finished_instr (jc_memory J) (oa_bgmem oa) (jt_memory s);
                oa' = (if done then oa\<lparr>oa_bgl2 := oa_bgmem oa, oa_bgmem := 0, oa_l2_blocked := ac_hit_latency (jc_l2 J)\<rparr> else oa)
            in Some [s\<lparr>jt_memory := m, jt_instr := c\<lparr>co_ongoing := Some oa'\<rparr>\<rparr>]
          else if oa_bgl2 oa \<noteq> 0 then
            let t = dec_blocked (oa_l2_blocked oa) in
            if t = 0 then
              (case ac_update (jc_l2 J) (co_cache u) (ma_addr a) (ma_load_store a) False (oa_class oa) of
                 None \<Rightarrow> None
               | Some (u', _) \<Rightarrow>
                   Some [s\<lparr>jt_instr := c\<lparr>co_ongoing := Some (oa\<lparr>oa_l2_blocked := t, oa_bgl2 := 0,
                                                 oa_l1_blocked := ac_hit_latency (jc_instr J)\<rparr>)\<rparr>,
                           jt_l2 := u\<lparr>co_cache := u'\<rparr>\<rparr>])
            else Some [s\<lparr>jt_instr := c\<lparr>co_ongoing := Some (oa\<lparr>oa_l2_blocked := t\<rparr>)\<rparr>\<rparr>]
          else
            let t = dec_blocked (oa_l1_blocked oa) in
            if t = 0 then
              (case (ac_update (jc_instr J) (co_cache c) (ma_addr a) (ma_load_store a) False (oa_class oa),
                     ac_update (jc_l2 J) (co_cache u) (ma_addr a) (ma_load_store a) False (oa_class oa)) of
                 (Some (c', _), Some (u', _)) \<Rightarrow>
                   Some [s\<lparr>jt_instr := (finish_instr a c)\<lparr>co_cache := c',
                              co_updated := (if need_accessed_addresses (jc_options J) then Some (ma_addr a) else co_updated c)\<rparr>,
                           jt_l2 := u\<lparr>co_cache := u'\<rparr>\<rparr>]
               | _ \<Rightarrow> None)
            else Some [s\<lparr>jt_instr := c\<lparr>co_ongoing := Some (oa\<lparr>oa_l1_blocked := t\<rparr>)\<rparr>\<rparr>])"

text \<open>What the report of an update says about a write-back and the dirtified line.\<close>

definition victim_of :: "cached_options \<Rightarrow> bool \<Rightarrow> update_report option \<Rightarrow> abs_address option" where
  "victim_of Op isWBCache report =
     (case report of
        Some (WritebackReport w d) \<Rightarrow>
          if isWBCache \<and> StaticallyRefuteWritebacks Op then potentialWritebacks (WritebackReport w d) else Some aa_unknown
      | _ \<Rightarrow> Some aa_unknown)"

definition dirtified_of :: "cached_options \<Rightarrow> bool \<Rightarrow> mem_access \<Rightarrow> update_report option \<Rightarrow> abs_address option \<Rightarrow> abs_address option" where
  "dirtified_of Op isWBCache acc report old =
     (if isWBCache \<and> ma_load_store acc = STORE then
        (case report of
           Some (WritebackReport w d) \<Rightarrow> if bound_dirtifying_stores Op \<and> \<not> d then None else Some (ma_addr acc)
         | _ \<Rightarrow> Some (ma_addr acc))
      else old)"

text \<open>Finishing the data access, and storing through to the background topology.\<close>

definition finish_data :: "('i, 'd, 'u, 't) cached_topology \<Rightarrow> mem_access \<Rightarrow> ('i, 'd, 'u, 't) cached_topology" where
  "finish_data s a = s\<lparr>jt_data := (jt_data s)\<lparr>co_finished := ma_id a, co_ongoing := None\<rparr>\<rparr>"

definition store_through ::
  "('i, 'd, 'u, 't, 'l) cached_config \<Rightarrow> ongoing_access \<Rightarrow> ('i, 'd, 'u, 't) cached_topology \<Rightarrow> ('i, 'd, 'u, 't) cached_topology option" where
  "store_through J oa s =
     (let acc = oa_access oa; d = jt_data s in
      map_option (\<lambda>(i, m). s\<lparr>jt_memory := m, jt_data := d\<lparr>co_stores := co_stores d + 1,
          co_ongoing := Some (case i of Some j \<Rightarrow> oa\<lparr>oa_bgmem := j, oa_phase := WaitForSTORE\<rparr>
                                      | None \<Rightarrow> oa\<lparr>oa_stall := True, oa_phase := WaitForSTORE\<rparr>)\<rparr>\<rparr>)
        (mt_access_data (jc_memory J) (ma_addr acc) STORE (ma_words acc) (jt_memory s)))"

text \<open>The last split: the state with a dirtified line is followed by one without it.\<close>

definition split_dirtified :: "bool \<Rightarrow> ('i, 'd, 'u, 't) cached_topology \<Rightarrow> ('i, 'd, 'u, 't) cached_topology list" where
  "split_dirtified isWBCache s =
     (if isWBCache \<and> co_dirtified (jt_data s) \<noteq> None then [s\<lparr>jt_data := (jt_data s)\<lparr>co_dirtified := None\<rparr>\<rparr>] else []) @ [s]"

text \<open>\<open>WaitForCACHE\<close> while the second level is accessed.\<close>

definition check_data_l2 ::
  "('i, 'd, 'u, 't, 'l) cached_config \<Rightarrow> ongoing_access \<Rightarrow> ('i, 'd, 'u, 't) cached_topology \<Rightarrow> ('i, 'd, 'u, 't) cached_topology list option" where
  "check_data_l2 J oa0 s =
     (let Op = jc_options J; acc = oa_access oa0; isWBCache = fst (ac_write_policy (jc_data J));
          t = dec_blocked (if oa_bgl2 oa0 = -1 then ac_hit_latency (jc_l2 J) else oa_l2_blocked oa0);
          oa = oa0\<lparr>oa_l2_blocked := t\<rparr> in
      if t \<noteq> 0 then Some [s\<lparr>jt_data := (jt_data s)\<lparr>co_ongoing := Some oa\<rparr>\<rparr>]
      else
        let mightMiss = (oa_class oa = CL2_MISS \<or> oa_class oa = CL2_UNKNOWN);
            wantReport = (isWBCache \<and> (mightMiss \<or> ma_load_store acc = STORE)) in
        (case ac_update (jc_l2 J) (co_cache (jt_l2 s)) (ma_addr acc) (ma_load_store acc) wantReport (oa_class oa) of
           None \<Rightarrow> None
         | Some (u', report) \<Rightarrow>
             let s1 = s\<lparr>jt_l2 := (jt_l2 s)\<lparr>co_cache := u'\<rparr>,
                        jt_data := (jt_data s)\<lparr>co_ongoing := Some oa,
                            co_dirtified := dirtified_of Op isWBCache acc report (co_dirtified (jt_data s))\<rparr>\<rparr> in
             if ma_load_store acc = STORE \<and> \<not> isWBCache then
               map_option (split_dirtified isWBCache) (store_through J oa s1)
             else if isWBCache \<and> mightMiss \<and> victim_of Op isWBCache report \<noteq> None then
               (case mt_access_data (jc_memory J) (the (victim_of Op isWBCache report)) STORE (data_line Op div 4) (jt_memory s1) of
                  Some (Some i, m) \<Rightarrow>
                    Some (finish_data s1 acc #
                      split_dirtified isWBCache (s1\<lparr>jt_memory := m, jt_data := (jt_data s1)\<lparr>co_stores := co_stores (jt_data s1) + 1,
                         co_wrote_back := True, co_ongoing := Some (oa\<lparr>oa_bgmem := i, oa_phase := WaitForSTORE\<rparr>)\<rparr>\<rparr>))
                | _ \<Rightarrow> None)
             else if oa_bgl2 oa \<noteq> -1 then
               Some (split_dirtified isWBCache (s1\<lparr>jt_data := (jt_data s1)\<lparr>co_ongoing :=
                  Some (oa\<lparr>oa_l1_blocked := ac_hit_latency (jc_instr J), oa_bgl2 := 0\<rparr>)\<rparr>\<rparr>))
             else Some (split_dirtified isWBCache (finish_data s1 acc))))"

text \<open>\<open>WaitForCACHE\<close> while the first level is accessed.\<close>

definition check_data_l1 ::
  "('i, 'd, 'u, 't, 'l) cached_config \<Rightarrow> ongoing_access \<Rightarrow> ('i, 'd, 'u, 't) cached_topology \<Rightarrow> ('i, 'd, 'u, 't) cached_topology list option" where
  "check_data_l1 J oa0 s =
     (let Op = jc_options J; acc = oa_access oa0; isWBCache = fst (ac_write_policy (jc_data J));
          oa = oa0\<lparr>oa_l1_blocked := dec_blocked (oa_l1_blocked oa0)\<rparr> in
      if oa_l1_blocked oa > 0 then Some [s\<lparr>jt_data := (jt_data s)\<lparr>co_ongoing := Some oa\<rparr>\<rparr>]
      else
        let mightMiss = (oa_class oa = CL2_MISS \<or> oa_class oa = CL2_UNKNOWN);
            wantReport = (isWBCache \<and> (mightMiss \<or> ma_load_store acc = STORE)) in
        (case (ac_update (jc_data J) (co_cache (jt_data s)) (ma_addr acc) (ma_load_store acc) wantReport (oa_class oa),
               ac_update (jc_l2 J) (co_cache (jt_l2 s)) (ma_addr acc) (ma_load_store acc) wantReport (oa_class oa)) of
           (Some (d', report), Some (u', _)) \<Rightarrow>
             let s1 = s\<lparr>jt_l2 := (jt_l2 s)\<lparr>co_cache := u'\<rparr>,
                        jt_data := (jt_data s)\<lparr>co_ongoing := Some oa, co_cache := d',
                            co_updated := (if need_accessed_addresses Op then Some (ma_addr acc) else co_updated (jt_data s)),
                            co_dirtified := dirtified_of Op isWBCache acc report (co_dirtified (jt_data s))\<rparr>\<rparr> in
             if ma_load_store acc = STORE \<and> \<not> isWBCache then
               map_option (split_dirtified isWBCache) (store_through J oa s1)
             else if isWBCache \<and> mightMiss \<and> victim_of Op isWBCache report \<noteq> None then
               Some (finish_data s1 acc #
                 split_dirtified isWBCache (s1\<lparr>jt_data := (jt_data s1)\<lparr>co_dirtified := None, co_ongoing := Some (oa\<lparr>oa_bgl2 := -1\<rparr>)\<rparr>\<rparr>))
             else Some (split_dirtified isWBCache (finish_data s1 acc))
         | _ \<Rightarrow> None))"

definition checkDataPart ::
  "('i, 'd, 'u, 't, 'l) cached_config \<Rightarrow> ('i, 'd, 'u, 't) cached_topology \<Rightarrow> ('i, 'd, 'u, 't) cached_topology list option" where
  "checkDataPart J s =
     (case co_ongoing (jt_data s) of
        None \<Rightarrow> Some [s]
      | Some oa \<Rightarrow>
          let Op = jc_options J; d = jt_data s; acc = oa_access oa in
          if oa_stall oa then
            if \<not> UnblockStores Op \<or> \<not> (oa_phase oa = WaitForLOAD \<or> oa_phase oa = WaitForSTORE) then None
            else
              let accTy = (if oa_phase oa = WaitForLOAD then LOAD else STORE);
                  nwords = (if accTy = LOAD then data_line Op div 4 else ma_words acc) in
              map_option (\<lambda>(i, m). [s\<lparr>jt_memory := m, jt_data := d\<lparr>co_ongoing :=
                  Some (case i of Some j \<Rightarrow> oa\<lparr>oa_bgmem := j, oa_stall := False\<rparr> | None \<Rightarrow> oa)\<rparr>\<rparr>])
                (mt_access_data (jc_memory J) (ma_addr acc) accTy nwords (jt_memory s))
          else
            (case oa_phase oa of
               WaitForLOAD \<Rightarrow>
                 if oa_bgmem oa = 0 then None
                 else
                   let (done, m) = mt_finished_data (jc_memory J) (oa_bgmem oa) (jt_memory s);
                       oa' = (if done then oa\<lparr>oa_bgl2 := oa_bgmem oa, oa_bgmem := 0, oa_l2_blocked := ac_hit_latency (jc_l2 J),
                                             oa_phase := WaitForCACHE\<rparr> else oa)
                   in Some [s\<lparr>jt_memory := m, jt_data := d\<lparr>co_ongoing := Some oa'\<rparr>\<rparr>]
             | WaitForCACHE \<Rightarrow>
                 if oa_bgmem oa \<noteq> 0 then None
                 else if oa_bgl2 oa \<noteq> 0 then check_data_l2 J oa s
                 else check_data_l1 J oa s
             | WaitForSTORE \<Rightarrow>
                 if oa_bgmem oa = 0 then None
                 else if UnblockStores Op then Some [finish_data s acc]
                 else
                   let (done, m) = mt_finished_data (jc_memory J) (oa_bgmem oa) (jt_memory s)
                   in Some [if done then finish_data (s\<lparr>jt_memory := m\<rparr>) acc else s\<lparr>jt_memory := m\<rparr>]
             | WaitForSTART \<Rightarrow> None))"

section \<open>The cycle\<close>

definition jt_clear_events :: "('i, 'd, 'u, 't) cached_topology \<Rightarrow> ('i, 'd, 'u, 't) cached_topology" where
  "jt_clear_events s = s\<lparr>jt_instr := (jt_instr s)\<lparr>co_missed := None, co_updated := None\<rparr>,
     jt_data := co_reset_events (jt_data s), jt_l2 := co_reset_events (jt_l2 s), jt_entered := None\<rparr>"

definition jt_stall :: "('i, 'd, 'u, 't, 'l) cached_config \<Rightarrow> ('i, 'd, 'u, 't) cached_topology \<Rightarrow> bool option" where
  "jt_stall J s = mt_stall (jc_memory J) (jt_memory s)"

text \<open>One state after the background topology has been cycled.\<close>

definition jt_check ::
  "('i, 'd, 'u, 't, 'l) cached_config \<Rightarrow> ('i, 'd, 'u, 't) cached_topology \<Rightarrow> ('i, 'd, 'u, 't) cached_topology list option" where
  "jt_check J s =
     (case jt_stall J s of None \<Rightarrow> None
      | Some stalled \<Rightarrow>
          if stalled then Some [s]
          else Option.bind (checkInstructionPart J s) (all_cases (checkDataPart J)))"

definition jt_cycle ::
  "('i, 'd, 'u, 't, 'l) cached_config \<Rightarrow> bool \<Rightarrow> ('i, 'd, 'u, 't) cached_topology \<Rightarrow> ('i, 'd, 'u, 't) cached_topology list option" where
  "jt_cycle J potentialDataMissesPending s =
     Option.bind (mystartInstructionAccess J (jt_clear_events s)) (all_cases (\<lambda>si.
       Option.bind (mystartDataAccess J si) (all_cases (\<lambda>sd.
         Option.bind (mt_cycle (jc_memory J) potentialDataMissesPending (jt_memory sd)) (all_cases (\<lambda>m.
           jt_check J (sd\<lparr>jt_memory := m\<rparr>)))))))"

section \<open>Comparison, join and fast-forwarding\<close>

definition jt_unfinished :: "('i, 'd, 'u, 't, 'l) cached_config \<Rightarrow> ('i, 'd, 'u, 't) cached_topology \<Rightarrow> bool" where
  "jt_unfinished J s \<longleftrightarrow> co_ongoing (jt_instr s) \<noteq> None \<or> co_queue (jt_instr s) \<noteq> [] \<or> co_ongoing (jt_data s) \<noteq> None \<or>
     co_queue (jt_data s) \<noteq> [] \<or> mt_unfinished (jc_memory J) (jt_memory s)"

definition jt_equals :: "('i, 'd, 'u, 't, 'l) cached_config \<Rightarrow> ('i, 'd, 'u, 't) cached_topology \<Rightarrow> ('i, 'd, 'u, 't) cached_topology \<Rightarrow> bool" where
  "jt_equals J x y \<longleftrightarrow> mt_equals (jc_memory J) (jt_memory x) (jt_memory y) \<and>
     co_equals (jc_env J) (jc_instr J) (jt_instr x) (jt_instr y) (jt_current_id x) (jt_current_id y) \<and>
     co_equals (jc_env J) (jc_data J) (jt_data x) (jt_data y) (jt_current_id x) (jt_current_id y) \<and>
     co_equals (jc_env J) (jc_l2 J) (jt_l2 x) (jt_l2 y) (jt_current_id x) (jt_current_id y) \<and>
     jt_entered x = jt_entered y"

definition jt_waiting_join :: "('i, 'd, 'u, 't, 'l) cached_config \<Rightarrow> ('i, 'd, 'u, 't) cached_topology \<Rightarrow> bool" where
  "jt_waiting_join J s = mt_waiting_join (jc_memory J) (jt_memory s)"

definition jt_joinable :: "('i, 'd, 'u, 't, 'l) cached_config \<Rightarrow> ('i, 'd, 'u, 't) cached_topology \<Rightarrow> ('i, 'd, 'u, 't) cached_topology \<Rightarrow> bool" where
  "jt_joinable J x y \<longleftrightarrow> mt_joinable (jc_memory J) (jt_memory x) (jt_memory y) \<and>
     co_equals_without_cache (jc_env J) (jt_instr x) (jt_instr y) (jt_current_id x) (jt_current_id y) \<and>
     co_equals_without_cache (jc_env J) (jt_data x) (jt_data y) (jt_current_id x) (jt_current_id y) \<and>
     co_equals_without_cache (jc_env J) (jt_l2 x) (jt_l2 y) (jt_current_id x) (jt_current_id y) \<and>
     jt_entered x = jt_entered y"

definition jt_join ::
  "('i, 'd, 'u, 't, 'l) cached_config \<Rightarrow> ('i, 'd, 'u, 't) cached_topology \<Rightarrow> ('i, 'd, 'u, 't) cached_topology \<Rightarrow>
     ('i, 'd, 'u, 't) cached_topology option" where
  "jt_join J x y =
     (if \<not> jt_joinable J x y then None
      else case (mt_join (jc_memory J) (jt_memory x) (jt_memory y), co_join_cache (jc_env J) (jc_instr J) (jt_instr x) (jt_instr y),
                 co_join_cache (jc_env J) (jc_data J) (jt_data x) (jt_data y), co_join_cache (jc_env J) (jc_l2 J) (jt_l2 x) (jt_l2 y)) of
             (Some m, Some i, Some d, Some u) \<Rightarrow> Some (x\<lparr>jt_memory := m, jt_instr := i, jt_data := d, jt_l2 := u\<rparr>)
           | _ \<Rightarrow> None)"

definition jt_busy_instr :: "('i, 'd, 'u, 't) cached_topology \<Rightarrow> bool" where
  "jt_busy_instr s \<longleftrightarrow> co_queue (jt_instr s) \<noteq> [] \<or> co_ongoing (jt_instr s) \<noteq> None"

definition jt_busy_data :: "('i, 'd, 'u, 't) cached_topology \<Rightarrow> bool" where
  "jt_busy_data s \<longleftrightarrow> co_queue (jt_data s) \<noteq> [] \<or> co_ongoing (jt_data s) \<noteq> None"

definition instr_allows_ff :: "('i, 'd, 'u, 't) cached_topology \<Rightarrow> bool" where
  "instr_allows_ff s \<longleftrightarrow>
     (\<not> jt_busy_instr s \<or> (case co_ongoing (jt_instr s) of None \<Rightarrow> False | Some oa \<Rightarrow> oa_bgmem oa \<noteq> 0)) \<and>
     co_missed (jt_instr s) = None \<and> co_missed (jt_l2 s) = None \<and> co_updated (jt_instr s) = None"

definition data_allows_ff :: "cached_options \<Rightarrow> ('i, 'd, 'u, 't) cached_topology \<Rightarrow> bool" where
  "data_allows_ff Op s \<longleftrightarrow>
     (\<not> jt_busy_data s \<or>
      (case co_ongoing (jt_data s) of None \<Rightarrow> False
       | Some oa \<Rightarrow> oa_phase oa = WaitForLOAD \<or> ((\<not> UnblockStores Op \<or> oa_stall oa) \<and> oa_phase oa = WaitForSTORE))) \<and>
     co_missed (jt_data s) = None \<and> co_missed (jt_l2 s) = None \<and> co_updated (jt_data s) = None"

definition jt_fast_forward ::
  "('i, 'd, 'u, 't, 'l) cached_config \<Rightarrow> ('i, 'd, 'u, 't) cached_topology \<Rightarrow> ('i, 'd, 'u, 't) cached_topology list option" where
  "jt_fast_forward J s =
     (if instr_allows_ff s \<and> data_allows_ff (jc_options J) s \<and> jt_entered s = None
      then map_option (List.map (\<lambda>m. s\<lparr>jt_memory := m\<rparr>)) (mt_ff (jc_memory J) (jt_memory s))
      else Some [s])"

text \<open>\<open>getIaccAdress\<close> and \<open>getDaccAdress\<close>: the access in progress, its class and the age of its line.\<close>

definition getIaccAdress :: "('i, 'd, 'u, 't) cached_topology \<Rightarrow> (abs_address \<times> classification \<times> int) option" where
  "getIaccAdress s =
     map_option (\<lambda>oa. (ma_addr (oa_access oa), oa_class oa,
         if oa_class oa = CL2_MISS then INT_MAX else if oa_class oa = CL2_HIT then oa_age2 oa
         else if oa_class oa = CL_HIT then oa_age1 oa else -1)) (co_ongoing (jt_instr s))"

definition getDaccAdress :: "('i, 'd, 'u, 't) cached_topology \<Rightarrow> (abs_address \<times> classification \<times> int) option" where
  "getDaccAdress s =
     map_option (\<lambda>oa. (ma_addr (oa_access oa), oa_class oa,
         if oa_class oa = CL2_MISS then INT_MAX else if oa_class oa = CL2_HIT then oa_age2 oa else oa_age1 oa))
       (co_ongoing (jt_data s))"

definition cached_topology_of ::
  "('i, 'd, 'u, 't, 'l) cached_config \<Rightarrow> (('i, 'd, 'u, 't) cached_topology, ('i, 'd, 'u, 'l) cached_metrics) memory_topology" where
  "cached_topology_of J =
     \<lparr>mt_init = jt_init J, mt_metrics = jt_metrics J, mt_reset = jt_reset J,
      mt_access_instr = jt_access_instr, mt_access_data = jt_access_data, mt_cycle = jt_cycle J,
      mt_stall = jt_stall J, mt_finished_instr = jt_finished_instr, mt_finished_data = jt_finished_data,
      mt_enter = jt_enter J, mt_leave = jt_leave J, mt_unfinished = jt_unfinished J, mt_equals = jt_equals J,
      mt_waiting_join = jt_waiting_join J, mt_joinable = jt_joinable J, mt_join = jt_join J,
      mt_busy_instr = jt_busy_instr, mt_busy_data = jt_busy_data, mt_ff = jt_fast_forward J\<rparr>"

end
