(* ===== verification/TA_Cached_Topology_Runs.thy ===== *)
theory TA_Cached_Topology_Runs
  imports TA_Cached_Topology
begin

text \<open>
  Runs of the topology with two levels of caches: the cases of a cycle, what the parts of a cycle leave alone,
  the states after a number of cycles, the interface of accesses that count down to their completion,
  and the classifications an access is started with.
\<close>

section \<open>Cases of a cycle\<close>

lemma those_map_member:
  "those (List.map f xs) = Some ys \<Longrightarrow> y \<in> set ys \<Longrightarrow> \<exists>x\<in>set xs. f x = Some y"
  by (induction xs arbitrary: ys) (auto split: option.splits)

lemma those_map_image:
  "those (List.map f xs) = Some ys \<Longrightarrow> set ys = (\<lambda>x. the (f x)) ` set xs"
  by (induction xs arbitrary: ys) (auto split: option.splits)

lemma all_cases_member: "all_cases f xs = Some ys \<Longrightarrow> y \<in> set ys \<Longrightarrow> \<exists>x\<in>set xs. \<exists>zs. f x = Some zs \<and> y \<in> set zs"
  using all_cases_Some [of f xs ys] by force

lemma jt_cycleE:
  assumes "jt_cycle J p s = Some ss" "s' \<in> set ss"
  obtains sis si sds sd ms m zs where "mystartInstructionAccess J (jt_clear_events s) = Some sis" "si \<in> set sis"
    "mystartDataAccess J si = Some sds" "sd \<in> set sds" "mt_cycle (jc_memory J) p (jt_memory sd) = Some ms" "m \<in> set ms"
    "jt_check J (sd\<lparr>jt_memory := m\<rparr>) = Some zs" "s' \<in> set zs"
proof -
  let ?h = "\<lambda>sd m. jt_check J (sd\<lparr>jt_memory := m\<rparr>)"
  let ?g = "\<lambda>sd. Option.bind (mt_cycle (jc_memory J) p (jt_memory sd)) (all_cases (?h sd))"
  let ?f = "\<lambda>si. Option.bind (mystartDataAccess J si) (all_cases ?g)"
  obtain sis where sis: "mystartInstructionAccess J (jt_clear_events s) = Some sis" "all_cases ?f sis = Some ss"
    using assms(1) unfolding jt_cycle_def by (auto simp: bind_eq_Some_conv)
  obtain si xs where si: "si \<in> set sis" "?f si = Some xs" "s' \<in> set xs" using all_cases_member [OF sis(2) assms(2)] by blast
  obtain sds where sds: "mystartDataAccess J si = Some sds" "all_cases ?g sds = Some xs" using si(2) by (auto simp: bind_eq_Some_conv)
  obtain sd ys where sd: "sd \<in> set sds" "?g sd = Some ys" "s' \<in> set ys" using all_cases_member [OF sds(2) si(3)] by blast
  obtain ms where ms: "mt_cycle (jc_memory J) p (jt_memory sd) = Some ms" "all_cases (?h sd) ms = Some ys"
    using sd(2) by (auto simp: bind_eq_Some_conv)
  obtain m zs where "m \<in> set ms" "?h sd m = Some zs" "s' \<in> set zs" using all_cases_member [OF ms(2) sd(3)] by blast
  then show ?thesis using that sis(1) si(1) sds(1) sd(1) ms(1) by blast
qed

lemma jt_checkE:
  assumes "jt_check J s = Some zs" "s' \<in> set zs" "mt_stall (jc_memory J) (jt_memory s) = Some False"
  obtains xs x ys where "checkInstructionPart J s = Some xs" "x \<in> set xs" "checkDataPart J x = Some ys" "s' \<in> set ys"
proof -
  obtain xs where "checkInstructionPart J s = Some xs" "all_cases (checkDataPart J) xs = Some zs"
    using assms(1,3) by (auto simp: jt_check_def jt_stall_def bind_eq_Some_conv)
  moreover from this obtain x ys where "x \<in> set xs" "checkDataPart J x = Some ys" "s' \<in> set ys"
    using all_cases_member [OF _ assms(2)] by blast
  ultimately show ?thesis using that by blast
qed

text \<open>What the parts leave alone.\<close>

lemma processData_frame: "processDataCacheAccess J cl s = Some s' \<Longrightarrow> jt_instr s' = jt_instr s \<and> jt_current_id s' = jt_current_id s"
  by (auto simp: processDataCacheAccess_def Let_def split: option.splits if_splits)

lemma mystartData_frame:
  assumes "mystartDataAccess J s = Some ss" "s' \<in> set ss"
  shows "jt_instr s' = jt_instr s \<and> jt_current_id s' = jt_current_id s"
proof (cases "(co_ongoing (jt_data s), co_queue (jt_data s))")
  case (Pair o' q)
  show ?thesis
  proof (cases "o' = None \<and> q \<noteq> []")
    case True
    then obtain a q' where q: "q = a # q'" by (cases q) auto
    let ?s1 = "s\<lparr>jt_data := (jt_data s)\<lparr>co_ongoing := Some (new_ongoing a), co_queue := q'\<rparr>\<rparr>"
    obtain cls where "those (List.map (\<lambda>cl. processDataCacheAccess J cl ?s1) cls) = Some ss"
      using assms(1) Pair True q by (auto simp: mystartDataAccess_def Let_def split: option.splits)
    from those_map_member [OF this assms(2)] obtain cl where "processDataCacheAccess J cl ?s1 = Some s'" by blast
    from processData_frame [OF this] show ?thesis by simp
  next
    case False
    then have "ss = [s]" using assms(1) Pair by (auto simp: mystartDataAccess_def split: option.splits list.splits)
    then show ?thesis using assms(2) by simp
  qed
qed

lemma store_through_frame: "store_through J oa s = Some s' \<Longrightarrow> jt_instr s' = jt_instr s"
  by (auto simp: store_through_def Let_def)

lemma split_dirtified_frame: "s' \<in> set (split_dirtified w s) \<Longrightarrow> jt_instr s' = jt_instr s"
  by (auto simp: split_dirtified_def split: if_splits)

lemma finish_data_frame [simp]: "jt_instr (finish_data s a) = jt_instr s"
  by (simp add: finish_data_def)

lemma check_data_l2_frame: "check_data_l2 J oa s = Some ss \<Longrightarrow> s' \<in> set ss \<Longrightarrow> jt_instr s' = jt_instr s"
  by (fastforce simp: check_data_l2_def Let_def split: if_splits option.splits
      dest: store_through_frame split_dirtified_frame)

lemma check_data_l1_frame: "check_data_l1 J oa s = Some ss \<Longrightarrow> s' \<in> set ss \<Longrightarrow> jt_instr s' = jt_instr s"
  by (fastforce simp: check_data_l1_def Let_def split: if_splits option.splits
      dest: store_through_frame split_dirtified_frame)

lemma checkData_frame: "checkDataPart J s = Some ss \<Longrightarrow> s' \<in> set ss \<Longrightarrow> jt_instr s' = jt_instr s"
  by (auto simp: checkDataPart_def Let_def split: if_splits option.splits access_phase.splits prod.splits
      dest: check_data_l1_frame check_data_l2_frame)

lemma checkInstr_frame: "checkInstructionPart J s = Some ss \<Longrightarrow> s' \<in> set ss \<Longrightarrow> jt_data s' = jt_data s"
  by (auto simp: checkInstructionPart_def Let_def split: if_splits option.splits prod.splits)

text \<open>The states after a number of cycles.\<close>

inductive jt_runs :: "('i, 'd, 'u, 't, 'l) cached_config \<Rightarrow> nat \<Rightarrow> ('i, 'd, 'u, 't) cached_topology \<Rightarrow> ('i, 'd, 'u, 't) cached_topology \<Rightarrow> bool"
  for J where
  Stop: "jt_runs J 0 s s"
| Next: "jt_cycle J p s = Some ss \<Longrightarrow> s' \<in> set ss \<Longrightarrow> jt_runs J n s' s'' \<Longrightarrow> jt_runs J (Suc n) s s''"

inductive_cases jt_runs_zeroE: "jt_runs J 0 s s'"
inductive_cases jt_runs_sucE: "jt_runs J (Suc n) s s'"

lemma jt_runs_invariant:
  assumes "jt_runs J n s s'" "P s" and "\<And>p x xs x'. P x \<Longrightarrow> jt_cycle J p x = Some xs \<Longrightarrow> x' \<in> set xs \<Longrightarrow> P x'"
  shows "P s'"
  using assms(1,2) by (induction rule: jt_runs.induct) (use assms(3) in blast)+

text \<open>Accesses that count down to their completion, whatever the component that serves them.\<close>

locale timed_accesses =
  fixes step :: "'s \<Rightarrow> 's \<Rightarrow> bool" and ongoing :: "'s \<Rightarrow> ongoing_access option" and finished :: "'s \<Rightarrow> 32 word"
    and rest :: "ongoing_access \<Rightarrow> nat" and counting :: "ongoing_access \<Rightarrow> bool"
  assumes progress: "step s s' \<Longrightarrow> ongoing s = Some oa \<Longrightarrow> counting oa \<Longrightarrow>
      if rest oa = 1 then ongoing s' = None \<and> finished s' = ma_id (oa_access oa)
      else \<exists>oa'. ongoing s' = Some oa' \<and> oa_access oa' = oa_access oa \<and> counting oa' \<and> rest oa' = rest oa - 1"
    and rest_pos: "0 < rest oa"
begin

lemma countdown:
  assumes "(step ^^ n) s s'" "ongoing s = Some oa" "counting oa"
  shows "(n < rest oa \<longrightarrow> (\<exists>oa'. ongoing s' = Some oa' \<and> oa_access oa' = oa_access oa)) \<and>
    (n = rest oa \<longrightarrow> ongoing s' = None \<and> finished s' = ma_id (oa_access oa))"
  using assms
proof (induction n arbitrary: s oa)
  case 0
  then show ?case using rest_pos [of oa] by auto
next
  case (Suc n)
  obtain x where x: "step s x" "(step ^^ n) x s'" using Suc.prems(1) by (rule relpowp_Suc_E2)
  note i = progress [OF x(1) Suc.prems(2,3)]
  show ?case
  proof (cases "rest oa = 1")
    case True
    then show ?thesis using i x(2) by (cases n) auto
  next
    case False
    then obtain oa' where "ongoing x = Some oa'" "oa_access oa' = oa_access oa" "counting oa'" "rest oa' = rest oa - 1" using i by auto
    then show ?thesis using Suc.IH [OF x(2), of oa'] rest_pos [of oa] by (cases "rest oa") auto
  qed
qed

lemma started_countdown:
  assumes "(step ^^ Suc n) s s'"
    and "\<And>x. step s x \<Longrightarrow> if time = 1 then ongoing x = None \<and> finished x = ma_id a
      else \<exists>oa. ongoing x = Some oa \<and> oa_access oa = a \<and> counting oa \<and> rest oa = time - 1"
  shows "(Suc n < time \<longrightarrow> (\<exists>oa. ongoing s' = Some oa \<and> oa_access oa = a)) \<and>
    (Suc n = time \<longrightarrow> ongoing s' = None \<and> finished s' = ma_id a)"
proof -
  obtain x where x: "step s x" "(step ^^ n) x s'" using assms(1) by (rule relpowp_Suc_E2)
  note i = assms(2) [OF x(1)]
  show ?thesis
  proof (cases "time = 1")
    case True
    then show ?thesis using i x(2) by (cases n) auto
  next
    case False
    then obtain oa where oa: "ongoing x = Some oa" "oa_access oa = a" "counting oa" "rest oa = time - 1" using i by auto
    from countdown [OF x(2) oa(1,3)] oa(2,4) rest_pos [of oa] show ?thesis by auto
  qed
qed

end

section \<open>Starting an access\<close>

text \<open>What really happens, and the classifications that admit it.\<close>

definition outcome :: "bool \<Rightarrow> bool \<Rightarrow> classification" where
  "outcome hit1 hit2 = (if hit1 then CL_HIT else if hit2 then CL2_HIT else CL2_MISS)"

definition class_admits :: "classification \<Rightarrow> bool \<Rightarrow> bool" where
  "class_admits c hit \<longleftrightarrow> plain_class c \<and> (c = CL_HIT \<longrightarrow> hit) \<and> (c = CL_MISS \<longrightarrow> \<not> hit)"

text \<open>Where the access is served: the first level, the second level, the background.\<close>

definition service_level :: "classification \<Rightarrow> nat" where
  "service_level c = (if c = CL_HIT then 1 else if c = CL2_HIT then 2 else 3)"

lemma service_level_simps [simp]: "service_level CL_HIT = 1" "service_level CL2_HIT = 2" "service_level CL2_MISS = 3"
  by (simp_all add: service_level_def cl_defs)

lemma start_classes_cover:
  assumes "class_admits l1 hit1" "class_admits l2 hit2"
  shows "TimingAnomalyAnalysis Op \<Longrightarrow> \<not> isBCET Op \<Longrightarrow>
      outcome hit1 hit2 \<in> set (start_classes Op l1 l2) \<or> (l1 = CL_UNKNOWN \<and> l2 = CL_MISS \<and> hit1)"
    and "\<not> TimingAnomalyAnalysis Op \<Longrightarrow> \<not> isBCET Op \<Longrightarrow>
      \<exists>c. start_classes Op l1 l2 = [c] \<and> service_level (outcome hit1 hit2) \<le> service_level c"
    and "isBCET Op \<Longrightarrow> \<not> TimingAnomalyAnalysis Op \<Longrightarrow>
      \<exists>c. start_classes Op l1 l2 = [c] \<and> service_level c \<le> service_level (outcome hit1 hit2)"
  using assms by (auto simp: start_classes_def outcome_def class_admits_def plain_class_def)

lemma start_classes_range: "set (start_classes Op l1 l2) \<subseteq> {CL_HIT, CL2_HIT, CL2_MISS}"
  by (auto simp: start_classes_def)

lemma processData_class:
  assumes "processDataCacheAccess J cl s = Some s'" "co_ongoing (jt_data s) = Some oa"
  shows "\<exists>oa'. co_ongoing (jt_data s') = Some oa' \<and> oa_class oa' = cl \<and> oa_access oa' = oa_access oa"
  using assms by (auto simp: processDataCacheAccess_def Let_def split: option.splits if_splits)

lemma mystartData_classes:
  assumes "mystartDataAccess J s = Some ss" "co_ongoing (jt_data s) = None" "co_queue (jt_data s) = a # q"
    and "ac_classify (jc_data J) (co_cache (jt_data s)) (ma_addr a) = Some l1"
    and "ac_classify (jc_l2 J) (co_cache (jt_l2 s)) (ma_addr a) = Some l2"
  shows "List.map (\<lambda>s'. map_option oa_class (co_ongoing (jt_data s'))) ss = List.map Some (start_classes (jc_options J) l1 l2)"
proof -
  let ?s1 = "s\<lparr>jt_data := (jt_data s)\<lparr>co_ongoing := Some (new_ongoing a), co_queue := q\<rparr>\<rparr>"
  have t: "those (List.map (\<lambda>cl. processDataCacheAccess J cl ?s1) (start_classes (jc_options J) l1 l2)) = Some ss"
    using assms by (simp add: mystartDataAccess_def Let_def)
  have "List.map (\<lambda>s'. map_option oa_class (co_ongoing (jt_data s'))) ys = List.map Some cls"
    if "those (List.map (\<lambda>cl. processDataCacheAccess J cl ?s1) cls) = Some ys" for cls ys
    using that
  proof (induction cls arbitrary: ys)
    case Nil
    then show ?case by simp
  next
    case (Cons c cs)
    then obtain y zs where y: "processDataCacheAccess J c ?s1 = Some y" "those (List.map (\<lambda>cl. processDataCacheAccess J cl ?s1) cs) = Some zs"
        "ys = y # zs"
      by (auto split: option.splits)
    have "\<exists>oa'. co_ongoing (jt_data y) = Some oa' \<and> oa_class oa' = c" using processData_class [OF y(1), of "new_ongoing a"] by auto
    then show ?case using Cons.IH [OF y(2)] y(3) by auto
  qed
  from this [OF t] show ?thesis .
qed


end
