(* ===== verification/TA_Topology_Sound.thy ===== *)
theory TA_Topology_Sound
  imports TA_Topology TA_Cycling_Memory_Properties
begin

text \<open>
  The topologies without caches over any memories that keep the contract of a cycling memory: the
  invariant of the states, when \<open>cycle\<close> stops at an assertion, and how long an accepted access takes.
\<close>

section \<open>One memory\<close>

definition sm_ok :: "('m, 'l) cycling_memory \<Rightarrow> ('m \<Rightarrow> bool) \<Rightarrow> (32 word \<Rightarrow> bool) \<Rightarrow> 'm single_topology \<Rightarrow> bool" where
  "sm_ok M ok valid s \<longleftrightarrow> ok (sm_memory s) \<and> (sm_accessed_id s \<noteq> 0 \<longleftrightarrow> am_busy M (sm_memory s)) \<and>
     length (sm_instr_queue s) \<le> 1 \<and> length (sm_data_queue s) \<le> 1 \<and>
     (\<forall>a\<in>set (sm_instr_queue s) \<union> set (sm_data_queue s). ma_id a \<noteq> 0 \<and> valid (ma_words a)) \<and>
     sm_current_id s \<noteq> 0 \<and> (sm_finished s \<noteq> 0 \<longrightarrow> sm_accessed_id s = 0) \<and> (sm_waiting_join s \<longrightarrow> sm_accessed_id s = 0)"

text \<open>The only assertion of \<open>cycle\<close> that can fail.\<close>

definition sm_stuck :: "topology_options \<Rightarrow> bool \<Rightarrow> 'm single_topology \<Rightarrow> bool" where
  "sm_stuck Op pending s \<longleftrightarrow> pending \<and> \<not> strict_inorder Op \<and> sm_accessed_id s = 0 \<and> sm_data_queue s = [] \<and> sm_instr_queue s \<noteq> []"

definition sm_next :: "('m, 'l) cycling_memory \<Rightarrow> 'm single_topology \<Rightarrow> 'm \<Rightarrow> 'm single_topology" where
  "sm_next M r m = (if sm_accessed_id r > 0 \<and> \<not> am_busy M m
     then r\<lparr>sm_memory := m, sm_finished := sm_accessed_id r, sm_waiting_join := True, sm_accessed_id := 0\<rparr>
     else r\<lparr>sm_memory := m, sm_finished := 0, sm_waiting_join := False\<rparr>)"

lemma sm_cycled_eq: "sm_cycled M r m = Some (sm_next M r m)"
  by (simp add: sm_cycled_def sm_next_def sm_finish_access_def Let_def)

lemma sm_cycle_set:
  assumes "sm_start Op M p s = Some rs" and c: "\<And>r. r \<in> set rs \<Longrightarrow> am_cycle M (sm_memory r) \<noteq> None"
  shows "\<exists>ss. sm_cycle Op M p s = Some ss \<and> set ss = (\<Union>r\<in>set rs. sm_next M r ` set (the (am_cycle M (sm_memory r))))"
proof -
  let ?f = "\<lambda>r. case am_cycle M (sm_memory r) of None \<Rightarrow> None | Some ms \<Rightarrow> those (List.map (sm_cycled M r) ms)"
  have f: "?f r = Some (List.map (sm_next M r) (the (am_cycle M (sm_memory r))))" if "r \<in> set rs" for r
  proof -
    obtain ms where ms: "am_cycle M (sm_memory r) = Some ms" using c [OF \<open>r \<in> set rs\<close>] by blast
    have "those (List.map (sm_cycled M r) ms) = Some (List.map (sm_next M r) ms)"
      by (rule those_map_Some) (simp add: sm_cycled_eq)
    then show ?thesis using ms by simp
  qed
  obtain ys where ys: "all_cases ?f rs = Some ys" "set ys = (\<Union>x\<in>set rs. set (the (?f x)))"
    using all_cases_defined [of rs ?f] f by auto
  have "set ys = (\<Union>r\<in>set rs. sm_next M r ` set (the (am_cycle M (sm_memory r))))"
    unfolding ys(2) using f by simp
  then show ?thesis using ys(1) assms(1) by (simp add: sm_cycle_def)
qed

lemma sm_access_instr_ok:
  "sm_ok M ok valid s \<Longrightarrow> valid w \<Longrightarrow> sm_access_instr Op a w s = Some (r, s') \<Longrightarrow> sm_ok M ok valid s'"
  by (auto simp: sm_ok_def sm_access_instr_def Let_def next_id_nonzero length_Suc_conv le_Suc_eq split: if_splits)

lemma sm_access_data_ok:
  "sm_ok M ok valid s \<Longrightarrow> valid w \<Longrightarrow> sm_access_data Op aa ls w s = Some (r, s') \<Longrightarrow> sm_ok M ok valid s'"
  by (auto simp: sm_ok_def sm_access_data_def Let_def next_id_nonzero split: if_splits)

lemma sm_finished_access_ok:
  "sm_ok M ok valid s \<Longrightarrow> sm_finished_access i s = (b, s') \<Longrightarrow> sm_ok M ok valid s'"
  by (auto simp: sm_ok_def sm_finished_access_def Let_def split: if_splits)

lemma sm_access_instr_same:
  "sm_access_instr Op a w s = Some (r, s') \<Longrightarrow> sm_memory s' = sm_memory s \<and> sm_finished s' = sm_finished s \<and>
     sm_accessed_id s' = sm_accessed_id s \<and> sm_data_queue s' = sm_data_queue s"
  by (auto simp: sm_access_instr_def Let_def split: if_splits)

lemma sm_finished_access_same:
  "sm_finished_access j s = (b, s') \<Longrightarrow> sm_memory s' = sm_memory s \<and> (sm_finished s' = sm_finished s \<or> sm_finished s' = 0) \<and>
     sm_accessed_id s' = sm_accessed_id s \<and> sm_data_queue s' = sm_data_queue s"
  by (auto simp: sm_finished_access_def Let_def split: if_splits)

lemma sm_start_stuck: "sm_stuck Op p s \<Longrightarrow> sm_cycle Op M p s = None"
  by (auto simp: sm_stuck_def sm_cycle_def sm_start_def split: list.splits)

text \<open>
  \<open>sm_takes M Op id n s\<close>: the access \<open>id\<close> is finished after \<open>n\<close> cycles, along one of the cases, with
  instruction accesses and queries for other accesses between the cycles.
\<close>

inductive sm_takes :: "('m, 'l) cycling_memory \<Rightarrow> topology_options \<Rightarrow> (32 word \<Rightarrow> bool) \<Rightarrow> 32 word \<Rightarrow> nat \<Rightarrow> 'm single_topology \<Rightarrow> bool"
  for M Op V i where
  Done: "sm_finished s = i \<Longrightarrow> sm_takes M Op V i 0 s"
| Pass: "sm_finished s \<noteq> i \<Longrightarrow> sm_cycle Op M p s = Some ss \<Longrightarrow> s' \<in> set ss \<Longrightarrow> sm_takes M Op V i n s' \<Longrightarrow>
    sm_takes M Op V i (Suc n) s"
| Fetch: "sm_finished s \<noteq> i \<Longrightarrow> V w \<Longrightarrow> sm_access_instr Op a w s = Some (r, s') \<Longrightarrow> sm_takes M Op V i n s' \<Longrightarrow>
    sm_takes M Op V i n s"
| Ask: "sm_finished s \<noteq> i \<Longrightarrow> j \<noteq> i \<Longrightarrow> sm_finished_access j s = (b, s') \<Longrightarrow> sm_takes M Op V i n s' \<Longrightarrow>
    sm_takes M Op V i n s"

text \<open>Everything the pipeline does to the topology.\<close>

inductive sm_reachable ::
  "ana_env \<Rightarrow> ('m, 'l) cycling_memory \<Rightarrow> topology_options \<Rightarrow> (32 word \<Rightarrow> bool) \<Rightarrow> ('m \<Rightarrow> bool) \<Rightarrow> 'm single_topology \<Rightarrow> bool"
  for E M Op V F where
  Begin: "sm_reachable E M Op V F (sm_init M)"
| Restart: "sm_reachable E M Op V F s \<Longrightarrow> sm_reachable E M Op V F (sm_reset M s)"
| Instr: "sm_reachable E M Op V F s \<Longrightarrow> V w \<Longrightarrow> sm_access_instr Op a w s = Some (r, s') \<Longrightarrow> sm_reachable E M Op V F s'"
| Data: "sm_reachable E M Op V F s \<Longrightarrow> V w \<Longrightarrow> sm_access_data Op aa ls w s = Some (r, s') \<Longrightarrow> sm_reachable E M Op V F s'"
| Tick: "sm_reachable E M Op V F s \<Longrightarrow> sm_cycle Op M p s = Some ss \<Longrightarrow> s' \<in> set ss \<Longrightarrow> sm_reachable E M Op V F s'"
| Query: "sm_reachable E M Op V F s \<Longrightarrow> sm_finished_access i s = (b, s') \<Longrightarrow> sm_reachable E M Op V F s'"
| Merge: "sm_reachable E M Op V F s \<Longrightarrow> sm_reachable E M Op V F s' \<Longrightarrow> sm_join E M s s' = Some j \<Longrightarrow> sm_reachable E M Op V F j"
| Skip: "sm_reachable E M Op V F s \<Longrightarrow> F (sm_memory s) \<Longrightarrow> sm_fast_forward M s = Some ss \<Longrightarrow> s' \<in> set ss \<Longrightarrow>
    sm_reachable E M Op V F s'"

context cycling_memory_contract
begin

lemma sm_start_spec:
  assumes s: "sm_ok M ok valid s" and free: "\<not> sm_stuck Op p s"
  shows "\<exists>rs. sm_start Op M p s = Some rs \<and>
    (if sm_accessed_id s = 0 \<and> sm_data_queue s \<noteq> []
     then \<exists>ms. am_announce M (ma_addr (hd (sm_data_queue s))) (ma_load_store (hd (sm_data_queue s))) (ma_words (hd (sm_data_queue s))) (sm_memory s) = Some ms \<and>
       rs = List.map (\<lambda>m. s\<lparr>sm_accessed_id := ma_id (hd (sm_data_queue s)), sm_memory := m, sm_data_queue := [], sm_accesses_instr := False\<rparr>) ms
     else if sm_accessed_id s = 0 \<and> sm_instr_queue s \<noteq> [] \<and> \<not> p
     then \<exists>ms. am_announce M (ma_addr (hd (sm_instr_queue s))) (ma_load_store (hd (sm_instr_queue s))) (ma_words (hd (sm_instr_queue s))) (sm_memory s) = Some ms \<and>
       rs = List.map (\<lambda>m. s\<lparr>sm_accessed_id := ma_id (hd (sm_instr_queue s)), sm_memory := m, sm_instr_queue := [], sm_accesses_instr := True\<rparr>) ms
     else rs = [s])"
proof -
  have q: "length (sm_data_queue s) \<le> 1" "length (sm_instr_queue s) \<le> 1"
    "\<And>a. a \<in> set (sm_instr_queue s) \<union> set (sm_data_queue s) \<Longrightarrow> valid (ma_words a)" "ok (sm_memory s)"
    using s by (auto simp: sm_ok_def)
  have ann: "\<exists>ms. am_announce M (ma_addr a) (ma_load_store a) (ma_words a) (sm_memory s) = Some ms"
    if "sm_accessed_id s = 0" "a \<in> set (sm_instr_queue s) \<union> set (sm_data_queue s)" for a
    using announce [of "sm_memory s" "ma_words a"] s that by (fastforce simp: sm_ok_def)
  show ?thesis
  proof (cases "sm_accessed_id s = 0")
    case True
    show ?thesis
    proof (cases "sm_data_queue s")
      case (Cons a l)
      then have l: "l = []" using q(1) by simp
      then show ?thesis using ann [OF True, of a] True Cons by (auto simp: sm_start_def sm_access_memory_def)
    next
      case Nil
      show ?thesis
      proof (cases "sm_instr_queue s")
        case (Cons a l)
        then have l: "l = []" using q(2) by simp
        then show ?thesis using ann [OF True, of a] True Cons Nil free
          by (auto simp: sm_start_def sm_access_memory_def sm_stuck_def)
      qed (use True Nil in \<open>simp add: sm_start_def\<close>)
    qed
  qed (simp add: sm_start_def)
qed

lemma sm_cycle_ok:
  assumes s: "sm_ok M ok valid s" and free: "\<not> sm_stuck Op p s"
  shows "\<exists>ss. sm_cycle Op M p s = Some ss \<and> (\<forall>s'\<in>set ss. sm_ok M ok valid s')"
proof -
  obtain rs where rs: "sm_start Op M p s = Some rs" using sm_start_spec [OF s free] by blast
  have q: "ok (sm_memory s)" "sm_accessed_id s \<noteq> 0 \<longleftrightarrow> am_busy M (sm_memory s)" using s by (auto simp: sm_ok_def)
  have r: "sm_ok M ok valid (r\<lparr>sm_finished := 0, sm_waiting_join := False\<rparr>)" if "r \<in> set rs" for r
  proof -
    have ids: "ma_id a \<noteq> 0 \<and> valid (ma_words a)" if "a \<in> set (sm_instr_queue s) \<union> set (sm_data_queue s)" for a
      using s that unfolding sm_ok_def by blast
    have hds: "sm_data_queue s \<noteq> [] \<Longrightarrow> ma_id (hd (sm_data_queue s)) \<noteq> 0 \<and> valid (ma_words (hd (sm_data_queue s)))"
      "sm_instr_queue s \<noteq> [] \<Longrightarrow> ma_id (hd (sm_instr_queue s)) \<noteq> 0 \<and> valid (ma_words (hd (sm_instr_queue s)))"
      using ids by simp_all
    have ann: "ok m \<and> am_busy M m"
      if "am_announce M aa ls w (sm_memory s) = Some ms" "m \<in> set ms" "valid w" "sm_accessed_id s = 0" for m aa ls w ms
      using announce [OF q(1), of w aa ls] that q(2) by auto
    consider (data) "sm_accessed_id s = 0" "sm_data_queue s \<noteq> []"
      | (instr) "sm_accessed_id s = 0" "sm_data_queue s = []" "sm_instr_queue s \<noteq> []" "\<not> p"
      | (same) "rs = [s]"
      using sm_start_spec [OF s free] rs by (auto split: if_splits)
    then show ?thesis
    proof cases
      case data
      then show ?thesis using sm_start_spec [OF s free] rs that s hds(1) ann by (fastforce simp: sm_ok_def)
    next
      case instr
      then show ?thesis using sm_start_spec [OF s free] rs that s hds(2) ann by (fastforce simp: sm_ok_def)
    next
      case same
      then show ?thesis using that s by (auto simp: sm_ok_def)
    qed
  qed
  have c: "am_cycle M (sm_memory x) \<noteq> None \<and> (\<forall>m'\<in>set (the (am_cycle M (sm_memory x))). ok m' \<and> (\<not> am_busy M (sm_memory x) \<longrightarrow> \<not> am_busy M m'))"
    if "x \<in> set rs" for x
  proof -
    have okx: "ok (sm_memory x)" using r [OF that] by (simp add: sm_ok_def)
    obtain ms where ms: "am_cycle M (sm_memory x) = Some ms" "\<And>m'. m' \<in> set ms \<Longrightarrow> ok m'" "(\<Union>m'\<in>set ms. rem m') = (\<lambda>t. t - 1) ` rem (sm_memory x)"
      by (rule cycleE [OF okx], rule that) auto
    have "\<not> am_busy M m'" if "m' \<in> set ms" "\<not> am_busy M (sm_memory x)" for m'
    proof -
      have "rem m' \<subseteq> {0}" using ms(3) that idle [OF okx] by auto
      then show ?thesis using rem_finite [of m'] ms(2) busy [of m'] that by (metis subset_singletonD singletonI)
    qed
    then show ?thesis using ms by simp
  qed
  obtain ss where ss: "sm_cycle Op M p s = Some ss" "set ss = (\<Union>r\<in>set rs. sm_next M r ` set (the (am_cycle M (sm_memory r))))"
    using sm_cycle_set [OF rs] c by blast
  have "sm_ok M ok valid s'" if h: "s' \<in> set ss" for s'
  proof -
    obtain x m' where x: "x \<in> set rs" "m' \<in> set (the (am_cycle M (sm_memory x)))" "s' = sm_next M x m'"
      using h unfolding ss(2) by blast
    have okx: "ok (sm_memory x)" "sm_accessed_id x \<noteq> 0 \<longleftrightarrow> am_busy M (sm_memory x)" using r [OF x(1)] by (auto simp: sm_ok_def)
    have m': "ok m'" "\<not> am_busy M (sm_memory x) \<longrightarrow> \<not> am_busy M m'" using c x by blast+
    then show ?thesis using r [OF x(1)] okx m' unfolding x(3) sm_ok_def by (auto simp: sm_next_def word_gt_0)
  qed
  then show ?thesis using ss(1) by blast
qed

lemma sm_reachable_ok: "sm_reachable E M Op valid can_ff s \<Longrightarrow> sm_ok M ok valid s"
proof (induction rule: sm_reachable.induct)
  case Begin
  then show ?case using init by (simp add: sm_ok_def sm_init_def)
next
  case (Restart s)
  then show ?case using reset by (simp add: sm_ok_def sm_reset_def)
next
  case (Instr s w a r s')
  then show ?case using sm_access_instr_ok by blast
next
  case (Data s w aa ls r s')
  then show ?case using sm_access_data_ok by blast
next
  case (Tick s p ss s')
  have "\<not> sm_stuck Op p s" using sm_start_stuck [of Op p s M] Tick.hyps(2) by auto
  then show ?case using sm_cycle_ok [OF Tick.IH] Tick.hyps by fastforce
next
  case (Query s i b s')
  then show ?case using sm_finished_access_ok by blast
next
  case (Merge s s' j)
  then obtain m where m: "am_joinable M (sm_memory s) (sm_memory s')" "sm_ids_equal E s s'" "am_join M (sm_memory s) (sm_memory s') = Some m"
      "j = s\<lparr>sm_waiting_join := sm_waiting_join s \<or> sm_waiting_join s', sm_memory := m\<rparr>"
    by (auto simp: sm_join_def sm_joinable_def split: if_splits)
  have o: "ok (sm_memory s)" "ok (sm_memory s')" using Merge.IH by (auto simp: sm_ok_def)
  obtain m1 where "am_join M (sm_memory s) (sm_memory s') = Some m1" "ok m1" "rem m1 = rem (sm_memory s)"
    using join [OF o m(1)] by blast
  then have m1: "ok m" "rem m = rem (sm_memory s)" using m(3) by simp_all
  have "am_busy M m \<longleftrightarrow> am_busy M (sm_memory s)" using busy_iff m1 o(1) by simp
  moreover have "sm_accessed_id s = 0 \<longleftrightarrow> sm_accessed_id s' = 0" using m(2) by (auto simp: sm_ids_equal_def ids_equal_def)
  ultimately show ?case using Merge.IH m(4) m1(1) by (auto simp: sm_ok_def)
next
  case (Skip s ss s')
  show ?case
  proof (cases "am_busy M (sm_memory s)")
    case True
    have "ok (sm_memory s)" using Skip.IH by (simp add: sm_ok_def)
    from fast_forward [OF this True Skip.hyps(2)] show ?thesis
      using Skip.IH Skip.hyps(3,4) True by (auto simp: sm_ok_def sm_fast_forward_def split: if_splits)
  next
    case False
    then show ?thesis using Skip by (auto simp: sm_fast_forward_def)
  qed
qed

end

text \<open>The times a pending data access may still take.\<close>

definition sm_pending :: "32 word \<Rightarrow> 'm single_topology \<Rightarrow> bool" where
  "sm_pending i s \<longleftrightarrow> i \<noteq> 0 \<and> (sm_finished s = i \<or> sm_accessed_id s = i \<or> (\<exists>a. sm_data_queue s = [a] \<and> ma_id a = i))"

definition sm_time :: "('m \<Rightarrow> nat set) \<Rightarrow> (32 word \<Rightarrow> nat set) \<Rightarrow> 32 word \<Rightarrow> 'm single_topology \<Rightarrow> nat set" where
  "sm_time rem lat i s =
     (if sm_finished s = i then {0}
      else if sm_accessed_id s = i then rem (sm_memory s)
      else {r + l | r l. r \<in> rem (sm_memory s) \<and> l \<in> lat (ma_words (hd (sm_data_queue s)))})"

lemma sm_time_cong:
  assumes "sm_memory s' = sm_memory s" "sm_accessed_id s' = sm_accessed_id s" "sm_data_queue s' = sm_data_queue s"
    and "sm_finished s' = i \<longleftrightarrow> sm_finished s = i"
  shows "sm_time rem lat i s' = sm_time rem lat i s" "sm_pending i s' = sm_pending i s"
  using assms by (auto simp: sm_time_def sm_pending_def)

lemma sum_pred_sets: "(0::nat) \<notin> R \<Longrightarrow> {r + l | r l. r \<in> (\<lambda>t. t - 1) ` R \<and> l \<in> L} = (\<lambda>t. t - 1) ` {r + l | r l. r \<in> R \<and> l \<in> L}"
proof -
  assume z: "0 \<notin> R"
  have e: "r - 1 + l = (r + l) - 1" if "r \<in> R" for r l using that z by (cases r) auto
  show ?thesis (is "?A = ?B")
  proof (intro equalityI subsetI)
    fix x assume "x \<in> ?A"
    then obtain r l where "x = r - 1 + l" "r \<in> R" "l \<in> L" by blast
    then show "x \<in> ?B" using e [of r l] by blast
  next
    fix x assume "x \<in> ?B"
    then obtain r l where "x = (r + l) - 1" "r \<in> R" "l \<in> L" by blast
    then show "x \<in> ?A" using e [of r l] by force
  qed
qed

context cycling_memory_contract
begin

lemma sm_next_time_running:
  assumes "ok m'" "sm_accessed_id r = i" "i \<noteq> 0"
  shows "sm_pending i (sm_next M r m') \<and> sm_time rem lat i (sm_next M r m') = rem m'"
  using assms idle [of m'] by (auto simp: sm_next_def sm_pending_def sm_time_def word_gt_0)

lemma sm_next_time_waiting:
  assumes "ok m'" "sm_accessed_id r \<noteq> i" "i \<noteq> 0" "sm_data_queue r = [a]" "ma_id a = i" "sm_accessed_id r \<noteq> 0"
  shows "sm_pending i (sm_next M r m') \<and> sm_time rem lat i (sm_next M r m') = {r + l | r l. r \<in> rem m' \<and> l \<in> lat (ma_words a)}"
  using assms idle [of m'] by (auto simp: sm_next_def sm_pending_def sm_time_def word_gt_0)

lemma sm_time_step:
  assumes s: "sm_ok M ok valid s" and pe: "sm_pending i s" and nf: "sm_finished s \<noteq> i"
  shows "\<exists>ss. sm_cycle Op M p s = Some ss \<and> (\<forall>s'\<in>set ss. sm_ok M ok valid s' \<and> sm_pending i s') \<and>
    (\<Union>s'\<in>set ss. sm_time rem lat i s') = (\<lambda>t. t - 1) ` sm_time rem lat i s \<and> 0 \<notin> sm_time rem lat i s"
proof -
  have i0: "i \<noteq> 0" using pe by (simp add: sm_pending_def)
  have m: "ok (sm_memory s)" "sm_accessed_id s \<noteq> 0 \<longleftrightarrow> am_busy M (sm_memory s)" using s by (auto simp: sm_ok_def)
  have free: "\<not> sm_stuck Op p s" using pe nf i0 by (auto simp: sm_stuck_def sm_pending_def)
  obtain rs where rs: "sm_start Op M p s = Some rs" using sm_start_spec [OF s free] by blast
  obtain ss0 where ss0: "sm_cycle Op M p s = Some ss0" "\<forall>s'\<in>set ss0. sm_ok M ok valid s'" using sm_cycle_ok [OF s free] by blast
  obtain cm where cm: "am_cycle M (sm_memory s) = Some cm" "\<And>m'. m' \<in> set cm \<Longrightarrow> ok m'" "(\<Union>m'\<in>set cm. rem m') = (\<lambda>t. t - 1) ` rem (sm_memory s)"
    by (rule cycleE [OF m(1)], rule that) auto
  consider (run) "sm_accessed_id s = i" | (wait) a where "sm_accessed_id s \<noteq> i" "sm_accessed_id s \<noteq> 0" "sm_data_queue s = [a]" "ma_id a = i"
    | (fresh) a where "sm_accessed_id s = 0" "sm_data_queue s = [a]" "ma_id a = i"
    using pe nf i0 by (auto simp: sm_pending_def)
  then show ?thesis
  proof cases
    case run
    have "rs = [s]" using sm_start_spec [OF s free] rs run i0 by auto
    then have ss: "set ss0 = sm_next M s ` set cm" using sm_cycle_set [OF rs] cm(1) ss0(1) by simp
    have n: "\<forall>s'\<in>set ss0. sm_pending i s'" "(\<Union>s'\<in>set ss0. sm_time rem lat i s') = (\<Union>m'\<in>set cm. rem m')"
      unfolding ss using sm_next_time_running [OF cm(2) run i0] by auto
    have t: "sm_time rem lat i s = rem (sm_memory s)" using run nf by (simp add: sm_time_def)
    then show ?thesis using ss0 n cm(3) busy [OF m(1)] m(2) run i0 by auto
  next
    case (wait a)
    have "rs = [s]" using sm_start_spec [OF s free] rs wait by auto
    then have ss: "set ss0 = sm_next M s ` set cm" using sm_cycle_set [OF rs] cm(1) ss0(1) by simp
    let ?L = "lat (ma_words a)"
    have n: "\<forall>s'\<in>set ss0. sm_pending i s'"
      "(\<Union>s'\<in>set ss0. sm_time rem lat i s') = (\<Union>m'\<in>set cm. {r + l | r l. r \<in> rem m' \<and> l \<in> ?L})"
      unfolding ss using sm_next_time_waiting [OF cm(2) wait(1) i0 wait(3,4,2)] by auto
    have nz: "0 \<notin> rem (sm_memory s)" using busy [OF m(1)] m(2) wait(2) by simp
    have "(\<Union>m'\<in>set cm. {r + l | r l. r \<in> rem m' \<and> l \<in> ?L}) = {r + l | r l. r \<in> (\<Union>m'\<in>set cm. rem m') \<and> l \<in> ?L}" by blast
    also have "\<dots> = (\<lambda>t. t - 1) ` {r + l | r l. r \<in> rem (sm_memory s) \<and> l \<in> ?L}"
      unfolding cm(3) by (rule sum_pred_sets [OF nz])
    finally have u: "(\<Union>s'\<in>set ss0. sm_time rem lat i s') = (\<lambda>t. t - 1) ` {r + l | r l. r \<in> rem (sm_memory s) \<and> l \<in> ?L}"
      unfolding n(2) .
    have t: "sm_time rem lat i s = {r + l | r l. r \<in> rem (sm_memory s) \<and> l \<in> ?L}" using wait nf by (simp add: sm_time_def)
    have "0 \<notin> sm_time rem lat i s" unfolding t using nz by auto
    then show ?thesis using ss0 n(1) u t by auto
  next
    case (fresh a)
    have v: "valid (ma_words a)" using s fresh(2) by (simp add: sm_ok_def)
    have idl: "\<not> am_busy M (sm_memory s)" using m(2) fresh(1) by simp
    obtain ms where ms: "am_announce M (ma_addr a) (ma_load_store a) (ma_words a) (sm_memory s) = Some ms" "\<And>m'. m' \<in> set ms \<Longrightarrow> ok m'"
      "\<And>m'. m' \<in> set ms \<Longrightarrow> am_busy M m'" "(\<Union>m'\<in>set ms. rem m') = lat (ma_words a)"
      by (rule announceE [OF m(1) idl v], rule that) auto
    let ?r = "\<lambda>m. s\<lparr>sm_accessed_id := i, sm_memory := m, sm_data_queue := [], sm_accesses_instr := False\<rparr>"
    have r: "rs = List.map ?r ms" using sm_start_spec [OF s free] rs fresh ms(1) by auto
    have c: "am_cycle M m' \<noteq> None \<and> (\<forall>x\<in>set (the (am_cycle M m')). ok x) \<and> (\<Union>x\<in>set (the (am_cycle M m')). rem x) = (\<lambda>t. t - 1) ` rem m'"
      if "m' \<in> set ms" for m'
      using cycle [OF ms(2) [OF that]] by auto
    have ss: "set ss0 = (\<Union>m'\<in>set ms. sm_next M (?r m') ` set (the (am_cycle M m')))"
    proof -
      have "am_cycle M (sm_memory x) \<noteq> None" if "x \<in> set rs" for x using that c unfolding r by auto
      from sm_cycle_set [OF rs this] show ?thesis using ss0(1) unfolding r by auto
    qed
    have n: "sm_pending i (sm_next M (?r m') x) \<and> sm_time rem lat i (sm_next M (?r m') x) = rem x"
      if "m' \<in> set ms" "x \<in> set (the (am_cycle M m'))" for m' x
      using sm_next_time_running [of x "?r m'" i] c that i0 by auto
    have "(\<Union>s'\<in>set ss0. sm_time rem lat i s') = (\<Union>m'\<in>set ms. \<Union>x\<in>set (the (am_cycle M m')). rem x)"
      unfolding ss using n by auto
    also have "\<dots> = (\<Union>m'\<in>set ms. (\<lambda>t. t - 1) ` rem m')" using c by auto
    also have "\<dots> = (\<lambda>t. t - 1) ` lat (ma_words a)" unfolding ms(4) [symmetric] by blast
    finally have u: "(\<Union>s'\<in>set ss0. sm_time rem lat i s') = (\<lambda>t. t - 1) ` lat (ma_words a)" .
    have t: "sm_time rem lat i s = lat (ma_words a)"
      using fresh nf i0 idle [OF m(1) idl] by (auto simp: sm_time_def)
    have "0 \<notin> lat (ma_words a)" unfolding ms(4) [symmetric] using busy ms(2,3) by auto
    then show ?thesis using ss0 u t ss n by auto
  qed
qed

lemma sm_takes_time:
  "sm_takes M Op valid i n s \<Longrightarrow> sm_ok M ok valid s \<Longrightarrow> sm_pending i s \<Longrightarrow> n \<in> sm_time rem lat i s"
proof (induction rule: sm_takes.induct)
  case (Done s)
  then show ?case by (simp add: sm_time_def)
next
  case (Pass s p ss s' n)
  obtain ss' where ss': "sm_cycle Op M p s = Some ss'" "\<forall>s'\<in>set ss'. sm_ok M ok valid s' \<and> sm_pending i s'"
    "(\<Union>s'\<in>set ss'. sm_time rem lat i s') = (\<lambda>t. t - 1) ` sm_time rem lat i s" "0 \<notin> sm_time rem lat i s"
    using sm_time_step [OF Pass.prems Pass.hyps(1), of Op p] by blast
  have "n \<in> sm_time rem lat i s'" using Pass.IH ss'(1,2) Pass.hyps(2,3) by auto
  then have "n \<in> (\<lambda>t. t - 1) ` sm_time rem lat i s" using ss'(1,3) Pass.hyps(2,3) by auto
  then obtain t where "t \<in> sm_time rem lat i s" "n = t - 1" by blast
  moreover have "t \<noteq> 0" using ss'(4) \<open>t \<in> sm_time rem lat i s\<close> by metis
  ultimately show ?case by auto
next
  case (Fetch s w a r s' n)
  have "sm_ok M ok valid s'" using sm_access_instr_ok Fetch.prems(1) Fetch.hyps(2,3) by blast
  moreover have "sm_time rem lat i s' = sm_time rem lat i s" "sm_pending i s' = sm_pending i s"
    using sm_access_instr_same [OF Fetch.hyps(3)] by (intro sm_time_cong; simp)+
  ultimately show ?case using Fetch.IH Fetch.prems(2) by simp
next
  case (Ask s j b s' n)
  have "sm_ok M ok valid s'" using sm_finished_access_ok Ask.prems(1) Ask.hyps(3) by blast
  moreover have "sm_finished s' \<noteq> i"
    using Ask.prems(2) Ask.hyps(1) sm_finished_access_same [OF Ask.hyps(3)] by (auto simp: sm_pending_def)
  moreover have "sm_time rem lat i s' = sm_time rem lat i s" "sm_pending i s' = sm_pending i s"
    using sm_finished_access_same [OF Ask.hyps(3)] Ask.hyps(1) calculation(2) by (intro sm_time_cong; simp)+
  ultimately show ?case using Ask.IH Ask.prems(2) by simp
qed

lemma sm_time_takes:
  "n \<in> sm_time rem lat i s \<Longrightarrow> sm_ok M ok valid s \<Longrightarrow> sm_pending i s \<Longrightarrow> sm_takes M Op valid i n s"
proof (induction n arbitrary: s)
  case 0
  have "sm_finished s = i" using sm_time_step [OF 0(2,3)] 0(1) by blast
  then show ?case by (rule sm_takes.Done)
next
  case (Suc n)
  have nf: "sm_finished s \<noteq> i" using Suc.prems(1) by (auto simp: sm_time_def)
  obtain ss' where ss': "sm_cycle Op M False s = Some ss'" "\<forall>s'\<in>set ss'. sm_ok M ok valid s' \<and> sm_pending i s'"
    "(\<Union>s'\<in>set ss'. sm_time rem lat i s') = (\<lambda>t. t - 1) ` sm_time rem lat i s"
    using sm_time_step [OF Suc.prems(2,3) nf, of Op False] by blast
  have "n \<in> (\<Union>s'\<in>set ss'. sm_time rem lat i s')" unfolding ss'(3) using Suc.prems(1) by force
  then obtain s' where "s' \<in> set ss'" "n \<in> sm_time rem lat i s'" by blast
  then have "sm_takes M Op valid i n s'" using Suc.IH ss'(2) by blast
  then show ?case using sm_takes.Pass [OF nf ss'(1) \<open>s' \<in> set ss'\<close>] by blast
qed

text \<open>
  An accepted data access takes the remaining time of the access in progress, if there is one, and then
  its own time: waiting instruction accesses do not delay it.
\<close>

lemma sm_data_times:
  assumes s: "sm_ok M ok valid s" and v: "valid w" and a: "sm_access_data Op aa ls w s = Some (Some i, s')"
    and f: "i \<noteq> sm_accessed_id s" "i \<noteq> sm_finished s"
  shows "{n. sm_takes M Op valid i n s'} = {r + l | r l. (\<exists>m'. serves M r (sm_memory s) m') \<and> l \<in> lat w}"
proof -
  have q: "sm_data_queue s = []" "i = sm_current_id s"
    "s' = s\<lparr>sm_data_queue := [\<lparr>ma_id = i, ma_addr = aa, ma_load_store = ls, ma_words = w\<rparr>], sm_current_id := next_id i\<rparr>"
    using a by (auto simp: sm_access_data_def Let_def split: if_splits)
  have i0: "i \<noteq> 0" using s q(2) by (simp add: sm_ok_def)
  have s': "sm_ok M ok valid s'" "sm_pending i s'" using s v i0 q next_id_nonzero by (auto simp: sm_ok_def sm_pending_def)
  have okm: "ok (sm_memory s)" using s by (simp add: sm_ok_def)
  have "{n. sm_takes M Op valid i n s'} = sm_time rem lat i s'"
    using sm_takes_time [OF _ s'] sm_time_takes [OF _ s'] by blast
  also have "\<dots> = {r + l | r l. r \<in> rem (sm_memory s) \<and> l \<in> lat w}" using q f by (simp add: sm_time_def)
  also have "\<dots> = {r + l | r l. (\<exists>m'. serves M r (sm_memory s) m') \<and> l \<in> lat w}"
    unfolding service_times [OF okm, symmetric] by simp
  finally show ?thesis .
qed

end

end
