(* ===== verification/TA_Topology_Properties.thy ===== *)
theory TA_Topology_Properties
  imports TA_Topology_Sound
begin

text \<open>
  Properties of the topologies without caches: the time of a data access through one memory, where its
  \<open>cycle\<close> can fail, what its comparison misses, and the independence of separate memories.
\<close>

section \<open>One memory\<close>

text \<open>
  C27: one SDRAM behind a shared bus for instructions and data: whatever the pipeline did before with accesses
  of at most 8 words and latencies other than 0 (and with a refresh latency other than 0, unless refreshes are
  accounted compositionally), the next cycle succeeds except in one case, an instruction access that could start while the pipeline reports
  pending data misses without strict in-order arbitration; the queues never hold more than one access,
  and an access is in progress exactly while the memory is busy.
\<close>

theorem single_topology_cycle_succeeds:
  fixes Op :: topology_options and Mo :: memory_options and B :: blocking_config
  defines "M \<equiv> blocking_counter_memory B Mo (sd_memory Mo)"
  assumes "sm_reachable E M Op (sd_valid Mo) (bm_can_ff B Mo (sd_memory Mo) (sd_can_ff Mo)) s"
  shows "(sm_cycle Op M pending s = None \<longleftrightarrow>
      pending \<and> \<not> strict_inorder Op \<and> sm_accessed_id s = 0 \<and> sm_data_queue s = [] \<and> sm_instr_queue s \<noteq> []) \<and>
    length (sm_instr_queue s) \<le> 1 \<and> length (sm_data_queue s) \<le> 1 \<and>
    (sm_accessed_id s \<noteq> 0 \<longleftrightarrow> am_busy M (sm_memory s))"
proof -
  have s: "sm_ok M (bm_ok B (sd_memory Mo) (sd_ok Mo)) (sd_valid Mo) s"
    using sd_blocking_counter.sm_reachable_ok assms(2) unfolding M_def .
  have "sm_cycle Op M pending s = None \<longleftrightarrow> sm_stuck Op pending s"
  proof
    assume n: "sm_cycle Op M pending s = None"
    show "sm_stuck Op pending s"
    proof (rule ccontr)
      assume "\<not> sm_stuck Op pending s"
      from sd_blocking_counter.sm_cycle_ok [OF s [unfolded M_def] this] show False using n unfolding M_def by simp
    qed
  qed (rule sm_start_stuck)
  then show ?thesis using s by (simp add: sm_stuck_def sm_ok_def)
qed

abbreviation example_topology :: topology_options where
  "example_topology \<equiv> \<lparr>strict_inorder = False, separate_caches = False, Ilinesize = 16, Dlinesize = 16, stall_on_nothing = True\<rparr>"

theorem single_topology_cycle_succeeds_witness:
  "let M = blocking_counter_memory example_bus example_options (sd_memory example_options) in
   sm_cycle example_topology M True (sm_init M) \<noteq> None"
  using single_topology_cycle_succeeds [OF sm_reachable.Begin, where B = example_bus and Mo = example_options and Op = example_topology and pending = True]
  by (simp add: Let_def sm_init_def)

text \<open>
  C26: the numbers of cycles after which a data access can be finished that this topology accepts, in any
  state reachable with accesses of at most 8 words and latencies other than 0 (and a refresh latency other
  than 0, unless refreshes are accounted compositionally), under an identifier that neither the access in
  progress nor the one finished last has: exactly the time the access in progress still needs (if there is
  one) plus its own latency, plus at most one refresh and the maximal bus blocking, unless these are
  accounted compositionally.  Instruction accesses, waiting or new, do not delay it.
\<close>

theorem single_topology_data_times:
  fixes Op :: topology_options and Mo :: memory_options and B :: blocking_config
  defines "M \<equiv> blocking_counter_memory B Mo (sd_memory Mo)"
  assumes "sm_reachable E M Op (sd_valid Mo) (bm_can_ff B Mo (sd_memory Mo) (sd_can_ff Mo)) s"
    and "sd_valid Mo w" and "sm_access_data Op aa ls w s = Some (Some i, s')"
    and "i \<noteq> sm_accessed_id s" and "i \<noteq> sm_finished s"
  shows "{n. sm_takes M Op (sd_valid Mo) i n s'} =
    {r + l | r l. (\<exists>m'. serves M r (sm_memory s) m') \<and>
       l \<in> {unat (Latency Mo + PerWordLatency Mo * w) .. unat (Latency Mo + PerWordLatency Mo * w) +
              (if comp_dram_refresh Mo then 0 else unat (DRAMRefreshLatency Mo)) +
              (if comp_bus_blocking Mo then 0 else unat (maxBlockingPerAccess B))}}"
proof -
  have s: "sm_ok M (bm_ok B (sd_memory Mo) (sd_ok Mo)) (sd_valid Mo) s"
    using sd_blocking_counter.sm_reachable_ok assms(2) unfolding M_def .
  from sd_blocking_counter.sm_data_times [OF s [unfolded M_def] assms(3-6)] show ?thesis
    unfolding M_def bm_sd_lat_interval sd_cycles_def .
qed

theorem single_topology_data_times_witness:
  "let M = blocking_counter_memory example_bus example_options (sd_memory example_options);
       s' = snd (the (sm_access_data example_topology (AInterval 0x40 0x40) STORE 1 (sm_init M)))
   in {n. sm_takes M example_topology (sd_valid example_options) 1 n s'} = {6..16}"
proof -
  let ?M = "blocking_counter_memory example_bus example_options (sd_memory example_options)"
  let ?s' = "snd (the (sm_access_data example_topology (AInterval 0x40 0x40) STORE 1 (sm_init ?M)))"
  have a: "sm_access_data example_topology (AInterval 0x40 0x40) STORE 1 (sm_init ?M) = Some (Some 1, ?s')"
    by (simp add: sm_access_data_def sm_init_def Let_def)
  have "\<not> am_busy ?M (am_init ?M)" by (simp add: blocking_counter_memory_def example_sd_start(2))
  then have z: "(\<exists>m'. serves ?M r (am_init ?M) m') \<longleftrightarrow> r = 0" for r
    by (auto intro: serves.finished elim: serves.cases)
  have mem: "sm_memory (sm_init ?M) = am_init ?M" by (simp add: sm_init_def)
  have f: "(1::32 word) \<noteq> sm_accessed_id (sm_init ?M)" "(1::32 word) \<noteq> sm_finished (sm_init ?M)" by (simp_all add: sm_init_def)
  have "{n. sm_takes ?M example_topology (sd_valid example_options) 1 n ?s'} = {r + l | r l. r = 0 \<and> l \<in> {6..16}}"
    using single_topology_data_times [OF sm_reachable.Begin example_sd_start(3) a f] unfolding mem z by simp
  also have "\<dots> = {6..16}" by auto
  finally have "{n. sm_takes ?M example_topology (sd_valid example_options) 1 n ?s'} = {6..16}" .
  then show ?thesis by (simp add: Let_def)
qed

text \<open>
  \<open>operator==\<close> and \<open>isJoinable\<close> do not compare whether the access in progress fetches an instruction: two
  reachable states of a topology over a fixed-latency memory are equal and joinable, although one is
  busy accessing an instruction and the other is busy accessing data.
\<close>

theorem single_topology_equality_ignores_kind:
  "let M = fl_memory example_fixed;
       s1 = hd (the (sm_cycle example_topology M False (snd (the (sm_access_instr example_topology 64 1 (sm_init M))))));
       s2 = hd (the (sm_cycle example_topology M False (snd (the (sm_access_data example_topology (aa_of_address 64) LOAD 1 (sm_init M))))))
   in sm_equals E M s1 s2 \<and> sm_joinable E M s1 s2 \<and> sm_busy_instr s1 \<and> \<not> sm_busy_instr s2 \<and> sm_busy_data s2 \<and> \<not> sm_busy_data s1"
  by (simp add: Let_def sm_access_instr_def sm_access_data_def sm_init_def sm_cycle_def sm_start_def sm_access_memory_def
      fl_memory_def fl_announce_def fl_init_def fl_busy_def fl_cycle_def sm_cycled_def sm_finish_access_def next_id_def
      sm_equals_def sm_joinable_def sm_ids_equal_def queues_equal_def ids_equal_def fl_equals_def fl_joinable_def ff_zero_def
      ic_make_def ic_eq_def sm_busy_instr_def sm_busy_data_def)

section \<open>Separate memories\<close>

text \<open>One memory with its queue.\<close>

record 'm port =
  po_memory :: 'm
  po_queue :: "mem_access list"
  po_accessed :: "32 word"
  po_finished :: "32 word"

definition instr_port :: "('m, 'n) separate_topology \<Rightarrow> 'm port" where
  "instr_port s = \<lparr>po_memory = se_instr_memory s, po_queue = se_instr_queue s, po_accessed = se_instr_accessed s,
     po_finished = se_instr_finished s\<rparr>"

definition data_port :: "('m, 'n) separate_topology \<Rightarrow> 'n port" where
  "data_port s = \<lparr>po_memory = se_data_memory s, po_queue = se_data_queue s, po_accessed = se_data_accessed s,
     po_finished = se_data_finished s\<rparr>"

definition port_start :: "('m, 'l) cycling_memory \<Rightarrow> 'm port \<Rightarrow> 'm port list option" where
  "port_start M p =
     (if po_accessed p = 0 \<and> po_queue p \<noteq> [] then
        map_option (List.map (\<lambda>m. p\<lparr>po_memory := m, po_queue := tl (po_queue p), po_accessed := ma_id (hd (po_queue p))\<rparr>))
          (am_announce M (ma_addr (hd (po_queue p))) (ma_load_store (hd (po_queue p))) (ma_words (hd (po_queue p))) (po_memory p))
      else Some [p])"

definition port_next :: "('m, 'l) cycling_memory \<Rightarrow> 'm port \<Rightarrow> 'm \<Rightarrow> 'm port" where
  "port_next M p m =
     (if po_accessed p \<noteq> 0 \<and> \<not> am_busy M m then p\<lparr>po_memory := m, po_finished := po_accessed p, po_accessed := 0\<rparr>
      else p\<lparr>po_memory := m, po_finished := 0\<rparr>)"

definition port_cycle :: "('m, 'l) cycling_memory \<Rightarrow> 'm port \<Rightarrow> 'm port list option" where
  "port_cycle M p =
     (case port_start M p of None \<Rightarrow> None
      | Some ps \<Rightarrow> all_cases (\<lambda>p. map_option (List.map (port_next M p)) (am_cycle M (po_memory p))) ps)"

abbreviation ports :: "('m, 'n) separate_topology \<Rightarrow> 'm port \<times> 'n port" where
  "ports s \<equiv> (instr_port s, data_port s)"

lemma all_cases_none: "all_cases f xs = None \<longleftrightarrow> (\<exists>x\<in>set xs. f x = None)"
  by (induction xs) (auto split: option.splits)

lemma ports_cycled: "ports (se_cycled M N r im dm) = (port_next M (instr_port r) im, port_next N (data_port r) dm)"
  by (simp add: se_cycled_def instr_port_def data_port_def port_next_def se_finish_instr_def se_finish_data_def Let_def word_gt_0)

lemma ports_start_instr:
  "map_option (List.map ports) (se_start_instr M s) = map_option (List.map (\<lambda>p. (p, data_port s))) (port_start M (instr_port s))"
  by (cases "am_announce M (ma_addr (hd (se_instr_queue s))) (ma_load_store (hd (se_instr_queue s))) (ma_words (hd (se_instr_queue s))) (se_instr_memory s)")
    (auto simp: se_start_instr_def port_start_def se_access_instr_memory_def instr_port_def data_port_def)

lemma se_start_instr_spec:
  "se_start_instr M s = None \<longleftrightarrow> port_start M (instr_port s) = None"
  "se_start_instr M s = Some rs \<Longrightarrow> \<exists>ps. port_start M (instr_port s) = Some ps \<and> instr_port ` set rs = set ps \<and>
     (\<forall>r\<in>set rs. data_port r = data_port s \<and> se_data_queue r = se_data_queue s \<and> se_current_id r = se_current_id s)"
  by (auto simp: se_start_instr_def port_start_def se_access_instr_memory_def instr_port_def data_port_def image_image)

lemma se_start_data_spec:
  assumes ne: "\<And>aa ls w m. am_announce N aa ls w m \<noteq> Some []" and rs: "rs \<noteq> []"
    and r: "\<And>r. r \<in> set rs \<Longrightarrow> data_port r = data_port s"
  shows "case port_start N (data_port s) of None \<Rightarrow> se_start_data N s rs = None
    | Some ps \<Rightarrow> \<exists>rs2. se_start_data N s rs = Some rs2 \<and> ports ` set rs2 = (instr_port ` set rs) \<times> set ps"
proof (cases "se_data_accessed s = 0 \<and> se_data_queue s \<noteq> []")
  case False
  then have "port_start N (data_port s) = Some [data_port s]" "se_start_data N s rs = Some rs"
    by (auto simp: port_start_def data_port_def se_start_data_def)
  then show ?thesis using r by force
next
  case True
  let ?a = "hd (se_data_queue s)"
  let ?ann = "am_announce N (ma_addr ?a) (ma_load_store ?a) (ma_words ?a) (se_data_memory s)"
  let ?f = "\<lambda>r. map_option (List.map (\<lambda>t. t\<lparr>se_data_queue := tl (se_data_queue t)\<rparr>)) (se_access_data_memory N ?a r)"
  have d: "se_data_memory r = se_data_memory s \<and> se_data_queue r = se_data_queue s \<and> se_data_finished r = se_data_finished s" if "r \<in> set rs" for r
    using assms(3) [OF that] by (simp add: data_port_def)
  have f: "?f r = map_option (List.map (\<lambda>m. r\<lparr>se_data_accessed := ma_id ?a, se_data_memory := m, se_data_queue := tl (se_data_queue s)\<rparr>)) ?ann"
    if "r \<in> set rs" for r
    using d [OF that] by (simp add: se_access_data_memory_def option.map_comp comp_def)
  have start: "se_start_data N s rs = map_option (\<lambda>rs2. if rs2 = [] then rs else rs2) (all_cases ?f rs)"
    using True by (simp add: se_start_data_def)
  let ?p = "\<lambda>m. \<lparr>po_memory = m, po_queue = tl (se_data_queue s), po_accessed = ma_id ?a, po_finished = se_data_finished s\<rparr>"
  have port: "port_start N (data_port s) = map_option (List.map ?p) ?ann"
    using True by (simp add: port_start_def data_port_def)
  show ?thesis
  proof (cases ?ann)
    case None
    have "all_cases ?f rs = None" unfolding all_cases_none using None f rs by (cases rs) auto
    then show ?thesis using None port start by simp
  next
    case (Some ms)
    let ?u = "\<lambda>r m. r\<lparr>se_data_accessed := ma_id ?a, se_data_memory := m, se_data_queue := tl (se_data_queue s)\<rparr>"
    have fs: "?f r = Some (List.map (?u r) ms)" if "r \<in> set rs" for r
      unfolding f [OF that] Some by simp
    have "?f r \<noteq> None" if "r \<in> set rs" for r unfolding fs [OF that] by simp
    then obtain rs2 where rs2: "all_cases ?f rs = Some rs2" "set rs2 = (\<Union>r\<in>set rs. set (the (?f r)))"
      using all_cases_defined [of rs ?f] by blast
    have st: "set rs2 = (\<Union>r\<in>set rs. (\<lambda>m. r\<lparr>se_data_accessed := ma_id ?a, se_data_memory := m, se_data_queue := tl (se_data_queue s)\<rparr>) ` set ms)"
      unfolding rs2(2) by (intro SUP_cong refl) (simp only: fs option.sel set_map)
    have "ms \<noteq> []" using ne Some by metis
    then have "set rs2 \<noteq> {}" unfolding st using rs by simp
    then have "rs2 \<noteq> []" by auto
    moreover have "ports ` set rs2 = (\<Union>r\<in>set rs. (\<lambda>m. (instr_port r, ?p m)) ` set ms)"
      unfolding st image_UN image_image
      by (intro SUP_cong refl image_cong) (simp add: instr_port_def data_port_def d)
    moreover have "\<dots> = (instr_port ` set rs) \<times> set (List.map ?p ms)" by auto
    ultimately show ?thesis using port start rs2(1) Some by simp
  qed
qed

text \<open>
  Separate memories cycle as two independent ports: \<open>cycle\<close> fails exactly if the cycle of one of the
  ports fails, and otherwise its cases are all pairs of a case of the instruction port and a case of
  the data port; the identifiers are untouched.  The memories answer an announced access with at least
  one state.
\<close>

theorem separate_ports_independent:
  assumes "\<And>aa ls w m. am_announce M aa ls w m \<noteq> Some []" and "\<And>aa ls w m. am_announce N aa ls w m \<noteq> Some []"
    and "\<And>m. am_cycle M m \<noteq> None" and "\<And>m. am_cycle N m \<noteq> None"
  shows "case (port_cycle M (instr_port s), port_cycle N (data_port s)) of
      (Some ips, Some dps) \<Rightarrow> \<exists>ss. se_cycle M N pending s = Some ss \<and>
        (\<lambda>s'. (instr_port s', data_port s')) ` set ss = set ips \<times> set dps
    | _ \<Rightarrow> se_cycle M N pending s = None"
proof (cases "port_start M (instr_port s)")
  case None
  then have "port_cycle M (instr_port s) = None" "se_start_instr M s = None"
    by (simp_all add: port_cycle_def se_start_instr_spec(1))
  then show ?thesis by (simp add: se_cycle_def)
next
  case (Some ips0)
  obtain rs where rs: "se_start_instr M s = Some rs" using se_start_instr_spec(1) [of M s] Some by fastforce
  have ri: "instr_port ` set rs = set ips0" "\<And>r. r \<in> set rs \<Longrightarrow> data_port r = data_port s"
    using se_start_instr_spec(2) [OF rs] Some by auto
  have "ips0 \<noteq> []" using Some assms(1) by (auto simp: port_start_def split: if_splits)
  then have "rs \<noteq> []" using ri(1) by auto
  note data = se_start_data_spec [OF assms(2) this ri(2)]
  have ends: "\<exists>ps. port_cycle P q = Some ps \<and> set ps = (\<Union>p\<in>set ps0. port_next P p ` set (the (am_cycle P (po_memory p))))"
    if "port_start P q = Some ps0" "\<And>m. am_cycle P m \<noteq> None" for P :: "('x, 'y) cycling_memory" and q ps0
  proof -
    let ?g = "\<lambda>p. map_option (List.map (port_next P p)) (am_cycle P (po_memory p))"
    have "\<And>p. ?g p \<noteq> None" using that(2) by simp
    then obtain ps where "all_cases ?g ps0 = Some ps" "set ps = (\<Union>p\<in>set ps0. set (the (?g p)))"
      using all_cases_defined [of ps0 ?g] by blast
    moreover have "set (the (?g p)) = port_next P p ` set (the (am_cycle P (po_memory p)))" for p
      using that(2) [of "po_memory p"] by auto
    ultimately show ?thesis using that(1) by (simp add: port_cycle_def)
  qed
  obtain ips where ips: "port_cycle M (instr_port s) = Some ips"
      "set ips = (\<Union>p\<in>set ips0. port_next M p ` set (the (am_cycle M (po_memory p))))"
    using ends [OF Some assms(3)] by blast
  show ?thesis
  proof (cases "port_start N (data_port s)")
    case None
    then have "port_cycle N (data_port s) = None" "se_start_data N s rs = None" using data by (simp_all add: port_cycle_def)
    then show ?thesis using rs ips(1) by (simp add: se_cycle_def)
  next
    case (Some dps0)
    obtain dps where dps: "port_cycle N (data_port s) = Some dps"
        "set dps = (\<Union>p\<in>set dps0. port_next N p ` set (the (am_cycle N (po_memory p))))"
      using ends [OF Some assms(4)] by blast
    obtain rs2 where rs2: "se_start_data N s rs = Some rs2" "ports ` set rs2 = set ips0 \<times> set dps0"
      using data Some ri(1) by auto
    let ?h = "\<lambda>r. case (am_cycle M (se_instr_memory r), am_cycle N (se_data_memory r)) of
        (Some ims, Some dms) \<Rightarrow> Some (concat (List.map (\<lambda>im. List.map (se_cycled M N r im) dms) ims)) | _ \<Rightarrow> None"
    have h: "?h r \<noteq> None \<and> ports ` set (the (?h r)) =
        port_next M (instr_port r) ` set (the (am_cycle M (po_memory (instr_port r)))) \<times>
        port_next N (data_port r) ` set (the (am_cycle N (po_memory (data_port r))))" for r
    proof -
      obtain ims dms where c: "am_cycle M (se_instr_memory r) = Some ims" "am_cycle N (se_data_memory r) = Some dms"
        using assms(3,4) by fastforce
      have "ports ` set (the (?h r)) = (\<Union>im\<in>set ims. (\<lambda>dm. ports (se_cycled M N r im dm)) ` set dms)"
        using c by (simp add: image_UN image_image)
      also have "\<dots> = port_next M (instr_port r) ` set ims \<times> port_next N (data_port r) ` set dms"
        unfolding ports_cycled by auto
      finally show ?thesis using c by (simp add: instr_port_def data_port_def)
    qed
    obtain ss where ss: "all_cases ?h rs2 = Some ss" "set ss = (\<Union>r\<in>set rs2. set (the (?h r)))"
      using all_cases_defined [of rs2 ?h] h by blast
    have "ports ` set ss = (\<Union>r\<in>set rs2. ports ` set (the (?h r)))" unfolding ss(2) image_UN ..
    also have "\<dots> = (\<Union>r\<in>set rs2. (\<lambda>(p, q). port_next M p ` set (the (am_cycle M (po_memory p))) \<times>
        port_next N q ` set (the (am_cycle N (po_memory q)))) (ports r))" using h by simp
    also have "\<dots> = (\<Union>x\<in>ports ` set rs2. (\<lambda>(p, q). port_next M p ` set (the (am_cycle M (po_memory p))) \<times>
        port_next N q ` set (the (am_cycle N (po_memory q)))) x)" by (simp add: image_image)
    also have "\<dots> = set ips \<times> set dps" unfolding rs2(2) ips(2) dps(2) by auto
    finally show ?thesis using rs rs2(1) ss(1) ips(1) dps(1) by (simp add: se_cycle_def)
  qed
qed

theorem separate_ports_independent_witness:
  "let M = fl_memory example_fixed;
       s = snd (the (se_access_instr 64 1 (snd (the (se_access_data (aa_of_address 8) STORE 2 (se_init M M))))))
   in \<exists>ss ips dps. se_cycle M M False s = Some ss \<and> port_cycle M (instr_port s) = Some ips \<and> port_cycle M (data_port s) = Some dps \<and>
     (\<lambda>s'. (instr_port s', data_port s')) ` set ss = set ips \<times> set dps \<and> po_accessed (hd ips) = 2 \<and> po_accessed (hd dps) = 1"
proof -
  let ?M = "fl_memory example_fixed"
  let ?s = "snd (the (se_access_instr 64 1 (snd (the (se_access_data (aa_of_address 8) STORE 2 (se_init ?M ?M))))))"
  have a: "am_announce ?M aa ls w m \<noteq> Some []" for aa ls w m by (simp add: fl_memory_def fl_announce_def)
  have c: "am_cycle ?M m \<noteq> None" for m by (simp add: fl_memory_def fl_cycle_def)
  obtain ips where i: "port_cycle ?M (instr_port ?s) = Some ips" "po_accessed (hd ips) = 2"
    by (simp add: port_cycle_def port_start_def port_next_def instr_port_def se_access_instr_def se_access_data_def se_init_def
        Let_def next_id_def fl_memory_def fl_announce_def fl_cycle_def fl_init_def fl_busy_def)
  obtain dps where d: "port_cycle ?M (data_port ?s) = Some dps" "po_accessed (hd dps) = 1"
    by (simp add: port_cycle_def port_start_def port_next_def data_port_def se_access_instr_def se_access_data_def se_init_def
        Let_def next_id_def fl_memory_def fl_announce_def fl_cycle_def fl_init_def fl_busy_def)
  from separate_ports_independent [of ?M ?M, OF a a c c, where s = ?s and pending = False] show ?thesis
    using i d by (simp only: Let_def option.case prod.case) blast
qed

text \<open>
  \<open>hasUnfinishedAccesses\<close> of separate memories does not look at the queues: an access accepted by a topology
  that has no unfinished accesses is not reported as unfinished until the next cycle, unlike in the
  topology with one memory.
\<close>

theorem separate_unfinished_ignores_queues:
  "let s1 = snd (the (se_access_data aa ls w (se_init M N))); s2 = snd (the (se_access_instr a w (se_init M N)));
       t1 = snd (the (sm_access_data example_topology aa ls w (sm_init M)))
   in se_busy_data s1 \<and> \<not> se_unfinished s1 \<and> se_busy_instr s2 \<and> \<not> se_unfinished s2 \<and> sm_unfinished t1"
  by (simp add: Let_def se_access_data_def se_access_instr_def se_init_def se_busy_data_def se_busy_instr_def se_unfinished_def
      sm_access_data_def sm_init_def sm_unfinished_def)

end
