(* ===== verification/TA_Cached_Topology_Properties.thy ===== *)
theory TA_Cached_Topology_Properties
  imports TA_Cached_Topology_Runs TA_Topology_Properties
begin

text \<open>
  Properties of the topology with two levels of caches: which outcomes of an access are explored, how
  many cycles an access takes once its line is in a cache, and two defects of the handling of write-back caches.
\<close>

section \<open>A concrete configuration\<close>

text \<open>Caches that count their updates, over a fixed-latency memory, and the run that takes the first case of every cycle.\<close>

definition example_cache :: "bool \<Rightarrow> 32 word \<Rightarrow> classification \<Rightarrow> bool \<Rightarrow> nat abstract_cache" where
  "example_cache wb lat cl writes = \<lparr>ac_init = (\<lambda>_. 0), ac_classify = (\<lambda>_ _. Some cl),
     ac_update = (\<lambda>n _ _ rep _. Some (n + 1, if rep then Some (WritebackReport writes True) else None)),
     ac_join = max, ac_lessequal = (\<le>), ac_enter = (\<lambda>_ n. n), ac_leave = (\<lambda>_ n. n), ac_equals = (=),
     ac_align = (\<lambda>a. a AND 0xFFFFFFF0), ac_hit_latency = lat, ac_write_policy = (wb, True)\<rparr>"

definition example_cached_options :: "bool \<Rightarrow> bool \<Rightarrow> cached_options" where
  "example_cached_options anomalies refute = \<lparr>isBCET = False, TimingAnomalyAnalysis = anomalies, PreemptiveExecution = False,
    instr_persistence = False, data_persistence = False, l2_persistence = False, instr_always_hit = False, data_always_hit = False,
    follow_instr_miss = False, follow_data_miss = False, UnblockStores = False, StaticallyRefuteWritebacks = refute,
    bound_dirtifying_stores = False, need_accessed_addresses = False, instr_line = 16, data_line = 16\<rparr>"

definition example_cached :: "cached_options \<Rightarrow> classification \<Rightarrow> classification \<Rightarrow>
    (nat, nat, nat, fixed_latency single_topology, interval_counter) cached_config" where
  "example_cached Op l1 l2 = \<lparr>jc_options = Op, jc_env = ex_env, jc_instr = example_cache False 1 l1 True,
     jc_data = example_cache True 2 l1 True, jc_l2 = example_cache True 2 l2 False,
     jc_memory = single_topology_of ex_env example_topology (fl_memory example_fixed)\<rparr>"

fun first_run :: "('i, 'd, 'u, 't, 'l) cached_config \<Rightarrow> nat \<Rightarrow> ('i, 'd, 'u, 't) cached_topology \<Rightarrow> ('i, 'd, 'u, 't) cached_topology option" where
  "first_run J 0 s = Some s"
| "first_run J (Suc n) s = (case jt_cycle J False s of Some (x # _) \<Rightarrow> first_run J n x | _ \<Rightarrow> None)"

lemma first_run_runs: "first_run J n s = Some s' \<Longrightarrow> jt_runs J n s s'"
  by (induction n arbitrary: s) (auto split: option.splits list.splits intro: jt_runs.intros)

lemma example_cached_simps [simp]:
  "ac_hit_latency (jc_instr (example_cached Op l1 l2)) = 1" "ac_hit_latency (jc_data (example_cached Op l1 l2)) = 2"
  "ac_hit_latency (jc_l2 (example_cached Op l1 l2)) = 2" "jc_options (example_cached Op l1 l2) = Op"
  "ac_classify (jc_instr (example_cached Op l1 l2)) c aa = Some l1" "ac_classify (jc_data (example_cached Op l1 l2)) c aa = Some l1"
  "ac_classify (jc_l2 (example_cached Op l1 l2)) c aa = Some l2" "ac_write_policy (jc_data (example_cached Op l1 l2)) = (True, True)"
  "mt_stall (jc_memory (example_cached Op l1 l2)) m = Some False"
  "ac_update (jc_data (example_cached Op l1 l2)) n aa ls True cl = Some (n + 1, Some (WritebackReport True True))"
  by (simp_all add: example_cached_def example_cache_def single_topology_of_def sm_stall_def fl_memory_def)

abbreviation example_fetch :: "('i, 'd, 'u, 't, 'l) cached_config \<Rightarrow> ('i, 'd, 'u, 't) cached_topology" where
  "example_fetch J \<equiv> snd (the (jt_access_instr 64 1 (jt_init J)))"

abbreviation example_load :: "('i, 'd, 'u, 't, 'l) cached_config \<Rightarrow> ('i, 'd, 'u, 't) cached_topology" where
  "example_load J \<equiv> snd (the (jt_access_data (aa_of_address 64) LOAD 1 (jt_init J)))"

lemma example_fetch_simps [simp]:
  "co_ongoing (jt_instr (example_fetch J)) = None" "co_cache (jt_instr (example_fetch J)) = ac_init (jc_instr J) False"
  "co_queue (jt_instr (example_fetch J)) = [\<lparr>ma_id = 1, ma_addr = aa_of_address 64, ma_load_store = LOAD, ma_words = 1\<rparr>]"
  "jt_current_id (example_fetch J) = 2"
  by (simp_all add: jt_access_instr_def jt_init_def new_component_def next_id_def Let_def)

lemma example_load_simps [simp]:
  "co_ongoing (jt_data (example_load J)) = None" "co_cache (jt_data (example_load J)) = ac_init (jc_data J) False"
  "co_queue (jt_data (example_load J)) = [\<lparr>ma_id = 1, ma_addr = aa_of_address 64, ma_load_store = LOAD, ma_words = 1\<rparr>]"
  "jt_current_id (example_load J) = 2"
  by (simp_all add: jt_access_data_def jt_init_def new_component_def next_id_def Let_def)

section \<open>Starting an access\<close>

text \<open>
  Which outcomes of a data access are explored.  Let the access be a hit or a miss in the first and in
  the second level, as the classifications of the caches admit it.  With \<open>TimingAnomalyAnalysis\<close> one of
  the states that \<open>mystartDataAccess\<close> returns continues with what really happens, except if the line is
  in the first level although that level is unknown and the second level is a definite miss; then only
  the miss is explored.  Otherwise there is one state, which is served no nearer than in reality, or,
  for the best case, no farther.
\<close>

theorem data_start_explores:
  assumes "mystartDataAccess J s = Some ss" and "co_ongoing (jt_data s) = None" and "co_queue (jt_data s) = a # q"
    and "ac_classify (jc_data J) (co_cache (jt_data s)) (ma_addr a) = Some l1"
    and "ac_classify (jc_l2 J) (co_cache (jt_l2 s)) (ma_addr a) = Some l2"
    and "class_admits l1 hit1" and "class_admits l2 hit2"
  shows "let Op = jc_options J; classes = List.map (\<lambda>s'. oa_class (the (co_ongoing (jt_data s')))) ss in
    if isBCET Op then TimingAnomalyAnalysis Op \<or>
      (\<exists>c. classes = [c] \<and> service_level c \<le> service_level (outcome hit1 hit2))
    else if TimingAnomalyAnalysis Op then
      if l1 = CL_UNKNOWN \<and> l2 = CL_MISS then classes = [CL2_MISS] else outcome hit1 hit2 \<in> set classes
    else \<exists>c. classes = [c] \<and> service_level (outcome hit1 hit2) \<le> service_level c"
proof -
  have "List.map the (List.map (\<lambda>s'. map_option oa_class (co_ongoing (jt_data s'))) ss) = start_classes (jc_options J) l1 l2"
    unfolding mystartData_classes [OF assms(1-5)] by simp
  moreover have "the (map_option oa_class (co_ongoing (jt_data s'))) = oa_class (the (co_ongoing (jt_data s')))" if "s' \<in> set ss" for s'
  proof -
    have "map_option oa_class (co_ongoing (jt_data s')) \<in> set (List.map (\<lambda>s'. map_option oa_class (co_ongoing (jt_data s'))) ss)" using that by simp
    then have "co_ongoing (jt_data s') \<noteq> None" unfolding mystartData_classes [OF assms(1-5)] by auto
    then show ?thesis by auto
  qed
  ultimately have c: "List.map (\<lambda>s'. oa_class (the (co_ongoing (jt_data s')))) ss = start_classes (jc_options J) l1 l2"
    by (simp cong: map_cong)
  have "TimingAnomalyAnalysis (jc_options J) \<Longrightarrow> \<not> isBCET (jc_options J) \<Longrightarrow> l1 = CL_UNKNOWN \<Longrightarrow> l2 = CL_MISS \<Longrightarrow>
      start_classes (jc_options J) l1 l2 = [CL2_MISS]"
    by (simp add: start_classes_def)
  then show ?thesis using start_classes_cover [OF assms(6,7), of "jc_options J"] unfolding Let_def c by auto
qed

theorem data_start_explores_witness:
  "let J = example_cached (example_cached_options True False) CL_UNKNOWN CL_UNKNOWN in
   \<exists>ss. mystartDataAccess J (example_load J) = Some ss \<and> CL2_HIT \<in> set (List.map (\<lambda>s'. oa_class (the (co_ongoing (jt_data s')))) ss)"
proof -
  let ?J = "example_cached (example_cached_options True False) CL_UNKNOWN CL_UNKNOWN"
  have "map_option length (mystartDataAccess ?J (example_load ?J)) = Some 3" by code_simp
  then obtain ss where ss: "mystartDataAccess ?J (example_load ?J) = Some ss" by (auto simp: map_option_case split: option.splits)
  have "class_admits CL_UNKNOWN False" "class_admits CL_UNKNOWN True" "CL_UNKNOWN \<noteq> CL_MISS" "\<not> isBCET (example_cached_options True False)"
    "TimingAnomalyAnalysis (example_cached_options True False)" "outcome False True = CL2_HIT"
    by (simp_all add: class_admits_def plain_class_def cl_defs example_cached_options_def outcome_def)
  then show ?thesis
    using data_start_explores [OF ss, of _ "[]" CL_UNKNOWN CL_UNKNOWN False True] ss by (simp add: Let_def)
qed

section \<open>Time of an instruction access\<close>

text \<open>A cycle of a topology whose background does not stall the pipeline.\<close>

definition quiet_step :: "('i, 'd, 'u, 't, 'l) cached_config \<Rightarrow> ('i, 'd, 'u, 't) cached_topology \<Rightarrow> ('i, 'd, 'u, 't) cached_topology \<Rightarrow> bool" where
  "quiet_step J s s' \<longleftrightarrow> (\<forall>m. mt_stall (jc_memory J) m = Some False) \<and> (\<exists>p ss. jt_cycle J p s = Some ss \<and> s' \<in> set ss)"

lemma jt_runs_quiet: "jt_runs J n s s' \<Longrightarrow> (\<forall>m. mt_stall (jc_memory J) m = Some False) \<Longrightarrow> (quiet_step J ^^ n) s s'"
proof (induction rule: jt_runs.induct)
  case (Next p s ss s' n s'')
  then have "quiet_step J s s'" by (auto simp: quiet_step_def)
  then show ?case using Next.IH Next.prems by (blast intro: relpowp_Suc_I2)
qed simp

text \<open>The cycles an access still needs once it does not wait for the background.\<close>

definition access_rest :: "('i, 'd, 'u, 't, 'l) cached_config \<Rightarrow> ongoing_access \<Rightarrow> nat" where
  "access_rest J oa = (if oa_bgl2 oa \<noteq> 0 then max 1 (unat (oa_l2_blocked oa)) + max 1 (unat (ac_hit_latency (jc_instr J)))
     else max 1 (unat (oa_l1_blocked oa)))"

lemma access_rest_cases:
  "oa_bgl2 oa = 0 \<Longrightarrow> access_rest J oa = max 1 (unat (oa_l1_blocked oa))"
  "oa_bgl2 oa \<noteq> 0 \<Longrightarrow> access_rest J oa = max 1 (unat (oa_l2_blocked oa)) + max 1 (unat (ac_hit_latency (jc_instr J)))"
  by (simp_all add: access_rest_def)

lemma dec_blocked_unat: "unat (dec_blocked t) = unat t - 1" "dec_blocked t = 0 \<longleftrightarrow> unat t \<le> 1"
proof -
  show u: "unat (dec_blocked t) = unat t - 1" by (simp add: dec_blocked_def unat_minus_one word_gt_0)
  have "dec_blocked t = 0 \<longleftrightarrow> unat (dec_blocked t) = 0" by (simp add: unat_eq_0)
  then show "dec_blocked t = 0 \<longleftrightarrow> unat t \<le> 1" unfolding u by auto
qed

lemma checkInstr_rest:
  assumes "checkInstructionPart J s = Some xs" "x \<in> set xs" "co_ongoing (jt_instr s) = Some oa" "oa_bgmem oa = 0"
  shows "if access_rest J oa = 1 then co_ongoing (jt_instr x) = None \<and> co_finished (jt_instr x) = ma_id (oa_access oa)
    else \<exists>oa'. co_ongoing (jt_instr x) = Some oa' \<and> oa_access oa' = oa_access oa \<and> oa_class oa' = oa_class oa \<and>
      oa_bgmem oa' = 0 \<and> access_rest J oa' = access_rest J oa - 1"
proof (cases "oa_bgl2 oa = 0")
  case True
  show ?thesis
  proof (cases "dec_blocked (oa_l1_blocked oa) = 0")
    case l: True
    then have "access_rest J oa = 1" using True by (simp add: access_rest_def dec_blocked_unat(2))
    moreover have "co_ongoing (jt_instr x) = None \<and> co_finished (jt_instr x) = ma_id (oa_access oa)"
      using assms(1,2) by (auto simp: checkInstructionPart_def assms(3,4) True l Let_def finish_instr_def split: option.splits)
    ultimately show ?thesis by simp
  next
    case l: False
    then have n: "access_rest J oa = unat (oa_l1_blocked oa)" "1 < unat (oa_l1_blocked oa)"
      using True by (simp_all add: access_rest_def dec_blocked_unat(2))
    have "x = s\<lparr>jt_instr := (jt_instr s)\<lparr>co_ongoing := Some (oa\<lparr>oa_l1_blocked := dec_blocked (oa_l1_blocked oa)\<rparr>)\<rparr>\<rparr>"
      using assms(1,2) by (auto simp: checkInstructionPart_def assms(3,4) True l Let_def)
    then show ?thesis using n assms(4) True by (simp add: access_rest_def dec_blocked_unat(1))
  qed
next
  case False
  show ?thesis
  proof (cases "dec_blocked (oa_l2_blocked oa) = 0")
    case l: True
    then have n: "max 1 (unat (oa_l2_blocked oa)) = 1" by (simp add: dec_blocked_unat(2))
    have "\<exists>u. x = s\<lparr>jt_instr := (jt_instr s)\<lparr>co_ongoing := Some (oa\<lparr>oa_l2_blocked := 0, oa_bgl2 := 0,
        oa_l1_blocked := ac_hit_latency (jc_instr J)\<rparr>)\<rparr>, jt_l2 := u\<rparr>"
      using assms(1,2) by (auto simp: checkInstructionPart_def assms(3,4) False l Let_def split: option.splits)
    then show ?thesis using n assms(4) False by (auto simp: access_rest_cases)
  next
    case l: False
    then have n: "1 < unat (oa_l2_blocked oa)" by (simp add: dec_blocked_unat(2))
    have "x = s\<lparr>jt_instr := (jt_instr s)\<lparr>co_ongoing := Some (oa\<lparr>oa_l2_blocked := dec_blocked (oa_l2_blocked oa)\<rparr>)\<rparr>\<rparr>"
      using assms(1,2) by (auto simp: checkInstructionPart_def assms(3,4) False l Let_def)
    moreover have "max 1 (unat (oa_l2_blocked oa) - 1) = max 1 (unat (oa_l2_blocked oa)) - 1" using n by simp
    ultimately show ?thesis using n assms(4) False by (auto simp: access_rest_def dec_blocked_unat(1))
  qed
qed

lemma mystartInstr_busy: "co_ongoing (jt_instr s) = Some oa \<Longrightarrow> mystartInstructionAccess J s = Some [s]"
  by (simp add: mystartInstructionAccess_def)

lemma jt_clear_events_frame [simp]:
  "co_ongoing (jt_instr (jt_clear_events s)) = co_ongoing (jt_instr s)" "co_queue (jt_instr (jt_clear_events s)) = co_queue (jt_instr s)"
  "co_cache (jt_instr (jt_clear_events s)) = co_cache (jt_instr s)" "co_ongoing (jt_data (jt_clear_events s)) = co_ongoing (jt_data s)"
  "co_queue (jt_data (jt_clear_events s)) = co_queue (jt_data s)" "co_cache (jt_data (jt_clear_events s)) = co_cache (jt_data s)"
  "co_cache (jt_l2 (jt_clear_events s)) = co_cache (jt_l2 s)" "jt_current_id (jt_clear_events s) = jt_current_id s"
  "jt_memory (jt_clear_events s) = jt_memory s" "co_finished (jt_instr (jt_clear_events s)) = co_finished (jt_instr s)"
  "co_finished (jt_data (jt_clear_events s)) = co_finished (jt_data s)"
  by (simp_all add: jt_clear_events_def co_reset_events_def)

text \<open>After the instruction access has been started, a cycle only does \<open>checkInstructionPart\<close> to it.\<close>

lemma jt_cycle_instrE:
  assumes "quiet_step J s s'"
  obtains sis si xs x y where "mystartInstructionAccess J (jt_clear_events s) = Some sis" "si \<in> set sis"
    "jt_instr y = jt_instr si" "checkInstructionPart J y = Some xs" "x \<in> set xs" "jt_instr s' = jt_instr x"
proof -
  obtain p ss where q: "jt_cycle J p s = Some ss" "s' \<in> set ss" "\<forall>m. mt_stall (jc_memory J) m = Some False"
    using assms by (auto simp: quiet_step_def)
  show thesis
  proof (rule jt_cycleE [OF q(1,2)])
  fix sis si sds sd ms m zs
  assume h: "mystartInstructionAccess J (jt_clear_events s) = Some sis" "si \<in> set sis"
    "mystartDataAccess J si = Some sds" "sd \<in> set sds" "mt_cycle (jc_memory J) p (jt_memory sd) = Some ms" "m \<in> set ms"
    "jt_check J (sd\<lparr>jt_memory := m\<rparr>) = Some zs" "s' \<in> set zs"
  have st: "mt_stall (jc_memory J) (jt_memory (sd\<lparr>jt_memory := m\<rparr>)) = Some False" using q(3) by simp
  obtain xs x ys where c: "checkInstructionPart J (sd\<lparr>jt_memory := m\<rparr>) = Some xs" "x \<in> set xs" "checkDataPart J x = Some ys" "s' \<in> set ys"
    by (rule jt_checkE [OF h(7,8) st])
  have "jt_instr s' = jt_instr x" using checkData_frame [OF c(3,4)] .
  moreover have "jt_instr (sd\<lparr>jt_memory := m\<rparr>) = jt_instr si" using mystartData_frame [OF h(3,4)] by simp
  ultimately show thesis using that h(1,2) c(1,2) by blast
  qed
qed

lemma access_rest_pos: "0 < access_rest J oa"
  by (cases "oa_bgl2 oa = 0") (auto simp: access_rest_cases max_def)

lemma instr_progress:
  assumes "quiet_step J s s'" "co_ongoing (jt_instr s) = Some oa" "oa_bgmem oa = 0"
  shows "if access_rest J oa = 1 then co_ongoing (jt_instr s') = None \<and> co_finished (jt_instr s') = ma_id (oa_access oa)
    else \<exists>oa'. co_ongoing (jt_instr s') = Some oa' \<and> oa_access oa' = oa_access oa \<and> oa_bgmem oa' = 0 \<and>
      access_rest J oa' = access_rest J oa - 1"
proof (rule jt_cycle_instrE [OF assms(1)])
  fix sis si xs x y
  assume h: "mystartInstructionAccess J (jt_clear_events s) = Some sis" "si \<in> set sis"
    "jt_instr y = jt_instr si" "checkInstructionPart J y = Some xs" "x \<in> set xs" "jt_instr s' = jt_instr x"
  have "mystartInstructionAccess J (jt_clear_events s) = Some [jt_clear_events s]"
    by (rule mystartInstr_busy [of _ oa]) (simp add: assms(2))
  then have "si = jt_clear_events s" using h(1,2) by simp
  then have "co_ongoing (jt_instr y) = Some oa" using h(3) assms(2) by simp
  from checkInstr_rest [OF h(4,5) this assms(3)] show ?thesis unfolding h(6) by (cases "access_rest J oa = 1") auto
qed

interpretation instr_timed: timed_accesses "quiet_step J" "\<lambda>s. co_ongoing (jt_instr s)" "\<lambda>s. co_finished (jt_instr s)"
    "access_rest J" "\<lambda>oa. oa_bgmem oa = 0" for J
  by unfold_locales (rule instr_progress, assumption+, rule access_rest_pos)

text \<open>The first cycle starts the access and already counts.\<close>

lemma processInstr_rest:
  assumes "processInstrCacheAccess J cl s = Some si" "co_ongoing (jt_instr s) = Some (new_ongoing a)"
  shows "cl = CL_HIT \<Longrightarrow> \<exists>oa. co_ongoing (jt_instr si) = Some oa \<and> oa_access oa = a \<and> oa_bgmem oa = 0 \<and>
      access_rest J oa = max 1 (unat (ac_hit_latency (jc_instr J)))"
    and "cl = CL2_HIT \<Longrightarrow> jt_current_id s \<noteq> 0 \<Longrightarrow> \<exists>oa. co_ongoing (jt_instr si) = Some oa \<and> oa_access oa = a \<and> oa_bgmem oa = 0 \<and>
      access_rest J oa = max 1 (unat (ac_hit_latency (jc_l2 J))) + max 1 (unat (ac_hit_latency (jc_instr J)))"
  using assms by (auto simp: processInstrCacheAccess_def new_ongoing_def access_rest_cases Let_def cl_defs)

definition instr_time :: "('i, 'd, 'u, 't, 'l) cached_config \<Rightarrow> classification \<Rightarrow> nat" where
  "instr_time J l1 = (if l1 = CL_HIT then 0 else max 1 (unat (ac_hit_latency (jc_l2 J)))) + max 1 (unat (ac_hit_latency (jc_instr J)))"

lemma mystartInstr_time:
  assumes "mystartInstructionAccess J s = Some sis" "si \<in> set sis" "co_ongoing (jt_instr s) = None" "co_queue (jt_instr s) = a # q"
    and "ac_classify (jc_instr J) (co_cache (jt_instr s)) (ma_addr a) = Some l1"
    and "ac_classify (jc_l2 J) (co_cache (jt_l2 s)) (ma_addr a) = Some l2"
    and "l1 = CL_HIT \<or> (l1 = CL_MISS \<and> l2 = CL_HIT \<and> jt_current_id s \<noteq> 0)"
  shows "\<exists>oa. co_ongoing (jt_instr si) = Some oa \<and> oa_access oa = a \<and> oa_bgmem oa = 0 \<and> access_rest J oa = instr_time J l1"
proof -
  let ?s1 = "s\<lparr>jt_instr := (jt_instr s)\<lparr>co_ongoing := Some (new_ongoing a), co_queue := q\<rparr>\<rparr>"
  have t: "those (List.map (\<lambda>cl. processInstrCacheAccess J cl ?s1) (start_classes (jc_options J) l1 l2)) = Some sis"
    using assms(1,3-6) by (simp add: mystartInstructionAccess_def Let_def)
  have o: "co_ongoing (jt_instr ?s1) = Some (new_ongoing a)" "jt_current_id ?s1 = jt_current_id s" by simp_all
  show ?thesis
  proof (cases "l1 = CL_HIT")
    case True
    then have "start_classes (jc_options J) l1 l2 = [CL_HIT]" by (simp add: start_classes_def)
    then have "processInstrCacheAccess J CL_HIT ?s1 = Some si" using those_map_member [OF t assms(2)] by simp
    from processInstr_rest(1) [OF this o(1)] show ?thesis using True by (simp add: instr_time_def)
  next
    case False
    then have "start_classes (jc_options J) l1 l2 = [CL2_HIT]" using assms(7) by (simp add: start_classes_def cl_defs)
    then have "processInstrCacheAccess J CL2_HIT ?s1 = Some si" using those_map_member [OF t assms(2)] by simp
    from processInstr_rest(2) [OF this o(1)] show ?thesis using False assms(7) by (simp add: instr_time_def)
  qed
qed

lemma instr_first_cycle:
  assumes "quiet_step J s s'" "co_ongoing (jt_instr s) = None" "co_queue (jt_instr s) = a # q"
    and "ac_classify (jc_instr J) (co_cache (jt_instr s)) (ma_addr a) = Some l1"
    and "ac_classify (jc_l2 J) (co_cache (jt_l2 s)) (ma_addr a) = Some l2"
    and "l1 = CL_HIT \<or> (l1 = CL_MISS \<and> l2 = CL_HIT \<and> jt_current_id s \<noteq> 0)"
  shows "if instr_time J l1 = 1 then co_ongoing (jt_instr s') = None \<and> co_finished (jt_instr s') = ma_id a
    else \<exists>oa. co_ongoing (jt_instr s') = Some oa \<and> oa_access oa = a \<and> oa_bgmem oa = 0 \<and> access_rest J oa = instr_time J l1 - 1"
proof (rule jt_cycle_instrE [OF assms(1)])
  fix sis si xs x y
  assume h: "mystartInstructionAccess J (jt_clear_events s) = Some sis" "si \<in> set sis"
    "jt_instr y = jt_instr si" "checkInstructionPart J y = Some xs" "x \<in> set xs" "jt_instr s' = jt_instr x"
  obtain oa where oa: "co_ongoing (jt_instr si) = Some oa" "oa_access oa = a" "oa_bgmem oa = 0" "access_rest J oa = instr_time J l1"
    using mystartInstr_time [OF h(1,2), of a q l1 l2] assms(2-6) by auto
  have "co_ongoing (jt_instr y) = Some oa" using h(3) oa(1) by simp
  from checkInstr_rest [OF h(4,5) this oa(3)] show ?thesis unfolding h(6) oa(2,4) by (cases "instr_time J l1 = 1") auto
qed

text \<open>
  C30: the time of an instruction access whose line is in one of the two caches, over a background memory that
  never stalls the pipeline (no stalling on bus blocking or refreshes).  If the first level
  classifies it as a hit, it takes the hit latency of the first level; if it is a miss there and a hit in
  the second level, under an identifier other than 0, it takes the latency of the second level and then that of the first.  Latencies of
  0 count as one cycle.  During that many cycles the access stays in progress, on every path the
  cycles split into and whatever the data side does; after the last one it is the finished access.
\<close>

theorem instr_access_times:
  assumes "jt_runs J (Suc n) s s'" and "\<forall>m. mt_stall (jc_memory J) m = Some False"
    and "co_ongoing (jt_instr s) = None" and "co_queue (jt_instr s) = a # q"
    and "ac_classify (jc_instr J) (co_cache (jt_instr s)) (ma_addr a) = Some l1"
    and "ac_classify (jc_l2 J) (co_cache (jt_l2 s)) (ma_addr a) = Some l2"
    and "l1 = CL_HIT \<or> (l1 = CL_MISS \<and> l2 = CL_HIT \<and> jt_current_id s \<noteq> 0)"
  shows "let time = (if l1 = CL_HIT then 0 else max 1 (unat (ac_hit_latency (jc_l2 J)))) + max 1 (unat (ac_hit_latency (jc_instr J)))
    in (Suc n < time \<longrightarrow> (\<exists>oa. co_ongoing (jt_instr s') = Some oa \<and> oa_access oa = a)) \<and>
       (Suc n = time \<longrightarrow> co_ongoing (jt_instr s') = None \<and> co_finished (jt_instr s') = ma_id a)"
  using instr_timed.started_countdown [OF jt_runs_quiet [OF assms(1,2)] instr_first_cycle [OF _ assms(3-7)]]
  unfolding instr_time_def Let_def .

theorem instr_access_times_witness:
  "let J = example_cached (example_cached_options True False) CL_MISS CL_HIT in
   \<exists>s'. jt_runs J 3 (example_fetch J) s' \<and> co_ongoing (jt_instr s') = None \<and> co_finished (jt_instr s') = 1"
proof -
  let ?J = "example_cached (example_cached_options True False) CL_MISS CL_HIT"
  have "map_option (\<lambda>s. co_finished (jt_instr s)) (first_run ?J (Suc 2) (example_fetch ?J)) = Some 1" by code_simp
  then obtain s' where r: "jt_runs ?J (Suc 2) (example_fetch ?J) s'" using first_run_runs by fastforce
  have "Suc 2 = (if CL_MISS = CL_HIT then 0 else max 1 (unat (2 :: 32 word))) + max 1 (unat (1 :: 32 word))" by (simp add: cl_defs)
  then show ?thesis using instr_access_times [OF r, of _ "[]" CL_MISS CL_HIT] r by (auto simp: Let_def numeral_3_eq_3)
qed

section \<open>Time of a data load\<close>

lemma processInstr_frame: "processInstrCacheAccess J cl s = Some s' \<Longrightarrow>
    jt_data s' = jt_data s \<and> jt_current_id s' = jt_current_id s \<and> co_cache (jt_l2 s') = co_cache (jt_l2 s)"
  by (auto simp: processInstrCacheAccess_def missed_instr_def Let_def split: option.splits if_splits)

lemma mystartInstr_frame:
  assumes "mystartInstructionAccess J s = Some ss" "s' \<in> set ss"
  shows "jt_data s' = jt_data s \<and> jt_current_id s' = jt_current_id s \<and> co_cache (jt_l2 s') = co_cache (jt_l2 s)"
proof (cases "co_ongoing (jt_instr s) = None \<and> co_queue (jt_instr s) \<noteq> []")
  case True
  then obtain a q where q: "co_queue (jt_instr s) = a # q" by (cases "co_queue (jt_instr s)") auto
  let ?s1 = "s\<lparr>jt_instr := (jt_instr s)\<lparr>co_ongoing := Some (new_ongoing a), co_queue := q\<rparr>\<rparr>"
  obtain cls where "those (List.map (\<lambda>cl. processInstrCacheAccess J cl ?s1) cls) = Some ss"
    using assms(1) True q by (auto simp: mystartInstructionAccess_def Let_def split: option.splits)
  from those_map_member [OF this assms(2)] obtain cl where "processInstrCacheAccess J cl ?s1 = Some s'" by blast
  from processInstr_frame [OF this] show ?thesis by simp
next
  case False
  then have "ss = [s]" using assms(1) by (auto simp: mystartInstructionAccess_def split: option.splits list.splits)
  then show ?thesis using assms(2) by simp
qed

lemma jt_cycle_dataE:
  assumes "quiet_step J s s'"
  obtains si sds sd y ys where "jt_data si = jt_data (jt_clear_events s)" "jt_current_id si = jt_current_id s"
    "co_cache (jt_l2 si) = co_cache (jt_l2 s)" "mystartDataAccess J si = Some sds" "sd \<in> set sds"
    "jt_data y = jt_data sd" "checkDataPart J y = Some ys" "s' \<in> set ys"
proof -
  obtain p ss where q: "jt_cycle J p s = Some ss" "s' \<in> set ss" "\<forall>m. mt_stall (jc_memory J) m = Some False"
    using assms by (auto simp: quiet_step_def)
  show thesis
  proof (rule jt_cycleE [OF q(1,2)])
    fix sis si sds sd ms m zs
    assume h: "mystartInstructionAccess J (jt_clear_events s) = Some sis" "si \<in> set sis"
      "mystartDataAccess J si = Some sds" "sd \<in> set sds" "mt_cycle (jc_memory J) p (jt_memory sd) = Some ms" "m \<in> set ms"
      "jt_check J (sd\<lparr>jt_memory := m\<rparr>) = Some zs" "s' \<in> set zs"
    have st: "mt_stall (jc_memory J) (jt_memory (sd\<lparr>jt_memory := m\<rparr>)) = Some False" using q(3) by simp
    obtain xs x ys where c: "checkInstructionPart J (sd\<lparr>jt_memory := m\<rparr>) = Some xs" "x \<in> set xs" "checkDataPart J x = Some ys" "s' \<in> set ys"
      by (rule jt_checkE [OF h(7,8) st])
    have "jt_data x = jt_data sd" using checkInstr_frame [OF c(1,2)] by simp
    moreover note mystartInstr_frame [OF h(1,2)]
    ultimately show thesis using that [of si sds sd x ys] h(3,4) c(3,4) by simp
  qed
qed

text \<open>A load that waits for a cache and has its line in one.\<close>

definition load_counting :: "ongoing_access \<Rightarrow> bool" where
  "load_counting oa \<longleftrightarrow> oa_bgmem oa = 0 \<and> \<not> oa_stall oa \<and> oa_phase oa = WaitForCACHE \<and> ma_load_store (oa_access oa) = LOAD \<and>
     oa_class oa \<noteq> CL2_MISS \<and> oa_class oa \<noteq> CL2_UNKNOWN \<and> oa_bgl2 oa \<noteq> -1"

lemma split_dirtified_ongoing: "s' \<in> set (split_dirtified w s) \<Longrightarrow>
    co_ongoing (jt_data s') = co_ongoing (jt_data s) \<and> co_finished (jt_data s') = co_finished (jt_data s) \<and>
    co_cache (jt_data s') = co_cache (jt_data s) \<and> co_queue (jt_data s') = co_queue (jt_data s)"
  by (auto simp: split_dirtified_def split: if_splits)

lemma check_l2_load:
  assumes "check_data_l2 J oa s = Some xs" "x \<in> set xs" "load_counting oa" "oa_bgl2 oa \<noteq> 0"
  shows "co_ongoing (jt_data x) = Some (if unat (oa_l2_blocked oa) \<le> 1
    then oa\<lparr>oa_l2_blocked := 0, oa_l1_blocked := ac_hit_latency (jc_instr J), oa_bgl2 := 0\<rparr>
    else oa\<lparr>oa_l2_blocked := dec_blocked (oa_l2_blocked oa)\<rparr>)"
  using assms dec_blocked_unat(2) [of "oa_l2_blocked oa"]
  by (auto simp: check_data_l2_def load_counting_def Let_def split: if_splits option.splits dest!: split_dirtified_ongoing)

lemma check_l1_load:
  assumes "check_data_l1 J oa s = Some xs" "x \<in> set xs" "load_counting oa" "oa_bgl2 oa = 0"
  shows "if unat (oa_l1_blocked oa) \<le> 1 then co_ongoing (jt_data x) = None \<and> co_finished (jt_data x) = ma_id (oa_access oa)
    else co_ongoing (jt_data x) = Some (oa\<lparr>oa_l1_blocked := dec_blocked (oa_l1_blocked oa)\<rparr>)"
  using assms dec_blocked_unat(2) [of "oa_l1_blocked oa"]
  by (auto simp: check_data_l1_def load_counting_def finish_data_def word_gt_0 Let_def split: if_splits option.splits dest!: split_dirtified_ongoing)

lemma checkData_rest:
  assumes "checkDataPart J s = Some xs" "x \<in> set xs" "co_ongoing (jt_data s) = Some oa" "load_counting oa"
  shows "if access_rest J oa = 1 then co_ongoing (jt_data x) = None \<and> co_finished (jt_data x) = ma_id (oa_access oa)
    else \<exists>oa'. co_ongoing (jt_data x) = Some oa' \<and> oa_access oa' = oa_access oa \<and> load_counting oa' \<and>
      access_rest J oa' = access_rest J oa - 1"
proof (cases "oa_bgl2 oa = 0")
  case True
  have c: "check_data_l1 J oa s = Some xs" using assms(1,3,4) True by (simp add: checkDataPart_def load_counting_def)
  from check_l1_load [OF this assms(2,4) True] show ?thesis
    using True assms(4) by (cases "unat (oa_l1_blocked oa) \<le> 1") (auto simp: access_rest_cases load_counting_def dec_blocked_unat(1))
next
  case False
  have c: "check_data_l2 J oa s = Some xs" using assms(1,3,4) False by (simp add: checkDataPart_def load_counting_def)
  note o = check_l2_load [OF c assms(2,4) False]
  have "0 < max 1 (unat (ac_hit_latency (jc_instr J)))" "max 1 (unat (oa_l2_blocked oa)) \<ge> 1" by simp_all
  then have n: "access_rest J oa \<noteq> 1" using False unfolding access_rest_cases(2) [OF False] by linarith
  show ?thesis
  proof (cases "unat (oa_l2_blocked oa) \<le> 1")
    case True
    then have "max 1 (unat (oa_l2_blocked oa)) = 1" by simp
    then show ?thesis using o n True assms(4) False by (auto simp: access_rest_cases load_counting_def)
  next
    case l: False
    then have "max 1 (unat (oa_l2_blocked oa) - 1) = max 1 (unat (oa_l2_blocked oa)) - 1" by simp
    then show ?thesis using o n l assms(4) False by (auto simp: access_rest_cases load_counting_def dec_blocked_unat(1))
  qed
qed

lemma mystartData_busy: "co_ongoing (jt_data s) = Some oa \<Longrightarrow> mystartDataAccess J s = Some [s]"
  by (simp add: mystartDataAccess_def)

lemma data_progress:
  assumes "quiet_step J s s'" "co_ongoing (jt_data s) = Some oa" "load_counting oa"
  shows "if access_rest J oa = 1 then co_ongoing (jt_data s') = None \<and> co_finished (jt_data s') = ma_id (oa_access oa)
    else \<exists>oa'. co_ongoing (jt_data s') = Some oa' \<and> oa_access oa' = oa_access oa \<and> load_counting oa' \<and>
      access_rest J oa' = access_rest J oa - 1"
proof (rule jt_cycle_dataE [OF assms(1)])
  fix si sds sd y ys
  assume h: "jt_data si = jt_data (jt_clear_events s)" "mystartDataAccess J si = Some sds" "sd \<in> set sds"
    "jt_data y = jt_data sd" "checkDataPart J y = Some ys" "s' \<in> set ys"
  have o: "co_ongoing (jt_data si) = Some oa" using h(1) assms(2) by simp
  then have "sd = si" using mystartData_busy [OF o, of J] h(2,3) by simp
  then show ?thesis using checkData_rest [OF h(5,6) _ assms(3)] h(4) o by simp
qed

interpretation data_timed: timed_accesses "quiet_step J" "\<lambda>s. co_ongoing (jt_data s)" "\<lambda>s. co_finished (jt_data s)"
    "access_rest J" load_counting for J
  by unfold_locales (rule data_progress, assumption+, rule access_rest_pos)

definition load_time :: "('i, 'd, 'u, 't, 'l) cached_config \<Rightarrow> classification \<Rightarrow> nat" where
  "load_time J l1 = (if l1 = CL_HIT then max 1 (unat (ac_hit_latency (jc_data J)))
     else max 1 (unat (ac_hit_latency (jc_l2 J))) + max 1 (unat (ac_hit_latency (jc_instr J))))"

lemma processData_rest:
  assumes "processDataCacheAccess J cl s = Some si" "co_ongoing (jt_data s) = Some (new_ongoing a)" "ma_load_store a = LOAD"
  shows "cl = CL_HIT \<Longrightarrow> \<exists>oa. co_ongoing (jt_data si) = Some oa \<and> oa_access oa = a \<and> load_counting oa \<and>
      access_rest J oa = max 1 (unat (ac_hit_latency (jc_data J)))"
    and "cl = CL2_HIT \<Longrightarrow> jt_current_id s \<noteq> 0 \<Longrightarrow> jt_current_id s \<noteq> -1 \<Longrightarrow>
      \<exists>oa. co_ongoing (jt_data si) = Some oa \<and> oa_access oa = a \<and> load_counting oa \<and>
      access_rest J oa = max 1 (unat (ac_hit_latency (jc_l2 J))) + max 1 (unat (ac_hit_latency (jc_instr J)))"
  using assms by (auto simp: processDataCacheAccess_def new_ongoing_def access_rest_cases load_counting_def Let_def cl_defs)

lemma mystartData_time:
  assumes "mystartDataAccess J s = Some sds" "sd \<in> set sds" "co_ongoing (jt_data s) = None" "co_queue (jt_data s) = a # q"
    and "ma_load_store a = LOAD" and "ac_classify (jc_data J) (co_cache (jt_data s)) (ma_addr a) = Some l1"
    and "ac_classify (jc_l2 J) (co_cache (jt_l2 s)) (ma_addr a) = Some l2"
    and "l1 = CL_HIT \<or> (l1 = CL_MISS \<and> l2 = CL_HIT \<and> jt_current_id s \<noteq> 0 \<and> jt_current_id s \<noteq> -1)"
  shows "\<exists>oa. co_ongoing (jt_data sd) = Some oa \<and> oa_access oa = a \<and> load_counting oa \<and> access_rest J oa = load_time J l1"
proof -
  let ?s1 = "s\<lparr>jt_data := (jt_data s)\<lparr>co_ongoing := Some (new_ongoing a), co_queue := q\<rparr>\<rparr>"
  have t: "those (List.map (\<lambda>cl. processDataCacheAccess J cl ?s1) (start_classes (jc_options J) l1 l2)) = Some sds"
    using assms(1,3,4,6,7) by (simp add: mystartDataAccess_def Let_def)
  have o: "co_ongoing (jt_data ?s1) = Some (new_ongoing a)" "jt_current_id ?s1 = jt_current_id s" by simp_all
  show ?thesis
  proof (cases "l1 = CL_HIT")
    case True
    then have "start_classes (jc_options J) l1 l2 = [CL_HIT]" by (simp add: start_classes_def)
    then have "processDataCacheAccess J CL_HIT ?s1 = Some sd" using those_map_member [OF t assms(2)] by simp
    from processData_rest(1) [OF this o(1) assms(5)] show ?thesis using True by (simp add: load_time_def)
  next
    case False
    then have "start_classes (jc_options J) l1 l2 = [CL2_HIT]" using assms(8) by (simp add: start_classes_def cl_defs)
    then have "processDataCacheAccess J CL2_HIT ?s1 = Some sd" using those_map_member [OF t assms(2)] by simp
    from processData_rest(2) [OF this o(1) assms(5)] show ?thesis using False assms(8) by (simp add: load_time_def)
  qed
qed

lemma load_first_cycle:
  assumes "quiet_step J s s'" "co_ongoing (jt_data s) = None" "co_queue (jt_data s) = a # q" "ma_load_store a = LOAD"
    and "ac_classify (jc_data J) (co_cache (jt_data s)) (ma_addr a) = Some l1"
    and "ac_classify (jc_l2 J) (co_cache (jt_l2 s)) (ma_addr a) = Some l2"
    and "l1 = CL_HIT \<or> (l1 = CL_MISS \<and> l2 = CL_HIT \<and> jt_current_id s \<noteq> 0 \<and> jt_current_id s \<noteq> -1)"
  shows "if load_time J l1 = 1 then co_ongoing (jt_data s') = None \<and> co_finished (jt_data s') = ma_id a
    else \<exists>oa. co_ongoing (jt_data s') = Some oa \<and> oa_access oa = a \<and> load_counting oa \<and> access_rest J oa = load_time J l1 - 1"
proof (rule jt_cycle_dataE [OF assms(1)])
  fix si sds sd y ys
  assume h: "jt_data si = jt_data (jt_clear_events s)" "jt_current_id si = jt_current_id s" "co_cache (jt_l2 si) = co_cache (jt_l2 s)"
    "mystartDataAccess J si = Some sds" "sd \<in> set sds" "jt_data y = jt_data sd" "checkDataPart J y = Some ys" "s' \<in> set ys"
  obtain oa where oa: "co_ongoing (jt_data sd) = Some oa" "oa_access oa = a" "load_counting oa" "access_rest J oa = load_time J l1"
    using mystartData_time [OF h(4,5), of a q l1 l2] assms(2-7) h(1-3) by auto
  have "co_ongoing (jt_data y) = Some oa" using h(6) oa(1) by simp
  from checkData_rest [OF h(7,8) this oa(3)] show ?thesis unfolding oa(2,4) .
qed

text \<open>
  C29: the time of a load whose line is in one of the caches, over a background memory that never stalls the
  pipeline (no stalling on bus blocking or refreshes).  A hit in the first-level data cache takes its
  hit latency.  A hit in the second level, under an identifier that is neither
  0 nor -1, takes the latency of the second level and then the latency of the first-level \<open>instruction\<close> cache (\<open>checkDataPart\<close> reads \<open>instructionComponent.cache\<close> there), so for a
  slower data cache the access is finished too early.  Latencies of 0 count as one cycle.
\<close>

theorem load_access_times:
  assumes "jt_runs J (Suc n) s s'" and "\<forall>m. mt_stall (jc_memory J) m = Some False"
    and "co_ongoing (jt_data s) = None" and "co_queue (jt_data s) = a # q" and "ma_load_store a = LOAD"
    and "ac_classify (jc_data J) (co_cache (jt_data s)) (ma_addr a) = Some l1"
    and "ac_classify (jc_l2 J) (co_cache (jt_l2 s)) (ma_addr a) = Some l2"
    and "l1 = CL_HIT \<or> (l1 = CL_MISS \<and> l2 = CL_HIT \<and> jt_current_id s \<noteq> 0 \<and> jt_current_id s \<noteq> -1)"
  shows "let time = (if l1 = CL_HIT then max 1 (unat (ac_hit_latency (jc_data J)))
      else max 1 (unat (ac_hit_latency (jc_l2 J))) + max 1 (unat (ac_hit_latency (jc_instr J))))
    in (Suc n < time \<longrightarrow> (\<exists>oa. co_ongoing (jt_data s') = Some oa \<and> oa_access oa = a)) \<and>
       (Suc n = time \<longrightarrow> co_ongoing (jt_data s') = None \<and> co_finished (jt_data s') = ma_id a)"
  using data_timed.started_countdown [OF jt_runs_quiet [OF assms(1,2)] load_first_cycle [OF _ assms(3-8)]]
  unfolding load_time_def Let_def .

theorem load_access_times_witness:
  "let J = example_cached (example_cached_options True False) CL_MISS CL_HIT in
   \<exists>s'. jt_runs J 3 (example_load J) s' \<and> co_ongoing (jt_data s') = None \<and> co_finished (jt_data s') = 1"
proof -
  let ?J = "example_cached (example_cached_options True False) CL_MISS CL_HIT"
  have "map_option (\<lambda>s. co_finished (jt_data s)) (first_run ?J (Suc 2) (example_load ?J)) = Some 1" by code_simp
  then obtain s' where r: "jt_runs ?J (Suc 2) (example_load ?J) s'" using first_run_runs by fastforce
  have "Suc 2 = (if CL_MISS = CL_HIT then max 1 (unat (2 :: 32 word)) else max 1 (unat (2 :: 32 word)) + max 1 (unat (1 :: 32 word)))"
    by (simp add: cl_defs)
  then show ?thesis using load_access_times [OF r, of _ "[]" CL_MISS CL_HIT] r by (auto simp: Let_def numeral_3_eq_3)
qed

section \<open>Misses in a write-back cache\<close>

lemma mystartData_classE:
  assumes "mystartDataAccess J s = Some sds" "sd \<in> set sds" "co_ongoing (jt_data s) = None" "co_queue (jt_data s) = a # q"
    and "ac_classify (jc_data J) (co_cache (jt_data s)) (ma_addr a) = Some l1"
    and "ac_classify (jc_l2 J) (co_cache (jt_l2 s)) (ma_addr a) = Some l2" and "start_classes (jc_options J) l1 l2 = [cl]"
  shows "processDataCacheAccess J cl (s\<lparr>jt_data := (jt_data s)\<lparr>co_ongoing := Some (new_ongoing a), co_queue := q\<rparr>\<rparr>) = Some sd"
  using assms by (auto simp: mystartDataAccess_def Let_def split: option.splits)

lemma jt_cycle_data_casesE:
  assumes "jt_cycle J p s = Some ss" "s' \<in> set ss"
  obtains (Stalled) si sds sd where "jt_data si = jt_data (jt_clear_events s)" "co_cache (jt_l2 si) = co_cache (jt_l2 s)"
      "mystartDataAccess J si = Some sds" "sd \<in> set sds" "jt_data s' = jt_data sd"
    | (Checked) si sds sd y ys where "jt_data si = jt_data (jt_clear_events s)" "co_cache (jt_l2 si) = co_cache (jt_l2 s)"
      "mystartDataAccess J si = Some sds" "sd \<in> set sds" "jt_data y = jt_data sd" "checkDataPart J y = Some ys" "s' \<in> set ys"
proof (rule jt_cycleE [OF assms])
  fix sis si sds sd ms m zs
  assume h: "mystartInstructionAccess J (jt_clear_events s) = Some sis" "si \<in> set sis"
    "mystartDataAccess J si = Some sds" "sd \<in> set sds" "mt_cycle (jc_memory J) p (jt_memory sd) = Some ms" "m \<in> set ms"
    "jt_check J (sd\<lparr>jt_memory := m\<rparr>) = Some zs" "s' \<in> set zs"
  have si: "jt_data si = jt_data (jt_clear_events s)" "co_cache (jt_l2 si) = co_cache (jt_l2 s)"
    using mystartInstr_frame [OF h(1,2)] by simp_all
  show thesis
  proof (cases "mt_stall (jc_memory J) m = Some False")
    case True
    then have "mt_stall (jc_memory J) (jt_memory (sd\<lparr>jt_memory := m\<rparr>)) = Some False" by simp
    then obtain xs x ys where c: "checkInstructionPart J (sd\<lparr>jt_memory := m\<rparr>) = Some xs" "x \<in> set xs" "checkDataPart J x = Some ys" "s' \<in> set ys"
      by (rule jt_checkE [OF h(7,8)])
    have "jt_data x = jt_data sd" using checkInstr_frame [OF c(1,2)] by simp
    then show thesis using Checked [OF si h(3,4) _ c(3,4)] by simp
  next
    case False
    then have "zs = [sd\<lparr>jt_memory := m\<rparr>]" using h(7) by (auto simp: jt_check_def jt_stall_def split: option.splits if_splits)
    then have "jt_data s' = jt_data sd" using h(8) by simp
    then show thesis using Stalled [OF si h(3,4)] by blast
  qed
qed

text \<open>The phases of an access that missed both levels.\<close>

definition miss_phase :: "ongoing_access \<Rightarrow> bool" where
  "miss_phase oa \<longleftrightarrow> oa_class oa = CL2_MISS \<and>
     (oa_phase oa = WaitForLOAD \<or> oa_phase oa = WaitForSTORE \<or> (oa_phase oa = WaitForCACHE \<and> oa_bgl2 oa \<noteq> 0))"

definition bypassing :: "'d \<Rightarrow> 'd memory_component \<Rightarrow> bool" where
  "bypassing d c \<longleftrightarrow> co_queue c = [] \<and> co_cache c = d \<and> (\<forall>oa. co_ongoing c = Some oa \<longrightarrow> miss_phase oa)"

lemma check_l2_wb_miss:
  assumes "check_data_l2 J oa s = Some ss" "s' \<in> set ss" "fst (ac_write_policy (jc_data J))" "\<not> StaticallyRefuteWritebacks (jc_options J)"
    and "oa_class oa = CL2_MISS"
  shows "co_queue (jt_data s') = co_queue (jt_data s) \<and> co_cache (jt_data s') = co_cache (jt_data s) \<and>
    (co_ongoing (jt_data s') = None \<or>
     (\<exists>oa'. co_ongoing (jt_data s') = Some oa' \<and> oa_class oa' = CL2_MISS \<and> oa_bgl2 oa' = oa_bgl2 oa \<and>
        (oa_phase oa' = oa_phase oa \<or> oa_phase oa' = WaitForSTORE)))"
proof -
  let ?t = "dec_blocked (if oa_bgl2 oa = -1 then ac_hit_latency (jc_l2 J) else oa_l2_blocked oa)"
  have v: "victim_of (jc_options J) True r \<noteq> None" for r
    using assms(4) by (auto simp: victim_of_def split: option.splits update_report.splits)
  show ?thesis
  proof (cases "?t = 0")
    case False
    then have "ss = [s\<lparr>jt_data := (jt_data s)\<lparr>co_ongoing := Some (oa\<lparr>oa_l2_blocked := ?t\<rparr>)\<rparr>\<rparr>]"
      using assms(1) by (simp add: check_data_l2_def Let_def)
    then show ?thesis using assms(2,5) by simp
  next
    case True
    have "\<exists>s1 s2. ss = s1 # split_dirtified True s2 \<and>
      co_queue (jt_data s1) = co_queue (jt_data s) \<and> co_cache (jt_data s1) = co_cache (jt_data s) \<and> co_ongoing (jt_data s1) = None \<and>
      co_queue (jt_data s2) = co_queue (jt_data s) \<and> co_cache (jt_data s2) = co_cache (jt_data s) \<and>
      (\<exists>oa'. co_ongoing (jt_data s2) = Some oa' \<and> oa_class oa' = CL2_MISS \<and> oa_bgl2 oa' = oa_bgl2 oa \<and> oa_phase oa' = WaitForSTORE)"
      using assms(1,3,5) v True
      by (simp add: check_data_l2_def Let_def finish_data_def split: option.splits prod.splits) (fastforce split: if_splits)
    then obtain s1 s2 where "ss = s1 # split_dirtified True s2"
      "co_queue (jt_data s1) = co_queue (jt_data s)" "co_cache (jt_data s1) = co_cache (jt_data s)" "co_ongoing (jt_data s1) = None"
      "co_queue (jt_data s2) = co_queue (jt_data s)" "co_cache (jt_data s2) = co_cache (jt_data s)"
      "\<exists>oa'. co_ongoing (jt_data s2) = Some oa' \<and> oa_class oa' = CL2_MISS \<and> oa_bgl2 oa' = oa_bgl2 oa \<and> oa_phase oa' = WaitForSTORE"
      by blast
    then show ?thesis using assms(2) split_dirtified_ongoing [of s' True s2] by auto
  qed
qed

lemma check_l2_bypassing:
  assumes "check_data_l2 J oa s = Some ss" "s' \<in> set ss" "fst (ac_write_policy (jc_data J))" "\<not> StaticallyRefuteWritebacks (jc_options J)"
    and "bypassing d (jt_data s)" "miss_phase oa" "oa_bgl2 oa \<noteq> 0"
  shows "bypassing d (jt_data s')"
  using check_l2_wb_miss [OF assms(1-4)] assms(5-7) by (auto simp: bypassing_def miss_phase_def)

lemma processData_miss:
  assumes "processDataCacheAccess J CL2_MISS s = Some s'" "co_ongoing (jt_data s) = Some oa0"
  shows "co_queue (jt_data s') = co_queue (jt_data s) \<and> co_cache (jt_data s') = co_cache (jt_data s) \<and>
    (\<exists>oa. co_ongoing (jt_data s') = Some oa \<and> miss_phase oa)"
proof -
  have ne: "CL2_MISS \<noteq> CL_HIT" "CL2_MISS \<noteq> CL2_HIT" by (simp_all add: cl_defs)
  show ?thesis
  proof (cases "ma_load_store (oa_access oa0) = STORE \<and> \<not> snd (ac_write_policy (jc_data J))")
    case True
    then show ?thesis using assms ne
      by (cases "fst (ac_write_policy (jc_data J))")
        (simp_all add: processDataCacheAccess_def Let_def miss_phase_def split: option.splits prod.splits, clarsimp)
  next
    case False
    show ?thesis
    proof (cases "mt_access_data (jc_memory J) (ma_addr (oa_access oa0)) LOAD (data_line (jc_options J) div 4) (jt_memory s)")
      case None
      then show ?thesis using assms ne False by (simp add: processDataCacheAccess_def Let_def)
    next
      case (Some r)
      then show ?thesis using assms ne False
        by (cases r, cases "fst r") (auto simp: processDataCacheAccess_def Let_def miss_phase_def simp del: not_None_eq)
    qed
  qed
qed

lemma checkData_bypassing:
  assumes "checkDataPart J s = Some ss" "s' \<in> set ss" "fst (ac_write_policy (jc_data J))" "\<not> StaticallyRefuteWritebacks (jc_options J)"
    and "bypassing d (jt_data s)"
  shows "bypassing d (jt_data s')"
proof (cases "co_ongoing (jt_data s)")
  case None
  then show ?thesis using assms by (auto simp: checkDataPart_def)
next
  case (Some oa)
  then have m: "miss_phase oa" using assms(5) by (simp add: bypassing_def)
  show ?thesis
  proof (cases "\<not> oa_stall oa \<and> oa_phase oa = WaitForCACHE")
    case True
    then have c: "check_data_l2 J oa s = Some ss" "oa_bgl2 oa \<noteq> 0"
      using assms(1) Some m by (auto simp: checkDataPart_def miss_phase_def split: if_splits)
    show ?thesis by (rule check_l2_bypassing [OF c(1) assms(2-5) m c(2)])
  next
    case False
    show ?thesis
    proof (cases "oa_stall oa")
      case True
      then show ?thesis using assms(1,2,5) Some m
        by (auto simp: checkDataPart_def bypassing_def Let_def miss_phase_def split: if_splits option.splits)
    next
      case st: False
      then have "oa_phase oa = WaitForLOAD \<or> oa_phase oa = WaitForSTORE" using False m by (auto simp: miss_phase_def)
      then show ?thesis
      proof
        assume "oa_phase oa = WaitForLOAD"
        then show ?thesis using assms(1,2,5) Some m st
          by (auto simp: checkDataPart_def bypassing_def Let_def miss_phase_def split: if_splits prod.splits)
      next
        assume "oa_phase oa = WaitForSTORE"
        then show ?thesis using assms(1,2,5) Some m st
          by (auto simp: checkDataPart_def bypassing_def Let_def miss_phase_def finish_data_def split: if_splits prod.splits)
      qed
    qed
  qed
qed

lemma mystartData_none: "co_ongoing (jt_data s) = None \<Longrightarrow> co_queue (jt_data s) = [] \<Longrightarrow> mystartDataAccess J s = Some [s]"
  by (simp add: mystartDataAccess_def)

lemma jt_cycle_bypassing:
  assumes "jt_cycle J p s = Some ss" "s' \<in> set ss" "fst (ac_write_policy (jc_data J))" "\<not> StaticallyRefuteWritebacks (jc_options J)"
    and "bypassing d (jt_data s)"
  shows "bypassing d (jt_data s')"
proof -
  have c: "bypassing d (jt_data (jt_clear_events s))" using assms(5) by (simp add: bypassing_def)
  have sd: "bypassing d (jt_data sd)" if "mystartDataAccess J si = Some sds" "sd \<in> set sds" "jt_data si = jt_data (jt_clear_events s)" for si sds sd
  proof -
    have "mystartDataAccess J si = Some [si]"
      using c that(3) mystartData_none [of si J] mystartData_busy [of si _ J] by (cases "co_ongoing (jt_data si)") (auto simp: bypassing_def)
    then show ?thesis using that c by simp
  qed
  from assms(1,2) show ?thesis
  proof (cases rule: jt_cycle_data_casesE)
    case (Stalled si sds sd)
    then show ?thesis using sd by simp
  next
    case (Checked si sds sd y ys)
    then show ?thesis using checkData_bypassing [OF Checked(6,7) assms(3,4)] sd by simp
  qed
qed

lemma jt_first_cycle_bypassing:
  assumes "jt_cycle J p s = Some ss" "s' \<in> set ss" "fst (ac_write_policy (jc_data J))" "\<not> StaticallyRefuteWritebacks (jc_options J)"
    and "co_ongoing (jt_data s) = None" and "co_queue (jt_data s) = [a]"
    and "ac_classify (jc_data J) (co_cache (jt_data s)) (ma_addr a) = Some l1"
    and "ac_classify (jc_l2 J) (co_cache (jt_l2 s)) (ma_addr a) = Some l2" and "start_classes (jc_options J) l1 l2 = [CL2_MISS]"
  shows "bypassing (co_cache (jt_data s)) (jt_data s')"
proof -
  have sd: "bypassing (co_cache (jt_data s)) (jt_data sd)"
    if h: "mystartDataAccess J si = Some sds" "sd \<in> set sds" "jt_data si = jt_data (jt_clear_events s)" "co_cache (jt_l2 si) = co_cache (jt_l2 s)"
    for si sds sd
  proof -
    have "processDataCacheAccess J CL2_MISS (si\<lparr>jt_data := (jt_data si)\<lparr>co_ongoing := Some (new_ongoing a), co_queue := []\<rparr>\<rparr>) = Some sd"
      by (rule mystartData_classE [OF h(1,2)]) (use assms(5-9) h(3,4) in simp_all)
    from processData_miss [OF this] show ?thesis using h(3) by (auto simp: bypassing_def)
  qed
  from assms(1,2) show ?thesis
  proof (cases rule: jt_cycle_data_casesE)
    case (Stalled si sds sd)
    then show ?thesis using sd by simp
  next
    case (Checked si sds sd y ys)
    then show ?thesis using checkData_bypassing [OF Checked(6,7) assms(3,4)] sd by simp
  qed
qed

text \<open>
  C28: a miss in both levels never fills a write-back first-level data cache.  Let the data cache be
  write-back, without static refutation of write-backs, and let the only requested data access be continued as
  a miss in both levels.  Then in every state the analysis reaches after any number of cycles, when the
  access is in progress or finished, the first-level data cache is what it was before the access:
  after the second level has been updated, the access writes back or finishes without the update of the first level.
\<close>

theorem write_back_miss_never_fills:
  assumes "jt_runs J n s s'" and "fst (ac_write_policy (jc_data J))" and "\<not> StaticallyRefuteWritebacks (jc_options J)"
    and "co_ongoing (jt_data s) = None" and "co_queue (jt_data s) = [a]"
    and "ac_classify (jc_data J) (co_cache (jt_data s)) (ma_addr a) = Some l1"
    and "ac_classify (jc_l2 J) (co_cache (jt_l2 s)) (ma_addr a) = Some l2" and "start_classes (jc_options J) l1 l2 = [CL2_MISS]"
  shows "co_cache (jt_data s') = co_cache (jt_data s)"
proof (cases n)
  case 0
  then show ?thesis using assms(1) by (auto elim: jt_runs_zeroE)
next
  case (Suc k)
  then obtain p ss x where c: "jt_cycle J p s = Some ss" "x \<in> set ss" "jt_runs J k x s'" using assms(1) by (auto elim: jt_runs_sucE)
  have "bypassing (co_cache (jt_data s)) (jt_data x)" by (rule jt_first_cycle_bypassing [OF c(1,2) assms(2-8)])
  then have "bypassing (co_cache (jt_data s)) (jt_data s')"
    by (rule jt_runs_invariant [OF c(3)]) (rule jt_cycle_bypassing [OF _ _ assms(2,3)])
  then show ?thesis by (simp add: bypassing_def)
qed

theorem write_back_miss_never_fills_witness:
  "let J = example_cached (example_cached_options False False) CL_UNKNOWN CL_UNKNOWN in
   \<exists>s'. jt_runs J 18 (example_load J) s' \<and> co_finished (jt_data s') = 1 \<and> co_ongoing (jt_data s') = None \<and>
     co_cache (jt_l2 s') = 1 \<and> co_cache (jt_data s') = 0"
proof -
  let ?J = "example_cached (example_cached_options False False) CL_UNKNOWN CL_UNKNOWN"
  have "map_option (\<lambda>s. (co_finished (jt_data s), co_ongoing (jt_data s) = None, co_cache (jt_l2 s))) (first_run ?J 18 (example_load ?J)) = Some (1, True, 1)"
    by code_simp
  then obtain s' where f: "first_run ?J 18 (example_load ?J) = Some s'" "co_finished (jt_data s') = 1" "co_ongoing (jt_data s') = None"
      "co_cache (jt_l2 s') = 1"
    by auto
  have "start_classes (example_cached_options False False) CL_UNKNOWN CL_UNKNOWN = [CL2_MISS]" "\<not> StaticallyRefuteWritebacks (example_cached_options False False)"
    by (simp_all add: start_classes_def example_cached_options_def cl_defs)
  then show ?thesis using write_back_miss_never_fills [OF first_run_runs [OF f(1)], of _ CL_UNKNOWN CL_UNKNOWN] f first_run_runs [OF f(1)]
    by (auto simp: Let_def example_cached_def example_cache_def)
qed

section \<open>A write-back from the first level\<close>

definition waits_for_l2 :: "mem_access \<Rightarrow> ongoing_access \<Rightarrow> bool" where
  "waits_for_l2 a oa \<longleftrightarrow> oa_access oa = a \<and> oa_phase oa = WaitForCACHE \<and> \<not> oa_stall oa \<and> oa_bgmem oa = 0 \<and> oa_bgl2 oa = -1"

lemma checkData_waits:
  assumes "checkDataPart J s = Some ss" "s' \<in> set ss" "1 < unat (ac_hit_latency (jc_l2 J))"
    and "co_ongoing (jt_data s) = Some oa" "waits_for_l2 a oa"
  shows "\<exists>oa'. co_ongoing (jt_data s') = Some oa' \<and> waits_for_l2 a oa'"
proof -
  have "dec_blocked (ac_hit_latency (jc_l2 J)) \<noteq> 0" using assms(3) by (simp add: dec_blocked_unat(2))
  then show ?thesis using assms by (auto simp: checkDataPart_def check_data_l2_def waits_for_l2_def Let_def)
qed

lemma jt_cycle_waits:
  assumes "jt_cycle J p s = Some ss" "s' \<in> set ss" "1 < unat (ac_hit_latency (jc_l2 J))"
    and "\<exists>oa. co_ongoing (jt_data s) = Some oa \<and> waits_for_l2 a oa"
  shows "\<exists>oa. co_ongoing (jt_data s') = Some oa \<and> waits_for_l2 a oa"
proof -
  obtain oa where oa: "co_ongoing (jt_data s) = Some oa" "waits_for_l2 a oa" using assms(4) by blast
  have sd: "sd = si" if "mystartDataAccess J si = Some sds" "sd \<in> set sds" "jt_data si = jt_data (jt_clear_events s)" for si sds sd
    using mystartData_busy [of si oa J] that oa(1) by simp
  from assms(1,2) show ?thesis
  proof (cases rule: jt_cycle_data_casesE)
    case (Stalled si sds sd)
    then show ?thesis using sd [OF Stalled(3,4,1)] oa by simp
  next
    case (Checked si sds sd y ys)
    have "co_ongoing (jt_data y) = Some oa" using Checked(1,5) sd [OF Checked(3,4,1)] oa(1) by simp
    from checkData_waits [OF Checked(6,7) assms(3) this oa(2)] show ?thesis .
  qed
qed

text \<open>
  C31: when the update of a write-back first-level data cache may evict a dirty line, the case with the write-back
  never finishes, however long it is run, if the second level has a hit latency of more than one
  cycle: \<open>checkDataPart\<close> sets \<open>l2timeBlocked\<close> to the whole latency in every cycle while \<open>bgl2AccessId\<close> is
  \<open>-1\<close>.  The access stays in progress with the same request.
\<close>

theorem l1_write_back_never_finishes:
  assumes "checkDataPart J s = Some ss" and "co_ongoing (jt_data s) = Some oa" and "\<not> oa_stall oa" and "oa_phase oa = WaitForCACHE"
    and "oa_bgmem oa = 0" and "oa_bgl2 oa = 0" and "unat (oa_l1_blocked oa) \<le> 1" and "oa_class oa = CL2_MISS"
    and "fst (ac_write_policy (jc_data J))" and "1 < unat (ac_hit_latency (jc_l2 J))"
    and "ac_update (jc_data J) (co_cache (jt_data s)) (ma_addr (oa_access oa)) (ma_load_store (oa_access oa)) True CL2_MISS = Some (d', report)"
    and "victim_of (jc_options J) True report \<noteq> None"
  shows "\<exists>x\<in>set ss. \<forall>n s'. jt_runs J n x s' \<longrightarrow> (\<exists>oa'. co_ongoing (jt_data s') = Some oa' \<and> oa_access oa' = oa_access oa)"
proof -
  have c: "check_data_l1 J oa s = Some ss" using assms(1-6) by (simp add: checkDataPart_def)
  have t: "dec_blocked (oa_l1_blocked oa) = 0" using assms(7) by (simp add: dec_blocked_unat(2))
  obtain u' r where u: "ac_update (jc_l2 J) (co_cache (jt_l2 s)) (ma_addr (oa_access oa)) (ma_load_store (oa_access oa)) True CL2_MISS = Some (u', r)"
    using c t assms(8,9,11) by (auto simp: check_data_l1_def Let_def split: option.splits)
  have "\<exists>x\<in>set ss. co_ongoing (jt_data x) = Some (oa\<lparr>oa_l1_blocked := 0, oa_bgl2 := -1\<rparr>)"
    using c t assms(8,9,11,12) u by (auto simp: check_data_l1_def split_dirtified_def Let_def)
  then obtain x where x: "x \<in> set ss" "co_ongoing (jt_data x) = Some (oa\<lparr>oa_l1_blocked := 0, oa_bgl2 := -1\<rparr>)" by blast
  have w: "\<exists>oa'. co_ongoing (jt_data x) = Some oa' \<and> waits_for_l2 (oa_access oa) oa'"
    using x(2) assms(3-5) by (auto simp: waits_for_l2_def)
  have "\<exists>oa'. co_ongoing (jt_data s') = Some oa' \<and> oa_access oa' = oa_access oa" if "jt_runs J n x s'" for n s'
  proof -
    have "\<exists>oa'. co_ongoing (jt_data s') = Some oa' \<and> waits_for_l2 (oa_access oa) oa'"
      by (rule jt_runs_invariant [OF that, where P = "\<lambda>s. \<exists>oa'. co_ongoing (jt_data s) = Some oa' \<and> waits_for_l2 (oa_access oa) oa'"])
        (rule w, rule jt_cycle_waits [OF _ _ assms(10)])
    then show ?thesis by (auto simp: waits_for_l2_def)
  qed
  then show ?thesis using x(1) by blast
qed

theorem l1_write_back_never_finishes_witness:
  "let J = example_cached (example_cached_options False True) CL_UNKNOWN CL_UNKNOWN in
   \<exists>s ss x. jt_runs J 14 (example_load J) s \<and> checkDataPart J s = Some ss \<and> x \<in> set ss \<and>
     (\<forall>n s'. jt_runs J n x s' \<longrightarrow> co_ongoing (jt_data s') \<noteq> None)"
proof -
  let ?Op = "example_cached_options False True"
  let ?J = "example_cached ?Op CL_UNKNOWN CL_UNKNOWN"
  have "map_option (\<lambda>s. (map_option length (checkDataPart ?J s),
      map_option (\<lambda>oa. (oa_stall oa, oa_phase oa, oa_bgmem oa, oa_bgl2 oa, oa_l1_blocked oa, oa_class oa)) (co_ongoing (jt_data s))))
     (first_run ?J 14 (example_load ?J)) = Some (Some 2, Some (False, WaitForCACHE, 0, 0, 1, CL2_MISS))"
    by code_simp
  then obtain s ss oa where f: "first_run ?J 14 (example_load ?J) = Some s" and c: "checkDataPart ?J s = Some ss"
      "co_ongoing (jt_data s) = Some oa" "\<not> oa_stall oa" "oa_phase oa = WaitForCACHE" "oa_bgmem oa = 0" "oa_bgl2 oa = 0"
      "unat (oa_l1_blocked oa) \<le> 1" "oa_class oa = CL2_MISS"
    by auto
  have v: "victim_of (jc_options ?J) True (Some (WritebackReport True True)) \<noteq> None"
    by (simp add: victim_of_def example_cached_options_def potentialWritebacks_def)
  obtain x where "x \<in> set ss" "\<forall>n s'. jt_runs ?J n x s' \<longrightarrow> (\<exists>oa'. co_ongoing (jt_data s') = Some oa' \<and> oa_access oa' = oa_access oa)"
    using l1_write_back_never_finishes [OF c _ _ _ v] by auto
  then show ?thesis using first_run_runs [OF f] c(1) unfolding Let_def by (metis option.distinct(1))
qed

end
