(* ===== verification/TA_Program.thy ===== *)
theory TA_Program
  imports TA_Prelude
begin

text \<open>
  The program under analysis as the analyses see it: machine code of LLVM, whose classes are the record
  \<open>machine\<close>, and the functions of \<open>lib/Util/Util.cpp\<close> on its control flow.  A function is its number, a
  basic block the number of its function and its own number, an instruction its block and its position
  there: what LLVM keeps unique and the comparison functions of the code compare.  \<open>None\<close> is a failed
  assertion, or a call that never returns.
\<close>

section \<open>Loops and maps of the code\<close>

text \<open>A loop whose body can fail an assertion.\<close>

fun fold_option :: "('a \<Rightarrow> 's \<Rightarrow> 's option) \<Rightarrow> 'a list \<Rightarrow> 's \<Rightarrow> 's option" where
  "fold_option f [] s = Some s"
| "fold_option f (x # xs) s = Option.bind (f x s) (fold_option f xs)"

lemma fold_option_append: "fold_option f (xs @ ys) s = Option.bind (fold_option f xs s) (fold_option f ys)"
  by (induction xs arbitrary: s) (auto simp: bind_eq_Some_conv split: bind_splits)

lemma fold_option_invariant:
  assumes "fold_option f xs s = Some s'" "P s" "\<And>x s s'. x \<in> set xs \<Longrightarrow> f x s = Some s' \<Longrightarrow> P s \<Longrightarrow> P s'"
  shows "P s'"
  using assms by (induction xs arbitrary: s) (auto simp: bind_eq_Some_conv)

lemma fold_option_reaches:
  assumes "fold_option f xs s = Some s'" "x \<in> set xs" "\<And>s s'. f x s = Some s' \<Longrightarrow> Q s'"
    and "\<And>y s s'. y \<in> set xs \<Longrightarrow> f y s = Some s' \<Longrightarrow> Q s \<Longrightarrow> Q s'"
  shows "Q s'"
  using assms
proof (induction xs arbitrary: s)
  case (Cons y ys)
  obtain s1 where s1: "f y s = Some s1" "fold_option f ys s1 = Some s'" using Cons.prems(1) by (auto simp: bind_eq_Some_conv)
  show ?case
  proof (cases "x \<in> set ys")
    case True
    show ?thesis by (rule Cons.IH [OF s1(2) True Cons.prems(3)], assumption) (rule Cons.prems(4) [OF list.set_intros(2)])
  next
    case False
    then have "Q s1" using Cons.prems(2,3) s1(1) by auto
    then show ?thesis by (rule fold_option_invariant [OF s1(2)]) (rule Cons.prems(4) [OF list.set_intros(2)])
  qed
qed simp

text \<open>\<open>std::map::insert\<close> keeps an entry that exists.\<close>

definition keep_insert :: "'k \<Rightarrow> 'v \<Rightarrow> ('k \<rightharpoonup> 'v) \<Rightarrow> ('k \<rightharpoonup> 'v)" where
  "keep_insert k v m = (if m k = None then m(k \<mapsto> v) else m)"

section \<open>Machine code\<close>

type_synonym mfunc = nat
type_synonym mbb = "mfunc \<times> nat"
type_synonym minstr = "mbb \<times> nat"
type_synonym mbb_edge = "mbb \<times> mbb"

datatype operand = OpReg nat | OpImm int | OpMBB mbb | OpJTI nat | OpCPI nat | OpGlobal string | OpSymbol string | OpOther

datatype target_arch = ArchARM | ArchRISCV32

record instr_desc =
  id_opcode :: string
  id_pseudo :: bool
  id_transient :: bool
  id_bundle :: bool
  id_branch :: bool
  id_cond_branch :: bool
  id_uncond_branch :: bool
  id_call :: bool
  id_return :: bool
  id_may_load :: bool
  id_may_store :: bool
  id_operands :: "operand list"
  id_target_offset :: int
  id_pred_operand :: "nat option"
  id_reads :: "nat list"

text \<open>An entry of a constant pool: its size in bytes, and the global variable it is the address of, if any.\<close>

record pool_entry =
  cp_size :: nat
  cp_global :: "string option"

record machine =
  m_arch :: target_arch
  m_desc :: "minstr \<Rightarrow> instr_desc"
  m_name :: "mfunc \<Rightarrow> string"
  m_blocks :: "mfunc \<Rightarrow> nat"
  m_size :: "mbb \<Rightarrow> nat"
  m_succs :: "mbb \<Rightarrow> mbb list"
  m_preds :: "mbb \<Rightarrow> mbb list"
  m_jump_tables :: "mfunc \<Rightarrow> nat \<Rightarrow> mbb list option"
  m_const_pool :: "mfunc \<Rightarrow> pool_entry list"

text \<open>The blocks of a function and the instructions of a block, in order.\<close>

definition blocks_of :: "machine \<Rightarrow> mfunc \<Rightarrow> mbb list" where
  "blocks_of M f = List.map (Pair f) [0..<m_blocks M f]"

definition instrs_of :: "machine \<Rightarrow> mbb \<Rightarrow> minstr list" where
  "instrs_of M b = List.map (Pair b) [0..<m_size M b]"

definition mi_parent :: "minstr \<Rightarrow> mbb" where
  "mi_parent i = fst i"

definition mi_function :: "minstr \<Rightarrow> mfunc" where
  "mi_function i = fst (fst i)"

definition get_operand :: "machine \<Rightarrow> minstr \<Rightarrow> nat \<Rightarrow> operand option" where
  "get_operand M i n = (let ops = id_operands (m_desc M i) in if n < length ops then Some (ops ! n) else None)"

section \<open>Instructions\<close>

definition getBranchTargetOperand :: "machine \<Rightarrow> minstr \<Rightarrow> operand option" where
  "getBranchTargetOperand M i =
     (if \<not> id_branch (m_desc M i) then None
      else case m_arch M of
             ArchARM \<Rightarrow> get_operand M i 0
           | ArchRISCV32 \<Rightarrow> if id_opcode (m_desc M i) = ''PseudoBR'' then get_operand M i 0 else get_operand M i 2)"

definition isJumpTableBranch :: "machine \<Rightarrow> minstr \<Rightarrow> bool" where
  "isJumpTableBranch M i =
     (case m_arch M of
        ArchARM \<Rightarrow> id_opcode (m_desc M i) \<in> set [''BR_JTr'', ''BR_JTm_rs'', ''BR_JTm_i12'']
      | ArchRISCV32 \<Rightarrow> False)"

definition getJumpTableIndex :: "machine \<Rightarrow> minstr \<Rightarrow> nat option" where
  "getJumpTableIndex M i =
     (if \<not> isJumpTableBranch M i then None
      else case get_operand M i (if id_opcode (m_desc M i) = ''BR_JTr'' then 1 else 3) of
             Some (OpJTI n) \<Rightarrow> Some n | _ \<Rightarrow> None)"

definition isPrefetchARM :: "machine \<Rightarrow> minstr \<Rightarrow> bool option" where
  "isPrefetchARM M i =
     (let d = m_desc M i in
      if m_arch M = ArchARM \<and> id_opcode d \<in> set [''PLIi12'', ''PLIrs'', ''PLDi12'', ''PLDrs'', ''PLDWi12'', ''PLDWrs''] then Some True
      else if id_may_load d \<and> id_may_store d then None else Some False)"

text \<open>\<open>ARMCC::AL\<close>, the condition that always holds, is 14.\<close>

definition isPredicated :: "machine \<Rightarrow> minstr \<Rightarrow> bool" where
  "isPredicated M i =
     (case id_pred_operand (m_desc M i) of None \<Rightarrow> False
      | Some n \<Rightarrow> m_arch M = ArchARM \<and> get_operand M i n \<noteq> Some (OpImm 14))"

section \<open>Comparison\<close>

definition instrptrcomp :: "minstr \<Rightarrow> minstr \<Rightarrow> bool" where
  "instrptrcomp l r =
     (if mi_function l \<noteq> mi_function r then mi_function l < mi_function r
      else if snd (mi_parent l) \<noteq> snd (mi_parent r) then snd (mi_parent l) < snd (mi_parent r)
      else snd l < snd r)"

definition mbbComp :: "mbb \<Rightarrow> mbb \<Rightarrow> bool" where
  "mbbComp l r = (if fst l \<noteq> fst r then fst l < fst r else snd l < snd r)"

definition mbbedgecomp :: "mbb_edge \<Rightarrow> mbb_edge \<Rightarrow> bool" where
  "mbbedgecomp l r =
     (if fst (fst l) = fst (fst r) \<and> snd (fst l) = snd (fst r) then mbbComp (snd l) (snd r) else mbbComp (fst l) (fst r))"

definition machfunccomp :: "mfunc \<Rightarrow> mfunc \<Rightarrow> bool" where
  "machfunccomp l r \<longleftrightarrow> l < r"

section \<open>Basic blocks\<close>

definition isBasicBlockEmpty :: "machine \<Rightarrow> mbb \<Rightarrow> bool" where
  "isBasicBlockEmpty M b \<longleftrightarrow> (\<forall>i \<in> set (instrs_of M b). id_transient (m_desc M i))"

definition getFirstInstrInBB :: "machine \<Rightarrow> mbb \<Rightarrow> minstr option" where
  "getFirstInstrInBB M b = List.find (\<lambda>i. \<not> id_transient (m_desc M i)) (instrs_of M b)"

definition getLastInstrInBB :: "machine \<Rightarrow> mbb \<Rightarrow> minstr option" where
  "getLastInstrInBB M b = List.find (\<lambda>i. \<not> id_transient (m_desc M i)) (rev (instrs_of M b))"

definition isEndInstr :: "machine \<Rightarrow> mbb \<Rightarrow> minstr \<Rightarrow> bool option" where
  "isEndInstr M b i =
     (if id_branch (m_desc M i) \<or> id_return (m_desc M i) then Some True
      else map_option (\<lambda>l. i = l) (getLastInstrInBB M b))"

definition getAllEndInstrInMBB :: "machine \<Rightarrow> mbb \<Rightarrow> minstr list option" where
  "getAllEndInstrInMBB M b =
     map_option (\<lambda>flags. List.map fst (filter snd (zip (instrs_of M b) flags)))
       (those (List.map (isEndInstr M b) (instrs_of M b)))"

text \<open>
  The first instruction of a function and the edges through the empty blocks in front of it.  The loop
  follows empty blocks; a walk longer than the blocks of the function runs in a circle for ever.
\<close>

fun first_instr_from :: "machine \<Rightarrow> nat \<Rightarrow> mbb \<Rightarrow> mbb_edge list \<Rightarrow> (minstr \<times> mbb_edge list) option" where
  "first_instr_from M 0 b edges = None"
| "first_instr_from M (Suc n) b edges =
     (case getFirstInstrInBB M b of
        Some i \<Rightarrow> Some (i, edges)
      | None \<Rightarrow> (case m_succs M b of [c] \<Rightarrow> first_instr_from M n c (edges @ [(b, c)]) | _ \<Rightarrow> None))"

definition getFirstInstrInFunction :: "machine \<Rightarrow> mfunc \<Rightarrow> (minstr \<times> mbb_edge list) option" where
  "getFirstInstrInFunction M f =
     (if m_blocks M f = 0 \<or> m_preds M (f, 0) \<noteq> [] then None else first_instr_from M (Suc (m_blocks M f)) (f, 0) [])"

text \<open>
  \<open>getEdgesBetween\<close>: the paths from one block to another through empty blocks.  The outer option is a
  failed assertion or an endless recursion around a circle of empty blocks, the inner one the null
  pointer.  The set of paths is a list without duplicates.
\<close>

definition add_paths :: "mbb_edge list list option \<Rightarrow> mbb_edge list list option \<Rightarrow> mbb_edge list list option" where
  "add_paths result found =
     (case found of None \<Rightarrow> result
      | Some ps \<Rightarrow> Some (remdups ((case result of None \<Rightarrow> [] | Some rs \<Rightarrow> rs) @ ps)))"

fun edges_between :: "machine \<Rightarrow> nat \<Rightarrow> mbb \<Rightarrow> mbb \<Rightarrow> mbb_edge list list option option" where
  "edges_between M 0 b1 b2 = None"
| "edges_between M (Suc n) b1 b2 =
     (if b1 = b2 then None
      else map_option (\<lambda>found. foldl add_paths None found)
        (those (List.map (\<lambda>s.
           if s = b2 then Some (Some [[(b1, s)]])
           else if isBasicBlockEmpty M s then map_option (map_option (List.map (\<lambda>p. (b1, s) # p))) (edges_between M n s b2)
           else Some None) (m_succs M b1))))"

definition getEdgesBetween :: "machine \<Rightarrow> mbb \<Rightarrow> mbb \<Rightarrow> mbb_edge list list option option" where
  "getEdgesBetween M b1 b2 = edges_between M (Suc (m_blocks M (fst b1))) b1 b2"

fun non_empty_succs :: "machine \<Rightarrow> nat \<Rightarrow> mbb \<Rightarrow> mbb list option" where
  "non_empty_succs M 0 b = None"
| "non_empty_succs M (Suc n) b =
     map_option concat (those (List.map (\<lambda>s. if \<not> isBasicBlockEmpty M s then Some [s] else non_empty_succs M n s) (m_succs M b)))"

definition getNonEmptySuccessorBasicBlocks :: "machine \<Rightarrow> mbb \<Rightarrow> mbb list option" where
  "getNonEmptySuccessorBasicBlocks M b = map_option remdups (non_empty_succs M (Suc (m_blocks M (fst b))) b)"

fun non_empty_succ :: "machine \<Rightarrow> nat \<Rightarrow> mbb \<Rightarrow> mbb option" where
  "non_empty_succ M 0 b = None"
| "non_empty_succ M (Suc n) b =
     (if \<not> isBasicBlockEmpty M b then None
      else case m_succs M b of
             [s] \<Rightarrow> if isBasicBlockEmpty M s then non_empty_succ M n s else Some s
           | _ \<Rightarrow> None)"

definition getNonEmptySuccessorBasicBlock :: "machine \<Rightarrow> mbb \<Rightarrow> mbb option" where
  "getNonEmptySuccessorBasicBlock M b = non_empty_succ M (Suc (m_blocks M (fst b))) b"

section \<open>Loops\<close>

text \<open>A loop of LLVM: its header, its blocks and the loops nested in it.\<close>

datatype mloop = MLoop (ml_header: mbb) (ml_blocks: "mbb list") (ml_subloops: "mloop list")

definition getIncomingEdgesOfLoop :: "machine \<Rightarrow> mloop \<Rightarrow> mbb_edge list" where
  "getIncomingEdgesOfLoop M l =
     remdups (List.map (\<lambda>s. (s, ml_header l)) (filter (\<lambda>s. s \<notin> set (ml_blocks l)) (m_preds M (ml_header l))))"

definition getExitingEdgesOfLoop :: "machine \<Rightarrow> mloop \<Rightarrow> mbb_edge list" where
  "getExitingEdgesOfLoop M l =
     remdups (concat (List.map (\<lambda>b. List.map (Pair b) (filter (\<lambda>d. d \<notin> set (ml_blocks l)) (m_succs M b))) (ml_blocks l)))"

definition getBackEdgesOfLoop :: "machine \<Rightarrow> mloop \<Rightarrow> mbb_edge list" where
  "getBackEdgesOfLoop M l =
     remdups (List.map (\<lambda>s. (s, ml_header l)) (filter (\<lambda>s. s \<in> set (ml_blocks l)) (m_preds M (ml_header l))))"

end
