(* ===== verification/TA_Call_Graph.thy ===== *)
theory TA_Call_Graph
  imports TA_Program TA_Ordered_Map "HOL-Library.List_Lexorder" "HOL-Library.Char_ord"
begin

text \<open>
  The functions of the program by their names (\<open>lib/LLVMPasses/MachineFunctionCollector.cpp\<close>) and the call
  graph (\<open>lib/AnalysisFramework/CallGraph.cpp\<close>): which functions a call may enter, from where a function may
  be called, and the questions the analyses ask about it.  A map without an entry for a key is a
  function with the value \<open>[]\<close>, which is what the accessors return then.
\<close>

section \<open>Functions by name\<close>

type_synonym collector = "(string, mfunc) omap"

definition mc_run :: "machine \<Rightarrow> mfunc \<Rightarrow> collector \<Rightarrow> collector option" where
  "mc_run M f c = (if map_of c (m_name M f) \<noteq> None then None else Some (omap_insert (m_name M f) f c))"

definition getAllMachineFunctions :: "collector \<Rightarrow> mfunc list" where
  "getAllMachineFunctions c = List.map snd c"

definition getFunctionByName :: "collector \<Rightarrow> string \<Rightarrow> mfunc option" where
  "getFunctionByName c n = map_of c n"

definition hasFunctionByName :: "collector \<Rightarrow> string \<Rightarrow> bool" where
  "hasFunctionByName c n \<longleftrightarrow> map_of c n \<noteq> None"

section \<open>The call graph\<close>

record call_graph =
  potentialCallees :: "minstr \<Rightarrow> mfunc list"
  potentialCallSites :: "mfunc \<Rightarrow> minstr list"
  callsitesPerMBB :: "mbb \<Rightarrow> minstr list"
  potentialExtCallSites :: "(string, minstr list) omap"
  extFunc2addr :: "string \<rightharpoonup> 32 word"
  extFunc2bound :: "string \<rightharpoonup> 32 word"

definition cg_empty :: call_graph where
  "cg_empty = \<lparr>potentialCallees = (\<lambda>_. []), potentialCallSites = (\<lambda>_. []), callsitesPerMBB = (\<lambda>_. []),
     potentialExtCallSites = [], extFunc2addr = (\<lambda>_. None), extFunc2bound = (\<lambda>_. None)\<rparr>"

definition getCalleeNameFromOperand :: "operand \<Rightarrow> string option" where
  "getCalleeNameFromOperand op = (case op of OpGlobal n \<Rightarrow> Some n | OpSymbol n \<Rightarrow> Some n | _ \<Rightarrow> None)"

text \<open>A call instruction: the same is done for a global and for a symbol; other targets are only warned about.\<close>

definition cg_add_call :: "machine \<Rightarrow> collector \<Rightarrow> minstr \<Rightarrow> call_graph \<Rightarrow> call_graph" where
  "cg_add_call M c i g =
     (if \<not> id_call (m_desc M i) then g
      else
        let b = mi_parent i; g1 = g\<lparr>callsitesPerMBB := (callsitesPerMBB g)(b := callsitesPerMBB g b @ [i])\<rparr> in
        case Option.bind (get_operand M i 0) getCalleeNameFromOperand of
          None \<Rightarrow> g1
        | Some n \<Rightarrow>
            (case getFunctionByName c n of
               Some f \<Rightarrow> g1\<lparr>potentialCallSites := (potentialCallSites g1)(f := potentialCallSites g1 f @ [i]),
                            potentialCallees := (potentialCallees g1)(i := potentialCallees g1 i @ [f])\<rparr>
             | None \<Rightarrow> g1\<lparr>potentialExtCallSites :=
                            omap_set n ((case map_of (potentialExtCallSites g1) n of None \<Rightarrow> [] | Some l \<Rightarrow> l) @ [i])
                              (potentialExtCallSites g1)\<rparr>))"

definition all_instrs :: "machine \<Rightarrow> mfunc \<Rightarrow> minstr list" where
  "all_instrs M f = concat (List.map (instrs_of M) (blocks_of M f))"

definition recomputeCallGraph :: "machine \<Rightarrow> collector \<Rightarrow> call_graph \<Rightarrow> call_graph" where
  "recomputeCallGraph M c g = fold (cg_add_call M c) (concat (List.map (all_instrs M) (getAllMachineFunctions c))) g"

text \<open>The annotations of external functions, as the lines of the file: name, start address and bound.\<close>

definition parseAnnotationsExternalFunctions :: "(string \<times> 32 word \<times> 32 word) list \<Rightarrow> call_graph \<Rightarrow> call_graph" where
  "parseAnnotationsExternalFunctions ls g =
     fold (\<lambda>(n, a, b) g. g\<lparr>extFunc2addr := (if extFunc2addr g n = None then (extFunc2addr g)(n \<mapsto> a) else extFunc2addr g),
                             extFunc2bound := (if extFunc2bound g n = None then (extFunc2bound g)(n \<mapsto> b) else extFunc2bound g)\<rparr>) ls g"

definition callsExternal :: "machine \<Rightarrow> collector \<Rightarrow> minstr \<Rightarrow> bool option" where
  "callsExternal M c i =
     (if \<not> id_call (m_desc M i) then None
      else map_option (\<lambda>n. \<not> hasFunctionByName c n) (Option.bind (get_operand M i 0) getCalleeNameFromOperand))"

definition getExternalCalleeName :: "machine \<Rightarrow> collector \<Rightarrow> minstr \<Rightarrow> string option" where
  "getExternalCalleeName M c i =
     (if callsExternal M c i \<noteq> Some True then None else Option.bind (get_operand M i 0) getCalleeNameFromOperand)"

text \<open>A name without an annotation aborts.\<close>

definition getExtFuncStartAddress :: "call_graph \<Rightarrow> string \<Rightarrow> 32 word option" where
  "getExtFuncStartAddress g n = extFunc2addr g n"

definition getExtFuncBound :: "call_graph \<Rightarrow> string \<Rightarrow> 32 word option" where
  "getExtFuncBound g n = extFunc2bound g n"

definition getExtFuncCallSites :: "call_graph \<Rightarrow> string \<Rightarrow> minstr list" where
  "getExtFuncCallSites g n = (case map_of (potentialExtCallSites g) n of Some l \<Rightarrow> l | None \<Rightarrow> [])"

definition getAllExternalFunctions :: "call_graph \<Rightarrow> string list" where
  "getAllExternalFunctions g = keys (potentialExtCallSites g)"

section \<open>Searches\<close>

text \<open>
  The sets of functions to visit are ordered by address in the code; here the first of a list is
  taken.  A search that does not end is \<open>None\<close>.
\<close>

definition callees_in :: "machine \<Rightarrow> call_graph \<Rightarrow> mfunc \<Rightarrow> mfunc list" where
  "callees_in M g f = concat (List.map (\<lambda>b. concat (List.map (potentialCallees g) (callsitesPerMBB g b))) (blocks_of M f))"

definition set_insert_all :: "'a list \<Rightarrow> 'a list \<Rightarrow> 'a list" where
  "set_insert_all xs ys = fold (\<lambda>x ys. if x \<in> set ys then ys else ys @ [x]) xs ys"

partial_function (option) reach_search :: "machine \<Rightarrow> call_graph \<Rightarrow> mfunc list \<Rightarrow> mfunc list \<Rightarrow> mfunc list option" where
  "reach_search M g work visited =
     (case work of [] \<Rightarrow> Some visited
      | f # w \<Rightarrow>
          reach_search M g (set_insert_all (filter (\<lambda>c. c \<notin> insert f (set visited)) (callees_in M g f)) w) (f # visited))"

definition reachableFromEntryPoint :: "machine \<Rightarrow> call_graph \<Rightarrow> mfunc \<Rightarrow> mfunc \<Rightarrow> bool option" where
  "reachableFromEntryPoint M g entry f = map_option (\<lambda>v. f \<in> set v) (reach_search M g [entry] [])"

text \<open>
  \<open>callsExternal\<close> of a function.  The inner option is \<open>None\<close> when the loops return \<open>true\<close>.
\<close>

fun scan_calls ::
  "machine \<Rightarrow> collector \<Rightarrow> call_graph \<Rightarrow> mfunc list \<Rightarrow> minstr list \<Rightarrow> mfunc list \<Rightarrow> mfunc list option option" where
  "scan_calls M c g visited [] toVisit = Some (Some toVisit)"
| "scan_calls M c g visited (i # is) toVisit =
     (if \<not> id_call (m_desc M i) then scan_calls M c g visited is toVisit
      else case callsExternal M c i of None \<Rightarrow> None
           | Some True \<Rightarrow> Some None
           | Some False \<Rightarrow>
               scan_calls M c g visited is (set_insert_all (filter (\<lambda>f. f \<notin> set visited) (potentialCallees g i)) toVisit))"

partial_function (option) external_search ::
  "machine \<Rightarrow> collector \<Rightarrow> call_graph \<Rightarrow> mfunc list \<Rightarrow> mfunc list \<Rightarrow> bool option" where
  "external_search M c g toVisit visited =
     (case toVisit of [] \<Rightarrow> Some False
      | f # w \<Rightarrow>
          (case scan_calls M c g (f # visited) (all_instrs M f) w of
             None \<Rightarrow> None
           | Some None \<Rightarrow> Some True
           | Some (Some w') \<Rightarrow> external_search M c g w' (f # visited)))"

definition callsExternalFunction :: "machine \<Rightarrow> collector \<Rightarrow> call_graph \<Rightarrow> mfunc \<Rightarrow> bool option" where
  "callsExternalFunction M c g f = external_search M c g [f] []"

fun calls_nested :: "machine \<Rightarrow> call_graph \<Rightarrow> nat \<Rightarrow> minstr \<Rightarrow> bool" where
  "calls_nested M g 0 i = True"
| "calls_nested M g (Suc d) i =
     (\<exists>f \<in> set (potentialCallees g i). \<exists>j \<in> set (all_instrs M f). id_call (m_desc M j) \<and> (d = 0 \<or> calls_nested M g d j))"

definition callsNestedFunctions :: "machine \<Rightarrow> call_graph \<Rightarrow> minstr \<Rightarrow> int \<Rightarrow> bool option" where
  "callsNestedFunctions M g i d =
     (if \<not> id_call (m_desc M i) then None else if d < 0 then Some False else Some (calls_nested M g (nat d) i))"

text \<open>
  \<open>isFunctionPotentiallyReachableFrom\<close> (\<open>lib/Util/Util.cpp\<close>).  The search looks at \<open>getCallSites\<close> of a
  reached function, the sites it is called from.
\<close>

definition direct_callees :: "call_graph \<Rightarrow> mbb list \<Rightarrow> mfunc list" where
  "direct_callees g bs = concat (List.map (\<lambda>b. concat (List.map (potentialCallees g) (callsitesPerMBB g b))) bs)"

definition site_callees :: "call_graph \<Rightarrow> mfunc \<Rightarrow> mfunc list" where
  "site_callees g f = concat (List.map (potentialCallees g) (potentialCallSites g f))"

partial_function (option) indirect_search :: "call_graph \<Rightarrow> mfunc \<Rightarrow> mfunc list \<Rightarrow> mfunc list \<Rightarrow> bool option" where
  "indirect_search g target work reached =
     (case work of [] \<Rightarrow> Some False
      | f # w \<Rightarrow>
          if target \<in> set (site_callees g f) then Some True
          else let new = remdups (filter (\<lambda>c. c \<notin> set reached) (site_callees g f))
               in indirect_search g target (w @ new) (new @ reached))"

definition isFunctionPotentiallyReachableFrom :: "call_graph \<Rightarrow> mfunc \<Rightarrow> mbb list \<Rightarrow> bool option" where
  "isFunctionPotentiallyReachableFrom g target bs =
     (let ds = direct_callees g bs in
      if target \<in> set ds then Some True else indirect_search g target (remdups ds) (remdups ds))"

text \<open>
  \<open>getNonEmptyPredecessorBasicBlocks\<close> (\<open>lib/Util/Util.cpp\<close>): an empty block without predecessors must be the first
  one of its function, and the blocks that call the function are in front of it.
\<close>

fun non_empty_preds :: "machine \<Rightarrow> call_graph \<Rightarrow> nat \<Rightarrow> mbb \<Rightarrow> mbb list option" where
  "non_empty_preds M g 0 b = None"
| "non_empty_preds M g (Suc n) b =
     map_option concat (those (List.map (\<lambda>p.
       if \<not> isBasicBlockEmpty M p then Some [p]
       else if m_preds M p = [] then
         (if snd p \<noteq> 0 \<or> (\<exists>i \<in> set (potentialCallSites g (fst p)). isBasicBlockEmpty M (mi_parent i)) then None
          else Some (List.map mi_parent (potentialCallSites g (fst p))))
       else non_empty_preds M g n p) (m_preds M b)))"

definition getNonEmptyPredecessorBasicBlocks :: "machine \<Rightarrow> call_graph \<Rightarrow> mbb \<Rightarrow> mbb list option" where
  "getNonEmptyPredecessorBasicBlocks M g b = map_option remdups (non_empty_preds M g (Suc (m_blocks M (fst b))) b)"

end
