(* ===== verification/TA_Static_Address.thy ===== *)
theory TA_Static_Address
  imports TA_Call_Graph
begin

text \<open>
  Where the program lies in memory (\<open>lib/LLVMPasses/StaticAddressProvider.cpp\<close>): the addresses of instructions,
  constant pools and global variables, and which instruction is at an address.  A global variable
  is its name, which the map of the code compares.  \<open>None\<close> is a failed assertion or a missing key.
\<close>

section \<open>State\<close>

record placement =
  sp_code :: "32 word"
  sp_rodata :: "32 word"
  sp_ins2addr :: "minstr \<rightharpoonup> 32 word"
  sp_addr2ins :: "32 word \<rightharpoonup> minstr"
  sp_cpe2addr :: "mfunc \<times> 32 word \<rightharpoonup> 32 word"
  sp_glvar2addr :: "(string, 32 word) omap"
  sp_addr2values :: "32 word \<rightharpoonup> 32 word"
  sp_addr2symbol :: "32 word \<rightharpoonup> string"

definition sp_init :: "32 word \<Rightarrow> placement" where
  "sp_init codeStart = \<lparr>sp_code = codeStart, sp_rodata = 0, sp_ins2addr = (\<lambda>_. None), sp_addr2ins = (\<lambda>_. None),
     sp_cpe2addr = (\<lambda>_. None), sp_glvar2addr = [], sp_addr2values = (\<lambda>_. None), sp_addr2symbol = (\<lambda>_. None)\<rparr>"

section \<open>Global variables\<close>

text \<open>The initial value of a global variable: another one, a constant cast to a pointer, or anything else.\<close>

datatype global_init = InitNone | InitGlobal string | InitIntToPtr int | InitOther

record global_var =
  gl_name :: string
  gl_align :: "32 word"
  gl_size :: nat
  gl_init :: global_init

definition align_section :: "32 word \<Rightarrow> 32 word \<Rightarrow> 32 word" where
  "align_section sect alignment =
     (if sect AND (alignment - 1) \<noteq> 0 then (sect AND NOT (alignment - 1)) + alignment else sect)"

fun place_globals :: "global_var list \<Rightarrow> 32 word \<Rightarrow> (string, 32 word) omap \<Rightarrow> ((string, 32 word) omap \<times> 32 word) option" where
  "place_globals [] sect m = Some (m, sect)"
| "place_globals (g # gs) sect m =
     (if gl_align g AND (gl_align g - 1) \<noteq> 0 then None
      else let a = align_section sect (gl_align g)
           in place_globals gs (a + of_nat (gl_size g)) (omap_insert (gl_name g) a m))"

text \<open>The second loop goes over the map and looks at the initial values.\<close>

definition init_value :: "(string \<Rightarrow> global_init) \<Rightarrow> string \<times> 32 word \<Rightarrow> placement \<Rightarrow> placement option" where
  "init_value initOf e s =
     (case initOf (fst e) of
        InitGlobal g \<Rightarrow>
          (case map_of (sp_glvar2addr s) g of None \<Rightarrow> None
           | Some a \<Rightarrow> Some (s\<lparr>sp_addr2values := keep_insert (snd e) a (sp_addr2values s),
                              sp_addr2symbol := keep_insert (snd e) g (sp_addr2symbol s)\<rparr>))
      | InitIntToPtr v \<Rightarrow> Some (s\<lparr>sp_addr2values := keep_insert (snd e) (of_int v) (sp_addr2values s)\<rparr>)
      | _ \<Rightarrow> Some s)"

definition init_of :: "global_var list \<Rightarrow> string \<Rightarrow> global_init" where
  "init_of gs n = (case List.find (\<lambda>g. gl_name g = n) gs of Some g \<Rightarrow> gl_init g | None \<Rightarrow> InitNone)"

definition sp_doInitialization :: "global_var list \<Rightarrow> placement \<Rightarrow> placement option" where
  "sp_doInitialization gs s =
     (case place_globals gs 0x00d0000 (sp_glvar2addr s) of None \<Rightarrow> None
      | Some (m, sect) \<Rightarrow>
          map_option (\<lambda>s. s\<lparr>sp_rodata := sect\<rparr>) (fold_option (init_value (init_of gs)) m (s\<lparr>sp_glvar2addr := m\<rparr>)))"

section \<open>Instructions\<close>

definition riscv_allocated :: "string list" where
  "riscv_allocated =
    [
    ''LUI'', ''JAL'', ''JALR'', ''PseudoRET'', ''PseudoCALL'', ''PseudoBR'', ''BEQ'', ''BNE'', ''BLT'', ''BGE'', ''BLTU'',
    ''BGEU'', ''LB'', ''LH'', ''LW'', ''LBU'', ''LHU'', ''SB'', ''SH'', ''SW'', ''ADDI'', ''SLTI'', ''SLTIU'', ''XORI'', ''ORI'',
    ''ANDI'', ''SLLI'', ''SRLI'', ''SRAI'', ''ADD'', ''SUB'', ''SLL'', ''SLT'', ''SLTU'', ''XOR'', ''SRL'', ''SRA'', ''OR'',
    ''AND'', ''MUL'', ''MULH'', ''MULHSU'', ''MULHU'', ''DIV'', ''DIVU'', ''REM'', ''REMU'', ''FLW'', ''FSW'', ''FLD'', ''FSD'',
    ''FMADD_S'', ''FMADD_D'', ''FMSUB_S'', ''FMSUB_D'', ''FNMSUB_S'', ''FNMSUB_D'', ''FNMADD_S'', ''FNMADD_D'', ''FADD_S'',
    ''FADD_D'', ''FSUB_S'', ''FSUB_D'', ''FMUL_S'', ''FMUL_D'', ''FDIV_S'', ''FDIV_D'', ''FSQRT_S'', ''FSQRT_D'', ''FSGNJ_S'',
    ''FSGNJ_D'', ''FSGNJN_S'', ''FSGNJN_D'', ''FSGNJX_S'', ''FSGNJX_D'', ''FLE_S'', ''FLE_D'', ''FLT_S'', ''FLT_D'', ''FEQ_S'',
    ''FEQ_D'', ''FMIN_S'', ''FMIN_D'', ''FMAX_S'', ''FMAX_D'', ''FMV_W_X'', ''FMV_X_W'', ''FCVT_S_W'', ''FCVT_S_WU'',
    ''FCVT_W_S'', ''FCVT_WU_S'', ''FCVT_S_D'', ''FCVT_D_S'', ''FCVT_W_D'', ''FCVT_WU_D'', ''FCVT_D_W'', ''FCVT_D_WU'']"

definition arm_allocated :: "string list" where
  "arm_allocated = [''B'', ''MULv5'', ''SMULLv5'', ''UMULLv5'', ''UMLALv5'', ''MLAv5'', ''LEApcrelJT'', ''LEApcrel'',
     ''BR_JTr'', ''BR_JTm_rs'', ''BR_JTm_i12'', ''LDMIA_RET'']"

definition no_effect :: "string list" where
  "no_effect = [''IMPLICIT_DEF'', ''KILL'', ''DBG_VALUE'', ''CFI_INSTRUCTION'']"

text \<open>
  What a pseudo instruction needs: the state, whether it gets an address, its size, and the words to
  skip after the block.
\<close>

definition arm_pseudo :: "machine \<Rightarrow> minstr \<Rightarrow> placement \<Rightarrow> (placement \<times> bool \<times> 32 word \<times> 32 word) option" where
  "arm_pseudo M i s =
     (let d = m_desc M i; oc = id_opcode d; f = mi_function i in
      if oc = ''CONSTPOOL_ENTRY'' then
        (case (get_operand M i 0, get_operand M i 1, get_operand M i 2) of
           (Some (OpImm lab), Some (OpCPI cpi), Some (OpImm bytes)) \<Rightarrow>
             (let sz = (of_int bytes :: 32 word); l = (of_int lab :: 32 word); pool = m_const_pool M f in
              if \<not> cpi < length pool \<or> sp_cpe2addr s (f, l) \<noteq> None \<or> unat sz mod 4 \<noteq> 0 then None
              else
                (case cp_global (pool ! cpi) of
                   None \<Rightarrow> Some (s\<lparr>sp_cpe2addr := (sp_cpe2addr s)((f, l) \<mapsto> sp_code s)\<rparr>, True, sz, 0)
                 | Some g \<Rightarrow>
                     (case map_of (sp_glvar2addr s) g of None \<Rightarrow> None
                      | Some a \<Rightarrow>
                          Some (s\<lparr>sp_addr2values := keep_insert (sp_code s) a (sp_addr2values s),
                                  sp_addr2symbol := keep_insert (sp_code s) g (sp_addr2symbol s),
                                  sp_cpe2addr := (sp_cpe2addr s)((f, l) \<mapsto> sp_code s)\<rparr>, True, sz, 0))))
         | _ \<Rightarrow> None)
      else if oc \<in> set no_effect then (if id_transient d then Some (s, False, 4, 0) else None)
      else if oc \<in> set arm_allocated then Some (s, True, 4, 0)
      else if oc = ''JUMPTABLE_ADDRS'' then
        (case (get_operand M i 1, get_operand M i 2) of
           (Some (OpJTI jt), Some (OpImm bytes)) \<Rightarrow>
             (case m_jump_tables M f jt of None \<Rightarrow> None
              | Some targets \<Rightarrow>
                  if targets = [] \<or> bytes \<noteq> 4 * int (length targets) then None
                  else Some (s, False, 4, of_nat (length targets)))
         | _ \<Rightarrow> None)
      else None)"

definition riscv_pseudo :: "machine \<Rightarrow> minstr \<Rightarrow> placement \<Rightarrow> (placement \<times> bool \<times> 32 word \<times> 32 word) option" where
  "riscv_pseudo M i s =
     (let d = m_desc M i in
      if id_opcode d \<in> set no_effect then (if id_transient d then Some (s, False, 4, 0) else None)
      else if id_opcode d \<in> set riscv_allocated then Some (s, True, 4, 0)
      else None)"

definition assign_address :: "machine \<Rightarrow> minstr \<Rightarrow> 32 word \<Rightarrow> placement \<Rightarrow> placement option" where
  "assign_address M i bytes s =
     (if id_transient (m_desc M i) \<or> sp_ins2addr s i \<noteq> None \<or> sp_addr2ins s (sp_code s) \<noteq> None then None
      else Some (s\<lparr>sp_ins2addr := (sp_ins2addr s)(i \<mapsto> sp_code s), sp_addr2ins := (sp_addr2ins s)(sp_code s \<mapsto> i),
                   sp_code := sp_code s + bytes\<rparr>))"

definition place_instr :: "machine \<Rightarrow> minstr \<Rightarrow> placement \<times> 32 word \<Rightarrow> (placement \<times> 32 word) option" where
  "place_instr M i st =
     (case st of (s, skip) \<Rightarrow>
        if id_bundle (m_desc M i) then None
        else
          (case (if \<not> id_pseudo (m_desc M i) then Some (s, True, 4, 0)
                 else case m_arch M of ArchARM \<Rightarrow> arm_pseudo M i s | ArchRISCV32 \<Rightarrow> riscv_pseudo M i s) of
             None \<Rightarrow> None
           | Some (s', assign, bytes, words) \<Rightarrow>
               map_option (\<lambda>s''. (s'', skip + words)) (if assign then assign_address M i bytes s' else Some s')))"

definition sp_runOnMachineBasicBlock :: "machine \<Rightarrow> mbb \<Rightarrow> placement \<Rightarrow> placement option" where
  "sp_runOnMachineBasicBlock M b s =
     map_option (\<lambda>(s', skip). s'\<lparr>sp_code := sp_code s' + skip * 4\<rparr>) (fold_option (place_instr M) (instrs_of M b) (s, 0))"

text \<open>The constants of RISC-V: the address moves on by an eighth of the size in bytes.\<close>

definition place_constant :: "mfunc \<Rightarrow> nat \<times> pool_entry \<Rightarrow> placement \<Rightarrow> placement option" where
  "place_constant f e s =
     (if cp_size (snd e) mod 8 \<noteq> 0 then None
      else Some (s\<lparr>sp_cpe2addr := keep_insert (f, of_nat (fst e)) (sp_rodata s) (sp_cpe2addr s),
                   sp_rodata := sp_rodata s + of_nat (cp_size (snd e) div 8)\<rparr>))"

definition sp_runOnMachineFunction :: "machine \<Rightarrow> mfunc \<Rightarrow> placement \<Rightarrow> placement option" where
  "sp_runOnMachineFunction M f s =
     Option.bind (if m_arch M = ArchRISCV32 then fold_option (place_constant f) (List.enumerate 0 (m_const_pool M f)) s else Some s)
       (fold_option (sp_runOnMachineBasicBlock M) (blocks_of M f))"

section \<open>Queries\<close>

definition hasMachineInstrByAddr :: "placement \<Rightarrow> 32 word \<Rightarrow> bool" where
  "hasMachineInstrByAddr s a \<longleftrightarrow> sp_addr2ins s a \<noteq> None"

definition getMachineInstrByAddr :: "placement \<Rightarrow> 32 word \<Rightarrow> minstr option" where
  "getMachineInstrByAddr s a = sp_addr2ins s a"

definition getAddr :: "placement \<Rightarrow> minstr \<Rightarrow> 32 word option" where
  "getAddr s i = sp_ins2addr s i"

definition getConstPoolEntryAddr :: "placement \<Rightarrow> mfunc \<Rightarrow> 32 word \<Rightarrow> 32 word option" where
  "getConstPoolEntryAddr s f idx = sp_cpe2addr s (f, idx)"

definition hasValueAtAddress :: "placement \<Rightarrow> 32 word \<Rightarrow> bool" where
  "hasValueAtAddress s a \<longleftrightarrow> sp_addr2values s a \<noteq> None"

definition getValueAtAddress :: "placement \<Rightarrow> 32 word \<Rightarrow> 32 word option" where
  "getValueAtAddress s a = sp_addr2values s a"

definition getSymbolAtAddress :: "placement \<Rightarrow> 32 word \<Rightarrow> string option" where
  "getSymbolAtAddress s a = sp_addr2symbol s a"

definition hasGlobalVarAddress :: "placement \<Rightarrow> string \<Rightarrow> bool" where
  "hasGlobalVarAddress s g \<longleftrightarrow> map_of (sp_glvar2addr s) g \<noteq> None"

definition getGlobalVarAddress :: "placement \<Rightarrow> string \<Rightarrow> 32 word option" where
  "getGlobalVarAddress s g = map_of (sp_glvar2addr s) g"

text \<open>The size of an array, rounded up to whole words.\<close>

definition getArraySize :: "nat \<Rightarrow> 32 word" where
  "getArraySize allocSize =
     (let bytes = (of_nat allocSize :: 32 word) in if unat bytes mod 4 \<noteq> 0 then (bytes AND NOT 3) + 4 else bytes)"

definition getGlobalVariables :: "placement \<Rightarrow> string list" where
  "getGlobalVariables s = keys (sp_glvar2addr s)"

definition goesExternal :: "placement \<Rightarrow> 32 word \<Rightarrow> bool" where
  "goesExternal s a = (if hasMachineInstrByAddr s a then False else True)"

end
