(* ===== verification/TA_Static_Address_Properties.thy ===== *)
theory TA_Static_Address_Properties
  imports TA_Static_Address TA_Address
begin

text \<open>
  Properties of the placement of a program: addresses and instructions determine each other, code of RISC-V
  lies word after word, global variables are aligned and do not overlap as long as their alignments
  are given; and two cases where data overlaps.
\<close>

section \<open>Addresses of instructions\<close>

text \<open>What the placement of an instruction does to the maps.\<close>

definition same_code :: "placement \<Rightarrow> placement \<Rightarrow> bool" where
  "same_code s s' \<longleftrightarrow> sp_ins2addr s' = sp_ins2addr s \<and> sp_addr2ins s' = sp_addr2ins s \<and> sp_code s' = sp_code s"

lemma same_code_refl [simp]: "same_code s s"
  by (simp add: same_code_def)

lemma arm_pseudo_cases:
  assumes "arm_pseudo M i s = Some (s', assign, bytes, words)"
  shows "same_code s s' \<and> (assign \<or> id_transient (m_desc M i) \<or> id_opcode (m_desc M i) = ''JUMPTABLE_ADDRS'')"
proof -
  consider (pool) "id_opcode (m_desc M i) = ''CONSTPOOL_ENTRY''" | (other) "id_opcode (m_desc M i) \<noteq> ''CONSTPOOL_ENTRY''" by blast
  then show ?thesis
  proof cases
    case pool
    then show ?thesis using assms by (auto simp: arm_pseudo_def same_code_def Let_def split: option.splits operand.splits if_splits)
  next
    case other
    then show ?thesis using assms by (auto simp: arm_pseudo_def Let_def split: option.splits operand.splits if_splits)
  qed
qed

lemma riscv_pseudo_cases:
  "riscv_pseudo M i s = Some (s', assign, bytes, words) \<Longrightarrow> s' = s \<and> (assign \<or> id_transient (m_desc M i)) \<and> bytes = 4 \<and> words = 0"
  by (auto simp: riscv_pseudo_def Let_def split: if_splits)

lemma place_instrE:
  assumes "place_instr M i (s, k) = Some (s', k')"
  obtains (Placed) s1 bytes where "same_code s s1" "assign_address M i bytes s1 = Some s'"
    "m_arch M = ArchRISCV32 \<Longrightarrow> bytes = 4 \<and> k' = k"
  | (Skipped) "same_code s s'" "id_transient (m_desc M i) \<or> id_opcode (m_desc M i) = ''JUMPTABLE_ADDRS''"
    "m_arch M = ArchRISCV32 \<Longrightarrow> id_transient (m_desc M i) \<and> k' = k"
proof -
  let ?r = "if \<not> id_pseudo (m_desc M i) then Some (s, True, 4, 0)
      else case m_arch M of ArchARM \<Rightarrow> arm_pseudo M i s | ArchRISCV32 \<Rightarrow> riscv_pseudo M i s"
  obtain s1 assign bytes words where r: "?r = Some (s1, assign, bytes, words)"
      "(if assign then assign_address M i bytes s1 else Some s1) = Some s'" "k' = k + words"
    using assms by (auto simp: place_instr_def split: option.splits if_splits prod.splits)
  have c: "same_code s s1 \<and> (assign \<or> id_transient (m_desc M i) \<or> id_opcode (m_desc M i) = ''JUMPTABLE_ADDRS'')"
    using r(1) arm_pseudo_cases [of M i s s1 assign bytes words] riscv_pseudo_cases [of M i s s1 assign bytes words]
    by (cases "m_arch M") (auto split: if_splits)
  have v: "m_arch M = ArchRISCV32 \<Longrightarrow> bytes = 4 \<and> k' = k \<and> (assign \<or> id_transient (m_desc M i))"
    using r(1,3) riscv_pseudo_cases [of M i s s1 assign bytes words] by (auto split: if_splits)
  show thesis
  proof (cases assign)
    case True
    show thesis by (rule Placed [of s1 bytes]) (use True r c v in auto)
  next
    case False
    show thesis by (rule Skipped) (use False r c v in auto)
  qed
qed

definition inverse_maps :: "placement \<Rightarrow> bool" where
  "inverse_maps s \<longleftrightarrow> (\<forall>i a. sp_ins2addr s i = Some a \<longleftrightarrow> sp_addr2ins s a = Some i)"

lemma inverse_maps_same: "same_code s s' \<Longrightarrow> inverse_maps s' \<longleftrightarrow> inverse_maps s"
  by (simp add: same_code_def inverse_maps_def)

lemma assign_inverse: "assign_address M i bytes s = Some s' \<Longrightarrow> inverse_maps s \<Longrightarrow> inverse_maps s'"
  by (auto simp: assign_address_def inverse_maps_def split: if_splits) (metis option.distinct(1))+

lemma place_instr_inverse: "place_instr M i st = Some st' \<Longrightarrow> inverse_maps (fst st) \<Longrightarrow> inverse_maps (fst st')"
  by (cases st; cases st') (auto elim!: place_instrE simp: inverse_maps_same dest: assign_inverse)

lemma block_inverse: "sp_runOnMachineBasicBlock M b s = Some s' \<Longrightarrow> inverse_maps s \<Longrightarrow> inverse_maps s'"
proof -
  assume a: "sp_runOnMachineBasicBlock M b s = Some s'" "inverse_maps s"
  obtain s1 k where f: "fold_option (place_instr M) (instrs_of M b) (s, 0) = Some (s1, k)" "s' = s1\<lparr>sp_code := sp_code s1 + k * 4\<rparr>"
    using a(1) by (auto simp: sp_runOnMachineBasicBlock_def)
  have "inverse_maps (fst (s1, k))"
    by (rule fold_option_invariant [OF f(1), where P = "\<lambda>st. inverse_maps (fst st)"]) (simp add: a(2), rule place_instr_inverse)
  then show "inverse_maps s'" using f(2) by (simp add: inverse_maps_def)
qed

lemma constants_same_code: "fold_option (place_constant f) es s = Some s' \<Longrightarrow> same_code s s'"
  by (rule fold_option_invariant [where P = "same_code s"]) (auto simp: place_constant_def same_code_def split: if_splits)

lemma function_blocks:
  assumes "sp_runOnMachineFunction M f s = Some s'"
  obtains s0 where "same_code s s0" "fold_option (sp_runOnMachineBasicBlock M) (blocks_of M f) s0 = Some s'"
proof (cases "m_arch M = ArchRISCV32")
  case True
  then obtain s0 where "fold_option (place_constant f) (List.enumerate 0 (m_const_pool M f)) s = Some s0"
      "fold_option (sp_runOnMachineBasicBlock M) (blocks_of M f) s0 = Some s'"
    using assms by (auto simp: sp_runOnMachineFunction_def bind_eq_Some_conv)
  then show thesis using that constants_same_code by blast
next
  case False
  then show thesis using assms that [of s] by (simp add: sp_runOnMachineFunction_def)
qed

lemma function_inverse: "sp_runOnMachineFunction M f s = Some s' \<Longrightarrow> inverse_maps s \<Longrightarrow> inverse_maps s'"
proof -
  assume a: "sp_runOnMachineFunction M f s = Some s'" "inverse_maps s"
  obtain s0 where s0: "same_code s s0" "fold_option (sp_runOnMachineBasicBlock M) (blocks_of M f) s0 = Some s'"
    by (rule function_blocks [OF a(1)])
  show "inverse_maps s'"
    by (rule fold_option_invariant [OF s0(2)]) (use a(2) s0(1) block_inverse inverse_maps_same in auto)
qed

text \<open>An address that was given stays.\<close>

definition has_address :: "minstr \<Rightarrow> placement \<Rightarrow> bool" where
  "has_address i s \<longleftrightarrow> sp_ins2addr s i \<noteq> None"

lemma place_instr_keeps: "place_instr M j st = Some st' \<Longrightarrow> has_address i (fst st) \<Longrightarrow> has_address i (fst st')"
  by (cases st; cases st') (auto elim!: place_instrE simp: has_address_def same_code_def assign_address_def split: if_splits)

lemma place_instr_gives:
  "place_instr M i st = Some st' \<Longrightarrow> \<not> id_transient (m_desc M i) \<Longrightarrow> id_opcode (m_desc M i) \<noteq> ''JUMPTABLE_ADDRS'' \<Longrightarrow>
     has_address i (fst st')"
  by (cases st; cases st') (auto elim!: place_instrE simp: has_address_def assign_address_def split: if_splits)

lemma block_keeps: "sp_runOnMachineBasicBlock M b s = Some s' \<Longrightarrow> has_address i s \<Longrightarrow> has_address i s'"
proof -
  assume a: "sp_runOnMachineBasicBlock M b s = Some s'" "has_address i s"
  obtain s1 k where f: "fold_option (place_instr M) (instrs_of M b) (s, 0) = Some (s1, k)" "s' = s1\<lparr>sp_code := sp_code s1 + k * 4\<rparr>"
    using a(1) by (auto simp: sp_runOnMachineBasicBlock_def)
  have "has_address i (fst (s1, k))"
    by (rule fold_option_invariant [OF f(1), where P = "\<lambda>st. has_address i (fst st)"]) (simp add: a(2), rule place_instr_keeps)
  then show "has_address i s'" using f(2) by (simp add: has_address_def)
qed

lemma block_gives:
  assumes "sp_runOnMachineBasicBlock M b s = Some s'" "i \<in> set (instrs_of M b)"
    and "\<not> id_transient (m_desc M i)" "id_opcode (m_desc M i) \<noteq> ''JUMPTABLE_ADDRS''"
  shows "has_address i s'"
proof -
  obtain s1 k where f: "fold_option (place_instr M) (instrs_of M b) (s, 0) = Some (s1, k)" "s' = s1\<lparr>sp_code := sp_code s1 + k * 4\<rparr>"
    using assms(1) by (auto simp: sp_runOnMachineBasicBlock_def)
  have "has_address i (fst (s1, k))"
    by (rule fold_option_reaches [OF f(1) assms(2), where Q = "\<lambda>st. has_address i (fst st)"])
      (rule place_instr_gives [OF _ assms(3,4)], assumption, rule place_instr_keeps)
  then show ?thesis using f(2) by (simp add: has_address_def)
qed

lemma function_keeps: "sp_runOnMachineFunction M f s = Some s' \<Longrightarrow> has_address i s \<Longrightarrow> has_address i s'"
proof -
  assume a: "sp_runOnMachineFunction M f s = Some s'" "has_address i s"
  obtain s0 where s0: "same_code s s0" "fold_option (sp_runOnMachineBasicBlock M) (blocks_of M f) s0 = Some s'"
    by (rule function_blocks [OF a(1)])
  have "has_address i s0" using a(2) s0(1) by (simp add: has_address_def same_code_def)
  then show "has_address i s'" by (rule fold_option_invariant [OF s0(2)]) (use block_keeps in auto)
qed

lemma function_gives:
  assumes "sp_runOnMachineFunction M f s = Some s'" "i \<in> set (all_instrs M f)"
    and "\<not> id_transient (m_desc M i)" "id_opcode (m_desc M i) \<noteq> ''JUMPTABLE_ADDRS''"
  shows "has_address i s'"
proof -
  obtain s0 where s0: "same_code s s0" "fold_option (sp_runOnMachineBasicBlock M) (blocks_of M f) s0 = Some s'"
    by (rule function_blocks [OF assms(1)])
  obtain b where b: "b \<in> set (blocks_of M f)" "i \<in> set (instrs_of M b)" using assms(2) by (auto simp: all_instrs_def)
  show ?thesis by (rule fold_option_reaches [OF s0(2) b(1)]) (use block_gives [OF _ b(2) assms(3,4)] block_keeps in auto)
qed

lemma initialization_same_code:
  assumes "sp_doInitialization gs s = Some s'"
  shows "same_code s s'"
proof -
  obtain m sect t where t: "fold_option (init_value (init_of gs)) m (s\<lparr>sp_glvar2addr := m\<rparr>) = Some t" "s' = t\<lparr>sp_rodata := sect\<rparr>"
    using assms by (auto simp: sp_doInitialization_def split: option.splits)
  have "same_code s t"
    by (rule fold_option_invariant [OF t(1)]) (auto simp: same_code_def init_value_def split: global_init.splits option.splits)
  then show ?thesis using t(2) by (simp add: same_code_def)
qed

text \<open>
  C32: whenever the placement of a program succeeds, that is of its global variables and then of its
  functions, from the initial state on, addresses and instructions determine each other: looking up the address of an instruction gives the instruction, and the instruction at
  an address has that address.  Every instruction of the functions that has an effect, except the
  jump tables, has an address, and no such address is external.
\<close>

theorem instruction_addresses_roundtrip:
  assumes "sp_doInitialization gs (sp_init codeStart) = Some s0" "fold_option (sp_runOnMachineFunction M) fs s0 = Some s"
  shows "(\<forall>i a. getAddr s i = Some a \<longleftrightarrow> getMachineInstrByAddr s a = Some i) \<and>
    (\<forall>f \<in> set fs. \<forall>i \<in> set (all_instrs M f). \<not> id_transient (m_desc M i) \<and> id_opcode (m_desc M i) \<noteq> ''JUMPTABLE_ADDRS'' \<longrightarrow>
       (\<exists>a. getAddr s i = Some a \<and> getMachineInstrByAddr s a = Some i \<and> \<not> goesExternal s a))"
proof -
  have "inverse_maps s0" using initialization_same_code [OF assms(1)] by (simp add: same_code_def inverse_maps_def sp_init_def)
  then have inv: "inverse_maps s" by (rule fold_option_invariant [OF assms(2)]) (use function_inverse in auto)
  have "has_address i s" if "f \<in> set fs" "i \<in> set (all_instrs M f)" "\<not> id_transient (m_desc M i)"
      "id_opcode (m_desc M i) \<noteq> ''JUMPTABLE_ADDRS''" for f i
    by (rule fold_option_reaches [OF assms(2) that(1)]) (use function_gives [OF _ that(2-4)] function_keeps in auto)
  then have h: "\<exists>a. getAddr s i = Some a" if "f \<in> set fs" "i \<in> set (all_instrs M f)" "\<not> id_transient (m_desc M i)"
      "id_opcode (m_desc M i) \<noteq> ''JUMPTABLE_ADDRS''" for f i
    using that by (auto simp: has_address_def getAddr_def)
  have r: "getAddr s i = Some a \<longleftrightarrow> getMachineInstrByAddr s a = Some i" for i a
    using inv unfolding inverse_maps_def getAddr_def getMachineInstrByAddr_def by blast
  have e: "getMachineInstrByAddr s a = Some i \<Longrightarrow> \<not> goesExternal s a" for i a
    by (simp add: getMachineInstrByAddr_def goesExternal_def hasMachineInstrByAddr_def)
  show ?thesis using h r e by blast
qed

section \<open>Code of RISC-V\<close>

definition effective :: "machine \<Rightarrow> minstr list \<Rightarrow> minstr list" where
  "effective M = filter (\<lambda>i. \<not> id_transient (m_desc M i))"

lemma effective_Cons: "effective M (x # xs) = effective M [x] @ effective M xs"
  by (simp add: effective_def)

text \<open>The placed instructions lie word after word.\<close>

definition word_by_word :: "32 word \<Rightarrow> minstr list \<Rightarrow> placement \<Rightarrow> bool" where
  "word_by_word codeStart is s \<longleftrightarrow> sp_code s = codeStart + 4 * of_nat (length is) \<and>
     (\<forall>k < length is. sp_ins2addr s (is ! k) = Some (codeStart + 4 * of_nat k))"

lemma word_by_word_same: "same_code s s' \<Longrightarrow> word_by_word c is s' \<longleftrightarrow> word_by_word c is s"
  by (simp add: same_code_def word_by_word_def)

lemma place_instr_word:
  assumes "place_instr M i (s, k) = Some (s', k')" "m_arch M = ArchRISCV32" "word_by_word c is s"
  shows "word_by_word c (is @ effective M [i]) s' \<and> k' = k"
  using assms(1)
proof (cases rule: place_instrE)
  case (Placed s1 bytes)
  have w: "word_by_word c is s1" using Placed(1) assms(3) by (simp add: word_by_word_same)
  have e: "effective M [i] = [i]" "sp_ins2addr s1 i = None" "sp_ins2addr s' = (sp_ins2addr s1)(i \<mapsto> sp_code s1)" "sp_code s' = sp_code s1 + 4"
    using Placed(2,3) assms(2) by (auto simp: assign_address_def effective_def split: if_splits)
  have "sp_ins2addr s' ((is @ [i]) ! j) = Some (c + 4 * of_nat j)" if "j < Suc (length is)" for j
  proof (cases "j < length is")
    case True
    then have "sp_ins2addr s1 (is ! j) = Some (c + 4 * of_nat j)" using w by (simp add: word_by_word_def)
    moreover from this have "is ! j \<noteq> i" using e(2) by auto
    ultimately show ?thesis using True e(3) by (simp add: nth_append)
  next
    case False
    then have "j = length is" using that by simp
    then show ?thesis using w e(3) by (simp add: nth_append word_by_word_def)
  qed
  then have "word_by_word c (is @ [i]) s'" using w e(4) by (simp add: word_by_word_def algebra_simps)
  then show ?thesis using e(1) Placed(3) assms(2) by simp
next
  case Skipped
  then show ?thesis using assms(2,3) by (auto simp: effective_def word_by_word_same)
qed

lemma instrs_word:
  assumes "fold_option (place_instr M) xs (s, k) = Some (s', k')" "m_arch M = ArchRISCV32" "word_by_word c is s"
  shows "word_by_word c (is @ effective M xs) s' \<and> k' = k"
  using assms
proof (induction xs arbitrary: s k "is")
  case (Cons x xs)
  obtain s1 k1 where s1: "place_instr M x (s, k) = Some (s1, k1)" "fold_option (place_instr M) xs (s1, k1) = Some (s', k')"
    using Cons.prems(1) by (auto simp: bind_eq_Some_conv)
  note w = place_instr_word [OF s1(1) Cons.prems(2,3)]
  then have "fold_option (place_instr M) xs (s1, k) = Some (s', k')" using s1(2) by simp
  from Cons.IH [OF this Cons.prems(2)] w have "word_by_word c ((is @ effective M [x]) @ effective M xs) s' \<and> k' = k" by blast
  then show ?case unfolding effective_Cons [of M x xs] append_assoc .
qed (simp add: effective_def)

lemma blocks_word:
  assumes "fold_option (sp_runOnMachineBasicBlock M) bs s = Some s'" "m_arch M = ArchRISCV32" "word_by_word c is s"
  shows "word_by_word c (is @ effective M (concat (List.map (instrs_of M) bs))) s'"
  using assms
proof (induction bs arbitrary: s "is")
  case (Cons b bs)
  obtain s1 where s1: "sp_runOnMachineBasicBlock M b s = Some s1" "fold_option (sp_runOnMachineBasicBlock M) bs s1 = Some s'"
    using Cons.prems(1) by (auto simp: bind_eq_Some_conv)
  obtain s2 k where s2: "fold_option (place_instr M) (instrs_of M b) (s, 0) = Some (s2, k)" "s1 = s2\<lparr>sp_code := sp_code s2 + k * 4\<rparr>"
    using s1(1) by (auto simp: sp_runOnMachineBasicBlock_def)
  from instrs_word [OF s2(1) Cons.prems(2,3)] have "word_by_word c (is @ effective M (instrs_of M b)) s1"
    using s2(2) by (simp add: word_by_word_def)
  from Cons.IH [OF s1(2) Cons.prems(2) this] show ?case by (simp add: effective_def)
qed (simp add: effective_def)

lemma functions_word:
  assumes "fold_option (sp_runOnMachineFunction M) fs s = Some s'" "m_arch M = ArchRISCV32" "word_by_word c is s"
  shows "word_by_word c (is @ effective M (concat (List.map (all_instrs M) fs))) s'"
  using assms
proof (induction fs arbitrary: s "is")
  case (Cons f fs)
  obtain s1 where s1: "sp_runOnMachineFunction M f s = Some s1" "fold_option (sp_runOnMachineFunction M) fs s1 = Some s'"
    using Cons.prems(1) by (auto simp: bind_eq_Some_conv)
  obtain s0 where s0: "same_code s s0" "fold_option (sp_runOnMachineBasicBlock M) (blocks_of M f) s0 = Some s1"
    by (rule function_blocks [OF s1(1)])
  have "word_by_word c is s0" using s0(1) Cons.prems(3) by (simp add: word_by_word_same)
  from blocks_word [OF s0(2) Cons.prems(2) this] have "word_by_word c (is @ effective M (all_instrs M f)) s1" by (simp add: all_instrs_def)
  from Cons.IH [OF s1(2) Cons.prems(2) this] show ?case by (simp add: effective_def)
qed (simp add: effective_def)

text \<open>
  A program of RISC-V lies in memory word after word: the instructions with an effect, in the order of
  the functions, their blocks and the instructions there, are at the start of the code and every
  four bytes after it, so that the program counter plus four is the next instruction.
\<close>

theorem riscv_code_word_by_word:
  assumes "fold_option (sp_runOnMachineFunction M) fs (sp_init codeStart) = Some s" and "m_arch M = ArchRISCV32"
    and "k < length (filter (\<lambda>i. \<not> id_transient (m_desc M i)) (concat (List.map (all_instrs M) fs)))"
  shows "getAddr s (filter (\<lambda>i. \<not> id_transient (m_desc M i)) (concat (List.map (all_instrs M) fs)) ! k) =
    Some (codeStart + 4 * of_nat k)"
proof -
  have "word_by_word codeStart [] (sp_init codeStart)" by (simp add: word_by_word_def sp_init_def)
  from functions_word [OF assms(1,2) this] show ?thesis
    using assms(3) by (simp add: word_by_word_def effective_def getAddr_def)
qed

section \<open>Global variables\<close>

lemma unat_below: "unat (a :: 32 word) < 2 ^ 32"
proof -
  have "unat a < 2 ^ LENGTH(32)" by (rule unsigned_less)
  then show ?thesis by simp
qed

lemma unat_of_nat_below: "n < 2 ^ 32 \<Longrightarrow> unat (of_nat n :: 32 word) = n"
  by (simp add: unsigned_of_nat take_bit_nat_eq_self)

lemma unat_power:
  assumes "k < 32"
  shows "unat (2 ^ k :: 32 word) = 2 ^ k"
proof -
  have "(2 :: nat) ^ k < 2 ^ 32" using assms by (intro power_strict_increasing) simp_all
  then have "unat (of_nat (2 ^ k) :: 32 word) = 2 ^ k" by (rule unat_of_nat_below)
  then show ?thesis by simp
qed

lemma unat_low_bits: "unat (a AND (2 ^ k - 1) :: 32 word) = unat a mod 2 ^ k"
proof -
  have "a AND (2 ^ k - 1) = take_bit k a" unfolding take_bit_eq_mask mask_eq_exp_minus_1 ..
  then show ?thesis by (simp only: unsigned_take_bit_eq) (simp only: take_bit_eq_mod)
qed

lemma unat_high_bits: "unat (a AND NOT (2 ^ k - 1) :: 32 word) = unat a - unat a mod 2 ^ k"
proof -
  have d: "(a AND NOT (2 ^ k - 1)) AND (a AND (2 ^ k - 1)) = 0"
    by (simp add: ac_simps bit_eq_iff bit_simps)
  have o: "a = (a AND NOT (2 ^ k - 1)) OR (a AND (2 ^ k - 1))"
    by (rule bit_eqI) (auto simp: bit_simps)
  have "unat a = unat ((a AND NOT (2 ^ k - 1)) OR (a AND (2 ^ k - 1)))" using o by simp
  also have "\<dots> = unat (a AND NOT (2 ^ k - 1)) OR unat (a AND (2 ^ k - 1))" by (rule unsigned_or_eq)
  also have "\<dots> = unat (a AND NOT (2 ^ k - 1)) + unat (a AND (2 ^ k - 1))"
  proof (rule disjunctive_add [symmetric])
    fix n
    show "\<not> bit (unat (a AND NOT (2 ^ k - 1))) n \<or> \<not> bit (unat (a AND (2 ^ k - 1))) n"
      by (simp add: bit_simps)
  qed
  finally show ?thesis unfolding unat_low_bits by simp
qed

lemma align_section_nat:
  assumes "k < 32" "unat sect + 2 ^ k < 2 ^ 32"
  shows "unat sect \<le> unat (align_section sect (2 ^ k))" "unat (align_section sect (2 ^ k)) < unat sect + 2 ^ k"
    "unat (align_section sect (2 ^ k)) mod 2 ^ k = 0"
proof -
  have p: "unat (2 ^ k :: 32 word) = 2 ^ k" using assms(1) by (simp add: unat_power)
  let ?n = "unat sect"
  have "unat (align_section sect (2 ^ k)) = (if ?n mod 2 ^ k = 0 then ?n else ?n - ?n mod 2 ^ k + 2 ^ k)"
  proof (cases "?n mod 2 ^ k = 0")
    case True
    then have "sect AND (2 ^ k - 1) = 0" using unat_low_bits [of sect k] by (metis unsigned_eq_0_iff)
    then show ?thesis using True by (simp add: align_section_def)
  next
    case False
    then have "sect AND (2 ^ k - 1) \<noteq> 0" using unat_low_bits [of sect k] by auto
    then have "align_section sect (2 ^ k) = (sect AND NOT (2 ^ k - 1)) + 2 ^ k" by (simp add: align_section_def)
    moreover have "unat (sect AND NOT (2 ^ k - 1)) + unat (2 ^ k :: 32 word) < 2 ^ 32"
      unfolding unat_high_bits p using assms(2) by linarith
    ultimately show ?thesis using False by (simp only: unat_add_small unat_high_bits p if_False)
  qed
  moreover have "?n mod 2 ^ k \<le> ?n" "?n mod 2 ^ k < 2 ^ k" by simp_all
  moreover have "(?n - ?n mod 2 ^ k + 2 ^ k) mod 2 ^ k = 0" by (simp add: minus_mod_eq_mult_div)
  ultimately show "?n \<le> unat (align_section sect (2 ^ k))" "unat (align_section sect (2 ^ k)) < ?n + 2 ^ k"
    "unat (align_section sect (2 ^ k)) mod 2 ^ k = 0"
    by (auto simp del: mod_less_divisor)
qed

lemma place_globals_keeps:
  "place_globals gs sect m = Some (m', e) \<Longrightarrow> map_of m x = Some y \<Longrightarrow> map_of m' x = Some y"
proof (induction gs arbitrary: sect m)
  case (Cons g gs)
  have "map_of (omap_insert (gl_name g) (align_section sect (gl_align g)) m) x = Some y"
    using Cons.prems(2) by (auto simp: omap_insert_def)
  then show ?case using Cons.IH Cons.prems(1) by (auto simp: Let_def split: if_splits)
qed simp

abbreviation global_at :: "(string, 32 word) omap \<Rightarrow> global_var \<Rightarrow> nat" where
  "global_at m g \<equiv> unat (the (map_of m (gl_name g)))"

lemma place_globals_layout:
  assumes "place_globals gs sect m = Some (m', e)" "distinct (List.map gl_name gs)" "\<forall>g \<in> set gs. map_of m (gl_name g) = None"
    and "\<forall>g \<in> set gs. \<exists>k < 32. gl_align g = 2 ^ k" "unat sect + (\<Sum>g\<leftarrow>gs. unat (gl_align g) + gl_size g) < 2 ^ 32"
  shows "(\<forall>g \<in> set gs. map_of m' (gl_name g) \<noteq> None \<and> unat sect \<le> global_at m' g \<and> global_at m' g mod unat (gl_align g) = 0 \<and>
      global_at m' g + gl_size g \<le> unat e) \<and> sorted_wrt (\<lambda>g h. global_at m' g + gl_size g \<le> global_at m' h) gs \<and> unat sect \<le> unat e"
  using assms
proof (induction gs arbitrary: sect m)
  case Nil
  then show ?case by simp
next
  case (Cons g gs)
  obtain k where k: "k < 32" "gl_align g = 2 ^ k" using Cons.prems(4) by auto
  let ?a = "align_section sect (gl_align g)" and ?m = "omap_insert (gl_name g) (align_section sect (gl_align g)) m"
  have p: "unat (gl_align g) = 2 ^ k" unfolding k(2) by (rule unat_power [OF k(1)])
  have b: "unat sect + 2 ^ k + gl_size g + (\<Sum>g\<leftarrow>gs. unat (gl_align g) + gl_size g) < 2 ^ 32" using Cons.prems(5) p by simp
  have a: "unat sect \<le> unat ?a" "unat ?a < unat sect + 2 ^ k" "unat ?a mod 2 ^ k = 0"
    using align_section_nat [OF k(1), of sect] b k(2) by simp_all
  have sz: "unat (of_nat (gl_size g) :: 32 word) = gl_size g" using b by (intro unat_of_nat_below) simp
  then have s: "unat (?a + of_nat (gl_size g)) = unat ?a + gl_size g" using a(2) b by (subst unat_add_small) simp_all
  have pg: "place_globals gs (?a + of_nat (gl_size g)) ?m = Some (m', e)" using Cons.prems(1) by (simp add: Let_def split: if_splits)
  have m: "map_of ?m = (map_of m)(gl_name g \<mapsto> ?a)" using Cons.prems(3) by (simp add: omap_insert_def)
  have g: "map_of m' (gl_name g) = Some ?a" by (rule place_globals_keeps [OF pg]) (simp add: m)
  have ih: "(\<forall>h \<in> set gs. map_of m' (gl_name h) \<noteq> None \<and> unat (?a + of_nat (gl_size g)) \<le> global_at m' h \<and>
      global_at m' h mod unat (gl_align h) = 0 \<and> global_at m' h + gl_size h \<le> unat e) \<and>
      sorted_wrt (\<lambda>g h. global_at m' g + gl_size g \<le> global_at m' h) gs \<and> unat (?a + of_nat (gl_size g)) \<le> unat e"
  proof (rule Cons.IH [OF pg])
    show "distinct (List.map gl_name gs)" "\<forall>h \<in> set gs. \<exists>k < 32. gl_align h = 2 ^ k" using Cons.prems(2,4) by simp_all
    show "\<forall>h \<in> set gs. map_of ?m (gl_name h) = None"
    proof
      fix h assume "h \<in> set gs"
      then have "gl_name h \<noteq> gl_name g" using Cons.prems(2) by (metis distinct.simps(2) imageI list.set_map list.simps(9))
      then show "map_of ?m (gl_name h) = None" using Cons.prems(3) \<open>h \<in> set gs\<close> unfolding m by simp
    qed
    show "unat (?a + of_nat (gl_size g)) + (\<Sum>h\<leftarrow>gs. unat (gl_align h) + gl_size h) < 2 ^ 32" using s a(2) b by simp
  qed
  have "global_at m' g = unat ?a" using g by simp
  then show ?case using ih g a p s by auto
qed

text \<open>
  C35: global variables that state their alignments, powers of two, and fit below \<open>2 ^ 32\<close> are placed without
  a failed assertion at addresses that are multiples of their alignments, from the start of the data
  section on, one after the other without an overlap, and all end before the address where the constants of
  RISC-V start.
\<close>

theorem global_variables_layout:
  assumes "distinct (List.map gl_name gs)" and "\<forall>g \<in> set gs. \<exists>k < 32. gl_align g = 2 ^ k"
    and "0xd0000 + (\<Sum>g\<leftarrow>gs. unat (gl_align g) + gl_size g) < 2 ^ 32"
  shows "\<exists>m e. place_globals gs 0xd0000 [] = Some (m, e) \<and>
    (\<forall>g \<in> set gs. \<exists>a. map_of m (gl_name g) = Some a \<and> 0xd0000 \<le> unat a \<and> unat a mod unat (gl_align g) = 0 \<and>
       unat a + gl_size g \<le> unat e) \<and>
    sorted_wrt (\<lambda>g h. unat (the (map_of m (gl_name g))) + gl_size g \<le> unat (the (map_of m (gl_name h)))) gs"
proof -
  have pw: "(2 ^ k :: 32 word) AND (2 ^ k - 1) = 0" for k
  proof (rule bit_eqI)
    fix n
    show "bit ((2 ^ k :: 32 word) AND (2 ^ k - 1)) n \<longleftrightarrow> bit (0 :: 32 word) n"
      by (auto simp: bit_simps simp flip: mask_eq_exp_minus_1)
  qed
  have np: "place_globals gs sect m \<noteq> None" for sect m
    using assms(2) by (induction gs arbitrary: sect m) (auto simp: Let_def pw)
  obtain m e where p: "place_globals gs 0xd0000 [] = Some (m, e)"
    using np [of "0xd0000" "[]"] by (cases "place_globals gs 0xd0000 []") auto
  have u: "unat (0xd0000 :: 32 word) = 0xd0000" by simp
  have "(\<forall>g \<in> set gs. map_of m (gl_name g) \<noteq> None \<and> unat (0xd0000 :: 32 word) \<le> global_at m g \<and> global_at m g mod unat (gl_align g) = 0 \<and>
      global_at m g + gl_size g \<le> unat e) \<and> sorted_wrt (\<lambda>g h. global_at m g + gl_size g \<le> global_at m h) gs \<and> unat (0xd0000 :: 32 word) \<le> unat e"
    by (rule place_globals_layout [OF p]) (use assms in simp_all)
  then have l: "(\<forall>g \<in> set gs. map_of m (gl_name g) \<noteq> None \<and> 0xd0000 \<le> global_at m g \<and> global_at m g mod unat (gl_align g) = 0 \<and>
      global_at m g + gl_size g \<le> unat e) \<and> sorted_wrt (\<lambda>g h. global_at m g + gl_size g \<le> global_at m h) gs"
    unfolding u by blast
  show ?thesis
  proof (intro exI conjI)
    show "place_globals gs 0xd0000 [] = Some (m, e)" by (rule p)
    show "\<forall>g \<in> set gs. \<exists>a. map_of m (gl_name g) = Some a \<and> 0xd0000 \<le> unat a \<and> unat a mod unat (gl_align g) = 0 \<and> unat a + gl_size g \<le> unat e"
      using l by force
    show "sorted_wrt (\<lambda>g h. global_at m g + gl_size g \<le> global_at m h) gs" using l by blast
  qed
qed

text \<open>
  A global variable without an alignment (0, which the assertion lets pass) is placed at address 0,
  wherever the data section has got to, and the variables after it are placed from there.
\<close>

theorem unaligned_global_restarts_section:
  assumes "gl_align g = 0" and "sect \<noteq> 0"
  shows "place_globals (g # gs) sect m = place_globals gs (of_nat (gl_size g)) (omap_insert (gl_name g) 0 m)"
  using assms by (simp add: align_section_def Let_def)

text \<open>
  Two constants of RISC-V that follow each other are placed at a distance of an eighth of the size of
  the first: eight-byte constants get addresses one byte apart and overlap.
\<close>

theorem riscv_constants_overlap:
  assumes "fold_option (place_constant f) (List.enumerate n [c, d]) s = Some s'" and "sp_cpe2addr s (f, of_nat n) = None"
    and "sp_cpe2addr s (f, of_nat (Suc n)) = None" and "(of_nat n :: 32 word) \<noteq> of_nat (Suc n)"
  shows "\<exists>a. getConstPoolEntryAddr s' f (of_nat n) = Some a \<and>
    getConstPoolEntryAddr s' f (of_nat (Suc n)) = Some (a + of_nat (cp_size c div 8))"
  using assms by (auto simp: place_constant_def keep_insert_def getConstPoolEntryAddr_def bind_eq_Some_conv split: if_splits)

section \<open>A concrete program\<close>

text \<open>Two functions of RISC-V: one with two blocks and two constants, one with a block whose first instruction is a pseudo.\<close>

definition ex_desc :: instr_desc where
  "ex_desc = \<lparr>id_opcode = ''ADD'', id_pseudo = False, id_transient = False, id_bundle = False, id_branch = False,
     id_cond_branch = False, id_uncond_branch = False, id_call = False, id_return = False, id_may_load = False, id_may_store = False,
     id_operands = [], id_target_offset = 0, id_pred_operand = None, id_reads = []\<rparr>"

definition ex_machine :: machine where
  "ex_machine = \<lparr>m_arch = ArchRISCV32,
     m_desc = (\<lambda>i. if i = ((1, 0), 0) then ex_desc\<lparr>id_opcode := ''KILL'', id_pseudo := True, id_transient := True\<rparr> else ex_desc),
     m_name = (\<lambda>f. if f = 0 then ''main'' else ''f''), m_blocks = (\<lambda>f. if f = 0 then 2 else 1), m_size = (\<lambda>b. 2),
     m_succs = (\<lambda>b. if b = (0, 0) then [(0, 1)] else []), m_preds = (\<lambda>b. if b = (0, 1) then [(0, 0)] else []),
     m_jump_tables = (\<lambda>f n. None),
     m_const_pool = (\<lambda>f. if f = 0 then [\<lparr>cp_size = 8, cp_global = None\<rparr>, \<lparr>cp_size = 8, cp_global = None\<rparr>] else [])\<rparr>"

definition ex_globals :: "global_var list" where
  "ex_globals = [\<lparr>gl_name = ''a'', gl_align = 4, gl_size = 6, gl_init = InitNone\<rparr>,
     \<lparr>gl_name = ''b'', gl_align = 8, gl_size = 16, gl_init = InitGlobal ''a''\<rparr>]"

lemma ex_places: "fold_option (sp_runOnMachineFunction ex_machine) [0, 1] (sp_init 0x8000) \<noteq> None"
  by code_simp

theorem instruction_addresses_roundtrip_witness:
  "\<exists>s. Option.bind (sp_doInitialization ex_globals (sp_init 0x8000)) (fold_option (sp_runOnMachineFunction ex_machine) [0, 1]) = Some s \<and>
     (\<forall>i a. getAddr s i = Some a \<longleftrightarrow> getMachineInstrByAddr s a = Some i)"
proof -
  have "Option.bind (sp_doInitialization ex_globals (sp_init 0x8000)) (fold_option (sp_runOnMachineFunction ex_machine) [0, 1]) \<noteq> None"
    by code_simp
  then obtain s0 s where s: "sp_doInitialization ex_globals (sp_init 0x8000) = Some s0"
      "fold_option (sp_runOnMachineFunction ex_machine) [0, 1] s0 = Some s"
    by (auto simp: bind_eq_Some_conv)
  show ?thesis using s instruction_addresses_roundtrip [OF s] by auto
qed

theorem riscv_code_word_by_word_witness:
  "\<exists>s. fold_option (sp_runOnMachineFunction ex_machine) [0, 1] (sp_init 0x8000) = Some s \<and> getAddr s ((1, 0), 1) = Some 0x8010"
proof -
  obtain s where s: "fold_option (sp_runOnMachineFunction ex_machine) [0, 1] (sp_init 0x8000) = Some s"
    using ex_places by blast
  have l: "filter (\<lambda>i. \<not> id_transient (m_desc ex_machine i)) (concat (List.map (all_instrs ex_machine) [0, 1])) =
      [((0, 0), 0), ((0, 0), 1), ((0, 1), 0), ((0, 1), 1), ((1, 0), 1)]" by code_simp
  have a: "m_arch ex_machine = ArchRISCV32" by (simp add: ex_machine_def)
  have "getAddr s ((1, 0), 1) = Some 0x8010"
    using riscv_code_word_by_word [OF s a, of 4] unfolding l by simp
  then show ?thesis using s by blast
qed

theorem global_variables_layout_witness:
  "\<exists>m e. place_globals ex_globals 0xd0000 [] = Some (m, e) \<and>
    (\<forall>g \<in> set ex_globals. \<exists>a. map_of m (gl_name g) = Some a \<and> unat a mod unat (gl_align g) = 0)"
proof -
  have d: "distinct (List.map gl_name ex_globals)" by code_simp
  have "(\<exists>k < 32. (4 :: 32 word) = 2 ^ k) \<and> (\<exists>k < 32. (8 :: 32 word) = 2 ^ k)"
    by (intro conjI exI [of _ 2] exI [of _ 3]) simp_all
  then have k: "\<forall>g \<in> set ex_globals. \<exists>k < 32. gl_align g = 2 ^ k" by (simp add: ex_globals_def)
  have s: "0xd0000 + (\<Sum>g\<leftarrow>ex_globals. unat (gl_align g) + gl_size g) < 2 ^ 32" by (simp add: ex_globals_def)
  show ?thesis using global_variables_layout [OF d k s] by meson
qed

theorem unaligned_global_restarts_section_witness:
  "place_globals [\<lparr>gl_name = ''c'', gl_align = 0, gl_size = 4, gl_init = InitNone\<rparr>] 0xd0000 [] = Some ([(''c'', 0)], 4)"
  by (subst unaligned_global_restarts_section) (simp_all add: omap_insert_def)

theorem riscv_constants_overlap_witness:
  "\<exists>s'. fold_option (place_constant 0) (List.enumerate 0 (m_const_pool ex_machine 0)) (sp_init 0) = Some s' \<and>
    getConstPoolEntryAddr s' 0 0 = Some 0 \<and> getConstPoolEntryAddr s' 0 1 = Some 1"
proof -
  let ?c = "\<lparr>cp_size = 8, cp_global = None\<rparr>"
  have c: "m_const_pool ex_machine 0 = [?c, ?c]" by (simp add: ex_machine_def)
  obtain s' where s: "fold_option (place_constant 0) (List.enumerate 0 [?c, ?c]) (sp_init 0) = Some s'"
    by (simp add: place_constant_def)
  have "\<exists>a. getConstPoolEntryAddr s' 0 (of_nat 0) = Some a \<and>
      getConstPoolEntryAddr s' 0 (of_nat (Suc 0)) = Some (a + of_nat (cp_size ?c div 8))"
    by (rule riscv_constants_overlap [OF s]) (simp_all add: sp_init_def)
  moreover have "getConstPoolEntryAddr s' 0 0 = Some 0"
    using s by (auto simp: place_constant_def keep_insert_def getConstPoolEntryAddr_def sp_init_def)
  ultimately show ?thesis using s c by auto
qed

end
