(* ===== verification/TA_Call_Graph_Properties.thy ===== *)
theory TA_Call_Graph_Properties
  imports TA_Call_Graph
begin

text \<open>
  Properties of the call graph: its two maps are one relation, the functions reachable from the entry point
  are found, and the search for functions reachable from basic blocks stops at the functions called
  there directly.
\<close>

section \<open>The edges of the call graph\<close>

text \<open>The function a call instruction names, if the program has it.\<close>

definition named_callee :: "machine \<Rightarrow> collector \<Rightarrow> minstr \<Rightarrow> mfunc option" where
  "named_callee M c i =
     (if id_call (m_desc M i)
      then case Option.bind (get_operand M i 0) getCalleeNameFromOperand of None \<Rightarrow> None | Some n \<Rightarrow> map_of c n
      else None)"

definition program_instrs :: "machine \<Rightarrow> collector \<Rightarrow> minstr list" where
  "program_instrs M c = concat (List.map (all_instrs M) (getAllMachineFunctions c))"

lemma cg_add_call_sites:
  "potentialCallSites (cg_add_call M c i g) f = potentialCallSites g f @ (if named_callee M c i = Some f then [i] else [])"
  by (auto simp: cg_add_call_def named_callee_def Let_def getFunctionByName_def split: option.splits)

lemma cg_add_call_callees:
  "potentialCallees (cg_add_call M c i g) j =
     potentialCallees g j @ (if j = i then (case named_callee M c i of None \<Rightarrow> [] | Some f \<Rightarrow> [f]) else [])"
  by (auto simp: cg_add_call_def named_callee_def Let_def getFunctionByName_def split: option.splits)

lemma cg_add_call_callees_set:
  "set (potentialCallees (cg_add_call M c i g) j) = set (potentialCallees g j) \<union> {f. j = i \<and> named_callee M c j = Some f}"
  by (cases "j = i"; cases "named_callee M c i") (simp_all add: cg_add_call_callees)

lemma cg_add_call_mbb:
  "callsitesPerMBB (cg_add_call M c i g) b = callsitesPerMBB g b @ (if id_call (m_desc M i) \<and> mi_parent i = b then [i] else [])"
  by (auto simp: cg_add_call_def Let_def getFunctionByName_def split: option.splits)

lemma cg_fold_sites:
  "set (potentialCallSites (fold (cg_add_call M c) is g) f) =
     set (potentialCallSites g f) \<union> {i \<in> set is. named_callee M c i = Some f}"
  by (induction "is" arbitrary: g) (auto simp: cg_add_call_sites)

lemma cg_fold_callees:
  "set (potentialCallees (fold (cg_add_call M c) is g) j) =
     set (potentialCallees g j) \<union> {f. j \<in> set is \<and> named_callee M c j = Some f}"
proof (induction "is" arbitrary: g)
  case (Cons i "is")
  show ?case unfolding fold_simps(2) Cons.IH cg_add_call_callees_set by auto
qed simp

lemma cg_fold_mbb:
  "set (callsitesPerMBB (fold (cg_add_call M c) is g) b) =
     set (callsitesPerMBB g b) \<union> {i \<in> set is. id_call (m_desc M i) \<and> mi_parent i = b}"
  by (induction "is" arbitrary: g) (auto simp: cg_add_call_mbb)

abbreviation built_graph :: "machine \<Rightarrow> collector \<Rightarrow> call_graph" where
  "built_graph M c \<equiv> recomputeCallGraph M c cg_empty"

lemma built_graph_maps:
  "set (potentialCallSites (built_graph M c) f) = {i \<in> set (program_instrs M c). named_callee M c i = Some f}"
  "set (potentialCallees (built_graph M c) i) = {f. i \<in> set (program_instrs M c) \<and> named_callee M c i = Some f}"
  "set (callsitesPerMBB (built_graph M c) b) = {i \<in> set (program_instrs M c). id_call (m_desc M i) \<and> mi_parent i = b}"
  by (simp_all add: recomputeCallGraph_def cg_fold_sites cg_fold_callees cg_fold_mbb program_instrs_def cg_empty_def)

lemma built_graph_range: "set (potentialCallees (built_graph M c) i) \<subseteq> set (getAllMachineFunctions c)"
proof
  fix f
  assume "f \<in> set (potentialCallees (built_graph M c) i)"
  then obtain n where "map_of c n = Some f" by (auto simp: built_graph_maps named_callee_def split: if_splits option.splits)
  from map_of_SomeD [OF this] show "f \<in> set (getAllMachineFunctions c)" by (force simp: getAllMachineFunctions_def)
qed

section \<open>Reachability from the entry point\<close>

text \<open>One function calls another.\<close>

definition calls :: "machine \<Rightarrow> call_graph \<Rightarrow> (mfunc \<times> mfunc) set" where
  "calls M g = {(f, h). h \<in> set (callees_in M g f)}"

lemma set_insert_all_set [simp]: "set (set_insert_all xs ys) = set xs \<union> set ys"
  unfolding set_insert_all_def by (induction xs arbitrary: ys) auto

lemma distinct_set_insert_all: "distinct ys \<Longrightarrow> distinct (set_insert_all xs ys)"
  unfolding set_insert_all_def by (induction xs arbitrary: ys) auto

lemma closed_contains_reachable: "(a, b) \<in> R\<^sup>* \<Longrightarrow> a \<in> V \<Longrightarrow> R `` V \<subseteq> V \<Longrightarrow> b \<in> V"
  by (induction rule: rtrancl_induct) auto

lemma image_rtrancl_subset: "A \<subseteq> R\<^sup>* `` B \<Longrightarrow> R\<^sup>* `` A \<subseteq> R\<^sup>* `` B"
  by (blast intro: rtrancl_trans)

lemma reach_search_result:
  assumes "finite U" "\<forall>f \<in> U. set (callees_in M g f) \<subseteq> U" "set work \<subseteq> U" "set visited \<subseteq> U"
    and "distinct work" "set work \<inter> set visited = {}" "calls M g `` set visited \<subseteq> set visited \<union> set work"
  shows "\<exists>v. reach_search M g work visited = Some v \<and> set v = (calls M g)\<^sup>* `` (set work \<union> set visited)"
  using assms(3-7)
proof (induction "card (U - set visited)" arbitrary: work visited rule: less_induct)
  case less
  show ?case
  proof (cases work)
    case Nil
    then have "set visited = (calls M g)\<^sup>* `` set visited"
      using closed_contains_reachable [of _ _ "calls M g" "set visited"] less.prems(5) by auto
    then show ?thesis using Nil by (simp add: reach_search.simps)
  next
    case (Cons f w)
    let ?w = "set_insert_all (filter (\<lambda>c. c \<notin> insert f (set visited)) (callees_in M g f)) w" and ?v = "f # visited"
    have f: "f \<in> U" "f \<notin> set visited" "f \<notin> set w" using less.prems Cons by auto
    have sub: "set (callees_in M g f) \<subseteq> U" using assms(2) f(1) by blast
    have c: "card (U - set ?v) < card (U - set visited)"
      using f assms(1) by (intro psubset_card_mono) auto
    have "\<exists>v. reach_search M g ?w ?v = Some v \<and> set v = (calls M g)\<^sup>* `` (set ?w \<union> set ?v)"
    proof (rule less.hyps [OF c])
      show "set ?w \<subseteq> U" using sub less.prems(1) Cons by auto
      show "set ?v \<subseteq> U" using less.prems(2) f(1) by auto
      show "distinct ?w" using less.prems(3) Cons by (simp add: distinct_set_insert_all)
      show "set ?w \<inter> set ?v = {}" using less.prems(3,4) Cons by auto
      show "calls M g `` set ?v \<subseteq> set ?v \<union> set ?w" using less.prems(5) Cons by (auto simp: calls_def)
    qed
    then obtain v where v: "reach_search M g ?w ?v = Some v" "set v = (calls M g)\<^sup>* `` (set ?w \<union> set ?v)" by blast
    have "reach_search M g work visited = Some v" using v(1) Cons by (simp add: reach_search.simps)
    moreover have "(calls M g)\<^sup>* `` (set ?w \<union> set ?v) = (calls M g)\<^sup>* `` (set work \<union> set visited)"
    proof
      have "set ?w \<union> set ?v \<subseteq> (calls M g)\<^sup>* `` (set work \<union> set visited)"
        using Cons by (auto simp: calls_def Image_def)
      then show "(calls M g)\<^sup>* `` (set ?w \<union> set ?v) \<subseteq> (calls M g)\<^sup>* `` (set work \<union> set visited)"
        by (rule image_rtrancl_subset)
      show "(calls M g)\<^sup>* `` (set work \<union> set visited) \<subseteq> (calls M g)\<^sup>* `` (set ?w \<union> set ?v)" using Cons by auto
    qed
    ultimately show ?thesis using v(2) by blast
  qed
qed

lemma callees_in_range: "set (callees_in M (built_graph M c) f) \<subseteq> set (getAllMachineFunctions c)"
  using built_graph_range by (fastforce simp: callees_in_def)

text \<open>
  C33: \<open>reachableFromEntryPoint\<close> returns for the call graph of any program, also a recursive one, and says whether
  the function is reached from the entry point by calls of functions the program has.
\<close>

theorem reachable_from_entry_correct:
  "reachableFromEntryPoint M (recomputeCallGraph M c cg_empty) entry f =
     Some ((entry, f) \<in> {(f, h). h \<in> set (callees_in M (recomputeCallGraph M c cg_empty) f)}\<^sup>*)"
proof -
  have "\<exists>v. reach_search M (built_graph M c) [entry] [] = Some v \<and> set v = (calls M (built_graph M c))\<^sup>* `` (set [entry] \<union> set [])"
    by (rule reach_search_result [where U = "insert entry (set (getAllMachineFunctions c))"]) (use callees_in_range in auto)
  then show ?thesis by (auto simp: reachableFromEntryPoint_def calls_def)
qed

section \<open>Reachability from basic blocks\<close>

lemma site_callees_self: "set (site_callees (built_graph M c) f) \<subseteq> {f}"
  by (auto simp: site_callees_def built_graph_maps)

lemma indirect_search_direct:
  assumes "\<forall>f. set (site_callees g f) \<subseteq> {f}" "target \<notin> set work" "set work \<subseteq> set reached"
  shows "indirect_search g target work reached = Some False"
  using assms(2,3)
proof (induction work arbitrary: reached)
  case Nil
  then show ?case by (simp add: indirect_search.simps)
next
  case (Cons f w)
  have "target \<notin> set (site_callees g f)" using assms(1) Cons.prems(1) by auto
  moreover have "filter (\<lambda>c. c \<notin> set reached) (site_callees g f) = []"
    using assms(1) Cons.prems(2) by (auto simp: filter_empty_conv)
  ultimately show ?case using Cons by (simp add: indirect_search.simps Let_def)
qed

text \<open>
  C34: \<open>isFunctionPotentiallyReachableFrom\<close> finds exactly the functions that are called in the given blocks
  themselves, for every program: the second search looks at \<open>getCallSites\<close> of the functions found,
  which are calls to them and not calls in them, so a function that is only reached through another
  one is said not to be reachable.
\<close>

theorem reachable_from_blocks_only_direct:
  "isFunctionPotentiallyReachableFrom (recomputeCallGraph M c cg_empty) target bs =
     Some (\<exists>b \<in> set bs. \<exists>i \<in> set (callsitesPerMBB (recomputeCallGraph M c cg_empty) b).
             target \<in> set (potentialCallees (recomputeCallGraph M c cg_empty) i))"
proof -
  let ?g = "recomputeCallGraph M c cg_empty"
  have d: "target \<in> set (direct_callees ?g bs) \<longleftrightarrow>
      (\<exists>b \<in> set bs. \<exists>i \<in> set (callsitesPerMBB ?g b). target \<in> set (potentialCallees ?g i))"
    by (auto simp: direct_callees_def)
  show ?thesis
  proof (cases "target \<in> set (direct_callees ?g bs)")
    case True
    then show ?thesis using d by (simp add: isFunctionPotentiallyReachableFrom_def Let_def)
  next
    case False
    then have "indirect_search ?g target (remdups (direct_callees ?g bs)) (remdups (direct_callees ?g bs)) = Some False"
      by (intro indirect_search_direct) (use site_callees_self in auto)
    then show ?thesis using d False by (simp add: isFunctionPotentiallyReachableFrom_def Let_def)
  qed
qed

section \<open>Nested calls\<close>

text \<open>A chain of calls: each call is in a function the call before it may enter.\<close>

inductive call_chain :: "machine \<Rightarrow> call_graph \<Rightarrow> nat \<Rightarrow> minstr \<Rightarrow> bool" for M g where
  Chain_end: "call_chain M g 0 i"
| Chain_call: "f \<in> set (potentialCallees g i) \<Longrightarrow> j \<in> set (all_instrs M f) \<Longrightarrow> id_call (m_desc M j) \<Longrightarrow> call_chain M g d j \<Longrightarrow>
    call_chain M g (Suc d) i"

inductive_simps call_chain_zero: "call_chain M g 0 i"
inductive_simps call_chain_suc: "call_chain M g (Suc d) i"

lemma calls_nested_chain: "calls_nested M g d i \<longleftrightarrow> call_chain M g d i"
proof (induction d arbitrary: i)
  case 0
  show ?case by (simp add: call_chain_zero)
next
  case (Suc d)
  have "(d = 0 \<or> calls_nested M g d j) \<longleftrightarrow> call_chain M g d j" for j using Suc.IH by (auto simp: call_chain_zero)
  then show ?case by (auto simp: call_chain_suc)
qed

text \<open>
  \<open>callsNestedFunctions\<close> of a call says whether a chain of \<open>d\<close> further calls can follow it; a negative
  depth is never exceeded.
\<close>

lemma calls_nested_functions_iff:
  "id_call (m_desc M i) \<Longrightarrow>
     callsNestedFunctions M g i d = Some (0 \<le> d \<and> call_chain M g (nat d) i)"
  by (simp add: callsNestedFunctions_def calls_nested_chain)

end
