(* ===== verification/TA_Partition.thy ===== *)
theory TA_Partition
  imports TA_Program
begin

text \<open>
  Trace partitioning: tokens, directives and contexts (\<open>PartitionToken\<close>, \<open>Directive\<close> and \<open>Context\<close> of
  \<open>lib/PartitionUtil\<close>) and the pass that annotates a program with directives (\<open>DirectiveHeuristics.cpp\<close>).
  A token has the address it is allocated at; the sets of token pointers are ordered by address.
  The directive that encloses a token, which every constructor of a directive overwrites, is a map
  from addresses.  \<open>None\<close> is a failed assertion.
\<close>

section \<open>Tokens\<close>

datatype token_value =
    TkNone
  | TkIf string bool
  | TkLoopPeel mloop "mbb_edge list" "32 word"
  | TkLoopIter mloop "mbb_edge list" "32 word"
  | TkCallSite minstr
  | TkFunCallee mfunc

datatype token_type = TypeNone | TypeIf | TypeLoopPeel | TypeLoopIter | TypeCallSite | TypeFunCallee

record token =
  tk_addr :: nat
  tk_val :: token_value

fun tk_type :: "token_value \<Rightarrow> token_type" where
  "tk_type TkNone = TypeNone"
| "tk_type (TkIf b t) = TypeIf"
| "tk_type (TkLoopPeel l e n) = TypeLoopPeel"
| "tk_type (TkLoopIter l e n) = TypeLoopIter"
| "tk_type (TkCallSite i) = TypeCallSite"
| "tk_type (TkFunCallee f) = TypeFunCallee"

text \<open>The order of the enumeration.\<close>

fun type_rank :: "token_type \<Rightarrow> nat" where
  "type_rank TypeNone = 0"
| "type_rank TypeIf = 1"
| "type_rank TypeLoopPeel = 2"
| "type_rank TypeLoopIter = 3"
| "type_rank TypeCallSite = 4"
| "type_rank TypeFunCallee = 5"

fun tk_equals :: "token_value \<Rightarrow> token_value \<Rightarrow> bool" where
  "tk_equals (TkLoopPeel l e n) (TkLoopPeel l' e' n') \<longleftrightarrow> n' = n \<and> set e' = set e"
| "tk_equals (TkLoopIter l e n) (TkLoopIter l' e' n') \<longleftrightarrow> n' = n \<and> set e' = set e"
| "tk_equals (TkCallSite i) (TkCallSite j) \<longleftrightarrow> j = i"
| "tk_equals (TkFunCallee f) (TkFunCallee g) \<longleftrightarrow> g = f"
| "tk_equals s t \<longleftrightarrow> tk_type s = tk_type t"

fun edges_less :: "mbb_edge list \<Rightarrow> mbb_edge list \<Rightarrow> bool" where
  "edges_less (x # xs) (y # ys) =
     (if mbbedgecomp x y \<or> mbbedgecomp y x then mbbedgecomp x y else edges_less xs ys)"
| "edges_less _ _ = False"

definition loop_less :: "mbb_edge list \<Rightarrow> 32 word \<Rightarrow> mbb_edge list \<Rightarrow> 32 word \<Rightarrow> bool" where
  "loop_less e n e' n' =
     (if n \<noteq> n' then n < n'
      else if length e \<noteq> length e' then length e < length e' else edges_less e e')"

fun tk_less :: "token_value \<Rightarrow> token_value \<Rightarrow> bool" where
  "tk_less (TkLoopPeel l e n) (TkLoopPeel l' e' n') = loop_less e n e' n'"
| "tk_less (TkLoopIter l e n) (TkLoopIter l' e' n') = loop_less e n e' n'"
| "tk_less (TkCallSite i) (TkCallSite j) = instrptrcomp i j"
| "tk_less (TkFunCallee f) (TkFunCallee g) \<longleftrightarrow> f < g"
| "tk_less s t \<longleftrightarrow> type_rank (tk_type s) < type_rank (tk_type t)"

section \<open>Directives\<close>

datatype direc_type = DirCreate | DirMerge

record directive =
  d_type :: direc_type
  d_tokens :: "token list"

definition is_loop_token :: "token \<Rightarrow> bool" where
  "is_loop_token t \<longleftrightarrow> tk_type (tk_val t) \<in> {TypeLoopPeel, TypeLoopIter}"

text \<open>A set of pointers to tokens.\<close>

definition token_set :: "token list \<Rightarrow> token list" where
  "token_set ts = sort_key tk_addr ts"

text \<open>The constructor; loop tokens must not be mixed with others.\<close>

definition mk_directive ::
  "direc_type \<Rightarrow> token list \<Rightarrow> (nat \<rightharpoonup> directive) \<Rightarrow> (directive \<times> (nat \<rightharpoonup> directive)) option" where
  "mk_directive dt p enc =
     (if length p > 1 \<and> (\<exists>t \<in> set p. is_loop_token t) \<and> (\<exists>t \<in> set p. \<not> is_loop_token t) then None
      else let d = \<lparr>d_type = dt, d_tokens = p\<rparr> in Some (d, fold (\<lambda>t e. e(tk_addr t \<mapsto> d)) p enc))"

section \<open>Contexts\<close>

type_synonym tcontext = "token list"

record part_opts =
  NumberLoopTokens :: int
  NumberCalleeTokens :: int
  NumberCallsiteTokens :: int
  LoopPeel :: "32 word"

text \<open>
  A context goes from the oldest token to the newest.  Both loops over it run backwards: \<open>found\<close>
  counts the tokens of the given types that are newer.
\<close>

fun clear_loop :: "token_type set \<Rightarrow> 32 word \<Rightarrow> token list \<Rightarrow> 32 word \<Rightarrow> tcontext \<Rightarrow> tcontext" where
  "clear_loop tok len [] found new = new"
| "clear_loop tok len (t # ts) found new =
     clear_loop tok len ts (if tk_type (tk_val t) \<in> tok then found + 1 else found)
       (if tk_type (tk_val t) \<notin> tok \<or> found < len then t # new else new)"

definition clearTokensOlderThan :: "token_type set \<Rightarrow> 32 word \<Rightarrow> tcontext \<Rightarrow> tcontext" where
  "clearTokensOlderThan tok len ctx = clear_loop tok len (rev ctx) 0 []"

definition mk_context :: "token list \<Rightarrow> tcontext" where
  "mk_context ctx = clearTokensOlderThan {TypeNone} 0 ctx"

fun create_loop :: "token list \<Rightarrow> tcontext \<Rightarrow> tcontext option" where
  "create_loop [] ctx = Some ctx"
| "create_loop (t # ts) ctx =
     (case tk_val t of
        TkLoopPeel l e n \<Rightarrow> if n = 0 then Some (ctx @ [t]) else create_loop ts ctx
      | TkLoopIter l e n \<Rightarrow> if n = 0 then Some (ctx @ [t]) else create_loop ts ctx
      | TkCallSite i \<Rightarrow> Some (ctx @ [t])
      | TkFunCallee f \<Rightarrow> Some (ctx @ [t])
      | _ \<Rightarrow> None)"

definition ctx_update :: "directive \<Rightarrow> tcontext \<Rightarrow> tcontext option" where
  "ctx_update d ctx =
     (case d_type d of
        DirCreate \<Rightarrow> create_loop (d_tokens d) ctx
      | DirMerge \<Rightarrow>
          if ctx = [] then None
          else if \<exists>t \<in> set (d_tokens d). tk_addr t = tk_addr (last ctx) then Some (butlast ctx) else Some ctx)"

definition counts_iteration :: "32 word \<Rightarrow> token \<Rightarrow> bool" where
  "counts_iteration k t = (case tk_val t of TkLoopPeel l e n \<Rightarrow> n = k | TkLoopIter l e n \<Rightarrow> n = k | _ \<Rightarrow> False)"

text \<open>A token that no directive encloses has no pointer to follow.\<close>

definition ctx_transfer :: "(nat \<rightharpoonup> directive) \<Rightarrow> mbb_edge \<Rightarrow> tcontext \<Rightarrow> tcontext option" where
  "ctx_transfer enc edge ctx =
     (if ctx = [] then Some ctx
      else case tk_val (last ctx) of
             TkLoopPeel l backedges iteration \<Rightarrow>
               if edge \<in> set backedges then
                 (case enc (tk_addr (last ctx)) of None \<Rightarrow> None
                  | Some d \<Rightarrow>
                      (case List.find (counts_iteration (iteration + 1)) (d_tokens d) of None \<Rightarrow> None
                       | Some t \<Rightarrow> Some (butlast ctx @ [t])))
               else Some ctx
           | _ \<Rightarrow> Some ctx)"

definition reduceOnCall :: "part_opts \<Rightarrow> tcontext \<Rightarrow> tcontext option" where
  "reduceOnCall Po ctx =
     (let c0 = clearTokensOlderThan {TypeIf, TypeNone} 0 ctx;
          c1 = (if NumberLoopTokens Po \<ge> 0
                then clearTokensOlderThan {TypeLoopPeel, TypeLoopIter} (of_int (NumberLoopTokens Po)) c0 else c0);
          c2 = (if NumberCalleeTokens Po \<ge> 0
                then clearTokensOlderThan {TypeFunCallee} (of_int (NumberCalleeTokens Po)) c1 else c1);
          c3 = (if NumberCallsiteTokens Po \<ge> 0
                then clearTokensOlderThan {TypeCallSite} (of_int (NumberCallsiteTokens Po)) c2 else c2);
          size_of = (\<lambda>n. if n \<ge> 0 then of_int n else 0 :: 32 word);
          maxSize = size_of (NumberLoopTokens Po) + size_of (NumberCalleeTokens Po) + size_of (NumberCallsiteTokens Po)
      in if NumberLoopTokens Po < 0 \<or> NumberCalleeTokens Po < 0 \<or> NumberCallsiteTokens Po < 0 \<or> length c3 \<le> unat maxSize
         then Some c3 else None)"

fun clean_loop :: "token list \<Rightarrow> bool \<Rightarrow> tcontext \<Rightarrow> tcontext" where
  "clean_loop [] doneRemoving new = new"
| "clean_loop (t # ts) doneRemoving new =
     (if doneRemoving then clean_loop ts True (t # new)
      else if tk_type (tk_val t) \<in> {TypeIf, TypeNone, TypeLoopPeel, TypeLoopIter} then clean_loop ts False new
      else clean_loop ts True (t # new))"

definition cleanToFunCall :: "tcontext \<Rightarrow> tcontext" where
  "cleanToFunCall ctx = clean_loop (rev ctx) False []"

fun shrink_loop :: "32 word \<Rightarrow> token list \<Rightarrow> 32 word \<Rightarrow> tcontext \<Rightarrow> tcontext" where
  "shrink_loop n [] seen new = new"
| "shrink_loop n (t # ts) seen new =
     (if seen < n then shrink_loop n ts (seen + 1) (t # new) else shrink_loop n ts seen new)"

definition shrinkTo :: "32 word \<Rightarrow> tcontext \<Rightarrow> tcontext" where
  "shrinkTo n ctx = shrink_loop n (rev ctx) 0 []"

text \<open>The comparisons.  No context may have a token of type NONE where the operators look.\<close>

fun ctx_less_loop :: "tcontext \<Rightarrow> tcontext \<Rightarrow> bool option" where
  "ctx_less_loop (s # c) (t # c') =
     (if tk_type (tk_val s) = TypeNone then None
      else if tk_less (tk_val s) (tk_val t) then Some True
      else if \<not> tk_equals (tk_val s) (tk_val t) then Some False
      else ctx_less_loop c c')"
| "ctx_less_loop _ _ = Some False"

definition ctx_less :: "tcontext \<Rightarrow> tcontext \<Rightarrow> bool option" where
  "ctx_less c c' =
     (if length c < length c' then Some True
      else if length c = length c' then ctx_less_loop c c' else Some False)"

fun ctx_equal_loop :: "tcontext \<Rightarrow> tcontext \<Rightarrow> bool option" where
  "ctx_equal_loop (s # c) (t # c') =
     (if tk_type (tk_val s) = TypeNone then None
      else if \<not> tk_equals (tk_val s) (tk_val t) then Some False else ctx_equal_loop c c')"
| "ctx_equal_loop _ _ = Some True"

definition ctx_equal :: "tcontext \<Rightarrow> tcontext \<Rightarrow> bool option" where
  "ctx_equal c c' = (if length c \<noteq> length c' then Some False else ctx_equal_loop c c')"

fun ctxcomp_loop :: "tcontext \<Rightarrow> tcontext \<Rightarrow> bool" where
  "ctxcomp_loop (s # c) (t # c') =
     (if \<not> tk_equals (tk_val s) (tk_val t) then tk_less (tk_val s) (tk_val t) else ctxcomp_loop c c')"
| "ctxcomp_loop _ _ = False"

definition ctxcomp :: "tcontext \<Rightarrow> tcontext \<Rightarrow> bool" where
  "ctxcomp c c' = (if length c \<noteq> length c' then length c < length c' else ctxcomp_loop c c')"

section \<open>The directives of a program\<close>

text \<open>The pass; \<open>alloc\<close> gives the address of every allocated token.\<close>

record heuristics =
  dh_before_instr :: "minstr \<rightharpoonup> directive"
  dh_after_instr :: "minstr \<rightharpoonup> directive"
  dh_enter_edge :: "mbb_edge \<rightharpoonup> directive list"
  dh_leave_edge :: "mbb_edge \<rightharpoonup> directive list"
  dh_before_func :: "mfunc \<rightharpoonup> directive"
  dh_after_func :: "mfunc \<rightharpoonup> directive"
  dh_enclosing :: "nat \<rightharpoonup> directive"
  dh_allocated :: nat

definition dh_init :: heuristics where
  "dh_init = \<lparr>dh_before_instr = (\<lambda>_. None), dh_after_instr = (\<lambda>_. None), dh_enter_edge = (\<lambda>_. None),
     dh_leave_edge = (\<lambda>_. None), dh_before_func = (\<lambda>_. None), dh_after_func = (\<lambda>_. None),
     dh_enclosing = (\<lambda>_. None), dh_allocated = 0\<rparr>"

definition new_directive :: "direc_type \<Rightarrow> token list \<Rightarrow> heuristics \<Rightarrow> (directive \<times> heuristics) option" where
  "new_directive dt p H = map_option (\<lambda>(d, enc). (d, H\<lparr>dh_enclosing := enc\<rparr>)) (mk_directive dt p (dh_enclosing H))"

definition loop_tokens :: "(nat \<Rightarrow> nat) \<Rightarrow> nat \<Rightarrow> 32 word \<Rightarrow> mloop \<Rightarrow> mbb_edge list \<Rightarrow> token list" where
  "loop_tokens alloc n peel l be =
     List.map (\<lambda>i. \<lparr>tk_addr = alloc (n + i), tk_val = TkLoopPeel l be (of_nat i)\<rparr>) [0..<unat peel] @
     [\<lparr>tk_addr = alloc (n + unat peel), tk_val = TkLoopIter l be peel\<rparr>]"

definition create_on_edge :: "token list \<Rightarrow> mbb_edge \<Rightarrow> heuristics \<Rightarrow> heuristics option" where
  "create_on_edge p e H =
     map_option (\<lambda>(d, H').
         H'\<lparr>dh_leave_edge := (dh_leave_edge H')(e \<mapsto> (case dh_leave_edge H' e of None \<Rightarrow> [] | Some ds \<Rightarrow> ds) @ [d])\<rparr>)
       (new_directive DirCreate p H)"

definition merge_on_edge :: "token list \<Rightarrow> mbb_edge \<Rightarrow> heuristics \<Rightarrow> heuristics option" where
  "merge_on_edge p e H =
     map_option (\<lambda>(d, H').
         H'\<lparr>dh_enter_edge := (dh_enter_edge H')(e \<mapsto> d # (case dh_enter_edge H' e of None \<Rightarrow> [] | Some ds \<Rightarrow> ds))\<rparr>)
       (new_directive DirMerge p H)"

definition annotate_one :: "machine \<Rightarrow> (nat \<Rightarrow> nat) \<Rightarrow> 32 word \<Rightarrow> mloop \<Rightarrow> heuristics \<Rightarrow> heuristics option" where
  "annotate_one M alloc peel l H =
     (let p = token_set (loop_tokens alloc (dh_allocated H) peel l (getBackEdgesOfLoop M l));
          H' = H\<lparr>dh_allocated := dh_allocated H + unat peel + 1\<rparr>
      in Option.bind (fold_option (create_on_edge p) (getIncomingEdgesOfLoop M l) H')
           (fold_option (merge_on_edge p) (getExitingEdgesOfLoop M l)))"

fun annotateLoopDirective :: "machine \<Rightarrow> (nat \<Rightarrow> nat) \<Rightarrow> 32 word \<Rightarrow> mloop \<Rightarrow> heuristics \<Rightarrow> heuristics option"
and annotate_loops :: "machine \<Rightarrow> (nat \<Rightarrow> nat) \<Rightarrow> 32 word \<Rightarrow> mloop list \<Rightarrow> heuristics \<Rightarrow> heuristics option" where
  "annotateLoopDirective M alloc peel (MLoop h bs ls) H =
     Option.bind (annotate_one M alloc peel (MLoop h bs ls) H) (annotate_loops M alloc peel ls)"
| "annotate_loops M alloc peel [] H = Some H"
| "annotate_loops M alloc peel (l # ls) H = Option.bind (annotateLoopDirective M alloc peel l H) (annotate_loops M alloc peel ls)"

definition annotate_call :: "machine \<Rightarrow> (nat \<Rightarrow> nat) \<Rightarrow> minstr \<Rightarrow> heuristics \<Rightarrow> heuristics option" where
  "annotate_call M alloc i H =
     (if \<not> id_call (m_desc M i) then Some H
      else case get_operand M i 0 of None \<Rightarrow> None
           | Some callTarget \<Rightarrow>
               if id_target_offset (m_desc M i) \<noteq> 0 then None
               else let p = [\<lparr>tk_addr = alloc (dh_allocated H), tk_val = TkCallSite i\<rparr>];
                   H0 = H\<lparr>dh_allocated := dh_allocated H + 1\<rparr>
               in (case new_directive DirCreate p H0 of None \<Rightarrow> None
                   | Some (create, H1) \<Rightarrow>
                       (case new_directive DirMerge p H1 of None \<Rightarrow> None
                        | Some (mrge, H2) \<Rightarrow>
                            Some (H2\<lparr>dh_before_instr := keep_insert i create (dh_before_instr H2),
                                     dh_after_instr := keep_insert i mrge (dh_after_instr H2)\<rparr>))))"

definition dh_runOnMachineBasicBlock :: "machine \<Rightarrow> (nat \<Rightarrow> nat) \<Rightarrow> mbb \<Rightarrow> heuristics \<Rightarrow> heuristics option" where
  "dh_runOnMachineBasicBlock M alloc b = fold_option (annotate_call M alloc) (instrs_of M b)"

definition annotate_function :: "(nat \<Rightarrow> nat) \<Rightarrow> mfunc \<Rightarrow> heuristics \<Rightarrow> heuristics option" where
  "annotate_function alloc f H =
     (let p = [\<lparr>tk_addr = alloc (dh_allocated H), tk_val = TkFunCallee f\<rparr>];
          H0 = H\<lparr>dh_allocated := dh_allocated H + 1\<rparr>
      in (case new_directive DirCreate p H0 of None \<Rightarrow> None
          | Some (create, H1) \<Rightarrow>
              (case new_directive DirMerge p H1 of None \<Rightarrow> None
               | Some (mrge, H2) \<Rightarrow>
                   Some (H2\<lparr>dh_before_func := keep_insert f create (dh_before_func H2),
                            dh_after_func := keep_insert f mrge (dh_after_func H2)\<rparr>))))"

definition dh_runOnMachineFunction ::
  "machine \<Rightarrow> (nat \<Rightarrow> nat) \<Rightarrow> part_opts \<Rightarrow> (mfunc \<Rightarrow> mloop list) \<Rightarrow> mfunc \<Rightarrow> heuristics \<Rightarrow> heuristics option" where
  "dh_runOnMachineFunction M alloc Po loops f H =
     Option.bind (annotate_function alloc f H) (\<lambda>H1.
     Option.bind (if LoopPeel Po > 0 then annotate_loops M alloc (LoopPeel Po) (loops f) H1 else Some H1)
       (fold_option (dh_runOnMachineBasicBlock M alloc) (blocks_of M f)))"

text \<open>The accessors: \<open>has\<close> and \<open>get\<close>, which asserts \<open>has\<close>.\<close>

definition has_directive :: "('k \<rightharpoonup> 'v) \<Rightarrow> 'k \<Rightarrow> bool" where
  "has_directive m k \<longleftrightarrow> m k \<noteq> None"

definition get_directive :: "('k \<rightharpoonup> 'v) \<Rightarrow> 'k \<Rightarrow> 'v option" where
  "get_directive m k = (if has_directive m k then m k else None)"

section \<open>Following an edge\<close>

text \<open>
  What the analyses do with a context when they follow an edge between blocks: the directives on
  entering it, the transfer, and the directives on leaving it.
\<close>

definition follow_edge :: "heuristics \<Rightarrow> mbb_edge \<Rightarrow> tcontext \<Rightarrow> tcontext option" where
  "follow_edge H e ctx =
     Option.bind (if has_directive (dh_enter_edge H) e then fold_option ctx_update (the (dh_enter_edge H e)) ctx else Some ctx) (\<lambda>c1.
     Option.bind (ctx_transfer (dh_enclosing H) e c1) (\<lambda>c2.
     if has_directive (dh_leave_edge H) e then fold_option ctx_update (the (dh_leave_edge H e)) c2 else Some c2))"

end
