(* ===== verification/TA_Partition_Loops.thy ===== *)
theory TA_Partition_Loops
  imports TA_Partition
begin

text \<open>
  The contexts of loops.  The directives that the pass puts on the edges of a function make a context
  count the iterations of the loops around the current block: an abstract stack of loops and
  iteration numbers is refined by the tokens of the context.
\<close>

section \<open>Directives on edges\<close>

definition listed :: "('k \<rightharpoonup> 'v list) \<Rightarrow> 'k \<Rightarrow> 'v list" where
  "listed m k = (case m k of None \<Rightarrow> [] | Some vs \<Rightarrow> vs)"

lemma listed_upd [simp]: "listed (m(e \<mapsto> v)) = (listed m)(e := v)"
  by (auto simp: listed_def)

lemma fold_enclosing:
  "fold (\<lambda>t e. e(tk_addr t \<mapsto> d)) p enc a = (if a \<in> tk_addr ` set p then Some d else enc a)"
  by (induction p arbitrary: enc) auto

lemma new_directive_loop:
  assumes "\<forall>t \<in> set p. is_loop_token t"
  shows "new_directive dt p H = Some (\<lparr>d_type = dt, d_tokens = p\<rparr>,
    H\<lparr>dh_enclosing := fold (\<lambda>t e. e(tk_addr t \<mapsto> \<lparr>d_type = dt, d_tokens = p\<rparr>)) p (dh_enclosing H)\<rparr>)"
  using assms by (auto simp: new_directive_def mk_directive_def Let_def)

lemma new_directive_single:
  "new_directive dt [t] H = Some (\<lparr>d_type = dt, d_tokens = [t]\<rparr>,
    H\<lparr>dh_enclosing := (dh_enclosing H)(tk_addr t \<mapsto> \<lparr>d_type = dt, d_tokens = [t]\<rparr>)\<rparr>)"
  by (simp add: new_directive_def mk_directive_def Let_def)

definition knows_tokens :: "token list \<Rightarrow> heuristics \<Rightarrow> bool" where
  "knows_tokens p H \<longleftrightarrow> (\<forall>t \<in> set p. \<exists>d. dh_enclosing H (tk_addr t) = Some d \<and> d_tokens d = p)"

text \<open>What annotating edges with directives of tokens \<open>p\<close> keeps.\<close>

definition same_but :: "token list \<Rightarrow> heuristics \<Rightarrow> heuristics \<Rightarrow> bool" where
  "same_but p H H' \<longleftrightarrow> dh_allocated H' = dh_allocated H \<and>
     (\<forall>a. a \<notin> tk_addr ` set p \<longrightarrow> dh_enclosing H' a = dh_enclosing H a) \<and> (knows_tokens p H \<longrightarrow> knows_tokens p H') \<and>
     dh_before_instr H' = dh_before_instr H \<and> dh_after_instr H' = dh_after_instr H \<and>
     dh_before_func H' = dh_before_func H \<and> dh_after_func H' = dh_after_func H"

lemma same_but_refl: "same_but p H H"
  by (simp add: same_but_def)

lemma same_but_trans: "same_but p H H' \<Longrightarrow> same_but p H' H'' \<Longrightarrow> same_but p H H''"
  by (simp add: same_but_def)

lemma create_on_edges_spec:
  assumes "\<forall>t \<in> set p. is_loop_token t" "distinct es"
  shows "\<exists>H'. fold_option (create_on_edge p) es H = Some H' \<and> same_but p H H' \<and> dh_enter_edge H' = dh_enter_edge H \<and>
    listed (dh_leave_edge H') = (\<lambda>e. listed (dh_leave_edge H) e @ (if e \<in> set es then [\<lparr>d_type = DirCreate, d_tokens = p\<rparr>] else [])) \<and>
    (es \<noteq> [] \<longrightarrow> knows_tokens p H')"
  using assms(2)
proof (induction es arbitrary: H)
  case Nil
  then show ?case by (simp add: same_but_refl)
next
  case (Cons e es)
  let ?d = "\<lparr>d_type = DirCreate, d_tokens = p\<rparr>"
  define H1 where "H1 = (H\<lparr>dh_enclosing := fold (\<lambda>t e. e(tk_addr t \<mapsto> ?d)) p (dh_enclosing H)\<rparr>)
    \<lparr>dh_leave_edge := (dh_leave_edge H)(e \<mapsto> listed (dh_leave_edge H) e @ [?d])\<rparr>"
  have s: "create_on_edge p e H = Some H1"
    unfolding create_on_edge_def new_directive_loop [OF assms(1)] by (simp add: H1_def listed_def)
  have k: "knows_tokens p H1" by (simp add: knows_tokens_def H1_def fold_enclosing)
  then have b: "same_but p H H1" by (simp add: same_but_def H1_def fold_enclosing)
  obtain H' where H': "fold_option (create_on_edge p) es H1 = Some H'" "same_but p H1 H'" "dh_enter_edge H' = dh_enter_edge H1"
    "listed (dh_leave_edge H') = (\<lambda>e. listed (dh_leave_edge H1) e @ (if e \<in> set es then [?d] else []))"
    using Cons.IH [of H1] Cons.prems by auto
  have "knows_tokens p H'" using H'(2) k by (simp add: same_but_def)
  moreover have "listed (dh_leave_edge H') = (\<lambda>x. listed (dh_leave_edge H) x @ (if x \<in> set (e # es) then [?d] else []))"
    unfolding H'(4) using Cons.prems by (auto simp: H1_def)
  moreover have "dh_enter_edge H' = dh_enter_edge H" using H'(3) by (simp add: H1_def)
  ultimately show ?case using s H'(1) same_but_trans [OF b H'(2)] by simp
qed

lemma merge_on_edges_spec:
  assumes "\<forall>t \<in> set p. is_loop_token t" "distinct es"
  shows "\<exists>H'. fold_option (merge_on_edge p) es H = Some H' \<and> same_but p H H' \<and> dh_leave_edge H' = dh_leave_edge H \<and>
    listed (dh_enter_edge H') = (\<lambda>e. (if e \<in> set es then [\<lparr>d_type = DirMerge, d_tokens = p\<rparr>] else []) @ listed (dh_enter_edge H) e)"
  using assms(2)
proof (induction es arbitrary: H)
  case Nil
  then show ?case by (simp add: same_but_refl)
next
  case (Cons e es)
  let ?d = "\<lparr>d_type = DirMerge, d_tokens = p\<rparr>"
  define H1 where "H1 = (H\<lparr>dh_enclosing := fold (\<lambda>t e. e(tk_addr t \<mapsto> ?d)) p (dh_enclosing H)\<rparr>)
    \<lparr>dh_enter_edge := (dh_enter_edge H)(e \<mapsto> ?d # listed (dh_enter_edge H) e)\<rparr>"
  have s: "merge_on_edge p e H = Some H1"
    unfolding merge_on_edge_def new_directive_loop [OF assms(1)] by (simp add: H1_def listed_def)
  have k: "knows_tokens p H1" by (simp add: knows_tokens_def H1_def fold_enclosing)
  then have b: "same_but p H H1" by (simp add: same_but_def H1_def fold_enclosing)
  obtain H' where H': "fold_option (merge_on_edge p) es H1 = Some H'" "same_but p H1 H'" "dh_leave_edge H' = dh_leave_edge H1"
    "listed (dh_enter_edge H') = (\<lambda>e. (if e \<in> set es then [?d] else []) @ listed (dh_enter_edge H1) e)"
    using Cons.IH [of H1] Cons.prems by auto
  moreover have "listed (dh_enter_edge H') = (\<lambda>x. (if x \<in> set (e # es) then [?d] else []) @ listed (dh_enter_edge H) x)"
    unfolding H'(4) using Cons.prems by (auto simp: H1_def)
  moreover have "dh_leave_edge H' = dh_leave_edge H" using H'(3) by (simp add: H1_def)
  ultimately show ?case using s H'(1) same_but_trans [OF b H'(2)] by simp
qed

section \<open>The loops of a function\<close>

text \<open>The order in which the pass visits the loops: a loop before the loops in it.\<close>

fun loops_of :: "mloop \<Rightarrow> mloop list" and all_loops :: "mloop list \<Rightarrow> mloop list" where
  "loops_of (MLoop h bs ls) = MLoop h bs ls # all_loops ls"
| "all_loops [] = []"
| "all_loops (l # ls) = loops_of l @ all_loops ls"

lemma annotate_loops_flat:
  "annotateLoopDirective M alloc peel l H = fold_option (annotate_one M alloc peel) (loops_of l) H"
  "annotate_loops M alloc peel ls H = fold_option (annotate_one M alloc peel) (all_loops ls) H"
proof (induction M alloc peel l H and M alloc peel ls H rule: annotateLoopDirective_annotate_loops.induct)
  case (1 M alloc peel h bs ls H)
  then show ?case by (cases "annotate_one M alloc peel (MLoop h bs ls) H") simp_all
next
  case (3 M alloc peel l ls H)
  then show ?case by (cases "fold_option (annotate_one M alloc peel) (loops_of l) H") (simp_all add: fold_option_append)
qed simp

abbreviation tokens_at :: "machine \<Rightarrow> (nat \<Rightarrow> nat) \<Rightarrow> 32 word \<Rightarrow> nat \<Rightarrow> mloop \<Rightarrow> token list" where
  "tokens_at M alloc peel n l \<equiv> token_set (loop_tokens alloc n peel l (getBackEdgesOfLoop M l))"

lemma set_tokens_at:
  "t \<in> set (tokens_at M alloc peel n l) \<longleftrightarrow>
     (\<exists>i < unat peel. t = \<lparr>tk_addr = alloc (n + i), tk_val = TkLoopPeel l (getBackEdgesOfLoop M l) (of_nat i)\<rparr>) \<or>
     t = \<lparr>tk_addr = alloc (n + unat peel), tk_val = TkLoopIter l (getBackEdgesOfLoop M l) peel\<rparr>"
  by (auto simp: token_set_def loop_tokens_def)

lemma tokens_at_loop: "\<forall>t \<in> set (tokens_at M alloc peel n l). is_loop_token t"
  by (auto simp: set_tokens_at is_loop_token_def)

lemma tokens_at_addr:
  assumes "t \<in> set (tokens_at M alloc peel n l)"
  shows "\<exists>i < n + unat peel + 1. n \<le> i \<and> tk_addr t = alloc i"
  using assms unfolding set_tokens_at
proof (elim disjE exE conjE)
  fix i assume "i < unat peel" "t = \<lparr>tk_addr = alloc (n + i), tk_val = TkLoopPeel l (getBackEdgesOfLoop M l) (of_nat i)\<rparr>"
  then show ?thesis by (intro exI [of _ "n + i"]) simp
next
  assume "t = \<lparr>tk_addr = alloc (n + unat peel), tk_val = TkLoopIter l (getBackEdgesOfLoop M l) peel\<rparr>"
  then show ?thesis by (intro exI [of _ "n + unat peel"]) simp
qed

text \<open>What was allocated before is not touched.\<close>

definition keeps :: "(nat \<Rightarrow> nat) \<Rightarrow> heuristics \<Rightarrow> heuristics \<Rightarrow> bool" where
  "keeps alloc H H' \<longleftrightarrow> dh_allocated H \<le> dh_allocated H' \<and> (\<forall>n < dh_allocated H. dh_enclosing H' (alloc n) = dh_enclosing H (alloc n))"

definition owned :: "(nat \<Rightarrow> nat) \<Rightarrow> heuristics \<Rightarrow> token list \<Rightarrow> bool" where
  "owned alloc H p \<longleftrightarrow> (\<forall>t \<in> set p. \<exists>n < dh_allocated H. tk_addr t = alloc n)"

lemma keeps_refl: "keeps alloc H H"
  by (simp add: keeps_def)

lemma keeps_trans: "keeps alloc H H' \<Longrightarrow> keeps alloc H' H'' \<Longrightarrow> keeps alloc H H''"
  by (simp add: keeps_def)

lemma keeps_owned: "keeps alloc H H' \<Longrightarrow> owned alloc H p \<Longrightarrow> owned alloc H' p"
  unfolding keeps_def owned_def by (meson less_le_trans)

lemma keeps_knows: "keeps alloc H H' \<Longrightarrow> owned alloc H p \<Longrightarrow> knows_tokens p H \<Longrightarrow> knows_tokens p H'"
  unfolding keeps_def owned_def knows_tokens_def by metis

abbreviation creates :: "mloop \<times> token list \<Rightarrow> directive" where
  "creates e \<equiv> \<lparr>d_type = DirCreate, d_tokens = snd e\<rparr>"

abbreviation merges :: "mloop \<times> token list \<Rightarrow> directive" where
  "merges e \<equiv> \<lparr>d_type = DirMerge, d_tokens = snd e\<rparr>"

definition enters :: "machine \<Rightarrow> mbb_edge \<Rightarrow> mloop \<times> token list \<Rightarrow> bool" where
  "enters M e x \<longleftrightarrow> e \<in> set (getIncomingEdgesOfLoop M (fst x))"

definition exits :: "machine \<Rightarrow> mbb_edge \<Rightarrow> mloop \<times> token list \<Rightarrow> bool" where
  "exits M e x \<longleftrightarrow> e \<in> set (getExitingEdgesOfLoop M (fst x))"

text \<open>The directives that a table of loops and their tokens puts on the edges.\<close>

definition puts :: "machine \<Rightarrow> (mloop \<times> token list) list \<Rightarrow> heuristics \<Rightarrow> heuristics \<Rightarrow> bool" where
  "puts M T H H' \<longleftrightarrow>
     listed (dh_leave_edge H') = (\<lambda>e. listed (dh_leave_edge H) e @ List.map creates (filter (enters M e) T)) \<and>
     listed (dh_enter_edge H') = (\<lambda>e. List.map merges (rev (filter (exits M e) T)) @ listed (dh_enter_edge H) e)"

lemma puts_Nil: "puts M [] H H"
  by (simp add: puts_def)

lemma puts_append: "puts M T H H' \<Longrightarrow> puts M T' H' H'' \<Longrightarrow> puts M (T @ T') H H''"
  by (simp add: puts_def)

definition known :: "machine \<Rightarrow> (nat \<Rightarrow> nat) \<Rightarrow> (mloop \<times> token list) list \<Rightarrow> heuristics \<Rightarrow> bool" where
  "known M alloc T H \<longleftrightarrow> (\<forall>x \<in> set T. owned alloc H (snd x) \<and> (getIncomingEdgesOfLoop M (fst x) \<noteq> [] \<longrightarrow> knows_tokens (snd x) H))"

lemma known_keeps: "keeps alloc H H' \<Longrightarrow> known M alloc T H \<Longrightarrow> known M alloc T H'"
  unfolding known_def using keeps_owned keeps_knows by metis

lemma annotate_one_spec:
  assumes "inj alloc"
  shows "\<exists>H'. annotate_one M alloc peel l H = Some H' \<and> dh_allocated H' = dh_allocated H + unat peel + 1 \<and> keeps alloc H H' \<and>
    puts M [(l, tokens_at M alloc peel (dh_allocated H) l)] H H' \<and> known M alloc [(l, tokens_at M alloc peel (dh_allocated H) l)] H'"
proof -
  let ?p = "tokens_at M alloc peel (dh_allocated H) l" and ?H = "H\<lparr>dh_allocated := dh_allocated H + unat peel + 1\<rparr>"
  have lp: "\<forall>t \<in> set ?p. is_loop_token t" by (rule tokens_at_loop)
  have di: "distinct (getIncomingEdgesOfLoop M l)" by (simp add: getIncomingEdgesOfLoop_def)
  have de: "distinct (getExitingEdgesOfLoop M l)" by (simp add: getExitingEdgesOfLoop_def)
  obtain H1 where H1: "fold_option (create_on_edge ?p) (getIncomingEdgesOfLoop M l) ?H = Some H1" "same_but ?p ?H H1"
    "dh_enter_edge H1 = dh_enter_edge ?H"
    "listed (dh_leave_edge H1) = (\<lambda>e. listed (dh_leave_edge ?H) e @ (if e \<in> set (getIncomingEdgesOfLoop M l) then [\<lparr>d_type = DirCreate, d_tokens = ?p\<rparr>] else []))"
    "getIncomingEdgesOfLoop M l \<noteq> [] \<longrightarrow> knows_tokens ?p H1"
    using create_on_edges_spec [OF lp di, of ?H] by blast
  obtain H2 where H2: "fold_option (merge_on_edge ?p) (getExitingEdgesOfLoop M l) H1 = Some H2" "same_but ?p H1 H2"
    "dh_leave_edge H2 = dh_leave_edge H1"
    "listed (dh_enter_edge H2) = (\<lambda>e. (if e \<in> set (getExitingEdgesOfLoop M l) then [\<lparr>d_type = DirMerge, d_tokens = ?p\<rparr>] else []) @ listed (dh_enter_edge H1) e)"
    using merge_on_edges_spec [OF lp de, of H1] by blast
  have b: "same_but ?p ?H H2" by (rule same_but_trans [OF H1(2) H2(2)])
  have r: "annotate_one M alloc peel l H = Some H2" using H1(1) H2(1) by (simp add: annotate_one_def Let_def)
  have n: "dh_allocated H2 = dh_allocated H + unat peel + 1" using b by (simp add: same_but_def)
  have "dh_enclosing H2 (alloc n) = dh_enclosing H (alloc n)" if "n < dh_allocated H" for n
  proof -
    have "alloc n \<notin> tk_addr ` set ?p"
    proof
      assume "alloc n \<in> tk_addr ` set ?p"
      then obtain t where t: "t \<in> set ?p" "alloc n = tk_addr t" by (rule imageE) blast
      obtain i where "dh_allocated H \<le> i" "alloc n = alloc i" using tokens_at_addr [OF t(1)] t(2) by auto
      then show False using that assms by (simp add: inj_eq)
    qed
    then show ?thesis using b by (simp add: same_but_def)
  qed
  then have k: "keeps alloc H H2" using n by (simp add: keeps_def)
  have "listed (dh_leave_edge H2) = (\<lambda>e. listed (dh_leave_edge H) e @ List.map creates (filter (enters M e) [(l, ?p)]))"
    unfolding H2(3) H1(4) by (rule ext) (simp add: enters_def)
  moreover have "listed (dh_enter_edge H2) = (\<lambda>e. List.map merges (rev (filter (exits M e) [(l, ?p)])) @ listed (dh_enter_edge H) e)"
    unfolding H2(4) H1(3) by (rule ext) (simp add: exits_def)
  ultimately have p: "puts M [(l, ?p)] H H2" unfolding puts_def by blast
  have "owned alloc H2 ?p" unfolding owned_def n using tokens_at_addr by blast
  moreover have "getIncomingEdgesOfLoop M l \<noteq> [] \<longrightarrow> knows_tokens ?p H2" using H1(5) H2(2) by (simp add: same_but_def)
  ultimately have "known M alloc [(l, ?p)] H2" by (simp add: known_def)
  then show ?thesis using r n k p by blast
qed

fun token_table :: "machine \<Rightarrow> (nat \<Rightarrow> nat) \<Rightarrow> 32 word \<Rightarrow> nat \<Rightarrow> mloop list \<Rightarrow> (mloop \<times> token list) list" where
  "token_table M alloc peel n [] = []"
| "token_table M alloc peel n (l # ls) = (l, tokens_at M alloc peel n l) # token_table M alloc peel (n + unat peel + 1) ls"

lemma token_table_fst [simp]: "List.map fst (token_table M alloc peel n ls) = ls"
  by (induction ls arbitrary: n) auto

lemma token_table_tokens: "x \<in> set (token_table M alloc peel n ls) \<Longrightarrow> \<exists>m. snd x = tokens_at M alloc peel m (fst x)"
  by (induction ls arbitrary: n) auto

lemma annotate_loops_spec:
  assumes "inj alloc"
  shows "\<exists>H'. fold_option (annotate_one M alloc peel) ls H = Some H' \<and> keeps alloc H H' \<and>
    puts M (token_table M alloc peel (dh_allocated H) ls) H H' \<and> known M alloc (token_table M alloc peel (dh_allocated H) ls) H'"
proof (induction ls arbitrary: H)
  case Nil
  then show ?case by (simp add: keeps_refl puts_Nil known_def)
next
  case (Cons l ls)
  let ?x = "(l, tokens_at M alloc peel (dh_allocated H) l)"
  obtain H1 where H1: "annotate_one M alloc peel l H = Some H1" "dh_allocated H1 = dh_allocated H + unat peel + 1" "keeps alloc H H1"
    "puts M [?x] H H1" "known M alloc [?x] H1"
    using annotate_one_spec [OF assms, of M peel l H] by blast
  obtain H' where H': "fold_option (annotate_one M alloc peel) ls H1 = Some H'" "keeps alloc H1 H'"
    "puts M (token_table M alloc peel (dh_allocated H1) ls) H1 H'" "known M alloc (token_table M alloc peel (dh_allocated H1) ls) H'"
    using Cons.IH [of H1] by blast
  have "puts M ([?x] @ token_table M alloc peel (dh_allocated H1) ls) H H'" by (rule puts_append [OF H1(4) H'(3)])
  moreover have "known M alloc [?x] H'" by (rule known_keeps [OF H'(2) H1(5)])
  ultimately show ?case using H1(1,2) H'(1,4) keeps_trans [OF H1(3) H'(2)] by (simp add: known_def)
qed

section \<open>The directives of all functions\<close>

definition same_edges :: "heuristics \<Rightarrow> heuristics \<Rightarrow> bool" where
  "same_edges H H' \<longleftrightarrow> dh_enter_edge H' = dh_enter_edge H \<and> dh_leave_edge H' = dh_leave_edge H"

lemma inj_fresh: "inj alloc \<Longrightarrow> n < (m :: nat) \<Longrightarrow> alloc n \<noteq> alloc m"
  by (auto simp: inj_eq)

lemma annotate_function_keeps:
  assumes "annotate_function alloc g H = Some H'" "inj alloc"
  shows "keeps alloc H H' \<and> same_edges H H'"
  using assms(1) inj_fresh [OF assms(2)] by (auto simp: annotate_function_def Let_def new_directive_single keeps_def same_edges_def)

lemma annotate_call_keeps:
  assumes "annotate_call M alloc i H = Some H'" "inj alloc"
  shows "keeps alloc H H' \<and> same_edges H H'"
  using assms(1) inj_fresh [OF assms(2)]
  by (auto simp: annotate_call_def Let_def new_directive_single keeps_def same_edges_def split: if_splits option.splits)

lemma keeps_same_trans: "keeps alloc H H' \<and> same_edges H H' \<Longrightarrow> keeps alloc H' H'' \<and> same_edges H' H'' \<Longrightarrow> keeps alloc H H'' \<and> same_edges H H''"
  by (simp add: same_edges_def keeps_def)

lemma fold_keeps:
  assumes "fold_option f xs H = Some H'" "\<And>x H H'. f x H = Some H' \<Longrightarrow> keeps alloc H H' \<and> same_edges H H'"
  shows "keeps alloc H H' \<and> same_edges H H'"
proof (rule fold_option_invariant [OF assms(1), where P = "\<lambda>s. keeps alloc H s \<and> same_edges H s"])
  show "keeps alloc H H \<and> same_edges H H" by (simp add: keeps_refl same_edges_def)
  show "keeps alloc H s' \<and> same_edges H s'" if "f x s = Some s'" "keeps alloc H s \<and> same_edges H s" for x s s'
    by (rule keeps_same_trans [OF that(2) assms(2) [OF that(1)]])
qed

lemma annotate_blocks_keeps:
  assumes "fold_option (dh_runOnMachineBasicBlock M alloc) bs H = Some H'" "inj alloc"
  shows "keeps alloc H H' \<and> same_edges H H'"
  by (rule fold_keeps [OF assms(1)], unfold dh_runOnMachineBasicBlock_def, erule fold_keeps) (rule annotate_call_keeps [OF _ assms(2)])

lemma puts_same: "same_edges H H1 \<Longrightarrow> puts M T H1 H2 \<Longrightarrow> same_edges H2 H' \<Longrightarrow> puts M T H H'"
  by (simp add: puts_def same_edges_def)

definition is_table :: "machine \<Rightarrow> (nat \<Rightarrow> nat) \<Rightarrow> 32 word \<Rightarrow> mloop list \<Rightarrow> (mloop \<times> token list) list \<Rightarrow> bool" where
  "is_table M alloc peel ls T \<longleftrightarrow> List.map fst T = ls \<and> (\<forall>x \<in> set T. \<exists>n. snd x = tokens_at M alloc peel n (fst x))"

lemma run_function_spec:
  assumes "dh_runOnMachineFunction M alloc Po loops g H = Some H'" "inj alloc" "LoopPeel Po > 0"
  shows "\<exists>T. is_table M alloc (LoopPeel Po) (all_loops (loops g)) T \<and> keeps alloc H H' \<and> puts M T H H' \<and> known M alloc T H'"
proof -
  obtain H1 where H1: "annotate_function alloc g H = Some H1"
    "Option.bind (annotate_loops M alloc (LoopPeel Po) (loops g) H1) (fold_option (dh_runOnMachineBasicBlock M alloc) (blocks_of M g)) = Some H'"
    using assms(1,3) by (auto simp: dh_runOnMachineFunction_def bind_eq_Some_conv)
  let ?T = "token_table M alloc (LoopPeel Po) (dh_allocated H1) (all_loops (loops g))"
  obtain H2 where H2: "fold_option (annotate_one M alloc (LoopPeel Po)) (all_loops (loops g)) H1 = Some H2" "keeps alloc H1 H2"
    "puts M ?T H1 H2" "known M alloc ?T H2"
    using annotate_loops_spec [OF assms(2), of M "LoopPeel Po" "all_loops (loops g)" H1] by blast
  have b: "fold_option (dh_runOnMachineBasicBlock M alloc) (blocks_of M g) H2 = Some H'"
    using H1(2) H2(1) by (simp add: annotate_loops_flat)
  have k1: "keeps alloc H H1 \<and> same_edges H H1" by (rule annotate_function_keeps [OF H1(1) assms(2)])
  have k2: "keeps alloc H2 H' \<and> same_edges H2 H'" by (rule annotate_blocks_keeps [OF b assms(2)])
  have "is_table M alloc (LoopPeel Po) (all_loops (loops g)) ?T" using token_table_tokens by (simp add: is_table_def)
  moreover have "keeps alloc H H'" using k1 k2 H2(2) keeps_trans by blast
  moreover have "puts M ?T H H'" using k1 k2 H2(3) puts_same by blast
  moreover have "known M alloc ?T H'" using k2 H2(4) known_keeps by blast
  ultimately show ?thesis by blast
qed

text \<open>The edges of the loops of a function are in the function.\<close>

definition edges_inside :: "machine \<Rightarrow> mfunc \<Rightarrow> mloop list \<Rightarrow> bool" where
  "edges_inside M g ls \<longleftrightarrow> (\<forall>l \<in> set ls. \<forall>e \<in> set (getIncomingEdgesOfLoop M l) \<union> set (getExitingEdgesOfLoop M l). fst (fst e) = g)"

definition covered :: "machine \<Rightarrow> (nat \<Rightarrow> nat) \<Rightarrow> mfunc \<Rightarrow> (mloop \<times> token list) list \<Rightarrow> heuristics \<Rightarrow> bool" where
  "covered M alloc f T H \<longleftrightarrow> known M alloc T H \<and>
     (\<forall>e. fst (fst e) = f \<longrightarrow> listed (dh_leave_edge H) e = List.map creates (filter (enters M e) T) \<and>
       listed (dh_enter_edge H) e = List.map merges (rev (filter (exits M e) T)))"

lemma puts_elsewhere:
  assumes "puts M T H H'" "edges_inside M g (List.map fst T)" "fst (fst e) \<noteq> g"
  shows "listed (dh_leave_edge H') e = listed (dh_leave_edge H) e" "listed (dh_enter_edge H') e = listed (dh_enter_edge H) e"
proof -
  have "filter (enters M e) T = []" "filter (exits M e) T = []"
    using assms(2,3) by (auto simp: filter_empty_conv edges_inside_def enters_def exits_def)
  then show "listed (dh_leave_edge H') e = listed (dh_leave_edge H) e" "listed (dh_enter_edge H') e = listed (dh_enter_edge H) e"
    using assms(1) by (simp_all add: puts_def)
qed

lemma covered_keeps:
  assumes "puts M T' H H'" "edges_inside M g (List.map fst T')" "g \<noteq> f" "keeps alloc H H'" "covered M alloc f T H"
  shows "covered M alloc f T H'"
proof -
  have e: "listed (dh_leave_edge H') e = listed (dh_leave_edge H) e" "listed (dh_enter_edge H') e = listed (dh_enter_edge H) e"
    if "fst (fst e) = f" for e
    using puts_elsewhere [OF assms(1,2), of e] assms(3) that by simp_all
  have "known M alloc T H'" using known_keeps assms(4,5) unfolding covered_def by blast
  then show ?thesis using assms(5) e unfolding covered_def by metis
qed

lemma run_functions_covered:
  assumes "fold_option (dh_runOnMachineFunction M alloc Po loops) fs H = Some H'" "inj alloc" "LoopPeel Po > 0"
    and "distinct fs" "f \<in> set fs" "\<forall>g \<in> set fs. edges_inside M g (all_loops (loops g))"
    and "\<And>e. fst (fst e) = f \<Longrightarrow> listed (dh_leave_edge H) e = [] \<and> listed (dh_enter_edge H) e = []"
  shows "\<exists>T. is_table M alloc (LoopPeel Po) (all_loops (loops f)) T \<and> covered M alloc f T H'"
  using assms
proof (induction fs arbitrary: H)
  case (Cons g fs)
  obtain H1 where H1: "dh_runOnMachineFunction M alloc Po loops g H = Some H1" "fold_option (dh_runOnMachineFunction M alloc Po loops) fs H1 = Some H'"
    using Cons.prems(1) by (auto simp: bind_eq_Some_conv)
  obtain T where T: "is_table M alloc (LoopPeel Po) (all_loops (loops g)) T" "keeps alloc H H1" "puts M T H H1" "known M alloc T H1"
    using run_function_spec [OF H1(1) Cons.prems(2,3)] by blast
  show ?case
  proof (cases "g = f")
    case True
    have "covered M alloc f T H1"
      unfolding covered_def using T(3,4) Cons.prems(7) by (simp add: puts_def)
    moreover have "covered M alloc f T s'" if g': "g' \<in> set fs" "dh_runOnMachineFunction M alloc Po loops g' s = Some s'" "covered M alloc f T s" for g' s s'
    proof -
      obtain T' where T': "is_table M alloc (LoopPeel Po) (all_loops (loops g')) T'" "keeps alloc s s'" "puts M T' s s'"
        using run_function_spec [OF g'(2) Cons.prems(2,3)] by blast
      have "edges_inside M g' (List.map fst T')" using T'(1) Cons.prems(6) g'(1) by (simp add: is_table_def)
      moreover have "g' \<noteq> f" using g'(1) Cons.prems(4) True by auto
      ultimately show ?thesis using covered_keeps T'(2,3) g'(3) by blast
    qed
    ultimately have "covered M alloc f T H'" by (rule fold_option_invariant [OF H1(2)]) blast+
    then show ?thesis using T(1) True by blast
  next
    case False
    have ei: "edges_inside M g (List.map fst T)" using T(1) Cons.prems(6) by (simp add: is_table_def)
    show ?thesis
    proof (rule Cons.IH [OF H1(2) Cons.prems(2,3)])
      show "distinct fs" "f \<in> set fs" "\<forall>g \<in> set fs. edges_inside M g (all_loops (loops g))" using Cons.prems(4-6) False by auto
      fix e :: mbb_edge assume e: "fst (fst e) = f"
      then show "listed (dh_leave_edge H1) e = [] \<and> listed (dh_enter_edge H1) e = []"
        using puts_elsewhere [OF T(3) ei, of e] Cons.prems(7) [OF e] False by simp
    qed
  qed
qed simp

section \<open>The stack of loops\<close>

text \<open>
  The abstract context of a block: the loops around it, from the outermost to the innermost, each with
  the number of times its back edges were taken since it was entered.
\<close>

type_synonym loop_stack = "(mloop \<times> nat) list"

definition stack_step :: "mloop list \<Rightarrow> mbb_edge \<Rightarrow> loop_stack \<Rightarrow> loop_stack" where
  "stack_step ls e st =
     (let kept = takeWhile (\<lambda>x. snd e \<in> set (ml_blocks (fst x))) st;
          counted = (if kept \<noteq> [] \<and> snd e = ml_header (fst (last kept))
                     then butlast kept @ [(fst (last kept), Suc (snd (last kept)))] else kept)
      in counted @ List.map (\<lambda>l. (l, 0)) (filter (\<lambda>l. ml_header l = snd e \<and> fst e \<notin> set (ml_blocks l)) ls))"

definition iteration_value :: "machine \<Rightarrow> 32 word \<Rightarrow> mloop \<Rightarrow> nat \<Rightarrow> token_value" where
  "iteration_value M peel l k =
     (if k < unat peel then TkLoopPeel l (getBackEdgesOfLoop M l) (of_nat k) else TkLoopIter l (getBackEdgesOfLoop M l) peel)"

text \<open>Loops of LLVM: entered at the header only, and one within the other or apart; outer loops first.\<close>

definition well_nested :: "machine \<Rightarrow> mloop list \<Rightarrow> bool" where
  "well_nested M ls \<longleftrightarrow>
     sorted_wrt (\<lambda>l k. set (ml_blocks k) \<subseteq> set (ml_blocks l) - {ml_header l} \<or> set (ml_blocks k) \<inter> set (ml_blocks l) = {}) ls \<and>
     (\<forall>l \<in> set ls. ml_header l \<in> set (ml_blocks l) \<and>
        (\<forall>b \<in> set (ml_blocks l). \<forall>a \<in> set (m_preds M b). a \<notin> set (ml_blocks l) \<longrightarrow> b = ml_header l))"

fun path :: "machine \<Rightarrow> mbb \<Rightarrow> mbb_edge list \<Rightarrow> bool" where
  "path M b [] = True"
| "path M b (e # es) \<longleftrightarrow>
     fst e = b \<and> snd e \<in> set (m_succs M b) \<and> b \<in> set (m_preds M (snd e)) \<and> fst (snd e) = fst b \<and> path M (snd e) es"

lemma sorted_wrt_filter_while:
  assumes "sorted_wrt (\<lambda>x y. Q y \<longrightarrow> Q x) xs"
  shows "takeWhile Q xs = filter Q xs" "dropWhile Q xs = filter (\<lambda>x. \<not> Q x) xs"
  using assms by (induction xs) (auto simp: filter_empty_conv filter_id_conv)

lemma well_nested_distinct: "well_nested M ls \<Longrightarrow> distinct ls"
  unfolding well_nested_def
proof (induction ls)
  case (Cons l ls)
  then have h: "ml_header l \<in> set (ml_blocks l)" by simp
  have "l \<notin> set ls" using Cons.prems h by auto
  then show ?case using Cons by simp
qed simp

abbreviation contains :: "mbb \<Rightarrow> mloop \<Rightarrow> bool" where
  "contains b l \<equiv> b \<in> set (ml_blocks l)"

lemma sorted_wrt_mono_on: "sorted_wrt P xs \<Longrightarrow> (\<And>x y. x \<in> set xs \<Longrightarrow> y \<in> set xs \<Longrightarrow> P x y \<Longrightarrow> Q x y) \<Longrightarrow> sorted_wrt Q xs"
  by (induction xs) auto

lemma nested_around:
  assumes "well_nested M ls"
  shows "sorted_wrt (\<lambda>l k. contains c k \<longrightarrow> contains c l) (filter (contains b) ls)"
proof -
  have s: "sorted_wrt (\<lambda>l k. set (ml_blocks k) \<subseteq> set (ml_blocks l) - {ml_header l} \<or> set (ml_blocks k) \<inter> set (ml_blocks l) = {})
      (filter (contains b) ls)"
    using assms unfolding well_nested_def by (intro sorted_wrt_filter) blast
  show ?thesis
  proof (rule sorted_wrt_mono_on [OF s])
    fix l k assume "l \<in> set (filter (contains b) ls)" "k \<in> set (filter (contains b) ls)"
      and d: "set (ml_blocks k) \<subseteq> set (ml_blocks l) - {ml_header l} \<or> set (ml_blocks k) \<inter> set (ml_blocks l) = {}"
    then have "contains b l" "contains b k" by simp_all
    then show "contains c k \<longrightarrow> contains c l" using d by blast
  qed
qed

text \<open>The loops around the target of an edge: those that stay, and those that are entered.\<close>

lemma loops_after_edge:
  assumes "well_nested M ls" "b \<in> set (m_preds M c)"
  shows "filter (contains c) ls = takeWhile (contains c) (filter (contains b) ls) @ filter (\<lambda>l. ml_header l = c \<and> \<not> contains b l) ls"
proof -
  have "takeWhile (contains c) (filter (contains b) ls) = filter (contains c) (filter (contains b) ls)"
    by (rule sorted_wrt_filter_while(1) [OF nested_around [OF assms(1)]])
  also have "\<dots> = filter (contains b) (filter (contains c) ls)" by (simp add: conj_commute)
  also have "\<dots> = takeWhile (contains b) (filter (contains c) ls)"
    by (rule sorted_wrt_filter_while(1) [OF nested_around [OF assms(1)], symmetric])
  finally have t: "takeWhile (contains c) (filter (contains b) ls) = takeWhile (contains b) (filter (contains c) ls)" .
  have "dropWhile (contains b) (filter (contains c) ls) = filter (\<lambda>l. \<not> contains b l) (filter (contains c) ls)"
    by (rule sorted_wrt_filter_while(2) [OF nested_around [OF assms(1)]])
  also have "\<dots> = filter (\<lambda>l. ml_header l = c \<and> \<not> contains b l) ls"
    unfolding filter_filter
  proof (rule filter_cong [OF refl])
    fix l assume "l \<in> set ls"
    then have "ml_header l \<in> set (ml_blocks l)" "contains c l \<Longrightarrow> \<not> contains b l \<Longrightarrow> c = ml_header l"
      using assms unfolding well_nested_def by blast+
    then show "(contains c l \<and> \<not> contains b l) = (ml_header l = c \<and> \<not> contains b l)" by blast
  qed
  finally show ?thesis unfolding t by (metis takeWhile_dropWhile_id)
qed

section \<open>Tokens of a stack\<close>

definition represents :: "machine \<Rightarrow> 32 word \<Rightarrow> (mloop \<times> token list) list \<Rightarrow> token \<Rightarrow> mloop \<times> nat \<Rightarrow> bool" where
  "represents M peel T t x \<longleftrightarrow>
     (\<exists>p. (fst x, p) \<in> set T \<and> t \<in> set p \<and> tk_val t = iteration_value M peel (fst x) (snd x) \<and> getIncomingEdgesOfLoop M (fst x) \<noteq> [])"

lemma of_nat_eq_below:
  assumes "(of_nat i :: 32 word) = of_nat k" "i \<le> unat (n :: 32 word)" "k \<le> unat n"
  shows "i = k"
proof -
  have b: "unat n < 2 ^ LENGTH(32)" by (rule unsigned_less)
  have "unat (of_nat i :: 32 word) = i" "unat (of_nat k :: 32 word) = k"
    using assms(2,3) b by (simp_all add: unsigned_of_nat take_bit_nat_eq_self)
  then show ?thesis using assms(1) by metis
qed

lemma counted_value:
  assumes "t \<in> set (tokens_at M alloc peel n l)" "counts_iteration (of_nat k) t" "k \<le> unat peel"
  shows "tk_val t = iteration_value M peel l k"
  using assms(1) unfolding set_tokens_at
proof (elim disjE exE conjE)
  fix i assume i: "i < unat peel" "t = \<lparr>tk_addr = alloc (n + i), tk_val = TkLoopPeel l (getBackEdgesOfLoop M l) (of_nat i)\<rparr>"
  then have "i = k" using assms(2,3) by (intro of_nat_eq_below [of _ _ peel]) (simp_all add: counts_iteration_def)
  then show ?thesis using i by (simp add: iteration_value_def)
next
  assume t: "t = \<lparr>tk_addr = alloc (n + unat peel), tk_val = TkLoopIter l (getBackEdgesOfLoop M l) peel\<rparr>"
  then have "of_nat (unat peel) = (of_nat k :: 32 word)" using assms(2) by (simp add: counts_iteration_def)
  then have "unat peel = k" by (rule of_nat_eq_below [OF _ order_refl assms(3)])
  then show ?thesis using t by (simp add: iteration_value_def)
qed

lemma counted_exists:
  assumes "k \<le> unat peel"
  shows "\<exists>t \<in> set (tokens_at M alloc peel n l). counts_iteration (of_nat k) t"
proof (cases "k = unat peel")
  case True
  let ?t = "\<lparr>tk_addr = alloc (n + unat peel), tk_val = TkLoopIter l (getBackEdgesOfLoop M l) peel\<rparr>"
  have "?t \<in> set (tokens_at M alloc peel n l)" unfolding set_tokens_at by simp
  moreover have "counts_iteration (of_nat k) ?t" using True by (simp add: counts_iteration_def)
  ultimately show ?thesis by blast
next
  case False
  let ?t = "\<lparr>tk_addr = alloc (n + k), tk_val = TkLoopPeel l (getBackEdgesOfLoop M l) (of_nat k)\<rparr>"
  have "?t \<in> set (tokens_at M alloc peel n l)" unfolding set_tokens_at using False assms by (intro disjI1 exI [of _ k]) simp
  moreover have "counts_iteration (of_nat k) ?t" by (simp add: counts_iteration_def)
  ultimately show ?thesis by blast
qed

lemma create_loop_counts:
  assumes "\<forall>t \<in> set p. is_loop_token t" "\<exists>t \<in> set p. counts_iteration 0 t"
  shows "\<exists>t \<in> set p. counts_iteration 0 t \<and> create_loop p ctx = Some (ctx @ [t])"
  using assms
proof (induction p)
  case (Cons u p)
  show ?case
  proof (cases "counts_iteration 0 u")
    case True
    then have "create_loop (u # p) ctx = Some (ctx @ [u])" by (auto simp: counts_iteration_def split: token_value.splits)
    then show ?thesis using True by auto
  next
    case False
    then have "create_loop (u # p) ctx = create_loop p ctx"
      using Cons.prems(1) by (auto simp: counts_iteration_def is_loop_token_def split: token_value.splits)
    then show ?thesis using False Cons by auto
  qed
qed simp

lemma creates_push:
  assumes "is_table M alloc peel ls T" "set xs \<subseteq> set T" "\<forall>x \<in> set xs. getIncomingEdgesOfLoop M (fst x) \<noteq> []"
  shows "\<exists>ts. fold_option ctx_update (List.map creates xs) ctx = Some (ctx @ ts) \<and>
    list_all2 (represents M peel T) ts (List.map (\<lambda>x. (fst x, 0)) xs)"
  using assms(2,3)
proof (induction xs arbitrary: ctx)
  case (Cons x xs)
  obtain n where n: "snd x = tokens_at M alloc peel n (fst x)" using assms(1) Cons.prems(1) by (auto simp: is_table_def)
  have "\<exists>t \<in> set (snd x). counts_iteration 0 t" unfolding n using counted_exists [of 0 peel] by simp
  then obtain t where t: "t \<in> set (snd x)" "counts_iteration 0 t" "create_loop (snd x) ctx = Some (ctx @ [t])"
    using create_loop_counts [of "snd x" ctx] tokens_at_loop unfolding n by blast
  have v: "tk_val t = iteration_value M peel (fst x) 0"
    by (rule counted_value [OF t(1) [unfolded n]]) (use t(2) in simp_all)
  obtain ts where ts: "fold_option ctx_update (List.map creates xs) (ctx @ [t]) = Some ((ctx @ [t]) @ ts)"
    "list_all2 (represents M peel T) ts (List.map (\<lambda>x. (fst x, 0)) xs)"
    using Cons.IH [of "ctx @ [t]"] Cons.prems by auto
  have "(fst x, snd x) \<in> set T" using Cons.prems(1) by simp
  then have "represents M peel T t (fst x, 0)" unfolding represents_def
    by (intro exI [of _ "snd x"]) (use t(1) v Cons.prems(2) in auto)
  then have "list_all2 (represents M peel T) (t # ts) (List.map (\<lambda>x. (fst x, 0)) (x # xs))" using ts(2) by simp
  moreover have "fold_option ctx_update (List.map creates (x # xs)) ctx = Some (ctx @ t # ts)"
    using ts(1) t(3) by (simp add: ctx_update_def)
  ultimately show ?case by blast
qed simp

lemma merges_pop:
  assumes "list_all2 (\<lambda>t x. t \<in> set (snd x)) ts xs"
  shows "fold_option ctx_update (List.map merges (rev xs)) (ctx @ ts) = Some ctx"
  using assms
proof (induction xs arbitrary: ts rule: rev_induct)
  case (snoc x xs)
  obtain us t where ts: "ts = us @ [t]" "list_all2 (\<lambda>t x. t \<in> set (snd x)) us xs" "t \<in> set (snd x)"
    using snoc.prems by (auto simp: list_all2_append2 list_all2_Cons2)
  have "\<exists>u \<in> set (snd x). tk_addr u = tk_addr t" using ts(3) by blast
  then have "ctx_update (merges x) (ctx @ us @ [t]) = Some (ctx @ us)" by (simp add: ctx_update_def butlast_append)
  then show ?case using snoc.IH [OF ts(2)] ts(1) by simp
qed simp

lemma backedge_iff: "e \<in> set (getBackEdgesOfLoop M l) \<longleftrightarrow> snd e = ml_header l \<and> fst e \<in> set (m_preds M (ml_header l)) \<and> contains (fst e) l"
  by (cases e) (auto simp: getBackEdgesOfLoop_def)

lemma incoming_iff: "e \<in> set (getIncomingEdgesOfLoop M l) \<longleftrightarrow> snd e = ml_header l \<and> fst e \<in> set (m_preds M (ml_header l)) \<and> \<not> contains (fst e) l"
  by (cases e) (auto simp: getIncomingEdgesOfLoop_def)

lemma exiting_iff: "e \<in> set (getExitingEdgesOfLoop M l) \<longleftrightarrow> contains (fst e) l \<and> snd e \<in> set (m_succs M (fst e)) \<and> \<not> contains (snd e) l"
  by (cases e) (auto simp: getExitingEdgesOfLoop_def)

lemma transfer_other:
  assumes "represents M peel T t x" "e \<notin> set (getBackEdgesOfLoop M (fst x))"
  shows "ctx_transfer enc e (ctx @ [t]) = Some (ctx @ [t])"
proof -
  have "tk_val t = iteration_value M peel (fst x) (snd x)" using assms(1) by (auto simp: represents_def)
  then show ?thesis using assms(2) by (simp add: ctx_transfer_def iteration_value_def)
qed

lemma transfer_counts:
  assumes "represents M peel T t x" "e \<in> set (getBackEdgesOfLoop M (fst x))" "known M alloc T H" "is_table M alloc peel ls T"
  shows "\<exists>t'. ctx_transfer (dh_enclosing H) e (ctx @ [t]) = Some (ctx @ [t']) \<and> represents M peel T t' (fst x, Suc (snd x))"
proof -
  obtain p where p: "(fst x, p) \<in> set T" "t \<in> set p" "tk_val t = iteration_value M peel (fst x) (snd x)"
    "getIncomingEdgesOfLoop M (fst x) \<noteq> []" using assms(1) by (auto simp: represents_def)
  show ?thesis
  proof (cases "snd x < unat peel")
    case False
    then have "iteration_value M peel (fst x) (Suc (snd x)) = iteration_value M peel (fst x) (snd x)" by (simp add: iteration_value_def)
    then have "represents M peel T t (fst x, Suc (snd x))" using p unfolding represents_def by auto
    moreover have "ctx_transfer (dh_enclosing H) e (ctx @ [t]) = Some (ctx @ [t])"
      using p(3) False by (simp add: ctx_transfer_def iteration_value_def)
    ultimately show ?thesis by blast
  next
    case True
    have v: "tk_val t = TkLoopPeel (fst x) (getBackEdgesOfLoop M (fst x)) (of_nat (snd x))" using p(3) True by (simp add: iteration_value_def)
    have "knows_tokens p H" using assms(3) p(1,4) unfolding known_def by force
    then obtain d where d: "dh_enclosing H (tk_addr t) = Some d" "d_tokens d = p" using p(2) by (auto simp: knows_tokens_def)
    obtain n where n: "p = tokens_at M alloc peel n (fst x)" using assms(4) p(1) unfolding is_table_def by force
    have "\<exists>u \<in> set p. counts_iteration (of_nat (Suc (snd x))) u" unfolding n
      by (rule counted_exists) (use True in simp)
    then obtain t' where t': "List.find (counts_iteration (of_nat (Suc (snd x)))) p = Some t'"
      by (cases "List.find (counts_iteration (of_nat (Suc (snd x)))) p") (auto simp: find_None_iff)
    have m: "t' \<in> set p" and c: "counts_iteration (of_nat (Suc (snd x))) t'" using t' by (auto simp: find_Some_iff)
    have "tk_val t' = iteration_value M peel (fst x) (Suc (snd x))"
      by (rule counted_value [OF m [unfolded n] c]) (use True in simp)
    then have "represents M peel T t' (fst x, Suc (snd x))" using p(1,4) m unfolding represents_def by auto
    moreover have "of_nat (Suc (snd x)) = (of_nat (snd x) + 1 :: 32 word)" by simp
    then have "ctx_transfer (dh_enclosing H) e (ctx @ [t]) = Some (ctx @ [t'])"
      using v d t' assms(2) by (simp add: ctx_transfer_def add.commute butlast_append)
    ultimately show ?thesis by blast
  qed
qed

section \<open>Following an edge\<close>

lemma fold_listed: "(if has_directive m e then fold_option f (the (m e)) s else Some s) = fold_option f (listed m e) s"
  by (auto simp: has_directive_def listed_def)

lemma filter_table:
  "is_table M alloc peel ls T \<Longrightarrow> List.map fst (filter (\<lambda>x. P (fst x)) T) = filter P ls"
  unfolding is_table_def by (auto simp: filter_map comp_def)

lemma list_all2_tokens:
  assumes "list_all2 (represents M peel T) ts st" "List.map fst st = List.map fst xs" "set xs \<subseteq> set T" "distinct (List.map fst T)"
  shows "list_all2 (\<lambda>t x. t \<in> set (snd x)) ts xs"
  using assms(1-3)
proof (induction arbitrary: xs)
  case (Cons t ts y st)
  obtain x xs' where xs: "xs = x # xs'" "fst y = fst x" "List.map fst st = List.map fst xs'" using Cons.prems(1) by (cases xs) auto
  obtain p where p: "(fst y, p) \<in> set T" "t \<in> set p" using Cons.hyps(1) by (auto simp: represents_def)
  have "x \<in> set T" "fst x = fst (fst y, p)" using Cons.prems(2) xs by auto
  then have "x = (fst y, p)" using p(1) assms(4) by (metis eq_key_imp_eq_value prod.collapse)
  then have "t \<in> set (snd x)" using p(2) by (metis snd_conv)
  then show ?case using Cons.IH [of xs'] Cons.prems(2) xs by simp
qed simp

lemma follow_edge_spec:
  assumes "covered M alloc f T H" "is_table M alloc peel ls T" "well_nested M ls"
    and "fst b = f" "c \<in> set (m_succs M b)" "b \<in> set (m_preds M c)"
    and "list_all2 (represents M peel T) ts st" "List.map fst st = filter (contains b) ls"
    and "pre = [] \<or> tk_type (tk_val (last pre)) \<noteq> TypeLoopPeel"
  shows "\<exists>ts'. follow_edge H (b, c) (pre @ ts) = Some (pre @ ts') \<and> list_all2 (represents M peel T) ts' (stack_step ls (b, c) st) \<and>
    List.map fst (stack_step ls (b, c) st) = filter (contains c) ls"
proof -
  let ?e = "(b, c)" and ?in = "\<lambda>x :: mloop \<times> nat. contains c (fst x)"
  have "fst (fst ?e) = f" using assms(4) by simp
  with assms(1) have lv: "listed (dh_leave_edge H) ?e = List.map creates (filter (enters M ?e) T)"
    and en: "listed (dh_enter_edge H) ?e = List.map merges (rev (filter (exits M ?e) T))" and kn: "known M alloc T H"
    unfolding covered_def by blast+
  define kept where "kept = takeWhile ?in st"
  define gone where "gone = dropWhile ?in st"
  have st: "st = kept @ gone" by (simp add: kept_def gone_def)
  have mapk: "List.map fst kept = takeWhile (contains c) (filter (contains b) ls)"
    unfolding kept_def assms(8) [symmetric] by (simp add: takeWhile_map comp_def)
  have mapg: "List.map fst gone = filter (\<lambda>l. \<not> contains c l) (filter (contains b) ls)"
  proof -
    have "filter (\<lambda>l. \<not> contains c l) (filter (contains b) ls) = dropWhile (contains c) (filter (contains b) ls)"
      by (rule sorted_wrt_filter_while(2) [OF nested_around [OF assms(3)], symmetric])
    then show ?thesis unfolding assms(8) [symmetric] by (simp add: gone_def dropWhile_map comp_def)
  qed
  obtain tk tg where ts: "ts = tk @ tg" "list_all2 (represents M peel T) tk kept" "list_all2 (represents M peel T) tg gone"
    using assms(7) unfolding st by (auto simp: list_all2_append2)
  have dT: "distinct (List.map fst T)" using well_nested_distinct [OF assms(3)] assms(2) by (simp add: is_table_def)
  let ?xs = "filter (exits M ?e) T"
  have "exits M ?e = (\<lambda>x. contains b (fst x) \<and> \<not> contains c (fst x))"
    by (rule ext) (simp add: exits_def exiting_iff assms(5))
  then have "List.map fst ?xs = List.map fst gone"
    unfolding mapg filter_filter using filter_table [OF assms(2), of "\<lambda>l. contains b l \<and> \<not> contains c l"] by (simp add: conj_commute)
  then have "list_all2 (\<lambda>t x. t \<in> set (snd x)) tg ?xs" by (intro list_all2_tokens [OF ts(3) _ _ dT]) auto
  then have pop: "fold_option ctx_update (listed (dh_enter_edge H) ?e) (pre @ ts) = Some (pre @ tk)"
    unfolding en using merges_pop [of tg ?xs "pre @ tk"] ts(1) by simp
  define counted where "counted = (if kept \<noteq> [] \<and> c = ml_header (fst (last kept))
    then butlast kept @ [(fst (last kept), Suc (snd (last kept)))] else kept)"
  have "\<exists>tk'. ctx_transfer (dh_enclosing H) ?e (pre @ tk) = Some (pre @ tk') \<and> list_all2 (represents M peel T) tk' counted"
  proof (cases "kept = []")
    case True
    then have "tk = []" using ts(2) by simp
    moreover have "ctx_transfer (dh_enclosing H) ?e pre = Some pre"
      using assms(9) by (auto simp: ctx_transfer_def split: token_value.splits)
    ultimately show ?thesis using True by (simp add: counted_def)
  next
    case False
    have kl: "kept = butlast kept @ [last kept]" using False by simp
    obtain us t where tk: "tk = us @ [t]" "list_all2 (represents M peel T) us (butlast kept)" "represents M peel T t (last kept)"
      using ts(2) by (subst (asm) kl) (auto simp: list_all2_append2 list_all2_Cons2)
    have "last kept \<in> set st" using False by (simp add: st)
    then have "fst (last kept) \<in> set (filter (contains b) ls)" unfolding assms(8) [symmetric] by simp
    then have cb: "contains b (fst (last kept))" by simp
    show ?thesis
    proof (cases "c = ml_header (fst (last kept))")
      case True
      then have "?e \<in> set (getBackEdgesOfLoop M (fst (last kept)))" using cb assms(6) by (simp add: backedge_iff)
      from transfer_counts [OF tk(3) this kn assms(2), of "pre @ us"] obtain t' where
        "ctx_transfer (dh_enclosing H) ?e ((pre @ us) @ [t]) = Some ((pre @ us) @ [t'])"
        "represents M peel T t' (fst (last kept), Suc (snd (last kept)))" by blast
      then show ?thesis using True False tk by (intro exI [of _ "us @ [t']"]) (simp add: counted_def list_all2_appendI)
    next
      case False
      then have "?e \<notin> set (getBackEdgesOfLoop M (fst (last kept)))" by (simp add: backedge_iff)
      from transfer_other [OF tk(3) this, of _ "pre @ us"] show ?thesis using False ts(2) tk(1) by (simp add: counted_def)
    qed
  qed
  then obtain tk' where tk': "ctx_transfer (dh_enclosing H) ?e (pre @ tk) = Some (pre @ tk')" "list_all2 (represents M peel T) tk' counted"
    by blast
  let ?ys = "filter (enters M ?e) T"
  have "enters M ?e = (\<lambda>x. ml_header (fst x) = c \<and> \<not> contains b (fst x))"
    using assms(6) by (intro ext) (auto simp: enters_def incoming_iff)
  then have ys: "List.map fst ?ys = filter (\<lambda>l. ml_header l = c \<and> \<not> contains b l) ls"
    using filter_table [OF assms(2), of "\<lambda>l. ml_header l = c \<and> \<not> contains b l"] by simp
  have "\<forall>x \<in> set ?ys. getIncomingEdgesOfLoop M (fst x) \<noteq> []" by (auto simp: enters_def)
  then obtain tn where tn: "fold_option ctx_update (List.map creates ?ys) (pre @ tk') = Some ((pre @ tk') @ tn)"
    "list_all2 (represents M peel T) tn (List.map (\<lambda>x. (fst x, 0)) ?ys)"
    using creates_push [OF assms(2) filter_is_subset, of "enters M ?e" "pre @ tk'"] by blast
  have step: "stack_step ls ?e st = counted @ List.map (\<lambda>l. (l, 0)) (List.map fst ?ys)"
    unfolding stack_step_def Let_def snd_conv fst_conv kept_def [symmetric] counted_def ys by simp
  have r: "list_all2 (represents M peel T) (tk' @ tn) (stack_step ls ?e st)"
    unfolding step using tk'(2) tn(2) by (simp add: list_all2_appendI comp_def)
  have "List.map fst counted = List.map fst kept"
    unfolding counted_def by (cases kept rule: rev_cases) auto
  then have m: "List.map fst (stack_step ls ?e st) = filter (contains c) ls"
    unfolding step loops_after_edge [OF assms(3,6)] mapk ys [symmetric] by (simp add: comp_def mapk)
  have "follow_edge H ?e (pre @ ts) = Some (pre @ tk' @ tn)"
    unfolding follow_edge_def fold_listed pop bind.simps tk'(1) lv using tn(1) by simp
  then show ?thesis using r m by blast
qed

lemma follow_path_spec:
  assumes "covered M alloc f T H" "is_table M alloc peel ls T" "well_nested M ls"
    and "pre = [] \<or> tk_type (tk_val (last pre)) \<noteq> TypeLoopPeel"
    and "path M b es" "fst b = f" "list_all2 (represents M peel T) ts st" "List.map fst st = filter (contains b) ls"
  shows "\<exists>ts'. fold_option (follow_edge H) es (pre @ ts) = Some (pre @ ts') \<and>
    list_all2 (represents M peel T) ts' (fold (stack_step ls) es st) \<and>
    List.map fst (fold (stack_step ls) es st) = filter (contains (if es = [] then b else snd (last es))) ls"
  using assms(5-8)
proof (induction es arbitrary: b ts st)
  case (Cons e es)
  obtain c where e: "e = (b, c)" using Cons.prems(1) by (cases e) auto
  have p: "c \<in> set (m_succs M b)" "b \<in> set (m_preds M c)" "fst c = fst b" "path M c es" using Cons.prems(1) e by auto
  obtain us where us: "follow_edge H (b, c) (pre @ ts) = Some (pre @ us)" "list_all2 (represents M peel T) us (stack_step ls (b, c) st)"
    "List.map fst (stack_step ls (b, c) st) = filter (contains c) ls"
    using follow_edge_spec [OF assms(1-3) Cons.prems(2) p(1,2) Cons.prems(3,4) assms(4)] by blast
  have "fst c = f" using p(3) Cons.prems(2) by simp
  from Cons.IH [OF p(4) this us(2,3)] show ?case using us(1) e by (cases es) auto
qed simp

lemma represents_values:
  "list_all2 (represents M peel T) ts st \<Longrightarrow> List.map tk_val ts = List.map (\<lambda>x. iteration_value M peel (fst x) (snd x)) st"
  by (induction rule: list_all2_induct) (auto simp: represents_def)


text \<open>
  A function with a loop in a loop: block 1 is the header of the outer one, which has block 2 too, and
  block 2 is a loop of its own.
\<close>

definition nest_desc :: instr_desc where
  "nest_desc = \<lparr>id_opcode = ''ADD'', id_pseudo = False, id_transient = False, id_bundle = False, id_branch = False,
     id_cond_branch = False, id_uncond_branch = False, id_call = False, id_return = False, id_may_load = False, id_may_store = False,
     id_operands = [], id_target_offset = 0, id_pred_operand = None, id_reads = []\<rparr>"

definition nest_machine :: machine where
  "nest_machine = \<lparr>m_arch = ArchRISCV32, m_desc = (\<lambda>i. nest_desc), m_name = (\<lambda>f. ''main''), m_blocks = (\<lambda>f. 4), m_size = (\<lambda>b. 1),
     m_succs = (\<lambda>b. if b = (0, 0) then [(0, 1)] else if b = (0, 1) then [(0, 2), (0, 3)] else if b = (0, 2) then [(0, 2), (0, 1)] else []),
     m_preds = (\<lambda>b. if b = (0, 1) then [(0, 0), (0, 2)] else if b = (0, 2) then [(0, 1), (0, 2)] else if b = (0, 3) then [(0, 1)] else []),
     m_jump_tables = (\<lambda>f n. None), m_const_pool = (\<lambda>f. [])\<rparr>"

definition nest_loops :: "mfunc \<Rightarrow> mloop list" where
  "nest_loops f = [MLoop (0, 1) [(0, 1), (0, 2)] [MLoop (0, 2) [(0, 2)] []]]"

definition nest_opts :: part_opts where
  "nest_opts = \<lparr>NumberLoopTokens = 0, NumberCalleeTokens = 0, NumberCallsiteTokens = -1, LoopPeel = 1\<rparr>"

definition nest_path :: "mbb_edge list" where
  "nest_path = [((0, 0), (0, 1)), ((0, 1), (0, 2)), ((0, 2), (0, 2)), ((0, 2), (0, 1)), ((0, 1), (0, 2))]"

lemma nest_runs: "fold_option (dh_runOnMachineFunction nest_machine (\<lambda>n. n) nest_opts nest_loops) [0] dh_init \<noteq> None"
  by code_simp


end
