(* ===== verification/TA_Partition_Properties.thy ===== *)
theory TA_Partition_Properties
  imports TA_Partition_Loops "HOL-Library.List_Lexorder" "HOL-Library.Sublist"
begin

text \<open>
  Properties of contexts: what a call keeps of a context, the tokens around calls, and the order of
  contexts in the maps of the analyses.
\<close>

section \<open>Reducing a context on a call\<close>

text \<open>What a loop from the newest token on keeps: all tokens of other types, and the first \<open>n\<close> of the given ones.\<close>

fun kept :: "token_type set \<Rightarrow> nat \<Rightarrow> token list \<Rightarrow> token list" where
  "kept S n [] = []"
| "kept S n (t # ts) =
     (if tk_type (tk_val t) \<notin> S then t # kept S n ts
      else if n > 0 then t # kept S (n - 1) ts else kept S 0 ts)"

abbreviation of_types :: "token_type set \<Rightarrow> token list \<Rightarrow> token list" where
  "of_types S \<equiv> filter (\<lambda>t. tk_type (tk_val t) \<in> S)"

lemma clear_loop_kept:
  "unat found + length ts < 2 ^ 32 \<Longrightarrow> clear_loop S len ts found new = rev (kept S (unat len - unat found) ts) @ new"
proof (induction ts arbitrary: found new)
  case (Cons t ts)
  have s: "unat (found + 1) = unat found + 1" using Cons.prems by (simp add: unat_add_small)
  have l: "found < len \<longleftrightarrow> unat len - unat found > 0" by (simp add: word_less_nat_alt)
  show ?case
  proof (cases "tk_type (tk_val t) \<in> S")
    case True
    then show ?thesis using Cons.IH [of "found + 1"] Cons.prems s l by (auto simp: Suc_diff_Suc)
  next
    case False
    then show ?thesis using Cons.IH [of found] Cons.prems by simp
  qed
qed simp

lemma clear_kept: "length ctx < 2 ^ 32 \<Longrightarrow> clearTokensOlderThan S len ctx = rev (kept S (unat len) (rev ctx))"
  by (simp add: clearTokensOlderThan_def clear_loop_kept)

lemma kept_types: "of_types S (kept S n ts) = take n (of_types S ts)"
  by (induction S n ts rule: kept.induct) (auto simp: take_Cons')

lemma kept_other: "S \<inter> S' = {} \<Longrightarrow> of_types S' (kept S n ts) = of_types S' ts"
  by (induction S n ts rule: kept.induct) auto

lemma kept_all: "length (of_types S ts) \<le> n \<Longrightarrow> kept S n ts = ts"
  by (induction S n ts rule: kept.induct) auto

lemma kept_subseq: "subseq (kept S n ts) ts"
  by (induction S n ts rule: kept.induct) auto

lemma subseq_reversed:
  assumes "subseq xs ys"
  shows "subseq (rev xs) (rev ys)"
  using assms by induction (auto intro: list_emb_append_mono list_emb_append2 subseq_append')

lemma kept_length: "length (kept S n ts) \<le> length ts"
  by (rule list_emb_length [OF kept_subseq])

text \<open>The newest \<open>n\<close> of a list that goes from the oldest to the newest.\<close>

abbreviation newest :: "nat \<Rightarrow> 'a list \<Rightarrow> 'a list" where
  "newest n xs \<equiv> drop (length xs - n) xs"

lemma clear_spec:
  assumes "length ctx < 2 ^ 32"
  shows "of_types S (clearTokensOlderThan S len ctx) = newest (unat len) (of_types S ctx)"
    "S \<inter> S' = {} \<Longrightarrow> of_types S' (clearTokensOlderThan S len ctx) = of_types S' ctx"
    "subseq (clearTokensOlderThan S len ctx) ctx"
    "length (of_types S ctx) \<le> unat len \<Longrightarrow> clearTokensOlderThan S len ctx = ctx"
proof -
  have r: "of_types S (rev xs) = rev (of_types S xs)" for S xs by (simp add: rev_filter)
  show "of_types S (clearTokensOlderThan S len ctx) = newest (unat len) (of_types S ctx)"
    unfolding clear_kept [OF assms] r kept_types by (simp add: rev_take)
  show "of_types S' (clearTokensOlderThan S len ctx) = of_types S' ctx" if "S \<inter> S' = {}"
    unfolding clear_kept [OF assms] r kept_other [OF that] by simp
  have "subseq (rev (kept S (unat len) (rev ctx))) (rev (rev ctx))" by (rule subseq_reversed [OF kept_subseq])
  then show "subseq (clearTokensOlderThan S len ctx) ctx" unfolding clear_kept [OF assms] by simp
  show "clearTokensOlderThan S len ctx = ctx" if "length (of_types S ctx) \<le> unat len"
  proof -
    have "length (of_types S (rev ctx)) \<le> unat len" unfolding r using that by simp
    then show ?thesis unfolding clear_kept [OF assms] by (simp add: kept_all)
  qed
qed

abbreviation loop_types :: "token_type set" where "loop_types \<equiv> {TypeLoopPeel, TypeLoopIter}"

text \<open>One limit: a negative one is none.\<close>

definition limited :: "token_type set \<Rightarrow> int \<Rightarrow> tcontext \<Rightarrow> tcontext" where
  "limited S n ctx = (if n \<ge> 0 then clearTokensOlderThan S (of_int n) ctx else ctx)"

lemma unat_limit: "0 \<le> n \<Longrightarrow> n \<le> 2 ^ 30 \<Longrightarrow> unat (of_int n :: 32 word) = nat n"
  by (simp add: unsigned_of_int take_bit_int_eq_self)

lemma limited_spec:
  assumes "length ctx < 2 ^ 32" "n \<le> 2 ^ 30"
  shows "of_types S (limited S n ctx) = (if n \<ge> 0 then newest (nat n) (of_types S ctx) else of_types S ctx)"
    "S \<inter> S' = {} \<Longrightarrow> of_types S' (limited S n ctx) = of_types S' ctx"
    "subseq (limited S n ctx) ctx"
    "(n \<ge> 0 \<Longrightarrow> length (of_types S ctx) \<le> nat n) \<Longrightarrow> limited S n ctx = ctx"
    "length (limited S n ctx) < 2 ^ 32"
proof -
  show 1: "subseq (limited S n ctx) ctx" using clear_spec(3) [OF assms(1)] by (simp add: limited_def)
  show "of_types S (limited S n ctx) = (if n \<ge> 0 then newest (nat n) (of_types S ctx) else of_types S ctx)"
    using clear_spec(1) [OF assms(1)] unat_limit [OF _ assms(2)] by (simp add: limited_def)
  show "of_types S' (limited S n ctx) = of_types S' ctx" if "S \<inter> S' = {}"
    using clear_spec(2) [OF assms(1) that] by (simp add: limited_def)
  show "limited S n ctx = ctx" if "n \<ge> 0 \<Longrightarrow> length (of_types S ctx) \<le> nat n"
    using clear_spec(4) [OF assms(1), where S = S and len = "of_int n"] unat_limit [OF _ assms(2)] that by (simp add: limited_def)
  show "length (limited S n ctx) < 2 ^ 32" using list_emb_length [OF 1] assms(1) by simp
qed

definition reduced :: "part_opts \<Rightarrow> tcontext \<Rightarrow> tcontext" where
  "reduced Po ctx = limited {TypeCallSite} (NumberCallsiteTokens Po) (limited {TypeFunCallee} (NumberCalleeTokens Po)
     (limited loop_types (NumberLoopTokens Po) (clearTokensOlderThan {TypeIf, TypeNone} 0 ctx)))"

abbreviation small_limits :: "part_opts \<Rightarrow> bool" where
  "small_limits Po \<equiv> NumberLoopTokens Po \<le> 2 ^ 30 \<and> NumberCalleeTokens Po \<le> 2 ^ 30 \<and> NumberCallsiteTokens Po \<le> 2 ^ 30"

lemma length_types:
  "length c = length (of_types {TypeIf, TypeNone} c) + length (of_types loop_types c) +
     length (of_types {TypeFunCallee} c) + length (of_types {TypeCallSite} c)"
proof (induction c)
  case (Cons t c)
  then show ?case by (cases "tk_type (tk_val t)") simp_all
qed simp

lemma reduced_spec:
  assumes "length ctx < 2 ^ 32" "small_limits Po"
  shows "subseq (reduced Po ctx) ctx" "of_types {TypeIf, TypeNone} (reduced Po ctx) = []"
    "of_types loop_types (reduced Po ctx) = (if NumberLoopTokens Po \<ge> 0 then newest (nat (NumberLoopTokens Po)) (of_types loop_types ctx) else of_types loop_types ctx)"
    "of_types {TypeFunCallee} (reduced Po ctx) = (if NumberCalleeTokens Po \<ge> 0 then newest (nat (NumberCalleeTokens Po)) (of_types {TypeFunCallee} ctx) else of_types {TypeFunCallee} ctx)"
    "of_types {TypeCallSite} (reduced Po ctx) = (if NumberCallsiteTokens Po \<ge> 0 then newest (nat (NumberCallsiteTokens Po)) (of_types {TypeCallSite} ctx) else of_types {TypeCallSite} ctx)"
proof -
  let ?c0 = "clearTokensOlderThan {TypeIf, TypeNone} 0 ctx"
  let ?c1 = "limited loop_types (NumberLoopTokens Po) ?c0"
  let ?c2 = "limited {TypeFunCallee} (NumberCalleeTokens Po) ?c1"
  have l: "NumberLoopTokens Po \<le> 2 ^ 30" "NumberCalleeTokens Po \<le> 2 ^ 30" "NumberCallsiteTokens Po \<le> 2 ^ 30" using assms(2) by simp_all
  note c0 = clear_spec [OF assms(1), where S = "{TypeIf, TypeNone}" and len = 0]
  have n0: "length ?c0 < 2 ^ 32" using list_emb_length [OF c0(3)] assms(1) by simp
  note c1 = limited_spec [OF n0 l(1), where S = loop_types]
  note c2 = limited_spec [OF c1(5) l(2), where S = "{TypeFunCallee}"]
  note c3 = limited_spec [OF c2(5) l(3), where S = "{TypeCallSite}"]
  show "subseq (reduced Po ctx) ctx"
    unfolding reduced_def using c3(3) c2(3) c1(3) c0(3) subseq_order.order_trans by metis
  have d: "{TypeCallSite} \<inter> {TypeIf, TypeNone} = {}" "{TypeFunCallee} \<inter> {TypeIf, TypeNone} = {}" "loop_types \<inter> {TypeIf, TypeNone} = {}"
    "{TypeCallSite} \<inter> loop_types = {}" "{TypeFunCallee} \<inter> loop_types = {}" "{TypeIf, TypeNone} \<inter> loop_types = {}"
    "{TypeCallSite} \<inter> {TypeFunCallee} = {}" "loop_types \<inter> {TypeFunCallee} = {}" "{TypeIf, TypeNone} \<inter> {TypeFunCallee} = {}"
    "{TypeFunCallee} \<inter> {TypeCallSite} = {}" "loop_types \<inter> {TypeCallSite} = {}" "{TypeIf, TypeNone} \<inter> {TypeCallSite} = {}" by simp_all
  show "of_types {TypeIf, TypeNone} (reduced Po ctx) = []"
    unfolding reduced_def c3(2) [OF d(1)] c2(2) [OF d(2)] c1(2) [OF d(3)] c0(1) by simp
  show "of_types loop_types (reduced Po ctx) = (if NumberLoopTokens Po \<ge> 0 then newest (nat (NumberLoopTokens Po)) (of_types loop_types ctx) else of_types loop_types ctx)"
    unfolding reduced_def c3(2) [OF d(4)] c2(2) [OF d(5)] c1(1) c0(2) [OF d(6)] ..
  show "of_types {TypeFunCallee} (reduced Po ctx) = (if NumberCalleeTokens Po \<ge> 0 then newest (nat (NumberCalleeTokens Po)) (of_types {TypeFunCallee} ctx) else of_types {TypeFunCallee} ctx)"
    unfolding reduced_def c3(2) [OF d(7)] c2(1) c1(2) [OF d(8)] c0(2) [OF d(9)] ..
  show "of_types {TypeCallSite} (reduced Po ctx) = (if NumberCallsiteTokens Po \<ge> 0 then newest (nat (NumberCallsiteTokens Po)) (of_types {TypeCallSite} ctx) else of_types {TypeCallSite} ctx)"
    unfolding reduced_def c3(1) c2(2) [OF d(10)] c1(2) [OF d(11)] c0(2) [OF d(12)] ..
qed

lemma newest_length: "length (newest n xs) = min n (length xs)"
  by simp

lemma reduced_again:
  assumes "length ctx < 2 ^ 32" "small_limits Po"
  shows "reduced Po (reduced Po ctx) = reduced Po ctx"
proof -
  let ?c = "reduced Po ctx"
  note r = reduced_spec [OF assms]
  have n: "length ?c < 2 ^ 32" using list_emb_length [OF r(1)] assms(1) by simp
  have l: "NumberLoopTokens Po \<le> 2 ^ 30" "NumberCalleeTokens Po \<le> 2 ^ 30" "NumberCallsiteTokens Po \<le> 2 ^ 30" using assms(2) by simp_all
  have 0: "clearTokensOlderThan {TypeIf, TypeNone} 0 ?c = ?c"
    by (rule clear_spec(4) [OF n]) (simp only: r(2) list.size)
  have 1: "limited loop_types (NumberLoopTokens Po) ?c = ?c"
    by (rule limited_spec(4) [OF n l(1)]) (simp only: r(3) if_True newest_length min.cobounded1)
  have 2: "limited {TypeFunCallee} (NumberCalleeTokens Po) ?c = ?c"
    by (rule limited_spec(4) [OF n l(2)]) (simp only: r(4) if_True newest_length min.cobounded1)
  have 3: "limited {TypeCallSite} (NumberCallsiteTokens Po) ?c = ?c"
    by (rule limited_spec(4) [OF n l(3)]) (simp only: r(5) if_True newest_length min.cobounded1)
  show ?thesis by (subst (1) reduced_def) (simp only: 0 1 2 3)
qed

lemma reduceOnCall_reduced:
  assumes "length ctx < 2 ^ 32" "small_limits Po"
  shows "reduceOnCall Po ctx = Some (reduced Po ctx)"
proof -
  let ?c = "reduced Po ctx"
  note r = reduced_spec [OF assms]
  let ?size = "\<lambda>n. if n \<ge> 0 then of_int n else 0 :: 32 word"
  let ?max = "?size (NumberLoopTokens Po) + ?size (NumberCalleeTokens Po) + ?size (NumberCallsiteTokens Po)"
  have "length ?c \<le> unat ?max" if p: "NumberLoopTokens Po \<ge> 0" "NumberCalleeTokens Po \<ge> 0" "NumberCallsiteTokens Po \<ge> 0"
  proof -
    have u: "unat (of_int (NumberLoopTokens Po) :: 32 word) = nat (NumberLoopTokens Po)"
      "unat (of_int (NumberCalleeTokens Po) :: 32 word) = nat (NumberCalleeTokens Po)"
      "unat (of_int (NumberCallsiteTokens Po) :: 32 word) = nat (NumberCallsiteTokens Po)"
      using p assms(2) unat_limit by simp_all
    have b: "nat (NumberLoopTokens Po) \<le> 2 ^ 30" "nat (NumberCalleeTokens Po) \<le> 2 ^ 30" "nat (NumberCallsiteTokens Po) \<le> 2 ^ 30"
      using assms(2) by (simp_all add: nat_le_iff)
    have m: "unat ?max = nat (NumberLoopTokens Po) + nat (NumberCalleeTokens Po) + nat (NumberCallsiteTokens Po)"
      using p b by (simp add: unat_add_small u)
    have "length ?c = 0 + length (of_types loop_types ?c) + length (of_types {TypeFunCallee} ?c) + length (of_types {TypeCallSite} ?c)"
      by (subst length_types) (simp only: r(2) list.size)
    also have "\<dots> \<le> 0 + nat (NumberLoopTokens Po) + nat (NumberCalleeTokens Po) + nat (NumberCallsiteTokens Po)"
      by (intro add_mono order_refl) (simp_all only: r(3-5) p if_True newest_length min.cobounded1)
    finally show ?thesis unfolding m by simp
  qed
  then show ?thesis
    unfolding reduceOnCall_def Let_def reduced_def [unfolded limited_def] limited_def by (auto simp: not_le)
qed

text \<open>
  C37: what a call keeps of a context: no token of the types IF and NONE, and of loops, callees and call
  sites the newest ones up to the limits, in their order; the final assertion holds, and reducing
  a context a second time does not change it.
\<close>

theorem reduce_on_call_keeps_newest:
  assumes "length ctx < 2 ^ 32" and "NumberLoopTokens Po \<le> 2 ^ 30 \<and> NumberCalleeTokens Po \<le> 2 ^ 30 \<and> NumberCallsiteTokens Po \<le> 2 ^ 30"
  shows "\<exists>c. reduceOnCall Po ctx = Some c \<and> subseq c ctx \<and> reduceOnCall Po c = Some c \<and>
    filter (\<lambda>t. tk_type (tk_val t) \<in> {TypeIf, TypeNone}) c = [] \<and>
    (\<forall>(S, n) \<in> {({TypeLoopPeel, TypeLoopIter}, NumberLoopTokens Po), ({TypeFunCallee}, NumberCalleeTokens Po), ({TypeCallSite}, NumberCallsiteTokens Po)}.
       filter (\<lambda>t. tk_type (tk_val t) \<in> S) c =
         (let ts = filter (\<lambda>t. tk_type (tk_val t) \<in> S) ctx in if n < 0 then ts else drop (length ts - nat n) ts))"
proof -
  note r = reduced_spec [OF assms]
  have n: "length (reduced Po ctx) < 2 ^ 32" using list_emb_length [OF r(1)] assms(1) by simp
  have i: "(if (n :: int) < 0 then a else b) = (if n \<ge> 0 then b else a)" for n and a b :: "token list" by auto
  show ?thesis
  proof (intro exI conjI)
    show "reduceOnCall Po ctx = Some (reduced Po ctx)" by (rule reduceOnCall_reduced [OF assms])
    show "reduceOnCall Po (reduced Po ctx) = Some (reduced Po ctx)"
      unfolding reduceOnCall_reduced [OF n assms(2)] reduced_again [OF assms] ..
  qed (use r(1-2) r(3-5) in \<open>simp_all only: i Let_def ball_simps case_prod_conv refl simp_thms\<close>)
qed

section \<open>Tokens around calls\<close>

text \<open>Directives that put a token on a context and take it away again.\<close>

definition paired :: "('k \<rightharpoonup> directive) \<Rightarrow> ('k \<rightharpoonup> directive) \<Rightarrow> ('k \<Rightarrow> token_value) \<Rightarrow> 'k \<Rightarrow> bool" where
  "paired before after v k \<longleftrightarrow>
     (\<exists>t. before k = Some \<lparr>d_type = DirCreate, d_tokens = [t]\<rparr> \<and> after k = Some \<lparr>d_type = DirMerge, d_tokens = [t]\<rparr> \<and> tk_val t = v k)"

definition well_paired :: "('k \<rightharpoonup> directive) \<Rightarrow> ('k \<rightharpoonup> directive) \<Rightarrow> ('k \<Rightarrow> token_value) \<Rightarrow> bool" where
  "well_paired before after v \<longleftrightarrow> (\<forall>k. before k = None \<and> after k = None \<or> paired before after v k)"

lemma keep_insert_pair:
  assumes "well_paired before after v" "tk_val t = v k"
  defines "b \<equiv> keep_insert k \<lparr>d_type = DirCreate, d_tokens = [t]\<rparr> before"
  defines "a \<equiv> keep_insert k \<lparr>d_type = DirMerge, d_tokens = [t]\<rparr> after"
  shows "well_paired b a v" "paired b a v k" "paired before after v j \<Longrightarrow> paired b a v j"
proof -
  have k: "before k = None \<and> after k = None \<or> paired before after v k" using assms(1) by (simp add: well_paired_def)
  have o: "b j = before j" "a j = after j" if "j \<noteq> k" for j using that by (simp_all add: a_def b_def keep_insert_def)
  show pk: "paired b a v k" using k assms(2) by (auto simp: paired_def a_def b_def keep_insert_def)
  show "paired b a v j" if "paired before after v j" for j
    using that pk o by (cases "j = k") (simp_all add: paired_def)
  show "well_paired b a v" unfolding well_paired_def
  proof
    fix j
    show "b j = None \<and> a j = None \<or> paired b a v j"
      using assms(1) pk o by (cases "j = k") (auto simp: well_paired_def paired_def)
  qed
qed

definition calls_ok :: "heuristics \<Rightarrow> bool" where
  "calls_ok H \<longleftrightarrow> well_paired (dh_before_instr H) (dh_after_instr H) TkCallSite \<and> well_paired (dh_before_func H) (dh_after_func H) TkFunCallee"

abbreviation call_paired :: "heuristics \<Rightarrow> minstr \<Rightarrow> bool" where
  "call_paired H \<equiv> paired (dh_before_instr H) (dh_after_instr H) TkCallSite"

abbreviation func_paired :: "heuristics \<Rightarrow> mfunc \<Rightarrow> bool" where
  "func_paired H \<equiv> paired (dh_before_func H) (dh_after_func H) TkFunCallee"

text \<open>A step that keeps the pairs there are.\<close>

definition pairs_kept :: "heuristics \<Rightarrow> heuristics \<Rightarrow> bool" where
  "pairs_kept H H' \<longleftrightarrow> (calls_ok H \<longrightarrow> calls_ok H' \<and> (\<forall>i. call_paired H i \<longrightarrow> call_paired H' i) \<and> (\<forall>f. func_paired H f \<longrightarrow> func_paired H' f))"

lemma pairs_kept_refl: "pairs_kept H H"
  by (simp add: pairs_kept_def)

lemma pairs_kept_trans: "pairs_kept H H' \<Longrightarrow> pairs_kept H' H'' \<Longrightarrow> pairs_kept H H''"
  unfolding pairs_kept_def by blast

lemma pairs_keptD:
  assumes "pairs_kept H H'" "calls_ok H"
  shows "calls_ok H'" "call_paired H i \<Longrightarrow> call_paired H' i" "func_paired H f \<Longrightarrow> func_paired H' f"
  using assms unfolding pairs_kept_def by blast+

lemma fold_pairs_kept:
  assumes "fold_option f xs H = Some H'" "\<And>x H H'. f x H = Some H' \<Longrightarrow> pairs_kept H H'"
  shows "pairs_kept H H'"
  by (rule fold_option_invariant [OF assms(1), where P = "pairs_kept H"]) (use pairs_kept_refl pairs_kept_trans assms(2) in blast)+

lemma edges_pairs_kept:
  "create_on_edge p e H = Some H' \<Longrightarrow> pairs_kept H H'" "merge_on_edge p e H = Some H' \<Longrightarrow> pairs_kept H H'"
  by (auto simp: create_on_edge_def merge_on_edge_def new_directive_def pairs_kept_def calls_ok_def)

lemma annotate_one_pairs_kept:
  assumes "annotate_one M alloc peel l H = Some H'"
  shows "pairs_kept H H'"
proof -
  let ?p = "tokens_at M alloc peel (dh_allocated H) l"
  obtain H1 where H1: "fold_option (create_on_edge ?p) (getIncomingEdgesOfLoop M l) (H\<lparr>dh_allocated := dh_allocated H + unat peel + 1\<rparr>) = Some H1"
    "fold_option (merge_on_edge ?p) (getExitingEdgesOfLoop M l) H1 = Some H'"
    using assms by (auto simp: annotate_one_def Let_def bind_eq_Some_conv)
  have "pairs_kept H (H\<lparr>dh_allocated := dh_allocated H + unat peel + 1\<rparr>)" by (simp add: pairs_kept_def calls_ok_def)
  moreover have "pairs_kept (H\<lparr>dh_allocated := dh_allocated H + unat peel + 1\<rparr>) H1" by (rule fold_pairs_kept [OF H1(1) edges_pairs_kept(1)])
  moreover have "pairs_kept H1 H'" by (rule fold_pairs_kept [OF H1(2) edges_pairs_kept(2)])
  ultimately show ?thesis using pairs_kept_trans by blast
qed

lemma annotate_call_pairs:
  assumes "annotate_call M alloc i H = Some H'"
  shows "pairs_kept H H'" "calls_ok H \<Longrightarrow> id_call (m_desc M i) \<Longrightarrow> call_paired H' i"
proof -
  define t where "t = \<lparr>tk_addr = alloc (dh_allocated H), tk_val = TkCallSite i\<rparr>"
  have t: "tk_val t = TkCallSite i" by (simp add: t_def)
  have c: "H' = H \<or> (dh_before_instr H' = keep_insert i \<lparr>d_type = DirCreate, d_tokens = [t]\<rparr> (dh_before_instr H) \<and>
      dh_after_instr H' = keep_insert i \<lparr>d_type = DirMerge, d_tokens = [t]\<rparr> (dh_after_instr H) \<and>
      dh_before_func H' = dh_before_func H \<and> dh_after_func H' = dh_after_func H)"
    using assms by (auto simp: annotate_call_def Let_def new_directive_single t_def split: if_splits option.splits)
  have n: "id_call (m_desc M i) \<Longrightarrow> dh_before_instr H' = keep_insert i \<lparr>d_type = DirCreate, d_tokens = [t]\<rparr> (dh_before_instr H) \<and>
      dh_after_instr H' = keep_insert i \<lparr>d_type = DirMerge, d_tokens = [t]\<rparr> (dh_after_instr H)"
    using assms by (auto simp: annotate_call_def Let_def new_directive_single t_def split: if_splits option.splits)
  show "pairs_kept H H'" using c
  proof
    assume "H' = H" then show ?thesis by (simp add: pairs_kept_refl)
  qed (use keep_insert_pair [where v = TkCallSite, OF _ t] in \<open>simp add: pairs_kept_def calls_ok_def\<close>)
  show "call_paired H' i" if "calls_ok H" "id_call (m_desc M i)"
    using n [OF that(2)] keep_insert_pair(2) [where v = TkCallSite, OF _ t] that(1) by (simp add: calls_ok_def)
qed

lemma annotate_function_pairs:
  assumes "annotate_function alloc f H = Some H'"
  shows "pairs_kept H H'" "calls_ok H \<Longrightarrow> func_paired H' f"
proof -
  define t where "t = \<lparr>tk_addr = alloc (dh_allocated H), tk_val = TkFunCallee f\<rparr>"
  have t: "tk_val t = TkFunCallee f" by (simp add: t_def)
  have c: "dh_before_func H' = keep_insert f \<lparr>d_type = DirCreate, d_tokens = [t]\<rparr> (dh_before_func H) \<and>
      dh_after_func H' = keep_insert f \<lparr>d_type = DirMerge, d_tokens = [t]\<rparr> (dh_after_func H) \<and>
      dh_before_instr H' = dh_before_instr H \<and> dh_after_instr H' = dh_after_instr H"
    using assms by (auto simp: annotate_function_def Let_def new_directive_single t_def)
  show "pairs_kept H H'" using c keep_insert_pair [where v = TkFunCallee, OF _ t] by (simp add: pairs_kept_def calls_ok_def)
  show "func_paired H' f" if "calls_ok H"
    using c keep_insert_pair(2) [where v = TkFunCallee, OF _ t] that by (simp add: calls_ok_def)
qed

lemma block_pairs:
  assumes "dh_runOnMachineBasicBlock M alloc b H = Some H'"
  shows "pairs_kept H H'" "calls_ok H \<Longrightarrow> i \<in> set (instrs_of M b) \<Longrightarrow> id_call (m_desc M i) \<Longrightarrow> call_paired H' i"
proof -
  show k: "pairs_kept H H'"
    using assms unfolding dh_runOnMachineBasicBlock_def by (rule fold_pairs_kept) (rule annotate_call_pairs(1))
  assume c: "calls_ok H" and i: "i \<in> set (instrs_of M b)" "id_call (m_desc M i)"
  have "calls_ok H' \<and> call_paired H' i" if h: "fold_option (annotate_call M alloc) is s = Some H'" "calls_ok s" "i \<in> set is" for "is" s
    using h
  proof (induction "is" arbitrary: s)
    case (Cons j js)
    obtain s1 where s1: "annotate_call M alloc j s = Some s1" "fold_option (annotate_call M alloc) js s1 = Some H'"
      using Cons.prems(1) by (auto simp: bind_eq_Some_conv)
    have k1: "pairs_kept s s1" by (rule annotate_call_pairs(1) [OF s1(1)])
    have k2: "pairs_kept s1 H'" by (rule fold_pairs_kept [OF s1(2)]) (rule annotate_call_pairs(1))
    have ok: "calls_ok s1" using k1 Cons.prems(2) by (simp add: pairs_kept_def)
    show ?case
    proof (cases "i = j")
      case True
      then have "call_paired s1 i" using annotate_call_pairs(2) [OF s1(1) Cons.prems(2)] i(2) by simp
      then show ?thesis using pairs_keptD [OF k2 ok] by blast
    next
      case False
      then show ?thesis using Cons.IH [OF s1(2) ok] Cons.prems(3) by simp
    qed
  qed simp
  then show "call_paired H' i" using assms c i(1) unfolding dh_runOnMachineBasicBlock_def by blast
qed

definition function_paired :: "machine \<Rightarrow> mfunc \<Rightarrow> heuristics \<Rightarrow> bool" where
  "function_paired M f H \<longleftrightarrow> func_paired H f \<and>
     (\<forall>b \<in> set (blocks_of M f). \<forall>i \<in> set (instrs_of M b). id_call (m_desc M i) \<longrightarrow> call_paired H i)"

lemma function_paired_kept: "pairs_kept H H' \<Longrightarrow> calls_ok H \<Longrightarrow> function_paired M f H \<Longrightarrow> function_paired M f H'"
  unfolding pairs_kept_def function_paired_def by blast

lemma blocks_pairs:
  assumes "fold_option (dh_runOnMachineBasicBlock M alloc) bs H = Some H'" "calls_ok H" "b \<in> set bs" "i \<in> set (instrs_of M b)" "id_call (m_desc M i)"
  shows "call_paired H' i"
  using assms(1-3)
proof (induction bs arbitrary: H)
  case (Cons b' bs)
  obtain s1 where s1: "dh_runOnMachineBasicBlock M alloc b' H = Some s1" "fold_option (dh_runOnMachineBasicBlock M alloc) bs s1 = Some H'"
    using Cons.prems(1) by (auto simp: bind_eq_Some_conv)
  have ok: "calls_ok s1" using block_pairs(1) [OF s1(1)] Cons.prems(2) by (simp add: pairs_kept_def)
  have k2: "pairs_kept s1 H'" by (rule fold_pairs_kept [OF s1(2)]) (rule block_pairs(1))
  show ?case
  proof (cases "b = b'")
    case True
    then have "call_paired s1 i" using block_pairs(2) [OF s1(1) Cons.prems(2), of i] assms(4,5) by simp
    then show ?thesis using pairs_keptD [OF k2 ok] by blast
  next
    case False
    then show ?thesis using Cons.IH [OF s1(2) ok] Cons.prems(3) by simp
  qed
qed simp

lemma run_function_pairs:
  assumes "dh_runOnMachineFunction M alloc Po loops f H = Some H'"
  shows "pairs_kept H H'" "calls_ok H \<Longrightarrow> function_paired M f H'"
proof -
  obtain H1 H2 where H: "annotate_function alloc f H = Some H1"
    "(if LoopPeel Po > 0 then annotate_loops M alloc (LoopPeel Po) (loops f) H1 else Some H1) = Some H2"
    "fold_option (dh_runOnMachineBasicBlock M alloc) (blocks_of M f) H2 = Some H'"
    using assms by (auto simp: dh_runOnMachineFunction_def bind_eq_Some_conv)
  have k1: "pairs_kept H H1" by (rule annotate_function_pairs(1) [OF H(1)])
  have k2: "pairs_kept H1 H2"
  proof (cases "LoopPeel Po > 0")
    case True
    then have "fold_option (annotate_one M alloc (LoopPeel Po)) (all_loops (loops f)) H1 = Some H2"
      using H(2) by (simp add: annotate_loops_flat)
    then show ?thesis by (rule fold_pairs_kept) (rule annotate_one_pairs_kept)
  qed (use H(2) pairs_kept_refl in simp)
  have k3: "pairs_kept H2 H'" by (rule fold_pairs_kept [OF H(3)]) (rule block_pairs(1))
  show "pairs_kept H H'" using k1 k2 k3 pairs_kept_trans by blast
  assume c: "calls_ok H"
  have c1: "calls_ok H1" and c2: "calls_ok H2" using c k1 k2 by (auto simp: pairs_kept_def)
  have "func_paired H' f"
    using annotate_function_pairs(2) [OF H(1) c] pairs_keptD(3) [OF pairs_kept_trans [OF k2 k3] c1] by blast
  then show "function_paired M f H'" unfolding function_paired_def using blocks_pairs [OF H(3) c2] by blast
qed

text \<open>Two directives that put a token of the given value on every context and take it away again.\<close>

definition brackets :: "(directive option) \<Rightarrow> (directive option) \<Rightarrow> token_value \<Rightarrow> bool" where
  "brackets before after v \<longleftrightarrow>
     (\<exists>create mrge t. before = Some create \<and> after = Some mrge \<and> tk_val t = v \<and>
        (\<forall>ctx. ctx_update create ctx = Some (ctx @ [t]) \<and> ctx_update mrge (ctx @ [t]) = Some ctx))"

lemma paired_brackets:
  assumes "paired before after v k" "v k = TkCallSite i \<or> v k = TkFunCallee f"
  shows "brackets (get_directive before k) (get_directive after k) (v k)"
proof -
  obtain t where t: "before k = Some \<lparr>d_type = DirCreate, d_tokens = [t]\<rparr>" "after k = Some \<lparr>d_type = DirMerge, d_tokens = [t]\<rparr>" "tk_val t = v k"
    using assms(1) by (auto simp: paired_def)
  have "ctx_update \<lparr>d_type = DirCreate, d_tokens = [t]\<rparr> ctx = Some (ctx @ [t])" for ctx
    using assms(2) t(3) by (auto simp: ctx_update_def)
  moreover have "ctx_update \<lparr>d_type = DirMerge, d_tokens = [t]\<rparr> (ctx @ [t]) = Some ctx" for ctx by (simp add: ctx_update_def)
  ultimately show ?thesis using t unfolding brackets_def get_directive_def has_directive_def by auto
qed

text \<open>
  C36: every call instruction and every function of the annotated program has a directive before it and
  one after it: the first puts the token of the call site, or of the callee, on any context, and
  the second takes it off again, so that the context after the call is the one before it.
\<close>

theorem call_context_roundtrip:
  assumes "fold_option (dh_runOnMachineFunction M alloc Po loops) fs dh_init = Some H" and "f \<in> set fs"
  shows "brackets (get_directive (dh_before_func H) f) (get_directive (dh_after_func H) f) (TkFunCallee f) \<and>
    (\<forall>b \<in> set (blocks_of M f). \<forall>i \<in> set (instrs_of M b). id_call (m_desc M i) \<longrightarrow>
       brackets (get_directive (dh_before_instr H) i) (get_directive (dh_after_instr H) i) (TkCallSite i))"
proof -
  have "calls_ok H' \<and> function_paired M f H'" if h: "fold_option (dh_runOnMachineFunction M alloc Po loops) fs s = Some H'" "calls_ok s" "f \<in> set fs" for fs s H'
    using h
  proof (induction fs arbitrary: s)
    case (Cons g gs)
    obtain s1 where s1: "dh_runOnMachineFunction M alloc Po loops g s = Some s1" "fold_option (dh_runOnMachineFunction M alloc Po loops) gs s1 = Some H'"
      using Cons.prems(1) by (auto simp: bind_eq_Some_conv)
    have ok: "calls_ok s1" using run_function_pairs(1) [OF s1(1)] Cons.prems(2) by (simp add: pairs_kept_def)
    have k2: "pairs_kept s1 H'" by (rule fold_pairs_kept [OF s1(2)]) (rule run_function_pairs(1))
    show ?case
    proof (cases "f = g")
      case True
      then have "function_paired M f s1" using run_function_pairs(2) [OF s1(1) Cons.prems(2)] by simp
      then show ?thesis using pairs_keptD(1) [OF k2 ok] function_paired_kept [OF k2 ok] by blast
    next
      case False
      then show ?thesis using Cons.IH [OF s1(2) ok] Cons.prems(3) by simp
    qed
  qed simp
  moreover have "calls_ok dh_init" by (simp add: calls_ok_def well_paired_def dh_init_def)
  ultimately have "function_paired M f H" using assms by blast
  then have p: "func_paired H f" "\<And>b i. b \<in> set (blocks_of M f) \<Longrightarrow> i \<in> set (instrs_of M b) \<Longrightarrow> id_call (m_desc M i) \<Longrightarrow> call_paired H i"
    unfolding function_paired_def by blast+
  have "brackets (get_directive (dh_before_func H) f) (get_directive (dh_after_func H) f) (TkFunCallee f)"
    by (rule paired_brackets [OF p(1)]) simp
  moreover have "brackets (get_directive (dh_before_instr H) i) (get_directive (dh_after_instr H) i) (TkCallSite i)"
    if h: "b \<in> set (blocks_of M f)" "i \<in> set (instrs_of M b)" "id_call (m_desc M i)" for b i
    by (rule paired_brackets [OF p(2) [OF h]]) simp
  ultimately show ?thesis by blast
qed

section \<open>The order of contexts\<close>

text \<open>A key for every token, whose lexicographic order is that of the tokens.\<close>

fun edge_key :: "mbb_edge \<Rightarrow> nat list" where
  "edge_key ((f, b), (g, c)) = [f, b, g, c]"

fun tk_key :: "token_value \<Rightarrow> nat list" where
  "tk_key TkNone = [0]"
| "tk_key (TkIf b t) = [1]"
| "tk_key (TkLoopPeel l e n) = 2 # unat n # length e # concat (List.map edge_key e)"
| "tk_key (TkLoopIter l e n) = 3 # unat n # length e # concat (List.map edge_key e)"
| "tk_key (TkCallSite i) = [4, fst (fst i), snd (fst i), snd i]"
| "tk_key (TkFunCallee f) = [5, f]"

fun tk_edges :: "token_value \<Rightarrow> mbb_edge list" where
  "tk_edges (TkLoopPeel l e n) = e"
| "tk_edges (TkLoopIter l e n) = e"
| "tk_edges v = []"

lemma mbbedgecomp_key: "mbbedgecomp x y \<longleftrightarrow> edge_key x < edge_key y"
  by (cases x rule: edge_key.cases; cases y rule: edge_key.cases) (auto simp: mbbedgecomp_def mbbComp_def)

lemma edge_key_eq: "edge_key x = edge_key y \<longleftrightarrow> x = y"
  by (cases x rule: edge_key.cases; cases y rule: edge_key.cases) auto

lemma edge_key_less_append: "edge_key x @ r < edge_key y @ s \<longleftrightarrow> edge_key x < edge_key y \<or> x = y \<and> r < s"
  by (cases x rule: edge_key.cases; cases y rule: edge_key.cases) auto

lemma edge_keys_eq: "length e = length e' \<Longrightarrow> concat (List.map edge_key e) = concat (List.map edge_key e') \<longleftrightarrow> e = e'"
proof (induction e e' rule: list_induct2)
  case (Cons x xs y ys)
  have "length (edge_key x) = length (edge_key y)" by (cases x rule: edge_key.cases; cases y rule: edge_key.cases) simp
  then show ?case using Cons.IH by (simp add: edge_key_eq)
qed simp

lemma edges_less_key: "length e = length e' \<Longrightarrow> edges_less e e' \<longleftrightarrow> concat (List.map edge_key e) < concat (List.map edge_key e')"
proof (induction e e' rule: list_induct2)
  case (Cons x xs y ys)
  have "edge_key x < edge_key y \<or> edge_key y < edge_key x \<or> x = y" using edge_key_eq by (metis neqE)
  then show ?case using Cons.IH by (auto simp: mbbedgecomp_key edge_key_less_append)
qed simp

lemma unat_same: "unat (n :: 32 word) = unat n' \<longleftrightarrow> n = n'"
  by (simp add: word_unat_eq_iff)

lemma loop_less_key:
  "loop_less e n e' n' \<longleftrightarrow> unat n # length e # concat (List.map edge_key e) < unat n' # length e' # concat (List.map edge_key e')"
  using edges_less_key [of e e'] by (auto simp: loop_less_def word_less_nat_alt unat_same)

lemma tk_less_key: "tk_less s t \<longleftrightarrow> tk_key s < tk_key t"
  by (cases s; cases t) (auto simp: loop_less_key instrptrcomp_def mi_function_def mi_parent_def)

lemma loop_equals_key:
  fixes n n' :: "32 word"
  assumes "set e = set e' \<longrightarrow> e = e'"
  shows "n' = n \<and> set e' = set e \<longleftrightarrow>
    unat n # length e # concat (List.map edge_key e) = unat n' # length e' # concat (List.map edge_key e')"
proof (cases "e = e'")
  case False
  then have "set e' \<noteq> set e" using assms by auto
  moreover have "\<not> (length e = length e' \<and> concat (List.map edge_key e) = concat (List.map edge_key e'))"
    using edge_keys_eq [of e e'] False by blast
  ultimately show ?thesis by simp
qed (auto simp: unat_same)

lemma tk_equals_key:
  assumes "set (tk_edges s) = set (tk_edges t) \<longrightarrow> tk_edges s = tk_edges t"
  shows "tk_equals s t \<longleftrightarrow> tk_key s = tk_key t"
  using assms by (cases s; cases t) (simp_all add: loop_equals_key prod_eq_iff conj_ac eq_commute)

abbreviation canonical :: "token_value set \<Rightarrow> bool" where
  "canonical S \<equiv> \<forall>s \<in> S. \<forall>t \<in> S. set (tk_edges s) = set (tk_edges t) \<longrightarrow> tk_edges s = tk_edges t"

abbreviation ctx_keys :: "tcontext \<Rightarrow> nat list list" where
  "ctx_keys \<equiv> List.map (tk_key \<circ> tk_val)"

lemma ctx_loops_key:
  assumes "length c = length c'" "canonical S" "tk_val ` set c \<subseteq> S" "tk_val ` set c' \<subseteq> S" "\<forall>v \<in> S. tk_type v \<noteq> TypeNone"
  shows "ctxcomp_loop c c' \<longleftrightarrow> ctx_keys c < ctx_keys c'" "ctx_less_loop c c' = Some (ctx_keys c < ctx_keys c')"
    "ctx_equal_loop c c' = Some (ctx_keys c = ctx_keys c')"
proof -
  have "(ctxcomp_loop c c' \<longleftrightarrow> ctx_keys c < ctx_keys c') \<and> ctx_less_loop c c' = Some (ctx_keys c < ctx_keys c') \<and>
      ctx_equal_loop c c' = Some (ctx_keys c = ctx_keys c')"
    using assms(1,3,4)
  proof (induction c c' rule: list_induct2)
    case (Cons x xs y ys)
    have m: "tk_val x \<in> S" "tk_val y \<in> S" using Cons.prems by auto
    then have e: "tk_equals (tk_val x) (tk_val y) \<longleftrightarrow> tk_key (tk_val x) = tk_key (tk_val y)" using assms(2) by (intro tk_equals_key) blast
    have n: "tk_type (tk_val x) \<noteq> TypeNone" using m assms(5) by blast
    show ?case using Cons.IH Cons.prems n by (auto simp: e tk_less_key)
  qed simp
  then show "ctxcomp_loop c c' \<longleftrightarrow> ctx_keys c < ctx_keys c'" "ctx_less_loop c c' = Some (ctx_keys c < ctx_keys c')"
    "ctx_equal_loop c c' = Some (ctx_keys c = ctx_keys c')" by blast+
qed

text \<open>
  C38: on contexts without NONE whose tokens list equal sets of edges in the same order, the two orders of
  contexts, \<open>operator<\<close> and \<open>ctxcomp\<close>, agree, no assertion fails, they are strict orders, and
  \<open>operator==\<close> holds exactly for contexts of which neither is less: contexts can be keys of maps.
\<close>

theorem context_orders_agree:
  assumes "\<forall>s \<in> S. \<forall>t \<in> S. set (tk_edges s) = set (tk_edges t) \<longrightarrow> tk_edges s = tk_edges t" and "\<forall>v \<in> S. tk_type v \<noteq> TypeNone"
    and "tk_val ` set a \<subseteq> S" and "tk_val ` set b \<subseteq> S" and "tk_val ` set c \<subseteq> S"
  shows "ctx_less a b = Some (ctxcomp a b) \<and> ctx_equal a b = Some (\<not> ctxcomp a b \<and> \<not> ctxcomp b a) \<and>
    \<not> ctxcomp a a \<and> (ctxcomp a b \<and> ctxcomp b c \<longrightarrow> ctxcomp a c)"
proof -
  have k: "ctxcomp x y \<longleftrightarrow> length x < length y \<or> length x = length y \<and> ctx_keys x < ctx_keys y"
    if "tk_val ` set x \<subseteq> S" "tk_val ` set y \<subseteq> S" for x y
    using ctx_loops_key(1) [OF _ assms(1) that assms(2)] by (auto simp: ctxcomp_def)
  have l: "ctx_less a b = Some (ctxcomp a b)"
    unfolding k [OF assms(3,4)] using ctx_loops_key(2) [OF _ assms(1,3,4,2)] by (auto simp: ctx_less_def)
  have "ctx_equal a b = Some (length a = length b \<and> ctx_keys a = ctx_keys b)"
    using ctx_loops_key(3) [OF _ assms(1,3,4,2)] by (auto simp: ctx_equal_def)
  moreover have tri: "(p = q \<and> x = y) = (\<not> (p < q \<or> p = q \<and> x < y) \<and> \<not> (q < p \<or> q = p \<and> y < x))" for p q :: nat and x y :: "nat list list"
    by (cases p q rule: linorder_cases; cases x y rule: linorder_cases) (auto dest: less_asym)
  ultimately have e: "ctx_equal a b = Some (\<not> ctxcomp a b \<and> \<not> ctxcomp b a)"
    unfolding k [OF assms(3,4)] k [OF assms(4,3)] by (simp only: tri)
  have t: "ctxcomp a b \<and> ctxcomp b c \<longrightarrow> ctxcomp a c"
    unfolding k [OF assms(3,4)] k [OF assms(4,5)] k [OF assms(3,5)] using less_trans [of "ctx_keys a" "ctx_keys b" "ctx_keys c"] by auto
  show ?thesis using l e t k [OF assms(3,3)] by simp
qed

section \<open>Concrete contexts\<close>

definition ex_context :: tcontext where
  "ex_context = [\<lparr>tk_addr = 1, tk_val = TkCallSite ((0, 0), 1)\<rparr>, \<lparr>tk_addr = 2, tk_val = TkIf ''b'' True\<rparr>,
     \<lparr>tk_addr = 3, tk_val = TkFunCallee 1\<rparr>, \<lparr>tk_addr = 4, tk_val = TkLoopIter (MLoop (1, 1) [(1, 1)] []) [((1, 1), (1, 1))] 1\<rparr>,
     \<lparr>tk_addr = 5, tk_val = TkCallSite ((1, 1), 0)\<rparr>]"

definition ex_part_opts :: part_opts where
  "ex_part_opts = \<lparr>NumberLoopTokens = 0, NumberCalleeTokens = -1, NumberCallsiteTokens = 1, LoopPeel = 1\<rparr>"

theorem reduce_on_call_keeps_newest_witness:
  "\<exists>c. reduceOnCall ex_part_opts ex_context = Some c \<and> reduceOnCall ex_part_opts c = Some c \<and>
     filter (\<lambda>t. tk_type (tk_val t) \<in> {TypeCallSite}) c = [\<lparr>tk_addr = 5, tk_val = TkCallSite ((1, 1), 0)\<rparr>]"
proof -
  have l: "length ex_context < 2 ^ 32" by (simp add: ex_context_def)
  have o: "NumberLoopTokens ex_part_opts \<le> 2 ^ 30 \<and> NumberCalleeTokens ex_part_opts \<le> 2 ^ 30 \<and> NumberCallsiteTokens ex_part_opts \<le> 2 ^ 30"
    by (simp add: ex_part_opts_def)
  obtain c where c: "reduceOnCall ex_part_opts ex_context = Some c" "reduceOnCall ex_part_opts c = Some c"
    "filter (\<lambda>t. tk_type (tk_val t) \<in> {TypeCallSite}) c =
       (let ts = filter (\<lambda>t. tk_type (tk_val t) \<in> {TypeCallSite}) ex_context in
        if NumberCallsiteTokens ex_part_opts < 0 then ts else drop (length ts - nat (NumberCallsiteTokens ex_part_opts)) ts)"
    using reduce_on_call_keeps_newest [OF l o] by blast
  then show ?thesis by (simp add: ex_context_def ex_part_opts_def)
qed

definition call_machine :: machine where
  "call_machine = nest_machine\<lparr>m_desc := (\<lambda>i. nest_desc\<lparr>id_call := i = ((0, 2), 0), id_operands := [OpGlobal ''main'']\<rparr>)\<rparr>"

theorem call_context_roundtrip_witness:
  "\<exists>H. fold_option (dh_runOnMachineFunction call_machine (\<lambda>n. n) nest_opts nest_loops) [0] dh_init = Some H \<and>
     brackets (get_directive (dh_before_instr H) ((0, 2), 0)) (get_directive (dh_after_instr H) ((0, 2), 0)) (TkCallSite ((0, 2), 0))"
proof -
  have "fold_option (dh_runOnMachineFunction call_machine (\<lambda>n. n) nest_opts nest_loops) [0] dh_init \<noteq> None" by code_simp
  then obtain H where H: "fold_option (dh_runOnMachineFunction call_machine (\<lambda>n. n) nest_opts nest_loops) [0] dh_init = Some H" by blast
  have f: "(0 :: mfunc) \<in> set [0]" by simp
  have i: "(0, 2) \<in> set (blocks_of call_machine 0)" "((0, 2), 0) \<in> set (instrs_of call_machine (0, 2))" "id_call (m_desc call_machine ((0, 2), 0))"
    by code_simp+
  show ?thesis using call_context_roundtrip [OF H f] i H by blast
qed

theorem context_orders_agree_witness:
  "ctx_less [\<lparr>tk_addr = 1, tk_val = TkFunCallee 0\<rparr>] [\<lparr>tk_addr = 2, tk_val = TkFunCallee 1\<rparr>] =
     Some (ctxcomp [\<lparr>tk_addr = 1, tk_val = TkFunCallee 0\<rparr>] [\<lparr>tk_addr = 2, tk_val = TkFunCallee 1\<rparr>])"
proof -
  have "\<forall>s \<in> {TkFunCallee 0, TkFunCallee 1}. \<forall>t \<in> {TkFunCallee 0, TkFunCallee 1}. set (tk_edges s) = set (tk_edges t) \<longrightarrow> tk_edges s = tk_edges t"
    and "\<forall>v \<in> {TkFunCallee 0, TkFunCallee 1}. tk_type v \<noteq> TypeNone" by simp_all
  note c = context_orders_agree [OF this, where c = "[]"]
  show ?thesis by (rule c [THEN conjunct1]) auto
qed

end
