(* ===== verification/TA_Micro_State.thy ===== *)
theory TA_Micro_State
  imports TA_Partition TA_Static_Address TA_Interval_Counter
begin

text \<open>
  What the states of all pipelines share: the program counter with its context
  (\<open>lib/MicroarchitecturalAnalysis/ProgramCounter.cpp\<close>) and the handling of branches, calls and returns
  (\<open>include/MicroarchitecturalAnalysis/MicroArchitecturalState.h\<close>).  A derived state extends the record
  \<open>micro\<close>; copying a state and changing the copy is a record update.  \<open>None\<close> is a failed assertion.
\<close>

section \<open>The analysed program\<close>

text \<open>What the code reaches through its global instances.\<close>

record program_env =
  pe_machine :: machine
  pe_place :: placement
  pe_heur :: heuristics
  pe_graph :: call_graph
  pe_collector :: collector
  pe_opts :: part_opts
  pe_entry :: mfunc
  pe_link :: "32 word"

type_synonym exec_elem = "32 word \<times> tcontext"

text \<open>Contexts in states never have a token of type NONE, so the assertion of their comparison holds.\<close>

definition ctx_same :: "tcontext \<Rightarrow> tcontext \<Rightarrow> bool" where
  "ctx_same c c' \<longleftrightarrow> ctx_equal c c' = Some True"

definition ee_same :: "exec_elem \<Rightarrow> exec_elem \<Rightarrow> bool" where
  "ee_same e e' \<longleftrightarrow> fst e = fst e' \<and> ctx_same (snd e) (snd e')"

section \<open>Directives around instructions\<close>

definition update_after :: "program_env \<Rightarrow> minstr \<Rightarrow> tcontext \<Rightarrow> tcontext option" where
  "update_after E i ctx =
     (if has_directive (dh_after_instr (pe_heur E)) i then ctx_update (the (dh_after_instr (pe_heur E) i)) ctx else Some ctx)"

definition update_before :: "program_env \<Rightarrow> minstr \<Rightarrow> tcontext \<Rightarrow> tcontext option" where
  "update_before E i ctx =
     (if has_directive (dh_before_instr (pe_heur E)) i then ctx_update (the (dh_before_instr (pe_heur E) i)) ctx else Some ctx)"

definition update_edges :: "program_env \<Rightarrow> mbb_edge list \<Rightarrow> tcontext \<Rightarrow> tcontext option" where
  "update_edges E es ctx = fold_option (follow_edge (pe_heur E)) es ctx"

section \<open>The program counter\<close>

text \<open>The code goes through a set of paths ordered by pointers; on every path the context must come out the same.\<close>

fun fetch_paths :: "program_env \<Rightarrow> minstr \<Rightarrow> tcontext \<Rightarrow> mbb_edge list list \<Rightarrow> tcontext \<Rightarrow> tcontext option" where
  "fetch_paths E there ctx [] lastContext = Some lastContext"
| "fetch_paths E there ctx (es # ess) lastContext =
     (case Option.bind (update_edges E es ctx) (update_before E there) of None \<Rightarrow> None
      | Some imContext \<Rightarrow>
          if lastContext = [] then fetch_paths E there ctx ess imContext
          else if ctx_same lastContext imContext then fetch_paths E there ctx ess lastContext else None)"

text \<open>\<open>fetchNextInstruction\<close>: the old program counter is fetched; this is the new one.\<close>

definition fetchNextInstruction :: "program_env \<Rightarrow> exec_elem \<Rightarrow> exec_elem option" where
  "fetchNextInstruction E pc =
     (let P = pe_place E; nextpc = fst pc + 4 in
      if hasMachineInstrByAddr P (fst pc) \<and> hasMachineInstrByAddr P nextpc \<and> snd pc \<noteq> [] then
        (case (getMachineInstrByAddr P (fst pc), getMachineInstrByAddr P nextpc) of
           (Some here, Some there) \<Rightarrow>
             (case update_after E here (snd pc) of None \<Rightarrow> None
              | Some ctx \<Rightarrow>
                  if mi_parent here = mi_parent there then map_option (Pair nextpc) (update_before E there ctx)
                  else (case getEdgesBetween (pe_machine E) (mi_parent here) (mi_parent there) of
                          None \<Rightarrow> None
                        | Some None \<Rightarrow> Some (nextpc, mk_context [])
                        | Some (Some paths) \<Rightarrow> map_option (Pair nextpc) (fetch_paths E there ctx paths [])))
         | _ \<Rightarrow> None)
      else Some (nextpc, mk_context []))"

section \<open>States\<close>

record branch_outcome =
  bo_taken :: bool
  bo_target :: "mbb option"

definition bo_nottaken :: branch_outcome where "bo_nottaken = \<lparr>bo_taken = False, bo_target = None\<rparr>"
definition bo_taken_to :: "mbb \<Rightarrow> branch_outcome" where "bo_taken_to b = \<lparr>bo_taken = True, bo_target = Some b\<rparr>"
definition bo_taken_any :: branch_outcome where "bo_taken_any = \<lparr>bo_taken = True, bo_target = None\<rparr>"

record micro =
  mu_time :: interval_counter
  mu_pc :: exec_elem
  mu_branches :: "(exec_elem \<times> branch_outcome) list"
  mu_returns :: "exec_elem list"

definition mu_init :: "program_env \<Rightarrow> minstr \<times> tcontext \<Rightarrow> micro option" where
  "mu_init E progloc =
     map_option (\<lambda>a. \<lparr>mu_time = ic_make True True True 0, mu_pc = (a, snd progloc), mu_branches = [], mu_returns = []\<rparr>)
       (getAddr (pe_place E) (fst progloc))"

definition mu_reset_metrics :: "'a micro_scheme \<Rightarrow> 'a micro_scheme" where
  "mu_reset_metrics s = s\<lparr>mu_time := ic_assign (mu_time s) 0\<rparr>"

definition assumptions_same :: "'a micro_scheme \<Rightarrow> 'b micro_scheme \<Rightarrow> bool" where
  "assumptions_same s s' \<longleftrightarrow>
     list_all2 (\<lambda>x y. ee_same (fst x) (fst y) \<and> snd x = snd y) (mu_branches s) (mu_branches s') \<and>
     list_all2 ee_same (mu_returns s) (mu_returns s')"

definition mu_equals :: "'a micro_scheme \<Rightarrow> 'b micro_scheme \<Rightarrow> bool" where
  "mu_equals s s' \<longleftrightarrow> ic_eq (mu_time s) (mu_time s') \<and> ee_same (mu_pc s) (mu_pc s') \<and> assumptions_same s s'"

definition mu_joinable :: "'a micro_scheme \<Rightarrow> 'b micro_scheme \<Rightarrow> bool" where
  "mu_joinable s s' \<longleftrightarrow> ic_joinable True (mu_time s) (mu_time s') \<and> ee_same (mu_pc s) (mu_pc s') \<and> assumptions_same s s'"

definition mu_join :: "'a micro_scheme \<Rightarrow> 'b micro_scheme \<Rightarrow> 'a micro_scheme option" where
  "mu_join s s' =
     (if \<not> mu_joinable s s' then None
      else map_option (\<lambda>t. s\<lparr>mu_time := t\<rparr>) (ic_join True True True (mu_time s) (mu_time s')))"

text \<open>A set of states keeps one of several equal ones.\<close>

definition insert_state :: "('s \<Rightarrow> 's \<Rightarrow> bool) \<Rightarrow> 's \<Rightarrow> 's list \<Rightarrow> 's list" where
  "insert_state eq s xs = (if \<exists>x \<in> set xs. eq x s then xs else xs @ [s])"

section \<open>Branches\<close>

text \<open>The blocks of a function lie in memory in the order of their numbers: block \<open>n + 1\<close> follows block \<open>n\<close>.\<close>

fun skip_empty :: "machine \<Rightarrow> nat \<Rightarrow> mbb \<Rightarrow> (mbb \<times> mbb_edge list) option" where
  "skip_empty M 0 b = None"
| "skip_empty M (Suc n) b =
     (if \<not> isBasicBlockEmpty M b then Some (b, [])
      else case m_succs M b of
             [c] \<Rightarrow> if c = (fst b, Suc (snd b)) then map_option (\<lambda>(d, es). (d, (b, c) # es)) (skip_empty M n c) else None
           | _ \<Rightarrow> None)"

definition handlePCUpdate :: "program_env \<Rightarrow> exec_elem \<Rightarrow> mbb \<Rightarrow> 'a micro_scheme \<Rightarrow> 'a micro_scheme option" where
  "handlePCUpdate E source target s =
     (case getMachineInstrByAddr (pe_place E) (fst source) of None \<Rightarrow> None
      | Some branch \<Rightarrow>
          if \<not> id_branch (m_desc (pe_machine E) branch) then None
          else
            (case skip_empty (pe_machine E) (Suc (m_blocks (pe_machine E) (fst target))) target of None \<Rightarrow> None
             | Some (b, es) \<Rightarrow>
                 Option.bind (getFirstInstrInBB (pe_machine E) b) (\<lambda>targetInstr.
                 Option.bind (getAddr (pe_place E) targetInstr) (\<lambda>a.
                 Option.bind (update_after E branch (snd source)) (\<lambda>c1.
                 Option.bind (update_edges E ((mi_parent branch, target) # es) c1) (\<lambda>c2.
                 Option.bind (update_before E targetInstr c2) (\<lambda>c3. Some (s\<lparr>mu_pc := (a, c3)\<rparr>))))))))"

definition assume_branch :: "exec_elem \<Rightarrow> branch_outcome \<Rightarrow> 'a micro_scheme \<Rightarrow> 'a micro_scheme" where
  "assume_branch ee bo s = s\<lparr>mu_branches := mu_branches s @ [(ee, bo)]\<rparr>"

definition jump_to :: "program_env \<Rightarrow> exec_elem \<Rightarrow> 'a micro_scheme \<Rightarrow> mbb \<Rightarrow> 'a micro_scheme option" where
  "jump_to E ee s b = map_option (assume_branch ee (bo_taken_to b)) (handlePCUpdate E ee b s)"

text \<open>The results are the state itself and the set of alternatives.\<close>

definition handleBranch ::
  "program_env \<Rightarrow> ('a micro_scheme \<Rightarrow> 'a micro_scheme \<Rightarrow> bool) \<Rightarrow> exec_elem \<Rightarrow> 'a micro_scheme \<Rightarrow>
    ('a micro_scheme \<times> 'a micro_scheme list) option" where
  "handleBranch E eq ee s =
     (let M = pe_machine E in
      case getMachineInstrByAddr (pe_place E) (fst ee) of None \<Rightarrow> None
      | Some i \<Rightarrow>
          if \<not> id_branch (m_desc M i) then None
          else if isJumpTableBranch M i then
            (case Option.bind (getJumpTableIndex M i) (m_jump_tables M (mi_function i)) of
               Some (b # bs) \<Rightarrow>
                 (case (jump_to E ee s b, those (List.map (jump_to E ee s) bs)) of
                    (Some own, Some alts) \<Rightarrow> Some (own, fold (insert_state eq) alts [])
                  | _ \<Rightarrow> None)
             | _ \<Rightarrow> None)
          else
            (case getBranchTargetOperand M i of
               Some (OpMBB target) \<Rightarrow>
                 if id_cond_branch (m_desc M i) then
                   map_option (\<lambda>own. (own, [assume_branch ee bo_nottaken s])) (jump_to E ee s target)
                 else if \<not> id_uncond_branch (m_desc M i) then None
                 else map_option (\<lambda>own. (own, [])) (handlePCUpdate E ee target s)
             | _ \<Rightarrow> None))"

section \<open>Calls\<close>

definition handleCall :: "program_env \<Rightarrow> exec_elem \<Rightarrow> 'a micro_scheme \<Rightarrow> 'a micro_scheme option" where
  "handleCall E ee s =
     (let M = pe_machine E; g = pe_graph E; C = pe_collector E in
      case getMachineInstrByAddr (pe_place E) (fst ee) of None \<Rightarrow> None
      | Some i \<Rightarrow>
          if \<not> id_call (m_desc M i) then None
          else
            (case callsExternal M C i of None \<Rightarrow> None
             | Some True \<Rightarrow>
                 Option.bind (getExternalCalleeName M C i) (\<lambda>name.
                 map_option (\<lambda>a. s\<lparr>mu_pc := (a, snd (mu_pc s))\<rparr>) (getExtFuncStartAddress g name))
             | Some False \<Rightarrow>
                 Option.bind (get_operand M i 0) (\<lambda>callTarget.
                 Option.bind (getCalleeNameFromOperand callTarget) (\<lambda>name.
                 Option.bind (getFunctionByName C name) (\<lambda>callee.
                 Option.bind (getFirstInstrInFunction M callee) (\<lambda>(start, es).
                 Option.bind (getAddr (pe_place E) start) (\<lambda>a.
                 Option.bind (reduceOnCall (pe_opts E) (snd ee)) (\<lambda>c1.
                 Option.bind (if has_directive (dh_before_func (pe_heur E)) callee
                              then ctx_update (the (dh_before_func (pe_heur E) callee)) c1 else Some c1) (\<lambda>c2.
                 Option.bind (update_edges E es c2) (\<lambda>c3.
                 Option.bind (update_before E start c3) (\<lambda>c4. Some (s\<lparr>mu_pc := (a, c4)\<rparr>))))))))))))"

section \<open>Returns\<close>

definition updateContextOnReturn :: "program_env \<Rightarrow> minstr \<Rightarrow> tcontext \<Rightarrow> tcontext option" where
  "updateContextOnReturn E callsite ctx =
     (if \<not> id_call (m_desc (pe_machine E) callsite) then None
      else
        Option.bind (getAddr (pe_place E) callsite) (\<lambda>a.
        Option.bind (getMachineInstrByAddr (pe_place E) (a + 4)) (\<lambda>target.
        Option.bind (update_after E callsite ctx) (\<lambda>c1.
        Option.bind
          (if mi_parent callsite = mi_parent target then Some c1
           else case getEdgesBetween (pe_machine E) (mi_parent callsite) (mi_parent target) of
                  Some (Some [es]) \<Rightarrow> update_edges E es c1
                | _ \<Rightarrow> None) (update_before E target)))))"

type_synonym return_location = "32 word \<times> tcontext \<times> tcontext"

text \<open>\<open>std::multimap::insert\<close>: behind the entries of the same address.\<close>

fun multimap_insert :: "return_location \<Rightarrow> return_location list \<Rightarrow> return_location list" where
  "multimap_insert x [] = [x]"
| "multimap_insert x (y # ys) = (if fst x < fst y then x # y # ys else y # multimap_insert x ys)"

text \<open>The return location of a call site in one of its contexts, if the context fits.\<close>

definition return_location_of ::
  "program_env \<Rightarrow> tcontext \<Rightarrow> minstr \<times> tcontext \<Rightarrow> return_location list \<Rightarrow> return_location list option" where
  "return_location_of E returnCtx x locs =
     (case x of (callsite, ctx) \<Rightarrow>
        Option.bind (reduceOnCall (pe_opts E) ctx) (\<lambda>reduced.
        if ctx_same returnCtx reduced then
          Option.bind (getAddr (pe_place E) callsite) (\<lambda>a.
          map_option (\<lambda>contCtx. multimap_insert (a + 4, contCtx, ctx) locs) (updateContextOnReturn E callsite ctx))
        else Some locs))"

definition return_locations :: "program_env \<Rightarrow> (minstr \<rightharpoonup> tcontext list) \<Rightarrow> mfunc \<Rightarrow> tcontext \<Rightarrow> return_location list option" where
  "return_locations E ins2ctx f returnCtx =
     map_option (\<lambda>locs. if f = pe_entry E then multimap_insert (pe_link E, [], []) locs else locs)
       (fold_option (return_location_of E returnCtx)
          (concat (List.map (\<lambda>i. case ins2ctx i of None \<Rightarrow> [] | Some ctxs \<Rightarrow> List.map (Pair i) ctxs)
             (potentialCallSites (pe_graph E) f))) [])"

text \<open>The context in which the function of a return instruction is left.\<close>

definition return_context :: "program_env \<Rightarrow> minstr \<Rightarrow> tcontext \<Rightarrow> tcontext option" where
  "return_context E i ctx =
     Option.bind (update_after E i ctx) (\<lambda>c1.
     if has_directive (dh_after_func (pe_heur E)) (mi_function i)
     then ctx_update (the (dh_after_func (pe_heur E) (mi_function i))) c1 else Some c1)"

definition return_to :: "exec_elem \<Rightarrow> 'a micro_scheme \<Rightarrow> return_location \<Rightarrow> 'a micro_scheme" where
  "return_to ee s loc =
     (case loc of (a, contCtx, ctx) \<Rightarrow>
        assume_branch ee bo_taken_any (s\<lparr>mu_pc := (a, contCtx), mu_returns := mu_returns s @ [(a, ctx)]\<rparr>))"

definition handleReturn ::
  "program_env \<Rightarrow> ('a micro_scheme \<Rightarrow> 'a micro_scheme \<Rightarrow> bool) \<Rightarrow> (minstr \<rightharpoonup> tcontext list) \<Rightarrow> exec_elem \<Rightarrow> 'a micro_scheme \<Rightarrow>
    ('a micro_scheme \<times> 'a micro_scheme list) option" where
  "handleReturn E eq ins2ctx ee s =
     (let M = pe_machine E in
      case getMachineInstrByAddr (pe_place E) (fst ee) of None \<Rightarrow> None
      | Some i \<Rightarrow>
          if \<not> id_return (m_desc M i) then None
          else
            Option.bind (return_context E i (snd ee)) (\<lambda>returnCtx.
            (case return_locations E ins2ctx (mi_function i) returnCtx of
               Some (loc # locs) \<Rightarrow>
                 if \<not> isPredicated M i then
                   Some (return_to ee s loc, fold (insert_state eq) (List.map (return_to ee s) locs) [])
                 else Some (assume_branch ee bo_nottaken s, fold (insert_state eq) (List.map (return_to ee s) (loc # locs)) [])
             | _ \<Rightarrow> None)))"

definition handleBranching ::
  "program_env \<Rightarrow> ('a micro_scheme \<Rightarrow> 'a micro_scheme \<Rightarrow> bool) \<Rightarrow> (minstr \<rightharpoonup> tcontext list) \<Rightarrow> exec_elem \<Rightarrow> 'a micro_scheme \<Rightarrow>
    ('a micro_scheme \<times> 'a micro_scheme list) option" where
  "handleBranching E eq ins2ctx ee s =
     (case getMachineInstrByAddr (pe_place E) (fst ee) of None \<Rightarrow> None
      | Some i \<Rightarrow>
          let d = m_desc (pe_machine E) i in
          if id_branch d then handleBranch E eq ee s
          else if id_call d then map_option (\<lambda>own. (own, [])) (handleCall E ee s)
          else if id_return d then handleReturn E eq ins2ctx ee s
          else None)"

section \<open>Assumptions\<close>

definition assumedBranchOutcome ::
  "program_env \<Rightarrow> minstr \<times> tcontext \<Rightarrow> branch_outcome \<Rightarrow> 'a micro_scheme \<Rightarrow> (bool \<times> 'a micro_scheme) option" where
  "assumedBranchOutcome E pl bo s =
     Option.bind (getAddr (pe_place E) (fst pl)) (\<lambda>a.
     (case mu_branches s of [] \<Rightarrow> None
      | (ee, oldest) # rest \<Rightarrow>
          if \<not> (fst ee = a \<and> ctx_same (snd ee) (snd pl)) then None
          else Some (if bo_taken bo then (if bo_target bo = None then bo_taken oldest else oldest = bo) else \<not> bo_taken oldest,
                     s\<lparr>mu_branches := rest\<rparr>)))"

text \<open>Without an assumption the code reads the front of an empty vector.\<close>

definition assumedCallSite :: "program_env \<Rightarrow> 'a micro_scheme \<Rightarrow> (minstr option \<times> tcontext) option" where
  "assumedCallSite E s =
     (case mu_returns s of [] \<Rightarrow> None
      | oldest # rest \<Rightarrow>
          Some (if hasMachineInstrByAddr (pe_place E) (fst oldest - 4)
                then (getMachineInstrByAddr (pe_place E) (fst oldest - 4), snd oldest) else (None, [])))"

definition assumedReturnedTo :: "program_env \<Rightarrow> minstr \<times> tcontext \<Rightarrow> 'a micro_scheme \<Rightarrow> (bool \<times> 'a micro_scheme) option" where
  "assumedReturnedTo E pl s =
     (case mu_returns s of [] \<Rightarrow> None
      | oldest # rest \<Rightarrow>
          map_option (\<lambda>a. (ee_same oldest (a + 4, snd pl), s\<lparr>mu_returns := rest\<rparr>)) (getAddr (pe_place E) (fst pl)))"

definition assumedReturnedFromMain :: "program_env \<Rightarrow> 'a micro_scheme \<Rightarrow> (bool \<times> 'a micro_scheme) option" where
  "assumedReturnedFromMain E s =
     (case mu_returns s of [] \<Rightarrow> None
      | oldest # rest \<Rightarrow> Some (ee_same oldest (pe_link E, []), s\<lparr>mu_returns := rest\<rparr>))"

end
