(* ===== verification/TA_Micro_State_Properties.thy ===== *)
theory TA_Micro_State_Properties
  imports TA_Micro_State TA_Partition_Properties TA_Static_Address_Properties
begin

text \<open>
  What the handling of branches and returns guarantees: every outcome of a branch is followed by exactly
  one successor, which the recorded assumptions tell apart; a return goes to every caller whose context
  fits and to no other place; a branch to the next block and the fall-through lead to the same place.
\<close>

section \<open>Sets of states\<close>

lemma insert_states_subset: "set (fold (insert_state eq) xs ys) \<subseteq> set ys \<union> set xs"
  by (induction xs arbitrary: ys) (force simp: insert_state_def split: if_splits)+

lemma insert_states_old: "set ys \<subseteq> set (fold (insert_state eq) xs ys)"
proof (induction xs arbitrary: ys)
  case (Cons x xs)
  have "set ys \<subseteq> set (insert_state eq x ys)" by (auto simp: insert_state_def)
  then show ?case using Cons.IH [of "insert_state eq x ys"] by auto
qed simp

lemma insert_states_covers: "x \<in> set xs \<Longrightarrow> \<exists>y \<in> set (fold (insert_state eq) xs ys). y = x \<or> eq y x"
proof (induction xs arbitrary: ys)
  case (Cons z xs)
  have o: "set (insert_state eq z ys) \<subseteq> set (fold (insert_state eq) xs (insert_state eq z ys))" by (rule insert_states_old)
  have "\<exists>y \<in> set (insert_state eq z ys). y = z \<or> eq y z" by (auto simp: insert_state_def)
  then show ?case using Cons o by (auto; blast)
qed simp

lemma insert_states_distinct:
  "sorted_wrt (\<lambda>x y. \<not> eq x y) (ys @ xs) \<Longrightarrow> fold (insert_state eq) xs ys = ys @ xs"
proof (induction xs arbitrary: ys)
  case (Cons x xs)
  have "insert_state eq x ys = ys @ [x]" using Cons.prems by (auto simp: insert_state_def sorted_wrt_append)
  then show ?case using Cons by simp
qed simp

section \<open>Branches\<close>

text \<open>The outcomes of a branch that is not taken unconditionally.\<close>

definition branch_outcomes :: "machine \<Rightarrow> minstr \<Rightarrow> branch_outcome list" where
  "branch_outcomes M i =
     (if isJumpTableBranch M i
      then (case Option.bind (getJumpTableIndex M i) (m_jump_tables M (mi_function i)) of Some bs \<Rightarrow> List.map bo_taken_to bs | None \<Rightarrow> [])
      else if id_cond_branch (m_desc M i)
      then (case getBranchTargetOperand M i of Some (OpMBB t) \<Rightarrow> [bo_taken_to t, bo_nottaken] | _ \<Rightarrow> [])
      else [])"

lemma pc_update_keeps:
  assumes "handlePCUpdate E ee b s = Some s'"
  shows "mu_branches s' = mu_branches s" "mu_returns s' = mu_returns s" "mu_time s' = mu_time s" "micro.more s' = micro.more s"
  using assms by (auto simp: handlePCUpdate_def bind_eq_Some_conv split: option.splits if_splits prod.splits)

lemma jump_to_branches:
  assumes "jump_to E ee s b = Some s'"
  shows "mu_branches s' = mu_branches s @ [(ee, bo_taken_to b)]" "mu_returns s' = mu_returns s" "mu_time s' = mu_time s"
    "micro.more s' = micro.more s"
proof -
  obtain z where "handlePCUpdate E ee b s = Some z" "s' = assume_branch ee (bo_taken_to b) z"
    using assms by (auto simp: jump_to_def)
  then show "mu_branches s' = mu_branches s @ [(ee, bo_taken_to b)]" "mu_returns s' = mu_returns s" "mu_time s' = mu_time s"
    "micro.more s' = micro.more s"
    using pc_update_keeps [of E ee b s z] by (simp_all add: assume_branch_def)
qed

lemma those_list_all2: "those (List.map f xs) = Some ys \<Longrightarrow> list_all2 (\<lambda>x y. f x = Some y) xs ys"
  by (induction xs arbitrary: ys) (auto split: option.splits)

text \<open>One successor per outcome, in the same order.\<close>

definition recorded :: "exec_elem \<Rightarrow> 'a micro_scheme \<Rightarrow> branch_outcome \<Rightarrow> 'a micro_scheme \<Rightarrow> bool" where
  "recorded ee s bo s' \<longleftrightarrow> mu_branches s' = mu_branches s @ [(ee, bo)] \<and> mu_returns s' = mu_returns s \<and> mu_time s' = mu_time s \<and>
     micro.more s' = micro.more s \<and> (bo = bo_nottaken \<longrightarrow> mu_pc s' = mu_pc s)"

lemma list_all2_last: "list_all2 R (xs @ [x]) (ys @ [y]) \<Longrightarrow> R x y"
  using list_all2_lengthD [of R "xs @ [x]" "ys @ [y]"] by (auto simp: list_all2_append)

lemma jump_to_recorded: "jump_to E ee s b = Some s' \<Longrightarrow> recorded ee s (bo_taken_to b) s'"
  using jump_to_branches [of E ee s b s'] by (simp add: recorded_def bo_taken_to_def bo_nottaken_def)

lemma recorded_not_eq:
  assumes "recorded ee s bo s1" "recorded ee s bo' s2" "bo \<noteq> bo'"
  shows "\<not> mu_equals s1 s2"
proof
  assume "mu_equals s1 s2"
  then have "list_all2 (\<lambda>x y. ee_same (fst x) (fst y) \<and> snd x = snd y) (mu_branches s @ [(ee, bo)]) (mu_branches s @ [(ee, bo')])"
    using assms(1,2) by (auto simp: mu_equals_def assumptions_same_def recorded_def)
  from list_all2_last [OF this] assms(3) show False by simp
qed

lemma bo_distinct [simp]: "bo_taken_to b \<noteq> bo_nottaken" "bo_taken_to b = bo_taken_to c \<longleftrightarrow> b = c"
  by (auto simp: bo_taken_to_def bo_nottaken_def)

lemma recorded_sorted:
  assumes "list_all2 (recorded ee s) os xs" "distinct os" "\<And>x y. eq x y \<Longrightarrow> mu_equals x y"
  shows "sorted_wrt (\<lambda>x y. \<not> eq x y) xs"
  using assms(1,2)
proof (induction os xs)
  case (Cons bo os x xs)
  have "\<not> eq x y" if y: "y \<in> set xs" for y
  proof -
    obtain k where k: "k < length xs" "y = xs ! k" using y unfolding in_set_conv_nth by blast
    then have r: "recorded ee s (os ! k) y" "k < length os" using Cons.hyps(2) by (auto simp: list_all2_conv_all_nth)
    then have "bo \<noteq> os ! k" using Cons.prems by (auto simp: in_set_conv_nth)
    then show ?thesis using recorded_not_eq [OF Cons.hyps(1) r(1)] assms(3) by blast
  qed
  then show ?case using Cons by simp
qed simp

lemma branch_successors:
  assumes h: "handleBranch E eq ee s = Some (own, alts)"
    and i: "getMachineInstrByAddr (pe_place E) (fst ee) = Some i"
    and d: "distinct (branch_outcomes (pe_machine E) i)" "branch_outcomes (pe_machine E) i \<noteq> []"
    and eq: "\<And>x y. eq x y \<Longrightarrow> mu_equals x y"
  shows "list_all2 (recorded ee s) (branch_outcomes (pe_machine E) i) (own # alts)"
proof (cases "isJumpTableBranch (pe_machine E) i")
  case True
  obtain b bs xs where t: "Option.bind (getJumpTableIndex (pe_machine E) i) (m_jump_tables (pe_machine E) (mi_function i)) = Some (b # bs)"
      "jump_to E ee s b = Some own" "those (List.map (jump_to E ee s) bs) = Some xs" "alts = fold (insert_state eq) xs []"
    using h i True by (auto simp: handleBranch_def Let_def split: option.splits list.splits if_splits)
  have o: "branch_outcomes (pe_machine E) i = bo_taken_to b # List.map bo_taken_to bs"
    using True t(1) by (simp add: branch_outcomes_def)
  have own: "recorded ee s (bo_taken_to b) own" by (rule jump_to_recorded [OF t(2)])
  have "list_all2 (recorded ee s) (List.map bo_taken_to bs) xs"
    unfolding list_all2_map1 by (rule list_all2_mono [OF those_list_all2 [OF t(3)]]) (rule jump_to_recorded)
  moreover from this have "sorted_wrt (\<lambda>x y. \<not> eq x y) xs" by (rule recorded_sorted) (use d o eq in auto)
  ultimately show ?thesis using own o t(4) insert_states_distinct [of eq "[]" xs] by simp
next
  case False
  obtain target where g: "getBranchTargetOperand (pe_machine E) i = Some (OpMBB target)" "id_cond_branch (m_desc (pe_machine E) i)"
    using d(2) False by (auto simp: branch_outcomes_def split: option.splits operand.splits if_splits)
  then have "jump_to E ee s target = Some own" "alts = [assume_branch ee bo_nottaken s]"
    using h i False by (auto simp: handleBranch_def Let_def split: if_splits)
  then show ?thesis using False g jump_to_branches [of E ee s target own]
    by (simp add: branch_outcomes_def recorded_def assume_branch_def)
qed

lemma assumed_recorded:
  assumes "recorded ee s bo' s'" "mu_branches s = []" "getAddr (pe_place E) i = Some (fst ee)" "ctx_same (snd ee) c"
    and "bo \<in> {bo_nottaken, bo_taken_to t}" "bo' \<in> {bo_nottaken, bo_taken_to t'}"
  shows "assumedBranchOutcome E (i, c) bo s' = Some (bo' = bo, s'\<lparr>mu_branches := []\<rparr>)"
  using assms by (auto simp: assumedBranchOutcome_def recorded_def bo_nottaken_def bo_taken_to_def)

definition is_outcome :: "branch_outcome \<Rightarrow> bool" where
  "is_outcome bo \<longleftrightarrow> (if bo_taken bo then bo_target bo \<noteq> None else bo_target bo = None)"

lemma is_outcomes [simp]: "is_outcome (bo_taken_to t)" "is_outcome bo_nottaken"
  by (simp_all add: is_outcome_def bo_taken_to_def bo_nottaken_def)

lemma branch_outcomes_form: "list_all is_outcome (branch_outcomes M i)"
  by (simp add: branch_outcomes_def list.pred_map o_def list.pred_True split: option.split operand.split)

lemma outcomes_form: "is_outcome bo \<Longrightarrow> \<exists>t. bo \<in> {bo_nottaken, bo_taken_to t}"
proof -
  assume o: "is_outcome bo"
  show ?thesis
  proof (cases "bo_taken bo")
    case True
    then have "bo = bo_taken_to (the (bo_target bo))" using o by (simp add: is_outcome_def bo_taken_to_def)
    then show ?thesis by blast
  next
    case False
    then have "bo = bo_nottaken" using o by (simp add: is_outcome_def bo_nottaken_def)
    then show ?thesis by blast
  qed
qed

lemma nth_outcome: "branch_outcomes M i = os \<Longrightarrow> n < length os \<Longrightarrow> \<exists>t. os ! n \<in> {bo_nottaken, bo_taken_to t}"
  using branch_outcomes_form [of M i] by (intro outcomes_form) (auto simp: list_all_length)

text \<open>
  C11: the branch handling and the look-up of its assumptions fit together, for a conditional branch or a
  jump table with pairwise distinct targets, handled in a state without older assumptions about branches,
  in a context that equals itself (it has no token of type NONE): there is exactly one successor per outcome,
  and when the analysis later asks a successor whether a given outcome was assumed, exactly the successor of
  that outcome says yes, and its assumption is used up.  The equality that merges states must imply the
  one of the common base class.
\<close>

theorem branch_outcomes_partition_successors:
  assumes "handleBranching E eq ins2ctx ee s = Some (own, alts)"
    and "getMachineInstrByAddr (pe_place E) (fst ee) = Some i" "getAddr (pe_place E) i = Some (fst ee)"
    and "id_branch (m_desc (pe_machine E) i)" "branch_outcomes (pe_machine E) i = os" "distinct os" "os \<noteq> []"
    and "mu_branches s = []" "ctx_same (snd ee) (snd ee)" "\<And>x y. eq x y \<Longrightarrow> mu_equals x y"
  shows "length (own # alts) = length os \<and>
    (\<forall>j < length os. \<forall>k < length os.
       assumedBranchOutcome E (i, snd ee) (os ! j) ((own # alts) ! k) = Some (j = k, ((own # alts) ! k)\<lparr>mu_branches := []\<rparr>))"
proof -
  have "handleBranch E eq ee s = Some (own, alts)" using assms(1,2,4) by (simp add: handleBranching_def Let_def)
  then have r: "list_all2 (recorded ee s) os (own # alts)"
    using branch_successors [of E eq ee s own alts i] assms(2,5,6,7,10) by auto
  have "assumedBranchOutcome E (i, snd ee) (os ! j) ((own # alts) ! k) = Some (j = k, ((own # alts) ! k)\<lparr>mu_branches := []\<rparr>)"
    if jk: "j < length os" "k < length os" for j k
  proof -
    obtain t t' where f: "os ! j \<in> {bo_nottaken, bo_taken_to t}" "os ! k \<in> {bo_nottaken, bo_taken_to t'}"
      using nth_outcome [OF assms(5) jk(1)] nth_outcome [OF assms(5) jk(2)] by blast
    have "recorded ee s (os ! k) ((own # alts) ! k)" using r jk(2) by (rule list_all2_nthD)
    from assumed_recorded [OF this assms(8,3,9) f] show ?thesis
      using nth_eq_iff_index_eq [OF assms(6) jk(2,1)] by auto
  qed
  moreover have "length (own # alts) = length os" using r by (simp add: list_all2_lengthD)
  ultimately show ?thesis by blast
qed

section \<open>Returns\<close>

text \<open>The places to continue at: behind every call of the function, in every context whose reduction is the context of the return.\<close>

definition caller_location :: "program_env \<Rightarrow> (minstr \<rightharpoonup> tcontext list) \<Rightarrow> mfunc \<Rightarrow> tcontext \<Rightarrow> return_location \<Rightarrow> bool" where
  "caller_location E ins2ctx f rc loc \<longleftrightarrow>
     (\<exists>callsite \<in> set (potentialCallSites (pe_graph E) f). \<exists>ctxs ctx a cont r. ins2ctx callsite = Some ctxs \<and> ctx \<in> set ctxs \<and>
        reduceOnCall (pe_opts E) ctx = Some r \<and> ctx_same rc r \<and> getAddr (pe_place E) callsite = Some a \<and>
        updateContextOnReturn E callsite ctx = Some cont \<and> loc = (a + 4, cont, ctx))"

lemma ex_pair_components: "(\<exists>x. A (fst x) (snd x) \<and> Q x) \<longleftrightarrow> (\<exists>a b. A a b \<and> Q (a, b))"
  by force

lemma set_multimap_insert [simp]: "set (multimap_insert x xs) = insert x (set xs)"
  by (induction xs) auto

lemma sorted_multimap_insert: "sorted (List.map fst xs) \<Longrightarrow> sorted (List.map fst (multimap_insert x xs))"
  by (induction xs) (auto intro: order_less_imp_le simp: not_less)

definition location_of :: "program_env \<Rightarrow> tcontext \<Rightarrow> minstr \<times> tcontext \<Rightarrow> return_location \<Rightarrow> bool" where
  "location_of E rc x loc \<longleftrightarrow> (\<exists>a cont r. reduceOnCall (pe_opts E) (snd x) = Some r \<and> ctx_same rc r \<and>
     getAddr (pe_place E) (fst x) = Some a \<and> updateContextOnReturn E (fst x) (snd x) = Some cont \<and> loc = (a + 4, cont, snd x))"

lemma return_location_of_some:
  assumes "return_location_of E rc x locs = Some locs'"
  obtains (hit) r a cont where "reduceOnCall (pe_opts E) (snd x) = Some r" "ctx_same rc r" "getAddr (pe_place E) (fst x) = Some a"
      "updateContextOnReturn E (fst x) (snd x) = Some cont" "locs' = multimap_insert (a + 4, cont, snd x) locs"
  | (miss) r where "reduceOnCall (pe_opts E) (snd x) = Some r" "\<not> ctx_same rc r" "locs' = locs"
proof -
  obtain r where r: "reduceOnCall (pe_opts E) (snd x) = Some r" "(if ctx_same rc r then
      Option.bind (getAddr (pe_place E) (fst x)) (\<lambda>a. map_option (\<lambda>contCtx. multimap_insert (a + 4, contCtx, snd x) locs)
        (updateContextOnReturn E (fst x) (snd x))) else Some locs) = Some locs'"
    using assms unfolding return_location_of_def case_prod_beta bind_eq_Some_conv by blast
  show ?thesis
  proof (cases "ctx_same rc r")
    case True
    obtain a cont where "getAddr (pe_place E) (fst x) = Some a" "updateContextOnReturn E (fst x) (snd x) = Some cont"
        "locs' = multimap_insert (a + 4, cont, snd x) locs"
      using r(2) True by (auto simp: bind_eq_Some_conv)
    then show ?thesis by (rule hit [OF r(1) True])
  qed (use miss r in auto)
qed

lemma return_location_step:
  assumes "return_location_of E rc x locs = Some locs'"
  shows "set locs' = set locs \<union> Collect (location_of E rc x)" "sorted (List.map fst locs) \<Longrightarrow> sorted (List.map fst locs')"
  using assms by (cases rule: return_location_of_some; auto simp: location_of_def sorted_multimap_insert)+

lemma return_location_fold:
  assumes "fold_option (return_location_of E rc) xs locs = Some locs'"
  shows "set locs' = set locs \<union> {loc. \<exists>x \<in> set xs. location_of E rc x loc} \<and>
    (sorted (List.map fst locs) \<longrightarrow> sorted (List.map fst locs'))"
  using assms
proof (induction xs arbitrary: locs)
  case (Cons x xs)
  obtain l1 where "return_location_of E rc x locs = Some l1" "fold_option (return_location_of E rc) xs l1 = Some locs'"
    using Cons.prems by (auto simp: bind_eq_Some_conv)
  then show ?case using return_location_step [of E rc x locs l1] Cons.IH [of l1] by auto
qed simp

lemma return_locations_set:
  assumes "return_locations E ins2ctx f rc = Some locs"
  shows "set locs = Collect (caller_location E ins2ctx f rc) \<union> (if f = pe_entry E then {(pe_link E, [], [])} else {})"
    and "sorted (List.map fst locs)"
proof -
  define xs where "xs = concat (List.map (\<lambda>i. case ins2ctx i of None \<Rightarrow> [] | Some ctxs \<Rightarrow> List.map (Pair i) ctxs) (potentialCallSites (pe_graph E) f))"
  obtain l where l: "fold_option (return_location_of E rc) xs [] = Some l"
      "locs = (if f = pe_entry E then multimap_insert (pe_link E, [], []) l else l)"
    using assms unfolding xs_def by (auto simp: return_locations_def)
  have x: "x \<in> set xs \<longleftrightarrow> fst x \<in> set (potentialCallSites (pe_graph E) f) \<and> (\<exists>ctxs. ins2ctx (fst x) = Some ctxs \<and> snd x \<in> set ctxs)" for x
    unfolding xs_def by (cases x; cases "ins2ctx (fst x)") force+
  have "(\<exists>x \<in> set xs. location_of E rc x loc) \<longleftrightarrow> (\<exists>i \<in> set (potentialCallSites (pe_graph E) f). \<exists>ctxs. ins2ctx i = Some ctxs \<and>
      (\<exists>ctx \<in> set ctxs. location_of E rc (i, ctx) loc))" for loc
    unfolding Bex_def x ex_pair_components [where A = "\<lambda>a b. a \<in> set (potentialCallSites (pe_graph E) f) \<and> (\<exists>ctxs. ins2ctx a = Some ctxs \<and> b \<in> set ctxs)"]
    by blast
  then have "caller_location E ins2ctx f rc loc \<longleftrightarrow> (\<exists>x \<in> set xs. location_of E rc x loc)" for loc
    unfolding caller_location_def location_of_def fst_conv snd_conv by blast
  then have "Collect (caller_location E ins2ctx f rc) = {loc. \<exists>x \<in> set xs. location_of E rc x loc}" by (rule Collect_cong)
  then have "set l = Collect (caller_location E ins2ctx f rc)" using return_location_fold [OF l(1)] unfolding list.set Un_empty_left by (elim conjE) (rule trans, assumption, rule sym)
  then show "set locs = Collect (caller_location E ins2ctx f rc) \<union> (if f = pe_entry E then {(pe_link E, [], [])} else {})"
    using l(2) by auto
  show "sorted (List.map fst locs)" using return_location_fold [OF l(1)] l(2) sorted_multimap_insert by auto
qed

lemma handleReturn_successors:
  assumes h: "handleReturn E eq ins2ctx ee s = Some (own, alts)" and i: "getMachineInstrByAddr (pe_place E) (fst ee) = Some i"
  obtains rc loc locs where "return_context E i (snd ee) = Some rc" "return_locations E ins2ctx (mi_function i) rc = Some (loc # locs)"
      "(own, alts) = (if \<not> isPredicated (pe_machine E) i then (return_to ee s loc, fold (insert_state eq) (List.map (return_to ee s) locs) [])
         else (assume_branch ee bo_nottaken s, fold (insert_state eq) (List.map (return_to ee s) (loc # locs)) []))"
proof -
  obtain rc where rc: "return_context E i (snd ee) = Some rc"
      "(case return_locations E ins2ctx (mi_function i) rc of
         Some (loc # locs) \<Rightarrow>
           if \<not> isPredicated (pe_machine E) i then Some (return_to ee s loc, fold (insert_state eq) (List.map (return_to ee s) locs) [])
           else Some (assume_branch ee bo_nottaken s, fold (insert_state eq) (List.map (return_to ee s) (loc # locs)) [])
       | _ \<Rightarrow> None) = Some (own, alts)"
    using h i unfolding handleReturn_def Let_def by (simp add: bind_eq_Some_conv split: if_splits) blast
  obtain ls where ls: "return_locations E ins2ctx (mi_function i) rc = Some ls" using rc(2) by (cases "return_locations E ins2ctx (mi_function i) rc") auto
  show ?thesis
  proof (cases ls)
    case (Cons loc locs)
    show ?thesis by (rule that [of rc loc locs]) (use rc ls Cons in \<open>auto split: if_splits\<close>)
  qed (use rc ls in auto)
qed

text \<open>
  C10: a return goes exactly to the callers: for every call of the function and every context there whose
  reduction is the context of the return, a successor continues behind the call in the context updated
  on the way, and records where it returned to; every other successor is the one that does not take a
  predicated return, or the return of the entry function to the initial link register.
\<close>

theorem return_goes_to_all_callers:
  assumes "handleBranching E eq ins2ctx ee s = Some (own, alts)"
    and "getMachineInstrByAddr (pe_place E) (fst ee) = Some i"
    and "\<not> id_branch (m_desc (pe_machine E) i)" "\<not> id_call (m_desc (pe_machine E) i)"
  shows "\<exists>rc. return_context E i (snd ee) = Some rc \<and>
    (\<forall>loc. caller_location E ins2ctx (mi_function i) rc loc \<longrightarrow> (\<exists>s' \<in> set (own # alts). s' = return_to ee s loc \<or> eq s' (return_to ee s loc))) \<and>
    (\<forall>s' \<in> set (own # alts).
       (\<exists>loc. (caller_location E ins2ctx (mi_function i) rc loc \<or> mi_function i = pe_entry E \<and> loc = (pe_link E, [], [])) \<and> s' = return_to ee s loc) \<or>
       isPredicated (pe_machine E) i \<and> s' = assume_branch ee bo_nottaken s)"
proof -
  have h: "handleReturn E eq ins2ctx ee s = Some (own, alts)"
    using assms by (auto simp: handleBranching_def Let_def split: if_splits)
  obtain rc loc locs where l: "return_context E i (snd ee) = Some rc" "return_locations E ins2ctx (mi_function i) rc = Some (loc # locs)"
      "(own, alts) = (if \<not> isPredicated (pe_machine E) i then (return_to ee s loc, fold (insert_state eq) (List.map (return_to ee s) locs) [])
         else (assume_branch ee bo_nottaken s, fold (insert_state eq) (List.map (return_to ee s) (loc # locs)) []))"
    by (rule handleReturn_successors [OF h assms(2)])
  let ?all = "if isPredicated (pe_machine E) i then loc # locs else locs"
  have alts: "alts = fold (insert_state eq) (List.map (return_to ee s) ?all) []" using l(3) by (auto split: if_splits)
  note set = return_locations_set(1) [OF l(2)]
  have c: "\<exists>s' \<in> set (own # alts). s' = return_to ee s x \<or> eq s' (return_to ee s x)" if "x \<in> set (loc # locs)" for x
  proof (cases "x \<in> set ?all")
    case True
    then have "return_to ee s x \<in> set (List.map (return_to ee s) ?all)" by auto
    from insert_states_covers [OF this, of eq "[]"] alts show ?thesis by auto
  next
    case False
    then have "x = loc" "own = return_to ee s loc" using that l(3) by (auto split: if_splits)
    then show ?thesis by simp
  qed
  have "s' \<in> return_to ee s ` set (loc # locs) \<or> isPredicated (pe_machine E) i \<and> s' = assume_branch ee bo_nottaken s"
    if "s' \<in> set (own # alts)" for s'
    using that l(3) alts insert_states_subset [of eq "List.map (return_to ee s) ?all" "[]"] by (auto split: if_splits)
  moreover have "x \<in> set (loc # locs) \<longleftrightarrow> caller_location E ins2ctx (mi_function i) rc x \<or> mi_function i = pe_entry E \<and> x = (pe_link E, [], [])" for x
    unfolding set by simp
  ultimately show ?thesis using l(1) c unfolding image_iff by (intro exI [of _ rc]) blast
qed

section \<open>Fall-through\<close>

text \<open>
  C39: fetching past the end of a block and branching to the next block agree: when the first instruction
  of the target (behind its empty blocks) follows the branch in memory, and the way there is the only
  one, both program counters have the same address and context.
\<close>

theorem branch_to_next_block_is_fetch:
  assumes "handlePCUpdate E pc target s = Some s'" "snd pc \<noteq> []"
    and "getMachineInstrByAddr (pe_place E) (fst pc) = Some i" "fst (mu_pc s') = fst pc + 4"
    and "\<And>j a. getAddr (pe_place E) j = Some a \<Longrightarrow> getMachineInstrByAddr (pe_place E) a = Some j"
    and "skip_empty (pe_machine E) (Suc (m_blocks (pe_machine E) (fst target))) target = Some (b, es)"
    and "mi_parent i \<noteq> b" "getEdgesBetween (pe_machine E) (mi_parent i) b = Some (Some [(mi_parent i, target) # es])"
  shows "fetchNextInstruction E pc = Some (mu_pc s')"
proof -
  obtain j a c1 c2 c3 where u: "getFirstInstrInBB (pe_machine E) b = Some j" "getAddr (pe_place E) j = Some a"
      "update_after E i (snd pc) = Some c1" "update_edges E ((mi_parent i, target) # es) c1 = Some c2"
      "update_before E j c2 = Some c3" "mu_pc s' = (a, c3)"
    using assms(1,3,6) by (auto simp: handlePCUpdate_def bind_eq_Some_conv split: if_splits)
  have j: "getMachineInstrByAddr (pe_place E) (fst pc + 4) = Some j" using assms(5) [OF u(2)] u(6) assms(4) by simp
  have "mi_parent j = b" using u(1) by (auto simp: getFirstInstrInBB_def find_Some_iff instrs_of_def mi_parent_def)
  moreover have "hasMachineInstrByAddr (pe_place E) (fst pc)" "hasMachineInstrByAddr (pe_place E) (fst pc + 4)"
    using assms(3) j unfolding hasMachineInstrByAddr_def getMachineInstrByAddr_def by simp_all
  moreover have "a = fst pc + 4" using u(6) assms(4) by simp
  ultimately show ?thesis
    using assms(2,3,7,8) j u(3-6) by (simp add: fetchNextInstruction_def Let_def del: split_paired_All)
qed

section \<open>Concrete runs\<close>

text \<open>
  A program of two functions: \<open>main\<close> calls \<open>f\<close> and branches to its last block or falls through to a
  block that ends in a branch to it; \<open>f\<close> only returns.
\<close>

definition two_machine :: machine where
  "two_machine = nest_machine\<lparr>
     m_desc := (\<lambda>i. if i = ((0, 0), 0) then nest_desc\<lparr>id_call := True, id_operands := [OpGlobal ''f'']\<rparr>
       else if i = ((0, 0), 1) then nest_desc\<lparr>id_opcode := ''BEQ'', id_branch := True, id_cond_branch := True,
                                               id_operands := [OpReg 1, OpReg 2, OpMBB (0, 2)]\<rparr>
       else if i = ((0, 1), 0) then nest_desc\<lparr>id_opcode := ''PseudoBR'', id_branch := True, id_uncond_branch := True, id_operands := [OpMBB (0, 2)]\<rparr>
       else nest_desc\<lparr>id_return := True\<rparr>),
     m_name := (\<lambda>f. if f = 0 then ''main'' else ''f''),
     m_blocks := (\<lambda>f. if f = 0 then 3 else 1), m_size := (\<lambda>b. if b = (0, 0) then 2 else 1),
     m_succs := (\<lambda>b. if b = (0, 0) then [(0, 1), (0, 2)] else if b = (0, 1) then [(0, 2)] else []),
     m_preds := (\<lambda>b. if b = (0, 1) then [(0, 0)] else if b = (0, 2) then [(0, 0), (0, 1)] else [])\<rparr>"

definition two_collector :: collector where
  "two_collector = [(''f'', 1), (''main'', 0)]"

definition two_env :: program_env where
  "two_env = \<lparr>pe_machine = two_machine,
     pe_place = the (fold_option (sp_runOnMachineFunction two_machine) [0, 1] (sp_init 0x8000)),
     pe_heur = the (fold_option (dh_runOnMachineFunction two_machine (\<lambda>n. n) nest_opts (\<lambda>f. [])) [0, 1] dh_init),
     pe_graph = recomputeCallGraph two_machine two_collector cg_empty, pe_collector = two_collector,
     pe_opts = nest_opts, pe_entry = 0, pe_link = 0x100\<rparr>"

definition two_main_ctx :: tcontext where
  "two_main_ctx = [\<lparr>tk_addr = 0, tk_val = TkFunCallee 0\<rparr>]"

definition two_call_ctx :: tcontext where
  "two_call_ctx = [\<lparr>tk_addr = 0, tk_val = TkFunCallee 0\<rparr>, \<lparr>tk_addr = 1, tk_val = TkCallSite ((0, 0), 0)\<rparr>]"

definition two_f_ctx :: tcontext where
  "two_f_ctx = [\<lparr>tk_addr = 1, tk_val = TkCallSite ((0, 0), 0)\<rparr>, \<lparr>tk_addr = 2, tk_val = TkFunCallee 1\<rparr>]"

definition two_state :: "exec_elem \<Rightarrow> micro" where
  "two_state pc = \<lparr>mu_time = ic_make True True True 0, mu_pc = pc, mu_branches = [], mu_returns = []\<rparr>"

theorem branch_outcomes_partition_successors_witness:
  "\<exists>own alt. handleBranching two_env mu_equals (\<lambda>_. None) (0x8004, two_main_ctx) (two_state (0x8008, two_main_ctx)) = Some (own, [alt]) \<and>
     assumedBranchOutcome two_env (((0, 0), 1), two_main_ctx) (bo_taken_to (0, 2)) own = Some (True, own\<lparr>mu_branches := []\<rparr>) \<and>
     assumedBranchOutcome two_env (((0, 0), 1), two_main_ctx) (bo_taken_to (0, 2)) alt = Some (False, alt\<lparr>mu_branches := []\<rparr>)"
proof -
  let ?ee = "(0x8004 :: 32 word, two_main_ctx)" and ?i = "((0, 0), 1)" and ?os = "[bo_taken_to (0, 2), bo_nottaken]"
  have "handleBranching two_env mu_equals (\<lambda>_. None) ?ee (two_state (0x8008, two_main_ctx)) \<noteq> None" by code_simp
  then obtain own alts where h: "handleBranching two_env mu_equals (\<lambda>_. None) ?ee (two_state (0x8008, two_main_ctx)) = Some (own, alts)"
    by auto
  have i: "getMachineInstrByAddr (pe_place two_env) (fst ?ee) = Some ?i" by code_simp
  have a: "getAddr (pe_place two_env) ?i = Some (fst ?ee)" by code_simp
  have b: "id_branch (m_desc (pe_machine two_env) ?i)" by code_simp
  have o: "branch_outcomes (pe_machine two_env) ?i = ?os" by code_simp
  have d: "distinct ?os" "?os \<noteq> []" "mu_branches (two_state (0x8008, two_main_ctx)) = []" by (simp_all add: two_state_def)
  have c: "ctx_same (snd ?ee) (snd ?ee)" by code_simp
  have p: "length (own # alts) = length ?os \<and> (\<forall>j < length ?os. \<forall>k < length ?os.
      assumedBranchOutcome two_env (?i, snd ?ee) (?os ! j) ((own # alts) ! k) = Some (j = k, ((own # alts) ! k)\<lparr>mu_branches := []\<rparr>))"
    by (rule branch_outcomes_partition_successors [OF h i a b o d c]) simp
  then obtain alt where alts: "alts = [alt]" by (cases alts) auto
  have "assumedBranchOutcome two_env (?i, snd ?ee) (?os ! 0) ((own # alts) ! 0) = Some ((0 :: nat) = 0, ((own # alts) ! 0)\<lparr>mu_branches := []\<rparr>)"
    "assumedBranchOutcome two_env (?i, snd ?ee) (?os ! 0) ((own # alts) ! 1) = Some ((0 :: nat) = 1, ((own # alts) ! 1)\<lparr>mu_branches := []\<rparr>)"
    using p [THEN conjunct2, rule_format, of 0 0] p [THEN conjunct2, rule_format, of 0 1] by simp_all
  then show ?thesis using h alts by auto
qed

theorem return_goes_to_all_callers_witness:
  "\<exists>own alts. handleBranching two_env mu_equals [((0, 0), 0) \<mapsto> [two_call_ctx]] (0x8010, two_f_ctx) (two_state (0x8014, [])) = Some (own, alts) \<and>
     (\<exists>s' \<in> set (own # alts). s' = return_to (0x8010, two_f_ctx) (two_state (0x8014, [])) (0x8004, two_main_ctx, two_call_ctx) \<or>
        mu_equals s' (return_to (0x8010, two_f_ctx) (two_state (0x8014, [])) (0x8004, two_main_ctx, two_call_ctx)))"
proof -
  let ?ee = "(0x8010 :: 32 word, two_f_ctx)" and ?i = "((1, 0), 0)" and ?m = "[((0, 0), 0) \<mapsto> [two_call_ctx]]"
  have "handleBranching two_env mu_equals ?m ?ee (two_state (0x8014, [])) \<noteq> None" by code_simp
  then obtain own alts where h: "handleBranching two_env mu_equals ?m ?ee (two_state (0x8014, [])) = Some (own, alts)" by auto
  have i: "getMachineInstrByAddr (pe_place two_env) (fst ?ee) = Some ?i" by code_simp
  have b: "\<not> id_branch (m_desc (pe_machine two_env) ?i)" "\<not> id_call (m_desc (pe_machine two_env) ?i)" by code_simp+
  have rc: "return_context two_env ?i (snd ?ee) = Some [\<lparr>tk_addr = 1, tk_val = TkCallSite ((0, 0), 0)\<rparr>]" (is "_ = Some ?rc") by code_simp
  have "((0, 0), 0) \<in> set (potentialCallSites (pe_graph two_env) (mi_function ?i))"
    "reduceOnCall (pe_opts two_env) two_call_ctx = Some ?rc" "ctx_same ?rc ?rc" "getAddr (pe_place two_env) ((0, 0), 0) = Some 0x8000"
    "updateContextOnReturn two_env ((0, 0), 0) two_call_ctx = Some two_main_ctx"
    by code_simp+
  moreover have "?m ((0, 0), 0) = Some [two_call_ctx]" "two_call_ctx \<in> set [two_call_ctx]" "(0x8004, two_main_ctx, two_call_ctx) = (0x8000 + 4, two_main_ctx, two_call_ctx)"
    by simp_all
  ultimately have "caller_location two_env ?m (mi_function ?i) ?rc (0x8004, two_main_ctx, two_call_ctx)"
    unfolding caller_location_def by blast
  then show ?thesis using return_goes_to_all_callers [OF h i b] h rc by fastforce
qed

theorem branch_to_next_block_is_fetch_witness:
  "\<exists>s'. handlePCUpdate two_env (0x8008, two_main_ctx) (0, 2) (two_state (0x800c, two_main_ctx)) = Some s' \<and>
     fetchNextInstruction two_env (0x8008, two_main_ctx) = Some (mu_pc s')"
proof -
  let ?pc = "(0x8008 :: 32 word, two_main_ctx)"
  have "map_option (\<lambda>s. fst (mu_pc s)) (handlePCUpdate two_env ?pc (0, 2) (two_state (0x800c, two_main_ctx))) = Some (fst ?pc + 4)" by code_simp
  then obtain s' where s: "handlePCUpdate two_env ?pc (0, 2) (two_state (0x800c, two_main_ctx)) = Some s'" "fst (mu_pc s') = fst ?pc + 4"
    by auto
  have n: "snd ?pc \<noteq> []" by (simp add: two_main_ctx_def)
  have i: "getMachineInstrByAddr (pe_place two_env) (fst ?pc) = Some ((0, 1), 0)" by code_simp
  have "fold_option (sp_runOnMachineFunction two_machine) [0, 1] (sp_init 0x8000) \<noteq> None" by code_simp
  then obtain p where p: "fold_option (sp_runOnMachineFunction two_machine) [0, 1] (sp_init 0x8000) = Some p" by blast
  have "inverse_maps (sp_init 0x8000)" by (simp add: inverse_maps_def sp_init_def)
  then have "inverse_maps p" by (rule fold_option_invariant [OF p]) (use function_inverse in auto)
  then have q: "sp_addr2ins p a = Some j" if "sp_ins2addr p j = Some a" for j a
    using that unfolding inverse_maps_def by blast
  have "pe_place two_env = p" using p by (simp only: two_env_def program_env.simps option.sel)
  then have inv: "getMachineInstrByAddr (pe_place two_env) a = Some j" if "getAddr (pe_place two_env) j = Some a" for j a
    using that q by (simp only: getAddr_def getMachineInstrByAddr_def)
  have e: "skip_empty (pe_machine two_env) (Suc (m_blocks (pe_machine two_env) (fst (0, 2)))) (0, 2) = Some ((0, 2), [])" by code_simp
  have d: "mi_parent ((0, 1), 0) \<noteq> (0, 2)" by (simp add: mi_parent_def)
  have g: "getEdgesBetween (pe_machine two_env) (mi_parent ((0, 1), 0)) (0, 2) = Some (Some [[(mi_parent ((0, 1), 0), (0, 2))]])" by code_simp
  show ?thesis using branch_to_next_block_is_fetch [OF s(1) n i s(2) inv e d g] s(1) by blast
qed

end
