(* ===== verification/TA_In_Order.thy ===== *)
theory TA_In_Order
  imports TA_Micro_State TA_Topology
begin

text \<open>
  The five-stage in-order pipeline over any memory topology
  (\<open>include/MicroarchitecturalAnalysis/InOrderPipelineState.h\<close>).  A field \<open>io_a_b\<close> holds the instruction between the
  stages a and b.  The template parameter is the record of operations of a topology, the interface to the address
  analysis and the table of execution times are functions, the sets of remaining times
  are lists.  \<open>None\<close> is a failed assertion.
\<close>

section \<open>Configuration and states\<close>

text \<open>An edge that does not enter (leave) a persistence scope has an empty list.\<close>

record ('t, 'l) io_config =
  ioc_prog :: program_env
  ioc_topology :: "('t, 'l) memory_topology"
  ioc_exec_times :: "string \<rightharpoonup> nat list"
  ioc_num_accesses :: "minstr \<Rightarrow> nat"
  ioc_access_address :: "minstr \<Rightarrow> tcontext \<Rightarrow> nat \<Rightarrow> abs_address"
  ioc_needs_scopes :: bool
  ioc_entering :: "mbb_edge \<Rightarrow> scope list"
  ioc_leaving :: "mbb_edge \<Rightarrow> scope list"
  ioc_strict_inorder :: bool
  ioc_unblock_stores :: bool

record 't in_order = micro +
  io_if_id :: "exec_elem option"
  io_id_ex :: "exec_elem option"
  io_ex_mem :: "exec_elem option"
  io_mem_wb :: "exec_elem option"
  io_wb_fin :: "exec_elem option"
  io_exec_times :: "nat list"
  io_stall_memory :: bool
  io_interlock :: bool
  io_flushed :: bool
  io_memory :: 't
  io_instr_id :: "32 word option"
  io_instr_finished :: bool
  io_curr_access :: nat
  io_data_ids :: "(nat \<times> 32 word) list"

definition instr_at :: "('t, 'l) io_config \<Rightarrow> exec_elem \<Rightarrow> minstr option" where
  "instr_at C e = getMachineInstrByAddr (pe_place (ioc_prog C)) (fst e)"

definition desc_of :: "('t, 'l) io_config \<Rightarrow> minstr \<Rightarrow> instr_desc" where
  "desc_of C i = m_desc (pe_machine (ioc_prog C)) i"

definition touches_memory :: "('t, 'l) io_config \<Rightarrow> minstr \<Rightarrow> bool" where
  "touches_memory C i \<longleftrightarrow> id_may_load (desc_of C i) \<or> id_may_store (desc_of C i)"

definition io_access_instr :: "('t, 'l) io_config \<Rightarrow> 't in_order \<Rightarrow> 't in_order option" where
  "io_access_instr C s =
     map_option (\<lambda>(r, m). s\<lparr>io_memory := m, io_instr_id := r\<rparr>) (mt_access_instr (ioc_topology C) (fst (mu_pc s)) 1 (io_memory s))"

definition io_init :: "('t, 'l) io_config \<Rightarrow> minstr \<times> tcontext \<Rightarrow> 't in_order option" where
  "io_init C pl =
     Option.bind (mu_init (ioc_prog C) pl) (\<lambda>m.
       io_access_instr C \<lparr>mu_time = mu_time m, mu_pc = mu_pc m, mu_branches = mu_branches m, mu_returns = mu_returns m,
         io_if_id = None, io_id_ex = None, io_ex_mem = None, io_mem_wb = None, io_wb_fin = None, io_exec_times = [],
         io_stall_memory = False, io_interlock = False, io_flushed = False, io_memory = mt_init (ioc_topology C),
         io_instr_id = None, io_instr_finished = False, io_curr_access = 0, io_data_ids = []\<rparr>)"

definition io_reset_metrics :: "('t, 'l) io_config \<Rightarrow> 't in_order \<Rightarrow> 't in_order" where
  "io_reset_metrics C s = (mu_reset_metrics s)\<lparr>io_memory := mt_reset (ioc_topology C) (io_memory s)\<rparr>"

definition io_stages :: "'t in_order \<Rightarrow> exec_elem option list" where
  "io_stages s = [io_if_id s, io_id_ex s, io_ex_mem s, io_mem_wb s, io_wb_fin s]"

definition stages_same :: "'t in_order \<Rightarrow> 't in_order \<Rightarrow> bool" where
  "stages_same s s' \<longleftrightarrow> list_all2 (\<lambda>a b. case (a, b) of (None, None) \<Rightarrow> True | (Some x, Some y) \<Rightarrow> ee_same x y | _ \<Rightarrow> False)
     (io_stages s) (io_stages s')"

definition io_equals :: "('t, 'l) io_config \<Rightarrow> 't in_order \<Rightarrow> 't in_order \<Rightarrow> bool" where
  "io_equals C s s' \<longleftrightarrow> mu_equals s s' \<and> stages_same s s' \<and> set (io_exec_times s) = set (io_exec_times s') \<and>
     io_flushed s = io_flushed s' \<and> io_stall_memory s = io_stall_memory s' \<and> io_interlock s = io_interlock s' \<and>
     io_instr_finished s = io_instr_finished s' \<and> io_curr_access s = io_curr_access s' \<and>
     mt_equals (ioc_topology C) (io_memory s) (io_memory s')"

definition io_joinable_up_to_memory :: "'t in_order \<Rightarrow> 't in_order \<Rightarrow> bool" where
  "io_joinable_up_to_memory s s' \<longleftrightarrow> mu_joinable s s' \<and> set (io_exec_times s) = set (io_exec_times s') \<and>
     io_stall_memory s = io_stall_memory s' \<and> stages_same s s' \<and> io_interlock s = io_interlock s' \<and>
     io_flushed s = io_flushed s' \<and> io_instr_finished s = io_instr_finished s' \<and> io_curr_access s = io_curr_access s'"

definition io_joinable :: "('t, 'l) io_config \<Rightarrow> 't in_order \<Rightarrow> 't in_order \<Rightarrow> bool" where
  "io_joinable C s s' \<longleftrightarrow> io_joinable_up_to_memory s s' \<and> mt_joinable (ioc_topology C) (io_memory s) (io_memory s')"

definition io_join :: "('t, 'l) io_config \<Rightarrow> 't in_order \<Rightarrow> 't in_order \<Rightarrow> 't in_order option" where
  "io_join C s s' =
     (if \<not> io_joinable C s s' then None
      else case (mu_join s s', mt_join (ioc_topology C) (io_memory s) (io_memory s')) of
             (Some u, Some m) \<Rightarrow>
               if (io_instr_id s = None) = (io_instr_id s' = None) \<and> length (io_data_ids s) = length (io_data_ids s')
               then Some (u\<lparr>io_memory := m\<rparr>) else None
           | _ \<Rightarrow> None)"

definition io_waiting_join :: "('t, 'l) io_config \<Rightarrow> 't in_order \<Rightarrow> bool" where
  "io_waiting_join C s = mt_waiting_join (ioc_topology C) (io_memory s)"

section \<open>Persistence scopes around the edges between instructions\<close>

fun first_populated :: "exec_elem option list \<Rightarrow> exec_elem option" where
  "first_populated [] = None"
| "first_populated (None # es) = first_populated es"
| "first_populated (Some e # es) = Some e"

text \<open>The edge between the blocks of two addresses, if they are in different blocks of the program.\<close>

definition cross_edge :: "('t, 'l) io_config \<Rightarrow> 32 word \<Rightarrow> 32 word \<Rightarrow> mbb_edge option" where
  "cross_edge C a b =
     (case (getMachineInstrByAddr (pe_place (ioc_prog C)) a, getMachineInstrByAddr (pe_place (ioc_prog C)) b) of
        (Some i, Some j) \<Rightarrow> if mi_parent i \<noteq> mi_parent j then Some (mi_parent i, mi_parent j) else None
      | _ \<Rightarrow> None)"

definition scopes_on :: "(mbb_edge \<Rightarrow> scope list) \<Rightarrow> mbb_edge option \<Rightarrow> scope list" where
  "scopes_on f e = (case e of None \<Rightarrow> [] | Some e \<Rightarrow> f e)"

definition enter_scopes :: "('t, 'l) io_config \<Rightarrow> mbb_edge option \<Rightarrow> 't in_order \<Rightarrow> 't in_order" where
  "enter_scopes C e s = s\<lparr>io_memory := fold (mt_enter (ioc_topology C)) (scopes_on (ioc_entering C) e) (io_memory s)\<rparr>"

definition leave_scopes :: "('t, 'l) io_config \<Rightarrow> scope list \<Rightarrow> 't in_order \<Rightarrow> 't in_order" where
  "leave_scopes C scs s = s\<lparr>io_memory := fold (mt_leave (ioc_topology C)) scs (io_memory s)\<rparr>"

section \<open>Branches\<close>

text \<open>A scope entered by the speculative fetch of \<open>addr\<close> is left; the flush needs an older instruction.\<close>

definition leave_speculated :: "('t, 'l) io_config \<Rightarrow> 32 word \<Rightarrow> exec_elem option list \<Rightarrow> 't in_order \<Rightarrow> 't in_order option" where
  "leave_speculated C addr stages s =
     (case first_populated stages of None \<Rightarrow> None
      | Some older \<Rightarrow> Some (leave_scopes C (scopes_on (ioc_entering C) (cross_edge C (fst older) addr)) s))"

definition emptyPipelineDueToBranching :: "('t, 'l) io_config \<Rightarrow> 32 word \<Rightarrow> 't in_order \<Rightarrow> 't in_order option" where
  "emptyPipelineDueToBranching C oldPc s =
     map_option (\<lambda>s. s\<lparr>io_flushed := True, io_if_id := None\<rparr>)
       (if ioc_needs_scopes C then
          Option.bind (if io_instr_id s \<noteq> None \<or> io_instr_finished s then leave_speculated C oldPc (io_stages s) s else Some s)
            (\<lambda>s1. case io_if_id s1 of None \<Rightarrow> Some s1
                   | Some e \<Rightarrow> leave_speculated C (fst e) (tl (io_stages s1)) s1)
        else Some s)"

text \<open>The results are the state itself and the alternatives; \<open>inMemory\<close> is the flag \<open>memory\<close>.\<close>

definition flush_alternative :: "('t, 'l) io_config \<Rightarrow> bool \<Rightarrow> 32 word \<Rightarrow> 't in_order \<Rightarrow> 't in_order option" where
  "flush_alternative C inMemory oldPc a =
     (if inMemory \<and> io_id_ex a \<noteq> None then None else emptyPipelineDueToBranching C oldPc a)"

definition branch_alternatives ::
  "('t, 'l) io_config \<Rightarrow> bool \<Rightarrow> minstr \<Rightarrow> 32 word \<Rightarrow> 't in_order list \<Rightarrow> 't in_order list option" where
  "branch_alternatives C inMemory i oldPc alts =
     (if id_return (desc_of C i) \<or> isJumpTableBranch (pe_machine (ioc_prog C)) i
      then those (List.map (flush_alternative C inMemory oldPc) alts)
      else if ioc_strict_inorder C then those (List.map (io_access_instr C) alts)
      else Some alts)"

definition branch_and_flush ::
  "('t, 'l) io_config \<Rightarrow> (minstr \<rightharpoonup> tcontext list) \<Rightarrow> bool \<Rightarrow> minstr \<Rightarrow> exec_elem \<Rightarrow> 't in_order \<Rightarrow>
     ('t in_order \<times> 't in_order list) option" where
  "branch_and_flush C ins2ctx inMemory i ee s =
     Option.bind (handleBranching (ioc_prog C) (io_equals C) ins2ctx ee s) (\<lambda>(own, alts).
       if inMemory \<and> io_id_ex own \<noteq> None then None
       else
         Option.bind (emptyPipelineDueToBranching C (fst (mu_pc s)) own) (\<lambda>own'.
           map_option (\<lambda>as. (own', fold (insert_state (io_equals C)) as []))
             (branch_alternatives C inMemory i (fst (mu_pc s)) alts)))"

definition checkForBranches ::
  "('t, 'l) io_config \<Rightarrow> (minstr \<rightharpoonup> tcontext list) \<Rightarrow> bool \<Rightarrow> 't in_order \<Rightarrow> ('t in_order \<times> 't in_order list) option" where
  "checkForBranches C ins2ctx inMemory s =
     (case (if inMemory then io_ex_mem s else io_id_ex s) of None \<Rightarrow> None
      | Some ee \<Rightarrow>
        (case instr_at C ee of None \<Rightarrow> Some (s, [])
         | Some i \<Rightarrow>
             let d = desc_of C i in
             if \<not> (id_branch d \<or> id_call d \<or> id_return d) then Some (s, [])
             else if \<not> inMemory \<and> id_may_load d then
               (if m_arch (pe_machine (ioc_prog C)) = ArchARM \<and> id_opcode d \<in> set [''BR_JTm_rs'', ''BR_JTm_i12'', ''LDMIA_RET'']
                then Some (s, []) else None)
             else if inMemory \<and> \<not> id_may_load d then Some (s, [])
             else branch_and_flush C ins2ctx inMemory i ee s))"

section \<open>The stages\<close>

definition accessDataFromMemoryTopology :: "('t, 'l) io_config \<Rightarrow> 't in_order \<Rightarrow> 't in_order option" where
  "accessDataFromMemoryTopology C s =
     (case io_ex_mem s of None \<Rightarrow> None
      | Some (a, ctx) \<Rightarrow>
        (case instr_at C (a, ctx) of None \<Rightarrow> None
         | Some i \<Rightarrow>
             if touches_memory C i \<and> io_curr_access s < ioc_num_accesses C i then
               (case mt_access_data (ioc_topology C) (ioc_access_address C i ctx (io_curr_access s))
                       (if id_may_load (desc_of C i) then LOAD else STORE) 1 (io_memory s) of
                  Some (Some n, m) \<Rightarrow>
                    Some (s\<lparr>io_memory := m, io_data_ids := io_data_ids s @ [(io_curr_access s, n)],
                            io_curr_access := io_curr_access s + 1\<rparr>)
                | _ \<Rightarrow> None)
             else Some s))"

text \<open>A load delays the execution of an instruction that reads the loaded register.\<close>

definition load_hazard :: "('t, 'l) io_config \<Rightarrow> minstr \<Rightarrow> 't in_order \<Rightarrow> bool option" where
  "load_hazard C i s =
     (if \<not> id_may_load (desc_of C i) then Some False
      else case get_operand (pe_machine (ioc_prog C)) i 0 of None \<Rightarrow> None
           | Some (OpReg r) \<Rightarrow>
               (case io_id_ex s of None \<Rightarrow> Some False
                | Some e \<Rightarrow> map_option (\<lambda>j. r \<in> set (id_reads (desc_of C j))) (instr_at C e))
           | _ \<Rightarrow> Some False)"

definition processWriteBackStage :: "('t, 'l) io_config \<Rightarrow> 't in_order \<Rightarrow> 't in_order" where
  "processWriteBackStage C s =
     (case io_mem_wb s of None \<Rightarrow> s
      | Some done_elem \<Rightarrow>
          let s' = s\<lparr>io_wb_fin := io_mem_wb s, io_mem_wb := None\<rparr> in
          if ioc_needs_scopes C then
            let nextaddr = (case first_populated [io_ex_mem s', io_id_ex s', io_if_id s'] of Some e \<Rightarrow> fst e | None \<Rightarrow> fst (mu_pc s'))
            in leave_scopes C (scopes_on (ioc_leaving C) (cross_edge C (fst done_elem) nextaddr)) s'
          else s')"

text \<open>
  The loop over the accesses of the memory stage.  The keys of the map only grow, so a new access comes
  last; an iterator that is already at the end does not see it.
\<close>

definition finish_one :: "('t, 'l) io_config \<Rightarrow> nat \<times> 32 word \<Rightarrow> 't in_order \<Rightarrow> (bool \<times> 't in_order) option" where
  "finish_one C x s =
     (let (fin, m) = mt_finished_data (ioc_topology C) (snd x) (io_memory s); s' = s\<lparr>io_memory := m\<rparr> in
      if fin then map_option (Pair True) (accessDataFromMemoryTopology C (s'\<lparr>io_data_ids := filter (\<lambda>y. fst y \<noteq> fst x) (io_data_ids s')\<rparr>))
      else Some (False, s'))"

definition added_accesses :: "nat \<times> 32 word \<Rightarrow> 't in_order \<Rightarrow> 't in_order \<Rightarrow> (nat \<times> 32 word) list" where
  "added_accesses x s s' = drop (length (filter (\<lambda>y. fst y \<noteq> fst x) (io_data_ids s))) (io_data_ids s')"

definition accesses_left :: "('t, 'l) io_config \<Rightarrow> 't in_order \<Rightarrow> nat" where
  "accesses_left C s =
     (case io_ex_mem s of None \<Rightarrow> 0
      | Some e \<Rightarrow> (case instr_at C e of None \<Rightarrow> 0 | Some i \<Rightarrow> ioc_num_accesses C i - io_curr_access s))"

lemma access_data_cases:
  assumes "accessDataFromMemoryTopology C s = Some s'"
  obtains (same) "s' = s"
  | (new) i a m n where "io_ex_mem s = Some a" "instr_at C a = Some i" "touches_memory C i" "io_curr_access s < ioc_num_accesses C i"
      "s' = s\<lparr>io_memory := m, io_data_ids := io_data_ids s @ [(io_curr_access s, n)], io_curr_access := io_curr_access s + 1\<rparr>"
proof (cases "io_ex_mem s")
  case (Some e)
  obtain a ctx where e: "e = (a, ctx)" by (cases e)
  show ?thesis
  proof (cases "instr_at C e")
    case i: (Some i)
    show ?thesis
    proof (cases "touches_memory C i \<and> io_curr_access s < ioc_num_accesses C i")
      case True
      then obtain n m where "s' = s\<lparr>io_memory := m, io_data_ids := io_data_ids s @ [(io_curr_access s, n)], io_curr_access := io_curr_access s + 1\<rparr>"
        using assms Some i e by (auto simp: accessDataFromMemoryTopology_def split: option.splits prod.splits)
      then show ?thesis using new [OF Some i] True by blast
    next
      case False
      then have "s' = s" using assms Some i e by (auto simp: accessDataFromMemoryTopology_def split: if_splits)
      then show ?thesis by (rule same)
    qed
  qed (use assms Some e in \<open>auto simp: accessDataFromMemoryTopology_def\<close>)
qed (use assms in \<open>auto simp: accessDataFromMemoryTopology_def\<close>)

lemma finish_one_false: "finish_one C x s = Some (False, s') \<Longrightarrow> \<exists>m. s' = s\<lparr>io_memory := m\<rparr>"
  by (auto simp: finish_one_def Let_def split: prod.splits if_splits)

lemma finish_one_same_left: "finish_one C x s = Some (False, s') \<Longrightarrow> accesses_left C s' = accesses_left C s"
  by (drule finish_one_false) (auto simp: accesses_left_def cong: option.case_cong)

lemma finish_one_true:
  assumes "finish_one C x s = Some (True, s')"
  shows "\<exists>m. accessDataFromMemoryTopology C (s\<lparr>io_memory := m, io_data_ids := filter (\<lambda>y. fst y \<noteq> fst x) (io_data_ids s)\<rparr>) = Some s'"
  using assms by (auto simp: finish_one_def Let_def split: prod.splits if_splits)

lemma finish_one_decreases:
  assumes "finish_one C x s = Some (True, s')"
  shows "2 * accesses_left C s' + length (added_accesses x s s') \<le> 2 * accesses_left C s"
proof -
  obtain m where "accessDataFromMemoryTopology C (s\<lparr>io_memory := m, io_data_ids := filter (\<lambda>y. fst y \<noteq> fst x) (io_data_ids s)\<rparr>) = Some s'"
    using finish_one_true [OF assms] by blast
  then show ?thesis
    by (cases rule: access_data_cases) (auto simp: accesses_left_def added_accesses_def cong: option.case_cong)
qed

function finish_accesses :: "('t, 'l) io_config \<Rightarrow> (nat \<times> 32 word) list \<Rightarrow> 't in_order \<Rightarrow> 't in_order option" where
  "finish_accesses C [] s = Some s"
| "finish_accesses C (x # todo) s =
     (case finish_one C x s of None \<Rightarrow> None
      | Some (False, s') \<Rightarrow> finish_accesses C todo s'
      | Some (True, s') \<Rightarrow> if todo = [] then Some s' else finish_accesses C (todo @ added_accesses x s s') s')"
  by pat_completeness auto

termination
  by (relation "measure (\<lambda>(C, todo, s). 2 * accesses_left C s + length todo)")
    (auto dest: finish_one_decreases finish_one_same_left)

definition complete_access_stage :: "('t, 'l) io_config \<Rightarrow> minstr \<Rightarrow> 't in_order \<Rightarrow> 't in_order option" where
  "complete_access_stage C i s =
     (if touches_memory C i then
        map_option (\<lambda>s'. s'\<lparr>io_stall_memory := \<not> (io_curr_access s' \<ge> ioc_num_accesses C i \<and> io_data_ids s' = [])\<rparr>)
          (finish_accesses C (io_data_ids s) (s\<lparr>io_stall_memory := True\<rparr>))
      else Some s)"

definition processMemoryStage ::
  "('t, 'l) io_config \<Rightarrow> (minstr \<rightharpoonup> tcontext list) \<Rightarrow> 't in_order \<Rightarrow> 't in_order list option" where
  "processMemoryStage C ins2ctx s =
     (case io_ex_mem s of None \<Rightarrow> Some [s]
      | Some e \<Rightarrow>
        (case instr_at C e of None \<Rightarrow> None
         | Some i \<Rightarrow>
             Option.bind (complete_access_stage C i s) (\<lambda>s1.
               if io_stall_memory s1 \<or> io_mem_wb s1 \<noteq> None then Some [s1]
               else
                 Option.bind (load_hazard C i s1) (\<lambda>hazard.
                 map_option (\<lambda>(own, alts). List.map (\<lambda>x. x\<lparr>io_ex_mem := None\<rparr>) (alts @ [own]))
                   (checkForBranches C ins2ctx True (s1\<lparr>io_interlock := hazard, io_mem_wb := io_ex_mem s1\<rparr>))))))"

definition finish_execution ::
  "('t, 'l) io_config \<Rightarrow> (minstr \<rightharpoonup> tcontext list) \<Rightarrow> exec_elem \<Rightarrow> 't in_order \<Rightarrow> 't in_order list option" where
  "finish_execution C ins2ctx e s =
     (if instr_at C e = None then
        if snd e \<noteq> [] then None else Some [s\<lparr>io_id_ex := None, io_exec_times := []\<rparr>]
      else if io_ex_mem s = None then
        Option.bind (accessDataFromMemoryTopology C (s\<lparr>io_ex_mem := io_id_ex s, io_data_ids := [], io_curr_access := 0\<rparr>)) (\<lambda>s1.
        map_option (\<lambda>(own, alts). List.map (\<lambda>x. x\<lparr>io_id_ex := None, io_exec_times := []\<rparr>) (alts @ [own]))
          (checkForBranches C ins2ctx False s1))
      else Some [s\<lparr>io_exec_times := [0]\<rparr>])"

definition processExecuteStage ::
  "('t, 'l) io_config \<Rightarrow> (minstr \<rightharpoonup> tcontext list) \<Rightarrow> 't in_order \<Rightarrow> 't in_order list option" where
  "processExecuteStage C ins2ctx s =
     (case io_id_ex s of
        None \<Rightarrow> if io_exec_times s = [] then Some [s] else None
      | Some e \<Rightarrow>
          if io_interlock s then Some [s]
          else if io_exec_times s = [] then None
          else
            let couldFinish = (\<exists>t \<in> set (io_exec_times s). t = 0 \<or> t = 1);
                newRemExecTime = List.map (\<lambda>t. t - 1) (filter (\<lambda>t. t > 1) (io_exec_times s))
            in map_option (\<lambda>xs. xs @ (if newRemExecTime = [] then [] else [s\<lparr>io_exec_times := newRemExecTime\<rparr>]))
                 (if couldFinish then finish_execution C ins2ctx e s else Some []))"

definition processInstructionDecodeStage :: "('t, 'l) io_config \<Rightarrow> 't in_order \<Rightarrow> 't in_order option" where
  "processInstructionDecodeStage C s =
     (case io_if_id s of None \<Rightarrow> Some s
      | Some e \<Rightarrow>
          if io_id_ex s \<noteq> None then Some s
          else
            (case instr_at C e of None \<Rightarrow> Some (s\<lparr>io_if_id := None\<rparr>)
             | Some i \<Rightarrow>
                 map_option (\<lambda>ts. s\<lparr>io_id_ex := Some e, io_exec_times := ts, io_if_id := None\<rparr>)
                   (ioc_exec_times C (id_opcode (desc_of C i)))))"

definition fetch_waits :: "('t, 'l) io_config \<Rightarrow> exec_elem \<Rightarrow> bool" where
  "fetch_waits C e =
     (case instr_at C e of None \<Rightarrow> False
      | Some i \<Rightarrow> id_call (desc_of C i) \<or> id_return (desc_of C i) \<or> isJumpTableBranch (pe_machine (ioc_prog C)) i \<or>
                  (id_branch (desc_of C i) \<and> ioc_strict_inorder C))"

definition check_fetched :: "('t, 'l) io_config \<Rightarrow> 't in_order \<Rightarrow> 't in_order" where
  "check_fetched C s =
     (case io_instr_id s of None \<Rightarrow> s
      | Some n \<Rightarrow>
          let (fin, m) = mt_finished_instr (ioc_topology C) n (io_memory s) in
          if fin then s\<lparr>io_memory := m, io_instr_finished := True, io_instr_id := None\<rparr> else s\<lparr>io_memory := m\<rparr>)"

definition processInstructionFetchStage :: "('t, 'l) io_config \<Rightarrow> 't in_order \<Rightarrow> 't in_order option" where
  "processInstructionFetchStage C s =
     (if io_flushed s then
        let s1 = s\<lparr>io_instr_finished := False, io_flushed := False\<rparr> in
        Option.bind
          (if ioc_needs_scopes C then
             map_option (\<lambda>older. enter_scopes C (cross_edge C (fst older) (fst (mu_pc s1))) s1) (first_populated (io_stages s1))
           else Some s1) (io_access_instr C)
      else
        let s1 = check_fetched C s in
        if io_if_id s1 = None \<and> io_instr_finished s1 then
          Option.bind (fetchNextInstruction (ioc_prog C) (mu_pc s1)) (\<lambda>nextpc.
            let fetched = mu_pc s1;
                s2 = s1\<lparr>mu_pc := nextpc, io_if_id := Some fetched, io_instr_finished := False\<rparr>;
                s3 = (if ioc_needs_scopes C then enter_scopes C (cross_edge C (fst fetched) (fst nextpc)) s2 else s2)
            in if goesExternal (pe_place (ioc_prog C)) (fst fetched) \<or> fetch_waits C fetched then Some s3 else io_access_instr C s3)
        else Some s1)"

section \<open>A cycle\<close>

datatype convergence =
    PotentiallyNotConverged
  | ConvergedUntilAnyMemoryNonBusy
  | ConvergedUntilInstrMemoryNonBusy
  | ConvergedUntilDataMemoryNonBusy

definition isConvergedAfterCycleFrom :: "('t, 'l) io_config \<Rightarrow> 't in_order \<Rightarrow> 't in_order \<Rightarrow> convergence option" where
  "isConvergedAfterCycleFrom C s origin =
     (if \<not> ic_joinable True (mu_time s) (mu_time origin) then None
      else
        let instrPortBusy = mt_busy_instr (ioc_topology C) (io_memory s);
            dataPortBusy = mt_busy_data (ioc_topology C) (io_memory s)
        in if io_joinable_up_to_memory s origin \<and> \<not> ioc_unblock_stores C then
             if \<not> (instrPortBusy \<or> dataPortBusy \<or> (\<forall>x \<in> set (io_stages s). x = None)) then None
             else if \<not> dataPortBusy then Some ConvergedUntilInstrMemoryNonBusy
             else if \<not> instrPortBusy then Some ConvergedUntilDataMemoryNonBusy
             else Some ConvergedUntilAnyMemoryNonBusy
           else if io_joinable_up_to_memory s origin then Some ConvergedUntilAnyMemoryNonBusy
           else Some PotentiallyNotConverged)"

definition fastForwardAndInsert ::
  "('t, 'l) io_config \<Rightarrow> 't in_order \<Rightarrow> 't in_order \<Rightarrow> 't in_order list \<times> convergence \<Rightarrow> ('t in_order list \<times> convergence) option" where
  "fastForwardAndInsert C origin s acc =
     (case acc of (successors, soFar) \<Rightarrow>
        Option.bind (isConvergedAfterCycleFrom C s origin) (\<lambda>c.
          if c = PotentiallyNotConverged then Some (insert_state (io_equals C) s successors, soFar)
          else
            let soFar' = (if soFar = PotentiallyNotConverged \<or>
                             (soFar = ConvergedUntilAnyMemoryNonBusy \<and> c \<noteq> ConvergedUntilAnyMemoryNonBusy) then c else soFar)
            in if (c = ConvergedUntilInstrMemoryNonBusy \<and> soFar' = ConvergedUntilDataMemoryNonBusy) \<or>
                  (c = ConvergedUntilDataMemoryNonBusy \<and> soFar' = ConvergedUntilInstrMemoryNonBusy) then None
               else map_option (\<lambda>ms. (fold (insert_state (io_equals C)) (List.map (\<lambda>m. s\<lparr>io_memory := m\<rparr>) ms) successors, soFar'))
                      (mt_ff (ioc_topology C) (io_memory s))))"

text \<open>Is a data access of an older instruction possible that may miss?\<close>

definition data_miss_pending :: "('t, 'l) io_config \<Rightarrow> 't in_order \<Rightarrow> (bool \<times> 't in_order) option" where
  "data_miss_pending C s =
     (if \<not> ioc_strict_inorder C then Some (False, s)
      else
        let inDecode = (case io_if_id s of None \<Rightarrow> False
                        | Some e \<Rightarrow> (case instr_at C e of Some i \<Rightarrow> touches_memory C i | None \<Rightarrow> True))
        in Option.bind (case io_id_ex s of None \<Rightarrow> Some False | Some e \<Rightarrow> map_option (touches_memory C) (instr_at C e)) (\<lambda>inExecute.
           Option.bind (case io_ex_mem s of None \<Rightarrow> Some False | Some e \<Rightarrow> map_option (touches_memory C) (instr_at C e)) (\<lambda>inMemory.
             if inMemory \<and> io_data_ids s \<noteq> [] then
               let (fin, m) = mt_finished_data (ioc_topology C) (snd (hd (io_data_ids s))) (io_memory s)
               in Some (inDecode \<or> inExecute \<or> \<not> fin, s\<lparr>io_memory := m\<rparr>)
             else Some (inDecode \<or> inExecute, s))))"

definition cycleMemoryTopology :: "('t, 'l) io_config \<Rightarrow> 't in_order \<Rightarrow> 't in_order list option" where
  "cycleMemoryTopology C s =
     Option.bind (data_miss_pending C s) (\<lambda>(pending, s1).
       map_option (List.map (\<lambda>m. s1\<lparr>io_memory := m\<rparr>)) (mt_cycle (ioc_topology C) pending (io_memory s1)))"

definition process_stages ::
  "('t, 'l) io_config \<Rightarrow> (minstr \<rightharpoonup> tcontext list) \<Rightarrow> 't in_order \<Rightarrow> 't in_order list option" where
  "process_stages C ins2ctx s =
     Option.bind (processMemoryStage C ins2ctx (processWriteBackStage C s)) (all_cases (\<lambda>m.
       Option.bind (processExecuteStage C ins2ctx m) (\<lambda>xs.
         those (List.map (\<lambda>x. Option.bind (processInstructionDecodeStage C x) (processInstructionFetchStage C)) xs))))"

definition io_successors ::
  "('t, 'l) io_config \<Rightarrow> (minstr \<rightharpoonup> tcontext list) \<Rightarrow> 't in_order \<Rightarrow> 't in_order list option" where
  "io_successors C ins2ctx s =
     (if io_wb_fin s \<noteq> None then None
      else Option.bind (mt_stall (ioc_topology C) (io_memory s)) (\<lambda>stall.
        if stall then Some [s] else process_stages C ins2ctx s))"

definition io_cycle :: "('t, 'l) io_config \<Rightarrow> (minstr \<rightharpoonup> tcontext list) \<Rightarrow> 't in_order \<Rightarrow> 't in_order list option" where
  "io_cycle C ins2ctx s =
     Option.bind (cycleMemoryTopology C (s\<lparr>io_stall_memory := False, io_interlock := False, mu_time := ic_inc (mu_time s)\<rparr>)) (\<lambda>xs.
     Option.bind (all_cases (io_successors C ins2ctx) xs) (\<lambda>ys.
       map_option fst (fold_option (fastForwardAndInsert C s) ys ([], PotentiallyNotConverged))))"

definition io_isFinal :: "('t, 'l) io_config \<Rightarrow> exec_elem \<Rightarrow> 't in_order \<Rightarrow> bool \<times> 't in_order" where
  "io_isFinal C ee s =
     (if goesExternal (pe_place (ioc_prog C)) (fst ee)
      then ((\<forall>x \<in> set (io_stages s). x = None) \<and> \<not> mt_unfinished (ioc_topology C) (io_memory s), s)
      else
        (case io_wb_fin s of None \<Rightarrow> (False, s)
         | Some x \<Rightarrow> if ee_same ee x then (True, s\<lparr>io_wb_fin := None\<rparr>) else (False, s)))"

end
