(* ===== verification/TA_In_Order_Properties.thy ===== *)
theory TA_In_Order_Properties
  imports TA_In_Order TA_Micro_State_Properties TA_Topology_Properties
begin

text \<open>
  The in-order pipeline implements an abstract pipeline of five places, in which instructions only move
  on, one place per cycle: instructions leave it in the order they were fetched.  An invariant of its
  states ties the execute stage to its remaining times.
\<close>

section \<open>The abstract pipeline\<close>

text \<open>The places from the youngest to the oldest: fetched, decoded, executed, through memory, written back.
  \<open>prog\<close> says which elements are instructions of the program, \<open>jump\<close> which of them redirect the control flow in
  the memory stage (\<open>True\<close>) and in the execute stage (\<open>False\<close>): only they may drop what was fetched behind them.\<close>

datatype stage = WriteBack | Memory | Execute | Decode | Fetch

inductive stage_move :: "('e \<Rightarrow> bool) \<Rightarrow> (bool \<Rightarrow> 'e \<Rightarrow> bool) \<Rightarrow> 'e \<Rightarrow> stage \<Rightarrow> 'e option list \<Rightarrow> 'e option list \<Rightarrow> bool" for prog jump pc where
  write_back: "stage_move prog jump pc WriteBack [f, d, e, m, None] [f, d, e, None, m]"
| stay: "st \<noteq> WriteBack \<Longrightarrow> stage_move prog jump pc st p p"
| memory: "stage_move prog jump pc Memory [f, d, e, None, w] [f, d, None, e, w]"
| memory_flush: "jump True x \<Longrightarrow> stage_move prog jump pc Memory [f, None, Some x, None, w] [None, None, None, Some x, w]"
| execute: "prog x \<Longrightarrow> stage_move prog jump pc Execute [f, Some x, None, m, w] [f, None, Some x, m, w]"
| execute_flush: "prog x \<Longrightarrow> jump False x \<Longrightarrow> stage_move prog jump pc Execute [f, Some x, None, m, w] [None, None, Some x, m, w]"
| execute_drop: "\<not> prog x \<Longrightarrow> stage_move prog jump pc Execute [f, Some x, e, m, w] [f, None, e, m, w]"
| decode: "prog x \<Longrightarrow> stage_move prog jump pc Decode [Some x, None, e, m, w] [None, Some x, e, m, w]"
| decode_drop: "\<not> prog x \<Longrightarrow> stage_move prog jump pc Decode [Some x, None, e, m, w] [None, None, e, m, w]"
| fetch: "stage_move prog jump pc Fetch [None, d, e, m, w] [Some pc, d, e, m, w]"

fun stage_moves :: "('e \<Rightarrow> bool) \<Rightarrow> (bool \<Rightarrow> 'e \<Rightarrow> bool) \<Rightarrow> 'e \<Rightarrow> stage list \<Rightarrow> 'e option list \<Rightarrow> 'e option list \<Rightarrow> bool" where
  "stage_moves prog jump pc [] p p' \<longleftrightarrow> p = p'"
| "stage_moves prog jump pc (st # sts) p p' \<longleftrightarrow> (\<exists>q. stage_move prog jump pc st p q \<and> stage_moves prog jump pc sts q p')"

definition pipe_cycle :: "('e \<Rightarrow> bool) \<Rightarrow> (bool \<Rightarrow> 'e \<Rightarrow> bool) \<Rightarrow> 'e \<Rightarrow> 'e option list \<Rightarrow> 'e option list \<Rightarrow> bool" where
  "pipe_cycle prog jump pc p p' \<longleftrightarrow> p' = p \<or> stage_moves prog jump pc [WriteBack, Memory, Execute, Decode, Fetch] p p'"

text \<open>The instructions in flight, oldest first.\<close>

fun in_flight :: "'e option list \<Rightarrow> 'e list" where
  "in_flight [] = []"
| "in_flight (x # p) = in_flight p @ (case x of None \<Rightarrow> [] | Some e \<Rightarrow> [e])"

lemma stage_move_order: "stage_move prog jump pc st p q \<Longrightarrow> subseq (in_flight q) (in_flight p @ (if st = Fetch then [pc] else []))"
  by (induction rule: stage_move.induct) (auto split: option.splits)

lemma stage_moves_order:
  "stage_moves prog jump pc sts p q \<Longrightarrow> Fetch \<notin> set sts \<Longrightarrow> subseq (in_flight q) (in_flight p)"
proof (induction sts arbitrary: p)
  case (Cons st sts)
  then obtain r where r: "stage_move prog jump pc st p r" "stage_moves prog jump pc sts r q" by auto
  have "subseq (in_flight r) (in_flight p)" using stage_move_order [OF r(1)] Cons.prems(2) by (cases "st = Fetch") auto
  moreover have "subseq (in_flight q) (in_flight r)" using Cons.IH [OF r(2)] Cons.prems(2) by simp
  ultimately show ?case by (rule subseq_order.trans [rotated])
qed simp

lemma stage_moves_append: "stage_moves prog jump pc (sts @ sts') p q \<longleftrightarrow> (\<exists>r. stage_moves prog jump pc sts p r \<and> stage_moves prog jump pc sts' r q)"
  by (induction sts arbitrary: p) auto

lemma pipe_cycle_order: "pipe_cycle prog jump pc p q \<Longrightarrow> subseq (in_flight q) (in_flight p @ [pc])"
proof -
  assume "pipe_cycle prog jump pc p q"
  then consider "q = p" | r where "stage_moves prog jump pc [WriteBack, Memory, Execute, Decode] p r" "stage_move prog jump pc Fetch r q"
    using stage_moves_append [of prog jump pc "[WriteBack, Memory, Execute, Decode]" "[Fetch]" p q] by (auto simp: pipe_cycle_def)
  then show ?thesis
  proof cases
    case 2
    then have "subseq (in_flight r) (in_flight p)" using stage_moves_order [OF 2(1)] by simp
    moreover have "subseq (in_flight q) (in_flight r @ [pc])" using stage_move_order [OF 2(2)] by simp
    ultimately show ?thesis by (meson list_emb_append_mono subseq_order.order_refl subseq_order.trans)
  qed (simp add: prefix_imp_subseq)
qed

text \<open>An instruction of the program that is at least decoded is never lost.\<close>

lemma stage_move_keeps: "stage_move prog jump pc st p q \<Longrightarrow> subseq (filter prog (in_flight (tl p))) (filter prog (in_flight (tl q)))"
  by (induction rule: stage_move.induct) (auto split: option.splits)

lemma stage_moves_keeps: "stage_moves prog jump pc sts p q \<Longrightarrow> subseq (filter prog (in_flight (tl p))) (filter prog (in_flight (tl q)))"
proof (induction sts arbitrary: p)
  case (Cons st sts)
  then obtain r where "stage_move prog jump pc st p r" "stage_moves prog jump pc sts r q" by auto
  then show ?case using stage_move_keeps [of prog jump pc st p r] Cons.IH by (auto intro: subseq_order.trans)
qed simp

section \<open>Branches leave the pipeline alone\<close>

lemma those_member: "those (List.map f xs) = Some ys \<Longrightarrow> y \<in> set ys \<Longrightarrow> \<exists>x \<in> set xs. f x = Some y"
  by (induction xs arbitrary: ys) (auto split: option.splits)

lemma same_more:
  assumes "micro.more s = micro.more s'"
  shows "io_stages s = io_stages s'" "io_flushed s = io_flushed s'" "io_exec_times s = io_exec_times s'" "io_id_ex s = io_id_ex s'"
    "io_ex_mem s = io_ex_mem s'" "io_curr_access s = io_curr_access s'" "io_data_ids s = io_data_ids s'"
  using assms by (cases s; cases s'; auto simp: io_stages_def)+

definition same_pipeline :: "'t in_order \<Rightarrow> 't in_order \<Rightarrow> bool" where
  "same_pipeline s x \<longleftrightarrow> micro.more x = micro.more s \<and> mu_time x = mu_time s"

lemma handleBranch_plain:
  assumes "handleBranch E eq ee s = Some (own, alts)" "getMachineInstrByAddr (pe_place E) (fst ee) = Some i" "\<not> isJumpTableBranch (pe_machine E) i"
  obtains (cond) t where "jump_to E ee s t = Some own" "alts = [assume_branch ee bo_nottaken s]"
  | (uncond) t where "handlePCUpdate E ee t s = Some own" "alts = []"
proof (cases "\<exists>t. getBranchTargetOperand (pe_machine E) i = Some (OpMBB t)")
  case True
  then obtain t where t: "getBranchTargetOperand (pe_machine E) i = Some (OpMBB t)" by blast
  show ?thesis using assms t cond [of t] uncond [of t] by (auto simp: handleBranch_def Let_def split: if_splits)
next
  case False
  then show ?thesis using assms by (auto simp: handleBranch_def Let_def split: if_splits option.splits operand.splits)
qed

lemma handleBranch_pipeline:
  assumes "handleBranch E eq ee s = Some (own, alts)" "x \<in> set (own # alts)"
  shows "micro.more x = micro.more s \<and> mu_time x = mu_time s"
    and "getMachineInstrByAddr (pe_place E) (fst ee) = Some i \<Longrightarrow> \<not> isJumpTableBranch (pe_machine E) i \<Longrightarrow> x \<in> set alts \<Longrightarrow> mu_pc x = mu_pc s"
proof -
  obtain k where i: "getMachineInstrByAddr (pe_place E) (fst ee) = Some k"
    using assms(1) by (cases "getMachineInstrByAddr (pe_place E) (fst ee)") (auto simp: handleBranch_def)
  have j: "micro.more y = micro.more s \<and> mu_time y = mu_time s" if "jump_to E ee s b = Some y" for b y
    using jump_to_branches [OF that] by blast
  show "micro.more x = micro.more s \<and> mu_time x = mu_time s"
  proof (cases "isJumpTableBranch (pe_machine E) k")
    case True
    then obtain b bs xs where t: "jump_to E ee s b = Some own" "those (List.map (jump_to E ee s) bs) = Some xs" "alts = fold (insert_state eq) xs []"
      using assms(1) i by (auto simp: handleBranch_def Let_def split: option.splits list.splits if_splits)
    have "x = own \<or> x \<in> set xs" using assms(2) t(3) insert_states_subset [of eq xs "[]"] by auto
    then show ?thesis
    proof
      assume "x \<in> set xs"
      from those_member [OF t(2) this] show ?thesis using j by auto
    qed (use j [OF t(1)] in simp)
  next
    case False
    show ?thesis
    proof (cases rule: handleBranch_plain [OF assms(1) i False])
      case (1 t)
      then show ?thesis using assms(2) j [OF 1(1)] by (auto simp: assume_branch_def)
    next
      case (2 t)
      then show ?thesis using assms(2) pc_update_keeps [OF 2(1)] by auto
    qed
  qed
  show "mu_pc x = mu_pc s" if h: "getMachineInstrByAddr (pe_place E) (fst ee) = Some i" "\<not> isJumpTableBranch (pe_machine E) i" "x \<in> set alts"
    using h(3) by (cases rule: handleBranch_plain [OF assms(1) h(1,2)]) (auto simp: assume_branch_def)
qed

lemma handleCall_pipeline:
  assumes "handleCall E ee s = Some x"
  shows "micro.more x = micro.more s \<and> mu_time x = mu_time s"
  using assms by (auto simp: handleCall_def Let_def bind_eq_Some_conv split: option.splits bool.splits if_splits prod.splits)

lemma return_to_pipeline: "micro.more (return_to ee s loc) = micro.more s \<and> mu_time (return_to ee s loc) = mu_time s"
  by (cases loc) (simp add: return_to_def assume_branch_def)

lemma handleReturn_pipeline:
  assumes "handleReturn E eq ins2ctx ee s = Some (own, alts)" "x \<in> set (own # alts)"
  shows "micro.more x = micro.more s \<and> mu_time x = mu_time s"
proof -
  obtain i where i: "getMachineInstrByAddr (pe_place E) (fst ee) = Some i"
    using assms(1) by (cases "getMachineInstrByAddr (pe_place E) (fst ee)") (auto simp: handleReturn_def)
  from assms(1) i have "x = assume_branch ee bo_nottaken s \<or> x \<in> return_to ee s ` UNIV"
  proof (rule handleReturn_successors)
    fix rc loc locs
    assume l: "(own, alts) = (if \<not> isPredicated (pe_machine E) i then (return_to ee s loc, fold (insert_state eq) (List.map (return_to ee s) locs) [])
         else (assume_branch ee bo_nottaken s, fold (insert_state eq) (List.map (return_to ee s) (loc # locs)) []))"
    show ?thesis using assms(2) l insert_states_subset [of eq "List.map (return_to ee s) locs" "[]"]
        insert_states_subset [of eq "List.map (return_to ee s) (loc # locs)" "[]"]
      by (cases "isPredicated (pe_machine E) i") auto
  qed
  then show ?thesis
  proof
    assume "x \<in> return_to ee s ` UNIV"
    then obtain loc where x: "x = return_to ee s loc" by blast
    show ?thesis unfolding x by (rule return_to_pipeline)
  qed (simp add: assume_branch_def)
qed

lemma handleBranching_pipeline:
  assumes "handleBranching E eq ins2ctx ee s = Some (own, alts)" "x \<in> set (own # alts)"
  shows "micro.more x = micro.more s \<and> mu_time x = mu_time s"
    and "getMachineInstrByAddr (pe_place E) (fst ee) = Some i \<Longrightarrow> \<not> isJumpTableBranch (pe_machine E) i \<Longrightarrow>
      \<not> id_return (m_desc (pe_machine E) i) \<Longrightarrow> x \<in> set alts \<Longrightarrow> mu_pc x = mu_pc s"
proof -
  obtain j where j: "getMachineInstrByAddr (pe_place E) (fst ee) = Some j"
    using assms(1) by (cases "getMachineInstrByAddr (pe_place E) (fst ee)") (auto simp: handleBranching_def)
  consider "id_branch (m_desc (pe_machine E) j)" "handleBranch E eq ee s = Some (own, alts)"
    | "handleCall E ee s = Some own" "alts = []"
    | "id_return (m_desc (pe_machine E) j)" "handleReturn E eq ins2ctx ee s = Some (own, alts)"
    using assms(1) j by (auto simp: handleBranching_def Let_def split: if_splits)
  note c = this
  show "micro.more x = micro.more s \<and> mu_time x = mu_time s"
    using c
  proof cases
    case 1
    show ?thesis by (rule handleBranch_pipeline(1) [OF 1(2) assms(2)])
  next
    case 2
    then show ?thesis using handleCall_pipeline [OF 2(1)] assms(2) by simp
  next
    case 3
    show ?thesis by (rule handleReturn_pipeline [OF 3(2) assms(2)])
  qed
  show "mu_pc x = mu_pc s" if h: "getMachineInstrByAddr (pe_place E) (fst ee) = Some i" "\<not> isJumpTableBranch (pe_machine E) i"
      "\<not> id_return (m_desc (pe_machine E) i)" "x \<in> set alts"
    using c
  proof cases
    case 1
    show ?thesis by (rule handleBranch_pipeline(2) [OF 1(2) assms(2) h(1,2,4)])
  qed (use h j in simp_all)
qed

section \<open>What the stages change\<close>

text \<open>Time, and program counter unless the fetch stage is flushed.\<close>

definition frame :: "'t in_order \<Rightarrow> 't in_order \<Rightarrow> bool" where
  "frame s x \<longleftrightarrow> mu_time x = mu_time s \<and> (io_flushed x \<or> \<not> io_flushed s \<and> mu_pc x = mu_pc s)"

lemma frame_refl: "mu_time x = mu_time s \<Longrightarrow> io_flushed x = io_flushed s \<Longrightarrow> mu_pc x = mu_pc s \<Longrightarrow> frame s x"
  by (auto simp: frame_def)

lemma frame_trans: "frame s x \<Longrightarrow> frame x y \<Longrightarrow> frame s y"
  by (auto simp: frame_def)

definition data_update :: "'t in_order \<Rightarrow> 't in_order \<Rightarrow> bool" where
  "data_update s x \<longleftrightarrow> (\<exists>m ids n. x = s\<lparr>io_memory := m, io_data_ids := ids, io_curr_access := n\<rparr>)"

lemma data_update_refl: "data_update s s"
  unfolding data_update_def by (intro exI [of _ "io_memory s"] exI [of _ "io_data_ids s"] exI [of _ "io_curr_access s"]) simp

lemma data_update_trans:
  assumes "data_update s x" "data_update x y"
  shows "data_update s y"
proof -
  obtain m ids n m' ids' n' where "x = s\<lparr>io_memory := m, io_data_ids := ids, io_curr_access := n\<rparr>"
      "y = x\<lparr>io_memory := m', io_data_ids := ids', io_curr_access := n'\<rparr>"
    using assms unfolding data_update_def by blast
  then have "y = s\<lparr>io_memory := m', io_data_ids := ids', io_curr_access := n'\<rparr>" by simp
  then show ?thesis unfolding data_update_def by blast
qed

lemma data_update_memory: "data_update s (s\<lparr>io_memory := m\<rparr>)" "data_update s (s\<lparr>io_memory := m, io_data_ids := ids\<rparr>)"
  unfolding data_update_def
  by (intro exI [of _ m] exI [of _ "io_data_ids s"] exI [of _ "io_curr_access s"], simp)
    (intro exI [of _ m] exI [of _ ids] exI [of _ "io_curr_access s"], simp)

lemma data_update_fields:
  assumes "data_update s x"
  shows "io_stages x = io_stages s" "mu_time x = mu_time s" "mu_pc x = mu_pc s" "io_flushed x = io_flushed s"
    "io_exec_times x = io_exec_times s" "io_stall_memory x = io_stall_memory s" "io_interlock x = io_interlock s"
    "io_id_ex x = io_id_ex s" "io_ex_mem x = io_ex_mem s" "io_mem_wb x = io_mem_wb s" "io_if_id x = io_if_id s" "io_wb_fin x = io_wb_fin s"
  using assms by (auto simp: data_update_def io_stages_def)

lemma access_data_update: "accessDataFromMemoryTopology C s = Some s' \<Longrightarrow> data_update s s'"
  by (erule access_data_cases) (auto simp: data_update_refl, auto simp: data_update_def)

lemma finish_one_update: "finish_one C x s = Some (b, s') \<Longrightarrow> data_update s s'"
proof (cases b)
  case True
  assume "finish_one C x s = Some (b, s')"
  with True obtain m where
    "accessDataFromMemoryTopology C (s\<lparr>io_memory := m, io_data_ids := filter (\<lambda>y. fst y \<noteq> fst x) (io_data_ids s)\<rparr>) = Some s'"
    using finish_one_true [of C x s s'] by auto
  from access_data_update [OF this] show ?thesis by (rule data_update_trans [OF data_update_memory(2)])
next
  case False
  assume "finish_one C x s = Some (b, s')"
  with False obtain m where "s' = s\<lparr>io_memory := m\<rparr>" using finish_one_false [of C x s s'] by auto
  then show ?thesis using data_update_memory(1) [of s m] by simp
qed

lemma finish_accesses_update: "finish_accesses C todo s = Some s' \<Longrightarrow> data_update s s'"
proof (induction C todo s rule: finish_accesses.induct)
  case (2 C x todo s)
  obtain b s1 where b: "finish_one C x s = Some (b, s1)" using "2.prems" by (auto split: option.splits)
  have "data_update s1 s'"
  proof (cases "b \<and> todo = []")
    case True
    then show ?thesis using 2 b data_update_refl by auto
  next
    case False
    then show ?thesis using 2 b by (cases b) auto
  qed
  then show ?case by (rule data_update_trans [OF finish_one_update [OF b]])
qed (simp add: data_update_refl)

lemma access_instr_update: "io_access_instr C s = Some x \<Longrightarrow> \<exists>m r. x = s\<lparr>io_memory := m, io_instr_id := r\<rparr>"
  by (auto simp: io_access_instr_def)

lemma leave_speculated_update: "leave_speculated C a st s = Some x \<Longrightarrow> \<exists>m. x = s\<lparr>io_memory := m\<rparr>"
  by (auto simp: leave_speculated_def leave_scopes_def split: option.splits)

lemma empty_pipeline_update:
  assumes "emptyPipelineDueToBranching C oldPc s = Some x"
  shows "\<exists>m. x = s\<lparr>io_memory := m, io_flushed := True, io_if_id := None\<rparr>"
proof (cases "ioc_needs_scopes C")
  case True
  obtain s1 where s1: "(if io_instr_id s \<noteq> None \<or> io_instr_finished s then leave_speculated C oldPc (io_stages s) s else Some s) = Some s1"
      "map_option (\<lambda>s. s\<lparr>io_flushed := True, io_if_id := None\<rparr>) (case io_if_id s1 of None \<Rightarrow> Some s1
         | Some e \<Rightarrow> leave_speculated C (fst e) (tl (io_stages s1)) s1) = Some x"
    using assms True unfolding emptyPipelineDueToBranching_def by (auto simp: bind_eq_Some_conv)
  obtain m where m: "s1 = s\<lparr>io_memory := m\<rparr>"
  proof (cases "io_instr_id s \<noteq> None \<or> io_instr_finished s")
    case True
    then show ?thesis using s1(1) leave_speculated_update [of C oldPc "io_stages s" s s1] that by auto
  next
    case False
    then show ?thesis using s1(1) that [of "io_memory s"] by auto
  qed
  show ?thesis
  proof (cases "io_if_id s1")
    case None
    then show ?thesis using s1(2) m by auto
  next
    case (Some e)
    then obtain y where y: "leave_speculated C (fst e) (tl (io_stages s1)) s1 = Some y" "x = y\<lparr>io_flushed := True, io_if_id := None\<rparr>"
      using s1(2) by auto
    then show ?thesis using leave_speculated_update [OF y(1)] m by auto
  qed
next
  case False
  then show ?thesis using assms by (auto simp: emptyPipelineDueToBranching_def intro: exI [of _ "io_memory s"])
qed

text \<open>A branch either changes nothing of the pipeline, or flushes the fetch stage.\<close>

definition branch_result :: "bool \<Rightarrow> 't in_order \<Rightarrow> 't in_order \<Rightarrow> bool" where
  "branch_result inMemory s x \<longleftrightarrow>
     mu_time x = mu_time s \<and> tl (io_stages x) = tl (io_stages s) \<and> io_exec_times x = io_exec_times s \<and>
     io_curr_access x = io_curr_access s \<and> io_data_ids x = io_data_ids s \<and>
     (io_if_id x = io_if_id s \<and> io_flushed x = io_flushed s \<and> mu_pc x = mu_pc s \<or>
      io_if_id x = None \<and> io_flushed x \<and> (inMemory \<longrightarrow> io_id_ex x = None))"

lemma branch_result_same:
  assumes "micro.more a = micro.more s \<and> mu_time a = mu_time s" "mu_pc a = mu_pc s" "x = a\<lparr>io_memory := m, io_instr_id := r\<rparr> \<or> x = a"
  shows "branch_result b s x"
proof -
  have "io_if_id a = io_if_id s" using assms(1) by (cases a; cases s) auto
  then show ?thesis using same_more [of a s] assms by (auto simp: branch_result_def io_stages_def)
qed

lemma branch_result_flush:
  assumes "micro.more a = micro.more s \<and> mu_time a = mu_time s" "emptyPipelineDueToBranching C oldPc a = Some x" "inMemory \<longrightarrow> io_id_ex a = None"
  shows "branch_result inMemory s x"
proof -
  obtain m where "x = a\<lparr>io_memory := m, io_flushed := True, io_if_id := None\<rparr>" using empty_pipeline_update [OF assms(2)] by blast
  then show ?thesis using same_more [of a s] assms(1,3) by (auto simp: branch_result_def io_stages_def)
qed

lemma checkForBranches_result:
  assumes "checkForBranches C ins2ctx inMemory s = Some (own, alts)" "x \<in> set (own # alts)"
  shows "branch_result inMemory s x"
proof -
  let ?E = "ioc_prog C"
  obtain ee where ee: "(if inMemory then io_ex_mem s else io_id_ex s) = Some ee"
    using assms(1) by (cases "if inMemory then io_ex_mem s else io_id_ex s") (auto simp: checkForBranches_def)
  have triv: "branch_result inMemory s x" if "own = s \<and> alts = []"
    by (rule branch_result_same [of s]) (use that assms(2) in auto)
  show ?thesis
  proof (cases "instr_at C ee")
    case None
    then show ?thesis using assms(1) ee triv by (simp add: checkForBranches_def)
  next
    case i: (Some i)
    let ?d = "desc_of C i" and ?pc = "fst (mu_pc s)"
    have "own = s \<and> alts = [] \<or> branch_and_flush C ins2ctx inMemory i ee s = Some (own, alts)"
      using assms(1) ee i unfolding checkForBranches_def by (auto simp: Let_def split: if_splits)
    then consider "own = s \<and> alts = []" | own1 alts1 as where
        "handleBranching ?E (io_equals C) ins2ctx ee s = Some (own1, alts1)" "\<not> (inMemory \<and> io_id_ex own1 \<noteq> None)"
        "emptyPipelineDueToBranching C ?pc own1 = Some own"
        "branch_alternatives C inMemory i ?pc alts1 = Some as" "alts = fold (insert_state (io_equals C)) as []"
      unfolding branch_and_flush_def by (auto simp: bind_eq_Some_conv split: if_splits)
    then show ?thesis
    proof cases
      case 1
      then show ?thesis by (rule triv)
    next
      case 2
      note hb = handleBranching_pipeline [OF 2(1)]
      have own: "branch_result inMemory s own"
        by (rule branch_result_flush [OF hb(1) 2(3)]) (simp, use 2(2) in blast)
      have "branch_result inMemory s y" if y: "y \<in> set as" for y
      proof (cases "id_return ?d \<or> isJumpTableBranch (pe_machine ?E) i")
        case True
        then obtain a where a: "a \<in> set alts1" "flush_alternative C inMemory ?pc a = Some y"
          using those_member [of "flush_alternative C inMemory ?pc" alts1 as y] 2(4) y by (auto simp: branch_alternatives_def)
        have "\<not> (inMemory \<and> io_id_ex a \<noteq> None) \<and> emptyPipelineDueToBranching C ?pc a = Some y"
          using a(2) by (simp add: flush_alternative_def del: not_None_eq split: if_splits)
        then have "emptyPipelineDueToBranching C ?pc a = Some y" "inMemory \<longrightarrow> io_id_ex a = None" by blast+
        moreover have "micro.more a = micro.more s \<and> mu_time a = mu_time s" by (rule hb(1)) (use a(1) in simp)
        ultimately show ?thesis by (intro branch_result_flush [where a = a])
      next
        case False
        then have pc: "mu_pc a = mu_pc s" if "a \<in> set alts1" for a
          using hb(2) [of a i] i that by (auto simp: instr_at_def desc_of_def)
        show ?thesis
        proof (cases "ioc_strict_inorder C")
          case True
          then obtain a where a: "a \<in> set alts1" "io_access_instr C a = Some y"
            using those_member [of "io_access_instr C" alts1 as y] 2(4) y False by (auto simp: branch_alternatives_def)
          obtain m r where "y = a\<lparr>io_memory := m, io_instr_id := r\<rparr>" using access_instr_update [OF a(2)] by blast
          then show ?thesis by (intro branch_result_same [OF hb(1) pc [OF a(1)]]) (use a(1) in auto)
        next
          case nostrict: False
          then have "y \<in> set alts1" using 2(4) y False by (auto simp: branch_alternatives_def)
          then show ?thesis by (intro branch_result_same [OF hb(1) pc]) auto
        qed
      qed
      then show ?thesis using own assms(2) 2(5) insert_states_subset [of "io_equals C" as "[]"] by auto
    qed
  qed
qed

text \<open>The instructions that may flush the fetch stage: branches, calls and returns, those that load in the memory stage.\<close>

definition redirects :: "('t, 'l) io_config \<Rightarrow> bool \<Rightarrow> exec_elem \<Rightarrow> bool" where
  "redirects C inMemory e \<longleftrightarrow>
     (case instr_at C e of None \<Rightarrow> False
      | Some i \<Rightarrow> (id_branch (desc_of C i) \<or> id_call (desc_of C i) \<or> id_return (desc_of C i)) \<and> id_may_load (desc_of C i) = inMemory)"

lemma checkForBranches_plain:
  assumes "checkForBranches C ins2ctx inMemory s = Some (own, alts)" "(if inMemory then io_ex_mem s else io_id_ex s) = Some e"
    and "\<not> redirects C inMemory e"
  shows "own = s \<and> alts = []"
  using assms by (auto simp: checkForBranches_def redirects_def Let_def split: option.splits if_splits)

section \<open>The stages move instructions on\<close>

text \<open>Only addresses of the program have instructions; the others run out of the pipeline.\<close>

definition in_program :: "('t, 'l) io_config \<Rightarrow> exec_elem \<Rightarrow> bool" where
  "in_program C e \<longleftrightarrow> instr_at C e \<noteq> None"

lemma write_back_move:
  "io_wb_fin s = None \<Longrightarrow> stage_move kn j pc WriteBack (io_stages s) (io_stages (processWriteBackStage C s)) \<and> frame s (processWriteBackStage C s)"
proof -
  assume w: "io_wb_fin s = None"
  have f: "frame s (processWriteBackStage C s)"
    by (auto simp: frame_def processWriteBackStage_def leave_scopes_def Let_def split: option.splits)
  have "io_stages (processWriteBackStage C s) = [io_if_id s, io_id_ex s, io_ex_mem s, None, io_mem_wb s]"
    using w by (auto simp: io_stages_def processWriteBackStage_def leave_scopes_def Let_def split: option.splits)
  then show ?thesis using f w write_back [of kn j pc "io_if_id s" "io_id_ex s" "io_ex_mem s" "io_mem_wb s"] by (simp add: io_stages_def)
qed

lemma complete_access_update:
  assumes "complete_access_stage C i s = Some s'"
  shows "\<exists>x b. data_update (s\<lparr>io_stall_memory := b\<rparr>) x \<and> s' = x\<lparr>io_stall_memory := io_stall_memory s'\<rparr>"
proof (cases "touches_memory C i")
  case True
  then obtain x where x: "finish_accesses C (io_data_ids s) (s\<lparr>io_stall_memory := True\<rparr>) = Some x"
      "s' = x\<lparr>io_stall_memory := \<not> (io_curr_access x \<ge> ioc_num_accesses C i \<and> io_data_ids x = [])\<rparr>"
    using assms by (auto simp: complete_access_stage_def)
  show ?thesis using finish_accesses_update [OF x(1)] x(2) by (intro exI [of _ x] exI [of _ True]) simp
next
  case False
  then have "s' = s" using assms by (simp add: complete_access_stage_def)
  then show ?thesis using data_update_refl [of s] by (intro exI [of _ s] exI [of _ "io_stall_memory s"]) simp
qed

lemma complete_access_fields:
  assumes "complete_access_stage C i s = Some s'"
  shows "io_stages s' = io_stages s" "frame s s'" "io_exec_times s' = io_exec_times s" "io_ex_mem s' = io_ex_mem s"
    "io_if_id s' = io_if_id s" "io_id_ex s' = io_id_ex s" "io_mem_wb s' = io_mem_wb s" "io_wb_fin s' = io_wb_fin s"
proof -
  obtain x b where x: "data_update (s\<lparr>io_stall_memory := b\<rparr>) x" "s' = x\<lparr>io_stall_memory := io_stall_memory s'\<rparr>"
    using complete_access_update [OF assms] by blast
  obtain m ids n where "x = s\<lparr>io_stall_memory := b, io_memory := m, io_data_ids := ids, io_curr_access := n\<rparr>"
    using x(1) by (auto simp: data_update_def)
  moreover obtain b' where "s' = x\<lparr>io_stall_memory := b'\<rparr>" using x(2) by blast
  ultimately have "s' = s\<lparr>io_stall_memory := b', io_memory := m, io_data_ids := ids, io_curr_access := n\<rparr>" by simp
  then show "io_stages s' = io_stages s" "frame s s'" "io_exec_times s' = io_exec_times s" "io_ex_mem s' = io_ex_mem s"
    "io_if_id s' = io_if_id s" "io_id_ex s' = io_id_ex s" "io_mem_wb s' = io_mem_wb s" "io_wb_fin s' = io_wb_fin s"
    by (simp_all add: io_stages_def frame_def)
qed

lemma memory_move:
  assumes "processMemoryStage C ins2ctx s = Some xs" "x \<in> set xs"
  shows "stage_move kn (redirects C) pc Memory (io_stages s) (io_stages x) \<and> frame s x"
proof (cases "io_ex_mem s")
  case None
  then have "x = s" using assms by (auto simp: processMemoryStage_def)
  then show ?thesis using stay [of Memory kn "redirects C" pc] by (simp add: frame_def)
next
  case (Some e)
  obtain i where i: "instr_at C e = Some i" using assms(1) Some by (auto simp: processMemoryStage_def split: option.splits)
  obtain s1 where s1: "complete_access_stage C i s = Some s1" using assms(1) Some i by (auto simp: processMemoryStage_def bind_eq_Some_conv)
  note f = complete_access_fields [OF s1]
  show ?thesis
  proof (cases "io_stall_memory s1 \<or> io_mem_wb s1 \<noteq> None")
    case True
    then have "x = s1" using assms Some i s1 by (auto simp: processMemoryStage_def)
    then show ?thesis using f(1,2) stay [of Memory kn "redirects C" pc "io_stages s"] by simp
  next
    case False
    then obtain hz own alts where b: "checkForBranches C ins2ctx True (s1\<lparr>io_interlock := hz, io_mem_wb := io_ex_mem s1\<rparr>) = Some (own, alts)"
        "xs = List.map (\<lambda>x. x\<lparr>io_ex_mem := None\<rparr>) (alts @ [own])"
      using assms(1) Some i s1 by (auto simp: processMemoryStage_def bind_eq_Some_conv)
    let ?t = "s1\<lparr>io_interlock := hz, io_mem_wb := io_ex_mem s1\<rparr>"
    obtain y where y: "y \<in> set (own # alts)" "x = y\<lparr>io_ex_mem := None\<rparr>" using b(2) assms(2) by auto
    note r = checkForBranches_result [OF b(1) y(1), unfolded branch_result_def]
    have m: "io_mem_wb s = None" using False unfolding f(7) by blast
    have tl: "io_id_ex y = io_id_ex s" "io_mem_wb y = io_ex_mem s" "io_wb_fin y = io_wb_fin s"
      using r f by (auto simp: io_stages_def)
    have st: "io_stages x = [io_if_id y, io_id_ex s, None, io_ex_mem s, io_wb_fin s]" using y(2) tl by (simp add: io_stages_def)
    have s: "io_stages s = [io_if_id s, io_id_ex s, io_ex_mem s, None, io_wb_fin s]" using m by (simp add: io_stages_def)
    have fr: "frame s x" using r f(2) y(2) by (auto simp: frame_def)
    show ?thesis
    proof (cases "io_if_id y = io_if_id s")
      case True
      then show ?thesis using fr unfolding st s by (simp add: stage_move.memory)
    next
      case False
      then have fl: "io_if_id y = None \<and> io_id_ex s = None" using r f(5) tl(1) by auto
      have "redirects C True e"
      proof (rule ccontr)
        assume "\<not> redirects C True e"
        then have "y = ?t" using checkForBranches_plain [OF b(1), of e] y(1) f(4) Some by auto
        then show False using False f(5) by simp
      qed
      then show ?thesis using fr fl unfolding st s Some by (simp add: stage_move.memory_flush)
    qed
  qed
qed

lemma finish_execution_move:
  assumes "finish_execution C ins2ctx e s = Some xs" "x \<in> set xs" "io_id_ex s = Some e"
  shows "stage_move (in_program C) (redirects C) pc Execute (io_stages s) (io_stages x) \<and> frame s x"
proof (cases "instr_at C e")
  case None
  then have "x = s\<lparr>io_id_ex := None, io_exec_times := []\<rparr>" using assms(1,2) by (auto simp: finish_execution_def split: if_splits)
  then show ?thesis
    using None assms(3) execute_drop [of "in_program C" e "redirects C" pc "io_if_id s" "io_ex_mem s" "io_mem_wb s" "io_wb_fin s"]
    by (simp add: io_stages_def in_program_def frame_def)
next
  case (Some i)
  show ?thesis
  proof (cases "io_ex_mem s")
    case e: None
    let ?t = "s\<lparr>io_ex_mem := io_id_ex s, io_data_ids := [], io_curr_access := 0\<rparr>"
    obtain s1 own alts where b: "accessDataFromMemoryTopology C ?t = Some s1" "checkForBranches C ins2ctx False s1 = Some (own, alts)"
        "xs = List.map (\<lambda>x. x\<lparr>io_id_ex := None, io_exec_times := []\<rparr>) (alts @ [own])"
      using assms(1) Some e by (auto simp: finish_execution_def bind_eq_Some_conv)
    obtain y where y: "y \<in> set (own # alts)" "x = y\<lparr>io_id_ex := None, io_exec_times := []\<rparr>" using b(3) assms(2) by auto
    note r = checkForBranches_result [OF b(2) y(1), unfolded branch_result_def]
    note f = data_update_fields [OF access_data_update [OF b(1)]]
    have tl: "io_ex_mem y = Some e" "io_mem_wb y = io_mem_wb s" "io_wb_fin y = io_wb_fin s"
      using r f assms(3) by (auto simp: io_stages_def)
    have st: "io_stages x = [io_if_id y, None, Some e, io_mem_wb s, io_wb_fin s]" using y(2) tl by (simp add: io_stages_def)
    have s: "io_stages s = [io_if_id s, Some e, None, io_mem_wb s, io_wb_fin s]" using e assms(3) by (simp add: io_stages_def)
    have fr: "frame s x" using r f y(2) by (auto simp: frame_def)
    have k: "in_program C e" using Some by (simp add: in_program_def)
    show ?thesis
    proof (cases "io_if_id y = io_if_id s")
      case True
      then show ?thesis using fr k unfolding st s by (simp add: stage_move.execute)
    next
      case False
      then have fl: "io_if_id y = None" using r f by auto
      have "redirects C False e"
      proof (rule ccontr)
        assume "\<not> redirects C False e"
        then have "y = s1" using checkForBranches_plain [OF b(2), of e] y(1) f(8) assms(3) by auto
        then show False using False f(11) by simp
      qed
      then show ?thesis using fr k fl unfolding st s by (simp add: stage_move.execute_flush)
    qed
  next
    case (Some m)
    then have "x = s\<lparr>io_exec_times := [0]\<rparr>" using assms(1,2) \<open>instr_at C e = Some i\<close> by (auto simp: finish_execution_def)
    then show ?thesis using stay [of Execute "in_program C" "redirects C" pc "io_stages s"] by (simp add: io_stages_def frame_def)
  qed
qed

lemma execute_move:
  assumes "processExecuteStage C ins2ctx s = Some xs" "x \<in> set xs"
  shows "stage_move (in_program C) (redirects C) pc Execute (io_stages s) (io_stages x) \<and> frame s x"
proof -
  have same: ?thesis if "x = s \<or> (\<exists>ts. x = s\<lparr>io_exec_times := ts\<rparr>)"
  proof -
    have "io_stages x = io_stages s" "frame s x" using that by (auto simp: io_stages_def frame_def)
    then show ?thesis using stay [of Execute "in_program C" "redirects C" pc "io_stages s"] by simp
  qed
  show ?thesis
  proof (cases "io_id_ex s")
    case None
    then show ?thesis using assms same by (auto simp: processExecuteStage_def split: if_splits)
  next
    case (Some e)
    show ?thesis
    proof (cases "\<exists>ys. finish_execution C ins2ctx e s = Some ys \<and> x \<in> set ys")
      case True
      then show ?thesis using finish_execution_move [of C ins2ctx e s] Some by blast
    next
      case False
      then have "x = s \<or> (\<exists>ts. x = s\<lparr>io_exec_times := ts\<rparr>)"
        using assms Some by (auto simp: processExecuteStage_def Let_def split: if_splits)
      then show ?thesis by (rule same)
    qed
  qed
qed

lemma decode_move:
  assumes "processInstructionDecodeStage C s = Some x"
  shows "stage_move (in_program C) (redirects C) pc Decode (io_stages s) (io_stages x) \<and> frame s x"
proof -
  have f: "frame s x" using assms by (auto simp: processInstructionDecodeStage_def frame_def split: option.splits if_splits)
  show ?thesis
  proof (cases "\<exists>e. io_if_id s = Some e \<and> io_id_ex s = None")
    case True
    then obtain e where e: "io_if_id s = Some e" "io_id_ex s = None" by blast
    have s: "io_stages s = [Some e, None, io_ex_mem s, io_mem_wb s, io_wb_fin s]" using e by (simp add: io_stages_def)
    show ?thesis
    proof (cases "instr_at C e")
      case None
      then have "io_stages x = [None, None, io_ex_mem s, io_mem_wb s, io_wb_fin s]"
        using assms e by (auto simp: processInstructionDecodeStage_def io_stages_def)
      then show ?thesis using f None unfolding s by (simp add: stage_move.decode_drop in_program_def)
    next
      case (Some i)
      then have "io_stages x = [None, Some e, io_ex_mem s, io_mem_wb s, io_wb_fin s]"
        using assms e by (auto simp: processInstructionDecodeStage_def io_stages_def)
      then show ?thesis using f Some unfolding s by (simp add: stage_move.decode in_program_def)
    qed
  next
    case False
    then have "x = s" using assms by (cases "io_if_id s") (auto simp: processInstructionDecodeStage_def)
    then show ?thesis using f stay [of Decode "in_program C" "redirects C" pc "io_stages s"] by simp
  qed
qed

lemma check_fetched_update:
  "io_stages (check_fetched C s) = io_stages s \<and> io_flushed (check_fetched C s) = io_flushed s \<and> mu_pc (check_fetched C s) = mu_pc s \<and>
     mu_time (check_fetched C s) = mu_time s \<and> io_exec_times (check_fetched C s) = io_exec_times s \<and> io_if_id (check_fetched C s) = io_if_id s \<and>
     io_data_ids (check_fetched C s) = io_data_ids s \<and> io_curr_access (check_fetched C s) = io_curr_access s"
  by (auto simp: check_fetched_def Let_def io_stages_def split: option.splits prod.splits)

lemma fetch_stage_cases:
  assumes "processInstructionFetchStage C s = Some x"
  obtains (keep) "io_stages x = io_stages s" "mu_time x = mu_time s" "io_exec_times x = io_exec_times s" "io_data_ids x = io_data_ids s"
      "io_curr_access x = io_curr_access s"
  | (fetched) "\<not> io_flushed s" "io_if_id s = None" "io_stages x = Some (mu_pc s) # tl (io_stages s)" "mu_time x = mu_time s"
      "io_exec_times x = io_exec_times s" "io_data_ids x = io_data_ids s" "io_curr_access x = io_curr_access s"
proof (cases "io_flushed s")
  case True
  let ?s = "s\<lparr>io_instr_finished := False, io_flushed := False\<rparr>"
  obtain y where y: "(if ioc_needs_scopes C then
        map_option (\<lambda>older. enter_scopes C (cross_edge C (fst older) (fst (mu_pc ?s))) ?s) (first_populated (io_stages ?s)) else Some ?s) = Some y"
      "io_access_instr C y = Some x"
    using assms True unfolding processInstructionFetchStage_def Let_def by (auto simp: bind_eq_Some_conv)
  obtain m where m: "y = ?s\<lparr>io_memory := m\<rparr>"
  proof (cases "ioc_needs_scopes C")
    case True
    then show ?thesis using y(1) that by (auto simp: enter_scopes_def)
  next
    case False
    then show ?thesis using y(1) that [of "io_memory s"] by auto
  qed
  obtain m' r where x: "x = y\<lparr>io_memory := m', io_instr_id := r\<rparr>" using access_instr_update [OF y(2)] by blast
  show ?thesis by (rule keep) (simp_all add: x m io_stages_def)
next
  case False
  let ?s = "check_fetched C s"
  note c = check_fetched_update [of C s]
  show ?thesis
  proof (cases "io_if_id ?s = None \<and> io_instr_finished ?s")
    case True
    obtain nextpc where n: "fetchNextInstruction (ioc_prog C) (mu_pc ?s) = Some nextpc"
      using assms False True by (auto simp: processInstructionFetchStage_def Let_def bind_eq_Some_conv)
    let ?t = "?s\<lparr>mu_pc := nextpc, io_if_id := Some (mu_pc ?s), io_instr_finished := False\<rparr>"
    define y where "y = (if ioc_needs_scopes C then enter_scopes C (cross_edge C (fst (mu_pc ?s)) (fst nextpc)) ?t else ?t)"
    have y: "\<exists>m. y = ?t\<lparr>io_memory := m\<rparr>"
    proof (cases "ioc_needs_scopes C")
      case False
      then show ?thesis by (intro exI [of _ "io_memory ?t"]) (simp add: y_def)
    qed (auto simp: y_def enter_scopes_def)
    have "x = y \<or> io_access_instr C y = Some x"
      using assms False True n by (auto simp: processInstructionFetchStage_def Let_def y_def split: if_splits)
    then obtain m r where "x = ?t\<lparr>io_memory := m, io_instr_id := r\<rparr>"
    proof
      assume "x = y"
      moreover obtain m where "y = ?t\<lparr>io_memory := m\<rparr>" using y by blast
      ultimately show ?thesis using that [where m = m and r = "io_instr_id ?t"] by simp
    next
      assume "io_access_instr C y = Some x"
      then obtain m r where "x = y\<lparr>io_memory := m, io_instr_id := r\<rparr>" using access_instr_update by blast
      moreover obtain m' where "y = ?t\<lparr>io_memory := m'\<rparr>" using y by blast
      ultimately show ?thesis using that [where m = m and r = r] by simp
    qed
    then show ?thesis using fetched False c True by (simp add: io_stages_def)
  next
    case no: False
    then have "x = ?s" using assms False by (auto simp: processInstructionFetchStage_def Let_def)
    then show ?thesis using keep c by simp
  qed
qed

lemma fetch_move:
  assumes "processInstructionFetchStage C s = Some x" "frame s0 s"
  shows "stage_move kn j (mu_pc s0) Fetch (io_stages s) (io_stages x) \<and> mu_time x = mu_time s0"
proof (cases rule: fetch_stage_cases [OF assms(1)])
  case 1
  then show ?thesis using assms(2) stay [of Fetch kn j] by (simp add: frame_def)
next
  case 2
  then have "mu_pc s = mu_pc s0" using assms(2) by (simp add: frame_def)
  then show ?thesis using 2 assms(2) stage_move.fetch [of kn j "mu_pc s0" "io_id_ex s" "io_ex_mem s" "io_mem_wb s" "io_wb_fin s"]
    by (simp add: io_stages_def frame_def)
qed

section \<open>A cycle\<close>

lemma all_cases_reached: "all_cases f xs = Some ys \<Longrightarrow> y \<in> set ys \<Longrightarrow> \<exists>x \<in> set xs. \<exists>zs. f x = Some zs \<and> y \<in> set zs"
  using all_cases_Some [of f xs ys] by fastforce

lemma process_stages_moves:
  assumes "process_stages C ins2ctx s = Some ys" "y \<in> set ys" "io_wb_fin s = None"
  shows "stage_moves (in_program C) (redirects C) (mu_pc s) [WriteBack, Memory, Execute, Decode, Fetch] (io_stages s) (io_stages y) \<and> mu_time y = mu_time s"
proof -
  let ?kn = "in_program C" and ?j = "redirects C" and ?pc = "mu_pc s"
  obtain ms where ms: "processMemoryStage C ins2ctx (processWriteBackStage C s) = Some ms"
      "all_cases (\<lambda>m. Option.bind (processExecuteStage C ins2ctx m) (\<lambda>xs.
         those (List.map (\<lambda>x. Option.bind (processInstructionDecodeStage C x) (processInstructionFetchStage C)) xs))) ms = Some ys"
    using assms(1) by (auto simp: process_stages_def bind_eq_Some_conv)
  obtain m zs where m: "m \<in> set ms" "Option.bind (processExecuteStage C ins2ctx m) (\<lambda>xs.
         those (List.map (\<lambda>x. Option.bind (processInstructionDecodeStage C x) (processInstructionFetchStage C)) xs)) = Some zs" "y \<in> set zs"
    using all_cases_reached [OF ms(2) assms(2)] by blast
  obtain xs where xs: "processExecuteStage C ins2ctx m = Some xs"
      "those (List.map (\<lambda>x. Option.bind (processInstructionDecodeStage C x) (processInstructionFetchStage C)) xs) = Some zs"
    using m(2) by (auto simp: bind_eq_Some_conv)
  obtain x d where x: "x \<in> set xs" "processInstructionDecodeStage C x = Some d" "processInstructionFetchStage C d = Some y"
    using those_member [OF xs(2) m(3)] by (auto simp: bind_eq_Some_conv)
  have w: "stage_move ?kn ?j ?pc WriteBack (io_stages s) (io_stages (processWriteBackStage C s))" "frame s (processWriteBackStage C s)"
    using write_back_move [OF assms(3)] by blast+
  have mm: "stage_move ?kn ?j ?pc Memory (io_stages (processWriteBackStage C s)) (io_stages m)" "frame (processWriteBackStage C s) m"
    using memory_move [OF ms(1) m(1)] by blast+
  have e: "stage_move ?kn ?j ?pc Execute (io_stages m) (io_stages x)" "frame m x" using execute_move [OF xs(1) x(1)] by blast+
  have d: "stage_move ?kn ?j ?pc Decode (io_stages x) (io_stages d)" "frame x d" using decode_move [OF x(2)] by blast+
  have "frame s d" by (rule frame_trans [OF frame_trans [OF frame_trans [OF w(2) mm(2)] e(2)] d(2)])
  then have f: "stage_move ?kn ?j ?pc Fetch (io_stages d) (io_stages y)" "mu_time y = mu_time s" using fetch_move [OF x(3)] by blast+
  then show ?thesis using w(1) mm(1) e(1) d(1) by auto
qed

definition memory_update :: "'t in_order \<Rightarrow> 't in_order \<Rightarrow> bool" where
  "memory_update s x \<longleftrightarrow> (\<exists>m. x = s\<lparr>io_memory := m\<rparr>)"

lemma memory_update_refl: "memory_update s s"
  unfolding memory_update_def by (intro exI [of _ "io_memory s"]) simp

lemma memory_update_fields:
  assumes "memory_update s x"
  shows "io_stages x = io_stages s" "mu_time x = mu_time s" "mu_pc x = mu_pc s" "io_wb_fin x = io_wb_fin s" "io_flushed x = io_flushed s"
    "io_exec_times x = io_exec_times s" "io_if_id x = io_if_id s" "io_id_ex x = io_id_ex s"
  using assms by (auto simp: memory_update_def io_stages_def)

lemma cycle_topology_update: "cycleMemoryTopology C s = Some xs \<Longrightarrow> x \<in> set xs \<Longrightarrow> memory_update s x"
proof -
  assume h: "cycleMemoryTopology C s = Some xs" "x \<in> set xs"
  obtain pending s1 ms where p: "data_miss_pending C s = Some (pending, s1)" "xs = List.map (\<lambda>m. s1\<lparr>io_memory := m\<rparr>) ms"
    using h(1) by (auto simp: cycleMemoryTopology_def bind_eq_Some_conv)
  have "\<exists>m. s1 = s\<lparr>io_memory := m\<rparr>"
  proof -
    have "s1 = s \<or> (\<exists>m. s1 = s\<lparr>io_memory := m\<rparr>)"
      using p(1) by (auto simp: data_miss_pending_def Let_def bind_eq_Some_conv split: if_splits prod.splits)
    then show ?thesis using memory_update_refl [of s] by (auto simp: memory_update_def)
  qed
  then show ?thesis using h(2) p(2) by (auto simp: memory_update_def)
qed

lemma fast_forward_updates:
  assumes "fold_option (fastForwardAndInsert C s) ys ([], PotentiallyNotConverged) = Some (zs, c)" "z \<in> set zs"
  shows "\<exists>y \<in> set ys. memory_update y z"
proof -
  let ?P = "\<lambda>acc. \<forall>z \<in> set (fst acc). \<exists>y \<in> set ys. memory_update y z"
  have "?P (zs, c)"
  proof (rule fold_option_invariant [OF assms(1)])
    fix y acc acc'
    assume y: "y \<in> set ys" and step: "fastForwardAndInsert C s y acc = Some acc'" and P: "?P acc"
    obtain succs soFar where a: "acc = (succs, soFar)" by (cases acc)
    obtain cv where cv: "isConvergedAfterCycleFrom C y s = Some cv" using step a by (auto simp: fastForwardAndInsert_def bind_eq_Some_conv)
    have "set (fst acc') \<subseteq> set succs \<union> {z. memory_update y z}"
    proof (cases "cv = PotentiallyNotConverged")
      case True
      then have "fst acc' = insert_state (io_equals C) y succs" using step a cv by (auto simp: fastForwardAndInsert_def)
      then show ?thesis using memory_update_refl by (auto simp: insert_state_def)
    next
      case False
      then obtain ms where "fst acc' = fold (insert_state (io_equals C)) (List.map (\<lambda>m. y\<lparr>io_memory := m\<rparr>) ms) succs"
        using step a cv by (auto simp: fastForwardAndInsert_def Let_def split: if_splits)
      then show ?thesis
        using insert_states_subset [of "io_equals C" "List.map (\<lambda>m. y\<lparr>io_memory := m\<rparr>) ms" succs] by (auto simp: memory_update_def)
    qed
    then show "?P acc'" using P y a by auto
  qed simp
  then show ?thesis using assms(2) by simp
qed

lemma io_cycle_elim:
  assumes "io_cycle C ins2ctx s = Some res" "z \<in> set res"
  obtains x ys y where "memory_update (s\<lparr>io_stall_memory := False, io_interlock := False, mu_time := ic_inc (mu_time s)\<rparr>) x"
    "io_successors C ins2ctx x = Some ys" "y \<in> set ys" "memory_update y z"
proof -
  let ?s = "s\<lparr>io_stall_memory := False, io_interlock := False, mu_time := ic_inc (mu_time s)\<rparr>"
  obtain xs ys c where c: "cycleMemoryTopology C ?s = Some xs" "all_cases (io_successors C ins2ctx) xs = Some ys"
      "fold_option (fastForwardAndInsert C s) ys ([], PotentiallyNotConverged) = Some (res, c)"
    using assms(1) by (auto simp: io_cycle_def bind_eq_Some_conv)
  obtain y where y: "y \<in> set ys" "memory_update y z" using fast_forward_updates [OF c(3) assms(2)] by blast
  obtain x zs where x: "x \<in> set xs" "io_successors C ins2ctx x = Some zs" "y \<in> set zs" using all_cases_reached [OF c(2) y(1)] by blast
  show ?thesis by (rule that [OF cycle_topology_update [OF c(1) x(1)] x(2,3) y(2)])
qed

lemma io_cycle_refines:
  assumes "io_cycle C ins2ctx s = Some res" "s' \<in> set res"
  shows "io_wb_fin s = None \<and> pipe_cycle (in_program C) (redirects C) (mu_pc s) (io_stages s) (io_stages s') \<and> mu_time s' = ic_inc (mu_time s)"
proof -
  let ?s = "s\<lparr>io_stall_memory := False, io_interlock := False, mu_time := ic_inc (mu_time s)\<rparr>"
  obtain x ys y where h: "memory_update ?s x" "io_successors C ins2ctx x = Some ys" "y \<in> set ys" "memory_update y s'"
    by (rule io_cycle_elim [OF assms])
  have x: "io_stages x = io_stages s" "mu_pc x = mu_pc s" "mu_time x = ic_inc (mu_time s)" "io_wb_fin x = io_wb_fin s"
    using memory_update_fields [OF h(1)] by (simp_all add: io_stages_def)
  have w: "io_wb_fin x = None" using h(2) by (cases "io_wb_fin x") (simp_all add: io_successors_def)
  obtain stall where st: "mt_stall (ioc_topology C) (io_memory x) = Some stall"
    using h(2) w by (auto simp: io_successors_def bind_eq_Some_conv)
  have "pipe_cycle (in_program C) (redirects C) (mu_pc x) (io_stages x) (io_stages y) \<and> mu_time y = mu_time x"
  proof (cases stall)
    case True
    then have "y = x" using h(2,3) w st by (auto simp: io_successors_def)
    then show ?thesis by (simp add: pipe_cycle_def)
  next
    case False
    then have "process_stages C ins2ctx x = Some ys" using h(2) w st by (simp add: io_successors_def)
    from process_stages_moves [OF this h(3) w] show ?thesis unfolding pipe_cycle_def by blast
  qed
  then show ?thesis using x w memory_update_fields(1,2) [OF h(4)] by simp
qed

lemma in_flight_tail: "p \<noteq> [] \<Longrightarrow> in_flight p = in_flight (tl p) @ (case hd p of None \<Rightarrow> [] | Some e \<Rightarrow> [e])"
  by (cases p) auto

text \<open>
  C8: a cycle of the in-order pipeline that returns refines the abstract pipeline: in every successor the
  instructions have stayed or moved on by one place, the fetched one is that of the program counter, and
  the time has advanced by one, also when the memory was fast-forwarded.  The fetched instruction behind
  another one is dropped only when that one is a branch, call or return that leaves the execute stage
  and does not load, or leaves the memory stage and loads; elements that are not instructions of the
  program run out of the pipeline.  No instruction of the program that is at least decoded is lost.
\<close>

theorem in_order_cycle_refines:
  assumes "io_cycle C ins2ctx s = Some res" "s' \<in> set res"
  shows "io_wb_fin s = None \<and> pipe_cycle (in_program C) (redirects C) (mu_pc s) (io_stages s) (io_stages s') \<and> mu_time s' = ic_inc (mu_time s) \<and>
    subseq (filter (in_program C) (in_flight (tl (io_stages s)))) (in_flight (io_stages s'))"
proof -
  note r = io_cycle_refines [OF assms]
  then have "subseq (filter (in_program C) (in_flight (tl (io_stages s)))) (filter (in_program C) (in_flight (tl (io_stages s'))))"
    using stage_moves_keeps unfolding pipe_cycle_def by (metis subseq_order.order_refl)
  also have "subseq \<dots> (in_flight (tl (io_stages s')))" by (rule subseq_filter_left)
  also have "subseq \<dots> (in_flight (io_stages s'))" using in_flight_tail [of "io_stages s'"] by (simp add: io_stages_def prefix_imp_subseq)
  finally show ?thesis using r by blast
qed

section \<open>Runs\<close>

text \<open>A path of cycles; after each the driver takes the finished instruction out (\<open>isFinal\<close>).\<close>

fun io_path :: "('t, 'l) io_config \<Rightarrow> (minstr \<rightharpoonup> tcontext list) \<Rightarrow> 't in_order \<Rightarrow> 't in_order list \<Rightarrow> bool" where
  "io_path C ins2ctx s [] \<longleftrightarrow> True"
| "io_path C ins2ctx s (x # xs) \<longleftrightarrow>
     (case io_cycle C ins2ctx s of None \<Rightarrow> False | Some res \<Rightarrow> x \<in> set res) \<and> io_path C ins2ctx (x\<lparr>io_wb_fin := None\<rparr>) xs"

definition finished :: "'t in_order \<Rightarrow> exec_elem list" where
  "finished x = (case io_wb_fin x of None \<Rightarrow> [] | Some e \<Rightarrow> [e])"

definition retired :: "'t in_order list \<Rightarrow> exec_elem list" where
  "retired xs = concat (List.map finished xs)"

lemma in_flight_finished: "in_flight (io_stages x) = finished x @ in_flight (io_stages (x\<lparr>io_wb_fin := None\<rparr>))"
  by (simp add: io_stages_def finished_def)

lemma path_cycle:
  "io_path C ins2ctx s (x # xs) \<Longrightarrow> \<exists>res. io_cycle C ins2ctx s = Some res \<and> x \<in> set res"
  by (auto split: option.splits)

lemma path_in_order:
  "io_path C ins2ctx s xs \<Longrightarrow> subseq (retired xs) (in_flight (io_stages s) @ List.map mu_pc (butlast (s # xs)))"
proof (induction xs arbitrary: s)
  case (Cons x xs)
  obtain res where c: "io_cycle C ins2ctx s = Some res" "x \<in> set res" using path_cycle [OF Cons.prems] by blast
  let ?y = "x\<lparr>io_wb_fin := None\<rparr>" and ?pcs = "List.map mu_pc (butlast (x # xs))"
  have pcs: "List.map mu_pc (butlast (?y # xs)) = ?pcs" by (cases xs) simp_all
  have "subseq (in_flight (io_stages x)) (in_flight (io_stages s) @ [mu_pc s])"
    using io_cycle_refines [OF c] by (intro pipe_cycle_order [of "in_program C" "redirects C"]) simp
  then have a: "subseq (finished x @ in_flight (io_stages ?y) @ ?pcs) (in_flight (io_stages s) @ [mu_pc s] @ ?pcs)"
    unfolding in_flight_finished [of x] by (metis append.assoc list_emb_append_mono subseq_order.order_refl)
  have "subseq (retired xs) (in_flight (io_stages ?y) @ ?pcs)" using Cons.IH [of ?y] Cons.prems pcs by simp
  then have "subseq (finished x @ retired xs) (finished x @ in_flight (io_stages ?y) @ ?pcs)" by (simp only: subseq_append')
  from subseq_order.trans [OF this a] show ?case by (simp add: retired_def)
qed (simp add: retired_def)

lemma io_init_empty:
  assumes "io_init C pl = Some s"
  shows "io_stages s = [None, None, None, None, None] \<and> io_exec_times s = [] \<and> io_data_ids s = []"
proof -
  obtain s0 where s0: "io_access_instr C s0 = Some s" "io_stages s0 = [None, None, None, None, None]" "io_exec_times s0 = []" "io_data_ids s0 = []"
    using assms unfolding io_init_def by (cases "mu_init (ioc_prog C) pl") (simp_all add: io_stages_def)
  obtain m r where "s = s0\<lparr>io_memory := m, io_instr_id := r\<rparr>" using access_instr_update [OF s0(1)] by blast
  then show ?thesis using s0(2-4) by (simp add: io_stages_def)
qed

text \<open>
  C9: instructions retire in the order they were fetched: along every run of the in-order pipeline from
  an empty one, the finished instructions with their contexts are a subsequence of the program
  counters the run went through.
\<close>

theorem in_order_retirement:
  assumes "io_init C pl = Some s" "io_path C ins2ctx s xs"
  shows "subseq (retired xs) (List.map mu_pc (butlast (s # xs)))"
proof -
  have "io_stages s = [None, None, None, None, None]"
    using io_init_empty [OF assms(1)] by simp
  then show ?thesis using path_in_order [OF assms(2)] by simp
qed

section \<open>Well-formed states\<close>

text \<open>
  An instruction in the execute stage belongs to the program and has remaining execution times, an empty
  stage has none; there is at most one data access at a time, older than the next one.
\<close>

definition executing_ok :: "('t, 'l) io_config \<Rightarrow> 't in_order \<Rightarrow> bool" where
  "executing_ok C s \<longleftrightarrow> (case io_id_ex s of None \<Rightarrow> io_exec_times s = [] | Some e \<Rightarrow> io_exec_times s \<noteq> [] \<and> in_program C e)"

definition accesses_ok :: "'t in_order \<Rightarrow> bool" where
  "accesses_ok s \<longleftrightarrow> length (io_data_ids s) \<le> 1 \<and> list_all (\<lambda>x. fst x < io_curr_access s) (io_data_ids s)"

definition io_wf :: "('t, 'l) io_config \<Rightarrow> 't in_order \<Rightarrow> bool" where
  "io_wf C s \<longleftrightarrow> executing_ok C s \<and> accesses_ok s"

definition same_execution :: "'t in_order \<Rightarrow> 't in_order \<Rightarrow> bool" where
  "same_execution s x \<longleftrightarrow> io_id_ex x = io_id_ex s \<and> io_exec_times x = io_exec_times s"

definition same_accesses :: "'t in_order \<Rightarrow> 't in_order \<Rightarrow> bool" where
  "same_accesses s x \<longleftrightarrow> io_data_ids x = io_data_ids s \<and> io_curr_access x = io_curr_access s"

lemma same_ok:
  "same_execution s x \<Longrightarrow> executing_ok C s \<Longrightarrow> executing_ok C x"
  "same_accesses s x \<Longrightarrow> accesses_ok s \<Longrightarrow> accesses_ok x"
  by (auto simp: same_execution_def same_accesses_def executing_ok_def accesses_ok_def split: option.splits)

lemma access_data_ok:
  assumes "accessDataFromMemoryTopology C s = Some s'" "io_data_ids s = []"
  shows "accesses_ok s'"
  using assms by (cases rule: access_data_cases) (auto simp: accesses_ok_def)

lemma complete_access_ok:
  assumes "complete_access_stage C i s = Some s'" "accesses_ok s"
  shows "accesses_ok s'"
proof (cases "touches_memory C i")
  case True
  let ?s = "s\<lparr>io_stall_memory := True\<rparr>"
  obtain x where x: "finish_accesses C (io_data_ids s) ?s = Some x"
      "s' = x\<lparr>io_stall_memory := \<not> (io_curr_access x \<ge> ioc_num_accesses C i \<and> io_data_ids x = [])\<rparr>"
    using assms True by (auto simp: complete_access_stage_def)
  have "accesses_ok x"
  proof (cases "io_data_ids s")
    case Nil
    then show ?thesis using x(1) assms(2) by (auto simp: accesses_ok_def)
  next
    case (Cons y ys)
    then have y: "io_data_ids s = [y]" using assms(2) by (simp add: accesses_ok_def)
    then obtain b s1 where s1: "finish_one C y ?s = Some (b, s1)" "x = s1" using x(1) by (auto split: option.splits bool.splits)
    show ?thesis
    proof (cases b)
      case True
      then obtain m where "accessDataFromMemoryTopology C (?s\<lparr>io_memory := m, io_data_ids := filter (\<lambda>z. fst z \<noteq> fst y) (io_data_ids ?s)\<rparr>) = Some s1"
        using finish_one_true [of C y ?s s1] s1(1) by auto
      from access_data_ok [OF this] show ?thesis using y s1(2) by simp
    next
      case False
      then show ?thesis using finish_one_false [of C y ?s s1] s1 assms(2) by (auto simp: accesses_ok_def)
    qed
  qed
  then show ?thesis using x(2) by (simp add: accesses_ok_def)
next
  case False
  then show ?thesis using assms by (simp add: complete_access_stage_def)
qed

lemma write_back_same: "same_execution s (processWriteBackStage C s)" "same_accesses s (processWriteBackStage C s)"
  by (auto simp: same_execution_def same_accesses_def processWriteBackStage_def leave_scopes_def Let_def split: option.splits)

lemma memory_stage_ok:
  assumes "processMemoryStage C ins2ctx s = Some xs" "x \<in> set xs" "accesses_ok s"
  shows "same_execution s x \<and> accesses_ok x"
proof (cases "io_ex_mem s")
  case None
  then have "x = s" using assms by (auto simp: processMemoryStage_def)
  then show ?thesis using assms(3) by (simp add: same_execution_def)
next
  case (Some e)
  obtain i where i: "instr_at C e = Some i" using assms(1) Some by (auto simp: processMemoryStage_def split: option.splits)
  obtain s1 where s1: "complete_access_stage C i s = Some s1" using assms(1) Some i by (auto simp: processMemoryStage_def bind_eq_Some_conv)
  note f = complete_access_fields [OF s1] and ok = complete_access_ok [OF s1 assms(3)]
  show ?thesis
  proof (cases "io_stall_memory s1 \<or> io_mem_wb s1 \<noteq> None")
    case True
    then have "x = s1" using assms Some i s1 by (auto simp: processMemoryStage_def)
    then show ?thesis using f ok by (simp add: same_execution_def)
  next
    case False
    then obtain hz own alts where b: "checkForBranches C ins2ctx True (s1\<lparr>io_interlock := hz, io_mem_wb := io_ex_mem s1\<rparr>) = Some (own, alts)"
        "xs = List.map (\<lambda>x. x\<lparr>io_ex_mem := None\<rparr>) (alts @ [own])"
      using assms(1) Some i s1 by (auto simp: processMemoryStage_def bind_eq_Some_conv)
    obtain y where y: "y \<in> set (own # alts)" "x = y\<lparr>io_ex_mem := None\<rparr>" using b(2) assms(2) by auto
    note r = checkForBranches_result [OF b(1) y(1), unfolded branch_result_def]
    show ?thesis using r f ok y(2) by (auto simp: same_execution_def accesses_ok_def io_stages_def)
  qed
qed

lemma finish_execution_ok:
  assumes "finish_execution C ins2ctx e s = Some xs" "x \<in> set xs" "io_id_ex s = Some e" "executing_ok C s" "accesses_ok s"
  shows "executing_ok C x \<and> accesses_ok x"
proof (cases "instr_at C e")
  case None
  then show ?thesis using assms(3,4) by (simp add: executing_ok_def in_program_def)
next
  case (Some i)
  show ?thesis
  proof (cases "io_ex_mem s")
    case e: None
    let ?t = "s\<lparr>io_ex_mem := io_id_ex s, io_data_ids := [], io_curr_access := 0\<rparr>"
    obtain s1 own alts where b: "accessDataFromMemoryTopology C ?t = Some s1" "checkForBranches C ins2ctx False s1 = Some (own, alts)"
        "xs = List.map (\<lambda>x. x\<lparr>io_id_ex := None, io_exec_times := []\<rparr>) (alts @ [own])"
      using assms(1) Some e by (auto simp: finish_execution_def bind_eq_Some_conv)
    obtain y where y: "y \<in> set (own # alts)" "x = y\<lparr>io_id_ex := None, io_exec_times := []\<rparr>" using b(3) assms(2) by auto
    have "accesses_ok s1" by (rule access_data_ok [OF b(1)]) simp
    then show ?thesis using checkForBranches_result [OF b(2) y(1)] y(2) by (auto simp: branch_result_def accesses_ok_def executing_ok_def)
  next
    case (Some m)
    then have "x = s\<lparr>io_exec_times := [0]\<rparr>" using assms(1,2) \<open>instr_at C e = Some i\<close> by (auto simp: finish_execution_def)
    then show ?thesis using assms(3-5) by (simp add: executing_ok_def accesses_ok_def)
  qed
qed

lemma execute_stage_ok:
  assumes "processExecuteStage C ins2ctx s = Some xs" "x \<in> set xs" "executing_ok C s" "accesses_ok s"
  shows "executing_ok C x \<and> accesses_ok x"
proof (cases "io_id_ex s")
  case None
  then have "x = s" using assms(1,2) by (auto simp: processExecuteStage_def split: if_splits)
  then show ?thesis using assms(3,4) by simp
next
  case (Some e)
  show ?thesis
  proof (cases "\<exists>ys. finish_execution C ins2ctx e s = Some ys \<and> x \<in> set ys")
    case True
    then show ?thesis using finish_execution_ok [of C ins2ctx e s] Some assms(3,4) by blast
  next
    case False
    then have "x = s \<or> (\<exists>ts. ts \<noteq> [] \<and> x = s\<lparr>io_exec_times := ts\<rparr>)"
      using assms(1,2) Some by (auto simp: processExecuteStage_def Let_def split: if_splits)
    then show ?thesis using assms(3,4) Some by (auto simp: executing_ok_def accesses_ok_def)
  qed
qed

lemma decode_stage_ok:
  assumes "processInstructionDecodeStage C s = Some x" "executing_ok C s" "accesses_ok s" "\<And>oc ts. ioc_exec_times C oc = Some ts \<Longrightarrow> ts \<noteq> []"
  shows "executing_ok C x \<and> accesses_ok x"
proof (cases "\<exists>e. io_if_id s = Some e \<and> io_id_ex s = None")
  case True
  then obtain e where e: "io_if_id s = Some e" "io_id_ex s = None" by blast
  show ?thesis
  proof (cases "instr_at C e")
    case None
    then show ?thesis using assms e by (auto simp: processInstructionDecodeStage_def executing_ok_def accesses_ok_def)
  next
    case (Some i)
    then show ?thesis using assms e by (auto simp: processInstructionDecodeStage_def executing_ok_def accesses_ok_def in_program_def)
  qed
next
  case False
  then have "x = s" using assms by (cases "io_if_id s") (auto simp: processInstructionDecodeStage_def)
  then show ?thesis using assms by simp
qed

lemma fetch_stage_ok:
  assumes "processInstructionFetchStage C s = Some x" "executing_ok C s" "accesses_ok s"
  shows "executing_ok C x \<and> accesses_ok x"
proof -
  have "io_id_ex x = io_id_ex s \<and> io_exec_times x = io_exec_times s \<and> io_data_ids x = io_data_ids s \<and> io_curr_access x = io_curr_access s"
    by (cases rule: fetch_stage_cases [OF assms(1)]) (simp_all add: io_stages_def)
  then have "same_execution s x" "same_accesses s x" by (simp_all add: same_execution_def same_accesses_def)
  then show ?thesis using same_ok assms(2,3) by blast
qed

lemma process_stages_ok:
  assumes "process_stages C ins2ctx s = Some ys" "y \<in> set ys" "io_wf C s" "\<And>oc ts. ioc_exec_times C oc = Some ts \<Longrightarrow> ts \<noteq> []"
  shows "io_wf C y"
proof -
  let ?f = "\<lambda>x. Option.bind (processInstructionDecodeStage C x) (processInstructionFetchStage C)"
  obtain ms where ms: "processMemoryStage C ins2ctx (processWriteBackStage C s) = Some ms"
      "all_cases (\<lambda>m. Option.bind (processExecuteStage C ins2ctx m) (\<lambda>xs. those (List.map ?f xs))) ms = Some ys"
    using assms(1) by (auto simp: process_stages_def bind_eq_Some_conv)
  obtain m zs where m: "m \<in> set ms" "Option.bind (processExecuteStage C ins2ctx m) (\<lambda>xs. those (List.map ?f xs)) = Some zs" "y \<in> set zs"
    using all_cases_reached [OF ms(2) assms(2)] by blast
  obtain xs where xs: "processExecuteStage C ins2ctx m = Some xs" "those (List.map ?f xs) = Some zs"
    using m(2) by (auto simp: bind_eq_Some_conv)
  obtain x d where x: "x \<in> set xs" "processInstructionDecodeStage C x = Some d" "processInstructionFetchStage C d = Some y"
    using those_member [OF xs(2) m(3)] by (auto simp: bind_eq_Some_conv)
  have "executing_ok C (processWriteBackStage C s)" "accesses_ok (processWriteBackStage C s)"
    using same_ok(1) [OF write_back_same(1)] same_ok(2) [OF write_back_same(2)] assms(3) unfolding io_wf_def by blast+
  then have "executing_ok C m \<and> accesses_ok m" using memory_stage_ok [OF ms(1) m(1)] same_ok(1) by blast
  then have "executing_ok C x \<and> accesses_ok x" using execute_stage_ok [OF xs(1) x(1)] by blast
  then have "executing_ok C d \<and> accesses_ok d" using decode_stage_ok [OF x(2)] assms(4) by blast
  then show ?thesis using fetch_stage_ok [OF x(3)] by (simp add: io_wf_def)
qed

lemma memory_update_wf: "memory_update s x \<Longrightarrow> io_wf C s \<Longrightarrow> io_wf C x"
  by (auto simp: memory_update_def io_wf_def executing_ok_def accesses_ok_def split: option.splits)

lemma io_cycle_wf:
  assumes "io_cycle C ins2ctx s = Some res" "z \<in> set res" "io_wf C s" "\<And>oc ts. ioc_exec_times C oc = Some ts \<Longrightarrow> ts \<noteq> []"
  shows "io_wf C z"
proof -
  let ?s = "s\<lparr>io_stall_memory := False, io_interlock := False, mu_time := ic_inc (mu_time s)\<rparr>"
  obtain x ys y where h: "memory_update ?s x" "io_successors C ins2ctx x = Some ys" "y \<in> set ys" "memory_update y z"
    by (rule io_cycle_elim [OF assms(1,2)])
  have "io_wf C ?s" using assms(3) by (auto simp: io_wf_def executing_ok_def accesses_ok_def split: option.splits)
  then have x: "io_wf C x" by (rule memory_update_wf [OF h(1)])
  have "io_wf C y"
  proof (cases "y = x")
    case False
    then have "process_stages C ins2ctx x = Some ys" using h(2,3) by (auto simp: io_successors_def bind_eq_Some_conv split: if_splits)
    then show ?thesis by (rule process_stages_ok [OF _ h(3) x assms(4)])
  qed (use x in simp)
  then show ?thesis by (rule memory_update_wf [OF h(4)])
qed

text \<open>
  C40: the states of the in-order pipeline are well-formed along every sequence of cycles that return, from
  its initial state on, given that no entry of the table of execution times is empty: the execute stage
  holds an instruction of the program together with its remaining times, or neither, and at most one data
  access is pending, which is older than the next one.
\<close>

theorem in_order_wellformed:
  assumes "io_init C pl = Some s" "io_path C ins2ctx s xs" "x \<in> set xs" "\<And>oc ts. ioc_exec_times C oc = Some ts \<Longrightarrow> ts \<noteq> []"
  shows "io_wf C x"
proof -
  have "io_wf C s" using io_init_empty [OF assms(1)] by (simp add: io_wf_def executing_ok_def accesses_ok_def io_stages_def)
  with assms(2,3) show ?thesis
  proof (induction xs arbitrary: s)
    case (Cons y ys)
    obtain res where c: "io_cycle C ins2ctx s = Some res" "y \<in> set res" using path_cycle [OF Cons.prems(1)] by blast
    have y: "io_wf C y" by (rule io_cycle_wf [OF c Cons.prems(3) assms(4)])
    then have "io_wf C (y\<lparr>io_wb_fin := None\<rparr>)" by (auto simp: io_wf_def executing_ok_def accesses_ok_def split: option.splits)
    then show ?case using Cons.IH [of "y\<lparr>io_wb_fin := None\<rparr>"] Cons.prems y by auto
  qed simp
qed

section \<open>A concrete run\<close>

text \<open>The program of two functions on a memory with a latency of four cycles and two per word.\<close>

definition two_config :: "((fixed_latency, fixed_latency) separate_topology, interval_counter \<times> interval_counter) io_config" where
  "two_config = \<lparr>ioc_prog = two_env,
     ioc_topology = separate_topology_of ex_env example_topology (fl_memory example_fixed) (fl_memory example_fixed),
     ioc_exec_times = (\<lambda>oc. Some [1]), ioc_num_accesses = (\<lambda>i. 0), ioc_access_address = (\<lambda>i ctx n. aa_of_address 0),
     ioc_needs_scopes = False, ioc_entering = (\<lambda>e. []), ioc_leaving = (\<lambda>e. []), ioc_strict_inorder = False,
     ioc_unblock_stores = False\<rparr>"

definition first_successor :: "(fixed_latency, fixed_latency) separate_topology in_order \<Rightarrow> (fixed_latency, fixed_latency) separate_topology in_order" where
  "first_successor s = hd (the (io_cycle two_config [((0, 0), 0) \<mapsto> [two_call_ctx]] s))"

definition two_start :: "(fixed_latency, fixed_latency) separate_topology in_order" where
  "two_start = the (io_init two_config (((0, 0), 0), two_call_ctx))"

fun two_run :: "nat \<Rightarrow> (fixed_latency, fixed_latency) separate_topology in_order \<Rightarrow> (fixed_latency, fixed_latency) separate_topology in_order list" where
  "two_run 0 s = []"
| "two_run (Suc n) s = (let x = first_successor s in x # two_run n (x\<lparr>io_wb_fin := None\<rparr>))"

lemma two_starts: "io_init two_config (((0, 0), 0), two_call_ctx) = Some two_start"
proof -
  have "io_init two_config (((0, 0), 0), two_call_ctx) \<noteq> None" by code_simp
  then show ?thesis by (auto simp: two_start_def)
qed

lemma two_path: "io_path two_config [((0, 0), 0) \<mapsto> [two_call_ctx]] two_start (two_run 6 two_start)"
  by code_simp

theorem in_order_cycle_refines_witness:
  "\<exists>res. io_cycle two_config [((0, 0), 0) \<mapsto> [two_call_ctx]] two_start = Some res \<and> res \<noteq> [] \<and>
     (\<forall>s' \<in> set res. pipe_cycle (in_program two_config) (redirects two_config) (mu_pc two_start) (io_stages two_start) (io_stages s'))"
proof -
  have "map_option (\<lambda>res. res \<noteq> []) (io_cycle two_config [((0, 0), 0) \<mapsto> [two_call_ctx]] two_start) = Some True" by code_simp
  then obtain res where res: "io_cycle two_config [((0, 0), 0) \<mapsto> [two_call_ctx]] two_start = Some res" "res \<noteq> []" by auto
  then show ?thesis using in_order_cycle_refines [OF res(1)] by blast
qed

theorem in_order_retirement_witness:
  "retired (two_run 6 two_start) = [(0x8000, two_call_ctx)] \<and>
     subseq [(0x8000, two_call_ctx)] (List.map mu_pc (butlast (two_start # two_run 6 two_start)))"
proof -
  have "retired (two_run 6 two_start) = [(0x8000, two_call_ctx)]" by code_simp
  then show ?thesis using in_order_retirement [OF two_starts two_path] by simp
qed

theorem in_order_wellformed_witness:
  "io_wf two_config (two_run 6 two_start ! 3) \<and> io_wf two_config (last (two_run 6 two_start)) \<and> length (two_run 6 two_start) = 6"
proof -
  have "ioc_exec_times two_config oc = Some ts \<Longrightarrow> ts \<noteq> []" for oc ts by (auto simp: two_config_def)
  then have wf: "x \<in> set (two_run 6 two_start) \<Longrightarrow> io_wf two_config x" for x
    using in_order_wellformed [OF two_starts two_path] by blast
  have "length (two_run n s) = n" for n s by (induction n arbitrary: s) (simp_all add: Let_def)
  then have len: "length (two_run 6 two_start) = 6" .
  then have "two_run 6 two_start \<noteq> []" by auto
  with len show ?thesis by (auto intro!: wf)
qed

end
