(* ===== verification/Spec2Isabelle.thy ===== *)
theory Spec2Isabelle
  imports TA_Cache_Properties TA_Multicore TA_Persistence_Properties TA_Cycling_Memory_Properties TA_Dirtiness_Runs TA_Cached_Topology_Properties TA_Static_Address_Properties TA_Call_Graph_Properties TA_Partition_Properties TA_Micro_State_Properties TA_In_Order_Properties
begin

text \<open>
  A verification library for the memory hierarchy and the program model of llvmta, a static timing analysis
  of machine code.

  \<^bold>\<open>The program.\<close>  llvmta bounds the time, or the number of cache misses and bus accesses, of a program at
  machine level.  It explores the states of a microarchitecture abstractly: a pipeline
  (\<open>include/MicroarchitecturalAnalysis\<close>) fetches, loads and stores through a memory topology, which
  has caches, and background memories that take several cycles.  Where the abstract state does not
  determine what happens, a cycle returns several successors.  A path analysis (\<open>include/PathAnalysis\<close>)
  maximises the time over the explored graph.  Whether a bound is sound rests on the memory hierarchy
  (\<open>include/Memory\<close>): a classification as a hit must be a hit of the hardware, a dirty line that may be
  written back must be accounted for, a memory access must not finish later than explored.  Which
  instructions are explored at all rests on the program model: addresses, calls, contexts, branches
  and returns.  The library models these two parts and the in-order pipeline between them.

  \<^bold>\<open>Conventions.\<close>  Machine integers are words of their width (addresses and counters \<open>32 word\<close>) with
  wrap-around, ages, which are bytes, naturals with the increment modulo 256 written out, or \<open>int\<close> where the code converts them to \<open>int\<close>.  An operation that can stop at a
  failed \<open>assert\<close> has an option as its result, \<open>None\<close> being the failure; loops of the code that need not end are
  partial functions with \<open>None\<close> for never returning.  A list of states is the list of
  cases the analysis continues with.  Template parameters and virtual methods are records of
  functions; command line options are fields of records.  A \<open>GlobalVariable\<close> of LLVM is a number; its base address and
  size, which a static address provider computes, are fields of \<open>ana_env\<close>.

  \<^bold>\<open>Cache sets.\<close>  \<open>TA_Lattice\<close> models \<open>progana/Lattice.h\<close>, \<open>BitstringDomain.h\<close> and \<open>Classification.h\<close>; \<open>TA_Implicit_Set\<close>
  finite and co-finite sets (\<open>ImplicitSet.h\<close>); \<open>TA_Address\<close> the dimensions of a cache and the mapping of addresses to lines,
  sets and tags (\<open>CacheTraits.h\<close>, \<open>CacheUtils.h\<close>, \<open>AbstractAddress.h\<close>); \<open>TA_Reports\<close> the update
  reports; \<open>TA_LRU\<close> is the reference, an LRU set as the list of its tags.  \<open>TA_Must\<close> models \<open>LruMaxAgeAbstractCache.h\<close>,
  \<open>TA_May\<close> \<open>LruMinAgeAbstractCache.h\<close>, with \<open>_Correct\<close> for invariants, refinement of the textbook update on ages and joins, and
  \<open>_Sound\<close> for soundness against the reference.  \<open>TA_Compositional\<close> puts two analyses side by side.  \<open>TA_Set_Analysis\<close> is the contract
  of a cache set analysis, a locale that all of them are instances of.  \<open>TA_Dirtiness\<close> models \<open>DirtinessAnalysis.h\<close>; \<open>_Sound\<close>,
  \<open>_Properties\<close> and \<open>_Runs\<close> show it sound along runs of a write-back set.  \<open>TA_Persistence\<close> models the set-wise, element-wise and
  conditional persistence analyses, \<open>TA_Multi_Scope\<close> their wrapper for nested scopes; \<open>TA_Persistence_Sound\<close>
  has their contract, \<open>TA_Persistence_Properties\<close> their soundness and the two cases that are unsound.

  \<^bold>\<open>Whole caches.\<close>  \<open>TA_Shared_Storage\<close> models the sharing of equal set states (\<open>SharedStorage.h\<close>), \<open>TA_Ordered_Map\<close> the ordered maps of the
  C++ library.  \<open>TA_Abstract_Cache\<close> models \<open>AbstractCache.h\<close>: classification, update and potential update of a
  vector of sets for an interval of addresses.  \<open>TA_Abstract_Cache_Sound\<close> lifts the contract of a set to the
  cache, \<open>TA_Cache_Properties\<close> states it for must and may analysis together, for accesses, joins and runs, and
  shows the inputs on which the address arithmetic goes wrong.

  \<^bold>\<open>Memories.\<close>  \<open>TA_Interval_Counter\<close> models the counters of \<open>IntervalCounter.h\<close>.  \<open>TA_Cycling_Memory\<close> models the fixed-latency memory, the SDRAM with refresh, and the
  wrappers that count accesses and busy cycles or block the bus.  \<open>_Sound\<close> is their contract, the set of
  times an access may still take; \<open>_Wrappers\<close> shows that the wrappers preserve it, \<open>_Instances\<close> discharges it for
  the memories, and \<open>_Properties\<close> gives exact access times in every reachable state.

  \<^bold>\<open>Topologies.\<close>  \<open>TA_Topology\<close> models the interface the pipeline sees and the topologies without caches
  (\<open>SingleMemoryTopology.h\<close>, \<open>SeparateMemoriesTopology.h\<close>), \<open>TA_Topology_Sound\<close> and \<open>TA_Topology_Properties\<close> their
  invariant, their only failing assertion and access times.  \<open>TA_Cached_Topology\<close> models
  \<open>JJYSeparateCachesMemoryTopology.h\<close>, two first-level caches and a shared second level over any topology; its properties are
  the explored outcomes of an access, access times after a start, and defects of the write-back handling.
  \<open>TA_Multicore\<close> models the task tables of \<open>muticoreinfo.h\<close> and which tasks may run at the same time.

  \<^bold>\<open>The program.\<close>  \<open>TA_Program\<close> models machine code as a record and the functions of \<open>lib/Util/Util.cpp\<close> on its
  control flow, \<open>TA_Call_Graph\<close> the functions by name and \<open>CallGraph.cpp\<close>, \<open>TA_Static_Address\<close> the placement in memory
  (\<open>StaticAddressProvider.cpp\<close>).  \<open>TA_Partition\<close> models the tokens, directives and contexts of \<open>lib/PartitionUtil\<close>: \<open>_Loops\<close> shows that
  the context at the end of a path is the stack of the loops around it with their iterations, \<open>_Properties\<close> that calls
  are bracketed and what a call keeps of a context.  \<open>TA_Micro_State\<close> models \<open>MicroArchitecturalState.h\<close> and \<open>ProgramCounter.cpp\<close>, the
  part of a state that all pipelines share; its properties are that branches and returns lose no successor and record what they assumed.

  \<^bold>\<open>The pipeline.\<close>  \<open>TA_In_Order\<close> models the five-stage pipeline of \<open>InOrderPipelineState.h\<close> over the interface of a memory
  topology; the execution times, the address analysis and the persistence scopes on edges are functions of its
  configuration.  \<open>_Properties\<close> shows that a cycle refines a pipeline in which instructions only move on by a place,
  that instructions retire in the order of their fetch, and an invariant of the states; it runs a program of two functions.

  \<^bold>\<open>Bounds.\<close>  Ages fit a byte, so associativities are at most 255; intervals of addresses are supposed not
  to reach the last line, where a loop of the code does not end.  Counters are supposed not to wrap where a property
  counts.  Loops are structural or terminate by a measure, and those that need not end are partial functions.  Only the
  walks through empty basic blocks have fuel, one more than the number of blocks of the function: a longer walk visits a
  block twice and never ends in the code, which the model gives as \<open>None\<close>.

  \<^bold>\<open>Not modelled.\<close>  Printing, hashing and statistics.  The other pipelines, the fixed-point iteration of the analysis
  framework, the address and path analyses are listed as not modelled in the manifest, as are the
  array-aware must analysis and the analyses of preemption delay.  Solvers, LLVM passes, options and
  the benchmarks are input, output or glue.
\<close>

end
